(* ===== verification/Pst_Prelude.thy ===== *)
theory Pst_Prelude
  imports Main "HOL-Library.Word"
begin

text \<open>
  The prelude of the development: the exceptions a read can end in, the result type every fallible
  operation returns, Python's byte strings with their slices and indexing, and \<open>struct\<close> (the
  little-endian unpacking every parser starts from), with the lemmas and the named collections
  (\<open>res_simps\<close>, \<open>res_elims\<close>, \<open>pst_errs\<close>) that the component theories share.
\<close>

named_theorems res_simps "equations that open a sequence of fallible steps"
named_theorems pst_errs "operations from which only a PstError escapes"

section \<open>Exceptions\<close>

text \<open>
  \<open>src/pypstreader/errors.py\<close>. The first four constructors are the package's own classes; the rest
  are the builtin exceptions the source could provoke, kept apart so that a claim that none of them
  escapes is a claim about the model. An exception's message is not modelled.
\<close>

datatype error =
    PstFormatError
  | PstUnsupportedError
  | PstLimitError
  | PstNotFoundError
  | StructError
  | IndexError
  | ZeroDivisionError
  | ValueError
  | TypeError
  | UnicodeError
  | AssertionError
  | RecursionError

fun is_pst_error :: "error \<Rightarrow> bool" where
  "is_pst_error PstFormatError = True"
| "is_pst_error PstUnsupportedError = True"
| "is_pst_error PstLimitError = True"
| "is_pst_error PstNotFoundError = True"
| "is_pst_error _ = False"

text \<open>What \<open>except PstFormatError\<close> catches: \<open>PstNotFoundError\<close> is its subclass.\<close>

fun is_format_error :: "error \<Rightarrow> bool" where
  "is_format_error PstFormatError = True"
| "is_format_error PstNotFoundError = True"
| "is_format_error _ = False"

lemma format_error_is_pst_error: "is_format_error e \<Longrightarrow> is_pst_error e"
  by (cases e) auto

type_synonym 'a result = "error + 'a"

definition ebind :: "'a result \<Rightarrow> ('a \<Rightarrow> 'b result) \<Rightarrow> 'b result" where
  "ebind m f = (case m of Inl e \<Rightarrow> Inl e | Inr x \<Rightarrow> f x)"

text \<open>\<open>if c: raise e\<close>, as a step of a sequence.\<close>

definition raise_if :: "bool \<Rightarrow> error \<Rightarrow> unit result" where
  "raise_if c e = (if c then Inl e else Inr ())"

text \<open>\<open>try: m except a: raise b\<close>.\<close>

definition reraise :: "error \<Rightarrow> error \<Rightarrow> 'a result \<Rightarrow> 'a result" where
  "reraise a b m = (case m of Inl e \<Rightarrow> Inl (if e = a then b else e) | Inr x \<Rightarrow> Inr x)"

text \<open>\<open>tuple(f(x) for x in xs)\<close>: the first exception ends it.\<close>

fun emap :: "('a \<Rightarrow> 'b result) \<Rightarrow> 'a list \<Rightarrow> 'b list result" where
  "emap f [] = Inr []"
| "emap f (x # xs) = ebind (f x) (\<lambda>y. ebind (emap f xs) (\<lambda>ys. Inr (y # ys)))"

text \<open>\<open>for x in xs: acc = f(acc, x)\<close>, whose body may raise.\<close>

fun efold :: "('a \<Rightarrow> 'b \<Rightarrow> 'a result) \<Rightarrow> 'a \<Rightarrow> 'b list \<Rightarrow> 'a result" where
  "efold f acc [] = Inr acc"
| "efold f acc (x # xs) = ebind (f acc x) (\<lambda>acc'. efold f acc' xs)"

lemma ebind_simps [simp]: "ebind (Inl e) f = Inl e" "ebind (Inr x) f = f x"
  by (simp_all add: ebind_def)

lemma ebind_cong [fundef_cong]:
  "m = m' \<Longrightarrow> (\<And>x. m' = Inr x \<Longrightarrow> f x = g x) \<Longrightarrow> ebind m f = ebind m' g"
  by (cases m') auto

lemma ebind_Inr_iff [res_simps]: "ebind m f = Inr y \<longleftrightarrow> (\<exists>x. m = Inr x \<and> f x = Inr y)"
  by (cases m) auto

lemma ebind_Inl_iff:
  "ebind m f = Inl e \<longleftrightarrow> m = Inl e \<or> (\<exists>x. m = Inr x \<and> f x = Inl e)"
  by (cases m) auto

lemma ebind_assoc: "ebind (ebind m f) g = ebind m (\<lambda>x. ebind (f x) g)"
  by (cases m) auto

lemma raise_if_simps [simp]: "raise_if True e = Inl e" "raise_if False e = Inr ()"
  by (simp_all add: raise_if_def)

lemma raise_if_Inr_iff [res_simps]: "raise_if c e = Inr u \<longleftrightarrow> \<not> c"
  by (simp add: raise_if_def)

lemma raise_if_Inl_iff: "raise_if c e = Inl e' \<longleftrightarrow> c \<and> e' = e"
  by (auto simp: raise_if_def)

lemma reraise_simps [simp]:
  "reraise a b (Inr x) = Inr x" "reraise a b (Inl e) = Inl (if e = a then b else e)"
  by (simp_all add: reraise_def)

lemma reraise_Inr_iff [res_simps]: "reraise a b m = Inr x \<longleftrightarrow> m = Inr x"
  by (cases m) auto

lemma emap_length: "emap f xs = Inr ys \<Longrightarrow> length ys = length xs"
  by (induction xs arbitrary: ys) (auto simp: res_simps)

lemma emap_nth: "emap f xs = Inr ys \<Longrightarrow> i < length xs \<Longrightarrow> f (xs ! i) = Inr (ys ! i)"
  by (induction xs arbitrary: ys i) (auto simp: res_simps nth_Cons split: nat.splits)

lemma emap_Inr_map: "(\<And>x. x \<in> set xs \<Longrightarrow> f x = Inr (g x)) \<Longrightarrow> emap f xs = Inr (map g xs)"
  by (induction xs) auto

lemma emap_map: "emap f (map g xs) = emap (\<lambda>x. f (g x)) xs"
  by (induction xs) auto

lemma emap_cong [fundef_cong]:
  "xs = ys \<Longrightarrow> (\<And>x. x \<in> set ys \<Longrightarrow> f x = g x) \<Longrightarrow> emap f xs = emap g ys"
  by (induction ys arbitrary: xs) auto

lemma emap_set: "emap f xs = Inr ys \<Longrightarrow> y \<in> set ys \<Longrightarrow> \<exists>x \<in> set xs. f x = Inr y"
  by (metis emap_length emap_nth in_set_conv_nth)

lemma emap_Inr_iff: "emap f xs = Inr ys \<longleftrightarrow> list_all2 (\<lambda>x y. f x = Inr y) xs ys"
  by (induction xs arbitrary: ys) (auto simp: ebind_Inr_iff list_all2_Cons1)

lemma efold_append: "efold f acc (xs @ ys) = ebind (efold f acc xs) (\<lambda>acc'. efold f acc' ys)"
  by (induction xs arbitrary: acc) (auto simp: ebind_assoc)

lemma efold_Inr_foldl: "(\<And>a x. x \<in> set xs \<Longrightarrow> f a x = Inr (g a x)) \<Longrightarrow> efold f acc xs = Inr (foldl g acc xs)"
  by (induction xs arbitrary: acc) auto

lemma emap_InlE: "emap f xs = Inl e \<Longrightarrow> \<exists>x \<in> set xs. f x = Inl e"
  by (induction xs) (auto simp: ebind_Inl_iff)

subsection \<open>Only a PstError escapes\<close>

text \<open>
  The discipline of \<open>errors.py\<close>: a public entry point raises a \<open>PstError\<close> and nothing else.
  \<open>fails_closed m\<close> says it of one result; the rules below carry it through a sequence of steps.
\<close>

definition fails_closed :: "'a result \<Rightarrow> bool" where
  "fails_closed m \<longleftrightarrow> (\<forall>e. m = Inl e \<longrightarrow> is_pst_error e)"

lemma fails_closed_Inr [simp, intro]: "fails_closed (Inr x)"
  by (simp add: fails_closed_def)

lemma fails_closed_Inl [simp]: "fails_closed (Inl e) \<longleftrightarrow> is_pst_error e"
  by (simp add: fails_closed_def)

lemma fails_closed_ebind [intro]:
  "fails_closed m \<Longrightarrow> (\<And>x. m = Inr x \<Longrightarrow> fails_closed (f x)) \<Longrightarrow> fails_closed (ebind m f)"
  by (cases m) auto

lemma fails_closed_raise_if [simp, intro]: "is_pst_error e \<Longrightarrow> fails_closed (raise_if c e)"
  by (simp add: raise_if_def)

lemma fails_closed_emap [intro]:
  "(\<And>x. x \<in> set xs \<Longrightarrow> fails_closed (f x)) \<Longrightarrow> fails_closed (emap f xs)"
  by (auto simp: fails_closed_def dest: emap_InlE)

lemma fails_closed_efold [intro]:
  "(\<And>acc x. x \<in> set xs \<Longrightarrow> fails_closed (f acc x)) \<Longrightarrow> fails_closed (efold f acc xs)"
  by (induction xs arbitrary: acc) (auto intro!: fails_closed_ebind)

lemma fails_closed_if [intro]:
  "(c \<Longrightarrow> fails_closed a) \<Longrightarrow> (\<not> c \<Longrightarrow> fails_closed b) \<Longrightarrow> fails_closed (if c then a else b)"
  by simp

lemma fails_closedD: "fails_closed m \<Longrightarrow> m = Inl e \<Longrightarrow> is_pst_error e"
  by (simp add: fails_closed_def)

subsection \<open>Operations on an object that remembers\<close>

text \<open>
  A method that updates its object's state: the result, and the state it leaves behind (whether it
  returns or raises, as in the source).
\<close>

type_synonym ('s, 'a) st = "'s \<Rightarrow> 'a result \<times> 's"

definition sret :: "'a \<Rightarrow> ('s, 'a) st" where
  "sret x s = (Inr x, s)"

definition slift :: "'a result \<Rightarrow> ('s, 'a) st" where
  "slift m s = (m, s)"

definition sbind :: "('s, 'a) st \<Rightarrow> ('a \<Rightarrow> ('s, 'b) st) \<Rightarrow> ('s, 'b) st" where
  "sbind m f s = (case m s of (Inl e, s') \<Rightarrow> (Inl e, s') | (Inr x, s') \<Rightarrow> f x s')"

definition sget :: "('s, 's) st" where
  "sget s = (Inr s, s)"

definition sput :: "'s \<Rightarrow> ('s, unit) st" where
  "sput s' s = (Inr (), s')"

fun smap :: "('a \<Rightarrow> ('s, 'b) st) \<Rightarrow> 'a list \<Rightarrow> ('s, 'b list) st" where
  "smap f [] = sret []"
| "smap f (x # xs) = sbind (f x) (\<lambda>y. sbind (smap f xs) (\<lambda>ys. sret (y # ys)))"

lemma st_simps [simp]:
  "sret x s = (Inr x, s)" "slift m s = (m, s)" "sget s = (Inr s, s)" "sput s' s = (Inr (), s')"
  by (simp_all add: sret_def slift_def sget_def sput_def)

lemma sbind_cong [fundef_cong]:
  "s = s' \<Longrightarrow> m s' = m' s' \<Longrightarrow> (\<And>x s1. m' s' = (Inr x, s1) \<Longrightarrow> f x s1 = g x s1) \<Longrightarrow>
   sbind m f s = sbind m' g s'"
  by (cases "m' s'"; cases "fst (m' s')") (auto simp: sbind_def)

lemma sbind_Inr: "m s = (Inr x, s1) \<Longrightarrow> sbind m f s = f x s1"
  by (simp add: sbind_def)

lemma sbind_Inl: "m s = (Inl e, s1) \<Longrightarrow> sbind m f s = (Inl e, s1)"
  by (simp add: sbind_def)

lemma sbind_slift [simp]:
  "sbind (slift (Inr x)) f s = f x s" "sbind (slift (Inl e)) f s = (Inl e, s)"
  by (simp_all add: sbind_def)

lemma sbind_sret [simp]: "sbind (sret x) f s = f x s"
  by (simp add: sbind_def)

lemma sbind_sget [simp]: "sbind sget f s = f s s"
  by (simp add: sbind_def)

lemma sbind_sput [simp]: "sbind (sput s') f s = f () s'"
  by (simp add: sbind_def)

lemma sbind_eq_Inr:
  "sbind m f s = (Inr y, s') \<longleftrightarrow> (\<exists>x s1. m s = (Inr x, s1) \<and> f x s1 = (Inr y, s'))"
  by (auto simp: sbind_def split: prod.splits sum.splits)

lemma sbind_eq_Inl:
  "sbind m f s = (Inl e, s') \<longleftrightarrow>
     m s = (Inl e, s') \<or> (\<exists>x s1. m s = (Inr x, s1) \<and> f x s1 = (Inl e, s'))"
  by (auto simp: sbind_def split: prod.splits sum.splits)

text \<open>What every run of a stateful operation keeps, and what it can raise.\<close>

definition st_keeps :: "('s \<Rightarrow> bool) \<Rightarrow> ('s, 'a) st \<Rightarrow> bool" where
  "st_keeps I m \<longleftrightarrow> (\<forall>s. I s \<longrightarrow> I (snd (m s)) \<and> fails_closed (fst (m s)))"

lemma st_keeps_sret [intro]: "st_keeps I (sret x)"
  by (simp add: st_keeps_def)

lemma st_keeps_slift [intro]: "fails_closed m \<Longrightarrow> st_keeps I (slift m)"
  by (simp add: st_keeps_def)

lemma st_keeps_sbind [intro]:
  "st_keeps I m \<Longrightarrow> (\<And>x s s'. m s = (Inr x, s') \<Longrightarrow> I s \<Longrightarrow> st_keeps I (f x)) \<Longrightarrow> st_keeps I (sbind m f)"
  unfolding st_keeps_def sbind_def
  by (auto split: prod.splits sum.splits)

lemma st_keeps_if [intro]: "(c \<Longrightarrow> st_keeps I a) \<Longrightarrow> (\<not> c \<Longrightarrow> st_keeps I b) \<Longrightarrow> st_keeps I (if c then a else b)"
  by simp

lemma st_keepsD:
  "st_keeps I m \<Longrightarrow> I s \<Longrightarrow> m s = (r, s') \<Longrightarrow> I s' \<and> fails_closed r"
  unfolding st_keeps_def by (metis fst_conv snd_conv)

text \<open>
  A stateful operation against its cache-free meaning: from a state that meets the invariant it
  returns or raises what the pure \<open>p\<close> does, unless (when \<open>exact\<close> is not granted) a resource limit
  stops it first, and it leaves a state that meets the invariant.
\<close>

definition implements :: "('s \<Rightarrow> bool) \<Rightarrow> bool \<Rightarrow> ('s, 'a) st \<Rightarrow> 'a result \<Rightarrow> bool" where
  "implements I exact m p \<longleftrightarrow>
     (\<forall>s. I s \<longrightarrow> I (snd (m s)) \<and> (fst (m s) = p \<or> \<not> exact \<and> fst (m s) = Inl PstLimitError))"

lemma implements_sret [intro]: "p = Inr x \<Longrightarrow> implements I ex (sret x) p"
  by (simp add: implements_def)

lemma implements_slift [intro]: "p = m \<Longrightarrow> implements I ex (slift m) p"
  by (simp add: implements_def)

lemma implements_sbind [intro]:
  assumes m: "implements I ex m p" and f: "\<And>x. p = Inr x \<Longrightarrow> implements I ex (f x) (q x)"
  shows "implements I ex (sbind m f) (ebind p q)"
  unfolding implements_def
proof (intro allI impI)
  fix s assume s: "I s"
  obtain r s1 where run: "m s = (r, s1)" by (cases "m s")
  have s1: "I s1" and r: "r = p \<or> \<not> ex \<and> r = Inl PstLimitError"
    using m s run unfolding implements_def by force+
  show "I (snd (sbind m f s)) \<and>
      (fst (sbind m f s) = ebind p q \<or> \<not> ex \<and> fst (sbind m f s) = Inl PstLimitError)"
  proof (cases r)
    case (Inl e)
    with run s1 r show ?thesis by (auto simp: sbind_def)
  next
    case (Inr x)
    with r have p: "p = Inr x" by auto
    from f [OF p] s1 show ?thesis using run Inr p by (simp add: implements_def sbind_def)
  qed
qed

lemma implements_if [intro]:
  "(c \<Longrightarrow> implements I ex a p) \<Longrightarrow> (\<not> c \<Longrightarrow> implements I ex b q) \<Longrightarrow>
   implements I ex (if c then a else b) (if c then p else q)"
  by simp

lemma implements_smap [intro]:
  "(\<And>x. x \<in> set xs \<Longrightarrow> implements I ex (f x) (g x)) \<Longrightarrow> implements I ex (smap f xs) (emap g xs)"
  by (induction xs) auto

text \<open>\<open>for x in xs: acc = f(acc, x)\<close> over the state, and a run on one field of a larger state.\<close>

fun sfold :: "('a \<Rightarrow> 'b \<Rightarrow> ('s, 'a) st) \<Rightarrow> 'a \<Rightarrow> 'b list \<Rightarrow> ('s, 'a) st" where
  "sfold f acc [] = sret acc"
| "sfold f acc (x # xs) = sbind (f acc x) (\<lambda>acc'. sfold f acc' xs)"

lemma implements_sfold [intro]:
  "(\<And>a x. x \<in> set xs \<Longrightarrow> implements I ex (f a x) (g a x)) \<Longrightarrow> implements I ex (sfold f acc xs) (efold g acc xs)"
  by (induction xs arbitrary: acc) auto

definition szoom :: "('t \<Rightarrow> 's) \<Rightarrow> ('s \<Rightarrow> 't \<Rightarrow> 't) \<Rightarrow> ('s, 'a) st \<Rightarrow> ('t, 'a) st" where
  "szoom get put m t = (let (r, s) = m (get t) in (r, put s t))"

lemma implements_szoom:
  assumes "implements I ex m p" "\<And>t. J t \<Longrightarrow> I (get t)" "\<And>s t. J t \<Longrightarrow> I s \<Longrightarrow> J (put s t)"
  shows "implements J ex (szoom get put m) p"
  using assms unfolding implements_def szoom_def by (auto simp: case_prod_beta Let_def)

text \<open>A value computed on first use and then kept in a field.\<close>

definition smemo :: "('s \<Rightarrow> 'a option) \<Rightarrow> ('a \<Rightarrow> 's \<Rightarrow> 's) \<Rightarrow> ('s, 'a) st \<Rightarrow> ('s, 'a) st" where
  "smemo get put m =
     sbind sget (\<lambda>s.
     case get s of
       Some x \<Rightarrow> sret x
     | None \<Rightarrow> sbind m (\<lambda>x. sbind sget (\<lambda>s'. sbind (sput (put x s')) (\<lambda>_. sret x))))"

lemma implements_smemo:
  assumes m: "implements I ex m p"
    and kept: "\<And>s x. I s \<Longrightarrow> get s = Some x \<Longrightarrow> p = Inr x"
    and keep: "\<And>s x. I s \<Longrightarrow> p = Inr x \<Longrightarrow> I (put x s)"
  shows "implements I ex (smemo get put m) p"
  unfolding implements_def
proof (intro allI impI)
  fix s assume inv: "I s"
  show "I (snd (smemo get put m s)) \<and>
      (fst (smemo get put m s) = p \<or> \<not> ex \<and> fst (smemo get put m s) = Inl PstLimitError)"
  proof (cases "get s")
    case (Some x)
    with inv kept [OF inv Some] show ?thesis by (simp add: smemo_def)
  next
    case None
    obtain r s1 where run: "m s = (r, s1)" by fastforce
    have D: "I s1" "r = p \<or> \<not> ex \<and> r = Inl PstLimitError"
      using m inv run unfolding implements_def by force+
    show ?thesis
    proof (cases r)
      case (Inl e)
      with None run have "smemo get put m s = (r, s1)" by (simp add: smemo_def sbind_def)
      with D show ?thesis by auto
    next
      case (Inr x)
      then have p: "p = Inr x" using D(2) by auto
      have "smemo get put m s = (Inr x, put x s1)" using None run Inr by (simp add: smemo_def sbind_def)
      with p keep [OF D(1) p] show ?thesis by simp
    qed
  qed
qed

text \<open>An object made by a stateful constructor: the value with the state it leaves.\<close>

definition srun :: "('s, 'a) st \<Rightarrow> 's \<Rightarrow> ('a \<times> 's) result" where
  "srun m s = (case m s of (r, s') \<Rightarrow> ebind r (\<lambda>x. Inr (x, s')))"

lemma srun_Inr_iff: "srun m s = Inr (x, s') \<longleftrightarrow> m s = (Inr x, s')"
  by (auto simp: srun_def ebind_Inr_iff split: prod.splits)

lemma srun_closed [intro]: "st_keeps I m \<Longrightarrow> I s \<Longrightarrow> fails_closed (srun m s)"
  by (cases "m s"; cases "fst (m s)") (auto simp: srun_def st_keeps_def)

lemma implementsD:
  "implements I ex m p \<Longrightarrow> I s \<Longrightarrow> m s = (r, s') \<Longrightarrow>
   I s' \<and> (r = p \<or> \<not> ex \<and> r = Inl PstLimitError)"
  unfolding implements_def by (metis fst_conv snd_conv)

lemma implements_Inr: "implements I ex m p \<Longrightarrow> I s \<Longrightarrow> m s = (Inr x, s') \<Longrightarrow> p = Inr x"
  by (drule (2) implementsD) auto

lemma implements_exact: "implements I True m p \<Longrightarrow> I s \<Longrightarrow> fst (m s) = p"
  by (simp add: implements_def)

lemma implements_closed: "implements I ex m p \<Longrightarrow> fails_closed p \<Longrightarrow> st_keeps I m"
  unfolding implements_def st_keeps_def fails_closed_def by (metis is_pst_error.simps(3) sum.inject(1))

text \<open>A run over no state is its result.\<close>

definition st_pure :: "(unit, 'a) st \<Rightarrow> 'a result" where
  "st_pure m = fst (m ())"

lemma st_pure_simps [simp]:
  "st_pure (sret x) = Inr x" "st_pure (slift m) = m" "st_pure (Pair r) = r"
  "st_pure (sbind f g) = ebind (st_pure f) (\<lambda>y. st_pure (g y))"
  "st_pure (if c then f else f') = (if c then st_pure f else st_pure f')"
  by (auto simp: st_pure_def sbind_def ebind_def split: prod.split sum.split)

section \<open>Bytes\<close>

type_synonym byte = "8 word"
type_synonym bytes = "byte list"

text \<open>\<open>buf[a:b]\<close> for the non-negative bounds the source uses.\<close>

definition slice :: "'a list \<Rightarrow> int \<Rightarrow> int \<Rightarrow> 'a list" where
  "slice xs a b = take (nat (b - a)) (drop (nat a) xs)"

text \<open>\<open>len(buf)\<close> as the Python integer it is.\<close>

abbreviation len :: "'a list \<Rightarrow> int" where
  "len xs \<equiv> int (length xs)"

text \<open>\<open>xs[i]\<close>: a negative index counts from the end, and one out of range raises.\<close>

definition py_index :: "'a list \<Rightarrow> int \<Rightarrow> 'a result" where
  "py_index xs i =
     (let j = (if i < 0 then i + len xs else i)
      in if 0 \<le> j \<and> j < len xs then Inr (xs ! nat j) else Inl IndexError)"

text \<open>\<open>a // b\<close> and \<open>a % b\<close>.\<close>

definition py_floordiv :: "int \<Rightarrow> int \<Rightarrow> int result" where
  "py_floordiv a b = (if b = 0 then Inl ZeroDivisionError else Inr (a div b))"

definition py_mod :: "int \<Rightarrow> int \<Rightarrow> int result" where
  "py_mod a b = (if b = 0 then Inl ZeroDivisionError else Inr (a mod b))"

text \<open>\<open>range(0, n, step)\<close> for a positive step.\<close>

definition range_by :: "int \<Rightarrow> int \<Rightarrow> int list" where
  "range_by n step = map (\<lambda>i. int i * step) [0..<nat (- ((- n) div step))]"

text \<open>\<open>f.seek(at); f.read(n)\<close> on a file whose bytes are \<open>file\<close>: at most \<open>n\<close> bytes, fewer at its end.\<close>

definition file_read :: "bytes \<Rightarrow> int \<Rightarrow> int \<Rightarrow> bytes" where
  "file_read file at n = take (nat n) (drop (nat at) file)"

lemma py_index_ok: "0 \<le> i \<Longrightarrow> i < len xs \<Longrightarrow> py_index xs i = Inr (xs ! nat i)"
  by (simp add: py_index_def)

lemma py_floordiv_ok: "b \<noteq> 0 \<Longrightarrow> py_floordiv a b = Inr (a div b)"
  by (simp add: py_floordiv_def)

lemma py_mod_ok: "b \<noteq> 0 \<Longrightarrow> py_mod a b = Inr (a mod b)"
  by (simp add: py_mod_def)

lemma range_by_multiple: "0 < step \<Longrightarrow> range_by (int k * step) step = map (\<lambda>i. int i * step) [0..<k]"
  by (simp add: range_by_def flip: mult_minus_left)

lemma length_slice: "0 \<le> a \<Longrightarrow> a \<le> b \<Longrightarrow> b \<le> len xs \<Longrightarrow> len (slice xs a b) = b - a"
  by (auto simp: slice_def min_def nat_diff_distrib)

lemma concat_nth_split:
  "i < length xs \<Longrightarrow> concat xs = concat (take i xs) @ xs ! i @ concat (drop (Suc i) xs)"
  by (subst id_take_nth_drop [of i xs]) (simp_all del: append_take_drop_id)

lemma slice_full [simp]: "slice xs 0 (len xs) = xs"
  by (simp add: slice_def)

lemma slice_append [simp]:
  "slice (xs @ ys) (len xs) (len xs + len ys) = ys" "slice (xs @ ys) 0 (len xs) = xs"
  by (simp_all add: slice_def)

lemma length_concat_const: "\<forall>x \<in> set ys. len x = n \<Longrightarrow> len (concat ys) = int (length ys) * n"
  by (induction ys) (auto simp: algebra_simps)

lemma slice_concat:
  assumes "\<forall>x \<in> set xs. len x = n" "i < length xs" "0 \<le> a" "a \<le> b" "b \<le> n"
  shows "slice (concat xs) (int i * n + a) (int i * n + b) = slice (xs ! i) a b"
proof -
  let ?pre = "concat (take i xs)" and ?post = "concat (drop (Suc i) xs)"
  have split: "concat xs = ?pre @ xs ! i @ ?post"
    by (rule concat_nth_split [OF assms(2)])
  have pre: "len ?pre = int i * n" using length_concat_const [of "take i xs" n] assms(1,2) by (auto dest: in_set_takeD)
  have x: "len (xs ! i) = n" using assms(1,2) by simp
  have "nat (int i * n + a) = length ?pre + nat a"
    using pre assms(3) by linarith
  then show ?thesis
    unfolding split slice_def using x assms(3-5) by simp
qed

text \<open>The offsets at which consecutive pieces start, and where the last one ends.\<close>

fun item_offsets :: "int \<Rightarrow> bytes list \<Rightarrow> int list" where
  "item_offsets a [] = [a]"
| "item_offsets a (x # xs) = a # item_offsets (a + len x) xs"

lemma item_offsets_length [simp]: "length (item_offsets a xs) = Suc (length xs)"
  by (induction xs arbitrary: a) auto

lemma item_offsets_nth: "k \<le> length xs \<Longrightarrow> item_offsets a xs ! k = a + len (concat (take k xs))"
  by (induction xs arbitrary: a k) (auto simp: nth_Cons split: nat.split)

lemma item_offsets_range: "0 \<le> a \<Longrightarrow> x \<in> set (item_offsets a xs) \<Longrightarrow> 0 \<le> x \<and> x \<le> a + len (concat xs)"
proof (induction xs arbitrary: a)
  case (Cons y xs)
  show ?case
  proof (cases "x = a")
    case False
    then have "x \<in> set (item_offsets (a + len y) xs)" using Cons.prems by simp
    from Cons.IH [OF _ this] Cons.prems(1) show ?thesis by simp
  qed (use Cons.prems in simp)
qed simp

text \<open>Consecutive slices make up the whole.\<close>

lemma slice_join: "0 \<le> a \<Longrightarrow> a \<le> b \<Longrightarrow> b \<le> c \<Longrightarrow> slice xs a b @ slice xs b c = slice xs a c"
proof -
  assume *: "0 \<le> a" "a \<le> b" "b \<le> c"
  then have "nat (c - a) = nat (b - a) + nat (c - b)" "nat b = nat (b - a) + nat a"
    by simp_all
  then show ?thesis by (simp add: slice_def take_add)
qed

lemma slice_chain:
  assumes "\<forall>i < n. c i \<le> c (Suc i)" "0 \<le> c 0"
  shows "concat (map (\<lambda>i. slice xs (c i) (c (Suc i))) [0..<n]) = slice xs (c 0) (c n)"
  using assms(1)
proof (induction n)
  case 0
  show ?case by (simp add: slice_def)
next
  case (Suc n)
  have le: "c 0 \<le> c n" using Suc.prems by (induction n) (auto, metis less_Suc_eq order_trans)
  have "concat (map (\<lambda>i. slice xs (c i) (c (Suc i))) [0..<Suc n]) = slice xs (c 0) (c n) @ slice xs (c n) (c (Suc n))"
    using Suc by simp
  also have "\<dots> = slice xs (c 0) (c (Suc n))"
    using le Suc.prems assms(2) by (intro slice_join) auto
  finally show ?case .
qed

subsection \<open>Little-endian integers\<close>

fun le_int :: "bytes \<Rightarrow> int" where
  "le_int [] = 0"
| "le_int (b # bs) = uint b + 256 * le_int bs"

fun le_bytes :: "nat \<Rightarrow> int \<Rightarrow> bytes" where
  "le_bytes 0 x = []"
| "le_bytes (Suc n) x = word_of_int (x mod 256) # le_bytes n (x div 256)"

text \<open>\<open>int.from_bytes(data, "little", signed=True)\<close> and the signed \<open>struct\<close> codes.\<close>

definition le_sint :: "bytes \<Rightarrow> int" where
  "le_sint bs = (let v = le_int bs; m = 256 ^ length bs in if 2 * v < m then v else v - m)"

lemma le_int_nonneg [simp]: "0 \<le> le_int bs"
  by (induction bs) auto

lemma uint_byte_bound: "uint (b :: byte) < 256"
  using uint_lt2p [of b] by simp

lemma unat_byte_bound: "unat (b :: byte) < 256"
  using unsigned_less [of b, where 'a = nat] by simp

lemma le_int_bound: "le_int bs < 256 ^ length bs"
proof (induction bs)
  case Nil
  show ?case by simp
next
  case (Cons b bs)
  have "uint b + 256 * le_int bs < 256 * 256 ^ length bs"
    using Cons uint_byte_bound [of b] by linarith
  then show ?case by simp
qed

lemma length_le_bytes [simp]: "length (le_bytes n x) = n"
  by (induction n arbitrary: x) auto

lemma uint_byte_of_int [simp]: "uint (word_of_int (x mod 256) :: byte) = x mod 256"
  by (simp add: uint_word_of_int)

lemma uint_byte_small: "0 \<le> x \<Longrightarrow> x < 256 \<Longrightarrow> uint (word_of_int x :: byte) = x"
  using uint_byte_of_int [of x] by simp

lemma le_int_le_bytes: "0 \<le> x \<Longrightarrow> x < 256 ^ n \<Longrightarrow> le_int (le_bytes n x) = x"
proof (induction n arbitrary: x)
  case 0
  then show ?case by simp
next
  case (Suc n)
  have "x div 256 < 256 ^ n"
    using Suc.prems by (simp add: div_less_iff_less_mult mult.commute)
  then have "le_int (le_bytes n (x div 256)) = x div 256"
    using Suc.IH [of "x div 256"] Suc.prems by simp
  then show ?case by simp
qed

lemma le_bytes_le_int: "le_bytes (length bs) (le_int bs) = bs"
proof (induction bs)
  case Nil
  show ?case by simp
next
  case (Cons b bs)
  have "(uint b + 256 * le_int bs) mod 256 = uint b"
    using uint_byte_bound [of b] by simp
  moreover have "(uint b + 256 * le_int bs) div 256 = le_int bs"
    using uint_byte_bound [of b] by simp
  ultimately show ?case using Cons by simp
qed

lemma le_sint_bounds: "- (256 ^ length bs) \<le> 2 * le_sint bs" "2 * le_sint bs < 256 ^ length bs"
proof -
  define v where "v = le_int bs"
  have "0 \<le> v" "v < 256 ^ length bs" unfolding v_def using le_int_bound by simp_all
  then show "- (256 ^ length bs) \<le> 2 * le_sint bs" "2 * le_sint bs < 256 ^ length bs"
    unfolding le_sint_def Let_def v_def [symmetric] by simp_all
qed

lemma le_sint_le_bytes:
  assumes "- (256 ^ n) \<le> 2 * x" "2 * x < 256 ^ n"
  shows "le_sint (le_bytes n (x mod 256 ^ n)) = x"
proof -
  have v: "le_int (le_bytes n (x mod 256 ^ n)) = x mod 256 ^ n"
    by (intro le_int_le_bytes) simp_all
  show ?thesis
  proof (cases "0 \<le> x")
    case True
    with assms have "x mod 256 ^ n = x" by simp
    with v True assms show ?thesis by (simp add: le_sint_def)
  next
    case False
    have "x mod 256 ^ n = (x + 256 ^ n) mod 256 ^ n" by simp
    also have "\<dots> = x + 256 ^ n" using False assms by (intro mod_pos_pos_trivial) auto
    finally show ?thesis using v False assms by (simp add: le_sint_def)
  qed
qed

section \<open>struct\<close>

text \<open>
  A format is the list of its field widths (\<open>B\<close> 1, \<open>H\<close> 2, \<open>I\<close> 4, \<open>Q\<close> 8, \<open>ns\<close> n): every format
  of the source is little-endian (\<open>"<"\<close>), hence unpadded, and every field is read here as an unsigned
  integer. A field the source reads as bytes (\<open>ns\<close>) or as signed is taken from the buffer itself.
\<close>

type_synonym fmt = "nat list"

definition calcsize :: "fmt \<Rightarrow> int" where
  "calcsize ws = int (sum_list ws)"

fun le_fields :: "fmt \<Rightarrow> bytes \<Rightarrow> int list" where
  "le_fields [] bs = []"
| "le_fields (w # ws) bs = le_int (take w bs) # le_fields ws (drop w bs)"

definition struct_unpack_from :: "fmt \<Rightarrow> bytes \<Rightarrow> int \<Rightarrow> int list result" where
  "struct_unpack_from ws buf off =
     (let at = (if off < 0 then off + len buf else off)
      in if at < 0 \<or> len buf - at < calcsize ws then Inl StructError
         else Inr (le_fields ws (drop (nat at) buf)))"

fun struct_pack :: "fmt \<Rightarrow> int list \<Rightarrow> bytes" where
  "struct_pack (w # ws) (x # xs) = le_bytes w x @ struct_pack ws xs"
| "struct_pack _ _ = []"

lemma length_le_fields [simp]: "length (le_fields ws bs) = length ws"
  by (induction ws arbitrary: bs) auto

lemma le_fields_append: "sum_list ws \<le> length xs \<Longrightarrow> le_fields ws (xs @ ys) = le_fields ws xs"
  by (induction ws arbitrary: xs) auto

lemma length_struct_pack: "length xs = length ws \<Longrightarrow> length (struct_pack ws xs) = sum_list ws"
  by (induction ws xs rule: struct_pack.induct) auto

fun fits :: "fmt \<Rightarrow> int list \<Rightarrow> bool" where
  "fits [] [] = True"
| "fits (w # ws) (x # xs) = (0 \<le> x \<and> x < 256 ^ w \<and> fits ws xs)"
| "fits _ _ = False"

lemma fits_length: "fits ws xs \<Longrightarrow> length xs = length ws"
  by (induction ws xs rule: fits.induct) auto

lemma fits_replicate:
  "length xs = n \<Longrightarrow> (\<forall>x \<in> set xs. 0 \<le> x \<and> x < 256 ^ w) \<Longrightarrow> fits (replicate n w) xs"
  by (induction xs arbitrary: n) auto

lemma le_fields_struct_pack: "fits ws xs \<Longrightarrow> le_fields ws (struct_pack ws xs @ rest) = xs"
  by (induction ws xs rule: fits.induct) (auto simp: le_int_le_bytes)

lemma le_fields_fit: "sum_list ws \<le> length bs \<Longrightarrow> fits ws (le_fields ws bs)"
proof (induction ws arbitrary: bs)
  case Nil
  then show ?case by simp
next
  case (Cons w ws)
  then show ?case using le_int_bound [of "take w bs"] by simp
qed

lemma struct_pack_le_fields:
  "sum_list ws \<le> length bs \<Longrightarrow> struct_pack ws (le_fields ws bs) = take (sum_list ws) bs"
proof (induction ws arbitrary: bs)
  case Nil
  then show ?case by simp
next
  case (Cons w ws)
  have "le_bytes w (le_int (take w bs)) = take w bs"
    using Cons.prems le_bytes_le_int [of "take w bs"] by simp
  moreover have "struct_pack ws (le_fields ws (drop w bs)) = take (sum_list ws) (drop w bs)"
    using Cons by simp
  ultimately show ?case by (simp add: take_add)
qed

text \<open>\<open>ids._unpack\<close>: the unpacking every parser uses; whatever is wrong is a \<open>PstFormatError\<close>.\<close>

definition unpack :: "fmt \<Rightarrow> bytes \<Rightarrow> int \<Rightarrow> int list result" where
  "unpack ws buf off =
     (if off < 0 then Inl PstFormatError
      else reraise StructError PstFormatError (struct_unpack_from ws buf off))"

lemma struct_unpack_from_ok:
  "0 \<le> off \<Longrightarrow> off + calcsize ws \<le> len buf \<Longrightarrow>
   struct_unpack_from ws buf off = Inr (le_fields ws (drop (nat off) buf))"
  by (simp add: struct_unpack_from_def Let_def)

lemma unpack_eq:
  "unpack ws buf off =
     (if 0 \<le> off \<and> off + calcsize ws \<le> len buf then Inr (le_fields ws (drop (nat off) buf))
      else Inl PstFormatError)"
  by (auto simp: unpack_def struct_unpack_from_def Let_def calcsize_def)

lemma unpack_Inr_iff:
  "unpack ws buf off = Inr fs \<longleftrightarrow>
     0 \<le> off \<and> off + calcsize ws \<le> len buf \<and> fs = le_fields ws (drop (nat off) buf)"
  by (auto simp: unpack_eq)

lemma unpack_Inl_iff:
  "unpack ws buf off = Inl e \<longleftrightarrow>
     e = PstFormatError \<and> \<not> (0 \<le> off \<and> off + calcsize ws \<le> len buf)"
  by (auto simp: unpack_eq)

lemma unpack_length: "unpack ws buf off = Inr fs \<Longrightarrow> length fs = length ws"
  by (simp add: unpack_Inr_iff)

lemma unpack_fits: "unpack ws buf off = Inr fs \<Longrightarrow> fits ws fs"
  by (auto simp: unpack_Inr_iff calcsize_def intro!: le_fields_fit)

lemma fails_closed_unpack [simp, intro, pst_errs]: "fails_closed (unpack ws buf off)"
  by (simp add: fails_closed_def unpack_Inl_iff)

lemma unpack_pack:
  "fits ws xs \<Longrightarrow> unpack ws (pre @ struct_pack ws xs @ post) (len pre) = Inr xs"
  by (simp add: unpack_eq calcsize_def length_struct_pack [OF fits_length] le_fields_struct_pack)

lemma unpack_pack0: "fits ws xs \<Longrightarrow> unpack ws (struct_pack ws xs @ post) 0 = Inr xs"
  using unpack_pack [of ws xs "[]" post] by simp

section \<open>Enumerations\<close>

text \<open>\<open>E(v)\<close> for an \<open>IntEnum\<close>: the member with that value, or a \<open>ValueError\<close>.\<close>

definition enum_of :: "('e \<Rightarrow> int) \<Rightarrow> 'e list \<Rightarrow> int \<Rightarrow> 'e result" where
  "enum_of val members v =
     (case find (\<lambda>m. val m = v) members of None \<Rightarrow> Inl ValueError | Some m \<Rightarrow> Inr m)"

locale int_enum =
  fixes val :: "'e \<Rightarrow> int" and members :: "'e list"
  assumes complete: "m \<in> set members" and val_inj: "val m = val m' \<Longrightarrow> m = m'"
begin

lemma of_value_iff: "enum_of val members v = Inr m \<longleftrightarrow> val m = v"
proof (cases "find (\<lambda>m. val m = v) members")
  case None
  then have "val m \<noteq> v" using complete by (auto simp: find_None_iff)
  with None show ?thesis by (simp add: enum_of_def)
next
  case (Some m')
  then have "val m' = v" by (auto simp: find_Some_iff)
  with Some show ?thesis by (auto simp: enum_of_def dest: val_inj)
qed

lemma of_value_val [simp]: "enum_of val members (val m) = Inr m"
  by (simp add: of_value_iff)

lemma of_value_Inl_iff: "enum_of val members v = Inl e \<longleftrightarrow> e = ValueError \<and> v \<notin> range val"
proof (cases "enum_of val members v")
  case (Inl e')
  then have "e' = ValueError" by (auto simp: enum_of_def split: option.splits)
  moreover have "v \<notin> range val"
  proof
    assume "v \<in> range val"
    then obtain m where "val m = v" by blast
    then have "enum_of val members v = Inr m" by (simp add: of_value_iff)
    with Inl show False by simp
  qed
  ultimately show ?thesis using Inl by auto
next
  case (Inr m)
  then have "val m = v" by (simp add: of_value_iff)
  with Inr show ?thesis by auto
qed

end

section \<open>Codecs\<close>

text \<open>
  The interface of a fixed-size structure on disk: its reader at an offset, the writer that is its
  inverse, its size, and the values the writer is for. Every structure of the NDB is one; what a
  parser of an array of them needs is proved here once.
\<close>

locale codec =
  fixes decode_at :: "bytes \<Rightarrow> int \<Rightarrow> 'a result"
    and encode :: "'a \<Rightarrow> bytes"
    and size_of :: int
    and ok :: "'a \<Rightarrow> bool"
  assumes encode_length: "ok x \<Longrightarrow> len (encode x) = size_of"
    and decode_encode: "ok x \<Longrightarrow> decode_at (pre @ encode x @ post) (len pre) = Inr x"
    and decode_bounds: "decode_at buf off = Inr x \<Longrightarrow> 0 \<le> off \<and> off + size_of \<le> len buf"
    and decode_closed: "fails_closed (decode_at buf off)"
begin

lemma decode_encode0: "ok x \<Longrightarrow> decode_at (encode x @ post) 0 = Inr x"
  using decode_encode [of x "[]" post] by simp

lemma length_concat_encode:
  "(\<And>x. x \<in> set xs \<Longrightarrow> ok x) \<Longrightarrow>
   len (concat (map (\<lambda>x. encode x @ pad) xs)) = len xs * (size_of + len pad)"
  by (induction xs) (auto simp: encode_length algebra_simps)

text \<open>
  An array packed at a stride of the structure's size and some padding reads back, element by
  element.
\<close>

lemma decode_array:
  assumes ok: "\<And>x. x \<in> set xs \<Longrightarrow> ok x" and base: "base = len pre"
  shows "emap (\<lambda>i. decode_at (pre @ concat (map (\<lambda>x. encode x @ pad) xs) @ post)
             (base + int i * (size_of + len pad))) [0..<length xs] = Inr xs"
  using ok base
proof (induction xs arbitrary: pre post base rule: rev_induct)
  case Nil
  then show ?case by simp
next
  case (snoc x xs)
  let ?es = "concat (map (\<lambda>x. encode x @ pad) xs)"
  let ?post = "encode x @ pad @ post"
  have IH: "emap (\<lambda>i. decode_at (pre @ ?es @ ?post) (base + int i * (size_of + len pad)))
              [0..<length xs] = Inr xs"
    using snoc by simp
  have len: "len (pre @ ?es) = base + int (length xs) * (size_of + len pad)"
    using snoc.prems length_concat_encode [of xs pad] by simp
  have last: "decode_at ((pre @ ?es) @ encode x @ pad @ post)
      (base + int (length xs) * (size_of + len pad)) = Inr x"
    unfolding len [symmetric] by (rule decode_encode) (simp add: snoc.prems)
  have app: "emap f (as @ bs) = ebind (emap f as) (\<lambda>u. ebind (emap f bs) (\<lambda>v. Inr (u @ v)))"
    for f :: "nat \<Rightarrow> 'a result" and as bs
    by (induction as) (auto simp: ebind_assoc, simp add: ebind_def split: sum.splits)
  show ?case using IH last by (simp add: app)
qed

end

end
