(* ===== verification/Pst_Limits.thy ===== *)
theory Pst_Limits
  imports Pst_Prelude
begin

text \<open>
  \<open>src/pypstreader/limits.py\<close>: the ceilings, the caller's budget, the three checks and the cycle guard
  that every walk over the file's structures uses. The interface \<open>visited_set\<close> states what a walk
  relies on: a guarded insertion succeeds exactly for a new key while there is room, so that a run
  of successful insertions visits distinct keys and never more of them than the ceiling.
\<close>

section \<open>The ceilings\<close>

definition MAX_BTREE_DEPTH :: int where "MAX_BTREE_DEPTH = 8"
definition MAX_XBLOCK_DEPTH :: int where "MAX_XBLOCK_DEPTH = 2"
definition MAX_SUBNODE_DEPTH :: int where "MAX_SUBNODE_DEPTH = 2"
definition MAX_HEAP_TREE_DEPTH :: int where "MAX_HEAP_TREE_DEPTH = 8"
definition MAX_FOLDER_DEPTH :: int where "MAX_FOLDER_DEPTH = 64"
definition MAX_EMBEDDED_MESSAGE_DEPTH :: int where "MAX_EMBEDDED_MESSAGE_DEPTH = 16"
definition MAX_ALLOCATION :: int where "MAX_ALLOCATION = 256 * 2 ^ 20"
definition MAX_FILE_SIZE :: int where "MAX_FILE_SIZE = 64 * 2 ^ 30"
definition MAX_ITEMS :: int where "MAX_ITEMS = 2 ^ 27"
definition MAX_HEAP_ITEMS :: int where "MAX_HEAP_ITEMS = 65536 * 2047"
definition MAX_PROPERTY_COUNT :: int where "MAX_PROPERTY_COUNT = 2 ^ 16"
definition MAX_RECIPIENTS :: int where "MAX_RECIPIENTS = 2 ^ 16"
definition MAX_ATTACHMENTS :: int where "MAX_ATTACHMENTS = 510 * 340"
definition MAX_FOLDERS :: int where "MAX_FOLDERS = 2 ^ 27"
definition MAX_MESSAGES :: int where "MAX_MESSAGES = 2 ^ 27"
definition MAX_MV_ITEMS :: int where "MAX_MV_ITEMS = 1000000"

record limits =
  max_btree_depth :: int
  max_xblock_depth :: int
  max_subnode_depth :: int
  max_heap_tree_depth :: int
  max_folder_depth :: int
  max_embedded_message_depth :: int
  max_allocation :: int
  max_file_size :: int
  max_items :: int
  max_heap_items :: int
  max_property_count :: int
  max_recipients :: int
  max_attachments :: int
  max_folders :: int
  max_messages :: int
  max_mv_items :: int

text \<open>The fields in declaration order, as \<open>dataclasses.fields\<close> lists them.\<close>

definition limit_values :: "limits \<Rightarrow> int list" where
  "limit_values l =
     [max_btree_depth l, max_xblock_depth l, max_subnode_depth l, max_heap_tree_depth l,
      max_folder_depth l, max_embedded_message_depth l, max_allocation l, max_file_size l,
      max_items l, max_heap_items l, max_property_count l, max_recipients l,
      max_attachments l, max_folders l, max_messages l, max_mv_items l]"

text \<open>\<open>Limits.__post_init__\<close>: the first non-positive field is a \<open>ValueError\<close>.\<close>

definition mk_limits :: "limits \<Rightarrow> limits result" where
  "mk_limits l =
     ebind (emap (\<lambda>value. raise_if (value \<le> 0) ValueError) (limit_values l)) (\<lambda>_. Inr l)"

definition DEFAULT_LIMITS :: limits where
  "DEFAULT_LIMITS =
     \<lparr>max_btree_depth = MAX_BTREE_DEPTH, max_xblock_depth = MAX_XBLOCK_DEPTH,
      max_subnode_depth = MAX_SUBNODE_DEPTH, max_heap_tree_depth = MAX_HEAP_TREE_DEPTH,
      max_folder_depth = MAX_FOLDER_DEPTH,
      max_embedded_message_depth = MAX_EMBEDDED_MESSAGE_DEPTH,
      max_allocation = MAX_ALLOCATION, max_file_size = MAX_FILE_SIZE, max_items = MAX_ITEMS,
      max_heap_items = MAX_HEAP_ITEMS, max_property_count = MAX_PROPERTY_COUNT,
      max_recipients = MAX_RECIPIENTS, max_attachments = MAX_ATTACHMENTS,
      max_folders = MAX_FOLDERS, max_messages = MAX_MESSAGES, max_mv_items = MAX_MV_ITEMS\<rparr>"

lemmas default_limits_simps =
  DEFAULT_LIMITS_def MAX_BTREE_DEPTH_def MAX_XBLOCK_DEPTH_def MAX_SUBNODE_DEPTH_def
  MAX_HEAP_TREE_DEPTH_def MAX_FOLDER_DEPTH_def MAX_EMBEDDED_MESSAGE_DEPTH_def MAX_ALLOCATION_def
  MAX_FILE_SIZE_def MAX_ITEMS_def MAX_HEAP_ITEMS_def MAX_PROPERTY_COUNT_def MAX_RECIPIENTS_def
  MAX_ATTACHMENTS_def MAX_FOLDERS_def MAX_MESSAGES_def MAX_MV_ITEMS_def

lemma mk_limits_Inr_iff: "mk_limits l = Inr l' \<longleftrightarrow> l' = l \<and> (\<forall>v \<in> set (limit_values l). 0 < v)"
proof -
  have "(\<exists>us. emap (\<lambda>value. raise_if (value \<le> 0) ValueError) vs = Inr us) \<longleftrightarrow> (\<forall>v \<in> set vs. 0 < v)"
    for vs :: "int list"
    by (induction vs) (auto simp: res_simps not_le)
  then show ?thesis by (auto simp: mk_limits_def ebind_Inr_iff)
qed

lemma default_limits_valid: "mk_limits DEFAULT_LIMITS = Inr DEFAULT_LIMITS"
  by (simp add: mk_limits_Inr_iff limit_values_def default_limits_simps)

section \<open>The checks\<close>

text \<open>Ceilings are inclusive: the ceiling itself passes.\<close>

definition check_depth :: "int \<Rightarrow> int \<Rightarrow> unit result" where
  "check_depth depth ceiling = raise_if (depth > ceiling) PstLimitError"

definition check_count :: "int \<Rightarrow> int \<Rightarrow> unit result" where
  "check_count count ceiling = raise_if (count > ceiling) PstLimitError"

definition check_allocation :: "int \<Rightarrow> int \<Rightarrow> unit result" where
  "check_allocation nbytes ceiling = raise_if (nbytes > ceiling) PstLimitError"

lemma check_Inr_iff [res_simps]:
  "check_depth d c = Inr u \<longleftrightarrow> d \<le> c"
  "check_count d c = Inr u \<longleftrightarrow> d \<le> c"
  "check_allocation d c = Inr u \<longleftrightarrow> d \<le> c"
  by (auto simp: check_depth_def check_count_def check_allocation_def raise_if_def)

lemma check_ok:
  "d \<le> c \<Longrightarrow> check_depth d c = Inr ()"
  "d \<le> c \<Longrightarrow> check_count d c = Inr ()"
  "d \<le> c \<Longrightarrow> check_allocation d c = Inr ()"
  by (simp_all add: check_Inr_iff)

lemma check_over:
  "c < d \<Longrightarrow> check_depth d c = Inl PstLimitError"
  "c < d \<Longrightarrow> check_count d c = Inl PstLimitError"
  "c < d \<Longrightarrow> check_allocation d c = Inl PstLimitError"
  by (simp_all add: check_depth_def check_count_def check_allocation_def)

lemma fails_closed_checks [simp, intro, pst_errs]:
  "fails_closed (check_depth d c)" "fails_closed (check_count d c)" "fails_closed (check_allocation d c)"
  by (simp_all add: check_depth_def check_count_def check_allocation_def)

section \<open>VisitedSet\<close>

record 'k visited =
  vs_ceiling :: int
  vs_seen :: "'k list"

definition new_visited :: "int \<Rightarrow> 'k visited" where
  "new_visited ceiling = \<lparr>vs_ceiling = ceiling, vs_seen = []\<rparr>"

definition vs_add :: "'k visited \<Rightarrow> 'k \<Rightarrow> 'k visited result" where
  "vs_add v key =
     (if key \<in> set (vs_seen v) then Inl PstLimitError
      else if len (vs_seen v) \<ge> vs_ceiling v then Inl PstLimitError
      else Inr (v\<lparr>vs_seen := key # vs_seen v\<rparr>))"

definition vs_contains :: "'k visited \<Rightarrow> 'k \<Rightarrow> bool" where
  "vs_contains v key = (key \<in> set (vs_seen v))"

definition vs_len :: "'k visited \<Rightarrow> int" where
  "vs_len v = len (vs_seen v)"

text \<open>The room left, which every visit uses up: the measure of every walk.\<close>

definition vs_room :: "'k visited \<Rightarrow> nat" where
  "vs_room v = nat (vs_ceiling v) - length (vs_seen v)"

lemma vs_add_Inr_iff [res_simps]:
  "vs_add v k = Inr v' \<longleftrightarrow>
     k \<notin> set (vs_seen v) \<and> len (vs_seen v) < vs_ceiling v \<and> v' = v\<lparr>vs_seen := k # vs_seen v\<rparr>"
  by (auto simp: vs_add_def)

lemma vs_add_Inl: "vs_add v k = Inl e \<Longrightarrow> e = PstLimitError"
  by (auto simp: vs_add_def split: if_splits)

lemma vs_add_fails_closed [simp, intro, pst_errs]: "fails_closed (vs_add v k)"
  by (auto simp: fails_closed_def dest: vs_add_Inl)

lemma vs_add_room: "vs_add v k = Inr v' \<Longrightarrow> vs_room v' < vs_room v"
  by (auto simp: vs_add_Inr_iff vs_room_def)

subsection \<open>The guard's interface\<close>

locale visited_set =
  fixes add :: "'v \<Rightarrow> 'k \<Rightarrow> 'v result"
    and mem :: "'v \<Rightarrow> 'k \<Rightarrow> bool"
    and size_of :: "'v \<Rightarrow> int"
    and ceiling :: "'v \<Rightarrow> int"
  assumes add_iff: "(\<exists>v'. add v k = Inr v') \<longleftrightarrow> \<not> mem v k \<and> size_of v < ceiling v"
    and add_mem: "add v k = Inr v' \<Longrightarrow> mem v' k' \<longleftrightarrow> k' = k \<or> mem v k'"
    and add_size: "add v k = Inr v' \<Longrightarrow> size_of v' = size_of v + 1"
    and add_ceiling: "add v k = Inr v' \<Longrightarrow> ceiling v' = ceiling v"
begin

text \<open>A run of guarded visits, as a walk makes it.\<close>

primrec visit_all :: "'v \<Rightarrow> 'k list \<Rightarrow> 'v result" where
  "visit_all v [] = Inr v"
| "visit_all v (k # ks) = ebind (add v k) (\<lambda>v'. visit_all v' ks)"

lemma visit_all_append: "visit_all v (xs @ ys) = ebind (visit_all v xs) (\<lambda>v'. visit_all v' ys)"
  by (induction xs arbitrary: v) (auto simp: ebind_assoc)

lemma visit_all_facts:
  "visit_all v ks = Inr v' \<Longrightarrow>
     distinct ks \<and> (\<forall>k \<in> set ks. \<not> mem v k) \<and> (\<forall>k. mem v' k \<longleftrightarrow> k \<in> set ks \<or> mem v k) \<and>
     size_of v' = size_of v + len ks \<and> ceiling v' = ceiling v \<and> (ks \<noteq> [] \<longrightarrow> size_of v' \<le> ceiling v)"
proof (induction ks arbitrary: v)
  case Nil
  then show ?case by simp
next
  case (Cons k ks)
  then obtain v1 where v1: "add v k = Inr v1" and rest: "visit_all v1 ks = Inr v'"
    by (auto simp: ebind_Inr_iff)
  have fresh: "\<not> mem v k" "size_of v < ceiling v"
    using add_iff [of v k] v1 by auto
  note step = add_mem [OF v1] add_size [OF v1] add_ceiling [OF v1]
  show ?case using Cons.IH [OF rest] fresh step by (cases "ks = []") auto
qed

lemma visit_all_ok:
  "distinct ks \<Longrightarrow> (\<And>k. k \<in> set ks \<Longrightarrow> \<not> mem v k) \<Longrightarrow> size_of v + len ks \<le> ceiling v \<Longrightarrow>
   \<exists>v'. visit_all v ks = Inr v'"
proof (induction ks arbitrary: v)
  case Nil
  then show ?case by simp
next
  case (Cons k ks)
  then obtain v1 where v1: "add v k = Inr v1"
    using add_iff [of v k] by auto
  have "\<exists>v'. visit_all v1 ks = Inr v'"
    using Cons.prems add_mem [OF v1] add_size [OF v1] add_ceiling [OF v1]
    by (intro Cons.IH) auto
  then show ?case using v1 by simp
qed

text \<open>A part of a run that succeeds, made alone, succeeds.\<close>

lemma visit_all_part:
  assumes "visit_all v (xs @ ys @ zs) = Inr v'"
  shows "\<exists>v''. visit_all v ys = Inr v''"
proof (cases "ys = []")
  case False
  with visit_all_facts [OF assms] show ?thesis by (intro visit_all_ok) auto
qed simp

end

interpretation vs: visited_set vs_add vs_contains vs_len vs_ceiling
  by unfold_locales (auto simp: vs_add_def vs_contains_def vs_len_def split: if_splits)

lemma visit_new_iff:
  "(\<exists>v'. vs.visit_all (new_visited n) ks = Inr v') \<longleftrightarrow> distinct ks \<and> (ks = [] \<or> len ks \<le> n)"
proof
  assume "\<exists>v'. vs.visit_all (new_visited n) ks = Inr v'"
  then obtain v' where v': "vs.visit_all (new_visited n) ks = Inr v'" by blast
  from vs.visit_all_facts [OF v'] show "distinct ks \<and> (ks = [] \<or> len ks \<le> n)"
    by (auto simp: new_visited_def vs_len_def)
next
  assume "distinct ks \<and> (ks = [] \<or> len ks \<le> n)"
  then show "\<exists>v'. vs.visit_all (new_visited n) ks = Inr v'"
    by (cases "ks = []") (auto intro!: vs.visit_all_ok simp: new_visited_def vs_len_def vs_contains_def)
qed

end
