(* ===== verification/Pst_Crc.thy ===== *)
theory Pst_Crc
  imports Pst_Prelude
begin

unbundle bit_operations_syntax

text \<open>
  \<open>src/pypstreader/crc.py\<close> and \<open>src/pypstreader/block_sig.py\<close>. \<open>zlib.crc32\<close> is the standard library's
  reflected CRC-32, defined here bit by bit on 32-bit words; \<open>compute_crc\<close> undoes its two inversions.
  The lemmas show that the result is the table walk of [MS-PST] 5.3, that a running CRC can be
  continued, and that any change confined to four consecutive bytes changes the CRC.
\<close>

lemma xor_cancel_right: "x XOR z = y XOR z \<Longrightarrow> x = y" for x :: "'a :: len word"
  by (metis xor.assoc xor.right_neutral xor_self_eq)

lemma xor_cancel_left: "z XOR x = z XOR y \<Longrightarrow> x = y" for x :: "'a :: len word"
  by (metis xor.commute xor_cancel_right)

lemma word32_bit_bound: "bit (w :: 32 word) n \<Longrightarrow> n < 32"
  using bit_imp_le_length [of w n] by simp

section \<open>zlib.crc32\<close>

definition CRC_POLYNOMIAL :: "32 word" where
  "CRC_POLYNOMIAL = 0xEDB88320"

definition crc_bit :: "32 word \<Rightarrow> 32 word" where
  "crc_bit c = (if bit c 0 then drop_bit 1 c XOR CRC_POLYNOMIAL else drop_bit 1 c)"

definition crc_bits8 :: "32 word \<Rightarrow> 32 word" where
  "crc_bits8 c = crc_bit (crc_bit (crc_bit (crc_bit (crc_bit (crc_bit (crc_bit (crc_bit c)))))))"

definition crc_byte :: "32 word \<Rightarrow> byte \<Rightarrow> 32 word" where
  "crc_byte c b = crc_bits8 (c XOR ucast b)"

fun crc_run :: "32 word \<Rightarrow> bytes \<Rightarrow> 32 word" where
  "crc_run c [] = c"
| "crc_run c (b # bs) = crc_run (crc_byte c b) bs"

text \<open>The second argument is taken modulo \<open>2 ^ 32\<close>, inverted going in and coming out.\<close>

definition zlib_crc32 :: "bytes \<Rightarrow> int \<Rightarrow> int" where
  "zlib_crc32 data value = uint (NOT (crc_run (NOT (word_of_int value)) data))"

section \<open>compute_crc\<close>

definition MASK32 :: int where "MASK32 = 0xFFFFFFFF"

definition compute_crc :: "int \<Rightarrow> bytes \<Rightarrow> int" where
  "compute_crc crc data = zlib_crc32 data ((crc XOR MASK32) AND MASK32) XOR MASK32"

lemma MASK32_mask: "MASK32 = mask 32"
  by (simp add: MASK32_def mask_eq_exp_minus_1)

lemma word_of_int_xor_mask: "(word_of_int ((x XOR MASK32) AND MASK32) :: 32 word) = NOT (word_of_int x)"
  by (rule bit_eqI) (simp add: MASK32_mask bit_word_of_int_iff bit_simps bit_mask_iff)

lemma uint_not_xor_mask: "uint (NOT w :: 32 word) XOR MASK32 = uint w"
  by (rule bit_eqI) (auto simp: MASK32_mask bit_simps bit_mask_iff dest: bit_imp_le_length)

text \<open>The inversions cancel: what is computed is the plain run.\<close>

lemma compute_crc_run: "compute_crc crc data = uint (crc_run (word_of_int crc) data)"
  unfolding compute_crc_def zlib_crc32_def word_of_int_xor_mask bit.double_compl
  by (rule uint_not_xor_mask)

lemma crc_run_append: "crc_run c (xs @ ys) = crc_run (crc_run c xs) ys"
  by (induction xs arbitrary: c) auto

lemma compute_crc_range: "0 \<le> compute_crc c bs" "compute_crc c bs < 256 ^ 4"
  using uint_lt2p [of "crc_run (word_of_int c) bs"] by (simp_all add: compute_crc_run)


section \<open>The table walk\<close>

text \<open>
  The specification's form: 256 entries, one per byte value, and one lookup per byte, with no
  inversion.
\<close>

definition crc_table_entry :: "byte \<Rightarrow> 32 word" where
  "crc_table_entry i = crc_bits8 (ucast i)"

fun crc_table_walk :: "32 word \<Rightarrow> bytes \<Rightarrow> 32 word" where
  "crc_table_walk c [] = c"
| "crc_table_walk c (b # bs) =
     crc_table_walk (crc_table_entry (ucast c XOR b) XOR drop_bit 8 c) bs"

lemma crc_bit_xor: "crc_bit (x XOR y) = crc_bit x XOR crc_bit y"
  by (auto simp: crc_bit_def bit_xor_iff ac_simps)

lemma crc_bits8_xor: "crc_bits8 (x XOR y) = crc_bits8 x XOR crc_bits8 y"
  by (simp add: crc_bits8_def crc_bit_xor)

lemma crc_bit_even: "\<not> bit c 0 \<Longrightarrow> crc_bit c = drop_bit 1 c"
  by (simp add: crc_bit_def)

text \<open>A word whose low byte is zero is only shifted.\<close>

lemma crc_bits8_high:
  assumes "\<And>n. n < 8 \<Longrightarrow> \<not> bit c n"
  shows "crc_bits8 c = drop_bit 8 c"
proof -
  have step: "crc_bit (drop_bit n c) = drop_bit (Suc n) c" if "n < 8" for n
    using assms [OF that] by (simp add: crc_bit_even bit_drop_bit_eq)
  show ?thesis
    using step [of 0] step [of 1] step [of 2] step [of 3] step [of 4] step [of 5] step [of 6] step [of 7]
    by (simp add: crc_bits8_def numeral_eq_Suc)
qed

lemma crc_byte_table: "crc_byte c b = crc_table_entry (ucast c XOR b) XOR drop_bit 8 c"
proof -
  have split: "c XOR ucast b = ucast (ucast c XOR b :: byte) XOR push_bit 8 (drop_bit 8 c)"
    by (rule bit_eqI) (auto simp: bit_simps)
  have "n < 24" if "bit c (8 + n)" for n
    using word32_bit_bound [OF that] by simp
  then have "crc_bits8 (push_bit 8 (drop_bit 8 c)) = drop_bit 8 c"
    by (subst crc_bits8_high) (auto simp: bit_simps intro!: bit_eqI)
  then show ?thesis
    unfolding crc_byte_def crc_table_entry_def split crc_bits8_xor by simp
qed

lemma crc_run_table: "crc_run c bs = crc_table_walk c bs"
  by (induction bs arbitrary: c) (auto simp: crc_byte_table)

section \<open>Injectivity\<close>

lemma crc_bit_inj: "crc_bit x = crc_bit y \<Longrightarrow> x = y"
proof -
  assume eq: "crc_bit x = crc_bit y"
  have top: "bit (crc_bit z) 31 \<longleftrightarrow> bit z 0" for z :: "32 word"
    using bit_imp_le_length [of z 32] by (auto simp: crc_bit_def CRC_POLYNOMIAL_def bit_simps)
  have low: "bit x 0 \<longleftrightarrow> bit y 0"
    using eq top by metis
  have "drop_bit 1 x = drop_bit 1 y"
  proof (cases "bit x 0")
    case True
    with low eq have "drop_bit 1 x XOR CRC_POLYNOMIAL = drop_bit 1 y XOR CRC_POLYNOMIAL"
      by (simp add: crc_bit_def)
    then show ?thesis by (rule xor_cancel_right)
  next
    case False
    with low eq show ?thesis by (simp add: crc_bit_def)
  qed
  then have "bit x (Suc n) = bit y (Suc n)" for n
    by (metis One_nat_def bit_drop_bit_eq comp_apply plus_1_eq_Suc)
  with low have "bit x n = bit y n" for n
    by (cases n) auto
  then show "x = y" by (simp add: bit_eq_iff)
qed

lemma crc_bits8_inj: "crc_bits8 x = crc_bits8 y \<Longrightarrow> x = y"
  by (auto simp: crc_bits8_def dest!: crc_bit_inj)

lemma crc_byte_inj: "crc_byte x b = crc_byte y b \<Longrightarrow> x = y"
  unfolding crc_byte_def
  by (drule crc_bits8_inj) (rule xor_cancel_right)

lemma crc_run_inj: "crc_run x bs = crc_run y bs \<Longrightarrow> x = y"
  by (induction bs arbitrary: x y) (auto dest: crc_byte_inj)

subsection \<open>A burst of up to four bytes\<close>

definition word_of_bytes :: "bytes \<Rightarrow> 32 word" where
  "word_of_bytes bs = word_of_int (le_int bs)"

lemma word_of_bytes_Cons:
  "word_of_bytes (b # bs) = ucast b XOR push_bit 8 (word_of_bytes bs)"
proof -
  have disj: "(ucast b :: 32 word) AND push_bit 8 w = 0" for w
    by (rule bit_eqI) (auto simp: bit_simps dest: bit_imp_le_length)
  have "word_of_bytes (b # bs) = word_of_int (uint b) + word_of_int 256 * word_of_bytes bs"
    unfolding word_of_bytes_def le_int.simps wi_hom_mult wi_hom_add by (rule refl)
  also have "\<dots> = ucast b + push_bit 8 (word_of_bytes bs)"
    unfolding ucast_eq push_bit_eq_mult by (simp only: mult.commute) simp
  also have "\<dots> = ucast b XOR push_bit 8 (word_of_bytes bs)"
    by (rule disjunctive_add_eq_xor) (rule disj)
  finally show ?thesis .
qed

lemma word_of_bytes_bits: "length bs \<le> 3 \<Longrightarrow> bit (word_of_bytes bs) n \<Longrightarrow> n < 24"
proof -
  assume len: "length bs \<le> 3" and bit: "bit (word_of_bytes bs) n"
  have "le_int bs < 2 ^ 24"
    using le_int_bound [of bs] power_increasing [OF len, of "256 :: int"] by simp
  then have "bit (le_int bs) n \<Longrightarrow> n < 24"
    by (metis bit_take_bit_iff le_int_nonneg take_bit_int_eq_self)
  with bit show "n < 24"
    by (simp add: word_of_bytes_def bit_word_of_int_iff)
qed

text \<open>Up to four bytes are absorbed as one word; the rest is steps that lose nothing.\<close>

lemma crc_run_word:
  "length bs \<le> 4 \<Longrightarrow> crc_run c bs = (crc_bits8 ^^ length bs) (c XOR word_of_bytes bs)"
proof (induction bs arbitrary: c)
  case Nil
  then show ?case by (simp add: word_of_bytes_def)
next
  case (Cons b bs)
  let ?w = "word_of_bytes bs"
  have "drop_bit 8 (push_bit 8 ?w) = ?w"
    using word_of_bytes_bits [of bs] Cons.prems
    by (intro bit_eqI) (auto simp: bit_simps dest: bit_imp_le_length)
  then have shift: "crc_bits8 (push_bit 8 ?w) = ?w"
    by (subst crc_bits8_high) (auto simp: bit_simps)
  have "crc_run c (b # bs) = (crc_bits8 ^^ length bs) (crc_bits8 (c XOR ucast b) XOR ?w)"
    using Cons by (simp add: crc_byte_def)
  also have "crc_bits8 (c XOR ucast b) XOR ?w = crc_bits8 ((c XOR ucast b) XOR push_bit 8 ?w)"
    by (simp add: crc_bits8_xor shift)
  also have "(c XOR ucast b) XOR push_bit 8 ?w = c XOR word_of_bytes (b # bs)"
    by (simp add: word_of_bytes_Cons xor.assoc)
  finally show ?case by (simp add: funpow_swap1)
qed

lemma crc_bits8_funpow_inj: "(crc_bits8 ^^ n) x = (crc_bits8 ^^ n) y \<Longrightarrow> x = y"
  by (induction n) (auto dest: crc_bits8_inj)

lemma word_of_bytes_inj:
  "length bs \<le> 4 \<Longrightarrow> length bs' = length bs \<Longrightarrow> word_of_bytes bs = word_of_bytes bs' \<Longrightarrow> bs = bs'"
proof -
  assume len: "length bs \<le> 4" and len': "length bs' = length bs"
    and eq: "word_of_bytes bs = word_of_bytes bs'"
  have pow: "(256 :: int) ^ length bs \<le> 2 ^ 32"
    using power_increasing [OF len, of "256 :: int"] by simp
  have "le_int bs < 2 ^ 32" "le_int bs' < 2 ^ 32"
    using le_int_bound [of bs] le_int_bound [of bs'] pow len' by auto
  with eq have "le_int bs = le_int bs'"
    unfolding word_of_bytes_def by (simp add: word_of_int_eq_iff take_bit_int_eq_self)
  then show "bs = bs'" using le_bytes_le_int len' by metis
qed

lemma crc_run_burst:
  assumes len: "length u \<le> 4" "length v = length u" and neq: "u \<noteq> v"
  shows "crc_run c (xs @ u @ ys) \<noteq> crc_run c (xs @ v @ ys)"
proof
  assume "crc_run c (xs @ u @ ys) = crc_run c (xs @ v @ ys)"
  then have "crc_run (crc_run c xs) u = crc_run (crc_run c xs) v"
    by (auto simp: crc_run_append dest: crc_run_inj)
  then have "crc_run c xs XOR word_of_bytes u = crc_run c xs XOR word_of_bytes v"
    using len by (auto simp: crc_run_word dest: crc_bits8_funpow_inj)
  then have "word_of_bytes u = word_of_bytes v"
    by (rule xor_cancel_left)
  with word_of_bytes_inj [of u v] len neq show False by auto
qed

text \<open>A run that goes on over its own value, written in little-endian order, ends at zero.\<close>

lemma crc_bits8_zero: "crc_bits8 0 = 0"
  by (simp add: crc_bits8_def crc_bit_def)

lemma crc_run_own_value:
  assumes "length ys = 4" "le_int ys = uint (crc_run c xs)"
  shows "crc_run c (xs @ ys) = 0"
proof -
  have "word_of_bytes ys = crc_run c xs"
    using assms by (simp add: word_of_bytes_def)
  moreover have "(crc_bits8 ^^ n) 0 = 0" for n
    by (induction n) (simp_all add: crc_bits8_zero)
  ultimately show ?thesis
    using assms(1) by (simp add: crc_run_append crc_run_word)
qed

section \<open>block_sig.compute_sig\<close>

definition MASK16 :: int where "MASK16 = 0xFFFF"

definition compute_sig :: "int \<Rightarrow> int \<Rightarrow> int" where
  "compute_sig index block_id =
     (let value = (index AND MASK32) XOR (block_id AND MASK32)
      in (drop_bit 16 value XOR value) AND MASK16)"

lemma MASK16_mask: "MASK16 = mask 16"
  by (simp add: MASK16_def mask_eq_exp_minus_1)

lemma compute_sig_commute: "compute_sig a b = compute_sig b a"
  by (simp add: compute_sig_def xor.commute)

section \<open>Properties\<close>

text \<open>The CRC of crc.py, which reaches \<open>zlib.crc32\<close> by inverting its arguments, is the table walk
  of the format's own algorithm (MS-PST 5.3) started at the same value, on every input.\<close>

theorem compute_crc_is_table_walk: "compute_crc crc data = uint (crc_table_walk (word_of_int crc) data)"
  by (simp add: compute_crc_run crc_run_table)

text \<open>A change confined to at most four consecutive bytes always changes the CRC, whatever the seed and
  the data around it: what every integrity check of a page, a block or the header can rely on.\<close>

theorem compute_crc_burst:
  assumes "length u \<le> 4" "length v = length u" "u \<noteq> v"
  shows "compute_crc crc (xs @ u @ ys) \<noteq> compute_crc crc (xs @ v @ ys)"
  using crc_run_burst [OF assms] by (simp add: compute_crc_run word_uint_eq_iff)

end
