(* ===== verification/Pst_Ids.thy ===== *)
theory Pst_Ids
  imports Pst_Prelude
begin

unbundle bit_operations_syntax

text \<open>
  \<open>src/pypstreader/ndb/ids.py\<close>: the words of the node database. A node id is 5 bits of type and 27
  of index, a block id two flag bits and 62 of index, a page id and a byte index plain 64-bit
  values, and a reference pairs an id with a byte index. Each dataclass is the type of its values
  and each constructor a checked function; each structure on disk is an interpretation of \<open>codec\<close>.
\<close>

section \<open>Widths and formats\<close>

definition NODE_ID_FORMAT :: fmt where "NODE_ID_FORMAT = [4]"
definition BLOCK_ID_FORMAT :: fmt where "BLOCK_ID_FORMAT = [8]"
definition BYTE_INDEX_FORMAT :: fmt where "BYTE_INDEX_FORMAT = [8]"
definition BLOCK_REF_FORMAT :: fmt where "BLOCK_REF_FORMAT = [8, 8]"

definition U32 :: int where "U32 = 0xFFFFFFFF"
definition U64 :: int where "U64 = 0xFFFFFFFFFFFFFFFF"
definition MAX_NODE_INDEX :: int where "MAX_NODE_INDEX = push_bit 27 1 - 1"
definition MAX_BLOCK_INDEX :: int where "MAX_BLOCK_INDEX = push_bit 62 1 - 1"
definition NODE_TYPE_MASK :: int where "NODE_TYPE_MASK = push_bit 5 1 - 1"
definition BLOCK_INTERNAL_BIT :: int where "BLOCK_INTERNAL_BIT = 2"
definition BLOCK_RESERVED_BIT :: int where "BLOCK_RESERVED_BIT = 1"

lemmas id_masks =
  U32_def U64_def MAX_NODE_INDEX_def MAX_BLOCK_INDEX_def NODE_TYPE_MASK_def
  BLOCK_INTERNAL_BIT_def BLOCK_RESERVED_BIT_def

lemmas id_formats = NODE_ID_FORMAT_def BLOCK_ID_FORMAT_def BYTE_INDEX_FORMAT_def BLOCK_REF_FORMAT_def

definition check_width :: "int \<Rightarrow> int \<Rightarrow> unit result" where
  "check_width value largest = raise_if (value < 0 \<or> value > largest) PstFormatError"

lemma check_width_Inr_iff [res_simps]: "check_width v m = Inr u \<longleftrightarrow> 0 \<le> v \<and> v \<le> m"
  by (auto simp: check_width_def raise_if_def)

lemma check_width_closed [simp, intro]: "fails_closed (check_width v m)"
  by (simp add: check_width_def)

lemma check_width_ok: "0 \<le> v \<Longrightarrow> v \<le> m \<Longrightarrow> check_width v m = Inr ()"
  by (simp add: check_width_Inr_iff)

text \<open>Bit facts on non-negative integers.\<close>

lemma and_31: "(x :: int) AND 31 = x mod 32"
  using take_bit_eq_mask [of 5 x] by (simp add: take_bit_eq_mod mask_eq_exp_minus_1)

lemma and_2_mod: "(x :: int) AND 2 = 2 * (x div 2 mod 2)"
  by (subst and_rec) (simp add: and_one_eq)

lemma and_not_1: "(x :: int) AND - 2 = x - x mod 2"
proof -
  have "x AND - 2 = 2 * (x div 2)"
    by (subst and_rec) simp
  then show ?thesis by presburger
qed

lemma or_low: "0 \<le> t \<Longrightarrow> t < 2 ^ n \<Longrightarrow> push_bit n i OR t = 2 ^ n * i + t" for i t :: int
proof -
  assume t: "0 \<le> t" "t < 2 ^ n"
  have "push_bit n i AND t = 0"
  proof (rule bit_eqI)
    fix m
    have "\<not> bit t m" if "n \<le> m"
      using t that by (metis bit_take_bit_iff not_le take_bit_int_eq_self)
    then show "bit (push_bit n i AND t) m = bit (0 :: int) m"
      by (auto simp: bit_simps)
  qed
  then have "push_bit n i OR t = push_bit n i + t"
    by (simp add: disjunctive_add_eq_or)
  then show ?thesis by (simp add: push_bit_eq_mult mult.commute)
qed

section \<open>NodeIdType\<close>

datatype node_id_type =
    NT_HID | NT_INTERNAL | NT_NORMAL_FOLDER | NT_SEARCH_FOLDER | NT_NORMAL_MESSAGE | NT_ATTACHMENT
  | NT_SEARCH_UPDATE_QUEUE | NT_SEARCH_CRITERIA_OBJECT | NT_ASSOC_MESSAGE | NT_CONTENTS_TABLE_INDEX
  | NT_RECEIVE_FOLDER_TABLE | NT_OUTGOING_QUEUE_TABLE | NT_HIERARCHY_TABLE | NT_CONTENTS_TABLE
  | NT_ASSOC_CONTENTS_TABLE | NT_SEARCH_CONTENTS_TABLE | NT_ATTACHMENT_TABLE | NT_RECIPIENT_TABLE
  | NT_SEARCH_TABLE_INDEX | NT_LTP

fun node_type_value :: "node_id_type \<Rightarrow> int" where
  "node_type_value NT_HID = 0x00"
| "node_type_value NT_INTERNAL = 0x01"
| "node_type_value NT_NORMAL_FOLDER = 0x02"
| "node_type_value NT_SEARCH_FOLDER = 0x03"
| "node_type_value NT_NORMAL_MESSAGE = 0x04"
| "node_type_value NT_ATTACHMENT = 0x05"
| "node_type_value NT_SEARCH_UPDATE_QUEUE = 0x06"
| "node_type_value NT_SEARCH_CRITERIA_OBJECT = 0x07"
| "node_type_value NT_ASSOC_MESSAGE = 0x08"
| "node_type_value NT_CONTENTS_TABLE_INDEX = 0x0A"
| "node_type_value NT_RECEIVE_FOLDER_TABLE = 0x0B"
| "node_type_value NT_OUTGOING_QUEUE_TABLE = 0x0C"
| "node_type_value NT_HIERARCHY_TABLE = 0x0D"
| "node_type_value NT_CONTENTS_TABLE = 0x0E"
| "node_type_value NT_ASSOC_CONTENTS_TABLE = 0x0F"
| "node_type_value NT_SEARCH_CONTENTS_TABLE = 0x10"
| "node_type_value NT_ATTACHMENT_TABLE = 0x11"
| "node_type_value NT_RECIPIENT_TABLE = 0x12"
| "node_type_value NT_SEARCH_TABLE_INDEX = 0x13"
| "node_type_value NT_LTP = 0x1F"

definition node_id_types :: "node_id_type list" where
  "node_id_types =
     [NT_HID, NT_INTERNAL, NT_NORMAL_FOLDER, NT_SEARCH_FOLDER, NT_NORMAL_MESSAGE, NT_ATTACHMENT,
      NT_SEARCH_UPDATE_QUEUE, NT_SEARCH_CRITERIA_OBJECT, NT_ASSOC_MESSAGE, NT_CONTENTS_TABLE_INDEX,
      NT_RECEIVE_FOLDER_TABLE, NT_OUTGOING_QUEUE_TABLE, NT_HIERARCHY_TABLE, NT_CONTENTS_TABLE,
      NT_ASSOC_CONTENTS_TABLE, NT_SEARCH_CONTENTS_TABLE, NT_ATTACHMENT_TABLE, NT_RECIPIENT_TABLE,
      NT_SEARCH_TABLE_INDEX, NT_LTP]"

definition node_type_of_value :: "int \<Rightarrow> node_id_type result" where
  "node_type_of_value = enum_of node_type_value node_id_types"

interpretation node_type_enum: int_enum node_type_value node_id_types
proof
  show "m \<in> set node_id_types" for m by (cases m) (simp_all add: node_id_types_def)
  show "node_type_value m = node_type_value m' \<Longrightarrow> m = m'" for m m'
    by (cases m) (cases m'; simp)+
qed

lemma node_type_value_range: "0 \<le> node_type_value t" "node_type_value t < 32"
  by (cases t; simp)+

fun node_type_debug_name :: "node_id_type \<Rightarrow> string" where
  "node_type_debug_name NT_HID = ''HeapNode''"
| "node_type_debug_name NT_INTERNAL = ''Internal''"
| "node_type_debug_name NT_NORMAL_FOLDER = ''NormalFolder''"
| "node_type_debug_name NT_SEARCH_FOLDER = ''SearchFolder''"
| "node_type_debug_name NT_NORMAL_MESSAGE = ''NormalMessage''"
| "node_type_debug_name NT_ATTACHMENT = ''Attachment''"
| "node_type_debug_name NT_SEARCH_UPDATE_QUEUE = ''SearchUpdateQueue''"
| "node_type_debug_name NT_SEARCH_CRITERIA_OBJECT = ''SearchCriteria''"
| "node_type_debug_name NT_ASSOC_MESSAGE = ''AssociatedMessage''"
| "node_type_debug_name NT_CONTENTS_TABLE_INDEX = ''ContentsTableIndex''"
| "node_type_debug_name NT_RECEIVE_FOLDER_TABLE = ''ReceiveFolderTable''"
| "node_type_debug_name NT_OUTGOING_QUEUE_TABLE = ''OutgoingQueueTable''"
| "node_type_debug_name NT_HIERARCHY_TABLE = ''HierarchyTable''"
| "node_type_debug_name NT_CONTENTS_TABLE = ''ContentsTable''"
| "node_type_debug_name NT_ASSOC_CONTENTS_TABLE = ''AssociatedContentsTable''"
| "node_type_debug_name NT_SEARCH_CONTENTS_TABLE = ''SearchContentsTable''"
| "node_type_debug_name NT_ATTACHMENT_TABLE = ''AttachmentTable''"
| "node_type_debug_name NT_RECIPIENT_TABLE = ''RecipientTable''"
| "node_type_debug_name NT_SEARCH_TABLE_INDEX = ''SearchTableIndex''"
| "node_type_debug_name NT_LTP = ''ListsTablesProperties''"

text \<open>\<open>NodeIdType.from_debug_name\<close>, through the inverted dictionary.\<close>

definition node_type_from_debug_name :: "string \<Rightarrow> node_id_type result" where
  "node_type_from_debug_name name =
     (case find (\<lambda>t. node_type_debug_name t = name) node_id_types of
        None \<Rightarrow> Inl PstFormatError | Some t \<Rightarrow> Inr t)"

lemma node_type_debug_roundtrip: "node_type_from_debug_name (node_type_debug_name t) = Inr t"
  by (cases t) (simp_all add: node_type_from_debug_name_def node_id_types_def)

section \<open>NodeId\<close>

datatype node_id = NodeId (nid_raw: int)

definition node_id_ok :: "node_id \<Rightarrow> bool" where
  "node_id_ok n \<longleftrightarrow> 0 \<le> nid_raw n \<and> nid_raw n \<le> U32"

definition mk_NodeId :: "int \<Rightarrow> node_id result" where
  "mk_NodeId raw = ebind (check_width raw U32) (\<lambda>_. Inr (NodeId raw))"

definition NodeId_from_parts :: "int \<Rightarrow> int \<Rightarrow> node_id result" where
  "NodeId_from_parts id_type index =
     ebind (reraise ValueError PstFormatError (node_type_of_value id_type)) (\<lambda>t.
     ebind (raise_if (\<not> (0 \<le> index \<and> index \<le> MAX_NODE_INDEX)) PstFormatError) (\<lambda>_.
     mk_NodeId (push_bit 5 index OR node_type_value t)))"

definition NodeId_unpack_from :: "bytes \<Rightarrow> int \<Rightarrow> node_id result" where
  "NodeId_unpack_from buf offset =
     ebind (unpack NODE_ID_FORMAT buf offset) (\<lambda>fs. mk_NodeId (fs ! 0))"

definition NodeId_pack :: "node_id \<Rightarrow> bytes" where
  "NodeId_pack n = struct_pack NODE_ID_FORMAT [nid_raw n]"

definition NodeId_id_type :: "node_id \<Rightarrow> node_id_type result" where
  "NodeId_id_type n =
     reraise ValueError PstFormatError (node_type_of_value (nid_raw n AND NODE_TYPE_MASK))"

definition NodeId_index :: "node_id \<Rightarrow> int" where
  "NodeId_index n = drop_bit 5 (nid_raw n)"

definition NID_MESSAGE_STORE :: node_id where "NID_MESSAGE_STORE = NodeId 0x21"
definition NID_NAME_TO_ID_MAP :: node_id where "NID_NAME_TO_ID_MAP = NodeId 0x61"
definition NID_ROOT_FOLDER :: node_id where "NID_ROOT_FOLDER = NodeId 0x122"

lemma mk_NodeId_Inr_iff: "mk_NodeId raw = Inr n \<longleftrightarrow> n = NodeId raw \<and> 0 \<le> raw \<and> raw \<le> U32"
  by (auto simp: mk_NodeId_def res_simps)

lemma mk_NodeId_ok: "0 \<le> raw \<Longrightarrow> raw \<le> U32 \<Longrightarrow> mk_NodeId raw = Inr (NodeId raw)"
  by (simp add: mk_NodeId_Inr_iff)

lemma mk_NodeId_closed [simp, intro]: "fails_closed (mk_NodeId raw)"
  by (auto simp: mk_NodeId_def)

lemma NodeId_id_type_closed [simp, intro]: "fails_closed (NodeId_id_type n)"
  unfolding NodeId_id_type_def node_type_of_value_def fails_closed_def
  by (auto simp: reraise_def node_type_enum.of_value_Inl_iff split: sum.splits)

lemma NodeId_id_type_iff: "NodeId_id_type n = Inr t \<longleftrightarrow> nid_raw n mod 32 = node_type_value t"
  by (auto simp: NodeId_id_type_def reraise_Inr_iff node_type_of_value_def
      node_type_enum.of_value_iff NODE_TYPE_MASK_def and_31)

lemma NodeId_index_div: "NodeId_index n = nid_raw n div 32"
  by (simp add: NodeId_index_def drop_bit_eq_div)

text \<open>Building from parts and taking the parts are inverse.\<close>

lemma NodeId_from_parts_eq:
  "NodeId_from_parts (node_type_value t) index =
     (if 0 \<le> index \<and> index \<le> MAX_NODE_INDEX then Inr (NodeId (32 * index + node_type_value t))
      else Inl PstFormatError)"
  using node_type_value_range [of t] or_low [of "node_type_value t" 5 index]
  by (auto simp: NodeId_from_parts_def node_type_of_value_def mk_NodeId_Inr_iff id_masks)

lemma NodeId_from_parts_parts:
  "NodeId_from_parts (node_type_value t) index = Inr n \<Longrightarrow> NodeId_id_type n = Inr t \<and> NodeId_index n = index"
  using node_type_value_range [of t]
  by (auto simp: NodeId_from_parts_eq NodeId_id_type_iff NodeId_index_div split: if_splits)

lemma NodeId_parts_from_parts:
  assumes ok: "node_id_ok n" and ty: "NodeId_id_type n = Inr t"
  shows "NodeId_from_parts (node_type_value t) (NodeId_index n) = Inr n"
proof -
  have range: "0 \<le> nid_raw n" "nid_raw n \<le> U32" using ok by (auto simp: node_id_ok_def)
  have "node_type_value t = nid_raw n mod 32" using ty by (simp add: NodeId_id_type_iff)
  moreover have "0 \<le> nid_raw n div 32" "nid_raw n div 32 \<le> MAX_NODE_INDEX"
    using range by (auto simp: id_masks)
  ultimately have "NodeId_from_parts (node_type_value t) (nid_raw n div 32) =
      Inr (NodeId (32 * (nid_raw n div 32) + nid_raw n mod 32))"
    using NodeId_from_parts_eq [of t "nid_raw n div 32"] by simp
  then show ?thesis by (cases n) (simp add: NodeId_index_div)
qed

section \<open>BlockId\<close>

datatype block_id = BlockId (bid_raw: int)

definition block_id_ok :: "block_id \<Rightarrow> bool" where
  "block_id_ok b \<longleftrightarrow> 0 \<le> bid_raw b \<and> bid_raw b \<le> U64"

definition mk_BlockId :: "int \<Rightarrow> block_id result" where
  "mk_BlockId raw = ebind (check_width raw U64) (\<lambda>_. Inr (BlockId raw))"

definition BlockId_from_parts :: "bool \<Rightarrow> int \<Rightarrow> block_id result" where
  "BlockId_from_parts internal index =
     ebind (raise_if (\<not> (0 \<le> index \<and> index \<le> MAX_BLOCK_INDEX)) PstFormatError) (\<lambda>_.
     mk_BlockId (push_bit 2 index OR (if internal then BLOCK_INTERNAL_BIT else 0)))"

definition BlockId_unpack_from :: "bytes \<Rightarrow> int \<Rightarrow> block_id result" where
  "BlockId_unpack_from buf offset =
     ebind (unpack BLOCK_ID_FORMAT buf offset) (\<lambda>fs. mk_BlockId (fs ! 0))"

definition BlockId_pack :: "block_id \<Rightarrow> bytes" where
  "BlockId_pack b = struct_pack BLOCK_ID_FORMAT [bid_raw b]"

definition BlockId_is_internal :: "block_id \<Rightarrow> bool" where
  "BlockId_is_internal b = (bid_raw b AND BLOCK_INTERNAL_BIT = BLOCK_INTERNAL_BIT)"

definition BlockId_index :: "block_id \<Rightarrow> int" where
  "BlockId_index b = drop_bit 2 (bid_raw b)"

definition BlockId_search_key :: "block_id \<Rightarrow> int" where
  "BlockId_search_key b = bid_raw b AND NOT BLOCK_RESERVED_BIT AND U64"

lemma mk_BlockId_Inr_iff: "mk_BlockId raw = Inr b \<longleftrightarrow> b = BlockId raw \<and> 0 \<le> raw \<and> raw \<le> U64"
  by (auto simp: mk_BlockId_def res_simps)

lemma mk_BlockId_ok: "0 \<le> raw \<Longrightarrow> raw \<le> U64 \<Longrightarrow> mk_BlockId raw = Inr (BlockId raw)"
  by (simp add: mk_BlockId_Inr_iff)

lemma mk_BlockId_closed [simp, intro]: "fails_closed (mk_BlockId raw)"
  by (auto simp: mk_BlockId_def)

lemma BlockId_is_internal_iff: "BlockId_is_internal b \<longleftrightarrow> bid_raw b div 2 mod 2 = 1"
  by (auto simp: BlockId_is_internal_def BLOCK_INTERNAL_BIT_def and_2_mod)

lemma BlockId_search_key_eq:
  assumes "block_id_ok b"
  shows "BlockId_search_key b = bid_raw b - bid_raw b mod 2"
proof -
  have "take_bit 64 (bid_raw b) = bid_raw b"
    using assms by (simp add: block_id_ok_def U64_def take_bit_int_eq_self)
  then have "bid_raw b AND NOT 1 AND mask 64 = bid_raw b AND NOT 1"
    by (metis and.assoc and.commute take_bit_eq_mask)
  then show ?thesis
    by (simp add: BlockId_search_key_def BLOCK_RESERVED_BIT_def U64_def mask_eq_exp_minus_1 and_not_1)
qed

text \<open>Clearing the reserved bit keeps the kind of the block.\<close>

lemma BlockId_search_key_internal:
  assumes "block_id_ok a" "block_id_ok b" "BlockId_search_key a = BlockId_search_key b"
  shows "BlockId_is_internal a \<longleftrightarrow> BlockId_is_internal b"
proof -
  have "bid_raw a div 2 = bid_raw b div 2"
    using assms(3) unfolding BlockId_search_key_eq [OF assms(1)] BlockId_search_key_eq [OF assms(2)]
    by presburger
  then show ?thesis by (simp add: BlockId_is_internal_iff)
qed

lemma BlockId_from_parts_eq:
  "BlockId_from_parts internal index =
     (if 0 \<le> index \<and> index \<le> MAX_BLOCK_INDEX then Inr (BlockId (4 * index + (if internal then 2 else 0)))
      else Inl PstFormatError)"
  using or_low [of 2 2 index] or_low [of 0 2 index]
  by (auto simp: BlockId_from_parts_def mk_BlockId_Inr_iff id_masks)

lemma BlockId_from_parts_parts:
  "BlockId_from_parts internal index = Inr b \<Longrightarrow>
     BlockId_is_internal b = internal \<and> BlockId_index b = index \<and> BlockId_search_key b = bid_raw b"
  by (auto simp: BlockId_from_parts_eq BlockId_is_internal_iff BlockId_index_def drop_bit_eq_div
      BlockId_search_key_eq block_id_ok_def id_masks split: if_splits)

section \<open>PageId and ByteIndex\<close>

datatype page_id = PageId (pid_raw: int)
datatype byte_index = ByteIndex (ib_value: int)

definition page_id_ok :: "page_id \<Rightarrow> bool" where
  "page_id_ok p \<longleftrightarrow> 0 \<le> pid_raw p \<and> pid_raw p \<le> U64"

definition byte_index_ok :: "byte_index \<Rightarrow> bool" where
  "byte_index_ok i \<longleftrightarrow> 0 \<le> ib_value i \<and> ib_value i \<le> U64"

definition mk_PageId :: "int \<Rightarrow> page_id result" where
  "mk_PageId raw = ebind (check_width raw U64) (\<lambda>_. Inr (PageId raw))"

definition PageId_unpack_from :: "bytes \<Rightarrow> int \<Rightarrow> page_id result" where
  "PageId_unpack_from buf offset =
     ebind (unpack BLOCK_ID_FORMAT buf offset) (\<lambda>fs. mk_PageId (fs ! 0))"

definition PageId_pack :: "page_id \<Rightarrow> bytes" where
  "PageId_pack p = struct_pack BLOCK_ID_FORMAT [pid_raw p]"

definition PageId_search_key :: "page_id \<Rightarrow> int" where
  "PageId_search_key p = pid_raw p"

definition mk_ByteIndex :: "int \<Rightarrow> byte_index result" where
  "mk_ByteIndex value = ebind (check_width value U64) (\<lambda>_. Inr (ByteIndex value))"

definition ByteIndex_unpack_from :: "bytes \<Rightarrow> int \<Rightarrow> byte_index result" where
  "ByteIndex_unpack_from buf offset =
     ebind (unpack BYTE_INDEX_FORMAT buf offset) (\<lambda>fs. mk_ByteIndex (fs ! 0))"

definition ByteIndex_pack :: "byte_index \<Rightarrow> bytes" where
  "ByteIndex_pack i = struct_pack BYTE_INDEX_FORMAT [ib_value i]"

lemma mk_PageId_Inr_iff: "mk_PageId raw = Inr p \<longleftrightarrow> p = PageId raw \<and> 0 \<le> raw \<and> raw \<le> U64"
  by (auto simp: mk_PageId_def res_simps)

lemma mk_ByteIndex_Inr_iff: "mk_ByteIndex v = Inr i \<longleftrightarrow> i = ByteIndex v \<and> 0 \<le> v \<and> v \<le> U64"
  by (auto simp: mk_ByteIndex_def res_simps)

lemma mk_PageId_closed [simp, intro]: "fails_closed (mk_PageId raw)"
  by (auto simp: mk_PageId_def)

lemma mk_ByteIndex_closed [simp, intro]: "fails_closed (mk_ByteIndex raw)"
  by (auto simp: mk_ByteIndex_def)

section \<open>BlockRef and PageRef\<close>

record block_ref =
  br_block :: block_id
  br_index :: byte_index

record page_ref =
  pr_page :: page_id
  pr_index :: byte_index

definition block_ref_ok :: "block_ref \<Rightarrow> bool" where
  "block_ref_ok r \<longleftrightarrow> block_id_ok (br_block r) \<and> byte_index_ok (br_index r)"

definition page_ref_ok :: "page_ref \<Rightarrow> bool" where
  "page_ref_ok r \<longleftrightarrow> page_id_ok (pr_page r) \<and> byte_index_ok (pr_index r)"

text \<open>\<open>BlockRef(BlockId(b), ByteIndex(i))\<close>, its parts checked in that order.\<close>

definition mk_BlockRef :: "int \<Rightarrow> int \<Rightarrow> block_ref result" where
  "mk_BlockRef block index =
     ebind (mk_BlockId block) (\<lambda>b. ebind (mk_ByteIndex index) (\<lambda>i.
     Inr \<lparr>br_block = b, br_index = i\<rparr>))"

definition mk_PageRef :: "int \<Rightarrow> int \<Rightarrow> page_ref result" where
  "mk_PageRef page index =
     ebind (mk_PageId page) (\<lambda>p. ebind (mk_ByteIndex index) (\<lambda>i.
     Inr \<lparr>pr_page = p, pr_index = i\<rparr>))"

definition BlockRef_unpack_from :: "bytes \<Rightarrow> int \<Rightarrow> block_ref result" where
  "BlockRef_unpack_from buf offset =
     ebind (unpack BLOCK_REF_FORMAT buf offset) (\<lambda>fs. mk_BlockRef (fs ! 0) (fs ! 1))"

definition BlockRef_pack :: "block_ref \<Rightarrow> bytes" where
  "BlockRef_pack r = struct_pack BLOCK_REF_FORMAT [bid_raw (br_block r), ib_value (br_index r)]"

definition PageRef_unpack_from :: "bytes \<Rightarrow> int \<Rightarrow> page_ref result" where
  "PageRef_unpack_from buf offset =
     ebind (unpack BLOCK_REF_FORMAT buf offset) (\<lambda>fs. mk_PageRef (fs ! 0) (fs ! 1))"

definition PageRef_pack :: "page_ref \<Rightarrow> bytes" where
  "PageRef_pack r = struct_pack BLOCK_REF_FORMAT [pid_raw (pr_page r), ib_value (pr_index r)]"

lemma mk_BlockRef_Inr_iff:
  "mk_BlockRef b i = Inr r \<longleftrightarrow>
     r = \<lparr>br_block = BlockId b, br_index = ByteIndex i\<rparr> \<and> 0 \<le> b \<and> b \<le> U64 \<and> 0 \<le> i \<and> i \<le> U64"
  by (auto simp: mk_BlockRef_def res_simps mk_BlockId_Inr_iff mk_ByteIndex_Inr_iff)

lemma mk_PageRef_Inr_iff:
  "mk_PageRef p i = Inr r \<longleftrightarrow>
     r = \<lparr>pr_page = PageId p, pr_index = ByteIndex i\<rparr> \<and> 0 \<le> p \<and> p \<le> U64 \<and> 0 \<le> i \<and> i \<le> U64"
  by (auto simp: mk_PageRef_def res_simps mk_PageId_Inr_iff mk_ByteIndex_Inr_iff)

lemma mk_refs_closed [simp, intro]: "fails_closed (mk_BlockRef a b)" "fails_closed (mk_PageRef a b)"
  unfolding mk_BlockRef_def mk_PageRef_def by blast+

lemma mk_BlockRef_ok: "mk_BlockRef a b = Inr r \<Longrightarrow> block_ref_ok r"
  by (auto simp: mk_BlockRef_Inr_iff block_ref_ok_def block_id_ok_def byte_index_ok_def)

lemma mk_PageRef_ok: "mk_PageRef a b = Inr r \<Longrightarrow> page_ref_ok r"
  by (auto simp: mk_PageRef_Inr_iff page_ref_ok_def page_id_ok_def byte_index_ok_def)

lemma mk_BlockRef_of: "block_ref_ok r \<Longrightarrow> mk_BlockRef (bid_raw (br_block r)) (ib_value (br_index r)) = Inr r"
  by (cases r) (auto simp: mk_BlockRef_Inr_iff block_ref_ok_def block_id_ok_def byte_index_ok_def)

lemma mk_PageRef_of: "page_ref_ok r \<Longrightarrow> mk_PageRef (pid_raw (pr_page r)) (ib_value (pr_index r)) = Inr r"
  by (cases r) (auto simp: mk_PageRef_Inr_iff page_ref_ok_def page_id_ok_def byte_index_ok_def)

section \<open>The codecs\<close>

lemmas codec_simps =
  id_formats id_masks calcsize_def length_struct_pack unpack_pack unpack_Inr_iff ebind_Inr_iff

interpretation NodeId_codec: codec NodeId_unpack_from NodeId_pack 4 node_id_ok
proof
  show "len (NodeId_pack x) = 4" for x
    by (simp add: NodeId_pack_def codec_simps)
  show "NodeId_unpack_from (pre @ NodeId_pack x @ post) (len pre) = Inr x" if "node_id_ok x" for x pre post
    using that unpack_pack [of NODE_ID_FORMAT "[nid_raw x]"]
    by (simp add: NodeId_unpack_from_def NodeId_pack_def node_id_ok_def codec_simps mk_NodeId_Inr_iff)
  show "0 \<le> off \<and> off + 4 \<le> len buf" if "NodeId_unpack_from buf off = Inr x" for buf off x
    using that by (auto simp: NodeId_unpack_from_def codec_simps)
  show "fails_closed (NodeId_unpack_from buf off)" for buf off
    unfolding NodeId_unpack_from_def by blast
qed

interpretation BlockId_codec: codec BlockId_unpack_from BlockId_pack 8 block_id_ok
proof
  show "len (BlockId_pack x) = 8" for x
    by (simp add: BlockId_pack_def codec_simps)
  show "BlockId_unpack_from (pre @ BlockId_pack x @ post) (len pre) = Inr x" if "block_id_ok x" for x pre post
    using that unpack_pack [of BLOCK_ID_FORMAT "[bid_raw x]"]
    by (simp add: BlockId_unpack_from_def BlockId_pack_def block_id_ok_def codec_simps mk_BlockId_Inr_iff)
  show "0 \<le> off \<and> off + 8 \<le> len buf" if "BlockId_unpack_from buf off = Inr x" for buf off x
    using that by (auto simp: BlockId_unpack_from_def codec_simps)
  show "fails_closed (BlockId_unpack_from buf off)" for buf off
    unfolding BlockId_unpack_from_def by blast
qed

interpretation PageId_codec: codec PageId_unpack_from PageId_pack 8 page_id_ok
proof
  show "len (PageId_pack x) = 8" for x
    by (simp add: PageId_pack_def codec_simps)
  show "PageId_unpack_from (pre @ PageId_pack x @ post) (len pre) = Inr x" if "page_id_ok x" for x pre post
    using that unpack_pack [of BLOCK_ID_FORMAT "[pid_raw x]"]
    by (simp add: PageId_unpack_from_def PageId_pack_def page_id_ok_def codec_simps mk_PageId_Inr_iff)
  show "0 \<le> off \<and> off + 8 \<le> len buf" if "PageId_unpack_from buf off = Inr x" for buf off x
    using that by (auto simp: PageId_unpack_from_def codec_simps)
  show "fails_closed (PageId_unpack_from buf off)" for buf off
    unfolding PageId_unpack_from_def by blast
qed

interpretation ByteIndex_codec: codec ByteIndex_unpack_from ByteIndex_pack 8 byte_index_ok
proof
  show "len (ByteIndex_pack x) = 8" for x
    by (simp add: ByteIndex_pack_def codec_simps)
  show "ByteIndex_unpack_from (pre @ ByteIndex_pack x @ post) (len pre) = Inr x" if "byte_index_ok x" for x pre post
    using that unpack_pack [of BYTE_INDEX_FORMAT "[ib_value x]"]
    by (simp add: ByteIndex_unpack_from_def ByteIndex_pack_def byte_index_ok_def codec_simps mk_ByteIndex_Inr_iff)
  show "0 \<le> off \<and> off + 8 \<le> len buf" if "ByteIndex_unpack_from buf off = Inr x" for buf off x
    using that by (auto simp: ByteIndex_unpack_from_def codec_simps)
  show "fails_closed (ByteIndex_unpack_from buf off)" for buf off
    unfolding ByteIndex_unpack_from_def by blast
qed

interpretation BlockRef_codec: codec BlockRef_unpack_from BlockRef_pack 16 block_ref_ok
proof
  show "len (BlockRef_pack x) = 16" for x
    by (simp add: BlockRef_pack_def codec_simps)
  show "BlockRef_unpack_from (pre @ BlockRef_pack x @ post) (len pre) = Inr x" if "block_ref_ok x" for x pre post
    using that mk_BlockRef_of [OF that] unpack_pack [of BLOCK_REF_FORMAT "[bid_raw (br_block x), ib_value (br_index x)]"]
    by (simp add: BlockRef_unpack_from_def BlockRef_pack_def block_ref_ok_def block_id_ok_def
        byte_index_ok_def codec_simps)
  show "0 \<le> off \<and> off + 16 \<le> len buf" if "BlockRef_unpack_from buf off = Inr x" for buf off x
    using that by (auto simp: BlockRef_unpack_from_def codec_simps)
  show "fails_closed (BlockRef_unpack_from buf off)" for buf off
    unfolding BlockRef_unpack_from_def by blast
qed

interpretation PageRef_codec: codec PageRef_unpack_from PageRef_pack 16 page_ref_ok
proof
  show "len (PageRef_pack x) = 16" for x
    by (simp add: PageRef_pack_def codec_simps)
  show "PageRef_unpack_from (pre @ PageRef_pack x @ post) (len pre) = Inr x" if "page_ref_ok x" for x pre post
    using that mk_PageRef_of [OF that] unpack_pack [of BLOCK_REF_FORMAT "[pid_raw (pr_page x), ib_value (pr_index x)]"]
    by (simp add: PageRef_unpack_from_def PageRef_pack_def page_ref_ok_def page_id_ok_def
        byte_index_ok_def codec_simps)
  show "0 \<le> off \<and> off + 16 \<le> len buf" if "PageRef_unpack_from buf off = Inr x" for buf off x
    using that by (auto simp: PageRef_unpack_from_def codec_simps)
  show "fails_closed (PageRef_unpack_from buf off)" for buf off
    unfolding PageRef_unpack_from_def by blast
qed

section \<open>Properties\<close>

text \<open>A node id is its type and its index: \<open>from_parts\<close> gives back what it was made from, and an
  id whose type is known is rebuilt from its parts.\<close>

theorem NodeId_parts:
  "(NodeId_from_parts (node_type_value t) index = Inr n \<longrightarrow> NodeId_id_type n = Inr t \<and> NodeId_index n = index) \<and>
   (node_id_ok n \<and> NodeId_id_type n = Inr t \<longrightarrow> NodeId_from_parts (node_type_value t) (NodeId_index n) = Inr n)"
  using NodeId_from_parts_parts NodeId_parts_from_parts by blast

text \<open>A block id made from its parts says whether it is internal and where it is, its search key is
  itself, and the search key always keeps the internal bit while clearing the reserved one.\<close>

theorem BlockId_parts:
  assumes "BlockId_from_parts internal index = Inr b"
  shows "BlockId_is_internal b = internal \<and> BlockId_index b = index \<and> BlockId_search_key b = bid_raw b"
  using assms by (rule BlockId_from_parts_parts)

end
