(* ===== verification/Pst_Page.thy ===== *)
theory Pst_Page
  imports Pst_Crc Pst_Ids
begin

unbundle bit_operations_syntax

text \<open>
  \<open>src/pypstreader/ndb/page.py\<close>: the 512-byte pages of the node database. The trailer, the three
  entry structures, the B-tree page and the density list, each parser with the source's checks in
  the source's order. \<open>btree_page_bytes\<close> is the writer's side of a B-tree page, used in statements.
\<close>

definition PAGE_SIZE :: int where "PAGE_SIZE = 512"
definition PAGE_TRAILER_SIZE :: int where "PAGE_TRAILER_SIZE = 16"
definition PAGE_DATA_SIZE :: int where "PAGE_DATA_SIZE = PAGE_SIZE - PAGE_TRAILER_SIZE"
definition PAGE_TRAILER_OFFSET :: int where "PAGE_TRAILER_OFFSET = PAGE_DATA_SIZE"
definition PAGE_TRAILER_FORMAT :: fmt where "PAGE_TRAILER_FORMAT = [1, 1, 2, 4, 8]"
definition BTREE_ENTRIES_SIZE :: int where "BTREE_ENTRIES_SIZE = 488"
definition BTREE_HEADER_FORMAT :: fmt where "BTREE_HEADER_FORMAT = [1, 1, 1, 1, 4]"
definition BTREE_HEADER_OFFSET :: int where "BTREE_HEADER_OFFSET = BTREE_ENTRIES_SIZE"
definition MAX_BTREE_LEVEL :: int where "MAX_BTREE_LEVEL = 8"
definition INTERMEDIATE_ENTRY_FORMAT :: fmt where "INTERMEDIATE_ENTRY_FORMAT = [8, 8, 8]"
definition BLOCK_ENTRY_FORMAT :: fmt where "BLOCK_ENTRY_FORMAT = [8, 8, 2, 2, 4]"
definition NODE_ENTRY_FORMAT :: fmt where "NODE_ENTRY_FORMAT = [8, 8, 8, 4, 4]"

lemmas page_consts =
  PAGE_SIZE_def PAGE_TRAILER_SIZE_def PAGE_DATA_SIZE_def PAGE_TRAILER_OFFSET_def
  BTREE_ENTRIES_SIZE_def BTREE_HEADER_OFFSET_def MAX_BTREE_LEVEL_def

lemmas page_formats =
  PAGE_TRAILER_FORMAT_def BTREE_HEADER_FORMAT_def INTERMEDIATE_ENTRY_FORMAT_def
  BLOCK_ENTRY_FORMAT_def NODE_ENTRY_FORMAT_def

section \<open>PageType\<close>

datatype page_type = PT_BBT | PT_NBT | PT_FMAP | PT_PMAP | PT_AMAP | PT_FPMAP | PT_DL

fun page_type_value :: "page_type \<Rightarrow> int" where
  "page_type_value PT_BBT = 0x80"
| "page_type_value PT_NBT = 0x81"
| "page_type_value PT_FMAP = 0x82"
| "page_type_value PT_PMAP = 0x83"
| "page_type_value PT_AMAP = 0x84"
| "page_type_value PT_FPMAP = 0x85"
| "page_type_value PT_DL = 0x86"

definition page_types :: "page_type list" where
  "page_types = [PT_BBT, PT_NBT, PT_FMAP, PT_PMAP, PT_AMAP, PT_FPMAP, PT_DL]"

interpretation page_type_enum: int_enum page_type_value page_types
proof
  show "m \<in> set page_types" for m by (cases m) (auto simp: page_types_def)
  show "page_type_value m = page_type_value m' \<Longrightarrow> m = m'" for m m' by (cases m; cases m') auto
qed

definition page_type_from_byte :: "int \<Rightarrow> page_type result" where
  "page_type_from_byte value = reraise ValueError PstFormatError (enum_of page_type_value page_types value)"

definition page_type_is_signed :: "page_type \<Rightarrow> bool" where
  "page_type_is_signed t = (t \<in> {PT_BBT, PT_NBT, PT_DL})"

definition page_type_signature :: "page_type \<Rightarrow> int \<Rightarrow> int \<Rightarrow> int" where
  "page_type_signature t index page_id =
     (if page_type_is_signed t then compute_sig (index AND U32) (page_id AND U32) else 0)"

lemma page_type_from_byte_Inr_iff: "page_type_from_byte v = Inr t \<longleftrightarrow> v = page_type_value t"
  by (auto simp: page_type_from_byte_def reraise_Inr_iff page_type_enum.of_value_iff)

lemma page_type_from_byte_closed [simp, intro]: "fails_closed (page_type_from_byte v)"
  by (auto simp: page_type_from_byte_def fails_closed_def reraise_def page_type_enum.of_value_Inl_iff
      split: sum.splits)

lemma page_type_value_range: "0 \<le> page_type_value t" "page_type_value t < 256"
  by (cases t; simp)+

section \<open>PageTrailer\<close>

record page_trailer =
  pt_page_type :: page_type
  pt_signature :: int
  pt_crc :: int
  pt_block_id :: page_id

definition PageTrailer_unpack_from :: "bytes \<Rightarrow> int \<Rightarrow> page_trailer result" where
  "PageTrailer_unpack_from buf offset =
     ebind (unpack PAGE_TRAILER_FORMAT buf offset) (\<lambda>fs.
     ebind (raise_if (fs ! 0 \<noteq> fs ! 1) PstFormatError) (\<lambda>_.
     ebind (page_type_from_byte (fs ! 0)) (\<lambda>page_type.
     ebind (mk_PageId (fs ! 4)) (\<lambda>block_id.
     Inr \<lparr>pt_page_type = page_type, pt_signature = fs ! 2, pt_crc = fs ! 3,
          pt_block_id = block_id\<rparr>))))"

definition PageTrailer_verify :: "page_trailer \<Rightarrow> bytes \<Rightarrow> unit result" where
  "PageTrailer_verify trailer page_bytes =
     ebind (raise_if (len page_bytes \<noteq> PAGE_SIZE) PstFormatError) (\<lambda>_.
     raise_if (compute_crc 0 (slice page_bytes 0 PAGE_DATA_SIZE) \<noteq> pt_crc trailer) PstFormatError)"

definition PageTrailer_expected_signature :: "page_trailer \<Rightarrow> byte_index \<Rightarrow> int" where
  "PageTrailer_expected_signature trailer index =
     page_type_signature (pt_page_type trailer) (ib_value index) (pid_raw (pt_block_id trailer))"

definition PageTrailer_pack :: "page_trailer \<Rightarrow> bytes" where
  "PageTrailer_pack t = struct_pack PAGE_TRAILER_FORMAT
     [page_type_value (pt_page_type t), page_type_value (pt_page_type t), pt_signature t, pt_crc t,
      pid_raw (pt_block_id t)]"

definition page_trailer_ok :: "page_trailer \<Rightarrow> bool" where
  "page_trailer_ok t \<longleftrightarrow>
     0 \<le> pt_signature t \<and> pt_signature t < 2 ^ 16 \<and> 0 \<le> pt_crc t \<and> pt_crc t < 2 ^ 32 \<and>
     page_id_ok (pt_block_id t)"

lemma PageTrailer_verify_Inr_iff [res_simps]:
  "PageTrailer_verify t pg = Inr u \<longleftrightarrow>
     length pg = 512 \<and> compute_crc 0 (take 496 pg) = pt_crc t"
  by (auto simp: PageTrailer_verify_def res_simps page_consts slice_def)

lemma PageTrailer_verify_closed [simp, intro]: "fails_closed (PageTrailer_verify t pg)"
  by (auto simp: PageTrailer_verify_def)

interpretation PageTrailer_codec: codec PageTrailer_unpack_from PageTrailer_pack 16 page_trailer_ok
proof
  show "len (PageTrailer_pack x) = 16" for x
    by (simp add: PageTrailer_pack_def page_formats length_struct_pack)
  show "PageTrailer_unpack_from (pre @ PageTrailer_pack x @ post) (len pre) = Inr x"
    if ok: "page_trailer_ok x" for x pre post
  proof -
    have "unpack PAGE_TRAILER_FORMAT (pre @ PageTrailer_pack x @ post) (len pre) = Inr
       [page_type_value (pt_page_type x), page_type_value (pt_page_type x), pt_signature x, pt_crc x,
        pid_raw (pt_block_id x)]"
      unfolding PageTrailer_pack_def using ok page_type_value_range [of "pt_page_type x"]
      by (intro unpack_pack) (simp add: page_formats page_trailer_ok_def page_id_ok_def U64_def)
    then show ?thesis using ok
      by (cases x)
         (auto simp: PageTrailer_unpack_from_def page_trailer_ok_def page_id_ok_def ebind_Inr_iff
          mk_PageId_Inr_iff page_type_from_byte_Inr_iff)
  qed
  show "0 \<le> off \<and> off + 16 \<le> len buf" if "PageTrailer_unpack_from buf off = Inr x" for buf off x
    using that by (auto simp: PageTrailer_unpack_from_def ebind_Inr_iff unpack_Inr_iff page_formats calcsize_def)
  show "fails_closed (PageTrailer_unpack_from buf off)" for buf off
    unfolding PageTrailer_unpack_from_def by (intro fails_closed_ebind) auto
qed

section \<open>B-tree entries\<close>

record intermediate_entry =
  ie_key :: int
  ie_ref :: page_ref

definition IntermediateEntry_unpack_from :: "bytes \<Rightarrow> int \<Rightarrow> intermediate_entry result" where
  "IntermediateEntry_unpack_from buf offset =
     ebind (unpack INTERMEDIATE_ENTRY_FORMAT buf offset) (\<lambda>fs.
     ebind (mk_PageRef (fs ! 1) (fs ! 2)) (\<lambda>ref.
     Inr \<lparr>ie_key = fs ! 0, ie_ref = ref\<rparr>))"

record block_btree_entry =
  bbe_block :: block_ref
  bbe_size :: int
  bbe_ref_count :: int

definition BlockBTreeEntry_unpack_from :: "bytes \<Rightarrow> int \<Rightarrow> block_btree_entry result" where
  "BlockBTreeEntry_unpack_from buf offset =
     ebind (unpack BLOCK_ENTRY_FORMAT buf offset) (\<lambda>fs.
     ebind (mk_BlockRef (fs ! 0) (fs ! 1)) (\<lambda>ref.
     Inr \<lparr>bbe_block = ref, bbe_size = fs ! 2, bbe_ref_count = fs ! 3\<rparr>))"

definition bbe_key :: "block_btree_entry \<Rightarrow> int" where
  "bbe_key e = BlockId_search_key (br_block (bbe_block e))"

record node_btree_entry =
  nbe_node :: node_id
  nbe_data :: block_id
  nbe_sub_node :: "block_id option"
  nbe_parent :: "node_id option"

definition NodeBTreeEntry_unpack_from :: "bytes \<Rightarrow> int \<Rightarrow> node_btree_entry result" where
  "NodeBTreeEntry_unpack_from buf offset =
     ebind (unpack NODE_ENTRY_FORMAT buf offset) (\<lambda>fs.
     ebind (raise_if (fs ! 0 > U32) PstFormatError) (\<lambda>_.
     ebind (mk_BlockId (fs ! 2)) (\<lambda>sub.
     ebind (mk_NodeId (fs ! 0)) (\<lambda>node.
     ebind (mk_BlockId (fs ! 1)) (\<lambda>data.
     ebind (if fs ! 3 = 0 then Inr None else ebind (mk_NodeId (fs ! 3)) (\<lambda>n. Inr (Some n))) (\<lambda>parent.
     Inr \<lparr>nbe_node = node, nbe_data = data,
          nbe_sub_node = (if BlockId_search_key sub = 0 then None else Some sub),
          nbe_parent = parent\<rparr>))))))"

definition nbe_key :: "node_btree_entry \<Rightarrow> int" where
  "nbe_key e = nid_raw (nbe_node e)"

subsection \<open>Their writers\<close>

definition intermediate_entry_ok :: "intermediate_entry \<Rightarrow> bool" where
  "intermediate_entry_ok e \<longleftrightarrow> 0 \<le> ie_key e \<and> ie_key e \<le> U64 \<and> page_ref_ok (ie_ref e)"

definition IntermediateEntry_pack :: "intermediate_entry \<Rightarrow> bytes" where
  "IntermediateEntry_pack e = struct_pack INTERMEDIATE_ENTRY_FORMAT
     [ie_key e, pid_raw (pr_page (ie_ref e)), ib_value (pr_index (ie_ref e))]"

definition block_btree_entry_ok :: "block_btree_entry \<Rightarrow> bool" where
  "block_btree_entry_ok e \<longleftrightarrow>
     block_ref_ok (bbe_block e) \<and> 0 \<le> bbe_size e \<and> bbe_size e < 2 ^ 16 \<and>
     0 \<le> bbe_ref_count e \<and> bbe_ref_count e < 2 ^ 16"

definition BlockBTreeEntry_pack :: "block_btree_entry \<Rightarrow> bytes" where
  "BlockBTreeEntry_pack e = struct_pack BLOCK_ENTRY_FORMAT
     [bid_raw (br_block (bbe_block e)), ib_value (br_index (bbe_block e)), bbe_size e, bbe_ref_count e, 0]"

definition node_btree_entry_ok :: "node_btree_entry \<Rightarrow> bool" where
  "node_btree_entry_ok e \<longleftrightarrow>
     node_id_ok (nbe_node e) \<and> block_id_ok (nbe_data e) \<and>
     (case nbe_sub_node e of None \<Rightarrow> True | Some s \<Rightarrow> block_id_ok s \<and> BlockId_search_key s \<noteq> 0) \<and>
     (case nbe_parent e of None \<Rightarrow> True | Some p \<Rightarrow> node_id_ok p \<and> nid_raw p \<noteq> 0)"

definition NodeBTreeEntry_pack :: "node_btree_entry \<Rightarrow> bytes" where
  "NodeBTreeEntry_pack e = struct_pack NODE_ENTRY_FORMAT
     [nid_raw (nbe_node e), bid_raw (nbe_data e),
      (case nbe_sub_node e of None \<Rightarrow> 0 | Some s \<Rightarrow> bid_raw s),
      (case nbe_parent e of None \<Rightarrow> 0 | Some p \<Rightarrow> nid_raw p), 0]"

lemma search_key_0 [simp]: "BlockId_search_key (BlockId 0) = 0"
  by (simp add: BlockId_search_key_def)

lemma mk_BlockId_of: "block_id_ok b \<Longrightarrow> mk_BlockId (bid_raw b) = Inr b"
  by (cases b) (auto simp: mk_BlockId_Inr_iff block_id_ok_def)

lemma mk_NodeId_of: "node_id_ok n \<Longrightarrow> mk_NodeId (nid_raw n) = Inr n"
  by (cases n) (auto simp: mk_NodeId_Inr_iff node_id_ok_def)

interpretation IntermediateEntry_codec:
  codec IntermediateEntry_unpack_from IntermediateEntry_pack 24 intermediate_entry_ok
proof
  show "len (IntermediateEntry_pack x) = 24" for x
    by (simp add: IntermediateEntry_pack_def page_formats length_struct_pack)
  show "IntermediateEntry_unpack_from (pre @ IntermediateEntry_pack x @ post) (len pre) = Inr x"
    if ok: "intermediate_entry_ok x" for x pre post
  proof -
    have "unpack INTERMEDIATE_ENTRY_FORMAT (pre @ IntermediateEntry_pack x @ post) (len pre) = Inr
       [ie_key x, pid_raw (pr_page (ie_ref x)), ib_value (pr_index (ie_ref x))]"
      unfolding IntermediateEntry_pack_def using ok
      by (intro unpack_pack)
         (simp add: page_formats intermediate_entry_ok_def page_ref_ok_def page_id_ok_def byte_index_ok_def U64_def)
    then show ?thesis using ok
      by (simp add: IntermediateEntry_unpack_from_def intermediate_entry_ok_def mk_PageRef_of)
  qed
  show "0 \<le> off \<and> off + 24 \<le> len buf" if "IntermediateEntry_unpack_from buf off = Inr x" for buf off x
    using that by (auto simp: IntermediateEntry_unpack_from_def ebind_Inr_iff unpack_Inr_iff page_formats calcsize_def)
  show "fails_closed (IntermediateEntry_unpack_from buf off)" for buf off
    unfolding IntermediateEntry_unpack_from_def by (intro fails_closed_ebind) auto
qed

interpretation BlockBTreeEntry_codec:
  codec BlockBTreeEntry_unpack_from BlockBTreeEntry_pack 24 block_btree_entry_ok
proof
  show "len (BlockBTreeEntry_pack x) = 24" for x
    by (simp add: BlockBTreeEntry_pack_def page_formats length_struct_pack)
  show "BlockBTreeEntry_unpack_from (pre @ BlockBTreeEntry_pack x @ post) (len pre) = Inr x"
    if ok: "block_btree_entry_ok x" for x pre post
  proof -
    have "unpack BLOCK_ENTRY_FORMAT (pre @ BlockBTreeEntry_pack x @ post) (len pre) = Inr
       [bid_raw (br_block (bbe_block x)), ib_value (br_index (bbe_block x)), bbe_size x, bbe_ref_count x, 0]"
      unfolding BlockBTreeEntry_pack_def using ok
      by (intro unpack_pack)
         (simp add: page_formats block_btree_entry_ok_def block_ref_ok_def block_id_ok_def byte_index_ok_def U64_def)
    then show ?thesis using ok
      by (simp add: BlockBTreeEntry_unpack_from_def block_btree_entry_ok_def mk_BlockRef_of)
  qed
  show "0 \<le> off \<and> off + 24 \<le> len buf" if "BlockBTreeEntry_unpack_from buf off = Inr x" for buf off x
    using that by (auto simp: BlockBTreeEntry_unpack_from_def ebind_Inr_iff unpack_Inr_iff page_formats calcsize_def)
  show "fails_closed (BlockBTreeEntry_unpack_from buf off)" for buf off
    unfolding BlockBTreeEntry_unpack_from_def by (intro fails_closed_ebind) auto
qed

interpretation NodeBTreeEntry_codec:
  codec NodeBTreeEntry_unpack_from NodeBTreeEntry_pack 32 node_btree_entry_ok
proof
  show "len (NodeBTreeEntry_pack x) = 32" for x
    by (simp add: NodeBTreeEntry_pack_def page_formats length_struct_pack)
  show "NodeBTreeEntry_unpack_from (pre @ NodeBTreeEntry_pack x @ post) (len pre) = Inr x"
    if ok: "node_btree_entry_ok x" for x pre post
  proof -
    have "unpack NODE_ENTRY_FORMAT (pre @ NodeBTreeEntry_pack x @ post) (len pre) = Inr
       [nid_raw (nbe_node x), bid_raw (nbe_data x),
        (case nbe_sub_node x of None \<Rightarrow> 0 | Some s \<Rightarrow> bid_raw s),
        (case nbe_parent x of None \<Rightarrow> 0 | Some p \<Rightarrow> nid_raw p), 0]"
      unfolding NodeBTreeEntry_pack_def using ok
      by (intro unpack_pack)
         (auto simp: page_formats node_btree_entry_ok_def node_id_ok_def block_id_ok_def U64_def U32_def
          split: option.splits)
    then show ?thesis using ok
      by (cases x; cases "nbe_sub_node x"; cases "nbe_parent x")
         (auto simp: NodeBTreeEntry_unpack_from_def node_btree_entry_ok_def mk_BlockId_of mk_NodeId_of
          mk_BlockId_ok U64_def, auto simp: node_id_ok_def)
  qed
  show "0 \<le> off \<and> off + 32 \<le> len buf" if "NodeBTreeEntry_unpack_from buf off = Inr x" for buf off x
    using that by (auto simp: NodeBTreeEntry_unpack_from_def ebind_Inr_iff unpack_Inr_iff page_formats calcsize_def)
  show "fails_closed (NodeBTreeEntry_unpack_from buf off)" for buf off
    unfolding NodeBTreeEntry_unpack_from_def by (intro fails_closed_ebind fails_closed_if) auto
qed

section \<open>BTreePage\<close>

text \<open>
  \<open>entries\<close> is a tuple of one of three types; the source tells them apart by \<open>level\<close> and the page
  type, the model by the constructor.
\<close>

datatype page_entries =
    Intermediates "intermediate_entry list"
  | BlockEntries "block_btree_entry list"
  | NodeEntries "node_btree_entry list"

fun entries_count :: "page_entries \<Rightarrow> nat" where
  "entries_count (Intermediates es) = length es"
| "entries_count (BlockEntries es) = length es"
| "entries_count (NodeEntries es) = length es"

record btree_page =
  bp_level :: int
  bp_max_entries :: int
  bp_entry_size :: int
  bp_entries :: page_entries
  bp_trailer :: page_trailer

definition bp_is_leaf :: "btree_page \<Rightarrow> bool" where
  "bp_is_leaf p = (bp_level p = 0)"

definition bp_page_type :: "btree_page \<Rightarrow> page_type" where
  "bp_page_type p = pt_page_type (bp_trailer p)"

definition is_btree_type :: "page_type \<Rightarrow> bool" where
  "is_btree_type t = (t = PT_BBT \<or> t = PT_NBT)"

text \<open>The \<open>SIZE\<close> of the entry type the page holds.\<close>

definition entry_type_size :: "int \<Rightarrow> page_type \<Rightarrow> int" where
  "entry_type_size level kind = (if level = 0 \<and> kind = PT_NBT then 32 else 24)"

text \<open>\<open>tuple(entry_type.unpack_from(page_bytes, i * entry_size) for i in range(count))\<close>.\<close>

definition unpack_entries :: "bytes \<Rightarrow> int \<Rightarrow> page_type \<Rightarrow> nat \<Rightarrow> int \<Rightarrow> page_entries result" where
  "unpack_entries page_bytes level kind count entry_size =
     (if level \<noteq> 0 then
        ebind (emap (\<lambda>i. IntermediateEntry_unpack_from page_bytes (int i * entry_size)) [0..<count])
          (\<lambda>es. Inr (Intermediates es))
      else if kind = PT_BBT then
        ebind (emap (\<lambda>i. BlockBTreeEntry_unpack_from page_bytes (int i * entry_size)) [0..<count])
          (\<lambda>es. Inr (BlockEntries es))
      else
        ebind (emap (\<lambda>i. NodeBTreeEntry_unpack_from page_bytes (int i * entry_size)) [0..<count])
          (\<lambda>es. Inr (NodeEntries es)))"

definition BTreePage_parse :: "bytes \<Rightarrow> page_type \<Rightarrow> byte_index \<Rightarrow> btree_page result" where
  "BTreePage_parse page_bytes kind index =
     ebind (raise_if (\<not> is_btree_type kind) PstFormatError) (\<lambda>_.
     ebind (raise_if (len page_bytes \<noteq> PAGE_SIZE) PstFormatError) (\<lambda>_.
     ebind (struct_unpack_from BTREE_HEADER_FORMAT page_bytes BTREE_HEADER_OFFSET) (\<lambda>h.
     ebind (raise_if (h ! 0 > h ! 1) PstFormatError) (\<lambda>_.
     ebind (raise_if (h ! 2 < entry_type_size (h ! 3) kind) PstFormatError) (\<lambda>_.
     ebind (py_floordiv BTREE_ENTRIES_SIZE (h ! 2)) (\<lambda>most.
     ebind (raise_if (h ! 1 > most) PstFormatError) (\<lambda>_.
     ebind (raise_if (h ! 3 > MAX_BTREE_LEVEL) PstFormatError) (\<lambda>_.
     ebind (raise_if (h ! 4 \<noteq> 0) PstFormatError) (\<lambda>_.
     ebind (PageTrailer_unpack_from page_bytes PAGE_TRAILER_OFFSET) (\<lambda>trailer.
     ebind (raise_if (\<not> is_btree_type (pt_page_type trailer)) PstFormatError) (\<lambda>_.
     ebind (PageTrailer_verify trailer page_bytes) (\<lambda>_.
     ebind (raise_if (h ! 3 = 0 \<and> pt_page_type trailer \<noteq> kind) PstFormatError) (\<lambda>_.
     ebind (unpack_entries page_bytes (h ! 3) kind (nat (h ! 0)) (h ! 2)) (\<lambda>entries.
     Inr \<lparr>bp_level = h ! 3, bp_max_entries = h ! 1, bp_entry_size = h ! 2, bp_entries = entries,
          bp_trailer = trailer\<rparr>))))))))))))))"

subsection \<open>What an accepted page is\<close>

lemma unpack_entries_count: "unpack_entries pg level kind n sz = Inr es \<Longrightarrow> entries_count es = n"
  by (auto simp: unpack_entries_def ebind_Inr_iff dest: emap_length split: if_splits)

lemma unpack_entries_kind:
  "unpack_entries pg level kind n sz = Inr es \<Longrightarrow> is_btree_type kind \<Longrightarrow>
     (level \<noteq> 0 \<longleftrightarrow> (\<exists>is. es = Intermediates is)) \<and>
     (level = 0 \<and> kind = PT_BBT \<longleftrightarrow> (\<exists>bs. es = BlockEntries bs)) \<and>
     (level = 0 \<and> kind = PT_NBT \<longleftrightarrow> (\<exists>ns. es = NodeEntries ns))"
  by (auto simp: unpack_entries_def ebind_Inr_iff is_btree_type_def split: if_splits)

lemma unpack_entries_closed [simp, intro]: "fails_closed (unpack_entries pg level kind n sz)"
  unfolding unpack_entries_def
  by (intro fails_closed_if fails_closed_ebind fails_closed_emap fails_closed_Inr
      IntermediateEntry_codec.decode_closed BlockBTreeEntry_codec.decode_closed
      NodeBTreeEntry_codec.decode_closed)

lemma BTreePage_parse_facts:
  assumes "BTreePage_parse pg kind index = Inr p"
  shows "is_btree_type kind" "length pg = 512"
    and "0 \<le> bp_level p" "bp_level p \<le> 8"
    and "int (entries_count (bp_entries p)) \<le> bp_max_entries p"
    and "entry_type_size (bp_level p) kind \<le> bp_entry_size p"
    and "bp_max_entries p \<le> 488 div bp_entry_size p"
    and "is_btree_type (bp_page_type p)"
    and "compute_crc 0 (take 496 pg) = pt_crc (bp_trailer p)"
    and "bp_level p = 0 \<longrightarrow> bp_page_type p = kind"
    and "\<exists>n. unpack_entries pg (bp_level p) kind n (bp_entry_size p) = Inr (bp_entries p)"
    and "PageTrailer_unpack_from pg PAGE_TRAILER_OFFSET = Inr (bp_trailer p)"
proof -
  let ?h = "le_fields BTREE_HEADER_FORMAT (drop 488 pg)"
  have len: "length pg = 512"
    using assms by (auto simp: BTreePage_parse_def ebind_Inr_iff raise_if_Inr_iff page_consts)
  then have h: "struct_unpack_from BTREE_HEADER_FORMAT pg BTREE_HEADER_OFFSET = Inr ?h"
    by (simp add: struct_unpack_from_ok page_consts page_formats calcsize_def)
  have h3: "0 \<le> ?h ! 3" "0 \<le> ?h ! 0"
    by (simp_all add: page_formats)
  have "BTreePage_parse pg kind index = Inr p \<Longrightarrow>
     is_btree_type kind \<and> 0 \<le> bp_level p \<and> bp_level p \<le> 8 \<and>
     int (entries_count (bp_entries p)) \<le> bp_max_entries p \<and>
     entry_type_size (bp_level p) kind \<le> bp_entry_size p \<and>
     bp_max_entries p \<le> 488 div bp_entry_size p \<and>
     is_btree_type (bp_page_type p) \<and> compute_crc 0 (take 496 pg) = pt_crc (bp_trailer p) \<and>
     (bp_level p = 0 \<longrightarrow> bp_page_type p = kind) \<and>
     unpack_entries pg (bp_level p) kind (nat (?h ! 0)) (bp_entry_size p) = Inr (bp_entries p) \<and>
     PageTrailer_unpack_from pg PAGE_TRAILER_OFFSET = Inr (bp_trailer p)"
    using h3 unfolding BTreePage_parse_def h
    by (auto simp: ebind_Inr_iff raise_if_Inr_iff PageTrailer_verify_Inr_iff page_consts
        py_floordiv_def bp_page_type_def not_less not_le unpack_entries_count
        simp del: le_fields.simps split: if_splits)
  with assms len show "is_btree_type kind" "length pg = 512" "0 \<le> bp_level p" "bp_level p \<le> 8"
    "int (entries_count (bp_entries p)) \<le> bp_max_entries p"
    "entry_type_size (bp_level p) kind \<le> bp_entry_size p"
    "bp_max_entries p \<le> 488 div bp_entry_size p"
    "is_btree_type (bp_page_type p)" "compute_crc 0 (take 496 pg) = pt_crc (bp_trailer p)"
    "bp_level p = 0 \<longrightarrow> bp_page_type p = kind"
    "\<exists>n. unpack_entries pg (bp_level p) kind n (bp_entry_size p) = Inr (bp_entries p)"
    "PageTrailer_unpack_from pg PAGE_TRAILER_OFFSET = Inr (bp_trailer p)" by auto
qed

text \<open>Every entry lies in the 488 bytes before the page's header.\<close>

lemma BTreePage_entries_in_page:
  assumes "BTreePage_parse pg kind index = Inr p" "i < entries_count (bp_entries p)"
  shows "0 \<le> int i * bp_entry_size p \<and>
         int i * bp_entry_size p + entry_type_size (bp_level p) kind \<le> BTREE_ENTRIES_SIZE"
proof -
  note facts = BTreePage_parse_facts [OF assms(1)]
  have pos: "0 < bp_entry_size p"
    using facts(6) by (auto simp: entry_type_size_def split: if_splits)
  have "int i + 1 \<le> 488 div bp_entry_size p"
    using assms(2) facts(5,7) by linarith
  then have "(int i + 1) * bp_entry_size p \<le> 488"
    using pos mult_right_mono [of "int i + 1" "488 div bp_entry_size p" "bp_entry_size p"]
      minus_mod_eq_div_mult [of 488 "bp_entry_size p"] pos_mod_sign [of "bp_entry_size p" 488] by linarith
  then show ?thesis using pos facts(6) by (simp add: distrib_right BTREE_ENTRIES_SIZE_def)
qed

lemma BTreePage_parse_closed [simp, intro]: "fails_closed (BTreePage_parse pg kind index)"
proof (cases "len pg = PAGE_SIZE")
  case False
  then show ?thesis by (auto simp: BTreePage_parse_def raise_if_def)
next
  case True
  let ?h = "le_fields BTREE_HEADER_FORMAT (drop 488 pg)"
  have h: "struct_unpack_from BTREE_HEADER_FORMAT pg BTREE_HEADER_OFFSET = Inr ?h"
    using True by (simp add: struct_unpack_from_ok page_consts page_formats calcsize_def)
  have div: "fails_closed (py_floordiv BTREE_ENTRIES_SIZE (?h ! 2))"
    if "raise_if (?h ! 2 < entry_type_size (?h ! 3) kind) PstFormatError = Inr u" for u
    using that by (auto simp: raise_if_Inr_iff entry_type_size_def py_floordiv_def split: if_splits)
  show ?thesis
    unfolding BTreePage_parse_def h ebind_simps
    by (intro fails_closed_ebind fails_closed_raise_if fails_closed_Inr unpack_entries_closed
        PageTrailer_verify_closed PageTrailer_codec.decode_closed div) simp_all
qed

subsection \<open>A page cannot be altered in a burst of four bytes\<close>

lemma BTreePage_burst_refused:
  assumes acc: "BTreePage_parse (pre @ u @ post) kind index = Inr p"
    and at: "length pre + length u \<le> 496" and len: "length u \<le> 4" "length v = length u" and neq: "u \<noteq> v"
  shows "\<exists>e. BTreePage_parse (pre @ v @ post) kind' index' = Inl e \<and> is_pst_error e"
proof (cases "BTreePage_parse (pre @ v @ post) kind' index'")
  case (Inl e)
  then show ?thesis using BTreePage_parse_closed fails_closedD by blast
next
  case (Inr q)
  note p = BTreePage_parse_facts [OF acc] and q = BTreePage_parse_facts [OF Inr]
  define rest where "rest = take (496 - length pre - length u) post"
  have takes: "take 496 (pre @ u @ post) = pre @ u @ rest" "take 496 (pre @ v @ post) = pre @ v @ rest"
    using at len by (simp_all add: rest_def)
  have "drop 496 (pre @ u @ post) = drop 496 (pre @ v @ post)"
    using at len by simp
  then have "PageTrailer_unpack_from (pre @ u @ post) 496 = PageTrailer_unpack_from (pre @ v @ post) 496"
    using p(2) q(2) by (simp add: PageTrailer_unpack_from_def unpack_eq)
  then have "bp_trailer p = bp_trailer q"
    using p(12) q(12) by (simp add: page_consts)
  then have "compute_crc 0 (pre @ u @ rest) = compute_crc 0 (pre @ v @ rest)"
    using p(9) q(9) takes by simp
  then show ?thesis
    using crc_run_burst [OF len neq, of "word_of_int 0" pre rest]
    by (simp add: compute_crc_run word_uint_eq_iff)
qed

subsection \<open>The writer's side\<close>

definition entry_pad :: "btree_page \<Rightarrow> page_type \<Rightarrow> bytes" where
  "entry_pad p kind = replicate (nat (bp_entry_size p - entry_type_size (bp_level p) kind)) 0"

fun entries_bytes :: "page_entries \<Rightarrow> bytes \<Rightarrow> bytes" where
  "entries_bytes (Intermediates es) pad = concat (map (\<lambda>e. IntermediateEntry_pack e @ pad) es)"
| "entries_bytes (BlockEntries es) pad = concat (map (\<lambda>e. BlockBTreeEntry_pack e @ pad) es)"
| "entries_bytes (NodeEntries es) pad = concat (map (\<lambda>e. NodeBTreeEntry_pack e @ pad) es)"

fun entries_ok :: "page_entries \<Rightarrow> int \<Rightarrow> page_type \<Rightarrow> bool" where
  "entries_ok (Intermediates es) level kind = (level \<noteq> 0 \<and> (\<forall>e \<in> set es. intermediate_entry_ok e))"
| "entries_ok (BlockEntries es) level kind =
     (level = 0 \<and> kind = PT_BBT \<and> (\<forall>e \<in> set es. block_btree_entry_ok e))"
| "entries_ok (NodeEntries es) level kind =
     (level = 0 \<and> kind = PT_NBT \<and> (\<forall>e \<in> set es. node_btree_entry_ok e))"

definition btree_page_data :: "btree_page \<Rightarrow> page_type \<Rightarrow> bytes" where
  "btree_page_data p kind =
     (let body = entries_bytes (bp_entries p) (entry_pad p kind)
      in body @ replicate (488 - length body) 0 @
         struct_pack BTREE_HEADER_FORMAT
           [int (entries_count (bp_entries p)), bp_max_entries p, bp_entry_size p, bp_level p, 0])"

definition btree_page_bytes :: "btree_page \<Rightarrow> page_type \<Rightarrow> bytes" where
  "btree_page_bytes p kind = btree_page_data p kind @ PageTrailer_pack (bp_trailer p)"

definition btree_page_ok :: "btree_page \<Rightarrow> page_type \<Rightarrow> bool" where
  "btree_page_ok p kind \<longleftrightarrow>
     is_btree_type kind \<and> 0 \<le> bp_level p \<and> bp_level p \<le> 8 \<and>
     int (entries_count (bp_entries p)) \<le> bp_max_entries p \<and>
     entry_type_size (bp_level p) kind \<le> bp_entry_size p \<and> bp_entry_size p < 256 \<and>
     bp_max_entries p \<le> 488 div bp_entry_size p \<and> is_btree_type (bp_page_type p) \<and>
     (bp_level p = 0 \<longrightarrow> bp_page_type p = kind) \<and> page_trailer_ok (bp_trailer p) \<and>
     pt_crc (bp_trailer p) = compute_crc 0 (btree_page_data p kind) \<and>
     entries_ok (bp_entries p) (bp_level p) kind"

lemma unpack_entries_bytes:
  assumes "entries_ok es level kind" "entry_type_size level kind \<le> sz"
    and "pad = replicate (nat (sz - entry_type_size level kind)) 0"
  shows "unpack_entries (entries_bytes es pad @ post) level kind (entries_count es) sz = Inr es"
    and "len (entries_bytes es pad) = int (entries_count es) * sz"
  using assms
    IntermediateEntry_codec.decode_array [where pre = "[]" and base = 0 and pad = pad and post = post]
    BlockBTreeEntry_codec.decode_array [where pre = "[]" and base = 0 and pad = pad and post = post]
    NodeBTreeEntry_codec.decode_array [where pre = "[]" and base = 0 and pad = pad and post = post]
    IntermediateEntry_codec.length_concat_encode [where pad = pad]
    BlockBTreeEntry_codec.length_concat_encode [where pad = pad]
    NodeBTreeEntry_codec.length_concat_encode [where pad = pad]
  by (cases es; simp add: unpack_entries_def entry_type_size_def)+

lemma BTreePage_parse_bytes:
  assumes ok: "btree_page_ok p kind"
  shows "BTreePage_parse (btree_page_bytes p kind) kind index = Inr p"
proof -
  let ?n = "int (entries_count (bp_entries p))"
  let ?pg = "btree_page_bytes p kind"
  let ?body = "entries_bytes (bp_entries p) (entry_pad p kind)"
  let ?h = "[?n, bp_max_entries p, bp_entry_size p, bp_level p, 0]"
  have pos: "24 \<le> bp_entry_size p"
    using ok by (auto simp: btree_page_ok_def entry_type_size_def split: if_splits)
  have es: "entries_ok (bp_entries p) (bp_level p) kind"
    and sz: "entry_type_size (bp_level p) kind \<le> bp_entry_size p"
    using ok by (simp_all add: btree_page_ok_def)
  note body = unpack_entries_bytes [OF es sz entry_pad_def]
  have max: "bp_max_entries p \<le> 488 div bp_entry_size p" "?n \<le> bp_max_entries p"
    using ok by (simp_all add: btree_page_ok_def)
  have "?n * bp_entry_size p \<le> 488"
    using pos max mult_right_mono [of ?n "488 div bp_entry_size p" "bp_entry_size p"]
      minus_mod_eq_div_mult [of 488 "bp_entry_size p"] pos_mod_sign [of "bp_entry_size p" 488] by linarith
  then have len_body: "length ?body \<le> 488" using body(2) by linarith
  have "bp_max_entries p < 256"
    using max(1) pos zdiv_mono2 [of 488 24 "bp_entry_size p"] by simp
  then have hfits: "fits BTREE_HEADER_FORMAT ?h"
    using ok pos max by (simp add: page_formats btree_page_ok_def)
  have len_h: "length (struct_pack BTREE_HEADER_FORMAT ?h) = 8"
    by (simp add: page_formats length_struct_pack)
  have len_data: "length (btree_page_data p kind) = 496"
    using len_body len_h by (simp add: btree_page_data_def Let_def)
  have tr_ok: "page_trailer_ok (bp_trailer p)" using ok by (simp add: btree_page_ok_def)
  have len_t: "length (PageTrailer_pack (bp_trailer p)) = 16"
    using PageTrailer_codec.encode_length [OF tr_ok] by simp
  have len: "length ?pg = 512" using len_data len_t by (simp add: btree_page_bytes_def)
  have "drop 488 ?pg = struct_pack BTREE_HEADER_FORMAT ?h @ PageTrailer_pack (bp_trailer p)"
    using len_body by (simp add: btree_page_bytes_def btree_page_data_def Let_def)
  moreover have "struct_unpack_from BTREE_HEADER_FORMAT ?pg BTREE_HEADER_OFFSET =
      Inr (le_fields BTREE_HEADER_FORMAT (drop 488 ?pg))"
    using len by (simp add: struct_unpack_from_ok page_consts page_formats calcsize_def)
  ultimately have h: "struct_unpack_from BTREE_HEADER_FORMAT ?pg BTREE_HEADER_OFFSET = Inr ?h"
    by (simp only: le_fields_struct_pack [OF hfits])
  have tr: "PageTrailer_unpack_from ?pg PAGE_TRAILER_OFFSET = Inr (bp_trailer p)"
    using PageTrailer_codec.decode_encode [OF tr_ok, of "btree_page_data p kind" "[]"] len_data
    by (simp add: btree_page_bytes_def page_consts)
  have ver: "PageTrailer_verify (bp_trailer p) ?pg = Inr ()"
    using len len_data ok by (simp add: PageTrailer_verify_Inr_iff btree_page_bytes_def btree_page_ok_def)
  have "\<exists>post. ?pg = ?body @ post"
    by (simp add: btree_page_bytes_def btree_page_data_def Let_def)
  then have ents: "unpack_entries ?pg (bp_level p) kind (entries_count (bp_entries p)) (bp_entry_size p)
      = Inr (bp_entries p)"
    using body(1) by auto
  show ?thesis
    using ok pos max len tr ver ents unfolding BTreePage_parse_def h
    by (cases p) (auto simp: btree_page_ok_def page_consts py_floordiv_ok bp_page_type_def raise_if_def)
qed

section \<open>DensityListPage\<close>

definition DENSITY_LIST_OFFSET :: int where "DENSITY_LIST_OFFSET = 0x4200"
definition DENSITY_LIST_INDEX :: byte_index where "DENSITY_LIST_INDEX = ByteIndex DENSITY_LIST_OFFSET"
definition DENSITY_LIST_HEADER_FORMAT :: fmt where "DENSITY_LIST_HEADER_FORMAT = [1, 1, 2, 4]"
definition DENSITY_LIST_ENTRIES_OFFSET :: int where
  "DENSITY_LIST_ENTRIES_OFFSET = calcsize DENSITY_LIST_HEADER_FORMAT"
definition DENSITY_LIST_ENTRIES_SIZE :: int where "DENSITY_LIST_ENTRIES_SIZE = 476"
definition DENSITY_LIST_MAX_ENTRIES :: int where
  "DENSITY_LIST_MAX_ENTRIES = DENSITY_LIST_ENTRIES_SIZE div 4"
definition DENSITY_LIST_PADDING_OFFSET :: int where
  "DENSITY_LIST_PADDING_OFFSET = DENSITY_LIST_ENTRIES_OFFSET + DENSITY_LIST_ENTRIES_SIZE"
definition DENSITY_LIST_PADDING_SIZE :: int where "DENSITY_LIST_PADDING_SIZE = 12"
definition DENSITY_LIST_BACKFILL_COMPLETE :: int where "DENSITY_LIST_BACKFILL_COMPLETE = 0x01"
definition DENSITY_LIST_PAGE_BITS :: nat where "DENSITY_LIST_PAGE_BITS = 20"
definition DENSITY_LIST_PAGE_MASK :: int where "DENSITY_LIST_PAGE_MASK = 2 ^ DENSITY_LIST_PAGE_BITS - 1"

lemmas density_consts =
  DENSITY_LIST_HEADER_FORMAT_def DENSITY_LIST_ENTRIES_OFFSET_def DENSITY_LIST_ENTRIES_SIZE_def
  DENSITY_LIST_MAX_ENTRIES_def DENSITY_LIST_PADDING_OFFSET_def DENSITY_LIST_PADDING_SIZE_def

datatype density_list_entry = DensityListEntry (dle_raw: int)

definition dle_page :: "density_list_entry \<Rightarrow> int" where
  "dle_page e = dle_raw e AND DENSITY_LIST_PAGE_MASK"

definition dle_free_slots :: "density_list_entry \<Rightarrow> int" where
  "dle_free_slots e = drop_bit DENSITY_LIST_PAGE_BITS (dle_raw e) AND 0xFFF"

record density_list_page =
  dl_backfill_complete :: bool
  dl_current_page :: int
  dl_entries :: "density_list_entry list"
  dl_trailer :: page_trailer

definition DensityListPage_parse :: "bytes \<Rightarrow> byte_index \<Rightarrow> density_list_page result" where
  "DensityListPage_parse page_bytes index =
     ebind (raise_if (len page_bytes \<noteq> PAGE_SIZE) PstFormatError) (\<lambda>_.
     ebind (struct_unpack_from DENSITY_LIST_HEADER_FORMAT page_bytes 0) (\<lambda>h.
     ebind (raise_if (h ! 1 > DENSITY_LIST_MAX_ENTRIES) PstFormatError) (\<lambda>_.
     ebind (raise_if (h ! 2 \<noteq> 0) PstFormatError) (\<lambda>_.
     ebind (struct_unpack_from (replicate (nat (h ! 1)) 4) page_bytes DENSITY_LIST_ENTRIES_OFFSET) (\<lambda>raws.
     let entries = map DensityListEntry raws;
         tail = slice page_bytes DENSITY_LIST_PADDING_OFFSET
                  (DENSITY_LIST_PADDING_OFFSET + DENSITY_LIST_PADDING_SIZE)
     in ebind (raise_if (tail \<noteq> replicate (nat DENSITY_LIST_PADDING_SIZE) 0) PstFormatError) (\<lambda>_.
     ebind (PageTrailer_unpack_from page_bytes PAGE_TRAILER_OFFSET) (\<lambda>trailer.
     ebind (raise_if (pt_page_type trailer \<noteq> PT_DL) PstFormatError) (\<lambda>_.
     ebind (PageTrailer_verify trailer page_bytes) (\<lambda>_.
     Inr \<lparr>dl_backfill_complete = ((h ! 0) AND DENSITY_LIST_BACKFILL_COMPLETE \<noteq> 0),
          dl_current_page = h ! 3, dl_entries = entries, dl_trailer = trailer\<rparr>)))))))))"

text \<open>The two parts of an entry are its 32 bits.\<close>

lemma dle_parts:
  assumes "0 \<le> dle_raw e" "dle_raw e < 2 ^ 32"
  shows "dle_page e + 2 ^ 20 * dle_free_slots e = dle_raw e"
proof -
  have a: "dle_page e = dle_raw e mod 2 ^ 20"
    unfolding dle_page_def DENSITY_LIST_PAGE_MASK_def DENSITY_LIST_PAGE_BITS_def
    by (simp only: mask_eq_exp_minus_1 [symmetric] take_bit_eq_mask [symmetric] take_bit_eq_mod)
  have m: "(0xFFF :: int) = mask 12" by (simp add: mask_eq_exp_minus_1)
  have "dle_free_slots e = (dle_raw e div 2 ^ 20) mod 2 ^ 12"
    unfolding dle_free_slots_def DENSITY_LIST_PAGE_BITS_def m
    by (simp only: take_bit_eq_mask [symmetric] take_bit_eq_mod drop_bit_eq_div)
  also have "\<dots> = dle_raw e div 2 ^ 20" using assms by (simp add: div_less_iff_less_mult)
  finally show ?thesis using a by (simp add: mult.commute)
qed

lemma DensityListPage_parse_closed [simp, intro]: "fails_closed (DensityListPage_parse pg index)"
proof (cases "len pg = PAGE_SIZE")
  case False
  then show ?thesis by (auto simp: DensityListPage_parse_def raise_if_def)
next
  case True
  let ?h = "le_fields DENSITY_LIST_HEADER_FORMAT pg"
  have h: "struct_unpack_from DENSITY_LIST_HEADER_FORMAT pg 0 = Inr ?h"
    using True by (simp add: struct_unpack_from_ok page_consts density_consts calcsize_def)
  have raws: "fails_closed (struct_unpack_from (replicate (nat (?h ! 1)) 4) pg DENSITY_LIST_ENTRIES_OFFSET)"
    if "raise_if (?h ! 1 > DENSITY_LIST_MAX_ENTRIES) PstFormatError = Inr u" for u
  proof -
    have "0 \<le> ?h ! 1" by (simp add: density_consts)
    with that True show ?thesis
      by (simp add: raise_if_Inr_iff struct_unpack_from_ok page_consts density_consts calcsize_def sum_list_replicate
          del: le_fields.simps)
  qed
  show ?thesis
    unfolding DensityListPage_parse_def h ebind_simps Let_def
    by (intro fails_closed_ebind fails_closed_raise_if fails_closed_Inr raws
        PageTrailer_verify_closed PageTrailer_codec.decode_closed) simp_all
qed

lemma DensityListPage_parse_facts:
  assumes "DensityListPage_parse pg index = Inr d"
  shows "len (dl_entries d) \<le> DENSITY_LIST_MAX_ENTRIES" "pt_page_type (dl_trailer d) = PT_DL"
    and "length pg = 512" "compute_crc 0 (take 496 pg) = pt_crc (dl_trailer d)"
  using assms
  by (auto simp: DensityListPage_parse_def ebind_Inr_iff raise_if_Inr_iff PageTrailer_verify_Inr_iff Let_def
      struct_unpack_from_def density_consts split: if_splits)

section \<open>Properties\<close>

text \<open>A page's trailer with its CRC computed, and two pages to try the statements on.\<close>

definition seal_page :: "btree_page \<Rightarrow> page_type \<Rightarrow> btree_page" where
  "seal_page p kind = p\<lparr>bp_trailer := (bp_trailer p)\<lparr>pt_crc := compute_crc 0 (btree_page_data p kind)\<rparr>\<rparr>"

lemma seal_page_simps [simp]:
  "bp_level (seal_page p kind) = bp_level p" "bp_max_entries (seal_page p kind) = bp_max_entries p"
  "bp_entry_size (seal_page p kind) = bp_entry_size p" "bp_entries (seal_page p kind) = bp_entries p"
  "bp_page_type (seal_page p kind) = bp_page_type p"
  "btree_page_data (seal_page p kind) kind = btree_page_data p kind"
  by (simp_all add: seal_page_def bp_page_type_def btree_page_data_def entry_pad_def)

lemma seal_page_ok:
  assumes "is_btree_type kind" "0 \<le> bp_level p" "bp_level p \<le> 8"
    and "int (entries_count (bp_entries p)) \<le> bp_max_entries p"
    and "entry_type_size (bp_level p) kind \<le> bp_entry_size p" "bp_entry_size p < 256"
    and "bp_max_entries p \<le> 488 div bp_entry_size p" "is_btree_type (bp_page_type p)"
    and "bp_level p = 0 \<longrightarrow> bp_page_type p = kind" "entries_ok (bp_entries p) (bp_level p) kind"
    and "0 \<le> pt_signature (bp_trailer p)" "pt_signature (bp_trailer p) < 2 ^ 16"
    and "page_id_ok (pt_block_id (bp_trailer p))"
  shows "btree_page_ok (seal_page p kind) kind"
  using assms compute_crc_range [of 0 "btree_page_data p kind"]
  by (simp add: btree_page_ok_def, simp add: seal_page_def page_trailer_ok_def)

definition sample_trailer :: "page_type \<Rightarrow> page_trailer" where
  "sample_trailer t = \<lparr>pt_page_type = t, pt_signature = 0, pt_crc = 0, pt_block_id = PageId 0x1C\<rparr>"

definition sample_leaf :: "int list \<Rightarrow> btree_page" where
  "sample_leaf nids = seal_page
     \<lparr>bp_level = 0, bp_max_entries = 15, bp_entry_size = 32,
      bp_entries = NodeEntries (map (\<lambda>n. \<lparr>nbe_node = NodeId n, nbe_data = BlockId (4 * n), nbe_sub_node = None,
                                         nbe_parent = None\<rparr>) nids),
      bp_trailer = sample_trailer PT_NBT\<rparr> PT_NBT"

lemma sample_leaf_ok:
  "length nids \<le> 15 \<Longrightarrow> (\<And>n. n \<in> set nids \<Longrightarrow> 0 \<le> n \<and> n \<le> U32) \<Longrightarrow> btree_page_ok (sample_leaf nids) PT_NBT"
  unfolding sample_leaf_def
proof (rule seal_page_ok, goal_cases)
  case 10
  have "0 \<le> n \<and> n \<le> U32 \<Longrightarrow> node_id_ok (NodeId n) \<and> block_id_ok (BlockId (4 * n))" for n
    by (simp add: node_id_ok_def block_id_ok_def U32_def U64_def)
  with 10 show ?case by (auto simp: node_btree_entry_ok_def)
qed (auto simp: is_btree_type_def entry_type_size_def bp_page_type_def sample_trailer_def page_id_ok_def U64_def)

text \<open>The parser reads back every B-tree page written to its layout: level, counts, entries at their
  stride (which may exceed an entry) and trailer, for both trees and every level.\<close>

theorem BTreePage_roundtrip:
  assumes "btree_page_ok p kind"
  shows "BTreePage_parse (btree_page_bytes p kind) kind index = Inr p"
  using assms by (rule BTreePage_parse_bytes)

text \<open>On every input a page parse returns a page or raises a PstError, and every entry of an accepted
  page lies within the 488 bytes before the page header, with at most \<open>cEntMax\<close> of them, a level of at
  most 8 and, on a leaf, the type of the tree.\<close>

theorem BTreePage_total:
  "case BTreePage_parse pg kind index of
     Inl e \<Rightarrow> is_pst_error e
   | Inr p \<Rightarrow> length pg = 512 \<and> 0 \<le> bp_level p \<and> bp_level p \<le> 8 \<and>
       int (entries_count (bp_entries p)) \<le> bp_max_entries p \<and>
       (\<forall>i < entries_count (bp_entries p).
          int i * bp_entry_size p + entry_type_size (bp_level p) kind \<le> BTREE_ENTRIES_SIZE) \<and>
       (bp_is_leaf p \<longrightarrow> bp_page_type p = kind) \<and> compute_crc 0 (take 496 pg) = pt_crc (bp_trailer p)"
proof (cases "BTreePage_parse pg kind index")
  case (Inl e)
  then show ?thesis using BTreePage_parse_closed fails_closedD by auto
next
  case (Inr p)
  show ?thesis
    using BTreePage_parse_facts [OF Inr] BTreePage_entries_in_page [OF Inr] Inr by (simp add: bp_is_leaf_def)
qed

text \<open>An accepted page altered in at most four consecutive bytes of its 496 data bytes is refused, for
  whatever tree and offset it is then read.\<close>

theorem BTreePage_burst:
  assumes "BTreePage_parse (pre @ u @ post) kind index = Inr p" "length pre + length u \<le> 496"
    and "length u \<le> 4" "length v = length u" "u \<noteq> v"
  shows "\<exists>e. BTreePage_parse (pre @ v @ post) kind' index' = Inl e \<and> is_pst_error e"
  using assms by (rule BTreePage_burst_refused)

end
