(* ===== verification/Pst_Search_Tree.thy ===== *)
theory Pst_Search_Tree
  imports Pst_Prelude
begin

text \<open>
  What the two kinds of search tree of a PST promise, apart from their bytes: the node and block
  B-trees (\<open>ndb/btree.py\<close>) and the BTree-on-Heap (\<open>ltp/tree.py\<close>). An abstract tree, the entries it
  lists, its order, and the descent every lookup makes; the step that differs, how the child is
  picked from an index page's keys, is the locale \<open>child_picker\<close>, with \<open>bisect_right\<close> and the BTH's
  scan as its two instances.
\<close>

section \<open>The abstract tree\<close>

datatype 'e stree =
    SLeaf "'e list"
  | SNode "(int \<times> 'e stree) list"

fun st_entries :: "'e stree \<Rightarrow> 'e list" where
  "st_entries (SLeaf es) = es"
| "st_entries (SNode kids) = concat (map (\<lambda>(k, t). st_entries t) kids)"

fun st_depth :: "'e stree \<Rightarrow> nat" where
  "st_depth (SLeaf es) = 0"
| "st_depth (SNode kids) = fold max (map (\<lambda>(k, t). Suc (st_depth t)) kids) 0"

fun st_nodes :: "'e stree \<Rightarrow> nat" where
  "st_nodes (SLeaf es) = 1"
| "st_nodes (SNode kids) = Suc (sum_list (map (\<lambda>(k, t). st_nodes t) kids))"

text \<open>
  Ordered between two bounds: the entries of a leaf lie between them, the keys of an index page
  ascend, and the subtree under a key lies between it and the next.
\<close>

fun st_ordered :: "('e \<Rightarrow> int) \<Rightarrow> int \<Rightarrow> int \<Rightarrow> 'e stree \<Rightarrow> bool"
  and kids_ordered :: "('e \<Rightarrow> int) \<Rightarrow> int \<Rightarrow> int \<Rightarrow> (int \<times> 'e stree) list \<Rightarrow> bool" where
  "st_ordered kf lo hi (SLeaf es) = (\<forall>e \<in> set es. lo \<le> kf e \<and> kf e < hi)"
| "st_ordered kf lo hi (SNode kids) = kids_ordered kf lo hi kids"
| "kids_ordered kf lo hi [] = True"
| "kids_ordered kf lo hi ((k, t) # kids) =
     (lo \<le> k \<and> k \<le> hi \<and>
      st_ordered kf k (case kids of [] \<Rightarrow> hi | (k', t') # _ \<Rightarrow> k') t \<and> kids_ordered kf k hi kids)"

section \<open>The descent\<close>

text \<open>
  \<open>pick keys key\<close> is a position; the child taken is the one before it, and there is none at 0.
\<close>

fun st_find :: "(int list \<Rightarrow> int \<Rightarrow> nat) \<Rightarrow> ('e \<Rightarrow> int) \<Rightarrow> int \<Rightarrow> nat \<Rightarrow> 'e stree \<Rightarrow> 'e option" where
  "st_find pick kf key n (SLeaf es) = find (\<lambda>e. kf e = key) es"
| "st_find pick kf key 0 (SNode kids) = None"
| "st_find pick kf key (Suc n) (SNode kids) =
     (let p = pick (map fst kids) key
      in if p = 0 \<or> length kids < p then None else st_find pick kf key n (snd (kids ! (p - 1))))"

lemma find_append: "find P (xs @ ys) = (case find P xs of None \<Rightarrow> find P ys | Some x \<Rightarrow> Some x)"
  by (induction xs) auto

lemma find_none: "(\<And>x. x \<in> set xs \<Longrightarrow> \<not> P x) \<Longrightarrow> find P xs = None"
  by (simp add: find_None_iff)

lemma kids_ordered_sorted: "kids_ordered kf lo hi kids \<Longrightarrow> sorted (map fst kids) \<and> (\<forall>k \<in> set (map fst kids). lo \<le> k)"
  by (induction kids arbitrary: lo) fastforce+

lemma st_ordered_bounds:
  "st_ordered kf lo hi t \<Longrightarrow> e \<in> set (st_entries t) \<Longrightarrow> lo \<le> kf e \<and> kf e < hi"
  "kids_ordered kf lo hi kids \<Longrightarrow> e \<in> set (concat (map (\<lambda>(k, t). st_entries t) kids)) \<Longrightarrow>
     lo \<le> kf e \<and> kf e < hi"
proof (induction kf lo hi t and kf lo hi kids arbitrary: e and e rule: st_ordered_kids_ordered.induct)
  case (4 kf lo hi k t kids)
  then show ?case
    by (cases kids) fastforce+
qed auto

lemma takeWhile_le_0: "length (takeWhile (\<lambda>k. k \<le> key) ks) = 0 \<longleftrightarrow> ks = [] \<or> key < hd ks"
  for key :: int
  by (cases ks) auto

text \<open>The child before the first greater key is the only one that can hold the key.\<close>

lemma kids_ordered_pick:
  fixes key :: int
  assumes "kids_ordered kf lo hi kids" and "p = length (takeWhile (\<lambda>k. k \<le> key) (map fst kids))"
  shows "find (\<lambda>e. kf e = key) (concat (map (\<lambda>(k, t). st_entries t) kids)) =
    (if p = 0 then None else find (\<lambda>e. kf e = key) (st_entries (snd (kids ! (p - 1)))))"
  using assms
proof (induction kids arbitrary: lo p)
  case Nil
  then show ?case by simp
next
  case (Cons kt kids)
  obtain k t where kt: "kt = (k, t)" by (cases kt)
  let ?hi = "case kids of [] \<Rightarrow> hi | (k', t') # _ \<Rightarrow> k'"
  have ord: "st_ordered kf k ?hi t" "kids_ordered kf k hi kids"
    using Cons.prems(1) kt by auto
  let ?q = "length (takeWhile (\<lambda>k. k \<le> key) (map fst kids))"
  note IH = Cons.IH [OF ord(2) refl]
  show ?case
  proof (cases "k \<le> key")
    case False
    have "find (\<lambda>e. kf e = key) (concat (map (\<lambda>(k, t). st_entries t) (kt # kids))) = None"
    proof (rule find_none)
      fix e assume "e \<in> set (concat (map (\<lambda>(k, t). st_entries t) (kt # kids)))"
      then have "k \<le> kf e"
        using st_ordered_bounds(1) [OF ord(1), of e] st_ordered_bounds(2) [OF ord(2), of e] kt by auto
      with False show "\<not> kf e = key" by simp
    qed
    with False Cons.prems(2) kt show ?thesis by simp
  next
    case True
    then have p: "p = Suc ?q" using Cons.prems(2) kt by simp
    show ?thesis
    proof (cases "?q = 0")
      case True
      with IH have "find (\<lambda>e. kf e = key) (concat (map (\<lambda>(k, t). st_entries t) kids)) = None" by simp
      with p True kt show ?thesis by (simp add: find_append split: option.splits)
    next
      case False
      then obtain k' t' ks where kids: "kids = (k', t') # ks" and le: "k' \<le> key"
        by (cases kids) (auto split: if_splits)
      have "find (\<lambda>e. kf e = key) (st_entries t) = None"
      proof (rule find_none)
        fix e assume "e \<in> set (st_entries t)"
        from st_ordered_bounds(1) [OF ord(1) this] kids le show "\<not> kf e = key" by simp
      qed
      with p False IH kt show ?thesis by (simp add: find_append)
    qed
  qed
qed

lemma kids_ordered_kid:
  assumes "kids_ordered kf lo hi kids" "(k, t) \<in> set kids"
  shows "\<exists>lo' hi'. st_ordered kf lo' hi' t"
  using assms
proof (induction kids arbitrary: lo)
  case Nil
  then show ?case by simp
next
  case (Cons kt kids)
  obtain k1 t1 where kt: "kt = (k1, t1)" by (cases kt)
  have head: "st_ordered kf k1 (case kids of [] \<Rightarrow> hi | (k', t') # _ \<Rightarrow> k') t1"
    and rest: "kids_ordered kf k1 hi kids"
    using Cons.prems(1) unfolding kt kids_ordered.simps by simp_all
  show ?case
  proof (cases "(k, t) = kt")
    case True
    with head kt show ?thesis by blast
  next
    case False
    with Cons.prems(2) have "(k, t) \<in> set kids" by simp
    then show ?thesis by (rule Cons.IH [OF rest])
  qed
qed

lemma fold_max_ge: "x \<in> set xs \<or> x \<le> a \<Longrightarrow> x \<le> fold max xs a" for x :: nat
proof (induction xs arbitrary: a)
  case (Cons y xs)
  then have "x \<in> set xs \<or> x \<le> max y a" by (simp add: le_max_iff_disj) (elim disjE; simp)
  from Cons.IH [OF this] show ?case by simp
qed simp

lemma kid_depth: "kid \<in> set kids \<Longrightarrow> st_depth (snd kid) < st_depth (SNode kids)"
proof -
  assume "kid \<in> set kids"
  then have "Suc (st_depth (snd kid)) \<in> set (map (\<lambda>(k, t). Suc (st_depth t)) kids)"
    by (force simp: case_prod_beta)
  then have "Suc (st_depth (snd kid)) \<le> fold max (map (\<lambda>(k, t). Suc (st_depth t)) kids) 0"
    by (intro fold_max_ge disjI1)
  then show ?thesis by (simp only: st_depth.simps Suc_le_eq)
qed

lemma fold_max_le: "a \<le> n \<Longrightarrow> (\<And>x. x \<in> set xs \<Longrightarrow> x \<le> n) \<Longrightarrow> fold max xs a \<le> n" for n :: nat
  by (induction xs arbitrary: a) simp_all

lemma st_depth_le: "(\<And>k t. (k, t) \<in> set kids \<Longrightarrow> st_depth t \<le> n) \<Longrightarrow> st_depth (SNode kids) \<le> Suc n"
  by (simp, rule fold_max_le) auto

locale child_picker =
  fixes pick :: "int list \<Rightarrow> int \<Rightarrow> nat"
  assumes pick_sorted: "sorted keys \<Longrightarrow> pick keys key = length (takeWhile (\<lambda>k. k \<le> key) keys)"
    and pick_le: "pick keys key \<le> length keys"
begin

lemma pick_child_le:
  assumes "sorted keys" "pick keys key = Suc i"
  shows "i < length keys \<and> keys ! i \<le> key \<and> (\<forall>j < length keys. i < j \<longrightarrow> key < keys ! j)"
proof -
  let ?p = "length (takeWhile (\<lambda>k. k \<le> key) keys)"
  have p: "?p = Suc i" using pick_sorted assms by simp
  then have len: "i < length keys" using length_takeWhile_le [of "\<lambda>k. k \<le> key" keys] by simp
  have "keys ! i \<le> key"
    using nth_mem [of i "takeWhile (\<lambda>k. k \<le> key) keys"] p
    by (auto simp: takeWhile_nth dest: set_takeWhileD)
  moreover have "key < keys ! j" if j: "j < length keys" "i < j" for j
  proof -
    have "?p < length keys" using p j by simp
    then have "key < keys ! Suc i"
      using nth_length_takeWhile [of "\<lambda>k. k \<le> key" keys] p by simp
    also have "\<dots> \<le> keys ! j" using assms(1) j by (intro sorted_nth_mono) auto
    finally show ?thesis .
  qed
  ultimately show ?thesis using len by blast
qed

text \<open>On an ordered tree the descent finds exactly what a scan of every entry would.\<close>

theorem find_entries:
  assumes "st_ordered kf lo hi t" "st_depth t \<le> n"
  shows "st_find pick kf key n t = find (\<lambda>e. kf e = key) (st_entries t)"
  using assms
proof (induction n arbitrary: t lo hi)
  case 0
  show ?case
  proof (cases t)
    case (SNode kids)
    then have "kids = []" using kid_depth [of "hd kids" kids] 0 by (cases kids) auto
    with SNode show ?thesis by simp
  qed simp
next
  case (Suc n)
  show ?case
  proof (cases t)
    case (SLeaf es)
    then show ?thesis by simp
  next
    case (SNode kids)
    let ?p = "pick (map fst kids) key"
    have ord: "kids_ordered kf lo hi kids" using Suc.prems SNode by simp
    have p: "?p = length (takeWhile (\<lambda>k. k \<le> key) (map fst kids))"
      using kids_ordered_sorted [OF ord] pick_sorted by blast
    have le: "?p \<le> length kids" using pick_le [of "map fst kids" key] by simp
    show ?thesis
    proof (cases "?p = 0")
      case True
      with kids_ordered_pick [OF ord p] SNode show ?thesis by simp
    next
      case False
      let ?kid = "kids ! (?p - 1)"
      have mem: "?kid \<in> set kids" using False le by simp
      have "st_depth (snd ?kid) \<le> n"
        using kid_depth [OF mem] Suc.prems(2) SNode by simp
      moreover have "\<exists>lo' hi'. st_ordered kf lo' hi' (snd ?kid)"
        using kids_ordered_kid [OF ord, of "fst ?kid" "snd ?kid"] mem by simp
      ultimately have "st_find pick kf key n (snd ?kid) = find (\<lambda>e. kf e = key) (st_entries (snd ?kid))"
        using Suc.IH by blast
      with kids_ordered_pick [OF ord p] False le SNode show ?thesis by (simp add: Let_def)
    qed
  qed
qed

end

section \<open>bisect_right\<close>

text \<open>Python's \<open>bisect.bisect_right(a, x)\<close>: binary search with \<open>mid = (lo + hi) // 2\<close>.\<close>

function bisect_loop :: "int list \<Rightarrow> int \<Rightarrow> nat \<Rightarrow> nat \<Rightarrow> nat" where
  "bisect_loop a x lo hi =
     (if lo < hi then
        let mid = (lo + hi) div 2
        in if x < a ! mid then bisect_loop a x lo mid else bisect_loop a x (Suc mid) hi
      else lo)"
  by pat_completeness auto
termination
  by (relation "measure (\<lambda>(a, x, lo, hi). hi - lo)") auto

declare bisect_loop.simps [simp del]

definition bisect_right :: "int list \<Rightarrow> int \<Rightarrow> nat" where
  "bisect_right a x = bisect_loop a x 0 (length a)"

lemma bisect_loop_bounds: "lo \<le> hi \<Longrightarrow> lo \<le> bisect_loop a x lo hi \<and> bisect_loop a x lo hi \<le> hi"
proof (induction a x lo hi rule: bisect_loop.induct)
  case (1 a x lo hi)
  show ?case
  proof (cases "lo < hi")
    case True
    let ?mid = "(lo + hi) div 2"
    have mid: "lo \<le> ?mid" "?mid < hi" using True by auto
    show ?thesis
    proof (cases "x < a ! ?mid")
      case less: True
      with "1.IH"(1) [OF True refl less] mid True show ?thesis
        by (simp add: bisect_loop.simps [of a x lo hi])
    next
      case ge: False
      with "1.IH"(2) [OF True refl ge] mid True show ?thesis
        by (simp add: bisect_loop.simps [of a x lo hi])
    qed
  next
    case False
    with "1.prems" show ?thesis by (simp add: bisect_loop.simps)
  qed
qed

lemma bisect_loop_spec:
  assumes "sorted a" "lo \<le> hi" "hi \<le> length a"
    and "\<forall>i < lo. a ! i \<le> x" "\<forall>i < length a. hi \<le> i \<longrightarrow> x < a ! i"
  shows "(\<forall>i < bisect_loop a x lo hi. a ! i \<le> x) \<and>
         (\<forall>i < length a. bisect_loop a x lo hi \<le> i \<longrightarrow> x < a ! i)"
  using assms
proof (induction a x lo hi rule: bisect_loop.induct)
  case (1 a x lo hi)
  show ?case
  proof (cases "lo < hi")
    case True
    let ?mid = "(lo + hi) div 2"
    have mid: "lo \<le> ?mid" "?mid < hi" using True by auto
    show ?thesis
    proof (cases "x < a ! ?mid")
      case less: True
      have high: "\<forall>i < length a. ?mid \<le> i \<longrightarrow> x < a ! i"
        using less sorted_nth_mono [OF "1.prems"(1), of ?mid] by fastforce
      have "?mid \<le> length a" using mid "1.prems"(3) by linarith
      from "1.IH"(1) [OF True refl less "1.prems"(1) mid(1) this "1.prems"(4) high]
      have "(\<forall>i < bisect_loop a x lo ?mid. a ! i \<le> x) \<and>
          (\<forall>i < length a. bisect_loop a x lo ?mid \<le> i \<longrightarrow> x < a ! i)" .
      with True less show ?thesis by (simp add: bisect_loop.simps [of a x lo hi])
    next
      case ge: False
      have "a ! i \<le> x" if "i < Suc ?mid" for i
      proof -
        have "a ! i \<le> a ! ?mid"
          using that mid "1.prems"(3) by (intro sorted_nth_mono [OF "1.prems"(1)]) linarith+
        with ge show ?thesis by linarith
      qed
      then have low: "\<forall>i < Suc ?mid. a ! i \<le> x" by blast
      have "Suc ?mid \<le> hi" using mid by simp
      from "1.IH"(2) [OF True refl ge "1.prems"(1) this "1.prems"(3) low "1.prems"(5)]
      have "(\<forall>i < bisect_loop a x (Suc ?mid) hi. a ! i \<le> x) \<and>
          (\<forall>i < length a. bisect_loop a x (Suc ?mid) hi \<le> i \<longrightarrow> x < a ! i)" .
      with True ge show ?thesis by (simp add: bisect_loop.simps [of a x lo hi])
    qed
  next
    case False
    with "1.prems" show ?thesis by (simp add: bisect_loop.simps)
  qed
qed

lemma takeWhile_count:
  "p \<le> length xs \<Longrightarrow> (\<forall>i < p. P (xs ! i)) \<Longrightarrow> (\<forall>i < length xs. p \<le> i \<longrightarrow> \<not> P (xs ! i)) \<Longrightarrow>
   length (takeWhile P xs) = p"
  using takeWhile_eq_take_P_nth [of p xs P] by simp

interpretation bisect: child_picker bisect_right
proof
  fix keys :: "int list" and key :: int
  show le: "bisect_right keys key \<le> length keys"
    using bisect_loop_bounds [of 0 "length keys"] by (simp add: bisect_right_def)
  assume "sorted keys"
  then have "(\<forall>i < bisect_right keys key. keys ! i \<le> key) \<and>
      (\<forall>i < length keys. bisect_right keys key \<le> i \<longrightarrow> key < keys ! i)"
    unfolding bisect_right_def by (intro bisect_loop_spec) auto
  then show "bisect_right keys key = length (takeWhile (\<lambda>k. k \<le> key) keys)"
    using le by (intro takeWhile_count [symmetric]) (auto simp: not_le)
qed

section \<open>The scan of an index page\<close>

text \<open>
  \<open>HeapTree.find\<close>: the records are read in order, each becomes the choice, and the first key above
  the target ends it.
\<close>

fun scan_keys :: "int list \<Rightarrow> int \<Rightarrow> nat" where
  "scan_keys [] key = 0"
| "scan_keys (k # ks) key = (if k > key then 0 else Suc (scan_keys ks key))"

lemma scan_keys_takeWhile: "scan_keys ks key = length (takeWhile (\<lambda>k. k \<le> key) ks)"
  by (induction ks) auto

interpretation scan: child_picker scan_keys
  by unfold_locales (simp_all add: scan_keys_takeWhile length_takeWhile_le)

end
