(* ===== verification/Pst_Btree.thy ===== *)
theory Pst_Btree
  imports Pst_Limits Pst_Page Pst_Search_Tree
begin

text \<open>
  \<open>src/pypstreader/ndb/btree.py\<close>: the node and the block B-tree. The file is its bytes, a tree is its
  kind, its file, its root and its limits, and the cache of intermediate pages a tree object carries
  is explicit state. The walk and the lookup are the source's loops; the tree of pages a file holds
  (\<open>load_tree\<close>) is what they are shown to agree with.
\<close>

section \<open>Reading one page\<close>

definition read_page :: "bytes \<Rightarrow> byte_index \<Rightarrow> limits \<Rightarrow> bytes result" where
  "read_page f index limits =
     ebind (raise_if (ib_value index + PAGE_SIZE > max_file_size limits) PstFormatError) (\<lambda>_.
     let data = file_read f (ib_value index) PAGE_SIZE
     in ebind (raise_if (len data \<noteq> PAGE_SIZE) PstFormatError) (\<lambda>_. Inr data))"

record btree =
  bt_KIND :: page_type
  bt_f :: bytes
  bt_root :: page_ref
  bt_limits :: limits

type_synonym page_cache = "int \<rightharpoonup> btree_page"

text \<open>
  The source asserts the type of the entries it meets; the assertion is a branch here, so that its
  never failing is a theorem.
\<close>

datatype leaf_entry = BlockLeaf block_btree_entry | NodeLeaf node_btree_entry

fun leaf_key :: "leaf_entry \<Rightarrow> int" where
  "leaf_key (BlockLeaf e) = bbe_key e"
| "leaf_key (NodeLeaf e) = nbe_key e"

fun intermediate_entries :: "page_entries \<Rightarrow> intermediate_entry list result" where
  "intermediate_entries (Intermediates es) = Inr es"
| "intermediate_entries es = (if entries_count es = 0 then Inr [] else Inl AssertionError)"

fun leaf_entries :: "page_entries \<Rightarrow> leaf_entry list result" where
  "leaf_entries (Intermediates es) = (if es = [] then Inr [] else Inl AssertionError)"
| "leaf_entries (BlockEntries es) = Inr (map BlockLeaf es)"
| "leaf_entries (NodeEntries es) = Inr (map NodeLeaf es)"

definition BTree_check_intermediate :: "btree \<Rightarrow> btree_page \<Rightarrow> unit result" where
  "BTree_check_intermediate t page =
     (if bt_KIND t = PT_NBT then
        ebind (intermediate_entries (bp_entries page)) (\<lambda>es.
        raise_if (\<exists>e \<in> set es. ie_key e > U32) PstFormatError)
      else Inr ())"

definition BTree_read :: "btree \<Rightarrow> page_ref \<Rightarrow> btree_page result" where
  "BTree_read t ref =
     ebind (read_page (bt_f t) (pr_index ref) (bt_limits t)) (\<lambda>data.
     ebind (BTreePage_parse data (bt_KIND t) (pr_index ref)) (\<lambda>page.
     ebind (if bp_is_leaf page then Inr () else BTree_check_intermediate t page) (\<lambda>_.
     Inr page)))"

text \<open>\<open>ref.index.value\<close>, what pages are told apart by.\<close>

abbreviation page_at :: "page_ref \<Rightarrow> int" where
  "page_at ref \<equiv> ib_value (pr_index ref)"

definition BTree_child ::
  "btree \<Rightarrow> page_ref \<Rightarrow> int \<Rightarrow> int visited \<Rightarrow> (page_cache, int visited \<times> btree_page) st" where
  "BTree_child t ref depth visited =
     sbind (slift (check_depth depth (max_btree_depth (bt_limits t)))) (\<lambda>_.
     sbind (slift (vs_add visited (page_at ref))) (\<lambda>visited'.
     sbind sget (\<lambda>cache.
     case cache (page_at ref) of
       Some page \<Rightarrow> sret (visited', page)
     | None \<Rightarrow>
         sbind (slift (BTree_read t ref)) (\<lambda>page.
         sbind (if bp_is_leaf page then sret () else sput (cache(page_at ref \<mapsto> page))) (\<lambda>_.
         sret (visited', page))))))"

lemma BTree_child_add:
  "BTree_child t ref depth visited cache = (Inr (visited', page), cache') \<Longrightarrow>
     vs_add visited (page_at ref) = Inr visited'"
  by (auto simp: BTree_child_def sbind_eq_Inr split: option.splits)

section \<open>The walk\<close>

text \<open>
  A generator is the list of what it yields and the exception that ends it, if one does. The stack's
  top is its head: pushing the entries reversed puts the first on top.
\<close>

function BTree_pages_loop ::
  "btree \<Rightarrow> (page_ref \<times> int) list \<Rightarrow> int visited \<Rightarrow> page_cache \<Rightarrow>
   (btree_page list \<times> error option) \<times> page_cache" where
  "BTree_pages_loop t [] visited cache = (([], None), cache)"
| "BTree_pages_loop t ((ref, depth) # stack) visited cache =
     (case BTree_child t ref depth visited cache of
        (Inl e, cache') \<Rightarrow> (([], Some e), cache')
      | (Inr (visited', page), cache') \<Rightarrow>
          if bp_is_leaf page then
            (case BTree_pages_loop t stack visited' cache' of
               ((ps, e), cache'') \<Rightarrow> ((page # ps, e), cache''))
          else
            (case intermediate_entries (bp_entries page) of
               Inl e \<Rightarrow> (([page], Some e), cache')
             | Inr es \<Rightarrow>
                 (case BTree_pages_loop t (map (\<lambda>e. (ie_ref e, depth + 1)) es @ stack) visited' cache' of
                    ((ps, e), cache'') \<Rightarrow> ((page # ps, e), cache''))))"
  by pat_completeness auto
termination
  by (relation "measure (\<lambda>(t, stack, visited, cache). vs_room visited)")
     (auto dest!: BTree_child_add [OF sym] vs_add_room)

definition BTree_pages :: "btree \<Rightarrow> page_cache \<Rightarrow> (btree_page list \<times> error option) \<times> page_cache" where
  "BTree_pages t cache =
     BTree_pages_loop t [(bt_root t, 0)] (new_visited (max_items (bt_limits t))) cache"

text \<open>
  \<open>_leaf_entries\<close> over the pages the walk yields. A count over the ceiling ends the source's walk
  where it stands; here the pages beyond have been read, which only the cache could tell.
\<close>

fun leaf_scan :: "int \<Rightarrow> limits \<Rightarrow> btree_page list \<Rightarrow> error option \<Rightarrow> leaf_entry list \<times> error option" where
  "leaf_scan count limits [] err = ([], err)"
| "leaf_scan count limits (page # pages) err =
     (if bp_is_leaf page then
        (let count' = count + int (entries_count (bp_entries page))
         in case ebind (check_count count' (max_items limits)) (\<lambda>_. leaf_entries (bp_entries page)) of
              Inl e \<Rightarrow> ([], Some e)
            | Inr es \<Rightarrow> (case leaf_scan count' limits pages err of (rest, e) \<Rightarrow> (es @ rest, e)))
      else leaf_scan count limits pages err)"

definition BTree_leaf_entries :: "btree \<Rightarrow> page_cache \<Rightarrow> (leaf_entry list \<times> error option) \<times> page_cache" where
  "BTree_leaf_entries t cache =
     (case BTree_pages t cache of ((pages, err), cache') \<Rightarrow> (leaf_scan 0 (bt_limits t) pages err, cache'))"

section \<open>The lookup\<close>

function BTree_find_loop ::
  "btree \<Rightarrow> int \<Rightarrow> page_ref \<Rightarrow> int \<Rightarrow> int visited \<Rightarrow> page_cache \<Rightarrow> leaf_entry result \<times> page_cache" where
  "BTree_find_loop t key ref depth visited cache =
     (case BTree_child t ref depth visited cache of
        (Inl e, cache') \<Rightarrow> (Inl e, cache')
      | (Inr (visited', page), cache') \<Rightarrow>
          if bp_is_leaf page then
            (ebind (leaf_entries (bp_entries page)) (\<lambda>es.
               case find (\<lambda>e. leaf_key e = key) es of
                 None \<Rightarrow> Inl PstNotFoundError | Some e \<Rightarrow> Inr e), cache')
          else
            (case intermediate_entries (bp_entries page) of
               Inl e \<Rightarrow> (Inl e, cache')
             | Inr es \<Rightarrow>
                 (let position = bisect_right (map ie_key es) key
                  in if position = 0 then (Inl PstNotFoundError, cache')
                     else BTree_find_loop t key (ie_ref (es ! (position - 1))) (depth + 1) visited' cache')))"
  by pat_completeness auto
termination
  by (relation "measure (\<lambda>(t, key, ref, depth, visited, cache). vs_room visited)")
     (auto dest!: BTree_child_add [OF sym] vs_add_room)

declare BTree_find_loop.simps [simp del] BTree_pages_loop.simps(2) [simp del]

definition BTree_find :: "btree \<Rightarrow> int \<Rightarrow> (page_cache, leaf_entry) st" where
  "BTree_find t key cache =
     BTree_find_loop t key (bt_root t) 0 (new_visited (max_items (bt_limits t))) cache"

section \<open>The cache is invisible\<close>

text \<open>
  What a lookup would find with every page read from the file: the specification of \<open>BTree_child\<close>.
  A cache holds intermediate pages only, each the one its offset reads as.
\<close>

definition cache_ok :: "btree \<Rightarrow> page_cache \<Rightarrow> bool" where
  "cache_ok t cache \<longleftrightarrow>
     (\<forall>at page ref. cache at = Some page \<longrightarrow> page_at ref = at \<longrightarrow> BTree_read t ref = Inr page \<and> \<not> bp_is_leaf page)"

definition child_plain :: "btree \<Rightarrow> page_ref \<Rightarrow> int \<Rightarrow> int visited \<Rightarrow> (int visited \<times> btree_page) result" where
  "child_plain t ref depth visited =
     ebind (check_depth depth (max_btree_depth (bt_limits t))) (\<lambda>_.
     ebind (vs_add visited (page_at ref)) (\<lambda>visited'.
     ebind (BTree_read t ref) (\<lambda>page. Inr (visited', page))))"

lemma cache_ok_empty [simp, intro]: "cache_ok t Map.empty"
  by (simp add: cache_ok_def)

lemma BTree_read_cong: "page_at ref = page_at ref' \<Longrightarrow> BTree_read t ref = BTree_read t ref'"
proof -
  assume "page_at ref = page_at ref'"
  then have "pr_index ref = pr_index ref'" by (cases "pr_index ref"; cases "pr_index ref'") simp
  then show ?thesis by (simp add: BTree_read_def)
qed

lemma BTree_child_plain:
  assumes "cache_ok t cache"
  shows "fst (BTree_child t ref depth visited cache) = child_plain t ref depth visited"
    and "cache_ok t (snd (BTree_child t ref depth visited cache))"
proof -
  have upd: "cache_ok t (cache(page_at ref \<mapsto> page))" if "BTree_read t ref = Inr page" "\<not> bp_is_leaf page" for page
    unfolding cache_ok_def
  proof (intro allI impI)
    fix at p r assume "(cache(page_at ref \<mapsto> page)) at = Some p" "page_at r = at"
    then show "BTree_read t r = Inr p \<and> \<not> bp_is_leaf p"
      using assms that BTree_read_cong [of r ref t] by (cases "at = page_at ref") (simp_all add: cache_ok_def)
  qed
  have "fst (BTree_child t ref depth visited cache) = child_plain t ref depth visited \<and>
    cache_ok t (snd (BTree_child t ref depth visited cache))"
  proof (cases "cache (page_at ref)")
    case (Some page)
    then have "BTree_read t ref = Inr page" using assms by (auto simp: cache_ok_def)
    with Some assms show ?thesis
      by (cases "check_depth depth (max_btree_depth (bt_limits t))"; cases "vs_add visited (page_at ref)")
         (simp_all add: BTree_child_def child_plain_def)
  next
    case None
    show ?thesis
    proof (cases "BTree_read t ref")
      case (Inl e)
      with None assms show ?thesis
        by (cases "check_depth depth (max_btree_depth (bt_limits t))"; cases "vs_add visited (page_at ref)")
           (simp_all add: BTree_child_def child_plain_def)
    next
      case (Inr page)
      with None assms upd [OF Inr] show ?thesis
        by (cases "check_depth depth (max_btree_depth (bt_limits t))"; cases "vs_add visited (page_at ref)")
           (simp_all add: BTree_child_def child_plain_def)
    qed
  qed
  then show "fst (BTree_child t ref depth visited cache) = child_plain t ref depth visited"
    "cache_ok t (snd (BTree_child t ref depth visited cache))" by blast+
qed

lemma child_plain_Inr_iff:
  "child_plain t ref depth visited = Inr (visited', page) \<longleftrightarrow>
     depth \<le> max_btree_depth (bt_limits t) \<and> vs_add visited (page_at ref) = Inr visited' \<and>
     BTree_read t ref = Inr page"
  by (auto simp: child_plain_def ebind_Inr_iff check_Inr_iff)

lemma BTree_child_cases [consumes 1, case_names raised page]:
  assumes "cache_ok t cache"
  obtains (raised) e cache' where "BTree_child t ref depth visited cache = (Inl e, cache')"
      "child_plain t ref depth visited = Inl e" "cache_ok t cache'"
    | (page) visited' page cache' where "BTree_child t ref depth visited cache = (Inr (visited', page), cache')"
      "child_plain t ref depth visited = Inr (visited', page)" "cache_ok t cache'"
proof -
  obtain r cache' where run: "BTree_child t ref depth visited cache = (r, cache')" by fastforce
  note facts = BTree_child_plain [OF assms, of ref depth visited, unfolded run fst_conv snd_conv]
  show ?thesis
  proof (cases r)
    case (Inl e)
    show ?thesis by (rule raised [of e cache']) (use run facts Inl in auto)
  next
    case (Inr vp)
    obtain v p where "vp = (v, p)" by fastforce
    with Inr run facts show ?thesis by (intro page [of v p cache']) auto
  qed
qed

lemma BTree_find_loop_keeps:
  "cache_ok t cache \<Longrightarrow> cache_ok t (snd (BTree_find_loop t key ref depth visited cache))"
proof (induction t key ref depth visited cache rule: BTree_find_loop.induct)
  case (1 t key ref depth visited cache)
  show ?case
    using 1(2)
  proof (cases rule: BTree_child_cases [where ref = ref and depth = depth and visited = visited])
    case (raised e cache')
    then show ?thesis by (subst BTree_find_loop.simps) simp
  next
    case (page visited' page cache')
    then show ?thesis using 1(1) [OF page(1) [symmetric] refl refl]
      by (subst BTree_find_loop.simps) (auto simp: Let_def split: sum.splits)
  qed
qed

lemma BTree_find_loop_cache:
  "cache_ok t cache \<Longrightarrow> cache_ok t cache2 \<Longrightarrow>
   fst (BTree_find_loop t key ref depth visited cache) = fst (BTree_find_loop t key ref depth visited cache2)"
proof (induction t key ref depth visited cache arbitrary: cache2 rule: BTree_find_loop.induct)
  case (1 t key ref depth visited cache)
  show ?case
    using 1(2)
  proof (cases rule: BTree_child_cases [where ref = ref and depth = depth and visited = visited])
    case (raised e cache')
    moreover obtain cache2' where "BTree_child t ref depth visited cache2 = (Inl e, cache2')"
      using 1(3) raised(2) by (cases rule: BTree_child_cases [where ref = ref and depth = depth and visited = visited]) auto
    ultimately show ?thesis by (simp add: BTree_find_loop.simps [of t key ref depth visited])
  next
    case (page visited' page cache')
    moreover obtain cache2' where "BTree_child t ref depth visited cache2 = (Inr (visited', page), cache2')"
      and "cache_ok t cache2'"
      using 1(3) page(2) by (cases rule: BTree_child_cases [where ref = ref and depth = depth and visited = visited]) auto
    ultimately have runs: "BTree_child t ref depth visited cache2 = (Inr (visited', page), cache2')"
      "cache_ok t cache2'" by auto
    show ?thesis
    proof (cases "bp_is_leaf page")
      case True
      then show ?thesis using page(1) runs(1) by (simp add: BTree_find_loop.simps [of t key ref depth visited])
    next
      case inner: False
      show ?thesis
      proof (cases "intermediate_entries (bp_entries page)")
        case (Inl e)
        then show ?thesis using inner page(1) runs(1)
          by (simp add: BTree_find_loop.simps [of t key ref depth visited])
      next
        case es: (Inr es)
        show ?thesis
        proof (cases "bisect_right (map ie_key es) key = 0")
          case True
          then show ?thesis using inner es page(1) runs(1)
            by (simp add: BTree_find_loop.simps [of t key ref depth visited])
        next
          case False
          from 1(1) [OF page(1) [symmetric] refl refl inner es refl False page(3) runs(2)]
          show ?thesis using False inner es page(1) runs(1)
            by (simp add: BTree_find_loop.simps [of t key ref depth visited])
        qed
      qed
    qed
  qed
qed

text \<open>So every lookup is the one a fresh tree makes.\<close>

lemma BTree_find_plain:
  assumes "cache_ok t cache"
  shows "fst (BTree_find t key cache) = fst (BTree_find t key Map.empty)"
    and "cache_ok t (snd (BTree_find t key cache))"
  using assms BTree_find_loop_cache BTree_find_loop_keeps unfolding BTree_find_def by blast+

definition btree_lookup :: "btree \<Rightarrow> int \<Rightarrow> leaf_entry result" where
  "btree_lookup t key = fst (BTree_find t key Map.empty)"

section \<open>What a lookup can return\<close>

lemma BTree_read_facts:
  assumes "BTree_read t ref = Inr page"
  shows "bp_is_leaf page \<Longrightarrow> bt_KIND t = PT_BBT \<Longrightarrow> \<exists>es. bp_entries page = BlockEntries es"
    and "bp_is_leaf page \<Longrightarrow> bt_KIND t = PT_NBT \<Longrightarrow> \<exists>es. bp_entries page = NodeEntries es"
    and "\<not> bp_is_leaf page \<Longrightarrow> \<exists>es. bp_entries page = Intermediates es"
    and "bt_KIND t = PT_BBT \<or> bt_KIND t = PT_NBT"
proof -
  obtain data where parse: "BTreePage_parse data (bt_KIND t) (pr_index ref) = Inr page"
    using assms by (auto simp: BTree_read_def ebind_Inr_iff)
  note facts = BTreePage_parse_facts [OF parse]
  obtain n where n: "unpack_entries data (bp_level page) (bt_KIND t) n (bp_entry_size page) = Inr (bp_entries page)"
    using facts(11) by blast
  note kind = unpack_entries_kind [OF n facts(1)]
  show "bp_is_leaf page \<Longrightarrow> bt_KIND t = PT_BBT \<Longrightarrow> \<exists>es. bp_entries page = BlockEntries es"
    "bp_is_leaf page \<Longrightarrow> bt_KIND t = PT_NBT \<Longrightarrow> \<exists>es. bp_entries page = NodeEntries es"
    "\<not> bp_is_leaf page \<Longrightarrow> \<exists>es. bp_entries page = Intermediates es"
    using kind by (auto simp: bp_is_leaf_def)
  show "bt_KIND t = PT_BBT \<or> bt_KIND t = PT_NBT" using facts(1) by (simp add: is_btree_type_def)
qed

lemma BTree_read_entries:
  assumes "BTree_read t ref = Inr page"
  shows "bp_is_leaf page \<Longrightarrow> \<exists>es. leaf_entries (bp_entries page) = Inr es"
    and "\<not> bp_is_leaf page \<Longrightarrow> \<exists>es. intermediate_entries (bp_entries page) = Inr es"
  using BTree_read_facts [OF assms] by auto

lemma read_page_closed [simp, intro]: "fails_closed (read_page f index limits)"
  unfolding read_page_def Let_def by (intro fails_closed_ebind fails_closed_raise_if fails_closed_Inr) simp_all

lemma BTree_read_closed [simp, intro]: "fails_closed (BTree_read t ref)"
proof -
  have "fails_closed (BTree_check_intermediate t page)"
    if inner: "\<not> bp_is_leaf page" and parse: "BTreePage_parse data (bt_KIND t) (pr_index ref) = Inr page" for data page
  proof -
    note facts = BTreePage_parse_facts [OF parse]
    obtain n where n: "unpack_entries data (bp_level page) (bt_KIND t) n (bp_entry_size page) = Inr (bp_entries page)"
      using facts(11) by blast
    then obtain es where "bp_entries page = Intermediates es"
      using unpack_entries_kind [OF n facts(1)] inner by (auto simp: bp_is_leaf_def)
    then show ?thesis by (simp add: BTree_check_intermediate_def)
  qed
  then show ?thesis
    unfolding BTree_read_def by (intro fails_closed_ebind fails_closed_if) auto
qed

lemma child_plain_closed [simp, intro]: "fails_closed (child_plain t ref depth visited)"
  unfolding child_plain_def by (intro fails_closed_ebind) auto

text \<open>Every lookup ends in an entry of the tree's kind with the key asked for, or in a PstError.\<close>

definition leaf_of_kind :: "page_type \<Rightarrow> leaf_entry \<Rightarrow> bool" where
  "leaf_of_kind kind e \<longleftrightarrow>
     (kind = PT_BBT \<and> (\<exists>b. e = BlockLeaf b)) \<or> (kind = PT_NBT \<and> (\<exists>n. e = NodeLeaf n))"

lemma leaf_entries_of_kind:
  assumes "BTree_read t ref = Inr page" "bp_is_leaf page" "leaf_entries (bp_entries page) = Inr es" "e \<in> set es"
  shows "leaf_of_kind (bt_KIND t) e"
  using BTree_read_facts [OF assms(1)] assms(2-) by (auto simp: leaf_of_kind_def)

lemma BTree_find_loop_result:
  "cache_ok t cache \<Longrightarrow>
   (case fst (BTree_find_loop t key ref depth visited cache) of
      Inl e \<Rightarrow> is_pst_error e
    | Inr e \<Rightarrow> leaf_key e = key \<and> leaf_of_kind (bt_KIND t) e)"
proof (induction t key ref depth visited cache rule: BTree_find_loop.induct)
  case (1 t key ref depth visited cache)
  show ?case
    using 1(2)
  proof (cases rule: BTree_child_cases [where ref = ref and depth = depth and visited = visited])
    case (raised e cache')
    then have "is_pst_error e" using child_plain_closed [of t ref depth visited] by simp
    with raised show ?thesis by (subst BTree_find_loop.simps) simp
  next
    case (page visited' page cache')
    then have read: "BTree_read t ref = Inr page" by (simp add: child_plain_Inr_iff)
    show ?thesis
    proof (cases "bp_is_leaf page")
      case True
      then obtain es where es: "leaf_entries (bp_entries page) = Inr es"
        using BTree_read_entries(1) [OF read] by blast
      show ?thesis
      proof (cases "find (\<lambda>e. leaf_key e = key) es")
        case None
        with True es page(1) show ?thesis by (subst BTree_find_loop.simps) simp
      next
        case (Some e)
        then have "e \<in> set es" "leaf_key e = key" by (auto simp: find_Some_iff)
        with Some True es page(1) leaf_entries_of_kind [OF read True es] show ?thesis
          by (subst BTree_find_loop.simps) simp
      qed
    next
      case False
      then obtain es where es: "intermediate_entries (bp_entries page) = Inr es"
        using BTree_read_entries(2) [OF read] by blast
      show ?thesis
      proof (cases "bisect_right (map ie_key es) key = 0")
        case True
        with False es page(1) show ?thesis by (subst BTree_find_loop.simps) simp
      next
        case nz: False
        with 1(1) [OF page(1) [symmetric] refl refl False es refl nz page(3)] False es page(1)
        show ?thesis by (subst BTree_find_loop.simps) simp
      qed
    qed
  qed
qed

lemma btree_lookup_Inr:
  "btree_lookup t key = Inr e \<Longrightarrow> leaf_key e = key \<and> leaf_of_kind (bt_KIND t) e"
  using BTree_find_loop_result [of t Map.empty key "bt_root t" 0 "new_visited (max_items (bt_limits t))"]
  by (simp add: btree_lookup_def BTree_find_def)

lemma btree_lookup_closed [simp, intro]: "fails_closed (btree_lookup t key)"
  using BTree_find_loop_result [of t Map.empty key "bt_root t" 0 "new_visited (max_items (bt_limits t))"]
  by (auto simp: btree_lookup_def BTree_find_def fails_closed_def)

section \<open>The tree of pages a file holds\<close>

datatype ptree = PTree (ptr_at: int) (ptr_page: btree_page) (ptr_kids: "(int \<times> ptree) list")

text \<open>Every page read, to a depth: no cache, no guard, no stack.\<close>

fun load_tree :: "btree \<Rightarrow> nat \<Rightarrow> page_ref \<Rightarrow> ptree result" where
  "load_tree t 0 ref =
     ebind (BTree_read t ref) (\<lambda>page.
     if bp_is_leaf page then Inr (PTree (page_at ref) page [])
     else ebind (intermediate_entries (bp_entries page)) (\<lambda>es.
          if es = [] then Inr (PTree (page_at ref) page []) else Inl PstLimitError))"
| "load_tree t (Suc n) ref =
     ebind (BTree_read t ref) (\<lambda>page.
     if bp_is_leaf page then Inr (PTree (page_at ref) page [])
     else ebind (intermediate_entries (bp_entries page)) (\<lambda>es.
          ebind (emap (\<lambda>e. load_tree t n (ie_ref e)) es) (\<lambda>kids.
          Inr (PTree (page_at ref) page (zip (map ie_key es) kids)))))"

fun ptr_offsets :: "ptree \<Rightarrow> int list" where
  "ptr_offsets (PTree at page kids) = at # concat (map (\<lambda>(k, t). ptr_offsets t) kids)"

fun ptr_pages :: "ptree \<Rightarrow> btree_page list" where
  "ptr_pages (PTree at page kids) = page # concat (map (\<lambda>(k, t). ptr_pages t) kids)"

definition page_leaves :: "btree_page \<Rightarrow> leaf_entry list" where
  "page_leaves page = (case leaf_entries (bp_entries page) of Inl e \<Rightarrow> [] | Inr es \<Rightarrow> es)"

text \<open>The search tree the pages stand for.\<close>

fun ptr_stree :: "ptree \<Rightarrow> leaf_entry stree" where
  "ptr_stree (PTree at page kids) =
     (if bp_is_leaf page then SLeaf (page_leaves page)
      else SNode (map (\<lambda>(k, t). (k, ptr_stree t)) kids))"

lemma map_snd_zip_conv: "length xs = length ys \<Longrightarrow> map (\<lambda>(k, t). f t) (zip xs ys) = map f ys"
  by (induction xs ys rule: list_induct2) auto

lemma load_tree_leaf:
  "BTree_read t ref = Inr page \<Longrightarrow> bp_is_leaf page \<Longrightarrow> load_tree t n ref = Inr (PTree (page_at ref) page [])"
  by (cases n) simp_all

lemma load_tree_inner:
  assumes "BTree_read t ref = Inr page" "\<not> bp_is_leaf page"
    and "intermediate_entries (bp_entries page) = Inr es" and "0 \<le> (m :: int)"
  shows "load_tree t (nat m) ref = Inr pt \<longleftrightarrow>
    (\<exists>kids. list_all2 (\<lambda>e kid. 1 \<le> m \<and> load_tree t (nat (m - 1)) (ie_ref e) = Inr kid) es kids \<and>
       pt = PTree (page_at ref) page (zip (map ie_key es) kids))"
proof (cases "nat m")
  case 0
  with assms show ?thesis by (cases es) (auto simp: list_all2_Cons1)
next
  case (Suc n)
  then have n: "nat (m - 1) = n" "1 \<le> m" by auto
  have "load_tree t (nat m) ref = Inr pt \<longleftrightarrow>
    (\<exists>kids. emap (\<lambda>e. load_tree t n (ie_ref e)) es = Inr kids \<and>
       pt = PTree (page_at ref) page (zip (map ie_key es) kids))"
    unfolding Suc using assms(1-3) by (auto simp: ebind_Inr_iff)
  with n show ?thesis by (simp add: emap_Inr_iff)
qed

subsection \<open>The walk reads exactly the tree\<close>

text \<open>
  The trees the references of the stack load as, within the depth each still has: \<open>stack_trees\<close>. The
  walk ends without an exception exactly when they load and no page of theirs is met twice, and what
  it yields is then their pages in pre-order.
\<close>

definition tree_at :: "btree \<Rightarrow> page_ref \<Rightarrow> int \<Rightarrow> ptree \<Rightarrow> bool" where
  "tree_at t ref depth pt \<longleftrightarrow>
     depth \<le> max_btree_depth (bt_limits t) \<and>
     load_tree t (nat (max_btree_depth (bt_limits t) - depth)) ref = Inr pt"

definition stack_trees :: "btree \<Rightarrow> (page_ref \<times> int) list \<Rightarrow> ptree list \<Rightarrow> bool" where
  "stack_trees t stack pts \<longleftrightarrow> list_all2 (\<lambda>rd pt. tree_at t (fst rd) (snd rd) pt) stack pts"

lemma stack_trees_Cons:
  "stack_trees t ((ref, depth) # stack) pts \<longleftrightarrow>
     (\<exists>pt rest. pts = pt # rest \<and> tree_at t ref depth pt \<and> stack_trees t stack rest)"
  by (auto simp: stack_trees_def list_all2_Cons1)

lemma stack_trees_push:
  "stack_trees t (map (\<lambda>e. (ie_ref e, depth + 1)) es @ stack) pts \<longleftrightarrow>
     (\<exists>kids rest. pts = kids @ rest \<and> stack_trees t stack rest \<and>
        list_all2 (\<lambda>e kid. tree_at t (ie_ref e) (depth + 1) kid) es kids)"
  unfolding stack_trees_def list_all2_append1 list_all2_map1 fst_conv snd_conv
  by (metis (no_types, lifting) list_all2_lengthD length_map)

lemma tree_at_leaf:
  "BTree_read t ref = Inr page \<Longrightarrow> bp_is_leaf page \<Longrightarrow>
   tree_at t ref depth pt \<longleftrightarrow> depth \<le> max_btree_depth (bt_limits t) \<and> pt = PTree (page_at ref) page []"
  by (auto simp: tree_at_def load_tree_leaf)

lemma tree_at_inner:
  assumes "BTree_read t ref = Inr page" "\<not> bp_is_leaf page"
    and "intermediate_entries (bp_entries page) = Inr es" and "depth \<le> max_btree_depth (bt_limits t)"
  shows "tree_at t ref depth pt \<longleftrightarrow>
    (\<exists>kids. list_all2 (\<lambda>e kid. tree_at t (ie_ref e) (depth + 1) kid) es kids \<and>
       pt = PTree (page_at ref) page (zip (map ie_key es) kids))"
proof -
  let ?m = "max_btree_depth (bt_limits t) - depth"
  have m: "0 \<le> ?m" using assms(4) by simp
  have "tree_at t r (depth + 1) kid \<longleftrightarrow> 1 \<le> ?m \<and> load_tree t (nat (?m - 1)) r = Inr kid" for r kid
    by (auto simp: tree_at_def diff_diff_eq)
  then show ?thesis using load_tree_inner [OF assms(1-3) m, of pt] assms(4) by (simp add: tree_at_def [of t ref])
qed

definition pages_of :: "ptree list \<Rightarrow> btree_page list" where
  "pages_of pts = concat (map ptr_pages pts)"

definition offsets_of :: "ptree list \<Rightarrow> int list" where
  "offsets_of pts = concat (map ptr_offsets pts)"

theorem BTree_pages_loop_iff:
  assumes "cache_ok t cache"
  shows "fst (BTree_pages_loop t stack visited cache) = (ps, None) \<longleftrightarrow>
    (\<exists>pts v'. stack_trees t stack pts \<and> vs.visit_all visited (offsets_of pts) = Inr v' \<and> ps = pages_of pts)"
  using assms
proof (induction t stack visited cache arbitrary: ps rule: BTree_pages_loop.induct)
  case (1 t visited cache)
  then show ?case by (auto simp: stack_trees_def offsets_of_def pages_of_def)
next
  case (2 t ref depth stack visited cache)
  let ?m = "max_btree_depth (bt_limits t) - depth"
  note loop = BTree_pages_loop.simps(2) [of t ref depth stack visited cache]
  show ?case
    using 2(3)
  proof (cases rule: BTree_child_cases [where ref = ref and depth = depth and visited = visited])
    case (raised e cache')
    have False if trees: "stack_trees t ((ref, depth) # stack) pts"
        and visit: "vs.visit_all visited (offsets_of pts) = Inr v'" for pts v'
    proof -
      obtain pt rest where pts: "pts = pt # rest" "depth \<le> max_btree_depth (bt_limits t)"
        "load_tree t (nat ?m) ref = Inr pt"
        using trees by (auto simp: stack_trees_Cons tree_at_def)
      then have "(\<exists>page. BTree_read t ref = Inr page) \<and> ptr_at pt = page_at ref"
        by (cases "nat ?m") (auto simp: ebind_Inr_iff split: if_splits)
      moreover have "\<exists>v1. vs_add visited (ptr_at pt) = Inr v1"
        using visit pts(1) by (cases pt) (auto simp: offsets_of_def ebind_Inr_iff)
      ultimately show False using pts(2) raised(2) child_plain_Inr_iff [of t ref depth visited] by auto
    qed
    then show ?thesis using raised(1) by (auto simp: loop)
  next
    case (page visited' page cache')
    then have at: "depth \<le> max_btree_depth (bt_limits t)" "vs_add visited (page_at ref) = Inr visited'"
      and read: "BTree_read t ref = Inr page" by (simp_all add: child_plain_Inr_iff)
    show ?thesis
    proof (cases "bp_is_leaf page")
      case True
      let ?run = "BTree_pages_loop t stack visited' cache'"
      obtain ps' e c where run: "?run = ((ps', e), c)" by (metis surj_pair)
      have "fst (BTree_pages_loop t ((ref, depth) # stack) visited cache) = (ps, None) \<longleftrightarrow>
          (\<exists>ps'. fst ?run = (ps', None) \<and> ps = page # ps')"
        using True page(1) run by (auto simp: loop)
      also have "\<dots> \<longleftrightarrow> (\<exists>pts v'. stack_trees t stack pts \<and>
          vs.visit_all visited' (offsets_of pts) = Inr v' \<and> ps = page # pages_of pts)"
        using 2(1) [OF page(1) [symmetric] refl refl True page(3)] by blast
      also have "\<dots> \<longleftrightarrow> (\<exists>pts v'. stack_trees t ((ref, depth) # stack) pts \<and>
          vs.visit_all visited (offsets_of pts) = Inr v' \<and> ps = pages_of pts)"
        using at tree_at_leaf [OF read True]
        by (auto simp: stack_trees_Cons offsets_of_def pages_of_def)
      finally show ?thesis .
    next
      case False
      obtain es where es: "intermediate_entries (bp_entries page) = Inr es"
        using BTree_read_entries(2) [OF read False] by blast
      let ?stack = "map (\<lambda>e. (ie_ref e, depth + 1)) es @ stack"
      let ?run = "BTree_pages_loop t ?stack visited' cache'"
      let ?kid = "\<lambda>e kid. tree_at t (ie_ref e) (depth + 1) kid"
      obtain ps' e c where run: "?run = ((ps', e), c)" by (metis surj_pair)
      have "fst (BTree_pages_loop t ((ref, depth) # stack) visited cache) = (ps, None) \<longleftrightarrow>
          (\<exists>ps'. fst ?run = (ps', None) \<and> ps = page # ps')"
        using False es page(1) run by (auto simp: loop)
      also have "\<dots> \<longleftrightarrow> (\<exists>pts v'. stack_trees t ?stack pts \<and>
          vs.visit_all visited' (offsets_of pts) = Inr v' \<and> ps = page # pages_of pts)"
        using 2(2) [OF page(1) [symmetric] refl refl False es page(3)] by blast
      also have "\<dots> \<longleftrightarrow> (\<exists>kids rest v'. stack_trees t stack rest \<and> list_all2 ?kid es kids \<and>
          vs.visit_all visited' (offsets_of (kids @ rest)) = Inr v' \<and> ps = page # pages_of (kids @ rest))"
        unfolding stack_trees_push by blast
      also have "\<dots> \<longleftrightarrow> (\<exists>pts v'. stack_trees t ((ref, depth) # stack) pts \<and>
          vs.visit_all visited (offsets_of pts) = Inr v' \<and> ps = pages_of pts)"
      proof -
        note load = tree_at_inner [OF read False es at(1)]
        have flat: "offsets_of (PTree (page_at ref) page (zip (map ie_key es) kids) # rest) =
              page_at ref # offsets_of (kids @ rest)"
            "pages_of (PTree (page_at ref) page (zip (map ie_key es) kids) # rest) = page # pages_of (kids @ rest)"
          if "list_all2 ?kid es kids" for kids rest
          using list_all2_lengthD [OF that] by (simp_all add: offsets_of_def pages_of_def map_snd_zip_conv)
        show ?thesis
          unfolding stack_trees_Cons load using at flat by (auto; metis ebind_simps(2) vs.visit_all.simps(2))
      qed
      finally show ?thesis .
    qed
  qed
qed

subsection \<open>The lookup is the descent of the tree\<close>

definition found :: "leaf_entry option \<Rightarrow> leaf_entry result" where
  "found r = (case r of None \<Rightarrow> Inl PstNotFoundError | Some e \<Rightarrow> Inr e)"

lemma BTree_find_loop_tree:
  assumes "cache_ok t cache" "tree_at t ref depth pt" "\<exists>v'. vs.visit_all visited (ptr_offsets pt) = Inr v'"
  shows "fst (BTree_find_loop t key ref depth visited cache) =
    found (st_find bisect_right leaf_key key (nat (max_btree_depth (bt_limits t) - depth)) (ptr_stree pt))"
  using assms
proof (induction t key ref depth visited cache arbitrary: pt rule: BTree_find_loop.induct)
  case (1 t key ref depth visited cache)
  obtain at pg ks where pt: "pt = PTree at pg ks" by (cases pt)
  have depth: "depth \<le> max_btree_depth (bt_limits t)" using 1(3) by (simp add: tree_at_def)
  have pt_page: "BTree_read t ref = Inr pg \<and> at = page_at ref"
    using 1(3) pt by (cases "nat (max_btree_depth (bt_limits t) - depth)")
      (auto simp: tree_at_def ebind_Inr_iff split: if_splits)
  obtain v1 where add: "vs_add visited (page_at ref) = Inr v1"
    using 1(4) pt pt_page by (auto simp: ebind_Inr_iff)
  have plain: "child_plain t ref depth visited = Inr (v1, pg)"
    using depth add pt_page by (simp add: child_plain_Inr_iff)
  obtain cache' where child: "BTree_child t ref depth visited cache = (Inr (v1, pg), cache')"
    and keeps: "cache_ok t cache'"
    using 1(2) plain
    by (cases rule: BTree_child_cases [where ref = ref and depth = depth and visited = visited]) auto
  note read = conjunct1 [OF pt_page]
  show ?case
  proof (cases "bp_is_leaf pg")
    case True
    then obtain es where es: "leaf_entries (bp_entries pg) = Inr es"
      using BTree_read_entries(1) [OF read] by blast
    then show ?thesis using True child pt
      by (simp add: BTree_find_loop.simps [of t key ref depth] found_def page_leaves_def)
  next
    case False
    then obtain es where es: "intermediate_entries (bp_entries pg) = Inr es"
      using BTree_read_entries(2) [OF read] by blast
    obtain kids where kids: "list_all2 (\<lambda>e kid. tree_at t (ie_ref e) (depth + 1) kid) es kids"
      and ks: "ks = zip (map ie_key es) kids"
      using 1(3) tree_at_inner [OF read False es depth, of pt] pt by auto
    note len = list_all2_lengthD [OF kids]
    have keys: "map (fst \<circ> (\<lambda>(k, t). (k, ptr_stree t))) ks = map ie_key es"
      using len unfolding ks by (simp add: comp_def case_prod_beta map_fst_zip [unfolded comp_def])
    let ?p = "bisect_right (map ie_key es) key"
    have p_le: "?p \<le> length es" using bisect.pick_le [of "map ie_key es" key] by simp
    show ?thesis
    proof (cases "es = []")
      case True
      then have "?p = 0" using p_le by simp
      moreover have "st_find bisect_right leaf_key key n (SNode []) = None" for n
        using bisect.pick_le [of "[]" key] by (cases n) (simp_all add: Let_def)
      ultimately show ?thesis using False es child pt True ks
        by (simp add: BTree_find_loop.simps [of t key ref depth] found_def)
    next
      case ne: False
      have "tree_at t (ie_ref (es ! 0)) (depth + 1) (kids ! 0)"
        using kids ne by (auto simp: list_all2_conv_all_nth)
      then obtain n where n: "nat (max_btree_depth (bt_limits t) - depth) = Suc n"
        "nat (max_btree_depth (bt_limits t) - (depth + 1)) = n"
        by (cases "nat (max_btree_depth (bt_limits t) - depth)") (auto simp: tree_at_def)
      show ?thesis
      proof (cases "?p = 0")
        case True
        then show ?thesis using False es child pt n keys
          by (simp add: BTree_find_loop.simps [of t key ref depth] found_def Let_def)
      next
        case nz: False
        let ?kid = "kids ! (?p - 1)"
        have i: "?p - 1 < length es" using nz p_le by simp
        have kid: "tree_at t (ie_ref (es ! (?p - 1))) (depth + 1) ?kid"
          using kids i by (simp add: list_all2_conv_all_nth)
        have "concat (map ptr_offsets kids) =
            concat (map ptr_offsets (take (?p - 1) kids)) @ ptr_offsets ?kid @ concat (map ptr_offsets (drop ?p kids))"
          using id_take_nth_drop [of "?p - 1" kids] i len nz
          by (metis (no_types, lifting) Suc_pred' bot_nat_0.not_eq_extremum concat.simps(2) concat_append list.simps(9) map_append)
        moreover have "\<exists>v'. vs.visit_all v1 (concat (map ptr_offsets kids)) = Inr v'"
          using 1(4) pt pt_page add len by (simp add: ks map_snd_zip_conv)
        ultimately have visit: "\<exists>v'. vs.visit_all v1 (ptr_offsets ?kid) = Inr v'"
          using vs.visit_all_part by metis
        have "fst (BTree_find_loop t key ref depth visited cache) =
            fst (BTree_find_loop t key (ie_ref (es ! (?p - 1))) (depth + 1) v1 cache')"
          using False es child nz by (simp add: BTree_find_loop.simps [of t key ref depth])
        also have "\<dots> = found (st_find bisect_right leaf_key key n (ptr_stree ?kid))"
          using 1(1) [OF child [symmetric] refl refl False es refl nz keeps kid visit] n by simp
        also have "st_find bisect_right leaf_key key n (ptr_stree ?kid) =
            st_find bisect_right leaf_key key (Suc n) (ptr_stree pt)"
          using False pt nz keys p_le len i by (simp add: Let_def ks)
        finally show ?thesis using n by simp
      qed
    qed
  qed
qed

section \<open>Listing and looking up agree\<close>

text \<open>The leaf entries of the pages of a tree are the entries of the search tree it stands for.\<close>

lemma concat_kids:
  "\<forall>(k, t) \<in> set ks. f t = concat (map g (filter P (h t))) \<Longrightarrow>
   concat (map (\<lambda>(k, t). f t) ks) = concat (map g (filter P (concat (map (\<lambda>(k, t). h t) ks))))"
  by (induction ks) auto

lemma ptr_stree_entries:
  "tree_at t ref depth pt \<Longrightarrow>
   st_entries (ptr_stree pt) = concat (map page_leaves (filter bp_is_leaf (ptr_pages pt)))"
proof (induction pt arbitrary: ref depth)
  case (PTree at pg ks)
  have depth: "depth \<le> max_btree_depth (bt_limits t)" using PTree.prems by (simp add: tree_at_def)
  have read: "BTree_read t ref = Inr pg"
    using PTree.prems by (cases "nat (max_btree_depth (bt_limits t) - depth)")
      (auto simp: tree_at_def ebind_Inr_iff split: if_splits)
  show ?case
  proof (cases "bp_is_leaf pg")
    case True
    then show ?thesis using PTree.prems tree_at_leaf [OF read True, of depth] by simp
  next
    case False
    then obtain es where es: "intermediate_entries (bp_entries pg) = Inr es"
      using BTree_read_entries(2) [OF read] by blast
    obtain kids where kids: "list_all2 (\<lambda>e kid. tree_at t (ie_ref e) (depth + 1) kid) es kids"
      and ks: "ks = zip (map ie_key es) kids"
      using PTree.prems tree_at_inner [OF read False es depth, of "PTree at pg ks"] by auto
    have "st_entries (ptr_stree kid) = concat (map page_leaves (filter bp_is_leaf (ptr_pages kid)))"
      if mem: "(k, kid) \<in> set ks" for k kid
    proof -
      obtain i where "i < length es" "kid = kids ! i"
        using mem list_all2_lengthD [OF kids] by (auto simp: ks set_zip)
      then have "tree_at t (ie_ref (es ! i)) (depth + 1) kid" using kids by (simp add: list_all2_conv_all_nth)
      then show ?thesis using PTree.IH [OF mem] by simp
    qed
    then have "concat (map (\<lambda>(k, kid). st_entries (ptr_stree kid)) ks) =
        concat (map page_leaves (filter bp_is_leaf (concat (map (\<lambda>(k, kid). ptr_pages kid) ks))))"
      by (intro concat_kids) auto
    then show ?thesis using False by (simp add: comp_def case_prod_unfold)
  qed
qed

lemma leaf_scan_ok:
  "leaf_scan count limits pages err = (es, None) \<Longrightarrow>
     err = None \<and> es = concat (map page_leaves (filter bp_is_leaf pages))"
  by (induction count limits pages err arbitrary: es rule: leaf_scan.induct)
     (auto simp: Let_def page_leaves_def ebind_Inr_iff split: if_splits sum.splits prod.splits)

definition btree_ordered :: "btree \<Rightarrow> bool" where
  "btree_ordered t \<longleftrightarrow>
     (\<exists>pt lo hi. load_tree t (nat (max_btree_depth (bt_limits t))) (bt_root t) = Inr pt \<and>
        st_ordered leaf_key lo hi (ptr_stree pt))"

lemma ptr_stree_depth: "load_tree t n ref = Inr pt \<Longrightarrow> st_depth (ptr_stree pt) \<le> n"
proof (induction n arbitrary: ref pt)
  case 0
  then show ?case by (auto simp: ebind_Inr_iff split: if_splits)
next
  case (Suc n)
  then obtain page where read: "BTree_read t ref = Inr page" by (auto simp: ebind_Inr_iff)
  show ?case
  proof (cases "bp_is_leaf page")
    case True
    with Suc.prems read show ?thesis by auto
  next
    case False
    then obtain es where es: "intermediate_entries (bp_entries page) = Inr es"
      using BTree_read_entries(2) [OF read] by blast
    then obtain kids where kids: "emap (\<lambda>e. load_tree t n (ie_ref e)) es = Inr kids"
      and pt: "pt = PTree (page_at ref) page (zip (map ie_key es) kids)"
      using Suc.prems read False by (auto simp: ebind_Inr_iff)
    have "st_depth (ptr_stree kid) \<le> n" if "(k, kid) \<in> set (zip (map ie_key es) kids)" for k kid
      using emap_set [OF kids, of kid] set_zip_rightD [OF that] Suc.IH by blast
    then have "st_depth (SNode (map (\<lambda>(k, t). (k, ptr_stree t)) (zip (map ie_key es) kids))) \<le> Suc n"
      by (intro st_depth_le) auto
    then show ?thesis using False pt by simp
  qed
qed

text \<open>
  If a tree can be listed and its keys are in order, looking a key up finds the first entry of the
  list with that key, and nothing if there is none.
\<close>

theorem BTree_find_listed:
  assumes cache: "cache_ok t c" "cache_ok t c'"
    and listed: "fst (BTree_leaf_entries t c) = (es, None)" and ordered: "btree_ordered t"
  shows "fst (BTree_find t key c') = found (find (\<lambda>e. leaf_key e = key) es)"
proof -
  let ?m = "max_btree_depth (bt_limits t)"
  obtain pages err c1 where run: "BTree_pages t c = ((pages, err), c1)" by (metis surj_pair)
  with listed have scan: "leaf_scan 0 (bt_limits t) pages err = (es, None)"
    by (simp add: BTree_leaf_entries_def)
  from leaf_scan_ok [OF this] have err: "err = None"
    and es: "es = concat (map page_leaves (filter bp_is_leaf pages))" by simp_all
  have "fst (BTree_pages_loop t [(bt_root t, 0)] (new_visited (max_items (bt_limits t))) c) = (pages, None)"
    using run err by (simp add: BTree_pages_def)
  then obtain pts v' where trees: "stack_trees t [(bt_root t, 0)] pts"
    and visit: "vs.visit_all (new_visited (max_items (bt_limits t))) (offsets_of pts) = Inr v'"
    and pages: "pages = pages_of pts"
    unfolding BTree_pages_loop_iff [OF cache(1)] by blast
  then obtain pt where pt: "pts = [pt]" "tree_at t (bt_root t) 0 pt"
    by (auto simp: stack_trees_def list_all2_Cons1)
  have load: "load_tree t (nat ?m) (bt_root t) = Inr pt" using pt(2) by (simp add: tree_at_def)
  obtain lo hi where ord: "st_ordered leaf_key lo hi (ptr_stree pt)"
    using ordered load by (auto simp: btree_ordered_def)
  have "fst (BTree_find t key c') = found (st_find bisect_right leaf_key key (nat ?m) (ptr_stree pt))"
    unfolding BTree_find_def using BTree_find_loop_tree [OF cache(2) pt(2)] visit pt(1)
    by (simp add: offsets_of_def)
  also have "st_find bisect_right leaf_key key (nat ?m) (ptr_stree pt) =
      find (\<lambda>e. leaf_key e = key) (st_entries (ptr_stree pt))"
    by (rule bisect.find_entries [OF ord ptr_stree_depth [OF load]])
  also have "st_entries (ptr_stree pt) = es"
    using ptr_stree_entries [OF pt(2)] es pages pt(1) by (simp add: pages_of_def)
  finally show ?thesis .
qed

text \<open>The walk reads each page at most once, and no more pages than the caller's budget.\<close>

theorem BTree_pages_bounded:
  assumes "cache_ok t c" "fst (BTree_pages t c) = (pages, None)"
  shows "len pages \<le> max_items (bt_limits t)"
proof -
  obtain pts v' where trees: "stack_trees t [(bt_root t, 0)] pts"
    and visit: "vs.visit_all (new_visited (max_items (bt_limits t))) (offsets_of pts) = Inr v'"
    and pages: "pages = pages_of pts"
    using assms(2) unfolding BTree_pages_def BTree_pages_loop_iff [OF assms(1)] by blast
  have "length (ptr_pages pt) = length (ptr_offsets pt)" for pt
    by (induction pt) (simp add: length_concat comp_def case_prod_beta, rule arg_cong [where f = sum_list], force)
  then have "length pages = length (offsets_of pts)"
    by (simp add: pages pages_of_def offsets_of_def length_concat comp_def)
  moreover have "pages \<noteq> []" using trees pages
    by (auto simp: stack_trees_def list_all2_Cons1 pages_of_def) (metis ptr_pages.elims list.distinct(1))
  ultimately show ?thesis using vs.visit_all_facts [OF visit]
    by (auto simp: new_visited_def vs_len_def)
qed

section \<open>NodeBTree and BlockBTree\<close>

definition NodeBTree :: "bytes \<Rightarrow> page_ref \<Rightarrow> limits \<Rightarrow> btree" where
  "NodeBTree f root limits = \<lparr>bt_KIND = PT_NBT, bt_f = f, bt_root = root, bt_limits = limits\<rparr>"

definition BlockBTree :: "bytes \<Rightarrow> page_ref \<Rightarrow> limits \<Rightarrow> btree" where
  "BlockBTree f root limits = \<lparr>bt_KIND = PT_BBT, bt_f = f, bt_root = root, bt_limits = limits\<rparr>"

text \<open>\<open>find\<close> of a raw key; of an id it is of its \<open>raw\<close> and its \<open>search_key\<close>.\<close>

definition NodeBTree_find :: "btree \<Rightarrow> int \<Rightarrow> (page_cache, node_btree_entry) st" where
  "NodeBTree_find t key =
     sbind (BTree_find t key) (\<lambda>e.
     case e of NodeLeaf n \<Rightarrow> sret n | BlockLeaf b \<Rightarrow> slift (Inl AssertionError))"

definition BlockBTree_find :: "btree \<Rightarrow> int \<Rightarrow> (page_cache, block_btree_entry) st" where
  "BlockBTree_find t key =
     sbind (BTree_find t key) (\<lambda>e.
     case e of BlockLeaf b \<Rightarrow> sret b | NodeLeaf n \<Rightarrow> slift (Inl AssertionError))"

text \<open>What the layers above look up: the cache does not show.\<close>

definition node_lookup :: "btree \<Rightarrow> int \<Rightarrow> node_btree_entry result" where
  "node_lookup t key = fst (NodeBTree_find t key Map.empty)"

definition block_lookup :: "btree \<Rightarrow> int \<Rightarrow> block_btree_entry result" where
  "block_lookup t key = fst (BlockBTree_find t key Map.empty)"

lemma node_lookup_cache: "cache_ok t c \<Longrightarrow> fst (NodeBTree_find t key c) = node_lookup t key"
  using BTree_find_plain(1) [of t c key]
  by (cases "BTree_find t key c"; cases "BTree_find t key Map.empty")
     (auto simp: node_lookup_def NodeBTree_find_def sbind_def split: sum.splits leaf_entry.splits)

lemma block_lookup_cache: "cache_ok t c \<Longrightarrow> fst (BlockBTree_find t key c) = block_lookup t key"
  using BTree_find_plain(1) [of t c key]
  by (cases "BTree_find t key c"; cases "BTree_find t key Map.empty")
     (auto simp: block_lookup_def BlockBTree_find_def sbind_def split: sum.splits leaf_entry.splits)

lemma node_lookup_eq:
  "bt_KIND t = PT_NBT \<Longrightarrow> node_lookup t key = Inr n \<longleftrightarrow> btree_lookup t key = Inr (NodeLeaf n)"
  by (cases "BTree_find t key Map.empty")
     (auto simp: node_lookup_def btree_lookup_def NodeBTree_find_def sbind_def split: sum.splits leaf_entry.splits)

lemma block_lookup_eq:
  "bt_KIND t = PT_BBT \<Longrightarrow> block_lookup t key = Inr b \<longleftrightarrow> btree_lookup t key = Inr (BlockLeaf b)"
  by (cases "BTree_find t key Map.empty")
     (auto simp: block_lookup_def btree_lookup_def BlockBTree_find_def sbind_def split: sum.splits leaf_entry.splits)

lemma block_lookup_Inr: "bt_KIND t = PT_BBT \<Longrightarrow> block_lookup t key = Inr b \<Longrightarrow> bbe_key b = key"
  using btree_lookup_Inr [of t key] by (simp add: block_lookup_eq)

lemma node_lookup_Inr: "bt_KIND t = PT_NBT \<Longrightarrow> node_lookup t key = Inr n \<Longrightarrow> nbe_key n = key"
  using btree_lookup_Inr [of t key] by (simp add: node_lookup_eq)

lemma block_lookup_closed: "bt_KIND t = PT_BBT \<Longrightarrow> fails_closed (block_lookup t key)"
  using btree_lookup_closed [of t key] btree_lookup_Inr [of t key]
  by (cases "BTree_find t key Map.empty")
     (auto simp: block_lookup_def btree_lookup_def BlockBTree_find_def sbind_def leaf_of_kind_def
      split: sum.splits leaf_entry.splits)

lemma node_lookup_closed: "bt_KIND t = PT_NBT \<Longrightarrow> fails_closed (node_lookup t key)"
  using btree_lookup_closed [of t key] btree_lookup_Inr [of t key]
  by (cases "BTree_find t key Map.empty")
     (auto simp: node_lookup_def btree_lookup_def NodeBTree_find_def sbind_def leaf_of_kind_def
      split: sum.splits leaf_entry.splits)

section \<open>The density list\<close>

definition read_density_list :: "bytes \<Rightarrow> limits \<Rightarrow> density_list_page result" where
  "read_density_list f limits =
     ebind (read_page f DENSITY_LIST_INDEX limits) (\<lambda>page_bytes.
     DensityListPage_parse page_bytes DENSITY_LIST_INDEX)"

lemma read_density_list_closed [simp, intro]: "fails_closed (read_density_list f limits)"
  unfolding read_density_list_def by (intro fails_closed_ebind) auto

section \<open>Properties\<close>

subsection \<open>A tree to try the statements on\<close>

text \<open>A page written at an offset of the file is what the tree reads there.\<close>

lemma BTree_read_written:
  assumes store: "bt_f t = pre @ btree_page_bytes p (bt_KIND t) @ post" and at: "page_at ref = len pre"
    and fits: "len (bt_f t) \<le> max_file_size (bt_limits t)" and ok: "btree_page_ok p (bt_KIND t)"
    and keys: "case bp_entries p of Intermediates es \<Rightarrow> \<forall>e \<in> set es. ie_key e \<le> U32 | _ \<Rightarrow> True"
  shows "BTree_read t ref = Inr p"
proof -
  let ?pg = "btree_page_bytes p (bt_KIND t)"
  note parse = BTreePage_parse_bytes [OF ok, of "pr_index ref"]
  have len: "length ?pg = 512" using BTreePage_parse_facts(2) [OF parse] .
  have read: "read_page (bt_f t) (pr_index ref) (bt_limits t) = Inr ?pg"
    using store at fits len by (simp add: read_page_def Let_def file_read_def page_consts raise_if_def)
  have "BTree_check_intermediate t p = Inr ()" if inner: "\<not> bp_is_leaf p"
  proof -
    obtain es where "bp_entries p = Intermediates es"
      using inner ok by (cases "bp_entries p") (auto simp: btree_page_ok_def bp_is_leaf_def)
    then show ?thesis using keys by (auto simp: BTree_check_intermediate_def raise_if_def)
  qed
  then show ?thesis using read parse by (simp add: BTree_read_def)
qed

definition sample_inner :: btree_page where
  "sample_inner = seal_page
     \<lparr>bp_level = 1, bp_max_entries = 20, bp_entry_size = 24,
      bp_entries = Intermediates
        [\<lparr>ie_key = 0x21, ie_ref = \<lparr>pr_page = PageId 5, pr_index = ByteIndex 512\<rparr>\<rparr>,
         \<lparr>ie_key = 0x122, ie_ref = \<lparr>pr_page = PageId 6, pr_index = ByteIndex 1024\<rparr>\<rparr>],
      bp_trailer = sample_trailer PT_NBT\<rparr> PT_NBT"

lemma sample_inner_ok: "btree_page_ok sample_inner PT_NBT"
  unfolding sample_inner_def
  by (rule seal_page_ok)
     (auto simp: is_btree_type_def entry_type_size_def bp_page_type_def sample_trailer_def page_id_ok_def
      U64_def intermediate_entry_ok_def page_ref_ok_def byte_index_ok_def)

definition sample_tree :: btree where
  "sample_tree = NodeBTree
     (btree_page_bytes sample_inner PT_NBT @ btree_page_bytes (sample_leaf [0x21, 0x61]) PT_NBT @
      btree_page_bytes (sample_leaf [0x122, 0x142]) PT_NBT)
     \<lparr>pr_page = PageId 0x1C, pr_index = ByteIndex 0\<rparr> DEFAULT_LIMITS"

definition sample_ptree :: ptree where
  "sample_ptree = PTree 0 sample_inner
     [(0x21, PTree 512 (sample_leaf [0x21, 0x61]) []), (0x122, PTree 1024 (sample_leaf [0x122, 0x142]) [])]"

lemma sample_leaves_ok: "btree_page_ok (sample_leaf [0x21, 0x61]) PT_NBT" "btree_page_ok (sample_leaf [0x122, 0x142]) PT_NBT"
  by (rule sample_leaf_ok; auto simp: U32_def)+

lemma sample_pages_length:
  "length (btree_page_bytes sample_inner PT_NBT) = 512"
  "length (btree_page_bytes (sample_leaf [0x21, 0x61]) PT_NBT) = 512"
  "length (btree_page_bytes (sample_leaf [0x122, 0x142]) PT_NBT) = 512"
  using BTreePage_parse_facts(2) [OF BTreePage_parse_bytes] sample_inner_ok sample_leaves_ok by blast+

lemma sample_pages_simps [simp]:
  "bp_is_leaf sample_inner = False" "bp_is_leaf (sample_leaf nids) = True"
  "bp_entries sample_inner = Intermediates
        [\<lparr>ie_key = 0x21, ie_ref = \<lparr>pr_page = PageId 5, pr_index = ByteIndex 512\<rparr>\<rparr>,
         \<lparr>ie_key = 0x122, ie_ref = \<lparr>pr_page = PageId 6, pr_index = ByteIndex 1024\<rparr>\<rparr>]"
  "bp_entries (sample_leaf nids) = NodeEntries
     (map (\<lambda>n. \<lparr>nbe_node = NodeId n, nbe_data = BlockId (4 * n), nbe_sub_node = None, nbe_parent = None\<rparr>) nids)"
  by (simp_all add: sample_inner_def sample_leaf_def bp_is_leaf_def)

lemma sample_reads:
  "page_at ref = 0 \<Longrightarrow> BTree_read sample_tree ref = Inr sample_inner"
  "page_at ref = 512 \<Longrightarrow> BTree_read sample_tree ref = Inr (sample_leaf [0x21, 0x61])"
  "page_at ref = 1024 \<Longrightarrow> BTree_read sample_tree ref = Inr (sample_leaf [0x122, 0x142])"
proof -
  let ?A = "btree_page_bytes sample_inner PT_NBT" and ?B = "btree_page_bytes (sample_leaf [0x21, 0x61]) PT_NBT"
    and ?C = "btree_page_bytes (sample_leaf [0x122, 0x142]) PT_NBT"
  have store: "bt_f sample_tree = ?A @ ?B @ ?C" "bt_KIND sample_tree = PT_NBT" "bt_limits sample_tree = DEFAULT_LIMITS"
    by (simp_all add: sample_tree_def NodeBTree_def)
  have fits: "len (bt_f sample_tree) \<le> max_file_size (bt_limits sample_tree)"
    by (simp add: store sample_pages_length default_limits_simps)
  show "BTree_read sample_tree ref = Inr sample_inner" if "page_at ref = 0"
    using that store sample_inner_ok fits
    by (intro BTree_read_written [where pre = "[]" and post = "?B @ ?C"]) (simp_all add: U32_def)
  show "BTree_read sample_tree ref = Inr (sample_leaf [0x21, 0x61])" if "page_at ref = 512"
    using that store sample_leaves_ok fits sample_pages_length
    by (intro BTree_read_written [where pre = ?A and post = ?C]) simp_all
  show "BTree_read sample_tree ref = Inr (sample_leaf [0x122, 0x142])" if "page_at ref = 1024"
    using that store sample_leaves_ok fits sample_pages_length
    by (intro BTree_read_written [where pre = "?A @ ?B" and post = "[]"]) simp_all
qed

lemma sample_load: "load_tree sample_tree 8 (bt_root sample_tree) = Inr sample_ptree"
proof -
  have root: "page_at (bt_root sample_tree) = 0" by (simp add: sample_tree_def NodeBTree_def)
  have n: "8 = Suc 7" by simp
  show ?thesis unfolding n load_tree.simps
    by (simp add: root sample_reads load_tree_leaf sample_ptree_def)
qed

lemma sample_limits: "max_btree_depth (bt_limits sample_tree) = 8" "max_items (bt_limits sample_tree) = 2 ^ 27"
  by (simp_all add: sample_tree_def NodeBTree_def default_limits_simps)

lemma sample_ordered: "btree_ordered sample_tree"
proof -
  have "st_ordered leaf_key 0 0x1000 (ptr_stree sample_ptree)"
    by (simp add: sample_ptree_def page_leaves_def nbe_key_def)
  then show ?thesis using sample_load unfolding btree_ordered_def sample_limits by auto
qed

definition sample_entries :: "leaf_entry list" where
  "sample_entries = page_leaves (sample_leaf [0x21, 0x61]) @ page_leaves (sample_leaf [0x122, 0x142])"

lemma sample_walk: "fst (BTree_pages sample_tree Map.empty) = (ptr_pages sample_ptree, None)"
proof -
  have "tree_at sample_tree (bt_root sample_tree) 0 sample_ptree"
    using sample_load by (simp add: tree_at_def sample_limits)
  then have trees: "stack_trees sample_tree [(bt_root sample_tree, 0)] [sample_ptree]"
    by (simp add: stack_trees_def)
  have "\<exists>v'. vs.visit_all (new_visited (max_items (bt_limits sample_tree))) (offsets_of [sample_ptree]) = Inr v'"
    unfolding visit_new_iff by (simp add: offsets_of_def sample_ptree_def sample_limits)
  with trees show ?thesis
    unfolding BTree_pages_def BTree_pages_loop_iff [OF cache_ok_empty] by (auto simp: pages_of_def)
qed

lemma sample_list: "fst (BTree_leaf_entries sample_tree Map.empty) = (sample_entries, None)"
proof -
  obtain c where run: "BTree_pages sample_tree Map.empty = ((ptr_pages sample_ptree, None), c)"
    using sample_walk by (cases "BTree_pages sample_tree Map.empty") auto
  have "leaf_scan 0 (bt_limits sample_tree) (ptr_pages sample_ptree) None = (sample_entries, None)"
    by (simp add: sample_ptree_def sample_limits check_ok sample_entries_def page_leaves_def Let_def)
  then show ?thesis by (simp add: BTree_leaf_entries_def run)
qed

subsection \<open>Claims\<close>

text \<open>C3: a lookup through the B-tree answers what the listing of the same tree says. When a tree can be
  listed and its keys are in order, \<open>find\<close> returns the first listed entry with the key, and
  \<open>PstNotFoundError\<close> when there is none, whatever the cache has kept from earlier lookups.\<close>

theorem BTree_find_agrees_with_listing:
  assumes "cache_ok t c" "cache_ok t c'" "fst (BTree_leaf_entries t c) = (es, None)" "btree_ordered t"
  shows "fst (BTree_find t key c') =
    (case find (\<lambda>e. leaf_key e = key) es of None \<Rightarrow> Inl PstNotFoundError | Some e \<Rightarrow> Inr e)"
  using BTree_find_listed [OF assms] by (simp add: found_def)

theorem BTree_find_agrees_witness:
  "(\<exists>e. fst (BTree_find sample_tree 0x122 Map.empty) = Inr e \<and> leaf_key e = 0x122) \<and>
   fst (BTree_find sample_tree 0x123 Map.empty) = Inl PstNotFoundError"
  using BTree_find_agrees_with_listing
      [OF cache_ok_empty cache_ok_empty sample_list sample_ordered, of "0x122"]
    BTree_find_agrees_with_listing
      [OF cache_ok_empty cache_ok_empty sample_list sample_ordered, of "0x123"]
  by (simp add: sample_entries_def page_leaves_def nbe_key_def)

text \<open>C11: whatever the file holds, a lookup ends (the loop is total), raises only a PstError (no assertion
  of the source can fail), and an entry it returns is of the tree's kind and has the key asked for; a
  cache of pages it has read before never changes its answer, and stays such a cache.\<close>

theorem BTree_find_sound:
  assumes "cache_ok t c"
  shows "(case fst (BTree_find t key c) of
            Inl e \<Rightarrow> is_pst_error e
          | Inr e \<Rightarrow> leaf_key e = key \<and> leaf_of_kind (bt_KIND t) e) \<and>
         fst (BTree_find t key c) = fst (BTree_find t key Map.empty) \<and> cache_ok t (snd (BTree_find t key c))"
proof (intro conjI BTree_find_plain [OF assms])
  show "case fst (BTree_find t key c) of
      Inl e \<Rightarrow> is_pst_error e
    | Inr e \<Rightarrow> leaf_key e = key \<and> leaf_of_kind (bt_KIND t) e"
    unfolding BTree_find_def by (rule BTree_find_loop_result [OF assms])
qed

theorem BTree_find_sound_witness: "cache_ok sample_tree (snd (BTree_find sample_tree 0x61 Map.empty))"
  using BTree_find_sound [where t = sample_tree and c = Map.empty and key = "0x61"] by simp

text \<open>C4: the bounded, iterative walk is the pre-order of the tree of pages: it ends without an exception
  exactly when the tree loads within the depth limit, no page is reached twice and there are no more
  pages than \<open>max_items\<close>, and it then yields each page once, in pre-order.\<close>

theorem BTree_walk_preorder:
  assumes "cache_ok t c" "0 \<le> max_btree_depth (bt_limits t)"
  shows "fst (BTree_pages t c) = (ps, None) \<longleftrightarrow>
    (\<exists>pt. load_tree t (nat (max_btree_depth (bt_limits t))) (bt_root t) = Inr pt \<and>
       distinct (ptr_offsets pt) \<and> len (ptr_offsets pt) \<le> max_items (bt_limits t) \<and> ps = ptr_pages pt)"
proof -
  have single: "stack_trees t [(bt_root t, 0)] pts \<longleftrightarrow>
      (\<exists>pt. pts = [pt] \<and> load_tree t (nat (max_btree_depth (bt_limits t))) (bt_root t) = Inr pt)" for pts
    using assms(2) by (auto simp: stack_trees_def list_all2_Cons1 tree_at_def)
  have visit: "(\<exists>v'. vs.visit_all (new_visited n) (offsets_of [pt]) = Inr v') \<longleftrightarrow>
      distinct (ptr_offsets pt) \<and> len (ptr_offsets pt) \<le> n" for n pt
    unfolding visit_new_iff by (cases pt) (auto simp: offsets_of_def)
  have "fst (BTree_pages t c) = (ps, None) \<longleftrightarrow>
      (\<exists>pt. load_tree t (nat (max_btree_depth (bt_limits t))) (bt_root t) = Inr pt \<and>
         (\<exists>v'. vs.visit_all (new_visited (max_items (bt_limits t))) (offsets_of [pt]) = Inr v') \<and>
         ps = pages_of [pt])"
    unfolding BTree_pages_def BTree_pages_loop_iff [OF assms(1)] single by blast
  then show ?thesis unfolding visit by (simp add: pages_of_def)
qed

theorem BTree_walk_preorder_witness:
  "fst (BTree_pages sample_tree Map.empty) =
     ([sample_inner, sample_leaf [0x21, 0x61], sample_leaf [0x122, 0x142]], None)"
proof -
  have depth: "0 \<le> max_btree_depth (bt_limits sample_tree)" by (simp add: sample_limits)
  show ?thesis
    unfolding BTree_walk_preorder [OF cache_ok_empty depth]
    using sample_load by (simp add: sample_limits sample_ptree_def)
qed

end
