(* ===== verification/Pst_Encode.thy ===== *)
theory Pst_Encode
  imports Pst_Crc
begin

text \<open>
  \<open>src/pypstreader/_tables.py\<close> and \<open>src/pypstreader/encode.py\<close>: the 768 published bytes, the
  permutative and the cyclic transform, and the dispatch on the header's method. The lemmas show that
  the first and third tables are inverse permutations and the second an involution, hence that
  permutative decoding inverts encoding and that the cyclic transform is its own inverse for every
  key.
\<close>

section \<open>The tables\<close>

definition KEY_DATA :: bytes where
  "KEY_DATA =
   [65, 54, 19, 98, 168, 33, 110, 187, 244, 22, 204, 4, 127, 100, 232, 93,
    30, 242, 203, 42, 116, 197, 94, 53, 210, 149, 71, 158, 150, 45, 154, 136,
    76, 125, 132, 63, 219, 172, 49, 182, 72, 95, 246, 196, 216, 57, 139, 231,
    35, 59, 56, 142, 200, 193, 223, 37, 177, 32, 165, 70, 96, 78, 156, 251,
    170, 211, 86, 81, 69, 124, 85, 0, 7, 201, 43, 157, 133, 155, 9, 160,
    143, 173, 179, 15, 99, 171, 137, 75, 215, 167, 21, 90, 113, 102, 66, 191,
    38, 74, 107, 152, 250, 234, 119, 83, 178, 112, 5, 44, 253, 89, 58, 134,
    126, 206, 6, 235, 130, 120, 87, 199, 141, 67, 175, 180, 28, 212, 91, 205,
    226, 233, 39, 79, 195, 8, 114, 128, 207, 176, 239, 245, 40, 109, 190, 48,
    77, 52, 146, 213, 14, 60, 34, 50, 229, 228, 249, 159, 194, 209, 10, 129,
    18, 225, 238, 145, 131, 118, 227, 151, 230, 97, 138, 23, 121, 164, 183, 220,
    144, 122, 92, 140, 2, 166, 202, 105, 222, 80, 26, 17, 147, 185, 82, 135,
    88, 252, 237, 29, 55, 73, 27, 106, 224, 41, 51, 153, 189, 108, 217, 148,
    243, 64, 84, 111, 240, 198, 115, 184, 214, 62, 101, 24, 68, 31, 221, 103,
    16, 241, 12, 25, 236, 174, 3, 161, 20, 123, 169, 11, 255, 248, 163, 192,
    162, 1, 247, 46, 188, 36, 104, 117, 13, 254, 186, 47, 181, 208, 218, 61,
    20, 83, 15, 86, 179, 200, 122, 156, 235, 101, 72, 23, 22, 21, 159, 2,
    204, 84, 124, 131, 0, 13, 12, 11, 162, 98, 168, 118, 219, 217, 237, 199,
    197, 164, 220, 172, 133, 116, 214, 208, 167, 155, 174, 154, 150, 113, 102, 195,
    99, 153, 184, 221, 115, 146, 142, 132, 125, 165, 94, 209, 93, 147, 177, 87,
    81, 80, 128, 137, 82, 148, 79, 78, 10, 107, 188, 141, 127, 110, 71, 70,
    65, 64, 68, 1, 17, 203, 3, 63, 247, 244, 225, 169, 143, 60, 58, 249,
    251, 240, 25, 48, 130, 9, 46, 201, 157, 160, 134, 73, 238, 111, 77, 109,
    196, 45, 129, 52, 37, 135, 27, 136, 170, 252, 6, 161, 18, 56, 253, 76,
    66, 114, 100, 19, 55, 36, 106, 117, 119, 67, 255, 230, 180, 75, 54, 92,
    228, 216, 53, 61, 69, 185, 44, 236, 183, 49, 43, 41, 7, 104, 163, 14,
    105, 123, 24, 158, 33, 57, 190, 40, 26, 91, 120, 245, 35, 202, 42, 176,
    175, 62, 254, 4, 140, 231, 229, 152, 50, 149, 211, 246, 74, 232, 166, 234,
    233, 243, 213, 47, 112, 32, 242, 31, 5, 103, 173, 85, 16, 206, 205, 227,
    39, 59, 218, 186, 215, 194, 38, 212, 145, 29, 210, 28, 34, 51, 248, 250,
    241, 90, 239, 207, 144, 182, 139, 181, 189, 192, 191, 8, 151, 30, 108, 226,
    97, 224, 198, 193, 89, 171, 187, 88, 222, 95, 223, 96, 121, 126, 178, 138,
    71, 241, 180, 230, 11, 106, 114, 72, 133, 78, 158, 235, 226, 248, 148, 83,
    224, 187, 160, 2, 232, 90, 9, 171, 219, 227, 186, 198, 124, 195, 16, 221,
    57, 5, 150, 48, 245, 55, 96, 130, 140, 201, 19, 74, 107, 29, 243, 251,
    143, 38, 151, 202, 145, 23, 1, 196, 50, 45, 110, 49, 149, 255, 217, 35,
    209, 0, 94, 121, 220, 68, 59, 26, 40, 197, 97, 87, 32, 144, 61, 131,
    185, 67, 190, 103, 210, 70, 66, 118, 192, 109, 91, 126, 178, 15, 22, 41,
    60, 169, 3, 84, 13, 218, 93, 223, 246, 183, 199, 98, 205, 141, 6, 211,
    105, 92, 134, 214, 20, 247, 165, 102, 117, 172, 177, 233, 69, 33, 112, 12,
    135, 159, 116, 164, 34, 76, 111, 191, 31, 86, 170, 46, 179, 120, 51, 80,
    176, 163, 146, 188, 207, 25, 28, 167, 99, 203, 30, 77, 62, 75, 27, 155,
    79, 231, 240, 238, 173, 58, 181, 89, 4, 234, 64, 85, 37, 81, 229, 122,
    137, 56, 104, 82, 123, 252, 39, 174, 215, 189, 250, 7, 244, 204, 142, 95,
    239, 53, 156, 132, 43, 21, 213, 119, 52, 73, 182, 18, 10, 127, 113, 136,
    253, 157, 24, 65, 125, 147, 216, 88, 44, 206, 254, 36, 175, 222, 184, 54,
    200, 161, 128, 166, 153, 152, 168, 47, 14, 129, 101, 115, 228, 194, 162, 138,
    212, 225, 17, 208, 8, 139, 42, 242, 237, 154, 100, 63, 193, 108, 249, 236]"

definition KEY_DATA_R :: bytes where "KEY_DATA_R = slice KEY_DATA 0 256"
definition KEY_DATA_S :: bytes where "KEY_DATA_S = slice KEY_DATA 256 512"
definition KEY_DATA_I :: bytes where "KEY_DATA_I = slice KEY_DATA 512 768"

lemma KEY_DATA_R_eq: "KEY_DATA_R =
   [65, 54, 19, 98, 168, 33, 110, 187, 244, 22, 204, 4, 127, 100, 232, 93,
    30, 242, 203, 42, 116, 197, 94, 53, 210, 149, 71, 158, 150, 45, 154, 136,
    76, 125, 132, 63, 219, 172, 49, 182, 72, 95, 246, 196, 216, 57, 139, 231,
    35, 59, 56, 142, 200, 193, 223, 37, 177, 32, 165, 70, 96, 78, 156, 251,
    170, 211, 86, 81, 69, 124, 85, 0, 7, 201, 43, 157, 133, 155, 9, 160,
    143, 173, 179, 15, 99, 171, 137, 75, 215, 167, 21, 90, 113, 102, 66, 191,
    38, 74, 107, 152, 250, 234, 119, 83, 178, 112, 5, 44, 253, 89, 58, 134,
    126, 206, 6, 235, 130, 120, 87, 199, 141, 67, 175, 180, 28, 212, 91, 205,
    226, 233, 39, 79, 195, 8, 114, 128, 207, 176, 239, 245, 40, 109, 190, 48,
    77, 52, 146, 213, 14, 60, 34, 50, 229, 228, 249, 159, 194, 209, 10, 129,
    18, 225, 238, 145, 131, 118, 227, 151, 230, 97, 138, 23, 121, 164, 183, 220,
    144, 122, 92, 140, 2, 166, 202, 105, 222, 80, 26, 17, 147, 185, 82, 135,
    88, 252, 237, 29, 55, 73, 27, 106, 224, 41, 51, 153, 189, 108, 217, 148,
    243, 64, 84, 111, 240, 198, 115, 184, 214, 62, 101, 24, 68, 31, 221, 103,
    16, 241, 12, 25, 236, 174, 3, 161, 20, 123, 169, 11, 255, 248, 163, 192,
    162, 1, 247, 46, 188, 36, 104, 117, 13, 254, 186, 47, 181, 208, 218, 61]"
  by (simp add: KEY_DATA_R_def KEY_DATA_def slice_def)

lemma KEY_DATA_S_eq: "KEY_DATA_S =
   [20, 83, 15, 86, 179, 200, 122, 156, 235, 101, 72, 23, 22, 21, 159, 2,
    204, 84, 124, 131, 0, 13, 12, 11, 162, 98, 168, 118, 219, 217, 237, 199,
    197, 164, 220, 172, 133, 116, 214, 208, 167, 155, 174, 154, 150, 113, 102, 195,
    99, 153, 184, 221, 115, 146, 142, 132, 125, 165, 94, 209, 93, 147, 177, 87,
    81, 80, 128, 137, 82, 148, 79, 78, 10, 107, 188, 141, 127, 110, 71, 70,
    65, 64, 68, 1, 17, 203, 3, 63, 247, 244, 225, 169, 143, 60, 58, 249,
    251, 240, 25, 48, 130, 9, 46, 201, 157, 160, 134, 73, 238, 111, 77, 109,
    196, 45, 129, 52, 37, 135, 27, 136, 170, 252, 6, 161, 18, 56, 253, 76,
    66, 114, 100, 19, 55, 36, 106, 117, 119, 67, 255, 230, 180, 75, 54, 92,
    228, 216, 53, 61, 69, 185, 44, 236, 183, 49, 43, 41, 7, 104, 163, 14,
    105, 123, 24, 158, 33, 57, 190, 40, 26, 91, 120, 245, 35, 202, 42, 176,
    175, 62, 254, 4, 140, 231, 229, 152, 50, 149, 211, 246, 74, 232, 166, 234,
    233, 243, 213, 47, 112, 32, 242, 31, 5, 103, 173, 85, 16, 206, 205, 227,
    39, 59, 218, 186, 215, 194, 38, 212, 145, 29, 210, 28, 34, 51, 248, 250,
    241, 90, 239, 207, 144, 182, 139, 181, 189, 192, 191, 8, 151, 30, 108, 226,
    97, 224, 198, 193, 89, 171, 187, 88, 222, 95, 223, 96, 121, 126, 178, 138]"
  by (simp add: KEY_DATA_S_def KEY_DATA_def slice_def)

lemma KEY_DATA_I_eq: "KEY_DATA_I =
   [71, 241, 180, 230, 11, 106, 114, 72, 133, 78, 158, 235, 226, 248, 148, 83,
    224, 187, 160, 2, 232, 90, 9, 171, 219, 227, 186, 198, 124, 195, 16, 221,
    57, 5, 150, 48, 245, 55, 96, 130, 140, 201, 19, 74, 107, 29, 243, 251,
    143, 38, 151, 202, 145, 23, 1, 196, 50, 45, 110, 49, 149, 255, 217, 35,
    209, 0, 94, 121, 220, 68, 59, 26, 40, 197, 97, 87, 32, 144, 61, 131,
    185, 67, 190, 103, 210, 70, 66, 118, 192, 109, 91, 126, 178, 15, 22, 41,
    60, 169, 3, 84, 13, 218, 93, 223, 246, 183, 199, 98, 205, 141, 6, 211,
    105, 92, 134, 214, 20, 247, 165, 102, 117, 172, 177, 233, 69, 33, 112, 12,
    135, 159, 116, 164, 34, 76, 111, 191, 31, 86, 170, 46, 179, 120, 51, 80,
    176, 163, 146, 188, 207, 25, 28, 167, 99, 203, 30, 77, 62, 75, 27, 155,
    79, 231, 240, 238, 173, 58, 181, 89, 4, 234, 64, 85, 37, 81, 229, 122,
    137, 56, 104, 82, 123, 252, 39, 174, 215, 189, 250, 7, 244, 204, 142, 95,
    239, 53, 156, 132, 43, 21, 213, 119, 52, 73, 182, 18, 10, 127, 113, 136,
    253, 157, 24, 65, 125, 147, 216, 88, 44, 206, 254, 36, 175, 222, 184, 54,
    200, 161, 128, 166, 153, 152, 168, 47, 14, 129, 101, 115, 228, 194, 162, 138,
    212, 225, 17, 208, 8, 139, 42, 242, 237, 154, 100, 63, 193, 108, 249, 236]"
  by (simp add: KEY_DATA_I_def KEY_DATA_def slice_def)

text \<open>\<open>table[b]\<close> for a byte.\<close>

definition look :: "bytes \<Rightarrow> byte \<Rightarrow> byte" where
  "look table b = table ! unat b"

lemma tables_length:
  "length KEY_DATA_R = 256" "length KEY_DATA_S = 256" "length KEY_DATA_I = 256"
  by (simp_all add: KEY_DATA_R_eq KEY_DATA_S_eq KEY_DATA_I_eq)

text \<open>
  The table facts, evaluated once: \<open>I\<close> undoes \<open>R\<close>, \<open>R\<close> undoes \<open>I\<close> and \<open>S\<close> undoes itself at each of
  the 256 byte values.
\<close>

lemma map_look_all:
  assumes "map f table = map word_of_nat [0..<256]" "length table = 256"
  shows "f (look table b) = b"
proof -
  have bound: "unat b < 256" by (rule unat_byte_bound)
  then have "map f table ! unat b = map word_of_nat [0..<256] ! unat b"
    using assms(1) by simp
  with bound assms(2) show ?thesis by (simp add: look_def)
qed

lemma look_I_R: "look KEY_DATA_I (look KEY_DATA_R b) = b"
proof (rule map_look_all)
  show "map (look KEY_DATA_I) KEY_DATA_R = map word_of_nat [0..<256]"
    unfolding KEY_DATA_R_eq KEY_DATA_I_eq look_def by code_simp
qed (rule tables_length)

lemma look_R_I: "look KEY_DATA_R (look KEY_DATA_I b) = b"
proof (rule map_look_all)
  show "map (look KEY_DATA_R) KEY_DATA_I = map word_of_nat [0..<256]"
    unfolding KEY_DATA_R_eq KEY_DATA_I_eq look_def by code_simp
qed (rule tables_length)

lemma look_S_S: "look KEY_DATA_S (look KEY_DATA_S b) = b"
proof (rule map_look_all)
  show "map (look KEY_DATA_S) KEY_DATA_S = map word_of_nat [0..<256]"
    unfolding KEY_DATA_S_eq look_def by code_simp
qed (rule tables_length)

section \<open>CryptMethod\<close>

datatype crypt_method = CRYPT_NONE | CRYPT_PERMUTE | CRYPT_CYCLIC

fun crypt_value :: "crypt_method \<Rightarrow> int" where
  "crypt_value CRYPT_NONE = 0"
| "crypt_value CRYPT_PERMUTE = 1"
| "crypt_value CRYPT_CYCLIC = 2"

text \<open>\<open>CryptMethod(raw)\<close>: a \<open>ValueError\<close> outside the enumeration.\<close>

definition crypt_of_value :: "int \<Rightarrow> crypt_method result" where
  "crypt_of_value = enum_of crypt_value [CRYPT_NONE, CRYPT_PERMUTE, CRYPT_CYCLIC]"

interpretation crypt_enum: int_enum crypt_value "[CRYPT_NONE, CRYPT_PERMUTE, CRYPT_CYCLIC]"
proof
  show "m \<in> set [CRYPT_NONE, CRYPT_PERMUTE, CRYPT_CYCLIC]" for m by (cases m) auto
  show "crypt_value m = crypt_value m' \<Longrightarrow> m = m'" for m m' by (cases m; cases m') auto
qed

section \<open>The permutative transform\<close>

text \<open>\<open>bytes.translate(table)\<close>.\<close>

definition translate :: "bytes \<Rightarrow> bytes \<Rightarrow> bytes" where
  "translate data table = map (look table) data"

definition decode_permute :: "bytes \<Rightarrow> bytes" where
  "decode_permute data = translate data KEY_DATA_I"

definition encode_permute :: "bytes \<Rightarrow> bytes" where
  "encode_permute data = translate data KEY_DATA_R"

lemma decode_encode_permute: "decode_permute (encode_permute data) = data"
  by (simp add: decode_permute_def encode_permute_def translate_def o_def look_I_R)

lemma encode_decode_permute: "encode_permute (decode_permute data) = data"
  by (simp add: decode_permute_def encode_permute_def translate_def o_def look_R_I)

section \<open>The cyclic transform\<close>

text \<open>One byte under the running key; byte arithmetic wraps, as \<open>& 0xFF\<close> makes it.\<close>

definition cyclic_byte :: "int \<Rightarrow> byte \<Rightarrow> byte" where
  "cyclic_byte k b =
     (let low = word_of_int (k AND 0xFF);
          high = word_of_int (drop_bit 8 k AND 0xFF)
      in look KEY_DATA_I (look KEY_DATA_S (look KEY_DATA_R (b + low) + high) - high) - low)"

fun cyclic_loop :: "int \<Rightarrow> bytes \<Rightarrow> bytes" where
  "cyclic_loop k [] = []"
| "cyclic_loop k (b # bs) = cyclic_byte k b # cyclic_loop ((k + 1) AND 0xFFFF) bs"

definition encode_decode_cyclic :: "bytes \<Rightarrow> int \<Rightarrow> bytes result" where
  "encode_decode_cyclic data key =
     (if key < 0 then Inl ValueError
      else Inr (cyclic_loop ((key XOR drop_bit 16 key) AND 0xFFFF) data))"

lemma cyclic_byte_involution: "cyclic_byte k (cyclic_byte k b) = b"
  by (simp add: cyclic_byte_def Let_def look_R_I look_S_S look_I_R)

lemma cyclic_loop_involution: "cyclic_loop k (cyclic_loop k data) = data"
  by (induction data arbitrary: k) (auto simp: cyclic_byte_involution)

lemma length_cyclic_loop [simp]: "length (cyclic_loop k data) = length data"
  by (induction data arbitrary: k) auto

section \<open>decode_block\<close>

definition decode_block :: "bytes \<Rightarrow> int \<Rightarrow> int \<Rightarrow> bytes result" where
  "decode_block data crypt key =
     (if crypt = crypt_value CRYPT_NONE then Inr data
      else if crypt = crypt_value CRYPT_PERMUTE then Inr (decode_permute data)
      else if crypt = crypt_value CRYPT_CYCLIC then encode_decode_cyclic data key
      else Inl ValueError)"

text \<open>
  The writer's side of the three methods, for statements about what a store holds: not part of
  the source, which only reads.
\<close>

fun encode_block :: "bytes \<Rightarrow> crypt_method \<Rightarrow> int \<Rightarrow> bytes" where
  "encode_block data CRYPT_NONE key = data"
| "encode_block data CRYPT_PERMUTE key = encode_permute data"
| "encode_block data CRYPT_CYCLIC key = cyclic_loop ((key XOR drop_bit 16 key) AND 0xFFFF) data"

lemma decode_encode_block: "0 \<le> key \<Longrightarrow> decode_block (encode_block data m key) (crypt_value m) key = Inr data"
  by (cases m)
     (auto simp: decode_block_def decode_encode_permute encode_decode_cyclic_def cyclic_loop_involution)

lemma decode_block_ok: "0 \<le> key \<Longrightarrow> \<exists>out. decode_block data (crypt_value m) key = Inr out \<and> length out = length data"
  by (cases m) (auto simp: decode_block_def decode_permute_def translate_def encode_decode_cyclic_def)

lemma length_encode_block [simp]: "length (encode_block data m key) = length data"
  by (cases m) (auto simp: encode_permute_def translate_def)

section \<open>Properties\<close>

text \<open>Decoding undoes encoding under each of the three methods and every non-negative key, as
  \<open>decode_block\<close> dispatches on the header's \<open>bCryptMethod\<close>.\<close>

theorem decode_block_encode:
  assumes "0 \<le> key"
  shows "decode_block (encode_block data m key) (crypt_value m) key = Inr data"
  using assms by (rule decode_encode_block)

text \<open>The cyclic transform is its own inverse for every key that does not raise, and the two
  permutations undo each other.\<close>

theorem cyclic_self_inverse:
  assumes "encode_decode_cyclic data key = Inr out"
  shows "encode_decode_cyclic out key = Inr data \<and> length out = length data \<and>
         decode_permute (encode_permute data) = data \<and> encode_permute (decode_permute data) = data"
  using assms
  by (auto simp: encode_decode_cyclic_def cyclic_loop_involution decode_encode_permute encode_decode_permute
      split: if_splits)

end
