(* ===== verification/Pst_Header.thy ===== *)
theory Pst_Header
  imports Pst_Encode Pst_Ids
begin

unbundle bit_operations_syntax

text \<open>
  \<open>src/pypstreader/ndb/root.py\<close> and \<open>src/pypstreader/ndb/header.py\<close>: the ROOT structure and the 564
  bytes at offset 0, with every check of \<open>Header.parse\<close> in the source's order. \<open>header_bytes\<close> is the
  writer's side, used only in statements: the header of a store, with any content in the fields the
  source reads and ignores.
\<close>

section \<open>ROOT\<close>

definition ROOT_FORMAT :: fmt where
  "ROOT_FORMAT = [4, 8, 8, 8, 8, 8, 8, 8, 8, 1, 1, 2]"

definition ROOT_SIZE :: int where "ROOT_SIZE = calcsize ROOT_FORMAT"

datatype amap_status = AMAP_INVALID | AMAP_VALID1 | AMAP_VALID2

fun amap_value :: "amap_status \<Rightarrow> int" where
  "amap_value AMAP_INVALID = 0"
| "amap_value AMAP_VALID1 = 1"
| "amap_value AMAP_VALID2 = 2"

definition amap_of_value :: "int \<Rightarrow> amap_status result" where
  "amap_of_value = enum_of amap_value [AMAP_INVALID, AMAP_VALID1, AMAP_VALID2]"

interpretation amap_enum: int_enum amap_value "[AMAP_INVALID, AMAP_VALID1, AMAP_VALID2]"
proof
  show "m \<in> set [AMAP_INVALID, AMAP_VALID1, AMAP_VALID2]" for m by (cases m) auto
  show "amap_value m = amap_value m' \<Longrightarrow> m = m'" for m m' by (cases m; cases m') auto
qed

definition amap_from_byte :: "int \<Rightarrow> amap_status result" where
  "amap_from_byte value = reraise ValueError PstFormatError (amap_of_value value)"

definition amap_from_byte_lenient :: "int \<Rightarrow> amap_status" where
  "amap_from_byte_lenient value = (case amap_of_value value of Inl _ \<Rightarrow> AMAP_INVALID | Inr s \<Rightarrow> s)"

record root =
  file_eof_index :: byte_index
  amap_last_index :: byte_index
  amap_free_size :: byte_index
  pmap_free_size :: byte_index
  node_btree :: page_ref
  block_btree :: page_ref
  amap_is_valid :: amap_status

definition Root_unpack_from :: "bytes \<Rightarrow> int \<Rightarrow> root result" where
  "Root_unpack_from buf offset =
     ebind (unpack ROOT_FORMAT buf offset) (\<lambda>fs.
     ebind (mk_ByteIndex (fs ! 1)) (\<lambda>file_eof.
     ebind (mk_ByteIndex (fs ! 2)) (\<lambda>amap_last.
     ebind (mk_ByteIndex (fs ! 3)) (\<lambda>amap_free.
     ebind (mk_ByteIndex (fs ! 4)) (\<lambda>pmap_free.
     ebind (mk_PageRef (fs ! 5) (fs ! 6)) (\<lambda>nbt.
     ebind (mk_PageRef (fs ! 7) (fs ! 8)) (\<lambda>bbt.
     Inr \<lparr>file_eof_index = file_eof, amap_last_index = amap_last, amap_free_size = amap_free,
          pmap_free_size = pmap_free, node_btree = nbt, block_btree = bbt,
          amap_is_valid = amap_from_byte_lenient (fs ! 9)\<rparr>)))))))"

text \<open>The writer's side, with zeros in the three reserved fields.\<close>

definition Root_pack :: "root \<Rightarrow> bytes" where
  "Root_pack r = struct_pack ROOT_FORMAT
     [0, ib_value (file_eof_index r), ib_value (amap_last_index r), ib_value (amap_free_size r),
      ib_value (pmap_free_size r), pid_raw (pr_page (node_btree r)), ib_value (pr_index (node_btree r)),
      pid_raw (pr_page (block_btree r)), ib_value (pr_index (block_btree r)),
      amap_value (amap_is_valid r), 0, 0]"

definition root_ok :: "root \<Rightarrow> bool" where
  "root_ok r \<longleftrightarrow>
     byte_index_ok (file_eof_index r) \<and> byte_index_ok (amap_last_index r) \<and>
     byte_index_ok (amap_free_size r) \<and> byte_index_ok (pmap_free_size r) \<and>
     page_ref_ok (node_btree r) \<and> page_ref_ok (block_btree r)"

lemma amap_lenient_value [simp]: "amap_from_byte_lenient (amap_value s) = s"
  by (simp add: amap_from_byte_lenient_def amap_of_value_def)

lemma amap_value_range: "0 \<le> amap_value s" "amap_value s < 256"
  by (cases s; simp)+

lemma mk_ByteIndex_of: "byte_index_ok i \<Longrightarrow> mk_ByteIndex (ib_value i) = Inr i"
  by (cases i) (auto simp: mk_ByteIndex_Inr_iff byte_index_ok_def)

lemma Root_unpack_closed [simp, intro]: "fails_closed (Root_unpack_from buf off)"
  unfolding Root_unpack_from_def by (intro fails_closed_ebind fails_closed_Inr; blast)

interpretation Root_codec: codec Root_unpack_from Root_pack 72 root_ok
proof
  show "len (Root_pack x) = 72" for x
    by (simp add: Root_pack_def ROOT_FORMAT_def length_struct_pack)
  show "Root_unpack_from (pre @ Root_pack x @ post) (len pre) = Inr x" if ok: "root_ok x" for x pre post
  proof -
    have "unpack ROOT_FORMAT (pre @ Root_pack x @ post) (len pre) = Inr
       [0, ib_value (file_eof_index x), ib_value (amap_last_index x), ib_value (amap_free_size x),
        ib_value (pmap_free_size x), pid_raw (pr_page (node_btree x)), ib_value (pr_index (node_btree x)),
        pid_raw (pr_page (block_btree x)), ib_value (pr_index (block_btree x)),
        amap_value (amap_is_valid x), 0, 0]"
      unfolding Root_pack_def using ok amap_value_range [of "amap_is_valid x"]
      by (intro unpack_pack)
         (simp add: ROOT_FORMAT_def root_ok_def byte_index_ok_def page_ref_ok_def page_id_ok_def U64_def)
    then show ?thesis
      using ok by (simp add: Root_unpack_from_def root_ok_def mk_ByteIndex_of mk_PageRef_of)
  qed
  show "0 \<le> off \<and> off + 72 \<le> len buf" if "Root_unpack_from buf off = Inr x" for buf off x
    using that by (auto simp: Root_unpack_from_def ebind_Inr_iff unpack_Inr_iff ROOT_FORMAT_def calcsize_def)
qed (rule Root_unpack_closed)

section \<open>Header\<close>

definition HEADER_MAGIC :: int where "HEADER_MAGIC = 0x4E444221"
definition HEADER_MAGIC_CLIENT :: int where "HEADER_MAGIC_CLIENT = 0x4D53"
definition CLIENT_VERSION :: int where "CLIENT_VERSION = 19"
definition PLATFORM_CREATE :: int where "PLATFORM_CREATE = 1"
definition PLATFORM_ACCESS :: int where "PLATFORM_ACCESS = 1"
definition SENTINEL :: int where "SENTINEL = 0x80"
definition CRYPT_METHOD_EDPCRYPTED :: int where "CRYPT_METHOD_EDPCRYPTED = 0x10"

definition LEAD_FORMAT :: fmt where "LEAD_FORMAT = [4, 4, 2, 2, 2, 1, 1, 4, 4, 8, 8, 4]"
definition NIDS_FORMAT :: fmt where "NIDS_FORMAT = replicate 32 4"
definition UNUSED_FORMAT :: fmt where "UNUSED_FORMAT = [8]"
definition TAIL_FORMAT :: fmt where "TAIL_FORMAT = [4, 128, 128, 1, 1, 2, 8, 4, 36]"

definition NIDS_OFFSET :: int where "NIDS_OFFSET = calcsize LEAD_FORMAT"
definition UNUSED_OFFSET :: int where "UNUSED_OFFSET = NIDS_OFFSET + calcsize NIDS_FORMAT"
definition ROOT_OFFSET :: int where "ROOT_OFFSET = UNUSED_OFFSET + calcsize UNUSED_FORMAT"
definition TAIL_OFFSET :: int where "TAIL_OFFSET = ROOT_OFFSET + ROOT_SIZE"
definition HEADER_SIZE :: int where "HEADER_SIZE = TAIL_OFFSET + calcsize TAIL_FORMAT"
definition CRC_START :: int where "CRC_START = 8"
definition CRC_PARTIAL_END :: int where "CRC_PARTIAL_END = CRC_START + 471"
definition CRC_FULL_END :: int where "CRC_FULL_END = CRC_START + 516"
definition MAGIC_CLIENT_OFFSET :: int where "MAGIC_CLIENT_OFFSET = 8"
definition VERSION_OFFSET :: int where "VERSION_OFFSET = 10"

lemma header_offsets:
  "ROOT_OFFSET = 180" "TAIL_OFFSET = 252" "HEADER_SIZE = 564" "CRC_START = 8"
  "CRC_PARTIAL_END = 479" "CRC_FULL_END = 524" "MAGIC_CLIENT_OFFSET = 8" "VERSION_OFFSET = 10"
  by (simp_all add: HEADER_SIZE_def TAIL_OFFSET_def ROOT_OFFSET_def UNUSED_OFFSET_def NIDS_OFFSET_def
      ROOT_SIZE_def calcsize_def LEAD_FORMAT_def NIDS_FORMAT_def UNUSED_FORMAT_def TAIL_FORMAT_def
      ROOT_FORMAT_def CRC_START_def CRC_PARTIAL_END_def CRC_FULL_END_def MAGIC_CLIENT_OFFSET_def
      VERSION_OFFSET_def sum_list_replicate)

datatype version = ANSI_14 | ANSI_15 | UNICODE_23 | UNICODE_4K_36 | UNICODE_4K_37

fun version_value :: "version \<Rightarrow> int" where
  "version_value ANSI_14 = 14"
| "version_value ANSI_15 = 15"
| "version_value UNICODE_23 = 23"
| "version_value UNICODE_4K_36 = 36"
| "version_value UNICODE_4K_37 = 37"

definition versions :: "version list" where
  "versions = [ANSI_14, ANSI_15, UNICODE_23, UNICODE_4K_36, UNICODE_4K_37]"

interpretation version_enum: int_enum version_value versions
proof
  show "m \<in> set versions" for m by (cases m) (auto simp: versions_def)
  show "version_value m = version_value m' \<Longrightarrow> m = m'" for m m' by (cases m; cases m') auto
qed

fun version_is_ansi :: "version \<Rightarrow> bool" where
  "version_is_ansi v = (v \<in> {ANSI_14, ANSI_15})"

definition check_version :: "int \<Rightarrow> version result" where
  "check_version raw =
     ebind (reraise ValueError PstFormatError (enum_of version_value versions raw)) (\<lambda>version.
     ebind (raise_if (version_is_ansi version) PstUnsupportedError) (\<lambda>_.
     ebind (raise_if (version \<noteq> UNICODE_23) PstUnsupportedError) (\<lambda>_.
     Inr version)))"

definition check_crypt_method :: "int \<Rightarrow> crypt_method result" where
  "check_crypt_method raw =
     ebind (raise_if (raw = CRYPT_METHOD_EDPCRYPTED) PstUnsupportedError) (\<lambda>_.
     reraise ValueError PstFormatError (crypt_of_value raw))"

record header =
  hdr_version :: version
  hdr_client_version :: int
  hdr_crypt_method :: crypt_method
  hdr_next_block :: block_id
  hdr_next_page :: page_id
  hdr_unique_value :: int
  hdr_root :: root

definition Header_parse :: "bytes \<Rightarrow> header result" where
  "Header_parse buf =
     ebind (raise_if (len buf < HEADER_SIZE) PstFormatError) (\<lambda>_.
     ebind (struct_unpack_from [4] buf 0) (\<lambda>magic.
     ebind (raise_if (magic ! 0 \<noteq> HEADER_MAGIC) PstFormatError) (\<lambda>_.
     ebind (struct_unpack_from [2] buf MAGIC_CLIENT_OFFSET) (\<lambda>magic_client.
     ebind (raise_if (magic_client ! 0 \<noteq> HEADER_MAGIC_CLIENT) PstFormatError) (\<lambda>_.
     ebind (struct_unpack_from [2] buf VERSION_OFFSET) (\<lambda>raw_version.
     ebind (check_version (raw_version ! 0)) (\<lambda>version.
     ebind (struct_unpack_from LEAD_FORMAT buf 0) (\<lambda>lead.
     ebind (struct_unpack_from TAIL_FORMAT buf TAIL_OFFSET) (\<lambda>tail.
     ebind (raise_if (lead ! 1 \<noteq> compute_crc 0 (slice buf CRC_START CRC_PARTIAL_END)) PstFormatError) (\<lambda>_.
     ebind (raise_if (tail ! 7 \<noteq> compute_crc 0 (slice buf CRC_START CRC_FULL_END)) PstFormatError) (\<lambda>_.
     ebind (raise_if (lead ! 4 \<noteq> CLIENT_VERSION) PstFormatError) (\<lambda>_.
     ebind (raise_if (lead ! 5 \<noteq> PLATFORM_CREATE) PstFormatError) (\<lambda>_.
     ebind (raise_if (lead ! 6 \<noteq> PLATFORM_ACCESS) PstFormatError) (\<lambda>_.
     ebind (raise_if (tail ! 0 \<noteq> 0) PstFormatError) (\<lambda>_.
     ebind (raise_if (tail ! 3 \<noteq> SENTINEL) PstFormatError) (\<lambda>_.
     ebind (check_crypt_method (tail ! 4)) (\<lambda>crypt_method.
     ebind (raise_if (tail ! 5 \<noteq> 0) PstFormatError) (\<lambda>_.
     ebind (mk_BlockId (tail ! 6)) (\<lambda>next_block.
     ebind (mk_PageId (lead ! 10)) (\<lambda>next_page.
     ebind (Root_unpack_from buf ROOT_OFFSET) (\<lambda>root.
     Inr \<lparr>hdr_version = version, hdr_client_version = lead ! 4, hdr_crypt_method = crypt_method,
          hdr_next_block = next_block, hdr_next_page = next_page, hdr_unique_value = lead ! 11,
          hdr_root = root\<rparr>)))))))))))))))))))))"

text \<open>\<open>read_header(f)\<close>: seek to 0 and read \<open>HEADER_SIZE\<close> bytes.\<close>

definition read_header :: "bytes \<Rightarrow> header result" where
  "read_header file = Header_parse (file_read file 0 HEADER_SIZE)"

subsection \<open>Refusals\<close>

lemma check_version_Inr_iff: "check_version raw = Inr v \<longleftrightarrow> raw = 23 \<and> v = UNICODE_23"
  by (auto simp: check_version_def res_simps version_enum.of_value_iff)

lemma check_version_closed [simp, intro]: "fails_closed (check_version raw)"
  unfolding check_version_def
  by (intro fails_closed_ebind)
     (auto simp: fails_closed_def reraise_def version_enum.of_value_Inl_iff raise_if_Inl_iff split: sum.splits)

lemma check_crypt_method_Inr_iff: "check_crypt_method raw = Inr m \<longleftrightarrow> raw = crypt_value m"
  by (cases m)
     (auto simp: check_crypt_method_def res_simps crypt_of_value_def crypt_enum.of_value_iff
        CRYPT_METHOD_EDPCRYPTED_def)

lemma check_crypt_method_closed [simp, intro]: "fails_closed (check_crypt_method raw)"
  unfolding check_crypt_method_def
  by (intro fails_closed_ebind)
     (auto simp: fails_closed_def reraise_def crypt_of_value_def crypt_enum.of_value_Inl_iff
        raise_if_Inl_iff split: sum.splits)

lemma Header_parse_closed: "fails_closed (Header_parse buf)"
proof (cases "len buf < HEADER_SIZE")
  case True
  then show ?thesis by (simp add: Header_parse_def)
next
  case False
  then have ok: "fails_closed (struct_unpack_from ws buf off)"
    if "0 \<le> off" "off + calcsize ws \<le> HEADER_SIZE" for ws off
    using that by (simp add: struct_unpack_from_ok)
  show ?thesis
    unfolding Header_parse_def
    by (intro fails_closed_ebind fails_closed_Inr fails_closed_raise_if check_version_closed
        check_crypt_method_closed mk_BlockId_closed mk_PageId_closed Root_unpack_closed ok)
       (simp_all add: header_offsets calcsize_def LEAD_FORMAT_def TAIL_FORMAT_def)
qed

subsection \<open>The writer's side\<close>

text \<open>What the source reads and ignores.\<close>

record header_ignored =
  hi_reserved1 :: int
  hi_reserved2 :: int
  hi_unused_bid :: int
  hi_nids :: bytes
  hi_unused :: bytes
  hi_free_map :: bytes
  hi_free_page_map :: bytes
  hi_reserved3 :: bytes

definition header_ignored_ok :: "header_ignored \<Rightarrow> bool" where
  "header_ignored_ok g \<longleftrightarrow>
     0 \<le> hi_reserved1 g \<and> hi_reserved1 g < 2 ^ 32 \<and> 0 \<le> hi_reserved2 g \<and> hi_reserved2 g < 2 ^ 32 \<and>
     0 \<le> hi_unused_bid g \<and> hi_unused_bid g < 2 ^ 64 \<and> length (hi_nids g) = 128 \<and>
     length (hi_unused g) = 8 \<and> length (hi_free_map g) = 128 \<and> length (hi_free_page_map g) = 128 \<and>
     length (hi_reserved3 g) = 36"

definition header_ok :: "header \<Rightarrow> bool" where
  "header_ok h \<longleftrightarrow>
     hdr_version h = UNICODE_23 \<and> hdr_client_version h = CLIENT_VERSION \<and>
     block_id_ok (hdr_next_block h) \<and> page_id_ok (hdr_next_page h) \<and>
     0 \<le> hdr_unique_value h \<and> hdr_unique_value h < 2 ^ 32 \<and> root_ok (hdr_root h)"

text \<open>The 516 bytes both CRCs start in: \<open>wMagicClient\<close> to \<open>bidNextB\<close>.\<close>

definition header_covered :: "header \<Rightarrow> header_ignored \<Rightarrow> bytes" where
  "header_covered h g =
     struct_pack [2, 2, 2, 1, 1, 4, 4, 8, 8, 4]
       [HEADER_MAGIC_CLIENT, version_value (hdr_version h), hdr_client_version h, PLATFORM_CREATE,
        PLATFORM_ACCESS, hi_reserved1 g, hi_reserved2 g, hi_unused_bid g,
        pid_raw (hdr_next_page h), hdr_unique_value h] @
     hi_nids g @ hi_unused g @ Root_pack (hdr_root h) @ le_bytes 4 0 @
     hi_free_map g @ hi_free_page_map g @
     struct_pack [1, 1, 2, 8] [SENTINEL, crypt_value (hdr_crypt_method h), 0, bid_raw (hdr_next_block h)]"

definition header_bytes :: "header \<Rightarrow> header_ignored \<Rightarrow> bytes" where
  "header_bytes h g =
     (let covered = header_covered h g
      in struct_pack [4, 4] [HEADER_MAGIC, compute_crc 0 (take 471 covered)] @ covered @
         le_bytes 4 (compute_crc 0 covered) @ hi_reserved3 g)"

lemma crypt_value_range: "0 \<le> crypt_value m" "crypt_value m < 256"
  by (cases m; simp)+

lemma length_header_covered: "header_ignored_ok g \<Longrightarrow> length (header_covered h g) = 516"
  using Root_codec.encode_length [of "hdr_root h"]
  by (simp add: header_covered_def header_ignored_ok_def Root_pack_def ROOT_FORMAT_def length_struct_pack)

lemma length_header_bytes: "header_ignored_ok g \<Longrightarrow> length (header_bytes h g) = 564"
  by (simp add: header_bytes_def Let_def length_header_covered)
     (simp add: header_ignored_ok_def)

lemma header_bytes_unfold:
  "header_bytes h g =
     le_bytes 4 HEADER_MAGIC @ le_bytes 4 (compute_crc 0 (take 471 (header_covered h g))) @
     le_bytes 2 HEADER_MAGIC_CLIENT @ le_bytes 2 (version_value (hdr_version h)) @
     le_bytes 2 (hdr_client_version h) @ le_bytes 1 PLATFORM_CREATE @ le_bytes 1 PLATFORM_ACCESS @
     le_bytes 4 (hi_reserved1 g) @ le_bytes 4 (hi_reserved2 g) @ le_bytes 8 (hi_unused_bid g) @
     le_bytes 8 (pid_raw (hdr_next_page h)) @ le_bytes 4 (hdr_unique_value h) @
     hi_nids g @ hi_unused g @ Root_pack (hdr_root h) @
     le_bytes 4 0 @ hi_free_map g @ hi_free_page_map g @ le_bytes 1 SENTINEL @
     le_bytes 1 (crypt_value (hdr_crypt_method h)) @ le_bytes 2 0 @
     le_bytes 8 (bid_raw (hdr_next_block h)) @
     le_bytes 4 (compute_crc 0 (header_covered h g)) @ hi_reserved3 g"
  by (simp only: header_bytes_def header_covered_def Let_def struct_pack.simps append_assoc append_Nil append_Nil2)

lemma header_covered_slices:
  assumes "header_ignored_ok g"
  shows "slice (header_bytes h g) CRC_START CRC_PARTIAL_END = take 471 (header_covered h g)"
    and "slice (header_bytes h g) CRC_START CRC_FULL_END = header_covered h g"
  using length_header_covered [OF assms, of h]
  by (simp_all add: slice_def header_offsets header_bytes_def Let_def)

lemma header_lead:
  assumes "header_ok h" "header_ignored_ok g"
  shows "le_fields LEAD_FORMAT (header_bytes h g) =
    [HEADER_MAGIC, compute_crc 0 (take 471 (header_covered h g)), HEADER_MAGIC_CLIENT, 23, 19, 1, 1,
     hi_reserved1 g, hi_reserved2 g, hi_unused_bid g, pid_raw (hdr_next_page h), hdr_unique_value h]"
  using assms compute_crc_range [of 0 "take 471 (header_covered h g)"]
  by (simp add: header_bytes_unfold LEAD_FORMAT_def le_int_le_bytes header_ok_def header_ignored_ok_def
      page_id_ok_def U64_def HEADER_MAGIC_def HEADER_MAGIC_CLIENT_def CLIENT_VERSION_def
      PLATFORM_CREATE_def PLATFORM_ACCESS_def)

lemma header_tail:
  assumes "header_ok h" "header_ignored_ok g"
  shows "le_fields TAIL_FORMAT (drop 252 (header_bytes h g)) =
    [0, le_int (hi_free_map g), le_int (hi_free_page_map g), SENTINEL, crypt_value (hdr_crypt_method h), 0,
     bid_raw (hdr_next_block h), compute_crc 0 (header_covered h g), le_int (hi_reserved3 g)]"
  using assms compute_crc_range [of 0 "header_covered h g"] crypt_value_range [of "hdr_crypt_method h"]
    Root_codec.encode_length [of "hdr_root h"]
  by (simp add: header_bytes_unfold TAIL_FORMAT_def le_int_le_bytes header_ok_def header_ignored_ok_def
      block_id_ok_def U64_def SENTINEL_def uint_byte_small)

lemma header_root_at:
  assumes "header_ok h" "header_ignored_ok g"
  shows "Root_unpack_from (header_bytes h g) ROOT_OFFSET = Inr (hdr_root h)"
proof -
  define pre where "pre = take 180 (header_bytes h g)"
  define post where "post = drop 252 (header_bytes h g)"
  have "take 72 (drop 180 (header_bytes h g)) = Root_pack (hdr_root h)"
    using assms Root_codec.encode_length [of "hdr_root h"]
    by (simp add: header_bytes_unfold header_ok_def header_ignored_ok_def)
  then have "header_bytes h g = pre @ Root_pack (hdr_root h) @ post"
    using append_take_drop_id [of 180 "header_bytes h g"]
      append_take_drop_id [of 72 "drop 180 (header_bytes h g)"]
    by (simp add: pre_def post_def)
  moreover have "len pre = ROOT_OFFSET"
    using length_header_bytes [OF assms(2), of h] by (simp add: pre_def header_offsets)
  ultimately show ?thesis
    using Root_codec.decode_encode [of "hdr_root h" pre post] assms by (simp add: header_ok_def)
qed

lemma header_parse_bytes:
  assumes h: "header_ok h" and g: "header_ignored_ok g"
  shows "Header_parse (header_bytes h g @ rest) = Inr h"
proof -
  let ?buf = "header_bytes h g"
  have n: "length ?buf = 564" using g by (rule length_header_bytes)
  have unpack: "struct_unpack_from ws (?buf @ rest) off = Inr (le_fields ws (drop (nat off) ?buf))"
    if "0 \<le> off" "off + calcsize ws \<le> 564" for ws off
    using that n by (simp add: struct_unpack_from_ok le_fields_append calcsize_def nat_le_iff)
  note at = unpack [of 0 "[4]"] unpack [of 8 "[2]"] unpack [of 10 "[2]"]
    unpack [of 0 LEAD_FORMAT] unpack [of 252 TAIL_FORMAT]
  have sizes: "calcsize LEAD_FORMAT = 44" "calcsize TAIL_FORMAT = 312" "calcsize [4] = 4" "calcsize [2] = 2"
    by (simp_all add: calcsize_def LEAD_FORMAT_def TAIL_FORMAT_def)
  have slices: "slice (?buf @ rest) 8 479 = take 471 (header_covered h g)"
    "slice (?buf @ rest) 8 524 = header_covered h g"
    using header_covered_slices [OF g, of h] n by (simp_all add: slice_def header_offsets)
  have heads: "le_int (take 4 ?buf) = HEADER_MAGIC" "le_int (take 2 (drop 8 ?buf)) = HEADER_MAGIC_CLIENT"
    "le_int (take 2 (drop 10 ?buf)) = 23"
    using h by (simp_all add: header_bytes_unfold le_int_le_bytes header_ok_def HEADER_MAGIC_def HEADER_MAGIC_CLIENT_def)
  have root: "Root_unpack_from (?buf @ rest) ROOT_OFFSET = Inr (hdr_root h)"
    using header_root_at [OF h g] n by (simp add: Root_unpack_from_def unpack_eq header_offsets ebind_Inr_iff ROOT_FORMAT_def calcsize_def le_fields_append split: if_splits)
  have parts: "mk_BlockId (bid_raw (hdr_next_block h)) = Inr (hdr_next_block h)"
    "mk_PageId (pid_raw (hdr_next_page h)) = Inr (hdr_next_page h)"
    "check_version 23 = Inr (hdr_version h)"
    "check_crypt_method (crypt_value (hdr_crypt_method h)) = Inr (hdr_crypt_method h)"
    using h by (auto simp: header_ok_def block_id_ok_def page_id_ok_def mk_BlockId_Inr_iff mk_PageId_Inr_iff
        check_version_Inr_iff check_crypt_method_Inr_iff)
  have client: "hdr_client_version h = 19"
    using h by (simp add: header_ok_def CLIENT_VERSION_def)
  show ?thesis
    using at n
    by (simp add: Header_parse_def sizes heads header_lead [OF h g] header_tail [OF h g] slices parts
        root [unfolded header_offsets] header_offsets CLIENT_VERSION_def
        PLATFORM_CREATE_def PLATFORM_ACCESS_def client)
qed

subsection \<open>A header cannot be altered in a burst of four bytes\<close>

lemma Header_parse_full_crc:
  assumes "Header_parse buf = Inr h"
  shows "564 \<le> length buf"
    and "le_int (take 4 (drop 524 buf)) = compute_crc 0 (take 516 (drop 8 buf))"
proof -
  show len: "564 \<le> length buf"
    using assms by (auto simp: Header_parse_def ebind_Inr_iff raise_if_Inr_iff header_offsets)
  have "struct_unpack_from TAIL_FORMAT buf TAIL_OFFSET = Inr (le_fields TAIL_FORMAT (drop 252 buf))"
    using len by (simp add: struct_unpack_from_ok header_offsets TAIL_FORMAT_def calcsize_def)
  then have "le_fields TAIL_FORMAT (drop 252 buf) ! 7 = compute_crc 0 (slice buf CRC_START CRC_FULL_END)"
    using assms by (auto simp: Header_parse_def ebind_Inr_iff raise_if_Inr_iff simp del: le_fields.simps)
  then show "le_int (take 4 (drop 524 buf)) = compute_crc 0 (take 516 (drop 8 buf))"
    by (simp add: TAIL_FORMAT_def slice_def header_offsets)
qed

lemma Header_parse_magic:
  assumes "Header_parse buf = Inr h"
  shows "le_int (take 4 buf) = HEADER_MAGIC"
  using assms
  by (auto simp: Header_parse_def ebind_Inr_iff raise_if_Inr_iff struct_unpack_from_ok calcsize_def header_offsets
      simp del: le_int.simps)

lemma Header_parse_partial_crc:
  assumes "Header_parse buf = Inr h"
  shows "le_int (take 4 (drop 4 buf)) = compute_crc 0 (take 471 (drop 8 buf))"
proof -
  have "struct_unpack_from LEAD_FORMAT buf 0 = Inr (le_fields LEAD_FORMAT buf)"
    using Header_parse_full_crc(1) [OF assms]
    by (simp add: struct_unpack_from_ok header_offsets LEAD_FORMAT_def calcsize_def)
  then have "le_fields LEAD_FORMAT buf ! 1 = compute_crc 0 (slice buf CRC_START CRC_PARTIAL_END)"
    using assms by (auto simp: Header_parse_def ebind_Inr_iff raise_if_Inr_iff simp del: le_fields.simps)
  then show ?thesis
    by (simp add: LEAD_FORMAT_def slice_def header_offsets)
qed

text \<open>The 520 bytes from offset 8 on, the stored full CRC included, run to zero.\<close>

lemma Header_parse_run_zero:
  assumes "Header_parse buf = Inr h"
  shows "crc_run 0 (take 520 (drop 8 buf)) = 0"
proof -
  have "take 520 (drop 8 buf) = take 516 (drop 8 buf) @ take 4 (drop 524 buf)"
    using take_add [of 516 4 "drop 8 buf"] by simp
  then show ?thesis
    using Header_parse_full_crc [OF assms] crc_run_own_value [of "take 4 (drop 524 buf)" 0 "take 516 (drop 8 buf)"]
    by (simp add: compute_crc_run)
qed

text \<open>The first 528 bytes of an accepted header follow from those behind the first eight.\<close>

lemma Header_parse_lead_determined:
  assumes "Header_parse buf = Inr h" "Header_parse buf' = Inr h'"
    and same: "take 520 (drop 8 buf) = take 520 (drop 8 buf')"
  shows "take 8 buf = take 8 buf'"
proof -
  have split: "take 8 x = take 4 x @ take 4 (drop 4 x)" for x :: bytes
    using take_add [of 4 4 x] by simp
  have len: "564 \<le> length buf" "564 \<le> length buf'"
    using assms(1,2) by (auto dest: Header_parse_full_crc(1))
  have "take 471 (drop 8 buf) = take 471 (drop 8 buf')"
    using arg_cong [OF same, of "take 471"] by (simp add: min_def)
  then have "le_int (take 4 (drop 4 buf)) = le_int (take 4 (drop 4 buf'))"
    using assms(1,2) by (simp add: Header_parse_partial_crc)
  moreover have "le_int (take 4 buf) = le_int (take 4 buf')"
    using assms(1,2) by (simp add: Header_parse_magic)
  moreover have eq: "x = y" if "le_int x = le_int y" "length x = 4" "length y = 4" for x y :: bytes
    using that le_bytes_le_int by metis
  ultimately have "take 4 (drop 4 buf) = take 4 (drop 4 buf')" "take 4 buf = take 4 buf'"
    using len by (auto intro!: eq)
  then show ?thesis by (simp add: split)
qed

lemma Header_burst_refused:
  assumes acc: "Header_parse (pre @ u @ post) = Inr h"
    and at: "length pre + length u \<le> 528"
    and len: "length u \<le> 4" "length v = length u" and neq: "u \<noteq> v"
  shows "\<exists>e. Header_parse (pre @ v @ post) = Inl e \<and> is_pst_error e"
proof (cases "Header_parse (pre @ v @ post)")
  case (Inl e)
  then show ?thesis using Header_parse_closed fails_closedD by blast
next
  case (Inr q)
  let ?n = "8 - length pre"
  define rest where "rest = drop (?n - length u) (take (528 - (length pre + length u)) post)"
  have takes: "take 520 (drop 8 (pre @ x @ post)) = drop 8 pre @ drop ?n x @ rest" if "length x = length u" for x
    using at that take_drop [of 520 8 "pre @ x @ post"] by (simp add: rest_def)
  have run: "crc_run 0 (drop 8 pre @ drop ?n u @ rest) = crc_run 0 (drop 8 pre @ drop ?n v @ rest)"
    using Header_parse_run_zero [OF acc] Header_parse_run_zero [OF Inr] takes len by simp
  have tails: "drop ?n u = drop ?n v"
  proof (rule ccontr)
    assume "drop ?n u \<noteq> drop ?n v"
    moreover have "length (drop ?n u) \<le> 4" "length (drop ?n v) = length (drop ?n u)"
      using len by simp_all
    ultimately show False using run crc_run_burst by blast
  qed
  then have "take 8 (pre @ u @ post) = take 8 (pre @ v @ post)"
    using takes len Header_parse_lead_determined [OF acc Inr] by simp
  then have "take ?n u = take ?n v"
    using len by (auto simp: take_append)
  with tails neq show ?thesis by (metis append_take_drop_id)
qed

section \<open>Properties\<close>

text \<open>A header to try the statements on.\<close>

definition sample_root :: root where
  "sample_root =
     \<lparr>file_eof_index = ByteIndex 0x42400, amap_last_index = ByteIndex 0x4400, amap_free_size = ByteIndex 0x100,
      pmap_free_size = ByteIndex 0, node_btree = \<lparr>pr_page = PageId 0x1C, pr_index = ByteIndex 0x8000\<rparr>,
      block_btree = \<lparr>pr_page = PageId 0x1B, pr_index = ByteIndex 0x8200\<rparr>, amap_is_valid = AMAP_VALID2\<rparr>"

definition sample_header :: header where
  "sample_header =
     \<lparr>hdr_version = UNICODE_23, hdr_client_version = 19, hdr_crypt_method = CRYPT_PERMUTE,
      hdr_next_block = BlockId 0x74, hdr_next_page = PageId 0x2C, hdr_unique_value = 14, hdr_root = sample_root\<rparr>"

definition sample_ignored :: header_ignored where
  "sample_ignored =
     \<lparr>hi_reserved1 = 0, hi_reserved2 = 7, hi_unused_bid = 4, hi_nids = replicate 128 4, hi_unused = replicate 8 0,
      hi_free_map = replicate 128 255, hi_free_page_map = replicate 128 255, hi_reserved3 = replicate 36 0\<rparr>"

lemma sample_header_ok: "header_ok sample_header" "header_ignored_ok sample_ignored"
  by (simp_all add: header_ok_def header_ignored_ok_def sample_header_def sample_ignored_def sample_root_def
      CLIENT_VERSION_def block_id_ok_def page_id_ok_def root_ok_def byte_index_ok_def page_ref_ok_def U64_def)

text \<open>The parser reads back every field of a header written with both CRCs, whatever stands in the
  fields it ignores and whatever follows the 564 bytes.\<close>

theorem Header_roundtrip:
  assumes "header_ok h" "header_ignored_ok g"
  shows "Header_parse (header_bytes h g @ rest) = Inr h"
  using assms by (rule header_parse_bytes)

text \<open>For every byte string, reading the header returns a header or raises a PstError: no
  \<open>struct.error\<close>, \<open>ValueError\<close> or \<open>IndexError\<close> escapes, and an accepted header is a Unicode store
  (version 23) whose full CRC matches.\<close>

theorem Header_total:
  "case read_header f of
     Inl e \<Rightarrow> is_pst_error e
   | Inr h \<Rightarrow> hdr_version h = UNICODE_23 \<and> 564 \<le> length f \<and>
       le_int (take 4 (drop 524 f)) = compute_crc 0 (take 516 (drop 8 f))"
proof (cases "read_header f")
  case (Inl e)
  then show ?thesis using fails_closedD [OF Header_parse_closed] by (simp add: read_header_def)
next
  case (Inr h)
  let ?buf = "file_read f 0 HEADER_SIZE"
  have parse: "Header_parse ?buf = Inr h" using Inr by (simp add: read_header_def)
  have "hdr_version h = UNICODE_23"
    using parse by (auto simp: Header_parse_def ebind_Inr_iff check_version_Inr_iff)
  moreover have "?buf = take 564 f" by (simp add: file_read_def header_offsets)
  moreover note Header_parse_full_crc [OF parse]
  ultimately show ?thesis using Inr by (simp add: drop_take)
qed

text \<open>C24: an accepted header altered in at most four consecutive bytes of its first 528, the magic, both stored
  CRCs and all they cover, is refused, with a PstError. (The 36 reserved bytes behind them, and whatever
  follows the header, are not looked at.)\<close>

theorem Header_burst:
  assumes "Header_parse (pre @ u @ post) = Inr h" "length pre + length u \<le> 528"
    and "length u \<le> 4" "length v = length u" "u \<noteq> v"
  shows "\<exists>e. Header_parse (pre @ v @ post) = Inl e \<and> is_pst_error e"
  using assms by (rule Header_burst_refused)

theorem Header_burst_witness:
  "let buf = header_bytes sample_header sample_ignored
   in \<exists>e. Header_parse (take 523 buf @ map (\<lambda>b. b + 1) (take 4 (drop 523 buf)) @ drop 527 buf) = Inl e \<and> is_pst_error e"
proof -
  let ?buf = "header_bytes sample_header sample_ignored"
  let ?u = "take 4 (drop 523 ?buf)"
  have len: "length ?buf = 564" by (rule length_header_bytes [OF sample_header_ok(2)])
  have "take 523 ?buf @ ?u @ drop 527 ?buf = ?buf"
    using append_take_drop_id [of 4 "drop 523 ?buf"] by simp
  then have acc: "Header_parse (take 523 ?buf @ ?u @ drop 527 ?buf) = Inr sample_header"
    using header_parse_bytes [OF sample_header_ok, of "[]"] by simp
  have "?u \<noteq> map (\<lambda>b. b + 1) ?u"
    using arg_cong [OF len, of "\<lambda>n. min 4 (n - 523)"] by (cases ?u) (auto dest: arg_cong [of _ _ length])
  with Header_burst [OF acc, of "map (\<lambda>b. b + 1) ?u"] show ?thesis using len by (simp add: Let_def)
qed

end
