(* ===== verification/Pst_Block.thy ===== *)
theory Pst_Block
  imports Pst_Btree Pst_Encode Pst_Header
begin

unbundle bit_operations_syntax

text \<open>
  \<open>src/pypstreader/ndb/block.py\<close>: the 64-byte-aligned blocks a node's bytes are stored in, their
  trailer and its checks, the trees of XBLOCKs over data blocks and of SIBLOCKs over sub-nodes, and
  the two bounded walks. Blocks are found through the block B-tree (\<open>block_lookup\<close>).
\<close>

definition MAX_BLOCK_SIZE :: int where "MAX_BLOCK_SIZE = 8192"
definition BLOCK_ALIGNMENT :: int where "BLOCK_ALIGNMENT = 64"
definition BLOCK_TRAILER_SIZE :: int where "BLOCK_TRAILER_SIZE = 16"
definition MAX_BLOCK_DATA_SIZE :: int where "MAX_BLOCK_DATA_SIZE = MAX_BLOCK_SIZE - BLOCK_TRAILER_SIZE"
definition BLOCK_TRAILER_FORMAT :: fmt where "BLOCK_TRAILER_FORMAT = [2, 2, 4, 8]"
definition DATA_TREE_HEADER_FORMAT :: fmt where "DATA_TREE_HEADER_FORMAT = [1, 1, 2, 4]"
definition TREE_HEADER_SIZE :: int where "TREE_HEADER_SIZE = calcsize DATA_TREE_HEADER_FORMAT"
definition DATA_TREE_ENTRY_FORMAT :: fmt where "DATA_TREE_ENTRY_FORMAT = [8]"
definition SUBNODE_LEAF_ENTRY_FORMAT :: fmt where "SUBNODE_LEAF_ENTRY_FORMAT = [8, 8, 8]"
definition SUBNODE_INTERMEDIATE_ENTRY_FORMAT :: fmt where "SUBNODE_INTERMEDIATE_ENTRY_FORMAT = [8, 8]"
definition BTYPE_DATA_TREE :: int where "BTYPE_DATA_TREE = 0x01"
definition BTYPE_SUBNODE_TREE :: int where "BTYPE_SUBNODE_TREE = 0x02"

lemmas block_consts =
  MAX_BLOCK_SIZE_def BLOCK_ALIGNMENT_def BLOCK_TRAILER_SIZE_def MAX_BLOCK_DATA_SIZE_def
  BTYPE_DATA_TREE_def BTYPE_SUBNODE_TREE_def

lemmas block_formats =
  BLOCK_TRAILER_FORMAT_def DATA_TREE_HEADER_FORMAT_def DATA_TREE_ENTRY_FORMAT_def
  SUBNODE_LEAF_ENTRY_FORMAT_def SUBNODE_INTERMEDIATE_ENTRY_FORMAT_def

lemma TREE_HEADER_SIZE_eq: "TREE_HEADER_SIZE = 8"
  by (simp add: TREE_HEADER_SIZE_def DATA_TREE_HEADER_FORMAT_def calcsize_def)

section \<open>block_size\<close>

definition block_size :: "int \<Rightarrow> int result" where
  "block_size sz =
     ebind (raise_if (\<not> (1 \<le> sz \<and> sz \<le> MAX_BLOCK_DATA_SIZE)) PstFormatError) (\<lambda>_.
     let total = sz + BLOCK_TRAILER_SIZE
     in Inr (- ((- total) div BLOCK_ALIGNMENT) * BLOCK_ALIGNMENT))"

lemma block_size_Inr_iff:
  "block_size sz = Inr n \<longleftrightarrow> 1 \<le> sz \<and> sz \<le> 8176 \<and> n = - ((- (sz + 16)) div 64) * 64"
  by (auto simp: block_size_def res_simps block_consts)

lemma block_size_facts:
  assumes "block_size sz = Inr n"
  shows "1 \<le> sz" "sz \<le> 8176" "n mod 64 = 0" "sz + 16 \<le> n" "n < sz + 16 + 64" "n \<le> 8192"
proof -
  define q where "q = (- (sz + 16)) div 64"
  have n: "1 \<le> sz" "sz \<le> 8176" "n = - q * 64" using assms unfolding block_size_Inr_iff q_def by auto
  have "64 * q \<le> - (sz + 16)" "- (sz + 16) < 64 * q + 64"
    unfolding q_def by linarith+
  moreover have "- 128 \<le> q"
  proof (rule ccontr)
    assume "\<not> - 128 \<le> q"
    then have "q \<le> - 129" by simp
    with \<open>- (sz + 16) < 64 * q + 64\<close> n(2) show False by linarith
  qed
  ultimately show "1 \<le> sz" "sz \<le> 8176" "n mod 64 = 0" "sz + 16 \<le> n" "n < sz + 16 + 64" "n \<le> 8192"
    using n by (linarith | simp)+
qed

lemma block_size_least:
  assumes "block_size sz = Inr n" "m mod 64 = 0" "sz + 16 \<le> m"
  shows "n \<le> m"
proof -
  have "n < m + 64" using block_size_facts(5) [OF assms(1)] assms(3) by simp
  moreover obtain a where "n = 64 * a"
    using block_size_facts(3) [OF assms(1)] by (auto simp: dvd_eq_mod_eq_0 [symmetric])
  moreover obtain b where "m = 64 * b"
    using assms(2) by (auto simp: dvd_eq_mod_eq_0 [symmetric])
  ultimately show ?thesis by simp
qed

lemma block_size_closed [simp, intro]: "fails_closed (block_size sz)"
  by (simp add: block_size_def fails_closed_def raise_if_def Let_def)

lemma block_size_ok: "1 \<le> sz \<Longrightarrow> sz \<le> 8176 \<Longrightarrow> \<exists>n. block_size sz = Inr n"
  by (simp add: block_size_Inr_iff)

section \<open>BlockTrailer\<close>

record block_trailer =
  blt_size :: int
  blt_signature :: int
  blt_crc :: int
  blt_block_id :: block_id

definition BlockTrailer_unpack_from :: "bytes \<Rightarrow> int \<Rightarrow> block_trailer result" where
  "BlockTrailer_unpack_from buf offset =
     ebind (unpack BLOCK_TRAILER_FORMAT buf offset) (\<lambda>fs.
     ebind (raise_if (\<not> (1 \<le> fs ! 0 \<and> fs ! 0 \<le> MAX_BLOCK_DATA_SIZE)) PstFormatError) (\<lambda>_.
     ebind (mk_BlockId (fs ! 3)) (\<lambda>block_id.
     Inr \<lparr>blt_size = fs ! 0, blt_signature = fs ! 1, blt_crc = fs ! 2, blt_block_id = block_id\<rparr>)))"

definition BlockTrailer_cyclic_key :: "block_trailer \<Rightarrow> int" where
  "BlockTrailer_cyclic_key t = BlockId_search_key (blt_block_id t) AND U32"

definition BlockTrailer_verify_block_id :: "block_trailer \<Rightarrow> bool \<Rightarrow> unit result" where
  "BlockTrailer_verify_block_id t is_internal =
     raise_if (BlockId_is_internal (blt_block_id t) \<noteq> is_internal) PstFormatError"

definition BlockTrailer_verify_crc :: "block_trailer \<Rightarrow> bytes \<Rightarrow> unit result" where
  "BlockTrailer_verify_crc t data = raise_if (compute_crc 0 data \<noteq> blt_crc t) PstFormatError"

definition BlockTrailer_expected_signature :: "block_trailer \<Rightarrow> byte_index \<Rightarrow> int" where
  "BlockTrailer_expected_signature t index = compute_sig (ib_value index) (bid_raw (blt_block_id t))"

definition BlockTrailer_pack :: "block_trailer \<Rightarrow> bytes" where
  "BlockTrailer_pack t = struct_pack BLOCK_TRAILER_FORMAT
     [blt_size t, blt_signature t, blt_crc t, bid_raw (blt_block_id t)]"

definition block_trailer_ok :: "block_trailer \<Rightarrow> bool" where
  "block_trailer_ok t \<longleftrightarrow>
     1 \<le> blt_size t \<and> blt_size t \<le> MAX_BLOCK_DATA_SIZE \<and> 0 \<le> blt_signature t \<and> blt_signature t < 2 ^ 16 \<and>
     0 \<le> blt_crc t \<and> blt_crc t < 2 ^ 32 \<and> block_id_ok (blt_block_id t)"

interpretation BlockTrailer_codec: codec BlockTrailer_unpack_from BlockTrailer_pack 16 block_trailer_ok
proof
  show "len (BlockTrailer_pack x) = 16" for x
    by (simp add: BlockTrailer_pack_def block_formats length_struct_pack)
  show "BlockTrailer_unpack_from (pre @ BlockTrailer_pack x @ post) (len pre) = Inr x"
    if ok: "block_trailer_ok x" for x pre post
  proof -
    have "unpack BLOCK_TRAILER_FORMAT (pre @ BlockTrailer_pack x @ post) (len pre) =
        Inr [blt_size x, blt_signature x, blt_crc x, bid_raw (blt_block_id x)]"
      unfolding BlockTrailer_pack_def using ok
      by (intro unpack_pack)
         (simp add: block_formats block_trailer_ok_def block_id_ok_def U64_def block_consts)
    then show ?thesis using ok
      by (simp add: BlockTrailer_unpack_from_def block_trailer_ok_def mk_BlockId_of)
  qed
  show "0 \<le> off \<and> off + 16 \<le> len buf" if "BlockTrailer_unpack_from buf off = Inr x" for buf off x
    using that by (auto simp: BlockTrailer_unpack_from_def ebind_Inr_iff unpack_Inr_iff block_formats calcsize_def)
  show "fails_closed (BlockTrailer_unpack_from buf off)" for buf off
    unfolding BlockTrailer_unpack_from_def by (intro fails_closed_ebind) auto
qed

declare BlockTrailer_codec.decode_closed [simp, intro]

lemma verify_closed [simp, intro]:
  "fails_closed (BlockTrailer_verify_block_id t i)" "fails_closed (BlockTrailer_verify_crc t data)"
  by (simp_all add: BlockTrailer_verify_block_id_def BlockTrailer_verify_crc_def)

lemma verify_Inr_iff [res_simps]:
  "BlockTrailer_verify_block_id t i = Inr u \<longleftrightarrow> BlockId_is_internal (blt_block_id t) = i"
  "BlockTrailer_verify_crc t data = Inr u \<longleftrightarrow> compute_crc 0 data = blt_crc t"
  by (auto simp: BlockTrailer_verify_block_id_def BlockTrailer_verify_crc_def raise_if_def)

lemma U32_mask: "U32 = mask 32"
  by (simp add: U32_def mask_eq_exp_minus_1)

lemma cyclic_key_nonneg [simp]: "0 \<le> BlockTrailer_cyclic_key t"
  unfolding BlockTrailer_cyclic_key_def U32_mask take_bit_eq_mask [symmetric] by simp

section \<open>The three block shapes\<close>

record data_block =
  db_data :: bytes
  db_trailer :: block_trailer

record xblock =
  xb_level :: int
  xb_total_size :: int
  xb_entries :: "block_id list"
  xb_trailer :: block_trailer

datatype data_node = DataNode data_block | XNode xblock

record sub_node_leaf_entry =
  sl_node :: node_id
  sl_data :: block_id
  sl_sub_node :: "block_id option"

definition SubNodeLeafEntry_unpack_from :: "bytes \<Rightarrow> int \<Rightarrow> sub_node_leaf_entry result" where
  "SubNodeLeafEntry_unpack_from buf offset =
     ebind (unpack SUBNODE_LEAF_ENTRY_FORMAT buf offset) (\<lambda>fs.
     ebind (mk_BlockId (fs ! 2)) (\<lambda>sub.
     ebind (mk_NodeId (fs ! 0 AND U32)) (\<lambda>node.
     ebind (mk_BlockId (fs ! 1)) (\<lambda>data.
     Inr \<lparr>sl_node = node, sl_data = data,
          sl_sub_node = (if BlockId_search_key sub = 0 then None else Some sub)\<rparr>))))"

definition SubNodeLeafEntry_pack :: "sub_node_leaf_entry \<Rightarrow> bytes" where
  "SubNodeLeafEntry_pack e = struct_pack SUBNODE_LEAF_ENTRY_FORMAT
     [nid_raw (sl_node e), bid_raw (sl_data e), (case sl_sub_node e of None \<Rightarrow> 0 | Some s \<Rightarrow> bid_raw s)]"

definition sub_node_leaf_entry_ok :: "sub_node_leaf_entry \<Rightarrow> bool" where
  "sub_node_leaf_entry_ok e \<longleftrightarrow>
     node_id_ok (sl_node e) \<and> block_id_ok (sl_data e) \<and>
     (case sl_sub_node e of None \<Rightarrow> True | Some s \<Rightarrow> block_id_ok s \<and> BlockId_search_key s \<noteq> 0)"

lemma and_U32: "0 \<le> x \<Longrightarrow> x \<le> U32 \<Longrightarrow> x AND U32 = x"
  unfolding U32_mask take_bit_eq_mask [symmetric] by (simp add: take_bit_int_eq_self mask_eq_exp_minus_1)

interpretation SubNodeLeafEntry_codec:
  codec SubNodeLeafEntry_unpack_from SubNodeLeafEntry_pack 24 sub_node_leaf_entry_ok
proof
  show "len (SubNodeLeafEntry_pack x) = 24" for x
    by (simp add: SubNodeLeafEntry_pack_def block_formats length_struct_pack)
  show "SubNodeLeafEntry_unpack_from (pre @ SubNodeLeafEntry_pack x @ post) (len pre) = Inr x"
    if ok: "sub_node_leaf_entry_ok x" for x pre post
  proof -
    have "unpack SUBNODE_LEAF_ENTRY_FORMAT (pre @ SubNodeLeafEntry_pack x @ post) (len pre) = Inr
       [nid_raw (sl_node x), bid_raw (sl_data x), (case sl_sub_node x of None \<Rightarrow> 0 | Some s \<Rightarrow> bid_raw s)]"
      unfolding SubNodeLeafEntry_pack_def using ok
      by (intro unpack_pack)
         (auto simp: block_formats sub_node_leaf_entry_ok_def node_id_ok_def block_id_ok_def U64_def U32_def
          split: option.splits)
    moreover have "nid_raw (sl_node x) AND U32 = nid_raw (sl_node x)"
      using ok by (simp add: sub_node_leaf_entry_ok_def node_id_ok_def and_U32)
    ultimately show ?thesis using ok
      by (cases x; cases "sl_sub_node x")
         (auto simp: SubNodeLeafEntry_unpack_from_def sub_node_leaf_entry_ok_def mk_BlockId_of mk_NodeId_of
          mk_BlockId_ok U64_def)
  qed
  show "0 \<le> off \<and> off + 24 \<le> len buf" if "SubNodeLeafEntry_unpack_from buf off = Inr x" for buf off x
    using that by (auto simp: SubNodeLeafEntry_unpack_from_def ebind_Inr_iff unpack_Inr_iff block_formats calcsize_def)
  show "fails_closed (SubNodeLeafEntry_unpack_from buf off)" for buf off
    unfolding SubNodeLeafEntry_unpack_from_def by (intro fails_closed_ebind) auto
qed

record sub_node_intermediate_entry =
  si_node :: node_id
  si_next_level :: block_id

definition SubNodeIntermediateEntry_unpack_from :: "bytes \<Rightarrow> int \<Rightarrow> sub_node_intermediate_entry result" where
  "SubNodeIntermediateEntry_unpack_from buf offset =
     ebind (unpack SUBNODE_INTERMEDIATE_ENTRY_FORMAT buf offset) (\<lambda>fs.
     ebind (mk_NodeId (fs ! 0 AND U32)) (\<lambda>node.
     ebind (mk_BlockId (fs ! 1)) (\<lambda>next_level.
     Inr \<lparr>si_node = node, si_next_level = next_level\<rparr>)))"

record sub_node_leaf_block =
  slb_level :: int
  slb_entries :: "sub_node_leaf_entry list"
  slb_trailer :: block_trailer

record sub_node_intermediate_block =
  sib_level :: int
  sib_entries :: "sub_node_intermediate_entry list"
  sib_trailer :: block_trailer

datatype sub_node_block = SLBlock sub_node_leaf_block | SIBlock sub_node_intermediate_block

definition tree_entry_size :: "int \<Rightarrow> int \<Rightarrow> int result" where
  "tree_entry_size btype level =
     (if btype = BTYPE_DATA_TREE then Inr (calcsize DATA_TREE_ENTRY_FORMAT)
      else if btype = BTYPE_SUBNODE_TREE then
        Inr (if level = 0 then calcsize SUBNODE_LEAF_ENTRY_FORMAT
             else calcsize SUBNODE_INTERMEDIATE_ENTRY_FORMAT)
      else Inl PstFormatError)"

section \<open>BlockReader: one block\<close>

record block_reader =
  rd_f :: bytes
  rd_crypt :: crypt_method
  rd_bbt :: btree
  rd_limits :: limits

definition BlockReader :: "bytes \<Rightarrow> header \<Rightarrow> btree \<Rightarrow> limits \<Rightarrow> block_reader" where
  "BlockReader f header bbt limits =
     \<lparr>rd_f = f, rd_crypt = hdr_crypt_method header, rd_bbt = bbt, rd_limits = limits\<rparr>"

definition read_allocation :: "block_reader \<Rightarrow> block_ref \<Rightarrow> int \<Rightarrow> bytes result" where
  "read_allocation rd ref sz =
     ebind (block_size sz) (\<lambda>total.
     ebind (raise_if (ib_value (br_index ref) + total > max_file_size (rd_limits rd)) PstFormatError) (\<lambda>_.
     let data = file_read (rd_f rd) (ib_value (br_index ref)) total
     in ebind (raise_if (len data \<noteq> total) PstFormatError) (\<lambda>_. Inr data)))"

definition verify_data_block :: "block_reader \<Rightarrow> bytes \<Rightarrow> int \<Rightarrow> data_block result" where
  "verify_data_block rd buf sz =
     (let data = slice buf 0 sz
      in ebind (BlockTrailer_unpack_from buf (len buf - BLOCK_TRAILER_SIZE)) (\<lambda>trailer.
         ebind (raise_if (blt_size trailer \<noteq> sz) PstFormatError) (\<lambda>_.
         ebind (BlockTrailer_verify_block_id trailer False) (\<lambda>_.
         ebind (BlockTrailer_verify_crc trailer data) (\<lambda>_.
         ebind (decode_block data (crypt_value (rd_crypt rd)) (BlockTrailer_cyclic_key trailer)) (\<lambda>decoded.
         Inr \<lparr>db_data = decoded, db_trailer = trailer\<rparr>))))))"

text \<open>The tuple \<open>_verify_tree_block\<close> returns.\<close>

record tree_block =
  tb_data :: bytes
  tb_trailer :: block_trailer
  tb_btype :: int
  tb_level :: int
  tb_count :: int
  tb_fourth :: int

definition verify_tree_block :: "bytes \<Rightarrow> int \<Rightarrow> int option \<Rightarrow> tree_block result" where
  "verify_tree_block buf sz expected_btype =
     ebind (unpack DATA_TREE_HEADER_FORMAT buf 0) (\<lambda>h.
     ebind (raise_if (expected_btype \<noteq> None \<and> Some (h ! 0) \<noteq> expected_btype) PstFormatError) (\<lambda>_.
     ebind (tree_entry_size (h ! 0) (h ! 1)) (\<lambda>entry_size.
     ebind (raise_if (sz < TREE_HEADER_SIZE \<or> h ! 2 * entry_size > sz - TREE_HEADER_SIZE) PstFormatError) (\<lambda>_.
     let implied = TREE_HEADER_SIZE + h ! 2 * entry_size
     in ebind (block_size implied) (\<lambda>allocation.
     let offset = sz + (allocation - implied - BLOCK_TRAILER_SIZE)
     in ebind (raise_if (offset + BLOCK_TRAILER_SIZE > len buf) PstFormatError) (\<lambda>_.
     ebind (BlockTrailer_unpack_from buf offset) (\<lambda>trailer.
     ebind (BlockTrailer_verify_block_id trailer True) (\<lambda>_.
     let data = slice buf 0 sz
     in ebind (BlockTrailer_verify_crc trailer data) (\<lambda>_.
     Inr \<lparr>tb_data = data, tb_trailer = trailer, tb_btype = h ! 0, tb_level = h ! 1,
          tb_count = h ! 2, tb_fourth = h ! 3\<rparr>)))))))))"

definition read_block :: "block_reader \<Rightarrow> block_ref \<Rightarrow> int \<Rightarrow> bool \<Rightarrow> bytes result" where
  "read_block rd ref sz is_internal =
     ebind (read_allocation rd ref sz) (\<lambda>buf.
     if is_internal then ebind (verify_tree_block buf sz None) (\<lambda>tb. Inr (tb_data tb))
     else ebind (verify_data_block rd buf sz) (\<lambda>db. Inr (db_data db)))"

section \<open>BlockReader: the tree blocks\<close>

text \<open>\<open>self._bbt.find(block)\<close>; the tree's cache does not show (\<open>block_lookup_cache\<close>).\<close>

definition reader_find :: "block_reader \<Rightarrow> block_id \<Rightarrow> block_btree_entry result" where
  "reader_find rd block = block_lookup (rd_bbt rd) (BlockId_search_key block)"

definition read_data_tree :: "block_reader \<Rightarrow> block_id \<Rightarrow> data_node result" where
  "read_data_tree rd block =
     ebind (reader_find rd block) (\<lambda>entry.
     let ref = bbe_block entry; sz = bbe_size entry
     in ebind (read_allocation rd ref sz) (\<lambda>buf.
     if \<not> BlockId_is_internal (br_block ref) then
       ebind (verify_data_block rd buf sz) (\<lambda>db. Inr (DataNode db))
     else
       ebind (verify_tree_block buf sz (Some BTYPE_DATA_TREE)) (\<lambda>tb.
       ebind (struct_unpack_from (replicate (nat (tb_count tb)) 8) (tb_data tb) TREE_HEADER_SIZE) (\<lambda>raws.
       ebind (emap mk_BlockId raws) (\<lambda>entries.
       Inr (XNode \<lparr>xb_level = tb_level tb, xb_total_size = tb_fourth tb, xb_entries = entries,
                   xb_trailer = tb_trailer tb\<rparr>))))))"

definition read_subnode_block :: "block_reader \<Rightarrow> block_id \<Rightarrow> sub_node_block result" where
  "read_subnode_block rd block =
     ebind (reader_find rd block) (\<lambda>entry.
     let ref = bbe_block entry; sz = bbe_size entry
     in ebind (read_allocation rd ref sz) (\<lambda>buf.
     ebind (verify_tree_block buf sz (Some BTYPE_SUBNODE_TREE)) (\<lambda>tb.
     ebind (raise_if (tb_fourth tb \<noteq> 0) PstFormatError) (\<lambda>_.
     if tb_level tb > 0 then
       ebind (emap (\<lambda>i. SubNodeIntermediateEntry_unpack_from (tb_data tb) (TREE_HEADER_SIZE + int i * 16))
                [0..<nat (tb_count tb)]) (\<lambda>entries.
       Inr (SIBlock \<lparr>sib_level = tb_level tb, sib_entries = entries, sib_trailer = tb_trailer tb\<rparr>))
     else
       ebind (emap (\<lambda>i. SubNodeLeafEntry_unpack_from (tb_data tb) (TREE_HEADER_SIZE + int i * 24))
                [0..<nat (tb_count tb)]) (\<lambda>entries.
       Inr (SLBlock \<lparr>slb_level = tb_level tb, slb_entries = entries, slb_trailer = tb_trailer tb\<rparr>))))))"

subsection \<open>Only a PstError escapes\<close>

definition reader_ok :: "block_reader \<Rightarrow> bool" where
  "reader_ok rd \<longleftrightarrow> bt_KIND (rd_bbt rd) = PT_BBT"

lemma reader_find_closed [simp, intro]: "reader_ok rd \<Longrightarrow> fails_closed (reader_find rd block)"
  by (simp add: reader_find_def reader_ok_def block_lookup_closed)

lemma read_allocation_closed [simp, intro]: "fails_closed (read_allocation rd ref sz)"
  unfolding read_allocation_def Let_def by (intro fails_closed_ebind) auto

lemma read_allocation_facts:
  assumes "read_allocation rd ref sz = Inr buf"
  shows "block_size sz = Inr (len buf)" "sz + 16 \<le> len buf" "1 \<le> sz"
  using assms block_size_facts [of sz "len buf"]
  by (auto simp: read_allocation_def Let_def ebind_Inr_iff raise_if_Inr_iff)

lemma read_allocation_Inr:
  assumes "read_allocation rd ref sz = Inr buf"
  shows "buf = take (length buf) (drop (nat (ib_value (br_index ref))) (rd_f rd))"
    and "ib_value (br_index ref) + len buf \<le> max_file_size (rd_limits rd)"
proof -
  obtain n where n: "block_size sz = Inr n" "ib_value (br_index ref) + n \<le> max_file_size (rd_limits rd)"
    "buf = file_read (rd_f rd) (ib_value (br_index ref)) n" "len buf = n"
    using assms by (auto simp: read_allocation_def Let_def ebind_Inr_iff raise_if_Inr_iff)
  then show "buf = take (length buf) (drop (nat (ib_value (br_index ref))) (rd_f rd))"
    by (metis file_read_def nat_int)
  show "ib_value (br_index ref) + len buf \<le> max_file_size (rd_limits rd)" using n by simp
qed

lemma read_allocationI:
  assumes "block_size sz = Inr n" "ib_value (br_index ref) + n \<le> max_file_size (rd_limits rd)"
    and "file_read (rd_f rd) (ib_value (br_index ref)) n = buf" "len buf = n"
  shows "read_allocation rd ref sz = Inr buf"
  using assms by (simp add: read_allocation_def Let_def raise_if_def)

lemma verify_data_block_closed [simp, intro]: "fails_closed (verify_data_block rd buf sz)"
proof -
  have "fails_closed (decode_block data (crypt_value m) (BlockTrailer_cyclic_key t))" for data m t
    using decode_block_ok [OF cyclic_key_nonneg, of data m t] by auto
  then show ?thesis
    unfolding verify_data_block_def Let_def by (intro fails_closed_ebind) auto
qed

lemma verify_tree_block_closed [simp, intro]: "fails_closed (verify_tree_block buf sz e)"
  unfolding verify_tree_block_def Let_def
  by (intro fails_closed_ebind) (auto simp: tree_entry_size_def)

lemma verify_tree_block_facts:
  assumes "verify_tree_block buf sz e = Inr tb"
  shows "tb_data tb = slice buf 0 sz" "0 \<le> tb_count tb"
    and "\<exists>n. tree_entry_size (tb_btype tb) (tb_level tb) = Inr n \<and> 8 + tb_count tb * n \<le> sz"
    and "\<forall>b. e = Some b \<longrightarrow> tb_btype tb = b"
    and "0 \<le> tb_level tb"
  using assms
  by (auto simp: verify_tree_block_def Let_def ebind_Inr_iff raise_if_Inr_iff TREE_HEADER_SIZE_eq
      unpack_Inr_iff block_formats)

lemma SubNode_unpack_closed [simp, intro]:
  "fails_closed (SubNodeLeafEntry_unpack_from buf off)"
  "fails_closed (SubNodeIntermediateEntry_unpack_from buf off)"
  unfolding SubNodeLeafEntry_unpack_from_def SubNodeIntermediateEntry_unpack_from_def
  by (intro fails_closed_ebind; auto)+

lemma read_data_tree_closed [simp, intro]:
  assumes "reader_ok rd"
  shows "fails_closed (read_data_tree rd block)"
proof -
  have "fails_closed (struct_unpack_from (replicate (nat (tb_count tb)) 8) (tb_data tb) TREE_HEADER_SIZE)"
    if buf: "read_allocation rd ref sz = Inr buf"
      and tb: "verify_tree_block buf sz (Some BTYPE_DATA_TREE) = Inr tb" for ref sz buf tb
  proof -
    note facts = verify_tree_block_facts [OF tb] read_allocation_facts [OF buf]
    have "8 + tb_count tb * 8 \<le> sz"
      using facts(3,4) by (auto simp: tree_entry_size_def block_formats calcsize_def)
    moreover have "len (tb_data tb) = sz" using facts by (simp add: length_slice)
    ultimately show ?thesis using facts(2)
      by (simp add: struct_unpack_from_ok TREE_HEADER_SIZE_eq calcsize_def sum_list_replicate)
  qed
  then show ?thesis
    unfolding read_data_tree_def Let_def using assms
    by (intro fails_closed_ebind fails_closed_if fails_closed_emap) auto
qed

lemma read_subnode_block_closed [simp, intro]: "reader_ok rd \<Longrightarrow> fails_closed (read_subnode_block rd block)"
  unfolding read_subnode_block_def Let_def
  by (intro fails_closed_ebind fails_closed_if fails_closed_emap) auto

lemma read_block_closed [simp, intro]: "fails_closed (read_block rd ref sz is_internal)"
  unfolding read_block_def by (intro fails_closed_ebind fails_closed_if) auto

section \<open>A node's data\<close>

text \<open>The reserved bit apart, equal search keys are equal ids: the internal bit is in the key.\<close>

lemma search_key_internal:
  assumes "BlockId_search_key a = BlockId_search_key b"
  shows "BlockId_is_internal a \<longleftrightarrow> BlockId_is_internal b"
proof -
  have "BlockId_is_internal x \<longleftrightarrow> bit (BlockId_search_key x) 1" for x
  proof -
    have m: "U64 = mask 64" by (simp add: U64_def mask_eq_exp_minus_1)
    have "bit (BlockId_search_key x) 1 \<longleftrightarrow> bit (bid_raw x) 1"
      by (simp add: BlockId_search_key_def m BLOCK_RESERVED_BIT_def bit_and_iff bit_not_iff bit_mask_iff bit_1_iff)
    also have "\<dots> \<longleftrightarrow> BlockId_is_internal x"
      by (simp add: BlockId_is_internal_iff bit_iff_odd odd_iff_mod_2_eq_one)
    finally show ?thesis by simp
  qed
  then show ?thesis using assms by simp
qed

lemma reader_find_key: "reader_find rd block = Inr entry \<Longrightarrow> bbe_key entry = BlockId_search_key block"
proof -
  assume "reader_find rd block = Inr entry"
  then have "btree_lookup (rd_bbt rd) (BlockId_search_key block) = Inr (BlockLeaf entry)"
    by (cases "BTree_find (rd_bbt rd) (BlockId_search_key block) Map.empty")
       (auto simp: reader_find_def block_lookup_def btree_lookup_def BlockBTree_find_def sbind_def
        split: sum.splits leaf_entry.splits)
  from btree_lookup_Inr [OF this] show ?thesis by simp
qed

text \<open>
  The B-tree keys on the internal bit, so an internal id never resolves to a data block, nor a data
  id to a tree block: what makes the walk's depth and cycle checks, made on the id before the read,
  cover every tree block.
\<close>

lemma read_data_tree_internal:
  "read_data_tree rd block = Inr (XNode x) \<Longrightarrow> BlockId_is_internal block"
  "read_data_tree rd block = Inr (DataNode d) \<Longrightarrow> \<not> BlockId_is_internal block"
proof -
  have find: "BlockId_is_internal (br_block (bbe_block entry)) \<longleftrightarrow> BlockId_is_internal block"
    if "reader_find rd block = Inr entry" for entry
    using reader_find_key [OF that] by (intro search_key_internal) (simp add: bbe_key_def)
  show "BlockId_is_internal block" if "read_data_tree rd block = Inr (XNode x)"
    using that find unfolding read_data_tree_def Let_def
    by (cases "reader_find rd block") (simp_all add: ebind_Inr_iff split: if_splits)
  show "\<not> BlockId_is_internal block" if "read_data_tree rd block = Inr (DataNode d)"
    using that find unfolding read_data_tree_def Let_def
    by (cases "reader_find rd block") (simp_all add: ebind_Inr_iff split: if_splits)
qed

text \<open>The loop of \<open>read_data_blocks\<close>; the stack's top is its head.\<close>

function data_loop ::
  "block_reader \<Rightarrow> (block_id \<times> int) list \<Rightarrow> int visited \<Rightarrow> bytes list \<Rightarrow> int \<Rightarrow> bytes list result" where
  "data_loop rd [] visited parts assembled = Inr parts"
| "data_loop rd ((child, depth) # stack) visited parts assembled =
     ebind (if BlockId_is_internal child then
              ebind (check_depth depth (max_xblock_depth (rd_limits rd))) (\<lambda>_.
              vs_add visited (BlockId_search_key child))
            else Inr visited) (\<lambda>visited'.
     ebind (read_data_tree rd child) (\<lambda>node.
     case node of
       XNode x \<Rightarrow> data_loop rd (map (\<lambda>c. (c, depth + 1)) (xb_entries x) @ stack) visited' parts assembled
     | DataNode d \<Rightarrow>
         ebind (check_allocation (assembled + len (db_data d)) (max_allocation (rd_limits rd))) (\<lambda>_.
         data_loop rd stack visited' (parts @ [db_data d]) (assembled + len (db_data d)))))"
  by pat_completeness auto
termination
proof (relation "measures [\<lambda>(rd, stack, visited, parts, assembled). vs_room visited,
                           \<lambda>(rd, stack, visited, parts, assembled). length stack]", goal_cases)
  case 1
  then show ?case by simp
next
  case (2 rd child depth stack visited parts assembled visited' node d)
  then show ?case by (auto simp: ebind_Inr_iff dest: vs_add_room split: if_splits)
next
  case (3 rd child depth stack visited parts assembled visited' node x)
  then have "BlockId_is_internal child" using read_data_tree_internal(1) by blast
  with 3 show ?case by (auto simp: ebind_Inr_iff dest: vs_add_room)
qed

definition read_data_blocks :: "block_reader \<Rightarrow> block_id \<Rightarrow> bytes list result" where
  "read_data_blocks rd block =
     ebind (read_data_tree rd block) (\<lambda>root.
     case root of
       DataNode d \<Rightarrow> Inr [db_data d]
     | XNode x \<Rightarrow>
         ebind (check_allocation (xb_total_size x) (max_allocation (rd_limits rd))) (\<lambda>_.
         ebind (vs_add (new_visited (max_items (rd_limits rd))) (BlockId_search_key block)) (\<lambda>visited.
         data_loop rd (map (\<lambda>c. (c, 2)) (xb_entries x)) visited [] 0)))"

definition read_data :: "block_reader \<Rightarrow> block_id \<Rightarrow> bytes result" where
  "read_data rd block = ebind (read_data_blocks rd block) (\<lambda>parts. Inr (concat parts))"

definition node_data_blocks :: "block_reader \<Rightarrow> node_btree_entry \<Rightarrow> bytes list result" where
  "node_data_blocks rd entry = read_data_blocks rd (nbe_data entry)"

definition node_data :: "block_reader \<Rightarrow> node_btree_entry \<Rightarrow> bytes result" where
  "node_data rd entry = read_data rd (nbe_data entry)"

declare data_loop.simps [simp del]

lemma data_loop_closed:
  "reader_ok rd \<Longrightarrow> fails_closed (data_loop rd stack visited parts assembled)"
proof (induction rd stack visited parts assembled rule: data_loop.induct)
  case (1 rd visited parts assembled)
  then show ?case by (simp add: data_loop.simps)
next
  case (2 rd child depth stack visited parts assembled)
  show ?case
    unfolding data_loop.simps(2) using 2
    by (intro fails_closed_ebind fails_closed_if) (auto split: data_node.split)
qed

lemma read_data_blocks_closed [simp, intro]: "reader_ok rd \<Longrightarrow> fails_closed (read_data_blocks rd block)"
  unfolding read_data_blocks_def
  by (intro fails_closed_ebind) (auto split: data_node.split intro!: data_loop_closed)

lemma read_data_closed [simp, intro]: "reader_ok rd \<Longrightarrow> fails_closed (read_data rd block)"
  unfolding read_data_def by (intro fails_closed_ebind) auto

subsection \<open>The tree of blocks\<close>

text \<open>
  What the walk is meant to read: the data blocks under a block, by recursion on the depth left,
  without guard or stack.
\<close>

datatype dtree = DLeaf bytes | DNode block_id "dtree list"

fun load_data :: "block_reader \<Rightarrow> nat \<Rightarrow> block_id \<Rightarrow> dtree result" where
  "load_data rd 0 block =
     ebind (read_data_tree rd block) (\<lambda>node.
     case node of DataNode d \<Rightarrow> Inr (DLeaf (db_data d)) | XNode x \<Rightarrow> Inl PstLimitError)"
| "load_data rd (Suc n) block =
     ebind (read_data_tree rd block) (\<lambda>node.
     case node of
       DataNode d \<Rightarrow> Inr (DLeaf (db_data d))
     | XNode x \<Rightarrow> ebind (emap (load_data rd n) (xb_entries x)) (\<lambda>kids. Inr (DNode block kids)))"

fun dt_leaves :: "dtree \<Rightarrow> bytes list" where
  "dt_leaves (DLeaf bs) = [bs]"
| "dt_leaves (DNode b kids) = concat (map dt_leaves kids)"

fun dt_ids :: "dtree \<Rightarrow> int list" where
  "dt_ids (DLeaf bs) = []"
| "dt_ids (DNode b kids) = BlockId_search_key b # concat (map dt_ids kids)"

definition dtree_at :: "block_reader \<Rightarrow> block_id \<Rightarrow> int \<Rightarrow> dtree \<Rightarrow> bool" where
  "dtree_at rd block depth tr \<longleftrightarrow> load_data rd (nat (max_xblock_depth (rd_limits rd) - depth + 1)) block = Inr tr"

definition total_len :: "bytes list \<Rightarrow> int" where
  "total_len parts = sum_list (map (\<lambda>p. len p) parts)"

lemma total_len_simps [simp]:
  "total_len [] = 0" "total_len (p # ps) = len p + total_len ps" "total_len (ps @ qs) = total_len ps + total_len qs"
  by (simp_all add: total_len_def)

lemma total_len_nonneg [simp]: "0 \<le> total_len parts"
  by (induction parts) simp_all

lemma total_len_concat: "total_len parts = len (concat parts)"
  by (induction parts) simp_all

lemma dtree_at_data:
  "read_data_tree rd block = Inr (DataNode d) \<Longrightarrow> dtree_at rd block depth tr \<longleftrightarrow> tr = DLeaf (db_data d)"
  by (cases "nat (max_xblock_depth (rd_limits rd) - depth + 1)") (auto simp: dtree_at_def)

lemma dtree_at_tree:
  assumes "read_data_tree rd block = Inr (XNode x)"
  shows "dtree_at rd block depth tr \<longleftrightarrow>
    depth \<le> max_xblock_depth (rd_limits rd) \<and>
    (\<exists>kids. list_all2 (\<lambda>c kid. dtree_at rd c (depth + 1) kid) (xb_entries x) kids \<and> tr = DNode block kids)"
proof (cases "depth \<le> max_xblock_depth (rd_limits rd)")
  case True
  then have n: "nat (max_xblock_depth (rd_limits rd) - depth + 1) =
      Suc (nat (max_xblock_depth (rd_limits rd) - (depth + 1) + 1))" by simp
  show ?thesis using assms True
    unfolding dtree_at_def n by (auto simp: ebind_Inr_iff emap_Inr_iff)
next
  case False
  then have "nat (max_xblock_depth (rd_limits rd) - depth + 1) = 0" by simp
  with False assms show ?thesis by (simp add: dtree_at_def)
qed

definition stack_data :: "block_reader \<Rightarrow> (block_id \<times> int) list \<Rightarrow> dtree list \<Rightarrow> bool" where
  "stack_data rd stack trs \<longleftrightarrow> list_all2 (\<lambda>cd tr. dtree_at rd (fst cd) (snd cd) tr) stack trs"

lemma stack_data_Cons:
  "stack_data rd ((child, depth) # stack) trs \<longleftrightarrow>
     (\<exists>tr rest. trs = tr # rest \<and> dtree_at rd child depth tr \<and> stack_data rd stack rest)"
  by (auto simp: stack_data_def list_all2_Cons1)

lemma stack_data_push:
  "stack_data rd (map (\<lambda>c. (c, depth)) cs @ stack) trs \<longleftrightarrow>
     (\<exists>kids rest. trs = kids @ rest \<and> stack_data rd stack rest \<and>
        list_all2 (\<lambda>c kid. dtree_at rd c depth kid) cs kids)"
  unfolding stack_data_def list_all2_append1 list_all2_map1 fst_conv snd_conv
  by (metis (no_types, lifting) list_all2_lengthD length_map)

definition leaves_of :: "dtree list \<Rightarrow> bytes list" where
  "leaves_of trs = concat (map dt_leaves trs)"

definition ids_of :: "dtree list \<Rightarrow> int list" where
  "ids_of trs = concat (map dt_ids trs)"

lemma of_simps [simp]:
  "leaves_of [] = []" "leaves_of (DLeaf bs # trs) = bs # leaves_of trs"
  "leaves_of (DNode b kids # trs) = leaves_of (kids @ trs)"
  "ids_of [] = []" "ids_of (DLeaf bs # trs) = ids_of trs"
  "ids_of (DNode b kids # trs) = BlockId_search_key b # ids_of (kids @ trs)"
  by (simp_all add: leaves_of_def ids_of_def)

theorem data_loop_iff:
  "data_loop rd stack visited parts assembled = Inr out \<longleftrightarrow>
    (\<exists>trs v'. stack_data rd stack trs \<and> vs.visit_all visited (ids_of trs) = Inr v' \<and>
       (leaves_of trs = [] \<or> assembled + total_len (leaves_of trs) \<le> max_allocation (rd_limits rd)) \<and>
       out = parts @ leaves_of trs)"
proof (induction rd stack visited parts assembled arbitrary: out rule: data_loop.induct)
  case (1 rd visited parts assembled)
  then show ?case by (auto simp: data_loop.simps stack_data_def)
next
  case (2 rd child depth stack visited parts assembled)
  note loop = data_loop.simps(2) [of rd child depth stack visited parts assembled]
  show ?case
  proof (cases "read_data_tree rd child")
    case (Inl e)
    then have "\<not> dtree_at rd child depth tr" for tr
      by (cases "nat (max_xblock_depth (rd_limits rd) - depth + 1)") (simp_all add: dtree_at_def)
    with Inl show ?thesis by (auto simp: loop stack_data_Cons ebind_Inr_iff)
  next
    case (Inr node)
    show ?thesis
    proof (cases node)
      case (DataNode d)
      let ?n = "len (db_data d)" and ?max = "max_allocation (rd_limits rd)"
      have int: "\<not> BlockId_is_internal child" using Inr DataNode read_data_tree_internal(2) by simp
      have step: "data_loop rd ((child, depth) # stack) visited parts assembled = Inr out \<longleftrightarrow>
          assembled + ?n \<le> ?max \<and> data_loop rd stack visited (parts @ [db_data d]) (assembled + ?n) = Inr out"
        using int Inr DataNode by (auto simp: loop ebind_Inr_iff check_Inr_iff)
      show ?thesis
      proof (cases "assembled + ?n \<le> ?max")
        case True
        then have "check_allocation (assembled + ?n) ?max = Inr ()" by (simp add: check_Inr_iff)
        note IH = 2(1) [OF _ Inr DataNode this, of visited out]
        show ?thesis
          using True int unfolding step stack_data_Cons dtree_at_data [OF Inr [unfolded DataNode]]
          by (auto simp: IH)
      next
        case False
        have "0 \<le> total_len ps" for ps by simp
        then show ?thesis using False
          unfolding step stack_data_Cons dtree_at_data [OF Inr [unfolded DataNode]]
          by (auto; smt (verit) total_len_nonneg)
      qed
    next
      case (XNode x)
      have int: "BlockId_is_internal child" using Inr XNode read_data_tree_internal(1) by simp
      let ?key = "BlockId_search_key child" and ?max = "max_xblock_depth (rd_limits rd)"
      have step: "data_loop rd ((child, depth) # stack) visited parts assembled = Inr out \<longleftrightarrow>
          depth \<le> ?max \<and> (\<exists>v1. vs_add visited ?key = Inr v1 \<and>
            data_loop rd (map (\<lambda>c. (c, depth + 1)) (xb_entries x) @ stack) v1 parts assembled = Inr out)"
        using int Inr XNode by (auto simp: loop ebind_Inr_iff check_Inr_iff)
      have IH: "data_loop rd (map (\<lambda>c. (c, depth + 1)) (xb_entries x) @ stack) v1 parts assembled = Inr out \<longleftrightarrow>
         (\<exists>trs v'. stack_data rd (map (\<lambda>c. (c, depth + 1)) (xb_entries x) @ stack) trs \<and>
           vs.visit_all v1 (ids_of trs) = Inr v' \<and>
           (leaves_of trs = [] \<or> assembled + total_len (leaves_of trs) \<le> max_allocation (rd_limits rd)) \<and>
           out = parts @ leaves_of trs)"
        if "depth \<le> ?max" "vs_add visited ?key = Inr v1" for v1
        using 2(2) [OF _ Inr XNode, of v1 out] that int by (simp add: ebind_Inr_iff check_ok)
      have "data_loop rd ((child, depth) # stack) visited parts assembled = Inr out \<longleftrightarrow>
          depth \<le> ?max \<and> (\<exists>v1. vs_add visited ?key = Inr v1 \<and>
            (\<exists>kids rest v'. stack_data rd stack rest \<and>
              list_all2 (\<lambda>c kid. dtree_at rd c (depth + 1) kid) (xb_entries x) kids \<and>
              vs.visit_all v1 (ids_of (kids @ rest)) = Inr v' \<and>
              (leaves_of (kids @ rest) = [] \<or>
               assembled + total_len (leaves_of (kids @ rest)) \<le> max_allocation (rd_limits rd)) \<and>
              out = parts @ leaves_of (kids @ rest)))"
        unfolding step using IH unfolding stack_data_push by (metis (no_types, lifting))
      also have "\<dots> \<longleftrightarrow> (\<exists>trs v'. stack_data rd ((child, depth) # stack) trs \<and>
          vs.visit_all visited (ids_of trs) = Inr v' \<and>
          (leaves_of trs = [] \<or> assembled + total_len (leaves_of trs) \<le> max_allocation (rd_limits rd)) \<and>
          out = parts @ leaves_of trs)"
        unfolding stack_data_Cons dtree_at_tree [OF Inr [unfolded XNode]]
        by (auto simp: ebind_Inr_iff; fastforce simp: ebind_Inr_iff)
      finally show ?thesis .
    qed
  qed
qed

subsection \<open>The walk reads exactly the tree\<close>

theorem read_data_blocks_iff:
  assumes "1 \<le> max_xblock_depth (rd_limits rd)"
  shows "read_data_blocks rd block = Inr parts \<longleftrightarrow>
    (\<exists>tr. dtree_at rd block 1 tr \<and> parts = dt_leaves tr \<and>
      (\<forall>x. read_data_tree rd block = Inr (XNode x) \<longrightarrow>
         xb_total_size x \<le> max_allocation (rd_limits rd) \<and> distinct (dt_ids tr) \<and>
         len (dt_ids tr) \<le> max_items (rd_limits rd) \<and>
         (parts = [] \<or> len (concat parts) \<le> max_allocation (rd_limits rd))))"
proof (cases "read_data_tree rd block")
  case (Inl e)
  then have "\<not> dtree_at rd block 1 tr" for tr
    by (cases "nat (max_xblock_depth (rd_limits rd) - 1 + 1)") (simp_all add: dtree_at_def)
  with Inl show ?thesis by (simp add: read_data_blocks_def)
next
  case (Inr node)
  show ?thesis
  proof (cases node)
    case (DataNode d)
    with Inr show ?thesis by (auto simp: read_data_blocks_def dtree_at_data)
  next
    case (XNode x)
    note read = Inr [unfolded XNode]
    let ?max = "max_allocation (rd_limits rd)" and ?key = "BlockId_search_key block"
    let ?new = "new_visited (max_items (rd_limits rd))"
    have two: "(1 :: int) + 1 = 2" by simp
    have "read_data_blocks rd block = Inr parts \<longleftrightarrow> xb_total_size x \<le> ?max \<and>
        (\<exists>v1. vs_add ?new ?key = Inr v1 \<and>
          data_loop rd (map (\<lambda>c. (c, 2)) (xb_entries x) @ []) v1 [] 0 = Inr parts)"
      using read by (auto simp: read_data_blocks_def ebind_Inr_iff check_Inr_iff)
    also have "\<dots> \<longleftrightarrow> xb_total_size x \<le> ?max \<and>
        (\<exists>v1. vs_add ?new ?key = Inr v1 \<and>
          (\<exists>kids v'. list_all2 (\<lambda>c kid. dtree_at rd c 2 kid) (xb_entries x) kids \<and>
             vs.visit_all v1 (ids_of kids) = Inr v' \<and>
             (leaves_of kids = [] \<or> total_len (leaves_of kids) \<le> ?max) \<and> parts = leaves_of kids))"
      unfolding data_loop_iff stack_data_push by (simp add: stack_data_def)
    also have "\<dots> \<longleftrightarrow> xb_total_size x \<le> ?max \<and>
        (\<exists>kids. list_all2 (\<lambda>c kid. dtree_at rd c 2 kid) (xb_entries x) kids \<and>
           (\<exists>v'. vs.visit_all ?new (?key # ids_of kids) = Inr v') \<and>
           (parts = [] \<or> len (concat parts) \<le> ?max) \<and> parts = leaves_of kids)"
      by (auto simp: ebind_Inr_iff total_len_concat)
    also have "\<dots> \<longleftrightarrow> xb_total_size x \<le> ?max \<and>
        (\<exists>kids. list_all2 (\<lambda>c kid. dtree_at rd c 2 kid) (xb_entries x) kids \<and>
           distinct (?key # ids_of kids) \<and> len (?key # ids_of kids) \<le> max_items (rd_limits rd) \<and>
           (parts = [] \<or> len (concat parts) \<le> ?max) \<and> parts = leaves_of kids)"
      unfolding visit_new_iff by auto
    also have "\<dots> \<longleftrightarrow> (\<exists>tr. dtree_at rd block 1 tr \<and> parts = dt_leaves tr \<and>
         xb_total_size x \<le> ?max \<and> distinct (dt_ids tr) \<and>
         len (dt_ids tr) \<le> max_items (rd_limits rd) \<and> (parts = [] \<or> len (concat parts) \<le> ?max))"
      unfolding dtree_at_tree [OF read] two using assms by (auto simp: ids_of_def leaves_of_def)
    finally show ?thesis using read by simp
  qed
qed

text \<open>So what is assembled is bounded: by the budget, or by one block.\<close>

lemma verify_data_block_length:
  assumes "verify_data_block rd buf sz = Inr db" "0 \<le> sz" "sz \<le> len buf"
  shows "len (db_data db) = sz"
proof -
  obtain t where "decode_block (slice buf 0 sz) (crypt_value (rd_crypt rd)) (BlockTrailer_cyclic_key t) = Inr (db_data db)"
    using assms(1) by (auto simp: verify_data_block_def Let_def ebind_Inr_iff)
  then have "length (db_data db) = length (slice buf 0 sz)"
    using decode_block_ok [OF cyclic_key_nonneg, of "slice buf 0 sz" "rd_crypt rd" t] by auto
  then show ?thesis using length_slice [of 0 sz buf] assms(2,3) by simp
qed

lemma read_data_tree_length:
  assumes "read_data_tree rd block = Inr (DataNode d)"
  shows "1 \<le> len (db_data d)" "len (db_data d) \<le> 8176"
proof -
  obtain entry :: block_btree_entry and buf where buf: "read_allocation rd (bbe_block entry) (bbe_size entry) = Inr buf"
    and db: "verify_data_block rd buf (bbe_size entry) = Inr d"
    using assms by (auto simp: read_data_tree_def Let_def ebind_Inr_iff split: if_splits)
  note facts = read_allocation_facts [OF buf]
  have "len (db_data d) = bbe_size entry"
    using facts by (intro verify_data_block_length [OF db]) linarith+
  with facts block_size_facts(2) [OF facts(1)] show "1 \<le> len (db_data d)" "len (db_data d) \<le> 8176" by simp_all
qed

theorem read_data_length:
  assumes "1 \<le> max_xblock_depth (rd_limits rd)" "0 \<le> max_allocation (rd_limits rd)" "read_data rd block = Inr bytes"
  shows "len bytes \<le> max 8176 (max_allocation (rd_limits rd))"
proof -
  obtain parts where parts: "read_data_blocks rd block = Inr parts" and bytes: "bytes = concat parts"
    using assms(3) by (auto simp: read_data_def ebind_Inr_iff)
  obtain node where node: "read_data_tree rd block = Inr node"
    using parts by (auto simp: read_data_blocks_def ebind_Inr_iff)
  show ?thesis
  proof (cases node)
    case (DataNode d)
    then have "parts = [db_data d]" using parts node by (simp add: read_data_blocks_def)
    then show ?thesis using read_data_tree_length [of rd block d] node DataNode bytes by simp
  next
    case (XNode x)
    then have "parts = [] \<or> len (concat parts) \<le> max_allocation (rd_limits rd)"
      using parts node unfolding read_data_blocks_iff [OF assms(1)] by auto
    then show ?thesis using assms(2) bytes by auto
  qed
qed

section \<open>The subnode tree\<close>

text \<open>A \<open>dict\<close> keeps its insertion order: an association list with \<open>setdefault\<close>.\<close>

definition dict_setdefault :: "('k \<times> 'v) list \<Rightarrow> 'k \<Rightarrow> 'v \<Rightarrow> ('k \<times> 'v) list" where
  "dict_setdefault d k v = (if k \<in> set (map fst d) then d else d @ [(k, v)])"

type_synonym subnodes = "(node_id \<times> sub_node_leaf_entry) list"

definition add_entries :: "sub_node_leaf_entry list \<Rightarrow> subnodes \<Rightarrow> subnodes" where
  "add_entries es d = fold (\<lambda>e d. dict_setdefault d (sl_node e) e) es d"

function subnode_loop ::
  "block_reader \<Rightarrow> (block_id \<times> int) list \<Rightarrow> int visited \<Rightarrow> subnodes \<Rightarrow> int \<Rightarrow> subnodes result" where
  "subnode_loop rd [] visited entries count = Inr entries"
| "subnode_loop rd ((child, depth) # stack) visited entries count =
     ebind (check_depth depth (max_subnode_depth (rd_limits rd))) (\<lambda>_.
     ebind (vs_add visited (BlockId_search_key child)) (\<lambda>visited'.
     ebind (read_subnode_block rd child) (\<lambda>node.
     case node of
       SIBlock s \<Rightarrow>
         subnode_loop rd (map (\<lambda>e. (si_next_level e, depth + 1)) (sib_entries s) @ stack) visited' entries count
     | SLBlock s \<Rightarrow>
         ebind (check_count (count + len (slb_entries s)) (max_items (rd_limits rd))) (\<lambda>_.
         subnode_loop rd stack visited' (add_entries (slb_entries s) entries) (count + len (slb_entries s))))))"
  by pat_completeness auto
termination
  by (relation "measure (\<lambda>(rd, stack, visited, entries, count). vs_room visited)") (auto dest: vs_add_room)

definition read_subnode_tree :: "block_reader \<Rightarrow> block_id \<Rightarrow> subnodes result" where
  "read_subnode_tree rd block =
     subnode_loop rd [(block, 1)] (new_visited (max_items (rd_limits rd))) [] 0"

declare subnode_loop.simps [simp del]

lemma subnode_loop_closed:
  "reader_ok rd \<Longrightarrow> fails_closed (subnode_loop rd stack visited entries count)"
proof (induction rd stack visited entries count rule: subnode_loop.induct)
  case (1 rd visited entries count)
  then show ?case by (simp add: subnode_loop.simps)
next
  case (2 rd child depth stack visited entries count)
  show ?case
    unfolding subnode_loop.simps(2) using 2
    by (intro fails_closed_ebind) (auto split: sub_node_block.split)
qed

lemma read_subnode_tree_closed [simp, intro]: "reader_ok rd \<Longrightarrow> fails_closed (read_subnode_tree rd block)"
  by (simp add: read_subnode_tree_def subnode_loop_closed)

subsection \<open>What the dictionary holds\<close>

text \<open>The ids of the blocks of a subnode tree in pre-order, and the leaf entries in tree order.\<close>

fun load_subnodes :: "block_reader \<Rightarrow> nat \<Rightarrow> block_id \<Rightarrow> (int list \<times> sub_node_leaf_entry list) result" where
  "load_subnodes rd 0 block = Inl PstLimitError"
| "load_subnodes rd (Suc n) block =
     ebind (read_subnode_block rd block) (\<lambda>node.
     case node of
       SLBlock s \<Rightarrow> Inr ([BlockId_search_key block], slb_entries s)
     | SIBlock s \<Rightarrow>
         ebind (emap (\<lambda>e. load_subnodes rd n (si_next_level e)) (sib_entries s)) (\<lambda>kids.
         Inr (BlockId_search_key block # concat (map fst kids), concat (map snd kids))))"

definition subnodes_at ::
  "block_reader \<Rightarrow> block_id \<Rightarrow> int \<Rightarrow> int list \<times> sub_node_leaf_entry list \<Rightarrow> bool" where
  "subnodes_at rd block depth r \<longleftrightarrow>
     load_subnodes rd (nat (max_subnode_depth (rd_limits rd) - depth + 1)) block = Inr r"

lemma subnodes_at_eq:
  "subnodes_at rd block depth r \<longleftrightarrow> depth \<le> max_subnode_depth (rd_limits rd) \<and>
    (\<exists>node. read_subnode_block rd block = Inr node \<and>
      (case node of
         SLBlock s \<Rightarrow> r = ([BlockId_search_key block], slb_entries s)
       | SIBlock s \<Rightarrow>
           (\<exists>kids. list_all2 (\<lambda>e kid. subnodes_at rd (si_next_level e) (depth + 1) kid) (sib_entries s) kids \<and>
             r = (BlockId_search_key block # concat (map fst kids), concat (map snd kids)))))"
proof (cases "depth \<le> max_subnode_depth (rd_limits rd)")
  case True
  then have n: "nat (max_subnode_depth (rd_limits rd) - depth + 1) =
      Suc (nat (max_subnode_depth (rd_limits rd) - (depth + 1) + 1))" by simp
  show ?thesis using True unfolding subnodes_at_def n
    by (auto simp: ebind_Inr_iff emap_Inr_iff split: sub_node_block.splits)
next
  case False
  then have "nat (max_subnode_depth (rd_limits rd) - depth + 1) = 0" by simp
  with False show ?thesis by (simp add: subnodes_at_def)
qed

definition stack_subnodes ::
  "block_reader \<Rightarrow> (block_id \<times> int) list \<Rightarrow> (int list \<times> sub_node_leaf_entry list) list \<Rightarrow> bool" where
  "stack_subnodes rd stack rs \<longleftrightarrow> list_all2 (\<lambda>cd r. subnodes_at rd (fst cd) (snd cd) r) stack rs"

lemma stack_subnodes_Cons:
  "stack_subnodes rd ((child, depth) # stack) rs \<longleftrightarrow>
     (\<exists>r rest. rs = r # rest \<and> subnodes_at rd child depth r \<and> stack_subnodes rd stack rest)"
  by (auto simp: stack_subnodes_def list_all2_Cons1)

lemma stack_subnodes_push:
  "stack_subnodes rd (map (\<lambda>e. (si_next_level e, depth)) es @ stack) rs \<longleftrightarrow>
     (\<exists>kids rest. rs = kids @ rest \<and> stack_subnodes rd stack rest \<and>
        list_all2 (\<lambda>e kid. subnodes_at rd (si_next_level e) depth kid) es kids)"
  unfolding stack_subnodes_def list_all2_append1 list_all2_map1 fst_conv snd_conv
  by (metis (no_types, lifting) list_all2_lengthD length_map)

lemma add_entries_append [simp]: "add_entries (xs @ ys) d = add_entries ys (add_entries xs d)"
  by (simp add: add_entries_def)

lemma add_entries_Nil [simp]: "add_entries [] d = d"
  by (simp add: add_entries_def)

theorem subnode_loop_iff:
  "count \<le> max_items (rd_limits rd) \<Longrightarrow>
   subnode_loop rd stack visited d count = Inr out \<longleftrightarrow>
    (\<exists>rs v'. stack_subnodes rd stack rs \<and> vs.visit_all visited (concat (map fst rs)) = Inr v' \<and>
       count + len (concat (map snd rs)) \<le> max_items (rd_limits rd) \<and>
       out = add_entries (concat (map snd rs)) d)"
proof (induction rd stack visited d count arbitrary: out rule: subnode_loop.induct)
  case (1 rd visited d count)
  then show ?case by (auto simp: subnode_loop.simps stack_subnodes_def)
next
  case (2 rd child depth stack visited d count)
  note loop = subnode_loop.simps(2) [of rd child depth stack visited d count]
  let ?max = "max_subnode_depth (rd_limits rd)" and ?items = "max_items (rd_limits rd)"
  let ?key = "BlockId_search_key child"
  show ?case
  proof (cases "read_subnode_block rd child")
    case (Inl e)
    then show ?thesis by (auto simp: loop stack_subnodes_Cons subnodes_at_eq [of rd child] ebind_Inr_iff)
  next
    case (Inr node)
    show ?thesis
    proof (cases node)
      case (SLBlock s)
      let ?n = "len (slb_entries s)"
      have "subnode_loop rd ((child, depth) # stack) visited d count = Inr out \<longleftrightarrow>
          depth \<le> ?max \<and> (\<exists>v1. vs_add visited ?key = Inr v1 \<and> count + ?n \<le> ?items \<and>
            subnode_loop rd stack v1 (add_entries (slb_entries s) d) (count + ?n) = Inr out)"
        using Inr SLBlock by (auto simp: loop ebind_Inr_iff check_Inr_iff)
      also have "\<dots> \<longleftrightarrow> depth \<le> ?max \<and> (\<exists>v1. vs_add visited ?key = Inr v1 \<and> count + ?n \<le> ?items \<and>
            (\<exists>rs v'. stack_subnodes rd stack rs \<and> vs.visit_all v1 (concat (map fst rs)) = Inr v' \<and>
               count + ?n + len (concat (map snd rs)) \<le> ?items \<and>
               out = add_entries (concat (map snd rs)) (add_entries (slb_entries s) d)))"
        using 2(1) [OF _ _ Inr SLBlock] by (metis (no_types, lifting) check_ok)
      also have "\<dots> \<longleftrightarrow> (\<exists>rs v'. stack_subnodes rd ((child, depth) # stack) rs \<and>
          vs.visit_all visited (concat (map fst rs)) = Inr v' \<and>
          count + len (concat (map snd rs)) \<le> ?items \<and> out = add_entries (concat (map snd rs)) d)"
        unfolding stack_subnodes_Cons subnodes_at_eq [of rd child] using Inr SLBlock
        by (auto simp: ebind_Inr_iff; fastforce simp: ebind_Inr_iff)
      finally show ?thesis .
    next
      case (SIBlock s)
      have "subnode_loop rd ((child, depth) # stack) visited d count = Inr out \<longleftrightarrow>
          depth \<le> ?max \<and> (\<exists>v1. vs_add visited ?key = Inr v1 \<and>
            subnode_loop rd (map (\<lambda>e. (si_next_level e, depth + 1)) (sib_entries s) @ stack) v1 d count = Inr out)"
        using Inr SIBlock by (auto simp: loop ebind_Inr_iff check_Inr_iff)
      also have "\<dots> \<longleftrightarrow> depth \<le> ?max \<and> (\<exists>v1. vs_add visited ?key = Inr v1 \<and>
            (\<exists>kids rest v'. stack_subnodes rd stack rest \<and>
               list_all2 (\<lambda>e kid. subnodes_at rd (si_next_level e) (depth + 1) kid) (sib_entries s) kids \<and>
               vs.visit_all v1 (concat (map fst (kids @ rest))) = Inr v' \<and>
               count + len (concat (map snd (kids @ rest))) \<le> ?items \<and>
               out = add_entries (concat (map snd (kids @ rest))) d))"
        using 2(2) [OF _ _ Inr SIBlock 2(3)] unfolding stack_subnodes_push
        by (metis (no_types, lifting) check_ok(1))
      also have "\<dots> \<longleftrightarrow> (\<exists>rs v'. stack_subnodes rd ((child, depth) # stack) rs \<and>
          vs.visit_all visited (concat (map fst rs)) = Inr v' \<and>
          count + len (concat (map snd rs)) \<le> ?items \<and> out = add_entries (concat (map snd rs)) d)"
        unfolding stack_subnodes_Cons subnodes_at_eq [of rd child] using Inr SIBlock
        by (auto simp: ebind_Inr_iff; fastforce simp: ebind_Inr_iff)
      finally show ?thesis .
    qed
  qed
qed

text \<open>The dictionary's law: the first entry for a node id is the one kept.\<close>

lemma dict_setdefault_map_of:
  "map_of (dict_setdefault d k v) = (if k \<in> dom (map_of d) then map_of d else (map_of d)(k \<mapsto> v))"
proof (cases "k \<in> dom (map_of d)")
  case True
  then show ?thesis by (simp add: dict_setdefault_def dom_map_of_conv_image_fst)
next
  case False
  then have "map_of d k = None" "k \<notin> fst ` set d"
    by (simp_all add: domIff map_of_eq_None_iff)
  with False show ?thesis
    by (auto simp: dict_setdefault_def map_add_def fun_eq_iff split: option.splits)
qed

lemma dict_setdefault_distinct: "distinct (map fst d) \<Longrightarrow> distinct (map fst (dict_setdefault d k v))"
  by (auto simp: dict_setdefault_def)

lemma add_entries_facts:
  "distinct (map fst d) \<Longrightarrow> distinct (map fst (add_entries es d))"
  "map_of (add_entries es d) nid =
     (case map_of d nid of Some e \<Rightarrow> Some e | None \<Rightarrow> find (\<lambda>e. sl_node e = nid) es)"
proof -
  show "distinct (map fst d) \<Longrightarrow> distinct (map fst (add_entries es d))"
    by (induction es arbitrary: d) (auto simp: add_entries_def dict_setdefault_distinct)
  show "map_of (add_entries es d) nid =
     (case map_of d nid of Some e \<Rightarrow> Some e | None \<Rightarrow> find (\<lambda>e. sl_node e = nid) es)"
  proof (induction es arbitrary: d)
    case Nil
    then show ?case by (simp split: option.split)
  next
    case (Cons e es)
    have "add_entries (e # es) d = add_entries es (dict_setdefault d (sl_node e) e)"
      by (simp add: add_entries_def)
    then show ?case
      by (auto simp: Cons.IH dict_setdefault_map_of dom_def split: option.splits)
  qed
qed

theorem read_subnode_tree_iff:
  assumes "0 \<le> max_items (rd_limits rd)"
  shows "read_subnode_tree rd block = Inr d \<longleftrightarrow>
    (\<exists>ids es. subnodes_at rd block 1 (ids, es) \<and> distinct ids \<and>
       len ids \<le> max_items (rd_limits rd) \<and> len es \<le> max_items (rd_limits rd) \<and> d = add_entries es [])"
proof -
  have ne: "subnodes_at rd block 1 (ids, es) \<Longrightarrow> ids \<noteq> []" for ids es
  proof -
    assume "subnodes_at rd block 1 (ids, es)"
    then obtain n where "load_subnodes rd n block = Inr (ids, es)" by (auto simp: subnodes_at_def)
    then obtain m node where "read_subnode_block rd block = Inr node" "load_subnodes rd (Suc m) block = Inr (ids, es)"
      by (cases n) (auto simp: ebind_Inr_iff)
    then show "ids \<noteq> []" by (cases node) (auto simp: ebind_Inr_iff)
  qed
  have "read_subnode_tree rd block = Inr d \<longleftrightarrow>
      (\<exists>ids es. subnodes_at rd block 1 (ids, es) \<and>
         (\<exists>v'. vs.visit_all (new_visited (max_items (rd_limits rd))) ids = Inr v') \<and>
         len es \<le> max_items (rd_limits rd) \<and> d = add_entries es [])"
  proof -
    have single: "stack_subnodes rd [(block, 1)] rs \<longleftrightarrow> (\<exists>ids es. rs = [(ids, es)] \<and> subnodes_at rd block 1 (ids, es))" for rs
      by (auto simp: stack_subnodes_def list_all2_Cons1)
    show ?thesis
      unfolding read_subnode_tree_def subnode_loop_iff [OF assms] single by fastforce
  qed
  also have "\<dots> \<longleftrightarrow> (\<exists>ids es. subnodes_at rd block 1 (ids, es) \<and> distinct ids \<and>
       len ids \<le> max_items (rd_limits rd) \<and> len es \<le> max_items (rd_limits rd) \<and> d = add_entries es [])"
    unfolding visit_new_iff using ne assms by fastforce
  finally show ?thesis .
qed

section \<open>The writer's side\<close>

text \<open>
  The allocation of a data block: the obfuscated bytes, zeros up to the trailer, and the trailer at
  the end of the 64-byte-aligned allocation.
\<close>

definition data_trailer :: "bytes \<Rightarrow> crypt_method \<Rightarrow> block_id \<Rightarrow> int \<Rightarrow> block_trailer" where
  "data_trailer plain m bid signature =
     \<lparr>blt_size = len plain, blt_signature = signature,
      blt_crc = compute_crc 0 (encode_block plain m (BlockId_search_key bid AND U32)), blt_block_id = bid\<rparr>"

definition data_block_bytes :: "bytes \<Rightarrow> crypt_method \<Rightarrow> block_id \<Rightarrow> int \<Rightarrow> bytes" where
  "data_block_bytes plain m bid signature =
     (let total = (case block_size (len plain) of Inr n \<Rightarrow> nat n | Inl e \<Rightarrow> 0)
      in encode_block plain m (BlockId_search_key bid AND U32) @
         replicate (total - length plain - 16) 0 @ BlockTrailer_pack (data_trailer plain m bid signature))"

definition writable_data :: "bytes \<Rightarrow> block_id \<Rightarrow> int \<Rightarrow> bool" where
  "writable_data plain bid signature \<longleftrightarrow>
     1 \<le> len plain \<and> len plain \<le> MAX_BLOCK_DATA_SIZE \<and> block_id_ok bid \<and> \<not> BlockId_is_internal bid \<and>
     0 \<le> signature \<and> signature < 2 ^ 16"

lemma data_trailer_ok: "writable_data plain bid sig \<Longrightarrow> block_trailer_ok (data_trailer plain m bid sig)"
  using compute_crc_range [of 0 "encode_block plain m (BlockId_search_key bid AND U32)"]
  by (simp add: writable_data_def block_trailer_ok_def data_trailer_def)

lemma data_block_bytes_length:
  assumes "writable_data plain bid sig" "block_size (len plain) = Inr n"
  shows "len (data_block_bytes plain m bid sig) = n"
proof -
  have "len (BlockTrailer_pack (data_trailer plain m bid sig)) = 16"
    using BlockTrailer_codec.encode_length data_trailer_ok [OF assms(1)] by blast
  with assms(2) block_size_facts(4) [OF assms(2)] show ?thesis
    by (simp add: data_block_bytes_def)
qed

lemma verify_data_block_bytes:
  assumes w: "writable_data plain bid sig" and m: "rd_crypt rd = m"
  shows "verify_data_block rd (data_block_bytes plain m bid sig) (len plain) =
    Inr \<lparr>db_data = plain, db_trailer = data_trailer plain m bid sig\<rparr>"
proof -
  let ?key = "BlockId_search_key bid AND U32" and ?t = "data_trailer plain m bid sig"
  let ?buf = "data_block_bytes plain m bid sig"
  obtain n where n: "block_size (len plain) = Inr n"
    using w block_size_ok [of "len plain"] by (auto simp: writable_data_def block_consts)
  define pre where "pre = encode_block plain m ?key @ replicate (nat n - length plain - 16) (0 :: byte)"
  have buf: "?buf = pre @ BlockTrailer_pack ?t @ []"
    by (simp add: data_block_bytes_def n pre_def)
  have "len (BlockTrailer_pack ?t) = 16"
    using BlockTrailer_codec.encode_length data_trailer_ok [OF w] by blast
  then have "len ?buf - BLOCK_TRAILER_SIZE = len pre"
    using buf by (simp add: block_consts)
  then have trailer: "BlockTrailer_unpack_from ?buf (len ?buf - BLOCK_TRAILER_SIZE) = Inr ?t"
    using BlockTrailer_codec.decode_encode [OF data_trailer_ok [OF w], of pre m "[]"] buf by simp
  have data: "slice ?buf 0 (len plain) = encode_block plain m ?key"
    by (simp add: buf pre_def slice_def)
  have key: "BlockTrailer_cyclic_key ?t = ?key"
    by (simp add: BlockTrailer_cyclic_key_def data_trailer_def)
  have "0 \<le> ?key" using cyclic_key_nonneg [of ?t] key by simp
  then show ?thesis
    using w trailer data key m
    by (simp add: verify_data_block_def data_trailer_def BlockTrailer_verify_block_id_def writable_data_def
        BlockTrailer_verify_crc_def decode_encode_block)
qed

text \<open>A block written at an offset of the file reads back, under each of the three methods.\<close>

theorem read_block_written:
  assumes w: "writable_data plain bid sig"
    and store: "rd_f rd = pre @ data_block_bytes plain (rd_crypt rd) bid sig @ post"
    and at: "ib_value (br_index ref) = len pre"
    and fits: "len (rd_f rd) \<le> max_file_size (rd_limits rd)"
  shows "read_block rd ref (len plain) False = Inr plain"
proof -
  let ?buf = "data_block_bytes plain (rd_crypt rd) bid sig"
  obtain n where n: "block_size (len plain) = Inr n"
    using w block_size_ok [of "len plain"] by (auto simp: writable_data_def block_consts)
  have len: "len ?buf = n" by (rule data_block_bytes_length [OF w n])
  then have "read_allocation rd ref (len plain) = Inr ?buf"
    using store at fits n by (auto simp: read_allocation_def Let_def file_read_def raise_if_def)
  then show ?thesis using verify_data_block_bytes [OF w refl, of rd] by (simp add: read_block_def)
qed

text \<open>And data altered in a burst of up to four bytes is refused.\<close>

theorem verify_data_block_burst:
  assumes acc: "verify_data_block rd (pre @ u @ post) sz = Inr db"
    and at: "len pre + len u \<le> sz" "sz + 16 \<le> len (pre @ u @ post)"
    and len: "length u \<le> 4" "length v = length u" and neq: "u \<noteq> v"
  shows "\<exists>e. verify_data_block rd (pre @ v @ post) sz = Inl e \<and> is_pst_error e"
proof (cases "verify_data_block rd (pre @ v @ post) sz")
  case (Inl e)
  then show ?thesis using verify_data_block_closed fails_closedD by blast
next
  case (Inr db')
  define rest where "rest = take (nat sz - length pre - length u) post"
  have slices: "slice (pre @ x @ post) 0 sz = pre @ x @ rest" if "length x = length u" for x
  proof -
    have "length pre + length x \<le> nat sz" using at(1) that by linarith
    then show ?thesis using that by (simp add: slice_def rest_def)
  qed
  let ?at = "len (pre @ u @ post) - BLOCK_TRAILER_SIZE"
  have "nat ?at \<ge> length pre + length u" using at by (simp add: block_consts)
  then have drops: "drop (nat ?at) (pre @ u @ post) = drop (nat ?at) (pre @ v @ post)"
    using len(2) by (simp add: drop_append) 
  have "BlockTrailer_unpack_from (pre @ u @ post) ?at = BlockTrailer_unpack_from (pre @ v @ post) ?at"
    using drops len(2) by (simp add: BlockTrailer_unpack_from_def unpack_eq)
  moreover have "len (pre @ v @ post) - BLOCK_TRAILER_SIZE = ?at" using len(2) by simp
  ultimately obtain t :: block_trailer where "compute_crc 0 (slice (pre @ u @ post) 0 sz) = blt_crc t"
    "compute_crc 0 (slice (pre @ v @ post) 0 sz) = blt_crc t"
    using acc Inr by (auto simp: verify_data_block_def Let_def ebind_Inr_iff verify_Inr_iff)
  then have "compute_crc 0 (pre @ u @ rest) = compute_crc 0 (pre @ v @ rest)"
    using slices len(2) by simp
  then show ?thesis
    using crc_run_burst [OF len neq, of "word_of_int 0" pre rest] by (simp add: compute_crc_run word_uint_eq_iff)
qed

section \<open>Properties\<close>

subsection \<open>Tree blocks as they are written\<close>

definition tree_header :: "int \<Rightarrow> int \<Rightarrow> int \<Rightarrow> int \<Rightarrow> bytes" where
  "tree_header btype level count fourth = struct_pack DATA_TREE_HEADER_FORMAT [btype, level, count, fourth]"

definition xblock_body :: "int \<Rightarrow> int \<Rightarrow> block_id list \<Rightarrow> bytes" where
  "xblock_body level lcb entries =
     tree_header BTYPE_DATA_TREE level (len entries) lcb @
     struct_pack (replicate (length entries) 8) (map bid_raw entries)"

definition slblock_body :: "sub_node_leaf_entry list \<Rightarrow> bytes" where
  "slblock_body entries =
     tree_header BTYPE_SUBNODE_TREE 0 (len entries) 0 @ concat (map SubNodeLeafEntry_pack entries)"

definition tree_block_bytes :: "bytes \<Rightarrow> block_id \<Rightarrow> int \<Rightarrow> bytes" where
  "tree_block_bytes body bid signature =
     (let alloc = (case block_size (len body) of Inr n \<Rightarrow> nat n | Inl e \<Rightarrow> 0)
      in body @ replicate (alloc - length body - 16) 0 @
         BlockTrailer_pack \<lparr>blt_size = len body, blt_signature = signature,
           blt_crc = compute_crc 0 body, blt_block_id = bid\<rparr>)"

definition writable_tree :: "block_id \<Rightarrow> int \<Rightarrow> bool" where
  "writable_tree bid signature \<longleftrightarrow>
     block_id_ok bid \<and> BlockId_is_internal bid \<and> 0 \<le> signature \<and> signature < 2 ^ 16"

definition writable_xblock :: "int \<Rightarrow> int \<Rightarrow> block_id list \<Rightarrow> bool" where
  "writable_xblock level lcb entries \<longleftrightarrow>
     0 \<le> level \<and> level < 256 \<and> 0 \<le> lcb \<and> lcb < 2 ^ 32 \<and> length entries \<le> 1021 \<and>
     (\<forall>e \<in> set entries. block_id_ok e)"

lemma fits_ids: "\<forall>e \<in> set es. block_id_ok e \<Longrightarrow> fits (replicate (length es) 8) (map bid_raw es)"
  by (induction es) (auto simp: block_id_ok_def U64_def)

lemma emap_mk_BlockId: "\<forall>e \<in> set es. block_id_ok e \<Longrightarrow> emap mk_BlockId (map bid_raw es) = Inr es"
  by (induction es) (auto simp: mk_BlockId_of)

lemma length_tree_header [simp]: "length (tree_header btype level count fourth) = 8"
  by (simp add: tree_header_def length_struct_pack block_formats)

lemma verify_tree_bytes:
  assumes w: "writable_tree bid sig"
    and fits: "fits DATA_TREE_HEADER_FORMAT [btype, level, count, fourth]"
    and entry: "tree_entry_size btype level = Inr e" and body: "body = tree_header btype level count fourth @ entries"
    and len: "len entries = count * e" "len body \<le> 8176"
  shows "verify_tree_block (tree_block_bytes body bid sig) (len body) (Some btype) =
     Inr \<lparr>tb_data = body,
          tb_trailer = \<lparr>blt_size = len body, blt_signature = sig, blt_crc = compute_crc 0 body, blt_block_id = bid\<rparr>,
          tb_btype = btype, tb_level = level, tb_count = count, tb_fourth = fourth\<rparr>"
    and "block_size (len body) = Inr (len (tree_block_bytes body bid sig))"
proof -
  let ?t = "\<lparr>blt_size = len body, blt_signature = sig, blt_crc = compute_crc 0 body, blt_block_id = bid\<rparr>"
  let ?buf = "tree_block_bytes body bid sig"
  have lb: "len body = 8 + count * e" using body len(1) by simp
  have pos: "8 \<le> len body" using body by simp
  then obtain n where n: "block_size (len body) = Inr n" using block_size_ok [of "len body"] len(2) by auto
  have t_ok: "block_trailer_ok ?t"
    using w pos len(2) compute_crc_range [of 0 body]
    by (simp add: block_trailer_ok_def writable_tree_def block_consts)
  define pre where "pre = body @ replicate (nat n - length body - 16) (0 :: byte)"
  have buf: "?buf = pre @ BlockTrailer_pack ?t @ []"
    by (simp add: tree_block_bytes_def n pre_def)
  have len_t: "len (BlockTrailer_pack ?t) = 16" using BlockTrailer_codec.encode_length [OF t_ok] .
  have len_pre: "len pre = n - 16" using block_size_facts(4) [OF n] by (simp add: pre_def)
  have len_buf: "len ?buf = n" using buf len_t len_pre by simp
  then show "block_size (len body) = Inr (len ?buf)" using n by simp
  have trailer: "BlockTrailer_unpack_from ?buf (n - 16) = Inr ?t"
    using BlockTrailer_codec.decode_encode [OF t_ok, of pre "[]"] buf len_pre by simp
  define tail where "tail = entries @ replicate (nat n - length body - 16) 0 @ BlockTrailer_pack ?t"
  have "?buf = body @ replicate (nat n - length body - 16) 0 @ BlockTrailer_pack ?t"
    by (simp add: buf pre_def)
  also have "\<dots> = struct_pack DATA_TREE_HEADER_FORMAT [btype, level, count, fourth] @ tail"
    unfolding tail_def by (subst body) (simp only: tree_header_def append_assoc)
  finally have "?buf = struct_pack DATA_TREE_HEADER_FORMAT [btype, level, count, fourth] @ tail" .
  then have h: "unpack DATA_TREE_HEADER_FORMAT ?buf 0 = Inr [btype, level, count, fourth]"
    using unpack_pack0 [OF fits] by metis
  have data: "slice ?buf 0 (len body) = body" by (simp add: buf pre_def slice_def)
  show "verify_tree_block ?buf (len body) (Some btype) = Inr \<lparr>tb_data = body, tb_trailer = ?t,
          tb_btype = btype, tb_level = level, tb_count = count, tb_fourth = fourth\<rparr>"
    using h entry n trailer data len_buf lb pos w
    by (simp add: verify_tree_block_def raise_if_def TREE_HEADER_SIZE_eq BLOCK_TRAILER_SIZE_def
        BlockTrailer_verify_block_id_def BlockTrailer_verify_crc_def writable_tree_def)
qed

lemma verify_xblock_bytes:
  assumes w: "writable_tree bid sig" and x: "writable_xblock level lcb entries"
  shows "\<exists>t. verify_tree_block (tree_block_bytes (xblock_body level lcb entries) bid sig)
       (len (xblock_body level lcb entries)) (Some BTYPE_DATA_TREE) =
     Inr \<lparr>tb_data = xblock_body level lcb entries, tb_trailer = t, tb_btype = BTYPE_DATA_TREE, tb_level = level,
          tb_count = len entries, tb_fourth = lcb\<rparr>"
    and "len (xblock_body level lcb entries) = 8 + 8 * len entries"
    and "block_size (len (xblock_body level lcb entries)) =
      Inr (len (tree_block_bytes (xblock_body level lcb entries) bid sig))"
proof -
  have entry: "tree_entry_size BTYPE_DATA_TREE level = Inr 8"
    by (simp add: tree_entry_size_def block_formats calcsize_def)
  have fits: "fits DATA_TREE_HEADER_FORMAT [BTYPE_DATA_TREE, level, len entries, lcb]"
    using x by (simp add: writable_xblock_def block_formats block_consts)
  have ids: "len (struct_pack (replicate (length entries) 8) (map bid_raw entries)) = len entries * 8"
    by (simp add: length_struct_pack sum_list_replicate)
  show len: "len (xblock_body level lcb entries) = 8 + 8 * len entries"
    using ids by (simp add: xblock_body_def)
  then have small: "len (xblock_body level lcb entries) \<le> 8176" using x by (simp add: writable_xblock_def)
  note v = verify_tree_bytes [OF w fits entry xblock_body_def ids small]
  show "\<exists>t. verify_tree_block (tree_block_bytes (xblock_body level lcb entries) bid sig)
       (len (xblock_body level lcb entries)) (Some BTYPE_DATA_TREE) =
     Inr \<lparr>tb_data = xblock_body level lcb entries, tb_trailer = t, tb_btype = BTYPE_DATA_TREE, tb_level = level,
          tb_count = len entries, tb_fourth = lcb\<rparr>" using v(1) by blast
  show "block_size (len (xblock_body level lcb entries)) =
      Inr (len (tree_block_bytes (xblock_body level lcb entries) bid sig))" by (rule v(2))
qed

lemma read_allocation_at:
  assumes "block_size sz = Inr (len alloc)" "rd_f rd = pre @ alloc @ post" "ib_value (br_index ref) = len pre"
    and "len (rd_f rd) \<le> max_file_size (rd_limits rd)"
  shows "read_allocation rd ref sz = Inr alloc"
  using assms by (simp add: read_allocation_def Let_def file_read_def raise_if_def)

text \<open>A tree block written where the block B-tree says is read as it was written.\<close>

lemma read_data_tree_xblock:
  assumes w: "writable_tree bid sig" and x: "writable_xblock level lcb entries"
    and find: "reader_find rd block = Inr entry" and internal: "BlockId_is_internal (br_block (bbe_block entry))"
    and sz: "bbe_size entry = len (xblock_body level lcb entries)"
    and store: "rd_f rd = pre @ tree_block_bytes (xblock_body level lcb entries) bid sig @ post"
    and at: "ib_value (br_index (bbe_block entry)) = len pre"
    and fits: "len (rd_f rd) \<le> max_file_size (rd_limits rd)"
  shows "\<exists>t. read_data_tree rd block =
     Inr (XNode \<lparr>xb_level = level, xb_total_size = lcb, xb_entries = entries, xb_trailer = t\<rparr>)"
proof -
  let ?body = "xblock_body level lcb entries"
  note v = verify_xblock_bytes [OF w x]
  have alloc: "read_allocation rd (bbe_block entry) (bbe_size entry) = Inr (tree_block_bytes ?body bid sig)"
    using v(3) sz by (intro read_allocation_at [OF _ store at fits]) auto
  have "drop 8 ?body = struct_pack (replicate (length entries) 8) (map bid_raw entries)"
    by (simp add: xblock_body_def)
  moreover have "fits (replicate (length entries) 8) (map bid_raw entries)"
    using x by (intro fits_ids) (simp add: writable_xblock_def)
  ultimately have raws: "struct_unpack_from (replicate (length entries) 8) ?body TREE_HEADER_SIZE = Inr (map bid_raw entries)"
    using v(2) le_fields_struct_pack [of "replicate (length entries) 8" "map bid_raw entries" "[]"]
    by (simp add: struct_unpack_from_ok TREE_HEADER_SIZE_eq calcsize_def sum_list_replicate)
  obtain t where "verify_tree_block (tree_block_bytes ?body bid sig) (len ?body) (Some BTYPE_DATA_TREE) =
     Inr \<lparr>tb_data = ?body, tb_trailer = t, tb_btype = BTYPE_DATA_TREE, tb_level = level,
          tb_count = len entries, tb_fourth = lcb\<rparr>" using v(1) by blast
  then show ?thesis
    using find alloc internal raws emap_mk_BlockId [of entries] x
    by (simp add: read_data_tree_def sz writable_xblock_def)
qed

lemma read_subnode_block_sl:
  assumes w: "writable_tree bid sig" and es: "\<forall>e \<in> set es. sub_node_leaf_entry_ok e" "length es \<le> 340"
    and find: "reader_find rd block = Inr entry" and sz: "bbe_size entry = len (slblock_body es)"
    and store: "rd_f rd = pre @ tree_block_bytes (slblock_body es) bid sig @ post"
    and at: "ib_value (br_index (bbe_block entry)) = len pre"
    and fits: "len (rd_f rd) \<le> max_file_size (rd_limits rd)"
  shows "\<exists>t. read_subnode_block rd block = Inr (SLBlock \<lparr>slb_level = 0, slb_entries = es, slb_trailer = t\<rparr>)"
proof -
  let ?body = "slblock_body es"
  have entry: "tree_entry_size BTYPE_SUBNODE_TREE 0 = Inr 24"
    by (simp add: tree_entry_size_def block_formats block_consts calcsize_def)
  have hfits: "fits DATA_TREE_HEADER_FORMAT [BTYPE_SUBNODE_TREE, 0, len es, 0]"
    using es(2) by (simp add: block_formats block_consts)
  have cat: "len (concat (map SubNodeLeafEntry_pack es)) = len es * 24"
    using SubNodeLeafEntry_codec.length_concat_encode [of es "[]"] es(1) by simp
  have small: "len ?body \<le> 8176" using cat es(2) by (simp add: slblock_body_def)
  note v = verify_tree_bytes [OF w hfits entry slblock_body_def cat small]
  have alloc: "read_allocation rd (bbe_block entry) (bbe_size entry) = Inr (tree_block_bytes ?body bid sig)"
    using v(2) sz by (intro read_allocation_at [OF _ store at fits]) auto
  have "emap (\<lambda>i. SubNodeLeafEntry_unpack_from ?body (TREE_HEADER_SIZE + int i * 24)) [0..<length es] = Inr es"
    using SubNodeLeafEntry_codec.decode_array [of es 8 "tree_header BTYPE_SUBNODE_TREE 0 (len es) 0" "[]" "[]"] es(1)
    by (simp add: slblock_body_def TREE_HEADER_SIZE_eq)
  then show ?thesis
    using find alloc v(1) by (simp add: read_subnode_block_def sz raise_if_def)
qed

lemma read_data_tree_data:
  assumes w: "writable_data plain bid sig"
    and find: "reader_find rd block = Inr entry" and data: "\<not> BlockId_is_internal (br_block (bbe_block entry))"
    and size: "bbe_size entry = len plain"
    and store: "rd_f rd = pre @ data_block_bytes plain (rd_crypt rd) bid sig @ post"
    and at: "ib_value (br_index (bbe_block entry)) = len pre"
    and fits: "len (rd_f rd) \<le> max_file_size (rd_limits rd)"
  shows "\<exists>t. read_data_tree rd block = Inr (DataNode \<lparr>db_data = plain, db_trailer = t\<rparr>)"
proof -
  obtain n where n: "block_size (len plain) = Inr n"
    using w block_size_ok [of "len plain"] by (auto simp: writable_data_def block_consts)
  have "read_allocation rd (bbe_block entry) (bbe_size entry) = Inr (data_block_bytes plain (rd_crypt rd) bid sig)"
    using n data_block_bytes_length [OF w n] size by (intro read_allocation_at [OF _ store at fits]) simp
  then show ?thesis
    using find data verify_data_block_bytes [OF w refl, of rd] by (simp add: read_data_tree_def size)
qed

subsection \<open>A store to try the statements on\<close>

definition sample_bbt_page :: btree_page where
  "sample_bbt_page = seal_page
     \<lparr>bp_level = 0, bp_max_entries = 20, bp_entry_size = 24,
      bp_entries = BlockEntries
        [\<lparr>bbe_block = \<lparr>br_block = BlockId 4, br_index = ByteIndex 512\<rparr>, bbe_size = 3, bbe_ref_count = 2\<rparr>,
         \<lparr>bbe_block = \<lparr>br_block = BlockId 8, br_index = ByteIndex 576\<rparr>, bbe_size = 2, bbe_ref_count = 2\<rparr>,
         \<lparr>bbe_block = \<lparr>br_block = BlockId 10, br_index = ByteIndex 640\<rparr>, bbe_size = 24, bbe_ref_count = 2\<rparr>,
         \<lparr>bbe_block = \<lparr>br_block = BlockId 14, br_index = ByteIndex 704\<rparr>, bbe_size = 56, bbe_ref_count = 2\<rparr>],
      bp_trailer = sample_trailer PT_BBT\<rparr> PT_BBT"

definition sample_subnodes :: "sub_node_leaf_entry list" where
  "sample_subnodes =
     [\<lparr>sl_node = NodeId 0x41, sl_data = BlockId 4, sl_sub_node = None\<rparr>,
      \<lparr>sl_node = NodeId 0x41, sl_data = BlockId 8, sl_sub_node = None\<rparr>]"

definition sample_store :: bytes where
  "sample_store = btree_page_bytes sample_bbt_page PT_BBT @
     data_block_bytes [0x61, 0x62, 0x63] CRYPT_CYCLIC (BlockId 4) 0 @
     data_block_bytes [0x64, 0x65] CRYPT_CYCLIC (BlockId 8) 0 @
     tree_block_bytes (xblock_body 1 5 [BlockId 4, BlockId 8]) (BlockId 10) 0 @
     tree_block_bytes (slblock_body sample_subnodes) (BlockId 14) 0"

definition sample_reader :: block_reader where
  "sample_reader = \<lparr>rd_f = sample_store, rd_crypt = CRYPT_CYCLIC,
     rd_bbt = BlockBTree sample_store \<lparr>pr_page = PageId 0x1B, pr_index = ByteIndex 0\<rparr> DEFAULT_LIMITS,
     rd_limits = DEFAULT_LIMITS\<rparr>"

lemma sample_bbt_ok: "btree_page_ok sample_bbt_page PT_BBT"
  unfolding sample_bbt_page_def
  by (rule seal_page_ok)
     (auto simp: is_btree_type_def entry_type_size_def bp_page_type_def sample_trailer_def page_id_ok_def
      U64_def block_btree_entry_ok_def block_ref_ok_def block_id_ok_def byte_index_ok_def)

lemma sample_writable:
  "writable_data [0x61, 0x62, 0x63] (BlockId 4) 0" "writable_data [0x64, 0x65] (BlockId 8) 0"
  "writable_xblock 1 5 [BlockId 4, BlockId 8]" "writable_tree (BlockId 10) 0" "writable_tree (BlockId 14) 0"
  by (simp_all add: writable_data_def writable_xblock_def writable_tree_def block_consts block_id_ok_def U64_def BlockId_is_internal_iff)

lemma sample_sizes:
  "length (btree_page_bytes sample_bbt_page PT_BBT) = 512"
  "length (data_block_bytes [0x61, 0x62, 0x63] CRYPT_CYCLIC (BlockId 4) 0) = 64"
  "length (data_block_bytes [0x64, 0x65] CRYPT_CYCLIC (BlockId 8) 0) = 64"
  "length (tree_block_bytes (xblock_body 1 5 [BlockId 4, BlockId 8]) (BlockId 10) 0) = 64"
  "length (tree_block_bytes (slblock_body sample_subnodes) (BlockId 14) 0) = 128"
proof -
  show "length (btree_page_bytes sample_bbt_page PT_BBT) = 512"
    by (rule BTreePage_parse_facts(2) [OF BTreePage_parse_bytes [OF sample_bbt_ok]])
  show "length (data_block_bytes [0x61, 0x62, 0x63] CRYPT_CYCLIC (BlockId 4) 0) = 64"
    using data_block_bytes_length [OF sample_writable(1), of 64 CRYPT_CYCLIC] by (simp add: block_size_Inr_iff)
  show "length (data_block_bytes [0x64, 0x65] CRYPT_CYCLIC (BlockId 8) 0) = 64"
    using data_block_bytes_length [OF sample_writable(2), of 64 CRYPT_CYCLIC] by (simp add: block_size_Inr_iff)
  have "len (xblock_body 1 5 [BlockId 4, BlockId 8]) = 24"
    using verify_xblock_bytes(2) [OF sample_writable(4,3)] by simp
  then show "length (tree_block_bytes (xblock_body 1 5 [BlockId 4, BlockId 8]) (BlockId 10) 0) = 64"
    using verify_xblock_bytes(3) [OF sample_writable(4,3)] by (simp add: block_size_Inr_iff)
  have "length (slblock_body sample_subnodes) = 56"
    using SubNodeLeafEntry_codec.encode_length
    by (simp add: slblock_body_def sample_subnodes_def SubNodeLeafEntry_pack_def length_struct_pack block_formats)
  then show "length (tree_block_bytes (slblock_body sample_subnodes) (BlockId 14) 0) = 128"
    by (simp add: tree_block_bytes_def block_size_def block_consts raise_if_def BlockTrailer_pack_def
        length_struct_pack block_formats)
qed

lemma sample_find:
  "reader_find sample_reader (BlockId 4) =
     Inr \<lparr>bbe_block = \<lparr>br_block = BlockId 4, br_index = ByteIndex 512\<rparr>, bbe_size = 3, bbe_ref_count = 2\<rparr>"
  "reader_find sample_reader (BlockId 8) =
     Inr \<lparr>bbe_block = \<lparr>br_block = BlockId 8, br_index = ByteIndex 576\<rparr>, bbe_size = 2, bbe_ref_count = 2\<rparr>"
  "reader_find sample_reader (BlockId 10) =
     Inr \<lparr>bbe_block = \<lparr>br_block = BlockId 10, br_index = ByteIndex 640\<rparr>, bbe_size = 24, bbe_ref_count = 2\<rparr>"
  "reader_find sample_reader (BlockId 14) =
     Inr \<lparr>bbe_block = \<lparr>br_block = BlockId 14, br_index = ByteIndex 704\<rparr>, bbe_size = 56, bbe_ref_count = 2\<rparr>"
proof -
  let ?t = "BlockBTree sample_store \<lparr>pr_page = PageId 0x1B, pr_index = ByteIndex 0\<rparr> DEFAULT_LIMITS"
  have leaf: "bp_is_leaf sample_bbt_page"
    by (simp add: bp_is_leaf_def sample_bbt_page_def)
  have entries: "bp_entries sample_bbt_page = BlockEntries
        [\<lparr>bbe_block = \<lparr>br_block = BlockId 4, br_index = ByteIndex 512\<rparr>, bbe_size = 3, bbe_ref_count = 2\<rparr>,
         \<lparr>bbe_block = \<lparr>br_block = BlockId 8, br_index = ByteIndex 576\<rparr>, bbe_size = 2, bbe_ref_count = 2\<rparr>,
         \<lparr>bbe_block = \<lparr>br_block = BlockId 10, br_index = ByteIndex 640\<rparr>, bbe_size = 24, bbe_ref_count = 2\<rparr>,
         \<lparr>bbe_block = \<lparr>br_block = BlockId 14, br_index = ByteIndex 704\<rparr>, bbe_size = 56, bbe_ref_count = 2\<rparr>]"
    by (simp add: sample_bbt_page_def)
  have read: "BTree_read ?t (bt_root ?t) = Inr sample_bbt_page"
    by (rule BTree_read_written [where pre = "[]"])
       (simp_all add: BlockBTree_def sample_store_def sample_sizes default_limits_simps sample_bbt_ok entries)
  have keys: "BlockId_search_key (BlockId 4) = 4" "BlockId_search_key (BlockId 8) = 8" "BlockId_search_key (BlockId 10) = 10"
    "BlockId_search_key (BlockId 14) = 14"
    by (simp_all add: BlockId_search_key_eq block_id_ok_def U64_def)
  have child: "BTree_child ?t (bt_root ?t) 0 (new_visited (max_items (bt_limits ?t))) Map.empty =
      (Inr (\<lparr>vs_ceiling = 2 ^ 27, vs_seen = [0]\<rparr>, sample_bbt_page), Map.empty)"
    using read leaf by (simp add: BTree_child_def sbind_def check_ok vs_add_def new_visited_def BlockBTree_def
        default_limits_simps)
  note find = reader_find_def block_lookup_def BlockBTree_find_def BTree_find_def sbind_def
    BTree_find_loop.simps [of ?t _ "bt_root ?t"] child leaf entries keys bbe_key_def
  show "reader_find sample_reader (BlockId 4) =
     Inr \<lparr>bbe_block = \<lparr>br_block = BlockId 4, br_index = ByteIndex 512\<rparr>, bbe_size = 3, bbe_ref_count = 2\<rparr>"
    "reader_find sample_reader (BlockId 8) =
     Inr \<lparr>bbe_block = \<lparr>br_block = BlockId 8, br_index = ByteIndex 576\<rparr>, bbe_size = 2, bbe_ref_count = 2\<rparr>"
    "reader_find sample_reader (BlockId 10) =
     Inr \<lparr>bbe_block = \<lparr>br_block = BlockId 10, br_index = ByteIndex 640\<rparr>, bbe_size = 24, bbe_ref_count = 2\<rparr>"
    "reader_find sample_reader (BlockId 14) =
     Inr \<lparr>bbe_block = \<lparr>br_block = BlockId 14, br_index = ByteIndex 704\<rparr>, bbe_size = 56, bbe_ref_count = 2\<rparr>"
    by (simp_all add: sample_reader_def find)
qed

lemma sample_blocks:
  "\<exists>t. read_data_tree sample_reader (BlockId 4) = Inr (DataNode \<lparr>db_data = [0x61, 0x62, 0x63], db_trailer = t\<rparr>)"
  "\<exists>t. read_data_tree sample_reader (BlockId 8) = Inr (DataNode \<lparr>db_data = [0x64, 0x65], db_trailer = t\<rparr>)"
  "\<exists>t. read_data_tree sample_reader (BlockId 10) =
     Inr (XNode \<lparr>xb_level = 1, xb_total_size = 5, xb_entries = [BlockId 4, BlockId 8], xb_trailer = t\<rparr>)"
  "\<exists>t. read_subnode_block sample_reader (BlockId 14) =
     Inr (SLBlock \<lparr>slb_level = 0, slb_entries = sample_subnodes, slb_trailer = t\<rparr>)"
proof -
  let ?P = "btree_page_bytes sample_bbt_page PT_BBT"
    and ?A = "data_block_bytes [0x61, 0x62, 0x63] CRYPT_CYCLIC (BlockId 4) 0"
    and ?B = "data_block_bytes [0x64, 0x65] CRYPT_CYCLIC (BlockId 8) 0"
    and ?X = "tree_block_bytes (xblock_body 1 5 [BlockId 4, BlockId 8]) (BlockId 10) 0"
    and ?S = "tree_block_bytes (slblock_body sample_subnodes) (BlockId 14) 0"
  have fits: "len (rd_f sample_reader) \<le> max_file_size (rd_limits sample_reader)"
    by (simp add: sample_reader_def sample_store_def sample_sizes default_limits_simps)
  have body: "len (xblock_body 1 5 [BlockId 4, BlockId 8]) = 24"
    using verify_xblock_bytes(2) [OF sample_writable(4,3)] by simp
  show "\<exists>t. read_data_tree sample_reader (BlockId 4) = Inr (DataNode \<lparr>db_data = [0x61, 0x62, 0x63], db_trailer = t\<rparr>)"
    by (rule read_data_tree_data [OF sample_writable(1) sample_find(1), where pre = ?P and post = "?B @ ?X @ ?S"])
       (use fits in \<open>simp_all add: sample_reader_def sample_store_def sample_sizes BlockId_is_internal_iff\<close>)
  show "\<exists>t. read_data_tree sample_reader (BlockId 8) = Inr (DataNode \<lparr>db_data = [0x64, 0x65], db_trailer = t\<rparr>)"
    by (rule read_data_tree_data [OF sample_writable(2) sample_find(2), where pre = "?P @ ?A" and post = "?X @ ?S"])
       (use fits in \<open>simp_all add: sample_reader_def sample_store_def sample_sizes BlockId_is_internal_iff\<close>)
  show "\<exists>t. read_data_tree sample_reader (BlockId 10) =
     Inr (XNode \<lparr>xb_level = 1, xb_total_size = 5, xb_entries = [BlockId 4, BlockId 8], xb_trailer = t\<rparr>)"
    by (rule read_data_tree_xblock [OF sample_writable(4,3) sample_find(3), where pre = "?P @ ?A @ ?B" and post = ?S])
       (use fits body in \<open>simp_all add: sample_reader_def sample_store_def sample_sizes BlockId_is_internal_iff\<close>)
  have sl: "length (slblock_body sample_subnodes) = 56"
    by (simp add: slblock_body_def sample_subnodes_def SubNodeLeafEntry_pack_def length_struct_pack block_formats)
  show "\<exists>t. read_subnode_block sample_reader (BlockId 14) =
     Inr (SLBlock \<lparr>slb_level = 0, slb_entries = sample_subnodes, slb_trailer = t\<rparr>)"
    by (rule read_subnode_block_sl [OF sample_writable(5) _ _ sample_find(4), where pre = "?P @ ?A @ ?B @ ?X" and post = "[]"])
       (use fits sl in \<open>simp_all add: sample_reader_def sample_store_def sample_sizes sample_subnodes_def
          sub_node_leaf_entry_ok_def node_id_ok_def block_id_ok_def U64_def U32_def\<close>)
qed

lemma sample_limits_rd:
  "max_xblock_depth (rd_limits sample_reader) = 2" "max_allocation (rd_limits sample_reader) = 256 * 2 ^ 20"
  "max_items (rd_limits sample_reader) = 2 ^ 27" "reader_ok sample_reader"
  by (simp_all add: sample_reader_def default_limits_simps reader_ok_def BlockBTree_def)

lemma sample_dtree:
  "dtree_at sample_reader (BlockId 10) 1 (DNode (BlockId 10) [DLeaf [0x61, 0x62, 0x63], DLeaf [0x64, 0x65]])"
proof -
  have "dtree_at sample_reader (BlockId 4) 2 (DLeaf [0x61, 0x62, 0x63])"
    "dtree_at sample_reader (BlockId 8) 2 (DLeaf [0x64, 0x65])"
    using sample_blocks(1,2) by (auto simp: dtree_at_data)
  then show ?thesis using sample_blocks(3) by (auto simp: dtree_at_tree sample_limits_rd)
qed

subsection \<open>Claims\<close>

text \<open>The one place of block arithmetic: an allocation is refused outside 1..8176 data bytes, and is
  otherwise the least multiple of 64 that holds the data and its 16-byte trailer, at most 8192.\<close>

theorem block_size_is_least:
  "case block_size sz of
     Inl e \<Rightarrow> e = PstFormatError \<and> \<not> (1 \<le> sz \<and> sz \<le> 8176)
   | Inr n \<Rightarrow> 1 \<le> sz \<and> sz \<le> 8176 \<and> n mod 64 = 0 \<and> sz + 16 \<le> n \<and> n \<le> 8192 \<and>
       (\<forall>m. m mod 64 = 0 \<longrightarrow> sz + 16 \<le> m \<longrightarrow> n \<le> m)"
proof (cases "block_size sz")
  case (Inl e)
  then show ?thesis by (auto simp: block_size_def block_consts raise_if_def Let_def split: if_splits)
next
  case (Inr n)
  then show ?thesis using block_size_facts [OF Inr] block_size_least [OF Inr] by simp
qed

text \<open>C9: node data written into a block, obfuscated by any of the three methods with the key its block id
  gives, padded and trailed, reads back as it was.\<close>

theorem read_block_roundtrip:
  assumes "writable_data plain bid sig"
    and "rd_f rd = pre @ data_block_bytes plain (rd_crypt rd) bid sig @ post"
    and "ib_value (br_index ref) = len pre" "len (rd_f rd) \<le> max_file_size (rd_limits rd)"
  shows "read_block rd ref (len plain) False = Inr plain"
  using assms by (rule read_block_written)

theorem read_block_roundtrip_witness:
  "read_block sample_reader \<lparr>br_block = BlockId 4, br_index = ByteIndex 512\<rparr> 3 False = Inr [0x61, 0x62, 0x63]"
  using read_block_roundtrip [OF sample_writable(1), of sample_reader "btree_page_bytes sample_bbt_page PT_BBT"
      _ "\<lparr>br_block = BlockId 4, br_index = ByteIndex 512\<rparr>"]
  by (simp add: sample_reader_def sample_store_def sample_sizes default_limits_simps)

text \<open>C10: a data block whose bytes on disk are altered in a burst of at most four is refused with a
  PstError: corrupted node data is never returned.\<close>

theorem read_block_burst:
  assumes acc: "read_block rd ref sz False = Inr data" and store: "rd_f rd = pre @ u @ post"
    and at: "0 \<le> ib_value (br_index ref)" "ib_value (br_index ref) \<le> len pre"
      "len pre + len u \<le> ib_value (br_index ref) + sz"
    and len: "length u \<le> 4" "length v = length u" and neq: "u \<noteq> v"
  shows "\<exists>e. read_block (rd\<lparr>rd_f := pre @ v @ post\<rparr>) ref sz False = Inl e \<and> is_pst_error e"
proof -
  let ?i = "nat (ib_value (br_index ref))"
  obtain buf db where buf: "read_allocation rd ref sz = Inr buf" and db: "verify_data_block rd buf sz = Inr db"
    using acc by (auto simp: read_block_def ebind_Inr_iff)
  note facts = read_allocation_facts [OF buf]
  define n where "n = length buf"
  define rest where "rest = take (?i + n - length pre - length u) post"
  have split: "take n (drop ?i (pre @ x @ post)) = drop ?i pre @ x @ rest" if "length x = length u" for x
  proof -
    have "?i \<le> length pre" "length pre + length u \<le> ?i + n" using at facts(2) by (simp_all add: n_def)
    then show ?thesis using that by (simp add: rest_def add.commute diff_diff_add)
  qed
  have buf_eq: "buf = drop ?i pre @ u @ rest"
    using read_allocation_Inr(1) [OF buf] split [of u] by (simp add: store n_def)
  have len_new: "length (drop ?i pre @ v @ rest) = n" using buf_eq len(2) by (simp add: n_def)
  have total: "block_size sz = Inr (int n)" using facts(1) by (simp add: n_def)
  have "ib_value (br_index ref) + int n \<le> max_file_size (rd_limits rd)"
    using read_allocation_Inr(2) [OF buf] by (simp add: n_def)
  moreover have "file_read (pre @ v @ post) (ib_value (br_index ref)) (int n) = drop ?i pre @ v @ rest"
    unfolding file_read_def nat_int by (rule split [OF len(2)])
  ultimately have "read_allocation (rd\<lparr>rd_f := pre @ v @ post\<rparr>) ref sz = Inr (drop ?i pre @ v @ rest)"
    using total len_new by (intro read_allocationI [where n = "int n"]) simp_all
  moreover have "\<exists>e. verify_data_block rd (drop ?i pre @ v @ rest) sz = Inl e \<and> is_pst_error e"
  proof (rule verify_data_block_burst [OF db [unfolded buf_eq] _ _ len neq])
    show "len (drop ?i pre) + len u \<le> sz" using at by simp
    show "sz + 16 \<le> len (drop ?i pre @ u @ rest)" using facts(2) buf_eq by simp
  qed
  moreover have "verify_data_block (rd\<lparr>rd_f := pre @ v @ post\<rparr>) b sz = verify_data_block rd b sz" for b
    by (simp add: verify_data_block_def)
  ultimately show ?thesis by (auto simp: read_block_def)
qed

theorem read_block_burst_witness:
  "\<exists>e. read_block (sample_reader\<lparr>rd_f := take 513 sample_store @ [sample_store ! 513 + 1] @ drop 514 sample_store\<rparr>)
     \<lparr>br_block = BlockId 4, br_index = ByteIndex 512\<rparr> 3 False = Inl e \<and> is_pst_error e"
proof -
  have acc: "read_block sample_reader \<lparr>br_block = BlockId 4, br_index = ByteIndex 512\<rparr> 3 False = Inr [0x61, 0x62, 0x63]"
    using read_block_written [OF sample_writable(1), of sample_reader "btree_page_bytes sample_bbt_page PT_BBT"
      _ "\<lparr>br_block = BlockId 4, br_index = ByteIndex 512\<rparr>"]
    by (simp add: sample_reader_def sample_store_def sample_sizes default_limits_simps)
  have len: "length sample_store = 832" by (simp add: sample_store_def sample_sizes)
  then have "rd_f sample_reader = take 513 sample_store @ [sample_store ! 513] @ drop 514 sample_store"
    using id_take_nth_drop [of 513 sample_store] by (simp add: sample_reader_def)
  from read_block_burst [OF acc this, of "[sample_store ! 513 + 1]"] len show ?thesis by simp
qed

text \<open>C5: reading a node's data through XBLOCK and XXBLOCK trees is the concatenation of the leaves of the
  tree of blocks, in order. It succeeds exactly when the tree loads within the depth limit and, for a
  tree block, the claimed size and the assembled size are within \<open>max_allocation\<close> and no tree block is
  met twice; what it returns is never longer than that budget or one block.\<close>

theorem read_data_is_tree:
  assumes "1 \<le> max_xblock_depth (rd_limits rd)" "0 \<le> max_allocation (rd_limits rd)"
  shows "(read_data rd block = Inr bytes \<longleftrightarrow>
      (\<exists>tr. dtree_at rd block 1 tr \<and> bytes = concat (dt_leaves tr) \<and>
        (\<forall>x. read_data_tree rd block = Inr (XNode x) \<longrightarrow>
           xb_total_size x \<le> max_allocation (rd_limits rd) \<and> distinct (dt_ids tr) \<and>
           len (dt_ids tr) \<le> max_items (rd_limits rd) \<and>
           (dt_leaves tr = [] \<or> len bytes \<le> max_allocation (rd_limits rd))))) \<and>
    (read_data rd block = Inr bytes \<longrightarrow> len bytes \<le> max 8176 (max_allocation (rd_limits rd)))"
  using read_data_length [OF assms, of block bytes]
  by (auto simp: read_data_def ebind_Inr_iff read_data_blocks_iff [OF assms(1)])

theorem read_data_is_tree_witness: "read_data sample_reader (BlockId 10) = Inr [0x61, 0x62, 0x63, 0x64, 0x65]"
proof -
  have "1 \<le> max_xblock_depth (rd_limits sample_reader)" "0 \<le> max_allocation (rd_limits sample_reader)"
    by (simp_all add: sample_limits_rd)
  from read_data_is_tree [OF this, of "BlockId 10" "[0x61, 0x62, 0x63, 0x64, 0x65]"]
  show ?thesis using sample_dtree sample_blocks(3) by (auto simp: sample_limits_rd)
qed

text \<open>C12: the flattened subnode tree is a dictionary of the leaf entries in tree order: it keeps the first
  entry of each node id and no other, and it exists exactly when the tree loads within the depth limit
  with no block met twice and at most \<open>max_items\<close> blocks and entries.\<close>

theorem read_subnode_tree_first_wins:
  assumes "0 \<le> max_items (rd_limits rd)"
  shows "(read_subnode_tree rd block = Inr d \<longrightarrow>
      (\<exists>ids es. subnodes_at rd block 1 (ids, es) \<and> distinct ids \<and> distinct (map fst d) \<and>
         (\<forall>nid. map_of d nid = find (\<lambda>e. sl_node e = nid) es))) \<and>
    (subnodes_at rd block 1 (ids, es) \<and> distinct ids \<and> len ids \<le> max_items (rd_limits rd) \<and>
       len es \<le> max_items (rd_limits rd) \<longrightarrow> (\<exists>d. read_subnode_tree rd block = Inr d))"
proof (intro conjI impI)
  assume "read_subnode_tree rd block = Inr d"
  then obtain ids es where "subnodes_at rd block 1 (ids, es)" "distinct ids" and d: "d = add_entries es []"
    unfolding read_subnode_tree_iff [OF assms] by blast
  moreover have "distinct (map fst d)" using add_entries_facts(1) [of "[]" es] d by simp
  moreover have "map_of d nid = find (\<lambda>e. sl_node e = nid) es" for nid
    using add_entries_facts(2) [of es "[]" nid] d by simp
  ultimately show "\<exists>ids es. subnodes_at rd block 1 (ids, es) \<and> distinct ids \<and> distinct (map fst d) \<and>
      (\<forall>nid. map_of d nid = find (\<lambda>e. sl_node e = nid) es)" by blast
next
  assume "subnodes_at rd block 1 (ids, es) \<and> distinct ids \<and> len ids \<le> max_items (rd_limits rd) \<and>
       len es \<le> max_items (rd_limits rd)"
  then show "\<exists>d. read_subnode_tree rd block = Inr d"
    unfolding read_subnode_tree_iff [OF assms] by blast
qed

theorem read_subnode_tree_first_wins_witness:
  "\<exists>d e. read_subnode_tree sample_reader (BlockId 14) = Inr d \<and> map_of d (NodeId 0x41) = Some e \<and> sl_data e = BlockId 4"
proof -
  have items: "0 \<le> max_items (rd_limits sample_reader)" by (simp add: sample_limits_rd)
  have depth: "max_subnode_depth (rd_limits sample_reader) = 2" by (simp add: sample_reader_def default_limits_simps)
  obtain t where "read_subnode_block sample_reader (BlockId 14) =
      Inr (SLBlock \<lparr>slb_level = 0, slb_entries = sample_subnodes, slb_trailer = t\<rparr>)"
    using sample_blocks(4) by blast
  then have at: "subnodes_at sample_reader (BlockId 14) 1 (ids, es) \<longleftrightarrow>
      ids = [BlockId_search_key (BlockId 14)] \<and> es = sample_subnodes" for ids es
    by (simp add: subnodes_at_eq depth)
  note first = read_subnode_tree_first_wins [OF items, of "BlockId 14"]
  have "\<exists>d. read_subnode_tree sample_reader (BlockId 14) = Inr d"
    using first [of _ "[BlockId_search_key (BlockId 14)]" sample_subnodes] at
    by (simp add: sample_limits_rd sample_subnodes_def)
  then obtain d where d: "read_subnode_tree sample_reader (BlockId 14) = Inr d" by blast
  with first [of d] at have "map_of d (NodeId 0x41) = find (\<lambda>e. sl_node e = NodeId 0x41) sample_subnodes" by auto
  with d show ?thesis by (simp add: sample_subnodes_def)
qed

text \<open>Whatever the file's bytes, reading a block, a node's data or a subnode tree returns or raises a
  PstError: every walk ends, and no other exception escapes.\<close>

theorem block_reader_total:
  assumes "reader_ok rd"
  shows "fails_closed (read_block rd ref sz is_internal) \<and> fails_closed (read_data_blocks rd block) \<and>
    fails_closed (read_data rd block) \<and> fails_closed (read_subnode_block rd block) \<and>
    fails_closed (read_subnode_tree rd block)"
  using assms by auto

end
