(* ===== verification/Pst_Heap.thy ===== *)
theory Pst_Heap
  imports Pst_Block
begin

unbundle bit_operations_syntax

text \<open>
  \<open>src/pypstreader/ltp/heap.py\<close>: the heap laid over a node's data blocks. The two ids that share one
  wire format (HID and HNID), the HNHDR and the page map of each block, and the heap object, whose
  page maps are parsed on first use and kept. The object is a record and what it remembers (the
  parsed page maps and the running total of items) is a state threaded through its methods.
  \<open>heap_item\<close> is the meaning without the cache, and \<open>implements\<close> relates the two. A method's
  \<open>isinstance\<close> checks are the types of the model.
\<close>

section \<open>Formats\<close>

definition HEAP_ID_FORMAT :: fmt where "HEAP_ID_FORMAT = [4]"
definition HID_TYPE_BITS :: nat where "HID_TYPE_BITS = 5"
definition HID_TYPE_MASK :: int where "HID_TYPE_MASK = push_bit HID_TYPE_BITS 1 - 1"
definition HID_INDEX_BITS :: nat where "HID_INDEX_BITS = 11"
definition HID_INDEX_MASK :: int where "HID_INDEX_MASK = push_bit HID_INDEX_BITS 1 - 1"
definition HID_BLOCK_SHIFT :: nat where "HID_BLOCK_SHIFT = HID_TYPE_BITS + HID_INDEX_BITS"
definition MAX_HEAP_ITEM_INDEX :: int where "MAX_HEAP_ITEM_INDEX = HID_INDEX_MASK"
definition MAX_HEAP_BLOCK_INDEX :: int where "MAX_HEAP_BLOCK_INDEX = 0xFFFF"
definition HEAP_HEADER_FORMAT :: fmt where "HEAP_HEADER_FORMAT = [2, 1, 1, 4, 4]"
definition HEAP_HEADER_SIZE :: int where "HEAP_HEADER_SIZE = calcsize HEAP_HEADER_FORMAT"
definition HEAP_SIGNATURE :: int where "HEAP_SIGNATURE = 0xEC"
definition PAGE_HEADER_FORMAT :: fmt where "PAGE_HEADER_FORMAT = [2]"
definition PAGE_HEADER_SIZE :: int where "PAGE_HEADER_SIZE = calcsize PAGE_HEADER_FORMAT"
definition BITMAP_HEADER_FORMAT :: fmt where "BITMAP_HEADER_FORMAT = [2, 64]"
definition BITMAP_HEADER_SIZE :: int where "BITMAP_HEADER_SIZE = calcsize BITMAP_HEADER_FORMAT"
definition FIRST_BITMAP_BLOCK :: int where "FIRST_BITMAP_BLOCK = 8"
definition BITMAP_PERIOD :: int where "BITMAP_PERIOD = 128"
definition PAGE_MAP_FORMAT :: fmt where "PAGE_MAP_FORMAT = [2, 2]"
definition PAGE_MAP_SIZE :: int where "PAGE_MAP_SIZE = calcsize PAGE_MAP_FORMAT"

lemmas hid_consts =
  HID_TYPE_MASK_def HID_TYPE_BITS_def HID_INDEX_MASK_def HID_INDEX_BITS_def HID_BLOCK_SHIFT_def
  MAX_HEAP_ITEM_INDEX_def MAX_HEAP_BLOCK_INDEX_def

lemmas heap_formats =
  HEAP_ID_FORMAT_def HEAP_HEADER_FORMAT_def PAGE_HEADER_FORMAT_def BITMAP_HEADER_FORMAT_def
  PAGE_MAP_FORMAT_def PAGE_MAP_SIZE_def HEAP_HEADER_SIZE_def calcsize_def

section \<open>What is built on the heap\<close>

datatype heap_node_type =
    HN_RESERVED1 | HN_TABLE | HN_RESERVED2 | HN_RESERVED3 | HN_RESERVED4 | HN_RESERVED5
  | HN_TREE | HN_PROPERTIES | HN_RESERVED6

fun heap_node_type_value :: "heap_node_type \<Rightarrow> int" where
  "heap_node_type_value HN_RESERVED1 = 0x6C"
| "heap_node_type_value HN_TABLE = 0x7C"
| "heap_node_type_value HN_RESERVED2 = 0x8C"
| "heap_node_type_value HN_RESERVED3 = 0x9C"
| "heap_node_type_value HN_RESERVED4 = 0xA5"
| "heap_node_type_value HN_RESERVED5 = 0xAC"
| "heap_node_type_value HN_TREE = 0xB5"
| "heap_node_type_value HN_PROPERTIES = 0xBC"
| "heap_node_type_value HN_RESERVED6 = 0xCC"

definition heap_node_types :: "heap_node_type list" where
  "heap_node_types =
     [HN_RESERVED1, HN_TABLE, HN_RESERVED2, HN_RESERVED3, HN_RESERVED4, HN_RESERVED5, HN_TREE,
      HN_PROPERTIES, HN_RESERVED6]"

interpretation heap_type_enum: int_enum heap_node_type_value heap_node_types
proof
  show "m \<in> set heap_node_types" for m by (cases m) (simp_all add: heap_node_types_def)
  show "heap_node_type_value m = heap_node_type_value m' \<Longrightarrow> m = m'" for m m'
    by (cases m) (cases m'; simp)+
qed

definition HeapNodeType_from_wire :: "int \<Rightarrow> heap_node_type result" where
  "HeapNodeType_from_wire value =
     reraise ValueError PstFormatError (enum_of heap_node_type_value heap_node_types value)"

lemma HeapNodeType_from_wire_iff [res_simps]:
  "HeapNodeType_from_wire v = Inr t \<longleftrightarrow> heap_node_type_value t = v"
  by (simp add: HeapNodeType_from_wire_def reraise_Inr_iff heap_type_enum.of_value_iff)

lemma HeapNodeType_from_wire_value [simp]: "HeapNodeType_from_wire (heap_node_type_value t) = Inr t"
  by (simp add: HeapNodeType_from_wire_iff)

lemma HeapNodeType_from_wire_closed [simp, intro]: "fails_closed (HeapNodeType_from_wire v)"
  unfolding HeapNodeType_from_wire_def fails_closed_def
  by (auto simp: reraise_def heap_type_enum.of_value_Inl_iff split: sum.splits)

lemma heap_node_type_range: "0 \<le> heap_node_type_value t" "heap_node_type_value t < 256"
  by (cases t; simp)+

section \<open>HeapId\<close>

definition check_u32 :: "int \<Rightarrow> unit result" where
  "check_u32 value = raise_if (value < 0 \<or> value > U32) PstFormatError"

datatype heap_id = HeapId (hid_raw: int)

definition heap_id_ok :: "heap_id \<Rightarrow> bool" where
  "heap_id_ok h \<longleftrightarrow> 0 \<le> hid_raw h \<and> hid_raw h \<le> U32 \<and> hid_raw h mod 32 = 0"

definition mk_HeapId :: "int \<Rightarrow> heap_id result" where
  "mk_HeapId raw =
     ebind (check_u32 raw) (\<lambda>_.
     ebind (raise_if (raw AND HID_TYPE_MASK \<noteq> 0) PstFormatError) (\<lambda>_. Inr (HeapId raw)))"

definition HeapId_from_parts :: "int \<Rightarrow> int \<Rightarrow> heap_id result" where
  "HeapId_from_parts index block_index =
     ebind (raise_if (\<not> (0 \<le> index \<and> index \<le> MAX_HEAP_ITEM_INDEX)) PstFormatError) (\<lambda>_.
     ebind (raise_if (\<not> (0 \<le> block_index \<and> block_index \<le> MAX_HEAP_BLOCK_INDEX)) PstFormatError) (\<lambda>_.
     mk_HeapId (push_bit HID_BLOCK_SHIFT block_index OR push_bit HID_TYPE_BITS index)))"

definition HeapId_unpack_from :: "bytes \<Rightarrow> int \<Rightarrow> heap_id result" where
  "HeapId_unpack_from buf offset =
     ebind (unpack HEAP_ID_FORMAT buf offset) (\<lambda>fs. mk_HeapId (fs ! 0))"

definition HeapId_pack :: "heap_id \<Rightarrow> bytes" where
  "HeapId_pack h = struct_pack HEAP_ID_FORMAT [hid_raw h]"

definition HeapId_is_null :: "heap_id \<Rightarrow> bool" where
  "HeapId_is_null h = (hid_raw h = 0)"

definition HeapId_index :: "heap_id \<Rightarrow> int" where
  "HeapId_index h = drop_bit HID_TYPE_BITS (hid_raw h) AND HID_INDEX_MASK"

definition HeapId_block_index :: "heap_id \<Rightarrow> int" where
  "HeapId_block_index h = drop_bit HID_BLOCK_SHIFT (hid_raw h)"

lemma check_u32_Inr_iff [res_simps]: "check_u32 v = Inr u \<longleftrightarrow> 0 \<le> v \<and> v \<le> U32"
  by (auto simp: check_u32_def raise_if_def)

lemma check_u32_closed [simp, intro]: "fails_closed (check_u32 v)"
  by (simp add: check_u32_def)

lemma HID_TYPE_MASK_and: "x AND HID_TYPE_MASK = x mod 32"
  by (simp add: hid_consts and_31)

lemma mk_HeapId_Inr_iff [res_simps]:
  "mk_HeapId raw = Inr h \<longleftrightarrow> h = HeapId raw \<and> 0 \<le> raw \<and> raw \<le> U32 \<and> raw mod 32 = 0"
  by (auto simp: mk_HeapId_def HID_TYPE_MASK_and check_u32_Inr_iff ebind_Inr_iff raise_if_Inr_iff)

lemma mk_HeapId_of [simp]: "heap_id_ok h \<Longrightarrow> mk_HeapId (hid_raw h) = Inr h"
  by (simp add: mk_HeapId_Inr_iff heap_id_ok_def)

lemma mk_HeapId_ok: "mk_HeapId raw = Inr h \<Longrightarrow> heap_id_ok h"
  by (auto simp: mk_HeapId_Inr_iff heap_id_ok_def)

lemma mk_HeapId_closed [simp, intro]: "fails_closed (mk_HeapId raw)"
  unfolding mk_HeapId_def by (intro fails_closed_ebind) auto

lemma HeapId_unpack_closed [simp, intro]: "fails_closed (HeapId_unpack_from buf off)"
  unfolding HeapId_unpack_from_def by (intro fails_closed_ebind) auto

interpretation HeapId_codec: codec HeapId_unpack_from HeapId_pack 4 heap_id_ok
proof
  show "len (HeapId_pack x) = 4" for x
    by (simp add: HeapId_pack_def HEAP_ID_FORMAT_def)
  show "HeapId_unpack_from (pre @ HeapId_pack x @ post) (len pre) = Inr x" if "heap_id_ok x" for x pre post
    using that unpack_pack [of HEAP_ID_FORMAT "[hid_raw x]"]
    by (simp add: HeapId_unpack_from_def HeapId_pack_def heap_id_ok_def HEAP_ID_FORMAT_def
        mk_HeapId_Inr_iff U32_def)
  show "0 \<le> off \<and> off + 4 \<le> len buf" if "HeapId_unpack_from buf off = Inr x" for buf off x
    using that by (auto simp: HeapId_unpack_from_def ebind_Inr_iff unpack_Inr_iff HEAP_ID_FORMAT_def calcsize_def)
  show "fails_closed (HeapId_unpack_from buf off)" for buf off by simp
qed

lemma HeapId_block_index_div: "HeapId_block_index h = hid_raw h div 65536"
  by (simp add: HeapId_block_index_def hid_consts drop_bit_eq_div)

lemma HeapId_index_div: "HeapId_index h = hid_raw h div 32 mod 2048"
  using take_bit_eq_mask [of 11 "hid_raw h div 32"]
  by (simp add: HeapId_index_def hid_consts drop_bit_eq_div take_bit_eq_mod mask_eq_exp_minus_1)

lemma HeapId_from_parts_eq:
  "HeapId_from_parts index block_index =
     (if 0 \<le> index \<and> index \<le> 2047 \<and> 0 \<le> block_index \<and> block_index \<le> 65535
      then Inr (HeapId (65536 * block_index + 32 * index)) else Inl PstFormatError)"
proof (cases "0 \<le> index \<and> index \<le> 2047 \<and> 0 \<le> block_index \<and> block_index \<le> 65535")
  case True
  have "push_bit 16 block_index OR (32 * index) = 2 ^ 16 * block_index + 32 * index"
    using True by (intro or_low) simp_all
  then have raw: "push_bit HID_BLOCK_SHIFT block_index OR push_bit HID_TYPE_BITS index =
      65536 * block_index + 32 * index"
    by (simp add: hid_consts push_bit_eq_mult mult.commute)
  have "(65536 * block_index + 32 * index) mod 32 = 0"
    by (simp add: mod_eq_0_iff_dvd)
  then have "mk_HeapId (65536 * block_index + 32 * index) = Inr (HeapId (65536 * block_index + 32 * index))"
    using True by (simp add: mk_HeapId_Inr_iff U32_def)
  with raw True show ?thesis by (simp add: HeapId_from_parts_def MAX_HEAP_BLOCK_INDEX_def
        MAX_HEAP_ITEM_INDEX_def HID_INDEX_MASK_def HID_INDEX_BITS_def)
next
  case False
  then show ?thesis
    by (auto simp: HeapId_from_parts_def raise_if_def MAX_HEAP_BLOCK_INDEX_def
        MAX_HEAP_ITEM_INDEX_def HID_INDEX_MASK_def HID_INDEX_BITS_def)
qed

lemma HeapId_parts_from_parts:
  assumes "heap_id_ok h"
  shows "HeapId_from_parts (HeapId_index h) (HeapId_block_index h) = Inr h"
proof -
  let ?r = "hid_raw h"
  have r: "0 \<le> ?r" "?r \<le> 4294967295" "?r mod 32 = 0"
    using assms by (simp_all add: heap_id_ok_def U32_def)
  have "?r div 32 div 2048 = ?r div 65536"
    by (simp add: zdiv_zmult2_eq [symmetric])
  then have eq: "65536 * (?r div 65536) + 32 * (?r div 32 mod 2048) = ?r"
    using mult_div_mod_eq [of 32 ?r] mult_div_mod_eq [of 2048 "?r div 32"] r(3) by linarith
  have "0 \<le> ?r div 32 mod 2048" "?r div 32 mod 2048 < 2048"
    by (rule pos_mod_sign pos_mod_bound, simp)+
  moreover have "0 \<le> ?r div 65536"
    using r(1) by (simp add: pos_imp_zdiv_nonneg_iff)
  moreover have "?r div 65536 \<le> 65535"
    using eq r(2) \<open>0 \<le> ?r div 32 mod 2048\<close> by linarith
  ultimately have "HeapId_from_parts (HeapId_index h) (HeapId_block_index h) = Inr (HeapId ?r)"
    unfolding HeapId_from_parts_eq HeapId_index_div HeapId_block_index_div using eq by simp
  then show ?thesis by (cases h) simp
qed

section \<open>HeapNodeId\<close>

datatype heap_node_id = HeapNodeId (hnid_raw: int)

definition heap_node_id_ok :: "heap_node_id \<Rightarrow> bool" where
  "heap_node_id_ok h \<longleftrightarrow> 0 \<le> hnid_raw h \<and> hnid_raw h \<le> U32"

definition mk_HeapNodeId :: "int \<Rightarrow> heap_node_id result" where
  "mk_HeapNodeId raw = ebind (check_u32 raw) (\<lambda>_. Inr (HeapNodeId raw))"

definition HeapNodeId_unpack_from :: "bytes \<Rightarrow> int \<Rightarrow> heap_node_id result" where
  "HeapNodeId_unpack_from buf offset =
     ebind (unpack HEAP_ID_FORMAT buf offset) (\<lambda>fs. mk_HeapNodeId (fs ! 0))"

definition HeapNodeId_pack :: "heap_node_id \<Rightarrow> bytes" where
  "HeapNodeId_pack h = struct_pack HEAP_ID_FORMAT [hnid_raw h]"

definition HeapNodeId_is_heap :: "heap_node_id \<Rightarrow> bool" where
  "HeapNodeId_is_heap h = (hnid_raw h AND HID_TYPE_MASK = node_type_value NT_HID)"

definition HeapNodeId_as_heap :: "heap_node_id \<Rightarrow> heap_id option result" where
  "HeapNodeId_as_heap h =
     (if HeapNodeId_is_heap h then ebind (mk_HeapId (hnid_raw h)) (\<lambda>x. Inr (Some x)) else Inr None)"

definition HeapNodeId_as_node :: "heap_node_id \<Rightarrow> node_id option result" where
  "HeapNodeId_as_node h =
     (if HeapNodeId_is_heap h then Inr None else ebind (mk_NodeId (hnid_raw h)) (\<lambda>x. Inr (Some x)))"

lemma mk_HeapNodeId_Inr_iff [res_simps]:
  "mk_HeapNodeId raw = Inr h \<longleftrightarrow> h = HeapNodeId raw \<and> 0 \<le> raw \<and> raw \<le> U32"
  by (auto simp: mk_HeapNodeId_def res_simps)

lemma mk_HeapNodeId_closed [simp, intro]: "fails_closed (mk_HeapNodeId raw)"
  by (auto simp: mk_HeapNodeId_def)

lemma HeapNodeId_unpack_closed [simp, intro]: "fails_closed (HeapNodeId_unpack_from buf off)"
  unfolding HeapNodeId_unpack_from_def by (intro fails_closed_ebind) auto

lemma HeapNodeId_is_heap_iff: "HeapNodeId_is_heap h \<longleftrightarrow> hnid_raw h mod 32 = 0"
  by (simp add: HeapNodeId_is_heap_def HID_TYPE_MASK_and)

lemma HeapNodeId_as_heap_closed [simp, intro]:
  "fails_closed (HeapNodeId_as_heap h)" "fails_closed (HeapNodeId_as_node h)"
  by (auto simp: HeapNodeId_as_heap_def HeapNodeId_as_node_def)

text \<open>An HNID is exactly one of the two, with the same 32 bits.\<close>

lemma HeapNodeId_split:
  assumes "heap_node_id_ok h"
  shows "HeapNodeId_as_heap h = Inr (if hnid_raw h mod 32 = 0 then Some (HeapId (hnid_raw h)) else None)"
    and "HeapNodeId_as_node h = Inr (if hnid_raw h mod 32 = 0 then None else Some (NodeId (hnid_raw h)))"
  using assms
  by (auto simp: HeapNodeId_as_heap_def HeapNodeId_as_node_def HeapNodeId_is_heap_iff heap_node_id_ok_def
      ebind_Inr_iff mk_HeapId_Inr_iff mk_NodeId_Inr_iff)

section \<open>HNHDR\<close>

record heap_node_header =
  hnh_page_map_offset :: int
  hnh_client_signature :: heap_node_type
  hnh_user_root :: heap_id
  hnh_fill_levels :: "int list"

definition unpack_fill_levels :: "int \<Rightarrow> nat \<Rightarrow> int list" where
  "unpack_fill_levels value count = map (\<lambda>i. drop_bit (4 * i) value AND 0xF) [0..<count]"

definition HeapNodeHeader_unpack_from :: "bytes \<Rightarrow> int \<Rightarrow> heap_node_header result" where
  "HeapNodeHeader_unpack_from buf offset =
     ebind (unpack HEAP_HEADER_FORMAT buf offset) (\<lambda>fs.
     ebind (raise_if (fs ! 1 \<noteq> HEAP_SIGNATURE) PstFormatError) (\<lambda>_.
     ebind (HeapNodeType_from_wire (fs ! 2)) (\<lambda>client.
     ebind (mk_HeapId (fs ! 3)) (\<lambda>user_root.
     Inr \<lparr>hnh_page_map_offset = fs ! 0, hnh_client_signature = client, hnh_user_root = user_root,
          hnh_fill_levels = unpack_fill_levels (fs ! 4) 8\<rparr>))))"

lemma HeapNodeHeader_closed [simp, intro]: "fails_closed (HeapNodeHeader_unpack_from buf off)"
  unfolding HeapNodeHeader_unpack_from_def by (intro fails_closed_ebind) auto

lemma HeapNodeHeader_user_root: "HeapNodeHeader_unpack_from buf off = Inr h \<Longrightarrow> heap_id_ok (hnh_user_root h)"
  by (auto simp: HeapNodeHeader_unpack_from_def ebind_Inr_iff dest: mk_HeapId_ok)

section \<open>Page maps\<close>

record heap_page_map =
  pm_offsets :: "int list"
  pm_free_count :: int
  pm_fill_levels :: "int list option"

definition HeapPageMap_count :: "heap_page_map \<Rightarrow> int" where
  "HeapPageMap_count m = len (pm_offsets m) - 1"

definition HeapPageMap_size :: "heap_page_map \<Rightarrow> int \<Rightarrow> int result" where
  "HeapPageMap_size m index =
     ebind (py_index (pm_offsets m) (index + 1)) (\<lambda>b.
     ebind (py_index (pm_offsets m) index) (\<lambda>a. Inr (b - a)))"

definition HeapPageMap_sizes :: "heap_page_map \<Rightarrow> int list result" where
  "HeapPageMap_sizes m = emap (HeapPageMap_size m) (map int [0..<nat (HeapPageMap_count m)])"

definition is_bitmap_block :: "int \<Rightarrow> bool" where
  "is_bitmap_block block_index = (block_index mod BITMAP_PERIOD = FIRST_BITMAP_BLOCK)"

text \<open>The scan of \<open>rgibAlloc\<close>: the last offset and the number of freed items.\<close>

fun scan_offsets :: "int \<Rightarrow> int \<Rightarrow> int list \<Rightarrow> (int \<times> int) result" where
  "scan_offsets prev freed [] = Inr (prev, freed)"
| "scan_offsets prev freed (offset # rest) =
     (if offset < prev then Inl PstFormatError
      else scan_offsets offset (if offset = prev then freed + 1 else freed) rest)"

definition parse_page_map :: "int \<Rightarrow> bytes \<Rightarrow> heap_page_map result" where
  "parse_page_map block_index block =
     ebind (if block_index = 0 then
              ebind (HeapNodeHeader_unpack_from block 0) (\<lambda>h. Inr (hnh_page_map_offset h, None))
            else if is_bitmap_block block_index then
              ebind (unpack BITMAP_HEADER_FORMAT block 0) (\<lambda>fs.
              Inr (fs ! 0, Some (unpack_fill_levels (fs ! 1) 128)))
            else ebind (unpack PAGE_HEADER_FORMAT block 0) (\<lambda>fs. Inr (fs ! 0, None)))
       (\<lambda>(page_map_offset, fill_levels).
     ebind (unpack PAGE_MAP_FORMAT block page_map_offset) (\<lambda>fs.
     let count = fs ! 0; free_count = fs ! 1 in
     ebind (unpack (replicate (nat (count + 1)) 2) block (page_map_offset + PAGE_MAP_SIZE)) (\<lambda>offsets.
     ebind (py_index offsets 0) (\<lambda>first.
     ebind (scan_offsets first 0 (tl offsets)) (\<lambda>(final, freed).
     ebind (raise_if (final > len block) PstFormatError) (\<lambda>_.
     ebind (raise_if (freed \<noteq> free_count) PstFormatError) (\<lambda>_.
     Inr \<lparr>pm_offsets = offsets, pm_free_count = free_count, pm_fill_levels = fill_levels\<rparr>)))))))"

lemma scan_offsets_closed [simp, intro]: "fails_closed (scan_offsets p f os)"
  by (induction os arbitrary: p f) auto

lemma scan_offsets_Inr:
  "scan_offsets p f os = Inr (l, g) \<longleftrightarrow>
     sorted (p # os) \<and> l = last (p # os) \<and>
     g = f + len (filter (\<lambda>i. (p # os) ! Suc i = (p # os) ! i) [0..<length os])"
proof (induction os arbitrary: p f)
  case Nil
  then show ?case by auto
next
  case (Cons x os)
  have upt: "[0..<length (x # os)] = 0 # map Suc [0..<length os]"
    by (simp add: upt_conv_Cons map_Suc_upt del: upt_Suc)
  have count: "len (filter (\<lambda>i. (p # x # os) ! Suc i = (p # x # os) ! i) [0..<length (x # os)]) =
      (if x = p then 1 else 0) + len (filter (\<lambda>i. (x # os) ! Suc i = (x # os) ! i) [0..<length os])"
    unfolding upt by (simp add: filter_map comp_def)
  show ?case
    unfolding count scan_offsets.simps using Cons.IH [of x] by (cases "x = p") auto
qed

lemma unpack_replicate_ne:
  "unpack (replicate (nat (count + 1)) w) b off = Inr os \<Longrightarrow> 0 \<le> count \<Longrightarrow> os \<noteq> []"
  using unpack_length [of "replicate (nat (count + 1)) w" b off os] by auto

lemma unpack_nonneg: "unpack ws b off = Inr fs \<Longrightarrow> i < length ws \<Longrightarrow> 0 \<le> fs ! i"
proof -
  have "fits ws fs \<Longrightarrow> i < length ws \<Longrightarrow> 0 \<le> fs ! i" for ws i fs
    by (induction ws fs arbitrary: i rule: fits.induct) (auto simp: nth_Cons split: nat.splits)
  then show "unpack ws b off = Inr fs \<Longrightarrow> i < length ws \<Longrightarrow> 0 \<le> fs ! i"
    using unpack_fits by blast
qed

lemma parse_page_map_closed [simp, intro]: "fails_closed (parse_page_map i b)"
proof -
  have idx: "fails_closed (py_index os 0)"
    if "unpack PAGE_MAP_FORMAT b off = Inr fs" "unpack (replicate (nat (fs ! 0 + 1)) 2) b off' = Inr os"
    for off off' fs and os :: "int list"
    using unpack_replicate_ne [OF that(2)] unpack_nonneg [OF that(1), of 0]
    by (simp add: PAGE_MAP_FORMAT_def py_index_ok)
  show ?thesis
    unfolding parse_page_map_def Let_def
    by (intro fails_closed_ebind fails_closed_if) (auto simp: Let_def intro!: fails_closed_ebind idx)
qed

text \<open>What a page map that parses says: ascending offsets inside the block, one more than \<open>cAlloc\<close>.\<close>

lemma parse_page_map_facts:
  assumes "parse_page_map i b = Inr m"
  shows "sorted (pm_offsets m)" "pm_offsets m \<noteq> []" "\<forall>x \<in> set (pm_offsets m). 0 \<le> x \<and> x \<le> len b"
    "0 \<le> HeapPageMap_count m" "HeapPageMap_count m \<le> 65535"
proof -
  from assms obtain off fl fs os l g where
    fs: "unpack PAGE_MAP_FORMAT b off = Inr fs" and
    os: "unpack (replicate (nat (fs ! 0 + 1)) 2) b (off + PAGE_MAP_SIZE) = Inr os" and
    scan: "scan_offsets (os ! 0) 0 (tl os) = Inr (l, g)" and l: "l \<le> len b" and m: "pm_offsets m = os"
    unfolding parse_page_map_def Let_def
    by (auto simp: ebind_Inr_iff raise_if_Inr_iff py_index_def Let_def split: prod.splits if_splits)
  have c0: "0 \<le> fs ! 0"
    using unpack_nonneg [OF fs, of 0] by (simp add: PAGE_MAP_FORMAT_def)
  have "fits PAGE_MAP_FORMAT fs" using fs by (rule unpack_fits)
  then have c1: "fs ! 0 < 65536"
    by (cases fs) (auto simp: PAGE_MAP_FORMAT_def)
  have ne: "os \<noteq> []" using unpack_replicate_ne [OF os c0] .
  then have cons: "os ! 0 # tl os = os" by (cases os) auto
  have len: "len os = fs ! 0 + 1"
    using unpack_length [OF os] c0 by simp
  show "sorted (pm_offsets m)" using scan cons m by (simp only: scan_offsets_Inr)
  moreover have "last os \<le> len b" using scan l cons by (simp only: scan_offsets_Inr)
  moreover have "0 \<le> x" if "x \<in> set os" for x
    using that unpack_nonneg [OF os] len unpack_length [OF os] by (auto simp: in_set_conv_nth)
  moreover have "x \<le> last os" if "x \<in> set os" "sorted os" for x
    using that sorted_nth_mono [of os _ "length os - 1"] ne
    by (auto simp: in_set_conv_nth last_conv_nth)
  ultimately show "\<forall>x \<in> set (pm_offsets m). 0 \<le> x \<and> x \<le> len b" using m by fastforce
  show "pm_offsets m \<noteq> []" using ne m by simp
  show "0 \<le> HeapPageMap_count m" "HeapPageMap_count m \<le> 65535"
    using len m c0 c1 by (simp_all add: HeapPageMap_count_def)
qed

section \<open>HeapNode\<close>

record heap_node =
  hn_blocks :: "bytes list"
  hn_subnodes :: subnodes
  hn_reader :: "block_reader option"
  hn_limits :: limits
  hn_header :: heap_node_header

record heap_state =
  hs_page_maps :: "int \<rightharpoonup> heap_page_map"
  hs_items_seen :: int

definition heap_fresh :: heap_state where
  "heap_fresh = \<lparr>hs_page_maps = Map.empty, hs_items_seen = 0\<rparr>"

definition HeapNode ::
  "bytes list \<Rightarrow> subnodes \<Rightarrow> block_reader option \<Rightarrow> limits \<Rightarrow> heap_node result" where
  "HeapNode blocks subnodes reader limits =
     (case blocks of
        [] \<Rightarrow> Inl PstFormatError
      | first # _ \<Rightarrow>
          ebind (HeapNodeHeader_unpack_from first 0) (\<lambda>h.
          Inr \<lparr>hn_blocks = blocks, hn_subnodes = subnodes, hn_reader = reader, hn_limits = limits,
               hn_header = h\<rparr>))"

text \<open>
  \<open>HeapNode.from_node\<close>: the entry is given by its data and sub-node block ids, which a node entry and
  a sub-node entry both have.
\<close>

definition HeapNode_from_node ::
  "block_reader \<Rightarrow> block_id \<Rightarrow> block_id option \<Rightarrow> limits option \<Rightarrow> heap_node result" where
  "HeapNode_from_node reader data sub_node limits =
     ebind (read_data_blocks reader data) (\<lambda>blocks.
     ebind (case sub_node of None \<Rightarrow> Inr [] | Some b \<Rightarrow> read_subnode_tree reader b) (\<lambda>subnodes.
     HeapNode blocks subnodes (Some reader)
       (case limits of None \<Rightarrow> rd_limits reader | Some l \<Rightarrow> l)))"

definition HeapNode_client_signature :: "heap_node \<Rightarrow> heap_node_type" where
  "HeapNode_client_signature hn = hnh_client_signature (hn_header hn)"

definition HeapNode_user_root :: "heap_node \<Rightarrow> heap_id" where
  "HeapNode_user_root hn = hnh_user_root (hn_header hn)"

definition HeapNode_block_count :: "heap_node \<Rightarrow> int" where
  "HeapNode_block_count hn = len (hn_blocks hn)"

definition HeapNode_block :: "heap_node \<Rightarrow> int \<Rightarrow> bytes result" where
  "HeapNode_block hn block_index =
     ebind (raise_if (\<not> (0 \<le> block_index \<and> block_index < len (hn_blocks hn))) PstFormatError) (\<lambda>_.
     py_index (hn_blocks hn) block_index)"

definition HeapNode_page_map :: "heap_node \<Rightarrow> int \<Rightarrow> (heap_state, heap_page_map) st" where
  "HeapNode_page_map hn block_index =
     sbind sget (\<lambda>s.
     case hs_page_maps s block_index of
       Some cached \<Rightarrow> sret cached
     | None \<Rightarrow>
         sbind (slift (HeapNode_block hn block_index)) (\<lambda>block.
         sbind (slift (parse_page_map block_index block)) (\<lambda>page_map.
         let seen = hs_items_seen s + HeapPageMap_count page_map in
         sbind (sput (s\<lparr>hs_items_seen := seen\<rparr>)) (\<lambda>_.
         sbind (slift (check_count seen (max_heap_items (hn_limits hn)))) (\<lambda>_.
         sbind (sput (s\<lparr>hs_items_seen := seen,
                        hs_page_maps := (hs_page_maps s)(block_index \<mapsto> page_map)\<rparr>)) (\<lambda>_.
         sret page_map))))))"

text \<open>The tail of \<open>get\<close>: the item of a block by its 1-based index.\<close>

definition item_span :: "heap_page_map \<Rightarrow> int \<Rightarrow> (int \<times> int) result" where
  "item_span page_map index =
     ebind (raise_if (index = 0) PstFormatError) (\<lambda>_.
     ebind (raise_if (index > HeapPageMap_count page_map) PstFormatError) (\<lambda>_.
     ebind (py_index (pm_offsets page_map) (index - 1)) (\<lambda>start.
     ebind (py_index (pm_offsets page_map) index) (\<lambda>stop.
     ebind (raise_if (start = stop) PstFormatError) (\<lambda>_. Inr (start, stop))))))"

definition HeapNode_get :: "heap_node \<Rightarrow> heap_id \<Rightarrow> (heap_state, bytes) st" where
  "HeapNode_get hn hid =
     sbind (slift (HeapNode_block hn (HeapId_block_index hid))) (\<lambda>block.
     sbind (HeapNode_page_map hn (HeapId_block_index hid)) (\<lambda>page_map.
     slift (ebind (item_span page_map (HeapId_index hid)) (\<lambda>(start, stop). Inr (slice block start stop)))))"

definition subnode_of :: "heap_node \<Rightarrow> heap_node_id \<Rightarrow> (sub_node_leaf_entry \<times> block_reader) result" where
  "subnode_of hn hnid =
     ebind (mk_NodeId (hnid_raw hnid)) (\<lambda>node.
     case (map_of (hn_subnodes hn) node, hn_reader hn) of
       (Some entry, Some reader) \<Rightarrow> Inr (entry, reader)
     | _ \<Rightarrow> Inl PstNotFoundError)"

definition HeapNode_get_hnid :: "heap_node \<Rightarrow> heap_node_id \<Rightarrow> (heap_state, bytes) st" where
  "HeapNode_get_hnid hn hnid =
     sbind (slift (HeapNodeId_as_heap hnid)) (\<lambda>heap.
     case heap of
       Some hid \<Rightarrow> HeapNode_get hn hid
     | None \<Rightarrow>
         sbind (slift (subnode_of hn hnid)) (\<lambda>(entry, reader).
         slift (read_data reader (sl_data entry))))"

definition HeapNode_get_hnid_blocks :: "heap_node \<Rightarrow> heap_node_id \<Rightarrow> (heap_state, bytes list) st" where
  "HeapNode_get_hnid_blocks hn hnid =
     sbind (slift (HeapNodeId_as_heap hnid)) (\<lambda>heap.
     case heap of
       Some hid \<Rightarrow> sbind (HeapNode_get hn hid) (\<lambda>x. sret [x])
     | None \<Rightarrow>
         sbind (slift (subnode_of hn hnid)) (\<lambda>(entry, reader).
         slift (read_data_blocks reader (sl_data entry))))"

section \<open>The meaning without the cache\<close>

definition heap_item :: "heap_node \<Rightarrow> heap_id \<Rightarrow> bytes result" where
  "heap_item hn hid =
     ebind (HeapNode_block hn (HeapId_block_index hid)) (\<lambda>block.
     ebind (parse_page_map (HeapId_block_index hid) block) (\<lambda>page_map.
     ebind (item_span page_map (HeapId_index hid)) (\<lambda>(start, stop). Inr (slice block start stop))))"

definition heap_value :: "heap_node \<Rightarrow> heap_node_id \<Rightarrow> bytes result" where
  "heap_value hn hnid =
     ebind (HeapNodeId_as_heap hnid) (\<lambda>heap.
     case heap of
       Some hid \<Rightarrow> heap_item hn hid
     | None \<Rightarrow> ebind (subnode_of hn hnid) (\<lambda>(entry, reader). read_data reader (sl_data entry)))"

definition heap_value_blocks :: "heap_node \<Rightarrow> heap_node_id \<Rightarrow> bytes list result" where
  "heap_value_blocks hn hnid =
     ebind (HeapNodeId_as_heap hnid) (\<lambda>heap.
     case heap of
       Some hid \<Rightarrow> ebind (heap_item hn hid) (\<lambda>x. Inr [x])
     | None \<Rightarrow> ebind (subnode_of hn hnid) (\<lambda>(entry, reader). read_data_blocks reader (sl_data entry)))"

text \<open>The allocations of one block, and of the set of blocks whose page map is kept.\<close>

definition block_items :: "heap_node \<Rightarrow> int \<Rightarrow> int" where
  "block_items hn i =
     (case ebind (HeapNode_block hn i) (parse_page_map i) of Inl _ \<Rightarrow> 0 | Inr m \<Rightarrow> HeapPageMap_count m)"

definition cached_items :: "heap_node \<Rightarrow> (int \<rightharpoonup> heap_page_map) \<Rightarrow> int" where
  "cached_items hn maps = (\<Sum>i \<in> {i \<in> {0 ..< len (hn_blocks hn)}. maps i \<noteq> None}. block_items hn i)"

definition heap_within_budget :: "heap_node \<Rightarrow> bool" where
  "heap_within_budget hn \<longleftrightarrow>
     (\<Sum>i \<in> {0 ..< len (hn_blocks hn)}. block_items hn i) \<le> max_heap_items (hn_limits hn)"

text \<open>
  The invariant of a heap's state: every page map kept is the one its block parses to; the maps kept
  hold no more items than have been counted, and no more than the ceiling; and nothing has been
  counted twice unless a ceiling was hit.
\<close>

definition heap_inv :: "heap_node \<Rightarrow> heap_state \<Rightarrow> bool" where
  "heap_inv hn s \<longleftrightarrow>
     (\<forall>i m. hs_page_maps s i = Some m \<longrightarrow> ebind (HeapNode_block hn i) (parse_page_map i) = Inr m) \<and>
     cached_items hn (hs_page_maps s) \<le> hs_items_seen s \<and>
     cached_items hn (hs_page_maps s) \<le> max 0 (max_heap_items (hn_limits hn)) \<and>
     (heap_within_budget hn \<longrightarrow> hs_items_seen s \<le> cached_items hn (hs_page_maps s))"

lemma HeapNode_block_Inr_iff:
  "HeapNode_block hn i = Inr b \<longleftrightarrow> 0 \<le> i \<and> i < len (hn_blocks hn) \<and> b = hn_blocks hn ! nat i"
  by (auto simp: HeapNode_block_def ebind_Inr_iff raise_if_Inr_iff py_index_def)

lemma HeapNode_block_closed [simp, intro]: "fails_closed (HeapNode_block hn i)"
  unfolding HeapNode_block_def
  by (intro fails_closed_ebind) (auto simp: py_index_ok raise_if_Inr_iff)

lemma block_items_nonneg [simp]: "0 \<le> block_items hn i"
  by (auto simp: block_items_def ebind_Inr_iff split: sum.splits dest: parse_page_map_facts(4))

lemma heap_inv_fresh: "heap_inv hn heap_fresh"
  by (auto simp: heap_inv_def heap_fresh_def cached_items_def)

lemma cached_items_insert:
  assumes "maps i = None" "0 \<le> i" "i < len (hn_blocks hn)"
  shows "cached_items hn (maps(i \<mapsto> m)) = cached_items hn maps + block_items hn i"
proof -
  let ?A = "{j \<in> {0 ..< len (hn_blocks hn)}. maps j \<noteq> None}"
  have "{j \<in> {0 ..< len (hn_blocks hn)}. (maps(i \<mapsto> m)) j \<noteq> None} = insert i ?A"
    using assms by auto
  moreover have "i \<notin> ?A" using assms(1) by simp
  moreover have "finite ?A" by (rule finite_subset [of _ "{0 ..< len (hn_blocks hn)}"]) auto
  ultimately show ?thesis by (simp add: cached_items_def)
qed

lemma cached_items_total:
  "cached_items hn maps \<le> (\<Sum>i \<in> {0 ..< len (hn_blocks hn)}. block_items hn i)"
  unfolding cached_items_def by (intro sum_mono2) auto

text \<open>Reading a page map keeps the invariant and gives the block's own.\<close>

lemma HeapNode_page_map_implements:
  "implements (heap_inv hn) (heap_within_budget hn) (HeapNode_page_map hn i)
     (ebind (HeapNode_block hn i) (parse_page_map i))"
  unfolding implements_def
proof (intro allI impI)
  fix s assume inv: "heap_inv hn s"
  let ?p = "ebind (HeapNode_block hn i) (parse_page_map i)"
  let ?r = "HeapNode_page_map hn i s"
  show "heap_inv hn (snd ?r) \<and>
    (fst ?r = ?p \<or> \<not> heap_within_budget hn \<and> fst ?r = Inl PstLimitError)"
  proof (cases "hs_page_maps s i")
    case (Some m)
    then show ?thesis using inv by (simp add: HeapNode_page_map_def heap_inv_def)
  next
    case None
    show ?thesis
    proof (cases ?p)
      case (Inl e)
      then have "?r = (Inl e, s)"
        using None by (auto simp: HeapNode_page_map_def ebind_Inl_iff)
      with inv Inl show ?thesis by simp
    next
      case (Inr m)
      then obtain b where b: "HeapNode_block hn i = Inr b" and m: "parse_page_map i b = Inr m"
        by (auto simp: ebind_Inr_iff)
      have i: "0 \<le> i" "i < len (hn_blocks hn)" using b by (simp_all add: HeapNode_block_Inr_iff)
      have items: "block_items hn i = HeapPageMap_count m" using Inr by (simp add: block_items_def)
      note ins = cached_items_insert [of "hs_page_maps s" i hn, OF None i, of m, unfolded items]
      note bound = cached_items_total [of hn "(hs_page_maps s)(i \<mapsto> m)", unfolded ins]
      have c: "0 \<le> HeapPageMap_count m" using m by (rule parse_page_map_facts)
      let ?seen = "hs_items_seen s + HeapPageMap_count m"
      show ?thesis
      proof (cases "?seen \<le> max_heap_items (hn_limits hn)")
        case True
        then have "?r = (Inr m, s\<lparr>hs_items_seen := ?seen, hs_page_maps := (hs_page_maps s)(i \<mapsto> m)\<rparr>)"
          using None b m by (simp add: HeapNode_page_map_def Let_def check_ok)
        moreover have "heap_inv hn (snd ?r)"
          unfolding calculation using inv Inr True ins by (auto simp: heap_inv_def)
        ultimately show ?thesis using Inr by simp
      next
        case False
        then have r: "?r = (Inl PstLimitError, s\<lparr>hs_items_seen := ?seen\<rparr>)"
          using None b m by (simp add: HeapNode_page_map_def Let_def check_over)
        have "\<not> heap_within_budget hn"
          using inv bound False unfolding heap_inv_def heap_within_budget_def by auto
        with r inv c show ?thesis by (auto simp: heap_inv_def)
      qed
    qed
  qed
qed

lemma HeapNode_get_implements:
  "implements (heap_inv hn) (heap_within_budget hn) (HeapNode_get hn hid) (heap_item hn hid)"
proof -
  have "heap_item hn hid =
      ebind (HeapNode_block hn (HeapId_block_index hid)) (\<lambda>block.
      ebind (ebind (HeapNode_block hn (HeapId_block_index hid)) (parse_page_map (HeapId_block_index hid)))
        (\<lambda>page_map. ebind (item_span page_map (HeapId_index hid)) (\<lambda>(a, b). Inr (slice block a b))))"
    by (cases "HeapNode_block hn (HeapId_block_index hid)") (simp_all add: heap_item_def)
  then show ?thesis
    unfolding HeapNode_get_def
    by (auto intro!: implements_sbind implements_slift HeapNode_page_map_implements)
qed

lemma HeapNode_get_exact:
  "heap_within_budget hn \<Longrightarrow> heap_inv hn s \<Longrightarrow> fst (HeapNode_get hn hid s) = heap_item hn hid"
  using HeapNode_get_implements [of hn hid] by (simp add: implements_def)

lemma HeapNode_get_hnid_implements:
  "implements (heap_inv hn) (heap_within_budget hn) (HeapNode_get_hnid hn hnid) (heap_value hn hnid)"
  unfolding HeapNode_get_hnid_def heap_value_def
  by (intro implements_sbind implements_slift)
     (auto split: option.split intro!: implements_sbind implements_slift HeapNode_get_implements)

lemma HeapNode_get_hnid_blocks_implements:
  "implements (heap_inv hn) (heap_within_budget hn) (HeapNode_get_hnid_blocks hn hnid)
     (heap_value_blocks hn hnid)"
  unfolding HeapNode_get_hnid_blocks_def heap_value_blocks_def
  by (intro implements_sbind implements_slift)
     (auto split: option.split intro!: implements_sbind implements_slift implements_sret HeapNode_get_implements)

section \<open>Items lie in their blocks\<close>

definition heap_ok :: "heap_node \<Rightarrow> bool" where
  "heap_ok hn \<longleftrightarrow> (\<forall>rd. hn_reader hn = Some rd \<longrightarrow> reader_ok rd)"

lemma item_span_Inr_iff:
  "item_span m i = Inr (a, b) \<longleftrightarrow>
     0 \<le> i - 1 + (if i < 1 then len (pm_offsets m) else 0) \<and> i \<noteq> 0 \<and> i \<le> HeapPageMap_count m \<and>
     py_index (pm_offsets m) (i - 1) = Inr a \<and> py_index (pm_offsets m) i = Inr b \<and> a \<noteq> b"
  by (auto simp: item_span_def ebind_Inr_iff raise_if_Inr_iff py_index_def Let_def split: if_splits)

lemma item_span_ok:
  assumes "1 \<le> i" "i \<le> HeapPageMap_count m"
    and "pm_offsets m ! nat (i - 1) \<noteq> pm_offsets m ! nat i"
  shows "item_span m i = Inr (pm_offsets m ! nat (i - 1), pm_offsets m ! nat i)"
  using assms by (simp add: item_span_def py_index_ok HeapPageMap_count_def)

lemma item_span_pos:
  assumes "item_span m i = Inr (a, b)" "0 \<le> i"
  shows "1 \<le> i" "i \<le> HeapPageMap_count m" "a = pm_offsets m ! nat (i - 1)" "b = pm_offsets m ! nat i" "a \<noteq> b"
  using assms by (auto simp: item_span_Inr_iff py_index_def Let_def split: if_splits)

lemma item_span_closed: "0 \<le> i \<Longrightarrow> fails_closed (item_span m i)"
  unfolding item_span_def
  by (intro fails_closed_ebind) (auto simp: HeapPageMap_count_def raise_if_Inr_iff py_index_ok)

lemma HeapId_index_nonneg [simp]: "0 \<le> HeapId_index h"
  by (simp add: HeapId_index_div)

lemma heap_item_closed [simp, intro]: "fails_closed (heap_item hn hid)"
  unfolding heap_item_def by (intro fails_closed_ebind) (auto simp: item_span_closed)

lemma subnode_of_closed [simp, intro]: "fails_closed (subnode_of hn hnid)"
  unfolding subnode_of_def by (intro fails_closed_ebind) (auto split: option.split)

lemma subnode_of_reader: "subnode_of hn hnid = Inr (e, rd) \<Longrightarrow> hn_reader hn = Some rd"
  by (auto simp: subnode_of_def ebind_Inr_iff split: option.splits)

lemma heap_value_closed [simp, intro]: "heap_ok hn \<Longrightarrow> fails_closed (heap_value hn hnid)"
  unfolding heap_value_def heap_ok_def
  by (intro fails_closed_ebind) (auto split: option.split intro!: fails_closed_ebind dest: subnode_of_reader)

lemma heap_value_blocks_closed [simp, intro]: "heap_ok hn \<Longrightarrow> fails_closed (heap_value_blocks hn hnid)"
  unfolding heap_value_blocks_def heap_ok_def
  by (intro fails_closed_ebind) (auto split: option.split intro!: fails_closed_ebind dest: subnode_of_reader)

lemma HeapNode_closed [simp, intro]: "fails_closed (HeapNode blocks sub rd l)"
  by (auto simp: HeapNode_def split: list.split)

lemma HeapNode_from_node_closed [simp, intro]:
  "reader_ok rd \<Longrightarrow> fails_closed (HeapNode_from_node rd data sub l)"
  unfolding HeapNode_from_node_def by (intro fails_closed_ebind) (auto split: option.split)

lemma HeapNode_Inr:
  "HeapNode blocks sub rd l = Inr hn \<Longrightarrow>
     blocks \<noteq> [] \<and> HeapNodeHeader_unpack_from (hd blocks) 0 = Inr (hn_header hn) \<and>
     hn_blocks hn = blocks \<and> hn_subnodes hn = sub \<and> hn_reader hn = rd \<and> hn_limits hn = l"
  by (cases blocks) (auto simp: HeapNode_def ebind_Inr_iff)

lemma HeapNode_from_node_Inr:
  "HeapNode_from_node rd data sub l = Inr hn \<Longrightarrow>
     read_data_blocks rd data = Inr (hn_blocks hn) \<and> hn_reader hn = Some rd \<and>
     hn_limits hn = (case l of None \<Rightarrow> rd_limits rd | Some x \<Rightarrow> x) \<and> heap_id_ok (HeapNode_user_root hn)"
  by (auto simp: HeapNode_from_node_def ebind_Inr_iff HeapNode_user_root_def
      dest!: HeapNode_Inr dest: HeapNodeHeader_user_root)

lemma HeapNode_from_node_ok: "reader_ok rd \<Longrightarrow> HeapNode_from_node rd data sub l = Inr hn \<Longrightarrow> heap_ok hn"
  by (auto simp: heap_ok_def dest: HeapNode_from_node_Inr)

lemma HeapNode_user_root_ok: "HeapNode blocks sub rd l = Inr hn \<Longrightarrow> heap_id_ok (HeapNode_user_root hn)"
  by (auto simp: HeapNode_user_root_def dest!: HeapNode_Inr HeapNodeHeader_user_root)

lemma heap_item_span:
  assumes "heap_item hn hid = Inr x"
  obtains block m a b where "HeapNode_block hn (HeapId_block_index hid) = Inr block"
    "parse_page_map (HeapId_block_index hid) block = Inr m"
    "1 \<le> HeapId_index hid" "HeapId_index hid \<le> HeapPageMap_count m"
    "a = pm_offsets m ! nat (HeapId_index hid - 1)" "b = pm_offsets m ! nat (HeapId_index hid)"
    "0 \<le> a" "a < b" "b \<le> len block" "x = slice block a b"
proof -
  from assms obtain block m a b where
    block: "HeapNode_block hn (HeapId_block_index hid) = Inr block" and
    m: "parse_page_map (HeapId_block_index hid) block = Inr m" and
    sp: "item_span m (HeapId_index hid) = Inr (a, b)" and x: "x = slice block a b"
    by (auto simp: heap_item_def ebind_Inr_iff)
  note pos = item_span_pos [OF sp HeapId_index_nonneg]
  note facts = parse_page_map_facts [OF m]
  have idx: "nat (HeapId_index hid - 1) < length (pm_offsets m)" "nat (HeapId_index hid) < length (pm_offsets m)"
    using pos(1,2) by (simp_all add: HeapPageMap_count_def)
  have "a \<le> b"
    unfolding pos(3,4) using idx pos(1) by (intro sorted_nth_mono [OF facts(1)]) auto
  moreover have "0 \<le> a" "b \<le> len block"
    using facts(3) idx pos(3,4) by (auto simp: Ball_def in_set_conv_nth)
  ultimately show thesis using that [OF block m pos(1-4)] pos(5) x by simp
qed

lemma heap_item_length: "heap_item hn hid = Inr x \<Longrightarrow> 0 < len x"
  by (elim heap_item_span) (simp add: length_slice)

text \<open>Two items of one block with different indices do not overlap.\<close>

lemma heap_items_disjoint:
  assumes m: "parse_page_map i b = Inr m"
    and k: "item_span m k = Inr (p, q)" and l: "item_span m l = Inr (p', q')"
    and kl: "0 \<le> k" "0 \<le> l" "k \<noteq> l"
  shows "q \<le> p' \<or> q' \<le> p"
proof -
  have mono: "pm_offsets m ! nat x \<le> pm_offsets m ! nat (y - 1)"
    if "x < y" "1 \<le> x" "y \<le> HeapPageMap_count m" for x y
    using that by (intro sorted_nth_mono [OF parse_page_map_facts(1) [OF m]])
      (auto simp: HeapPageMap_count_def)
  note K = item_span_pos [OF k kl(1)] and L = item_span_pos [OF l kl(2)]
  show ?thesis
    using mono [of k l] mono [of l k] K L kl(3) by (cases "k < l") auto
qed

section \<open>Writing a heap block\<close>

definition heap_header_size :: "int \<Rightarrow> int" where
  "heap_header_size i =
     (if i = 0 then HEAP_HEADER_SIZE else if is_bitmap_block i then BITMAP_HEADER_SIZE else PAGE_HEADER_SIZE)"

definition heap_header_bytes :: "int \<Rightarrow> heap_node_type \<Rightarrow> heap_id \<Rightarrow> int \<Rightarrow> int \<Rightarrow> bytes" where
  "heap_header_bytes i client root fill at =
     (if i = 0 then struct_pack HEAP_HEADER_FORMAT [at, HEAP_SIGNATURE, heap_node_type_value client, hid_raw root, fill]
      else if is_bitmap_block i then struct_pack BITMAP_HEADER_FORMAT [at, fill]
      else struct_pack PAGE_HEADER_FORMAT [at])"

definition heap_block_bytes :: "int \<Rightarrow> heap_node_type \<Rightarrow> heap_id \<Rightarrow> int \<Rightarrow> bytes list \<Rightarrow> bytes" where
  "heap_block_bytes i client root fill items =
     (let start = heap_header_size i; at = start + len (concat items) in
      heap_header_bytes i client root fill at @ concat items @
      struct_pack PAGE_MAP_FORMAT [len items, len (filter (\<lambda>x. x = []) items)] @
      struct_pack (replicate (length items + 1) 2) (item_offsets start items))"

text \<open>What a block can hold: offsets, counts and fill levels that fit their fields.\<close>

definition writable_heap_block :: "int \<Rightarrow> heap_id \<Rightarrow> int \<Rightarrow> bytes list \<Rightarrow> bool" where
  "writable_heap_block i root fill items \<longleftrightarrow>
     heap_id_ok root \<and> 0 \<le> fill \<and> fill < (if i = 0 then 256 ^ 4 else 256 ^ 64) \<and>
     heap_header_size i + len (concat items) < 65536 \<and> len items < 65536"

lemma scan_item_offsets:
  "scan_offsets a f (tl (item_offsets a xs)) =
     Inr (a + len (concat xs), f + len (filter (\<lambda>x. x = []) xs))"
proof (induction xs arbitrary: a f)
  case Nil
  then show ?case by simp
next
  case (Cons x xs)
  have "item_offsets (a + len x) xs = (a + len x) # tl (item_offsets (a + len x) xs)"
    by (cases xs) auto
  then have "scan_offsets a f (tl (item_offsets a (x # xs))) =
      scan_offsets (a + len x) (if a + len x = a then f + 1 else f) (tl (item_offsets (a + len x) xs))"
    using scan_offsets.simps(2) [of a f "a + len x" "tl (item_offsets (a + len x) xs)"] by simp
  also have "\<dots> = Inr (a + len (concat (x # xs)), f + len (filter (\<lambda>x. x = []) (x # xs)))"
    unfolding Cons.IH by simp
  finally show ?case .
qed

lemma heap_header_size_pos: "0 < heap_header_size i"
  by (simp add: heap_header_size_def heap_formats BITMAP_HEADER_SIZE_def PAGE_HEADER_SIZE_def)

lemma heap_header_bytes_length: "len (heap_header_bytes i client root fill at) = heap_header_size i"
  by (simp add: heap_header_size_def heap_header_bytes_def heap_formats BITMAP_HEADER_SIZE_def
      PAGE_HEADER_SIZE_def length_struct_pack)

lemma HeapNodeHeader_written:
  assumes "writable_heap_block 0 root fill items"
  shows "HeapNodeHeader_unpack_from (heap_block_bytes 0 client root fill items) 0 =
    Inr \<lparr>hnh_page_map_offset = heap_header_size 0 + len (concat items), hnh_client_signature = client,
         hnh_user_root = root, hnh_fill_levels = unpack_fill_levels fill 8\<rparr>"
proof -
  let ?at = "heap_header_size 0 + len (concat items)"
  let ?fs = "[?at, HEAP_SIGNATURE, heap_node_type_value client, hid_raw root, fill]"
  have "fits HEAP_HEADER_FORMAT ?fs"
    using assms heap_node_type_range [of client] heap_header_size_pos [of 0]
    by (simp add: HEAP_HEADER_FORMAT_def writable_heap_block_def HEAP_SIGNATURE_def heap_id_ok_def U32_def)
  from unpack_pack0 [OF this]
  have "unpack HEAP_HEADER_FORMAT (heap_block_bytes 0 client root fill items) 0 = Inr ?fs"
    by (simp add: heap_block_bytes_def Let_def heap_header_bytes_def)
  with assms show ?thesis
    by (simp add: HeapNodeHeader_unpack_from_def writable_heap_block_def)
qed

theorem parse_page_map_written:
  assumes w: "writable_heap_block i root fill items"
  shows "\<exists>fl. parse_page_map i (heap_block_bytes i client root fill items) =
    Inr \<lparr>pm_offsets = item_offsets (heap_header_size i) items,
         pm_free_count = len (filter (\<lambda>x. x = []) items), pm_fill_levels = fl\<rparr>"
proof -
  let ?b = "heap_block_bytes i client root fill items"
  let ?n = "heap_header_size i" and ?at = "heap_header_size i + len (concat items)"
  let ?hdr = "heap_header_bytes i client root fill ?at"
  let ?free = "len (filter (\<lambda>x. x = []) items)"
  let ?map = "struct_pack PAGE_MAP_FORMAT [len items, ?free]"
  let ?offs = "struct_pack (replicate (length items + 1) 2) (item_offsets ?n items)"
  have b: "?b = ?hdr @ concat items @ ?map @ ?offs"
    by (simp add: heap_block_bytes_def Let_def)
  have hlen: "len ?hdr = ?n" by (rule heap_header_bytes_length)
  have w': "0 \<le> fill" "fill < 256 ^ 64" "?at < 65536" "len items < 65536"
    using w by (auto simp: writable_heap_block_def split: if_splits)
  have free: "?free \<le> len items" using length_filter_le [of "\<lambda>x. x = []" items] by linarith
  have head: "\<exists>fl. (if i = 0 then
              ebind (HeapNodeHeader_unpack_from ?b 0) (\<lambda>h. Inr (hnh_page_map_offset h, None))
            else if is_bitmap_block i then
              ebind (unpack BITMAP_HEADER_FORMAT ?b 0) (\<lambda>fs.
              Inr (fs ! 0, Some (unpack_fill_levels (fs ! 1) 128)))
            else ebind (unpack PAGE_HEADER_FORMAT ?b 0) (\<lambda>fs. Inr (fs ! 0, None))) = Inr (?at, fl)"
  proof (cases "i = 0")
    case True
    with w show ?thesis using HeapNodeHeader_written [of root fill items client] by simp
  next
    case False
    have "fits BITMAP_HEADER_FORMAT [?at, fill]" "fits PAGE_HEADER_FORMAT [?at]"
      using w' heap_header_size_pos [of i] by (simp_all add: BITMAP_HEADER_FORMAT_def PAGE_HEADER_FORMAT_def)
    from this [THEN unpack_pack0, of "concat items @ ?map @ ?offs"] False show ?thesis
      unfolding b by (simp add: heap_header_bytes_def)
  qed
  have "fits PAGE_MAP_FORMAT [len items, ?free]"
    using w'(4) free by (simp add: PAGE_MAP_FORMAT_def del: length_filter_le)
  from unpack_pack [OF this, of "?hdr @ concat items" ?offs]
  have map: "unpack PAGE_MAP_FORMAT ?b ?at = Inr [len items, ?free]"
    unfolding b using hlen by simp
  have "fits (replicate (length items + 1) 2) (item_offsets ?n items)"
    using w'(3) item_offsets_range [of ?n _ items] heap_header_size_pos [of i]
    by (intro fits_replicate) fastforce+
  from unpack_pack [OF this, of "?hdr @ concat items @ ?map" "[]"]
  have offs: "unpack (replicate (nat (len items + 1)) 2) ?b (?at + PAGE_MAP_SIZE) = Inr (item_offsets ?n items)"
    unfolding b using hlen
    by (simp add: nat_add_distrib heap_formats length_struct_pack algebra_simps)
  have "py_index (item_offsets ?n items) 0 = Inr ?n"
    by (cases items) (simp_all add: py_index_ok)
  moreover have "?at \<le> len ?b" unfolding b using hlen by simp
  ultimately show ?thesis
    unfolding parse_page_map_def using head map offs scan_item_offsets [of ?n 0 items]
    by (auto simp: Let_def)
qed

theorem heap_item_written:
  assumes w: "writable_heap_block i root fill items"
    and blk: "HeapNode_block hn i = Inr (heap_block_bytes i client root fill items)"
    and k: "k < length items" and hid: "HeapId_from_parts (int k + 1) i = Inr hid"
  shows "heap_item hn hid = (if items ! k = [] then Inl PstFormatError else Inr (items ! k))"
proof -
  let ?n = "heap_header_size i" and ?b = "heap_block_bytes i client root fill items"
  have h: "HeapId_index hid = int k + 1" "HeapId_block_index hid = i"
    using hid by (auto simp: HeapId_from_parts_eq HeapId_index_div HeapId_block_index_div split: if_splits)
  obtain fl where m: "parse_page_map i ?b = Inr \<lparr>pm_offsets = item_offsets ?n items,
      pm_free_count = len (filter (\<lambda>x. x = []) items), pm_fill_levels = fl\<rparr>" (is "_ = Inr ?m")
    using parse_page_map_written [OF w] by blast
  have split: "concat items = concat (take k items) @ items ! k @ concat (drop (Suc k) items)"
    by (rule concat_nth_split [OF k])
  have a: "pm_offsets ?m ! k = ?n + len (concat (take k items))"
    using k by (simp add: item_offsets_nth)
  have b: "pm_offsets ?m ! Suc k = ?n + len (concat (take k items)) + len (items ! k)"
    using k by (simp add: item_offsets_nth take_Suc_conv_app_nth)
  have count: "HeapPageMap_count ?m = len items" by (simp add: HeapPageMap_count_def)
  have idx: "py_index (pm_offsets ?m) (int k) = Inr (pm_offsets ?m ! k)"
      "py_index (pm_offsets ?m) (int k + 1) = Inr (pm_offsets ?m ! Suc k)"
    using k by (simp_all add: py_index_ok nat_add_distrib)
  have sl: "slice ?b (?n + len (concat (take k items))) (?n + len (concat (take k items)) + len (items ! k)) = items ! k"
  proof -
    obtain hdr post where bb: "?b = hdr @ concat items @ post" and hl: "len hdr = ?n"
      unfolding heap_block_bytes_def Let_def by (metis heap_header_bytes_length)
    have "?b = (hdr @ concat (take k items)) @ items ! k @ concat (drop (Suc k) items) @ post"
      unfolding bb by (subst split) simp
    moreover have "?n + len (concat (take k items)) = len (hdr @ concat (take k items))"
      using hl by simp
    ultimately show ?thesis by (simp add: slice_def)
  qed
  show ?thesis
    using k idx a b sl count unfolding heap_item_def h blk ebind_simps m item_span_def
    by (auto simp: raise_if_def)
qed

section \<open>A heap of one block\<close>

text \<open>The heap over one written block, with no sub-nodes and the default limits.\<close>

definition small_heap :: "heap_node_type \<Rightarrow> heap_id \<Rightarrow> bytes list \<Rightarrow> heap_node" where
  "small_heap client root items =
     \<lparr>hn_blocks = [heap_block_bytes 0 client root 0 items], hn_subnodes = [], hn_reader = None,
      hn_limits = DEFAULT_LIMITS,
      hn_header = \<lparr>hnh_page_map_offset = heap_header_size 0 + len (concat items),
        hnh_client_signature = client, hnh_user_root = root, hnh_fill_levels = unpack_fill_levels 0 8\<rparr>\<rparr>"

lemma small_heap_is:
  "writable_heap_block 0 root 0 items \<Longrightarrow>
   HeapNode [heap_block_bytes 0 client root 0 items] [] None DEFAULT_LIMITS = Inr (small_heap client root items)"
  using HeapNodeHeader_written [of root 0 items client] by (simp add: HeapNode_def small_heap_def)

lemma small_heap_block:
  "HeapNode_block (small_heap client root items) 0 = Inr (heap_block_bytes 0 client root 0 items)"
  by (simp add: HeapNode_block_Inr_iff small_heap_def)

lemma small_heap_ok: "heap_ok (small_heap client root items)"
  by (simp add: heap_ok_def small_heap_def)

lemma small_heap_item:
  assumes w: "writable_heap_block 0 root 0 items" and k: "k < length items" "k < 2047" "items ! k \<noteq> []"
    and h: "hid = HeapId (32 * (int k + 1))"
  shows "heap_item (small_heap client root items) hid = Inr (items ! k)"
proof -
  have "HeapId_from_parts (int k + 1) 0 = Inr hid" using k(2) h by (simp add: HeapId_from_parts_eq)
  from heap_item_written [OF w small_heap_block k(1) this] k(3) show ?thesis by simp
qed

lemma small_heap_budget:
  assumes w: "writable_heap_block 0 root 0 items"
  shows "heap_within_budget (small_heap client root items)"
proof -
  let ?hn = "small_heap client root items"
  obtain fl where "parse_page_map 0 (heap_block_bytes 0 client root 0 items) =
      Inr \<lparr>pm_offsets = item_offsets (heap_header_size 0) items,
           pm_free_count = len (filter (\<lambda>x. x = []) items), pm_fill_levels = fl\<rparr>"
    using parse_page_map_written [OF w] by blast
  then have "block_items ?hn 0 = len items"
    by (simp add: block_items_def small_heap_block HeapPageMap_count_def)
  moreover have "{0 ..< len (hn_blocks ?hn)} = {0}" by (auto simp: small_heap_def)
  moreover have "max_heap_items (hn_limits ?hn) = MAX_HEAP_ITEMS"
    by (simp add: small_heap_def DEFAULT_LIMITS_def)
  moreover have "len items < 65536" using w by (simp add: writable_heap_block_def)
  ultimately show ?thesis
    by (simp add: heap_within_budget_def MAX_HEAP_ITEMS_def)
qed

definition sample_items :: "bytes list" where
  "sample_items = [[0x61, 0x62], [], [0x63]]"

definition sample_heap :: heap_node where
  "sample_heap = small_heap HN_PROPERTIES (HeapId 0x20) sample_items"

lemma sample_heap_writable: "writable_heap_block 0 (HeapId 0x20) 0 sample_items"
  by (simp add: writable_heap_block_def sample_items_def heap_id_ok_def U32_def heap_header_size_def heap_formats)

lemma sample_budget: "heap_within_budget sample_heap"
  unfolding sample_heap_def by (rule small_heap_budget [OF sample_heap_writable])

definition sample_heap_block :: bytes where
  "sample_heap_block = heap_block_bytes 0 HN_PROPERTIES (HeapId 0x20) 0 sample_items"

lemma sample_block: "HeapNode_block sample_heap 0 = Inr sample_heap_block"
  unfolding sample_heap_def sample_heap_block_def by (rule small_heap_block)

section \<open>Properties\<close>

text \<open>C14: reading an item through the heap's cache gives what the blocks say. In any state the heap can
  be in, \<open>get\<close> returns or raises what a parse of the item's block does, whatever page maps were parsed
  before, except that the item ceiling may stop it, which it cannot when all the blocks together stay
  within the ceiling; the state it leaves again keeps only page maps of its own blocks, holding at
  most the ceiling's number of items.\<close>

theorem HeapNode_get_cached:
  assumes "heap_inv hn s" "HeapNode_get hn hid s = (r, s')"
  shows "heap_inv hn s' \<and>
    (r = heap_item hn hid \<or> \<not> heap_within_budget hn \<and> r = Inl PstLimitError)"
  using implementsD [OF HeapNode_get_implements assms] .

theorem HeapNode_get_cached_witness: "fst (HeapNode_get sample_heap (HeapId 0x20) heap_fresh) = Inr [0x61, 0x62]"
proof -
  have id: "HeapId_from_parts (int 0 + 1) 0 = Inr (HeapId 0x20)" by (simp add: HeapId_from_parts_eq)
  have item: "heap_item sample_heap (HeapId 0x20) = Inr [0x61, 0x62]"
    using heap_item_written [OF sample_heap_writable sample_block [unfolded sample_heap_block_def] _ id]
    by (simp add: sample_items_def)
  obtain r s' where run: "HeapNode_get sample_heap (HeapId 0x20) heap_fresh = (r, s')" by fastforce
  from HeapNode_get_cached [OF heap_inv_fresh run] sample_budget item run show ?thesis by simp
qed

text \<open>C15: the heap reads back what was written into it. In a heap one of whose blocks holds given items
  (behind the HNHDR, the bitmap header or the page header its position calls for), \<open>get\<close> of the HID
  made from an item's 1-based index and the block's index returns the item, and refuses a freed
  (empty) one, from any state of the cache.\<close>

theorem HeapNode_get_roundtrip:
  assumes "writable_heap_block i root fill items" "heap_within_budget hn" "heap_inv hn s"
    and "HeapNode_block hn i = Inr (heap_block_bytes i client root fill items)"
    and "k < length items" "HeapId_from_parts (int k + 1) i = Inr hid"
  shows "fst (HeapNode_get hn hid s) = (if items ! k = [] then Inl PstFormatError else Inr (items ! k))"
  using heap_item_written [OF assms(1,4,5,6)] HeapNode_get_exact [OF assms(2,3)] by simp

theorem HeapNode_get_roundtrip_witness:
  "fst (HeapNode_get sample_heap (HeapId 0x60) heap_fresh) = Inr [0x63] \<and>
   fst (HeapNode_get sample_heap (HeapId 0x40) heap_fresh) = Inl PstFormatError"
proof -
  note rt = HeapNode_get_roundtrip [OF sample_heap_writable sample_budget heap_inv_fresh
      sample_block [unfolded sample_heap_block_def]]
  have "HeapId_from_parts (int 2 + 1) 0 = Inr (HeapId 0x60)" "HeapId_from_parts (int 1 + 1) 0 = Inr (HeapId 0x40)"
    by (simp_all add: HeapId_from_parts_eq)
  with rt [of 2] rt [of 1] show ?thesis by (simp add: sample_items_def)
qed

text \<open>Items are spans of their block and do not overlap. Whatever \<open>get\<close> returns for two HIDs of one
  block with different indices are non-empty spans inside that block, one wholly before the other.\<close>

theorem HeapNode_get_disjoint:
  assumes "heap_inv hn s" "heap_inv hn s'"
    and "HeapNode_get hn h s = (Inr x, s1)" "HeapNode_get hn h' s' = (Inr x', s1')"
    and "HeapId_block_index h = HeapId_block_index h'" "HeapId_index h \<noteq> HeapId_index h'"
  shows "\<exists>block a b a' b'. HeapNode_block hn (HeapId_block_index h) = Inr block \<and>
    x = slice block a b \<and> x' = slice block a' b' \<and> 0 \<le> a \<and> a < b \<and> b \<le> len block \<and>
    0 \<le> a' \<and> a' < b' \<and> b' \<le> len block \<and> (b \<le> a' \<or> b' \<le> a)"
proof -
  have x: "heap_item hn h = Inr x" and x': "heap_item hn h' = Inr x'"
    using implements_Inr [OF HeapNode_get_implements] assms(1-4) by blast+
  from x obtain block m a b where
    1: "HeapNode_block hn (HeapId_block_index h) = Inr block" "parse_page_map (HeapId_block_index h) block = Inr m"
      "item_span m (HeapId_index h) = Inr (a, b)" "0 \<le> a" "a < b" "b \<le> len block" "x = slice block a b"
    by (elim heap_item_span) (use item_span_ok in \<open>fastforce\<close>)
  from x' obtain block' m' a' b' where
    2: "HeapNode_block hn (HeapId_block_index h') = Inr block'" "parse_page_map (HeapId_block_index h') block' = Inr m'"
      "item_span m' (HeapId_index h') = Inr (a', b')" "0 \<le> a'" "a' < b'" "b' \<le> len block'" "x' = slice block' a' b'"
    by (elim heap_item_span) (use item_span_ok in \<open>fastforce\<close>)
  have "block' = block" "m' = m" using 1 2 assms(5) by simp_all
  with 1 2 heap_items_disjoint [OF 1(2,3) 2(3) [unfolded \<open>m' = m\<close>] HeapId_index_nonneg HeapId_index_nonneg assms(6)]
  show ?thesis by blast
qed

text \<open>An HID is its item index and block index, both ways, and an HNID is exactly one of an HID and
  a node id with the same 32 bits.\<close>

theorem HeapId_parts:
  assumes "heap_id_ok h" "heap_node_id_ok n"
  shows "HeapId_from_parts (HeapId_index h) (HeapId_block_index h) = Inr h \<and>
    (\<forall>i b. 0 \<le> i \<and> i \<le> 2047 \<and> 0 \<le> b \<and> b \<le> 65535 \<longrightarrow>
       (\<exists>h'. HeapId_from_parts i b = Inr h' \<and> heap_id_ok h' \<and> HeapId_index h' = i \<and> HeapId_block_index h' = b)) \<and>
    (HeapNodeId_as_heap n = Inr (Some (HeapId (hnid_raw n))) \<and> HeapNodeId_as_node n = Inr None \<or>
     HeapNodeId_as_heap n = Inr None \<and> HeapNodeId_as_node n = Inr (Some (NodeId (hnid_raw n))))"
  using HeapId_parts_from_parts [OF assms(1)] HeapNodeId_split [OF assms(2)]
  by (auto simp: HeapId_from_parts_eq HeapId_index_div HeapId_block_index_div heap_id_ok_def U32_def
      mod_eq_0_iff_dvd)

end
