(* ===== verification/Pst_Tree.thy ===== *)
theory Pst_Tree
  imports Pst_Heap "HOL-Library.Multiset"
begin

text \<open>
  \<open>src/pypstreader/ltp/tree.py\<close>: the BTree-on-Heap. Its pages are heap items, read one after another
  through \<open>HeapNode.get\<close>. The walks are written over the getter they call, so that the same walk run
  with \<open>HeapNode_get\<close> is the code and run with the cache-free \<open>heap_item\<close> is its meaning; the
  generator \<open>__iter__\<close> is the loop it drives, with the consumer's body as a parameter. \<open>entries\<close> is
  related to the tree of pages, and \<open>find\<close> to \<open>entries\<close>.
\<close>

section \<open>BTHHEADER\<close>

definition BTH_HEADER_FORMAT :: fmt where "BTH_HEADER_FORMAT = [1, 1, 1, 1, 4]"
definition BTH_HEADER_SIZE :: int where "BTH_HEADER_SIZE = calcsize BTH_HEADER_FORMAT"
definition KEY_SIZES :: "int list" where "KEY_SIZES = [2, 4, 8, 16]"
definition MAX_ENTRY_SIZE :: int where "MAX_ENTRY_SIZE = 32"

record heap_tree_header =
  hth_key_size :: int
  hth_entry_size :: int
  hth_levels :: int
  hth_root :: heap_id

definition HeapTreeHeader_unpack_from :: "bytes \<Rightarrow> int \<Rightarrow> heap_tree_header result" where
  "HeapTreeHeader_unpack_from buf offset =
     ebind (unpack BTH_HEADER_FORMAT buf offset) (\<lambda>fs.
     ebind (HeapNodeType_from_wire (fs ! 0)) (\<lambda>ty.
     ebind (raise_if (ty \<noteq> HN_TREE) PstFormatError) (\<lambda>_.
     ebind (raise_if (fs ! 1 \<notin> set KEY_SIZES) PstFormatError) (\<lambda>_.
     ebind (raise_if (\<not> (1 \<le> fs ! 2 \<and> fs ! 2 \<le> MAX_ENTRY_SIZE)) PstFormatError) (\<lambda>_.
     ebind (mk_HeapId (fs ! 4)) (\<lambda>root.
     Inr \<lparr>hth_key_size = fs ! 1, hth_entry_size = fs ! 2, hth_levels = fs ! 3, hth_root = root\<rparr>))))))"

definition heap_tree_header_ok :: "heap_tree_header \<Rightarrow> bool" where
  "heap_tree_header_ok h \<longleftrightarrow>
     hth_key_size h \<in> set KEY_SIZES \<and> 1 \<le> hth_entry_size h \<and> hth_entry_size h \<le> MAX_ENTRY_SIZE \<and>
     0 \<le> hth_levels h \<and> hth_levels h < 256 \<and> heap_id_ok (hth_root h)"

lemma HeapTreeHeader_closed [simp, intro]: "fails_closed (HeapTreeHeader_unpack_from buf off)"
  unfolding HeapTreeHeader_unpack_from_def by (intro fails_closed_ebind) auto

lemma HeapTreeHeader_ok:
  assumes "HeapTreeHeader_unpack_from buf off = Inr h"
  shows "heap_tree_header_ok h"
proof -
  from assms obtain fs where fs: "unpack BTH_HEADER_FORMAT buf off = Inr fs" and
    h: "hth_key_size h \<in> set KEY_SIZES" "1 \<le> hth_entry_size h" "hth_entry_size h \<le> MAX_ENTRY_SIZE"
      "hth_levels h = fs ! 3" "heap_id_ok (hth_root h)"
    by (auto simp: HeapTreeHeader_unpack_from_def ebind_Inr_iff raise_if_Inr_iff dest: mk_HeapId_ok)
  have "fits BTH_HEADER_FORMAT fs" using fs by (rule unpack_fits)
  then have "0 \<le> fs ! 3 \<and> fs ! 3 < 256"
    using unpack_length [OF fs]
    by (auto simp: BTH_HEADER_FORMAT_def length_Suc_conv numeral_eq_Suc)
  with h show ?thesis by (simp add: heap_tree_header_ok_def)
qed

section \<open>HeapTree\<close>

record heap_tree =
  ht_heap :: heap_node
  ht_root :: heap_id
  ht_header :: heap_tree_header

definition HeapTree :: "heap_node \<Rightarrow> heap_id option \<Rightarrow> (heap_state, heap_tree) st" where
  "HeapTree heap root_arg =
     (let rt = (case root_arg of None \<Rightarrow> HeapNode_user_root heap | Some r \<Rightarrow> r) in
      sbind (HeapNode_get heap rt) (\<lambda>item.
      sbind (slift (HeapTreeHeader_unpack_from item 0)) (\<lambda>h.
      sbind (slift (check_depth (hth_levels h) (max_heap_tree_depth (hn_limits heap)))) (\<lambda>_.
      sret \<lparr>ht_heap = heap, ht_root = rt, ht_header = h\<rparr>))))"

type_synonym 's getter = "heap_id \<Rightarrow> ('s, bytes) st"

definition tree_page ::
  "'s getter \<Rightarrow> heap_id \<Rightarrow> int \<Rightarrow> int visited \<Rightarrow> ('s, bytes \<times> int visited) st" where
  "tree_page get hid record_size visited =
     sbind (slift (vs_add visited (hid_raw hid))) (\<lambda>visited'.
     sbind (get hid) (\<lambda>page.
     sbind (slift (py_mod (len page) record_size)) (\<lambda>rest.
     sbind (slift (raise_if (rest \<noteq> 0) PstFormatError)) (\<lambda>_.
     sret (page, visited')))))"

definition index_records :: "heap_tree_header \<Rightarrow> bytes \<Rightarrow> (bytes \<times> heap_id) list result" where
  "index_records h page =
     (let key_size = hth_key_size h; stride = key_size + 4 in
      emap (\<lambda>i. ebind (HeapId_unpack_from page (i + key_size)) (\<lambda>child.
              Inr (slice page i (i + key_size), child)))
        (range_by (len page) stride))"

definition leaf_records :: "heap_tree_header \<Rightarrow> bytes \<Rightarrow> (bytes \<times> bytes) list" where
  "leaf_records h page =
     (let key_size = hth_key_size h; stride = key_size + hth_entry_size h in
      map (\<lambda>i. (slice page i (i + key_size), slice page (i + key_size) (i + stride)))
        (range_by (len page) stride))"

text \<open>One level of index pages: the children of all its pages, in order.\<close>

fun level_children ::
  "'s getter \<Rightarrow> heap_tree_header \<Rightarrow> heap_id list \<Rightarrow> int visited \<Rightarrow>
   ('s, heap_id list \<times> int visited) st" where
  "level_children get h [] visited = sret ([], visited)"
| "level_children get h (hid # hids) visited =
     sbind (tree_page get hid (hth_key_size h + 4) visited) (\<lambda>(page, visited').
     sbind (slift (index_records h page)) (\<lambda>records.
     sbind (level_children get h hids visited') (\<lambda>(rest, visited'').
     sret (map snd records @ rest, visited''))))"

fun levels_loop ::
  "'s getter \<Rightarrow> heap_tree_header \<Rightarrow> int \<Rightarrow> nat \<Rightarrow> heap_id list \<Rightarrow> int visited \<Rightarrow>
   ('s, heap_id list \<times> int visited) st" where
  "levels_loop get h ceiling 0 pages visited = sret (pages, visited)"
| "levels_loop get h ceiling (Suc n) pages visited =
     sbind (level_children get h pages visited) (\<lambda>(next_pages, visited').
     sbind (slift (check_count (len next_pages) ceiling)) (\<lambda>_.
     levels_loop get h ceiling n next_pages visited'))"

text \<open>The leaf pages, each record handed to the consumer before the next page is read.\<close>

fun leaves_loop ::
  "'s getter \<Rightarrow> heap_tree_header \<Rightarrow> int \<Rightarrow> ('a \<Rightarrow> bytes \<times> bytes \<Rightarrow> 'a result) \<Rightarrow> heap_id list \<Rightarrow>
   int visited \<Rightarrow> int \<Rightarrow> 'a \<Rightarrow> ('s, 'a) st" where
  "leaves_loop get h ceiling body [] visited cnt acc = sret acc"
| "leaves_loop get h ceiling body (hid # hids) visited cnt acc =
     sbind (tree_page get hid (hth_key_size h + hth_entry_size h) visited) (\<lambda>(page, visited').
     let records = leaf_records h page; cnt' = cnt + len records in
     sbind (slift (check_count cnt' ceiling)) (\<lambda>_.
     sbind (slift (efold body acc records)) (\<lambda>acc'.
     leaves_loop get h ceiling body hids visited' cnt' acc')))"

definition tree_for_each ::
  "'s getter \<Rightarrow> heap_tree_header \<Rightarrow> int \<Rightarrow> ('a \<Rightarrow> bytes \<times> bytes \<Rightarrow> 'a result) \<Rightarrow> 'a \<Rightarrow> ('s, 'a) st" where
  "tree_for_each get h ceiling body acc =
     (if HeapId_is_null (hth_root h) then sret acc
      else sbind (levels_loop get h ceiling (nat (hth_levels h)) [hth_root h] (new_visited ceiling))
             (\<lambda>(pages, visited). leaves_loop get h ceiling body pages visited 0 acc))"

text \<open>\<open>for key, value in tree: body\<close> and \<open>entries\<close>.\<close>

definition HeapTree_iter ::
  "heap_tree \<Rightarrow> ('a \<Rightarrow> bytes \<times> bytes \<Rightarrow> 'a result) \<Rightarrow> 'a \<Rightarrow> (heap_state, 'a) st" where
  "HeapTree_iter ht body acc =
     tree_for_each (HeapNode_get (ht_heap ht)) (ht_header ht) (max_items (hn_limits (ht_heap ht))) body acc"

definition HeapTree_entries :: "heap_tree \<Rightarrow> (heap_state, (bytes \<times> bytes) list) st" where
  "HeapTree_entries ht = HeapTree_iter ht (\<lambda>acc r. Inr (acc @ [r])) []"

text \<open>\<open>find\<close>: the last record whose key is not above the target, on each index page.\<close>

fun choose_child :: "int \<Rightarrow> (bytes \<times> heap_id) list \<Rightarrow> heap_id option \<Rightarrow> heap_id option" where
  "choose_child target [] chosen = chosen"
| "choose_child target ((first_key, child) # records) chosen =
     (if le_int first_key > target then chosen else choose_child target records (Some child))"

fun find_loop ::
  "'s getter \<Rightarrow> heap_tree_header \<Rightarrow> bytes \<Rightarrow> nat \<Rightarrow> heap_id \<Rightarrow> int visited \<Rightarrow> ('s, bytes option) st" where
  "find_loop get h key 0 hid visited =
     sbind (tree_page get hid (hth_key_size h + hth_entry_size h) visited) (\<lambda>(page, visited').
     sret (map_option snd (find (\<lambda>r. fst r = key) (leaf_records h page))))"
| "find_loop get h key (Suc n) hid visited =
     sbind (tree_page get hid (hth_key_size h + 4) visited) (\<lambda>(page, visited').
     sbind (slift (index_records h page)) (\<lambda>records.
     case choose_child (le_int key) records None of
       None \<Rightarrow> sret None
     | Some child \<Rightarrow> find_loop get h key n child visited'))"

definition tree_find :: "'s getter \<Rightarrow> heap_tree_header \<Rightarrow> int \<Rightarrow> bytes \<Rightarrow> ('s, bytes option) st" where
  "tree_find get h ceiling key =
     sbind (slift (raise_if (len key \<noteq> hth_key_size h) PstFormatError)) (\<lambda>_.
     if HeapId_is_null (hth_root h) then sret None
     else find_loop get h key (nat (hth_levels h)) (hth_root h) (new_visited ceiling))"

definition HeapTree_find :: "heap_tree \<Rightarrow> bytes \<Rightarrow> (heap_state, bytes option) st" where
  "HeapTree_find ht key =
     tree_find (HeapNode_get (ht_heap ht)) (ht_header ht) (max_items (hn_limits (ht_heap ht))) key"

section \<open>The meaning without the cache\<close>

text \<open>Items read straight from the blocks, over no state.\<close>

definition pure_get :: "heap_node \<Rightarrow> unit getter" where
  "pure_get hn hid = slift (heap_item hn hid)"

definition bth_header :: "heap_node \<Rightarrow> heap_id \<Rightarrow> heap_tree_header result" where
  "bth_header hn rt =
     ebind (heap_item hn rt) (\<lambda>item.
     ebind (HeapTreeHeader_unpack_from item 0) (\<lambda>h.
     ebind (check_depth (hth_levels h) (max_heap_tree_depth (hn_limits hn))) (\<lambda>_. Inr h)))"

definition bth_iter ::
  "heap_node \<Rightarrow> heap_tree_header \<Rightarrow> ('a \<Rightarrow> bytes \<times> bytes \<Rightarrow> 'a result) \<Rightarrow> 'a \<Rightarrow> 'a result" where
  "bth_iter hn h body acc = st_pure (tree_for_each (pure_get hn) h (max_items (hn_limits hn)) body acc)"

definition bth_entries :: "heap_node \<Rightarrow> heap_tree_header \<Rightarrow> (bytes \<times> bytes) list result" where
  "bth_entries hn h = bth_iter hn h (\<lambda>acc r. Inr (acc @ [r])) []"

definition bth_find :: "heap_node \<Rightarrow> heap_tree_header \<Rightarrow> bytes \<Rightarrow> bytes option result" where
  "bth_find hn h key = st_pure (tree_find (pure_get hn) h (max_items (hn_limits hn)) key)"

lemma st_pure_get [simp]: "st_pure (pure_get hn hid) = heap_item hn hid"
  by (simp add: pure_get_def [abs_def])

subsection \<open>The walks implement their meaning\<close>

text \<open>Whatever a getter and a cache-free getter have in common, the walks over them have.\<close>

definition getter_implements :: "('s \<Rightarrow> bool) \<Rightarrow> bool \<Rightarrow> 's getter \<Rightarrow> unit getter \<Rightarrow> bool" where
  "getter_implements I ex get get0 \<longleftrightarrow> (\<forall>hid. implements I ex (get hid) (st_pure (get0 hid)))"

lemma getter_implementsD: "getter_implements I ex get get0 \<Longrightarrow> implements I ex (get hid) (st_pure (get0 hid))"
  by (simp add: getter_implements_def)

lemma HeapNode_getter:
  "getter_implements (heap_inv hn) (heap_within_budget hn) (HeapNode_get hn) (pure_get hn)"
  by (simp add: getter_implements_def HeapNode_get_implements)

lemma tree_page_implements [intro]:
  "getter_implements I ex get get0 \<Longrightarrow>
   implements I ex (tree_page get hid n v) (st_pure (tree_page get0 hid n v))"
  unfolding tree_page_def st_pure_simps
  by (intro implements_sbind implements_slift implements_sret refl) (rule getter_implementsD)

lemma level_children_implements [intro]:
  "getter_implements I ex get get0 \<Longrightarrow>
   implements I ex (level_children get h hids v) (st_pure (level_children get0 h hids v))"
proof (induction hids arbitrary: v)
  case Nil
  show ?case unfolding level_children.simps st_pure_simps by (rule implements_sret [OF refl])
next
  case (Cons hid hids)
  show ?case
    unfolding level_children.simps st_pure_simps case_prod_beta using Cons
    by (intro implements_sbind implements_slift implements_sret refl tree_page_implements) auto
qed

lemma levels_loop_implements [intro]:
  "getter_implements I ex get get0 \<Longrightarrow>
   implements I ex (levels_loop get h c n hids v) (st_pure (levels_loop get0 h c n hids v))"
proof (induction n arbitrary: hids v)
  case 0
  show ?case unfolding levels_loop.simps st_pure_simps by (rule implements_sret [OF refl])
next
  case (Suc n)
  show ?case
    unfolding levels_loop.simps st_pure_simps case_prod_beta using Suc
    by (intro implements_sbind implements_slift refl level_children_implements) auto
qed

lemma leaves_loop_implements [intro]:
  "getter_implements I ex get get0 \<Longrightarrow>
   implements I ex (leaves_loop get h c body hids v k acc) (st_pure (leaves_loop get0 h c body hids v k acc))"
proof (induction hids arbitrary: v k acc)
  case Nil
  show ?case unfolding leaves_loop.simps st_pure_simps by (rule implements_sret [OF refl])
next
  case (Cons hid hids)
  show ?case
    unfolding leaves_loop.simps st_pure_simps case_prod_beta Let_def using Cons
    by (intro implements_sbind implements_slift refl tree_page_implements) auto
qed

lemma tree_for_each_implements:
  "getter_implements I ex get get0 \<Longrightarrow>
   implements I ex (tree_for_each get h c body acc) (st_pure (tree_for_each get0 h c body acc))"
  unfolding tree_for_each_def st_pure_simps case_prod_beta
  by (intro implements_if implements_sbind) auto

lemma find_loop_implements [intro]:
  "getter_implements I ex get get0 \<Longrightarrow>
   implements I ex (find_loop get h key n hid v) (st_pure (find_loop get0 h key n hid v))"
proof (induction n arbitrary: hid v)
  case 0
  then show ?case
    unfolding find_loop.simps st_pure_simps case_prod_beta
    by (intro implements_sbind implements_sret refl tree_page_implements)
next
  case (Suc n)
  show ?case
    unfolding find_loop.simps st_pure_simps case_prod_beta
    using Suc by (intro implements_sbind implements_slift refl tree_page_implements)
      (auto split: option.split)
qed

lemma tree_find_implements:
  "getter_implements I ex get get0 \<Longrightarrow>
   implements I ex (tree_find get h c key) (st_pure (tree_find get0 h c key))"
  unfolding tree_find_def st_pure_simps
  by (intro implements_sbind implements_slift refl implements_if) auto

lemma HeapTree_implements:
  "implements (heap_inv hn) (heap_within_budget hn) (HeapTree hn r)
     (let rt = (case r of None \<Rightarrow> HeapNode_user_root hn | Some x \<Rightarrow> x) in
      ebind (bth_header hn rt) (\<lambda>h. Inr \<lparr>ht_heap = hn, ht_root = rt, ht_header = h\<rparr>))"
  unfolding HeapTree_def bth_header_def Let_def ebind_assoc
  by (intro implements_sbind implements_slift refl HeapNode_get_implements) (auto intro: implements_sret)

lemma HeapTree_iter_implements:
  "implements (heap_inv (ht_heap t)) (heap_within_budget (ht_heap t)) (HeapTree_iter t body acc)
     (bth_iter (ht_heap t) (ht_header t) body acc)"
  unfolding HeapTree_iter_def bth_iter_def by (rule tree_for_each_implements [OF HeapNode_getter])

lemma HeapTree_entries_implements:
  "implements (heap_inv (ht_heap t)) (heap_within_budget (ht_heap t)) (HeapTree_entries t)
     (bth_entries (ht_heap t) (ht_header t))"
  unfolding HeapTree_entries_def bth_entries_def by (rule HeapTree_iter_implements)

lemma HeapTree_find_implements:
  "implements (heap_inv (ht_heap t)) (heap_within_budget (ht_heap t)) (HeapTree_find t key)
     (bth_find (ht_heap t) (ht_header t) key)"
  unfolding HeapTree_find_def bth_find_def by (rule tree_find_implements [OF HeapNode_getter])

subsection \<open>Records\<close>

lemma header_ok_sizes:
  assumes "heap_tree_header_ok h"
  shows "0 < hth_key_size h" "0 < hth_entry_size h" "hth_key_size h + 4 \<noteq> 0" "hth_key_size h + hth_entry_size h \<noteq> 0"
  using assms by (auto simp: heap_tree_header_ok_def KEY_SIZES_def)

definition page_item :: "heap_node \<Rightarrow> heap_id \<Rightarrow> int \<Rightarrow> bytes result" where
  "page_item hn hid record_size =
     ebind (heap_item hn hid) (\<lambda>page.
     ebind (py_mod (len page) record_size) (\<lambda>rest.
     ebind (raise_if (rest \<noteq> 0) PstFormatError) (\<lambda>_. Inr page)))"

lemma tree_page_pure:
  "st_pure (tree_page (pure_get hn) hid n v) =
     ebind (vs_add v (hid_raw hid)) (\<lambda>v'. ebind (page_item hn hid n) (\<lambda>page. Inr (page, v')))"
  by (simp add: tree_page_def page_item_def ebind_assoc)

lemma page_item_closed [intro]: "n \<noteq> 0 \<Longrightarrow> fails_closed (page_item hn hid n)"
  unfolding page_item_def by (intro fails_closed_ebind) (auto simp: py_mod_ok)

lemma page_item_Inr:
  "page_item hn hid n = Inr page \<Longrightarrow> 0 < n \<Longrightarrow> \<exists>k > 0. len page = int k * n"
proof -
  assume a: "page_item hn hid n = Inr page" "0 < n"
  then have item: "heap_item hn hid = Inr page" and m: "len page mod n = 0"
    by (auto simp: page_item_def ebind_Inr_iff raise_if_Inr_iff py_mod_def)
  have pos: "0 < len page" using heap_item_length [OF item] .
  have eq: "len page = (len page div n) * n" using m by (simp add: minus_mod_eq_div_mult [symmetric])
  have "0 < len page div n" using pos a(2) m by (metis eq mult_zero_left pos_imp_zdiv_nonneg_iff order_le_less of_nat_0_le_iff)
  then have "len page = int (nat (len page div n)) * n \<and> 0 < nat (len page div n)" using eq by simp
  then show ?thesis by blast
qed

lemma index_records_closed [simp, intro]: "fails_closed (index_records h page)"
  unfolding index_records_def Let_def by (intro fails_closed_emap fails_closed_ebind) auto

text \<open>The keys of a whole page have the key size.\<close>

lemma slice_in_multiple:
  fixes n :: int
  assumes "len page = int k * n" "i < k" "0 \<le> a" "a \<le> b" "b \<le> n"
  shows "len (slice page (int i * n + a) (int i * n + b)) = b - a"
proof -
  have "0 \<le> n" using assms by simp
  then have "(int i + 1) * n \<le> int k * n" using assms(2) by (intro mult_right_mono) auto
  then have "int i * n + b \<le> len page" using assms(1,5) by (simp add: algebra_simps)
  moreover have "0 \<le> int i * n + a" using assms(3) \<open>0 \<le> n\<close> by simp
  ultimately have "len (slice page (int i * n + a) (int i * n + b)) = (int i * n + b) - (int i * n + a)"
    using assms(4) by (intro length_slice) auto
  then show ?thesis by simp
qed

lemma leaf_records_keys:
  assumes "heap_tree_header_ok h" "len page = int k * (hth_key_size h + hth_entry_size h)" "r \<in> set (leaf_records h page)"
  shows "len (fst r) = hth_key_size h" "len (snd r) = hth_entry_size h"
proof -
  let ?n = "hth_key_size h + hth_entry_size h"
  have n: "0 < ?n" and pos: "0 < hth_key_size h" "0 < hth_entry_size h"
    using header_ok_sizes [OF assms(1)] by auto
  from assms(3) obtain i where i: "i < k" and
    r: "r = (slice page (int i * ?n) (int i * ?n + hth_key_size h),
         slice page (int i * ?n + hth_key_size h) (int i * ?n + ?n))"
    using n by (auto simp: leaf_records_def Let_def assms(2) range_by_multiple)
  show "len (fst r) = hth_key_size h" "len (snd r) = hth_entry_size h"
    using slice_in_multiple [OF assms(2) i, of 0 "hth_key_size h"]
      slice_in_multiple [OF assms(2) i, of "hth_key_size h" ?n] pos r by simp_all
qed

lemma leaf_records_length:
  "heap_tree_header_ok h \<Longrightarrow> len page = int k * (hth_key_size h + hth_entry_size h) \<Longrightarrow>
   length (leaf_records h page) = k"
  using header_ok_sizes [of h] by (simp add: leaf_records_def Let_def range_by_multiple)

lemma index_records_length:
  assumes "heap_tree_header_ok h" "len page = int k * (hth_key_size h + 4)" "index_records h page = Inr rs"
  shows "length rs = k"
  using assms header_ok_sizes [of h] emap_length [OF assms(3) [unfolded index_records_def Let_def]]
  by (simp add: range_by_multiple)

section \<open>The tree of pages\<close>

definition index_page :: "heap_node \<Rightarrow> heap_tree_header \<Rightarrow> heap_id \<Rightarrow> (bytes \<times> heap_id) list result" where
  "index_page hn h hid = ebind (page_item hn hid (hth_key_size h + 4)) (index_records h)"

definition leaf_page :: "heap_node \<Rightarrow> heap_tree_header \<Rightarrow> heap_id \<Rightarrow> (bytes \<times> bytes) list result" where
  "leaf_page hn h hid =
     ebind (page_item hn hid (hth_key_size h + hth_entry_size h)) (\<lambda>page. Inr (leaf_records h page))"

text \<open>
  The tree under a page, by recursion on the index levels left, with the heap ids of its pages: no
  visited set, no level lists.
\<close>

fun load_bth :: "heap_node \<Rightarrow> heap_tree_header \<Rightarrow> nat \<Rightarrow> heap_id \<Rightarrow> (bytes \<times> bytes) stree result" where
  "load_bth hn h 0 hid = ebind (leaf_page hn h hid) (\<lambda>es. Inr (SLeaf es))"
| "load_bth hn h (Suc n) hid =
     ebind (index_page hn h hid) (\<lambda>rs.
     ebind (emap (\<lambda>(k, c). ebind (load_bth hn h n c) (\<lambda>t. Inr (le_int k, t))) rs) (\<lambda>kids. Inr (SNode kids)))"

definition page_children :: "heap_node \<Rightarrow> heap_tree_header \<Rightarrow> heap_id \<Rightarrow> heap_id list" where
  "page_children hn h hid = (case index_page hn h hid of Inl _ \<Rightarrow> [] | Inr rs \<Rightarrow> map snd rs)"

fun bth_ids :: "heap_node \<Rightarrow> heap_tree_header \<Rightarrow> nat \<Rightarrow> heap_id \<Rightarrow> int list" where
  "bth_ids hn h 0 hid = [hid_raw hid]"
| "bth_ids hn h (Suc n) hid = hid_raw hid # concat (map (bth_ids hn h n) (page_children hn h hid))"

text \<open>The ids in the order the walk visits them: level by level.\<close>

fun level_order :: "heap_node \<Rightarrow> heap_tree_header \<Rightarrow> nat \<Rightarrow> heap_id list \<Rightarrow> int list" where
  "level_order hn h 0 hids = map hid_raw hids"
| "level_order hn h (Suc n) hids =
     map hid_raw hids @ level_order hn h n (concat (map (page_children hn h) hids))"

lemma mset_concat_map_Cons: "mset (concat (map (\<lambda>x. f x # g x) xs)) = mset (map f xs) + mset (concat (map g xs))"
  by (induction xs) auto

lemma mset_level_order: "mset (level_order hn h n hids) = mset (concat (map (bth_ids hn h n) hids))"
proof (induction n arbitrary: hids)
  case 0
  show ?case by (induction hids) auto
next
  case (Suc n)
  have "concat (map (bth_ids hn h n) (concat (map (page_children hn h) hids))) =
      concat (map (\<lambda>hid. concat (map (bth_ids hn h n) (page_children hn h hid))) hids)"
    by (induction hids) auto
  then show ?case
    by (simp add: Suc mset_concat_map_Cons)
qed

lemma level_order_facts:
  "distinct (level_order hn h n hids) = distinct (concat (map (bth_ids hn h n) hids))"
  "set (level_order hn h n hids) = set (concat (map (bth_ids hn h n) hids))"
  "length (level_order hn h n hids) = length (concat (map (bth_ids hn h n) hids))"
  using mset_level_order [of hn h n hids] mset_eq_imp_distinct_iff mset_eq_setD mset_eq_length by blast+

text \<open>One level.\<close>

lemma level_children_pure:
  "st_pure (level_children (pure_get hn) h hids v) = Inr (cs, v') \<longleftrightarrow>
     (\<forall>hid \<in> set hids. \<exists>rs. index_page hn h hid = Inr rs) \<and>
     cs = concat (map (page_children hn h) hids) \<and> vs.visit_all v (map hid_raw hids) = Inr v'"
proof (induction hids arbitrary: v cs)
  case Nil
  then show ?case by auto
next
  case (Cons hid hids)
  show ?case
  proof (cases "vs_add v (hid_raw hid)")
    case Inl
    then show ?thesis by (simp add: tree_page_pure)
  next
    case v1: (Inr v1)
    show ?thesis
    proof (cases "index_page hn h hid")
      case Inl
      then show ?thesis
        by (auto simp: tree_page_pure v1 index_page_def ebind_Inr_iff ebind_Inl_iff)
    next
      case rs: (Inr rs)
      then obtain page where page: "page_item hn hid (hth_key_size h + 4) = Inr page" "index_records h page = Inr rs"
        by (auto simp: index_page_def ebind_Inr_iff)
      have "st_pure (level_children (pure_get hn) h (hid # hids) v) = Inr (cs, v') \<longleftrightarrow>
          (\<exists>rest. st_pure (level_children (pure_get hn) h hids v1) = Inr (rest, v') \<and> cs = map snd rs @ rest)"
        by (auto simp: tree_page_pure v1 page ebind_Inr_iff)
      also have "\<dots> \<longleftrightarrow> (\<forall>hid' \<in> set (hid # hids). \<exists>rs. index_page hn h hid' = Inr rs) \<and>
          cs = concat (map (page_children hn h) (hid # hids)) \<and>
          vs.visit_all v (map hid_raw (hid # hids)) = Inr v'"
        unfolding Cons.IH using rs v1 by (auto simp: page_children_def)
      finally show ?thesis .
    qed
  qed
qed

text \<open>The records of the leaf pages, gathered without a consumer.\<close>

fun leaf_seq ::
  "heap_node \<Rightarrow> heap_tree_header \<Rightarrow> int \<Rightarrow> heap_id list \<Rightarrow> int visited \<Rightarrow> int \<Rightarrow> (bytes \<times> bytes) list result" where
  "leaf_seq hn h ceiling [] visited cnt = Inr []"
| "leaf_seq hn h ceiling (hid # hids) visited cnt =
     ebind (vs_add visited (hid_raw hid)) (\<lambda>visited'.
     ebind (leaf_page hn h hid) (\<lambda>records.
     ebind (check_count (cnt + len records) ceiling) (\<lambda>_.
     ebind (leaf_seq hn h ceiling hids visited' (cnt + len records)) (\<lambda>rest. Inr (records @ rest)))))"

lemma leaves_loop_seq:
  "leaf_seq hn h c hids v n = Inr es \<Longrightarrow>
   st_pure (leaves_loop (pure_get hn) h c body hids v n acc) = efold body acc es"
  by (induction hids arbitrary: v n acc es)
     (auto simp: tree_page_pure leaf_page_def ebind_Inr_iff ebind_assoc efold_append Let_def)

lemma leaves_loop_Inr:
  "st_pure (leaves_loop (pure_get hn) h c body hids v n acc) = Inr x \<Longrightarrow> \<exists>es. leaf_seq hn h c hids v n = Inr es"
proof (induction hids arbitrary: v n acc)
  case (Cons hid hids)
  from Cons.prems obtain v' page acc' where
    "vs_add v (hid_raw hid) = Inr v'" "page_item hn hid (hth_key_size h + hth_entry_size h) = Inr page"
    "check_count (n + len (leaf_records h page)) c = Inr ()"
    "st_pure (leaves_loop (pure_get hn) h c body hids v' (n + len (leaf_records h page)) acc') = Inr x"
    by (auto simp: tree_page_pure ebind_Inr_iff Let_def)
  with Cons.IH [OF this(4)] show ?case by (auto simp: leaf_page_def)
qed simp

lemma efold_snoc: "efold (\<lambda>acc r. Inr (acc @ [r])) acc es = Inr (acc @ es)"
  by (induction es arbitrary: acc) auto

lemma leaves_append_iff:
  "st_pure (leaves_loop (pure_get hn) h c (\<lambda>acc r. Inr (acc @ [r])) hids v n []) = Inr es \<longleftrightarrow>
     leaf_seq hn h c hids v n = Inr es"
proof
  let ?run = "st_pure (leaves_loop (pure_get hn) h c (\<lambda>acc r. Inr (acc @ [r])) hids v n [])"
  assume run: "?run = Inr es"
  from leaves_loop_Inr [OF run] obtain es' where es': "leaf_seq hn h c hids v n = Inr es'" by blast
  with leaves_loop_seq [OF es', of "\<lambda>acc r. Inr (acc @ [r])" "[]"] run
  show "leaf_seq hn h c hids v n = Inr es" by (simp add: efold_snoc)
next
  assume "leaf_seq hn h c hids v n = Inr es"
  from leaves_loop_seq [OF this, of "\<lambda>acc r. Inr (acc @ [r])" "[]"]
  show "st_pure (leaves_loop (pure_get hn) h c (\<lambda>acc r. Inr (acc @ [r])) hids v n []) = Inr es"
    by (simp add: efold_snoc)
qed

lemma leaf_seq_iff:
  "leaf_seq hn h c hids v n = Inr es \<longleftrightarrow>
     (\<exists>ps. list_all2 (\<lambda>hid p. leaf_page hn h hid = Inr p) hids ps \<and> es = concat ps) \<and>
     (\<exists>v'. vs.visit_all v (map hid_raw hids) = Inr v') \<and> (hids = [] \<or> n + len es \<le> c)"
proof (induction hids arbitrary: v n es)
  case Nil
  then show ?case by auto
next
  case (Cons hid hids)
  have "leaf_seq hn h c (hid # hids) v n = Inr es \<longleftrightarrow>
      (\<exists>v1 p rest. vs_add v (hid_raw hid) = Inr v1 \<and> leaf_page hn h hid = Inr p \<and> n + len p \<le> c \<and>
         leaf_seq hn h c hids v1 (n + len p) = Inr rest \<and> es = p @ rest)"
    by (auto simp: ebind_Inr_iff check_Inr_iff)
  also have "\<dots> \<longleftrightarrow> (\<exists>v1 p ps. vs_add v (hid_raw hid) = Inr v1 \<and> leaf_page hn h hid = Inr p \<and>
      list_all2 (\<lambda>hid p. leaf_page hn h hid = Inr p) hids ps \<and> es = p @ concat ps \<and>
      (\<exists>v'. vs.visit_all v1 (map hid_raw hids) = Inr v') \<and> n + len es \<le> c)"
    unfolding Cons.IH by (fastforce simp: algebra_simps)
  also have "\<dots> \<longleftrightarrow> (\<exists>ps. list_all2 (\<lambda>hid p. leaf_page hn h hid = Inr p) (hid # hids) ps \<and> es = concat ps) \<and>
     (\<exists>v'. vs.visit_all v (map hid_raw (hid # hids)) = Inr v') \<and> n + len es \<le> c"
    by (fastforce simp: list_all2_Cons1 ebind_Inr_iff)
  finally show ?case by simp
qed

text \<open>All the levels and the leaves, against the tree under the pages.\<close>

lemma emap_pair_iff:
  "emap (\<lambda>(k, c). ebind (f c) (\<lambda>t. Inr (g k, t))) rs = Inr kids \<longleftrightarrow>
     (\<exists>ts. list_all2 (\<lambda>c t. f c = Inr t) (map snd rs) ts \<and> kids = zip (map (g \<circ> fst) rs) ts)"
  by (induction rs arbitrary: kids) (fastforce simp: ebind_Inr_iff list_all2_Cons1)+

lemma load_bth_Suc_iff:
  "load_bth hn h (Suc n) hid = Inr t \<longleftrightarrow>
     (\<exists>rs ts. index_page hn h hid = Inr rs \<and> list_all2 (\<lambda>c t. load_bth hn h n c = Inr t) (map snd rs) ts \<and>
        t = SNode (zip (map (le_int \<circ> fst) rs) ts))"
  by (fastforce simp: ebind_Inr_iff emap_pair_iff)

lemma st_entries_zip: "length ks = length ts \<Longrightarrow> st_entries (SNode (zip ks ts)) = concat (map st_entries ts)"
  by (induction ks ts rule: list_induct2) auto

lemma load_level:
  "list_all2 (\<lambda>p t. load_bth hn h (Suc n) p = Inr t) hids ts \<Longrightarrow>
   \<exists>ts'. list_all2 (\<lambda>p t. load_bth hn h n p = Inr t) (concat (map (page_children hn h) hids)) ts' \<and>
     concat (map st_entries ts) = concat (map st_entries ts')"
proof (induction hids ts rule: list_all2_induct)
  case Nil
  then show ?case by simp
next
  case (Cons p hids t ts)
  then obtain ts' where ts': "list_all2 (\<lambda>p t. load_bth hn h n p = Inr t) (concat (map (page_children hn h) hids)) ts'"
      "concat (map st_entries ts) = concat (map st_entries ts')" by blast
  from Cons(1) obtain rs us where rs: "index_page hn h p = Inr rs" and
    us: "list_all2 (\<lambda>c t. load_bth hn h n c = Inr t) (map snd rs) us" and
    t: "t = SNode (zip (map (le_int \<circ> fst) rs) us)"
    unfolding load_bth_Suc_iff by blast
  have "st_entries t = concat (map st_entries us)"
    unfolding t using list_all2_lengthD [OF us] by (intro st_entries_zip) simp
  moreover have "page_children hn h p = map snd rs" using rs by (simp add: page_children_def)
  ultimately show ?case
    using us ts' by (intro exI [of _ "us @ ts'"]) (simp add: list_all2_appendI)
qed

lemma load_level_back:
  assumes idx: "\<forall>p \<in> set hids. \<exists>rs. index_page hn h p = Inr rs"
    and "list_all2 (\<lambda>p t. load_bth hn h n p = Inr t) (concat (map (page_children hn h) hids)) ts'"
  shows "\<exists>ts. list_all2 (\<lambda>p t. load_bth hn h (Suc n) p = Inr t) hids ts \<and>
     concat (map st_entries ts) = concat (map st_entries ts')"
  using assms
proof (induction hids arbitrary: ts')
  case Nil
  then show ?case by simp
next
  case (Cons p hids)
  from Cons.prems(2) obtain us vs where
    split: "ts' = us @ vs" "list_all2 (\<lambda>p t. load_bth hn h n p = Inr t) (page_children hn h p) us"
      "list_all2 (\<lambda>p t. load_bth hn h n p = Inr t) (concat (map (page_children hn h) hids)) vs"
    by (auto simp: list_all2_append1)
  obtain rs where rs: "index_page hn h p = Inr rs" using Cons.prems(1) by auto
  obtain ts where ts: "list_all2 (\<lambda>p t. load_bth hn h (Suc n) p = Inr t) hids ts"
      "concat (map st_entries ts) = concat (map st_entries vs)"
    using Cons.IH [OF _ split(3)] Cons.prems(1) by auto
  let ?t = "SNode (zip (map (le_int \<circ> fst) rs) us)"
  have us: "list_all2 (\<lambda>p t. load_bth hn h n p = Inr t) (map snd rs) us"
    using split(2) rs by (simp add: page_children_def)
  then have "load_bth hn h (Suc n) p = Inr ?t"
    using rs unfolding load_bth_Suc_iff by blast
  moreover have "st_entries ?t = concat (map st_entries us)"
    using list_all2_lengthD [OF us] by (intro st_entries_zip) simp
  ultimately show ?case using ts split(1) by (intro exI [of _ "?t # ts"]) auto
qed

lemma load_level_index:
  "list_all2 (\<lambda>p t. load_bth hn h (Suc n) p = Inr t) hids ts \<Longrightarrow> p \<in> set hids \<Longrightarrow>
   \<exists>rs. index_page hn h p = Inr rs"
  by (induction hids ts rule: list_all2_induct) (auto simp: ebind_Inr_iff)

lemma visit_all_bound:
  "vs.visit_all (v :: 'k visited) ks = Inr v' \<Longrightarrow> ks \<noteq> [] \<Longrightarrow> len ks + vs_len v \<le> vs_ceiling v"
  using vs.visit_all_facts [of v ks v'] by simp

theorem levels_leaves_iff:
  assumes "vs_ceiling v = c" "0 \<le> c"
  shows "(\<exists>pages v1. st_pure (levels_loop (pure_get hn) h c n hids v) = Inr (pages, v1) \<and>
            leaf_seq hn h c pages v1 0 = Inr es) \<longleftrightarrow>
     (\<exists>ts. list_all2 (\<lambda>p t. load_bth hn h n p = Inr t) hids ts \<and> es = concat (map st_entries ts)) \<and>
     (\<exists>v'. vs.visit_all v (level_order hn h n hids) = Inr v') \<and> len es \<le> c"
  using assms
proof (induction n arbitrary: hids v)
  case 0
  have "(\<exists>ps. list_all2 (\<lambda>hid p. leaf_page hn h hid = Inr p) hids ps \<and> es = concat ps) \<longleftrightarrow>
      (\<exists>ts. list_all2 (\<lambda>p t. load_bth hn h 0 p = Inr t) hids ts \<and> es = concat (map st_entries ts))"
  proof (induction hids arbitrary: es)
    case Nil
    then show ?case by simp
  next
    case (Cons p hids)
    then show ?case by (fastforce simp: list_all2_Cons1 ebind_Inr_iff)
  qed
  then show ?case using 0 by (auto simp: leaf_seq_iff)
next
  case (Suc n)
  let ?cs = "concat (map (page_children hn h) hids)"
  let ?idx = "\<forall>p \<in> set hids. \<exists>rs. index_page hn h p = Inr rs"
  have "(\<exists>pages v1. st_pure (levels_loop (pure_get hn) h c (Suc n) hids v) = Inr (pages, v1) \<and>
            leaf_seq hn h c pages v1 0 = Inr es) \<longleftrightarrow>
      ?idx \<and> (\<exists>v1. vs.visit_all v (map hid_raw hids) = Inr v1 \<and> len ?cs \<le> c \<and>
        (\<exists>pages v2. st_pure (levels_loop (pure_get hn) h c n ?cs v1) = Inr (pages, v2) \<and>
            leaf_seq hn h c pages v2 0 = Inr es))"
    by (auto simp: ebind_Inr_iff check_Inr_iff level_children_pure)
  also have "\<dots> \<longleftrightarrow> ?idx \<and> (\<exists>v1. vs.visit_all v (map hid_raw hids) = Inr v1 \<and> len ?cs \<le> c \<and>
      (\<exists>ts. list_all2 (\<lambda>p t. load_bth hn h n p = Inr t) ?cs ts \<and> es = concat (map st_entries ts)) \<and>
      (\<exists>v'. vs.visit_all v1 (level_order hn h n ?cs) = Inr v') \<and> len es \<le> c)"
    (is "_ \<longleftrightarrow> ?idx \<and> (\<exists>v1. ?vis v1 \<and> _ \<and> _ \<and> ?rest v1 \<and> _)")
  proof (intro conj_cong refl ex_cong1)
    fix v1 assume "?vis v1"
    then have "vs_ceiling v1 = c" using vs.visit_all_facts Suc.prems by blast
    from Suc.IH [OF this Suc.prems(2)]
    show "(\<exists>pages v2. st_pure (levels_loop (pure_get hn) h c n ?cs v1) = Inr (pages, v2) \<and>
            leaf_seq hn h c pages v2 0 = Inr es) \<longleftrightarrow>
      (\<exists>ts. list_all2 (\<lambda>p t. load_bth hn h n p = Inr t) ?cs ts \<and> es = concat (map st_entries ts)) \<and>
      ?rest v1 \<and> len es \<le> c" .
  qed
  also have "\<dots> \<longleftrightarrow> (\<exists>ts. list_all2 (\<lambda>p t. load_bth hn h (Suc n) p = Inr t) hids ts \<and> es = concat (map st_entries ts)) \<and>
     (\<exists>v1 v'. vs.visit_all v (map hid_raw hids) = Inr v1 \<and> len ?cs \<le> c \<and>
        vs.visit_all v1 (level_order hn h n ?cs) = Inr v') \<and> len es \<le> c"
  proof -
    have "?idx \<and> (\<exists>ts. list_all2 (\<lambda>p t. load_bth hn h n p = Inr t) ?cs ts \<and> es = concat (map st_entries ts)) \<longleftrightarrow>
        (\<exists>ts. list_all2 (\<lambda>p t. load_bth hn h (Suc n) p = Inr t) hids ts \<and> es = concat (map st_entries ts))"
      (is "?l \<longleftrightarrow> ?r")
    proof
      assume ?l
      then obtain ts where "?idx" "list_all2 (\<lambda>p t. load_bth hn h n p = Inr t) ?cs ts" "es = concat (map st_entries ts)"
        by blast
      with load_level_back [OF this(1,2)] show ?r by auto
    next
      assume ?r
      then obtain ts where ts: "list_all2 (\<lambda>p t. load_bth hn h (Suc n) p = Inr t) hids ts" "es = concat (map st_entries ts)"
        by blast
      with load_level [OF ts(1)] load_level_index [OF ts(1)] show ?l by auto
    qed
    then show ?thesis by blast
  qed
  also have "(\<exists>v1 v'. vs.visit_all v (map hid_raw hids) = Inr v1 \<and> len ?cs \<le> c \<and>
        vs.visit_all v1 (level_order hn h n ?cs) = Inr v') \<longleftrightarrow>
      (\<exists>v'. vs.visit_all v (level_order hn h (Suc n) hids) = Inr v')"
  proof
    assume "\<exists>v'. vs.visit_all v (level_order hn h (Suc n) hids) = Inr v'"
    then obtain v1 v' where v1: "vs.visit_all v (map hid_raw hids) = Inr v1"
      and v': "vs.visit_all v1 (level_order hn h n ?cs) = Inr v'"
      by (auto simp: vs.visit_all_append ebind_Inr_iff)
    have ceil: "vs_ceiling v1 = c" using vs.visit_all_facts [OF v1] Suc.prems by simp
    have le: "length ?cs \<le> length (level_order hn h n ?cs)"
      by (cases n) auto
    have "len (level_order hn h n ?cs) \<le> c"
      using visit_all_bound [OF v'] ceil Suc.prems(2)
      by (cases "level_order hn h n ?cs = []") (auto simp: vs_len_def)
    with le have "len ?cs \<le> c" by linarith
    with v1 v' show "\<exists>v1 v'. vs.visit_all v (map hid_raw hids) = Inr v1 \<and> len ?cs \<le> c \<and>
        vs.visit_all v1 (level_order hn h n ?cs) = Inr v'" by blast
  qed (auto simp: vs.visit_all_append)
  finally show ?case .
qed

lemma bth_entries_walk:
  assumes "\<not> HeapId_is_null (hth_root h)"
  shows "bth_entries hn h = Inr es \<longleftrightarrow> (\<exists>pages v1.
      st_pure (levels_loop (pure_get hn) h (max_items (hn_limits hn)) (nat (hth_levels h)) [hth_root h]
        (new_visited (max_items (hn_limits hn)))) = Inr (pages, v1) \<and>
      leaf_seq hn h (max_items (hn_limits hn)) pages v1 0 = Inr es)"
  unfolding leaves_append_iff [symmetric] using assms
  by (auto simp: bth_entries_def bth_iter_def tree_for_each_def ebind_Inr_iff)

theorem bth_entries_iff:
  assumes "0 \<le> max_items (hn_limits hn)"
  shows "bth_entries hn h = Inr es \<longleftrightarrow>
     (if HeapId_is_null (hth_root h) then es = []
      else (\<exists>t. load_bth hn h (nat (hth_levels h)) (hth_root h) = Inr t \<and> es = st_entries t) \<and>
        distinct (bth_ids hn h (nat (hth_levels h)) (hth_root h)) \<and>
        len (bth_ids hn h (nat (hth_levels h)) (hth_root h)) \<le> max_items (hn_limits hn) \<and>
        len es \<le> max_items (hn_limits hn))"
proof (cases "HeapId_is_null (hth_root h)")
  case True
  then show ?thesis by (auto simp: bth_entries_def bth_iter_def tree_for_each_def)
next
  case False
  let ?c = "max_items (hn_limits hn)" and ?n = "nat (hth_levels h)" and ?r = "hth_root h"
  have "bth_entries hn h = Inr es \<longleftrightarrow> (\<exists>pages v1.
      st_pure (levels_loop (pure_get hn) h ?c ?n [?r] (new_visited ?c)) = Inr (pages, v1) \<and>
      leaf_seq hn h ?c pages v1 0 = Inr es)"
    by (rule bth_entries_walk [OF False])
  also have "\<dots> \<longleftrightarrow> (\<exists>t. load_bth hn h ?n ?r = Inr t \<and> es = st_entries t) \<and>
      (\<exists>v'. vs.visit_all (new_visited ?c) (level_order hn h ?n [?r]) = Inr v') \<and> len es \<le> ?c"
    using levels_leaves_iff [of "new_visited ?c" ?c hn h ?n "[?r]" es] assms
    by (auto simp: new_visited_def list_all2_Cons1)
  also have "(\<exists>v'. vs.visit_all (new_visited ?c) (level_order hn h ?n [?r]) = Inr v') \<longleftrightarrow>
      distinct (bth_ids hn h ?n ?r) \<and> len (bth_ids hn h ?n ?r) \<le> ?c"
  proof -
    have "bth_ids hn h ?n ?r \<noteq> []" by (cases ?n) auto
    then have "level_order hn h ?n [?r] \<noteq> []"
      using level_order_facts(3) [of hn h ?n "[?r]"] by auto
    then show ?thesis
      using level_order_facts [of hn h ?n "[?r]"] by (simp add: visit_new_iff)
  qed
  finally show ?thesis using False by auto
qed

text \<open>A loop over the tree is the loop over its entries.\<close>

lemma bth_iter_entries:
  assumes es: "bth_entries hn h = Inr es"
  shows "bth_iter hn h body acc = efold body acc es"
proof (cases "HeapId_is_null (hth_root h)")
  case True
  with es show ?thesis by (auto simp: bth_entries_def bth_iter_def tree_for_each_def)
next
  case False
  with es obtain pages v1 where
    "st_pure (levels_loop (pure_get hn) h (max_items (hn_limits hn)) (nat (hth_levels h)) [hth_root h]
            (new_visited (max_items (hn_limits hn)))) = Inr (pages, v1)"
    "leaf_seq hn h (max_items (hn_limits hn)) pages v1 0 = Inr es"
    unfolding bth_entries_walk [OF False] by blast
  with leaves_loop_seq [OF this(2), of body acc] False show ?thesis
    by (simp add: bth_iter_def tree_for_each_def)
qed

lemma bth_iter_Inr:
  assumes "bth_iter hn h body acc = Inr x"
  shows "\<exists>es. bth_entries hn h = Inr es \<and> efold body acc es = Inr x"
proof -
  have "\<exists>es. bth_entries hn h = Inr es"
  proof (cases "HeapId_is_null (hth_root h)")
    case True
    then show ?thesis by (auto simp: bth_entries_def bth_iter_def tree_for_each_def)
  next
    case False
    with assms obtain pages v1 where
      l: "st_pure (levels_loop (pure_get hn) h (max_items (hn_limits hn)) (nat (hth_levels h)) [hth_root h]
            (new_visited (max_items (hn_limits hn)))) = Inr (pages, v1)" and
      b: "st_pure (leaves_loop (pure_get hn) h (max_items (hn_limits hn)) body pages v1 0 acc) = Inr x"
      by (auto simp: bth_iter_def tree_for_each_def ebind_Inr_iff)
    from leaves_loop_Inr [OF b] l show ?thesis unfolding bth_entries_walk [OF False] by blast
  qed
  then obtain es where es: "bth_entries hn h = Inr es" by blast
  with bth_iter_entries [OF es, of body acc] assms show ?thesis by auto
qed

section \<open>Lookup\<close>

lemma choose_child_scan:
  "choose_child key rs c =
     (let p = scan_keys (map (le_int \<circ> fst) rs) key in if p = 0 then c else Some (snd (rs ! (p - 1))))"
proof (induction rs arbitrary: c)
  case (Cons r rs)
  show ?case by (cases r) (simp add: Cons Let_def nth_Cons' del: One_nat_def)
qed simp

definition bth_key :: "bytes \<times> bytes \<Rightarrow> int" where
  "bth_key r = le_int (fst r)"

lemma le_int_inj: "length a = length b \<Longrightarrow> le_int a = le_int b \<Longrightarrow> a = b"
  by (metis le_bytes_le_int)

lemma find_by_key:
  assumes "\<And>r. r \<in> set es \<Longrightarrow> length (fst r) = length key"
  shows "find (\<lambda>r. fst r = key) es = find (\<lambda>r. bth_key r = le_int key) es"
  using assms
proof (induction es)
  case (Cons r es)
  have "fst r = key \<longleftrightarrow> bth_key r = le_int key"
    using Cons.prems [of r] le_int_inj [of "fst r" key] by (auto simp: bth_key_def)
  with Cons show ?case by simp
qed simp

lemma leaf_page_keys:
  assumes "heap_tree_header_ok h" "leaf_page hn h hid = Inr es" "r \<in> set es"
  shows "len (fst r) = hth_key_size h" "len (snd r) = hth_entry_size h"
proof -
  from assms(2) obtain page where p: "page_item hn hid (hth_key_size h + hth_entry_size h) = Inr page"
    and es: "es = leaf_records h page" by (auto simp: leaf_page_def ebind_Inr_iff)
  have "0 < hth_key_size h + hth_entry_size h" using header_ok_sizes [OF assms(1)] by simp
  from page_item_Inr [OF p this] obtain k where "len page = int k * (hth_key_size h + hth_entry_size h)" by blast
  from leaf_records_keys [OF assms(1) this assms(3) [unfolded es]]
  show "len (fst r) = hth_key_size h" "len (snd r) = hth_entry_size h" .
qed

lemma find_loop_st_find:
  assumes ok: "heap_tree_header_ok h" and key: "len key = hth_key_size h"
  shows "load_bth hn h n hid = Inr t \<Longrightarrow> distinct (bth_ids hn h n hid) \<Longrightarrow>
    (\<forall>i \<in> set (bth_ids hn h n hid). \<not> vs_contains v i) \<Longrightarrow>
    vs_len v + len (bth_ids hn h n hid) \<le> vs_ceiling v \<Longrightarrow>
    st_pure (find_loop (pure_get hn) h key n hid v) =
      Inr (map_option snd (st_find scan_keys bth_key (le_int key) n t))"
proof (induction n arbitrary: hid t v)
  case 0
  then obtain es where es: "leaf_page hn h hid = Inr es" and t: "t = SLeaf es"
    by (auto simp: ebind_Inr_iff)
  obtain v' where v': "vs_add v (hid_raw hid) = Inr v'"
    using vs.add_iff [of v "hid_raw hid"] 0 by auto
  have "find (\<lambda>r. fst r = key) es = find (\<lambda>r. bth_key r = le_int key) es"
    using leaf_page_keys(1) [OF ok es] key by (intro find_by_key) fastforce
  then show ?case using es t v'
    by (auto simp: tree_page_pure leaf_page_def ebind_Inr_iff)
next
  case (Suc n)
  from Suc.prems(1) obtain rs ts where rs: "index_page hn h hid = Inr rs"
    and ts: "list_all2 (\<lambda>c t. load_bth hn h n c = Inr t) (map snd rs) ts"
    and t: "t = SNode (zip (map (le_int \<circ> fst) rs) ts)"
    unfolding load_bth_Suc_iff by blast
  have kids: "page_children hn h hid = map snd rs" using rs by (simp add: page_children_def)
  obtain v' where v': "vs_add v (hid_raw hid) = Inr v'"
    using vs.add_iff [of v "hid_raw hid"] Suc.prems by auto
  have len: "length ts = length rs" using list_all2_lengthD [OF ts] by simp
  let ?p = "scan_keys (map (le_int \<circ> fst) rs) (le_int key)"
  obtain page where page: "page_item hn hid (hth_key_size h + 4) = Inr page" "index_records h page = Inr rs"
    using rs by (auto simp: index_page_def ebind_Inr_iff)
  have run: "st_pure (find_loop (pure_get hn) h key (Suc n) hid v) =
      (if ?p = 0 then Inr None else st_pure (find_loop (pure_get hn) h key n (snd (rs ! (?p - 1))) v'))"
    using page v' by (simp add: tree_page_pure choose_child_scan Let_def)
  have fsts: "map fst (zip (map (le_int \<circ> fst) rs) ts) = map (le_int \<circ> fst) rs"
    using len by simp
  show ?case
  proof (cases "?p = 0")
    case True
    then show ?thesis unfolding run t by (simp add: fsts del: map_map)
  next
    case False
    have p: "?p \<le> length rs" using scan.pick_le [of "map (le_int \<circ> fst) rs"] by simp
    let ?i = "?p - 1"
    have i: "?i < length rs" using p False by simp
    have sub: "load_bth hn h n (snd (rs ! ?i)) = Inr (ts ! ?i)"
      using list_all2_nthD [OF ts, of ?i] i by simp
    have mem: "snd (rs ! ?i) \<in> set (map snd rs)" using i by auto
    obtain xs ys where xy: "map snd rs = xs @ snd (rs ! ?i) # ys"
      using split_list [OF mem] by blast
    have ids: "bth_ids hn h (Suc n) hid = hid_raw hid # concat (map (bth_ids hn h n) xs) @
        bth_ids hn h n (snd (rs ! ?i)) @ concat (map (bth_ids hn h n) ys)"
      by (simp add: kids xy)
    note step = vs.add_mem [OF v'] vs.add_size [OF v'] vs.add_ceiling [OF v']
    have "st_pure (find_loop (pure_get hn) h key n (snd (rs ! ?i)) v') =
        Inr (map_option snd (st_find scan_keys bth_key (le_int key) n (ts ! ?i)))"
      using Suc.prems(2-4) unfolding ids
      by (intro Suc.IH [OF sub]) (auto simp: step)
    then show ?thesis using False p len i unfolding run t
      by (simp add: fsts Let_def del: map_map)
  qed
qed

definition bth_ordered :: "heap_node \<Rightarrow> heap_tree_header \<Rightarrow> bool" where
  "bth_ordered hn h \<longleftrightarrow> HeapId_is_null (hth_root h) \<or>
     (\<exists>t lo hi. load_bth hn h (nat (hth_levels h)) (hth_root h) = Inr t \<and> st_ordered bth_key lo hi t)"

lemma load_bth_depth: "load_bth hn h n hid = Inr t \<Longrightarrow> st_depth t \<le> n"
proof (induction n arbitrary: hid t)
  case 0
  then show ?case by (auto simp: ebind_Inr_iff)
next
  case (Suc n)
  from Suc.prems obtain rs ts where ts: "list_all2 (\<lambda>c t. load_bth hn h n c = Inr t) (map snd rs) ts"
    and t: "t = SNode (zip (map (le_int \<circ> fst) rs) ts)"
    unfolding load_bth_Suc_iff by blast
  have "st_depth u \<le> n" if "u \<in> set ts" for u
    using that ts Suc.IH by (auto simp: list_all2_conv_all_nth in_set_conv_nth)
  then show ?case unfolding t by (intro st_depth_le) (auto dest: set_zip_rightD)
qed

lemma load_bth_keys:
  assumes ok: "heap_tree_header_ok h"
  shows "load_bth hn h n hid = Inr t \<Longrightarrow> r \<in> set (st_entries t) \<Longrightarrow>
    len (fst r) = hth_key_size h \<and> len (snd r) = hth_entry_size h"
proof (induction n arbitrary: hid t)
  case 0
  then obtain es where "leaf_page hn h hid = Inr es" "r \<in> set es" by (auto simp: ebind_Inr_iff)
  then show ?case using leaf_page_keys [OF ok] by blast
next
  case (Suc n)
  from Suc.prems(1) obtain rs ts where ts: "list_all2 (\<lambda>c t. load_bth hn h n c = Inr t) (map snd rs) ts"
    and t: "t = SNode (zip (map (le_int \<circ> fst) rs) ts)"
    unfolding load_bth_Suc_iff by blast
  have "st_entries t = concat (map st_entries ts)"
    unfolding t using list_all2_lengthD [OF ts] by (intro st_entries_zip) simp
  with Suc.prems(2) obtain u where u: "u \<in> set ts" "r \<in> set (st_entries u)" by auto
  from u(1) ts obtain c where "load_bth hn h n c = Inr u"
    by (auto simp: list_all2_conv_all_nth in_set_conv_nth)
  from Suc.IH [OF this u(2)] show ?case .
qed

theorem bth_find_entries:
  assumes ok: "heap_tree_header_ok h" and es: "bth_entries hn h = Inr es" and ord: "bth_ordered hn h"
    and key: "len key = hth_key_size h" and c: "0 \<le> max_items (hn_limits hn)"
  shows "bth_find hn h key = Inr (map_of es key)"
proof (cases "HeapId_is_null (hth_root h)")
  case True
  with es key show ?thesis
    by (auto simp: bth_find_def tree_find_def bth_entries_def bth_iter_def tree_for_each_def)
next
  case False
  let ?n = "nat (hth_levels h)" and ?r = "hth_root h"
  from es False obtain t where t: "load_bth hn h ?n ?r = Inr t" "es = st_entries t"
    and d: "distinct (bth_ids hn h ?n ?r)" "len (bth_ids hn h ?n ?r) \<le> max_items (hn_limits hn)"
    unfolding bth_entries_iff [OF c] by auto
  from ord False t(1) obtain lo hi where o': "st_ordered bth_key lo hi t" by (auto simp: bth_ordered_def)
  have "bth_find hn h key = Inr (map_option snd (st_find scan_keys bth_key (le_int key) ?n t))"
    using find_loop_st_find [OF ok key t(1) d(1), of "new_visited (max_items (hn_limits hn))"] d(2) False key
    by (simp add: bth_find_def tree_find_def new_visited_def vs_contains_def vs_len_def)
  also have "\<dots> = Inr (map_option snd (find (\<lambda>e. bth_key e = le_int key) es))"
    using scan.find_entries [OF o' load_bth_depth [OF t(1)]] t(2) by simp
  also have "find (\<lambda>e. bth_key e = le_int key) es = find (\<lambda>e. fst e = key) es"
    using load_bth_keys [OF ok t(1)] t(2) key by (intro find_by_key [symmetric]) fastforce
  also have "map_option snd (find (\<lambda>e. fst e = key) es) = map_of es key"
    by (induction es) auto
  finally show ?thesis .
qed

section \<open>Only a PstError escapes\<close>

lemma bth_header_closed [simp, intro]: "fails_closed (bth_header hn rt)"
  unfolding bth_header_def by (intro fails_closed_ebind) auto

lemma bth_header_ok: "bth_header hn rt = Inr h \<Longrightarrow> heap_tree_header_ok h"
  by (auto simp: bth_header_def ebind_Inr_iff dest: HeapTreeHeader_ok)

lemma tree_page_closed:
  "n \<noteq> 0 \<Longrightarrow> fails_closed (st_pure (tree_page (pure_get hn) hid n v))"
  unfolding tree_page_pure by (intro fails_closed_ebind) auto

lemma level_children_closed:
  "heap_tree_header_ok h \<Longrightarrow> fails_closed (st_pure (level_children (pure_get hn) h hids v))"
proof (induction hids arbitrary: v)
  case (Cons hid hids)
  show ?case
    unfolding level_children.simps st_pure_simps case_prod_beta
    using Cons header_ok_sizes [OF Cons.prems] by (intro fails_closed_ebind tree_page_closed) auto
qed simp

lemma levels_loop_closed:
  "heap_tree_header_ok h \<Longrightarrow> fails_closed (st_pure (levels_loop (pure_get hn) h c n hids v))"
proof (induction n arbitrary: hids v)
  case (Suc n)
  then show ?case
    unfolding levels_loop.simps st_pure_simps case_prod_beta
    by (intro fails_closed_ebind level_children_closed) auto
qed simp

lemma leaves_loop_closed:
  assumes "heap_tree_header_ok h" "\<And>a r. fails_closed (body a r)"
  shows "fails_closed (st_pure (leaves_loop (pure_get hn) h c body hids v n acc))"
proof (induction hids arbitrary: v n acc)
  case (Cons hid hids)
  then show ?case
    unfolding leaves_loop.simps st_pure_simps case_prod_beta Let_def
    using assms header_ok_sizes [OF assms(1)]
    by (intro fails_closed_ebind tree_page_closed fails_closed_efold) auto
qed simp

lemma bth_iter_closed:
  assumes "heap_tree_header_ok h" "\<And>a r. fails_closed (body a r)"
  shows "fails_closed (bth_iter hn h body acc)"
  unfolding bth_iter_def tree_for_each_def st_pure_simps case_prod_beta
  using assms by (intro fails_closed_if fails_closed_ebind levels_loop_closed leaves_loop_closed) auto

lemma bth_entries_closed: "heap_tree_header_ok h \<Longrightarrow> fails_closed (bth_entries hn h)"
  unfolding bth_entries_def by (rule bth_iter_closed) auto

lemma find_loop_closed:
  "heap_tree_header_ok h \<Longrightarrow> fails_closed (st_pure (find_loop (pure_get hn) h key n hid v))"
proof (induction n arbitrary: hid v)
  case 0
  then show ?case
    unfolding find_loop.simps st_pure_simps case_prod_beta
    using header_ok_sizes by (intro fails_closed_ebind tree_page_closed) auto
next
  case (Suc n)
  then show ?case
    unfolding find_loop.simps st_pure_simps case_prod_beta
    using header_ok_sizes [of h] by (intro fails_closed_ebind tree_page_closed) (auto split: option.split)
qed

lemma bth_find_closed: "heap_tree_header_ok h \<Longrightarrow> fails_closed (bth_find hn h key)"
  unfolding bth_find_def tree_find_def st_pure_simps
  by (intro fails_closed_ebind fails_closed_if find_loop_closed) auto

lemma HeapTree_keeps: "st_keeps (heap_inv hn) (HeapTree hn r)"
  by (intro implements_closed [OF HeapTree_implements]) (auto simp: Let_def intro!: fails_closed_ebind)

text \<open>What a constructed tree is.\<close>

lemma HeapTree_Inr:
  assumes "heap_inv hn s" "HeapTree hn r s = (Inr t, s')"
  shows "heap_inv hn s'" "ht_heap t = hn" "heap_tree_header_ok (ht_header t)"
    "ht_root t = (case r of None \<Rightarrow> HeapNode_user_root hn | Some x \<Rightarrow> x)"
    "bth_header hn (ht_root t) = Inr (ht_header t)"
proof -
  let ?rt = "case r of None \<Rightarrow> HeapNode_user_root hn | Some x \<Rightarrow> x"
  note run = implementsD [OF HeapTree_implements assms]
  then show "heap_inv hn s'" by blast
  from implements_Inr [OF HeapTree_implements assms]
  obtain h where h: "bth_header hn ?rt = Inr h" and t: "t = \<lparr>ht_heap = hn, ht_root = ?rt, ht_header = h\<rparr>"
    by (auto simp: Let_def ebind_Inr_iff)
  show "ht_heap t = hn" "heap_tree_header_ok (ht_header t)" "ht_root t = ?rt"
    "bth_header hn (ht_root t) = Inr (ht_header t)"
    using h bth_header_ok [OF h] unfolding t by simp_all
qed

section \<open>Writing pages\<close>

definition bth_header_bytes :: "heap_tree_header \<Rightarrow> bytes" where
  "bth_header_bytes h = struct_pack BTH_HEADER_FORMAT
     [heap_node_type_value HN_TREE, hth_key_size h, hth_entry_size h, hth_levels h, hid_raw (hth_root h)]"

definition leaf_page_bytes :: "(bytes \<times> bytes) list \<Rightarrow> bytes" where
  "leaf_page_bytes es = concat (map (\<lambda>(k, v). k @ v) es)"

definition index_page_bytes :: "(bytes \<times> heap_id) list \<Rightarrow> bytes" where
  "index_page_bytes rs = concat (map (\<lambda>(k, c). k @ HeapId_pack c) rs)"

lemma HeapTreeHeader_written:
  assumes "heap_tree_header_ok h"
  shows "HeapTreeHeader_unpack_from (bth_header_bytes h) 0 = Inr h"
proof -
  let ?fs = "[heap_node_type_value HN_TREE, hth_key_size h, hth_entry_size h, hth_levels h, hid_raw (hth_root h)]"
  have "fits BTH_HEADER_FORMAT ?fs"
    using assms by (auto simp: BTH_HEADER_FORMAT_def heap_tree_header_ok_def KEY_SIZES_def MAX_ENTRY_SIZE_def
        heap_id_ok_def U32_def)
  from unpack_pack0 [OF this, of "[]"] have "unpack BTH_HEADER_FORMAT (bth_header_bytes h) 0 = Inr ?fs"
    by (simp add: bth_header_bytes_def)
  moreover have "HeapNodeType_from_wire 181 = Inr HN_TREE" by (simp add: HeapNodeType_from_wire_iff)
  ultimately show ?thesis using assms
    by (simp add: HeapTreeHeader_unpack_from_def heap_tree_header_ok_def)
qed

lemma leaf_records_written:
  assumes "heap_tree_header_ok h" "\<forall>(k, v) \<in> set es. len k = hth_key_size h \<and> len v = hth_entry_size h"
  shows "leaf_records h (leaf_page_bytes es) = es"
    and "len (leaf_page_bytes es) = int (length es) * (hth_key_size h + hth_entry_size h)"
proof -
  let ?k = "hth_key_size h" and ?n = "hth_key_size h + hth_entry_size h" and ?xs = "map (\<lambda>(k, v). k @ v) es"
  note pos = header_ok_sizes [OF assms(1)]
  have xs: "\<forall>x \<in> set ?xs. len x = ?n" using assms(2) by auto
  show l: "len (leaf_page_bytes es) = int (length es) * ?n"
    unfolding leaf_page_bytes_def using assms(2) by (induction es) (auto simp: algebra_simps)
  have step: "(slice (concat ?xs) (int i * ?n) (int i * ?n + ?k),
      slice (concat ?xs) (int i * ?n + ?k) (int i * ?n + ?n)) = es ! i" if i: "i < length es" for i
  proof -
    obtain k v where kv: "es ! i = (k, v)" by (cases "es ! i")
    have "(k, v) \<in> set es" using i kv by (metis nth_mem)
    then have sizes: "len k = ?k" "len v = hth_entry_size h" using assms(2) by auto
    have "?xs ! i = k @ v" using i kv by simp
    moreover have "slice (k @ v) 0 ?k = k" "slice (k @ v) ?k ?n = v"
      using sizes slice_append [of k v] by simp_all
    ultimately show ?thesis
      using slice_concat [OF xs, of i 0 ?k] slice_concat [OF xs, of i ?k ?n] i kv pos by simp
  qed
  have "leaf_records h (leaf_page_bytes es) = map (\<lambda>i. (slice (concat ?xs) (int i * ?n) (int i * ?n + ?k),
      slice (concat ?xs) (int i * ?n + ?k) (int i * ?n + ?n))) [0..<length es]"
    using pos unfolding leaf_records_def Let_def l by (simp add: range_by_multiple leaf_page_bytes_def)
  also have "\<dots> = map (\<lambda>i. es ! i) [0..<length es]" using step by (intro map_cong refl) simp
  finally show "leaf_records h (leaf_page_bytes es) = es" by (simp add: map_nth)
qed

lemma leaf_page_written:
  assumes "heap_tree_header_ok h" "\<forall>(k, v) \<in> set es. len k = hth_key_size h \<and> len v = hth_entry_size h"
    and "heap_item hn hid = Inr (leaf_page_bytes es)"
  shows "leaf_page hn h hid = Inr es"
  using leaf_records_written [OF assms(1,2)] header_ok_sizes [OF assms(1)] assms(3)
  by (simp add: leaf_page_def page_item_def py_mod_def)

lemma index_records_written:
  assumes "heap_tree_header_ok h" "\<forall>(k, c) \<in> set rs. len k = hth_key_size h \<and> heap_id_ok c"
  shows "index_records h (index_page_bytes rs) = Inr rs"
    and "len (index_page_bytes rs) = int (length rs) * (hth_key_size h + 4)"
proof -
  let ?k = "hth_key_size h" and ?n = "hth_key_size h + 4"
  note pos = header_ok_sizes [OF assms(1)]
  show l: "len (index_page_bytes rs) = int (length rs) * ?n"
    unfolding index_page_bytes_def using assms(2)
    by (induction rs) (auto simp: algebra_simps HeapId_pack_def HEAP_ID_FORMAT_def)
  let ?xs = "map (\<lambda>(k, c). k @ HeapId_pack c) rs"
  have pack: "len (HeapId_pack c) = 4" for c by (simp add: HeapId_pack_def HEAP_ID_FORMAT_def)
  have xs: "\<forall>x \<in> set ?xs. len x = ?n" using assms(2) pack by auto
  have step: "ebind (HeapId_unpack_from (concat ?xs) (int i * ?n + ?k)) (\<lambda>child.
      Inr (slice (concat ?xs) (int i * ?n) (int i * ?n + ?k), child)) = Inr (rs ! i)" if i: "i < length rs" for i
  proof -
    obtain k c where kc: "rs ! i = (k, c)" by (cases "rs ! i")
    have "(k, c) \<in> set rs" using i kc by (metis nth_mem)
    then have sizes: "len k = ?k" "heap_id_ok c" using assms(2) by auto
    have xi: "?xs ! i = k @ HeapId_pack c" using i kc by simp
    have key: "slice (concat ?xs) (int i * ?n) (int i * ?n + ?k) = k"
      using slice_concat [OF xs, of i 0 ?k] i xi sizes slice_append(2) [of k] pos by simp
    let ?pre = "concat (take i ?xs)"
    have split: "concat ?xs = (?pre @ k) @ HeapId_pack c @ concat (drop (Suc i) ?xs)"
      unfolding append_assoc xi [symmetric, unfolded append.simps]
      using concat_nth_split [of i ?xs] i xi by simp
    have len_i: "length (take i ?xs) = i" using i by simp
    have "\<forall>x \<in> set (take i ?xs). len x = ?n" using xs by (meson in_set_takeD)
    from length_concat_const [OF this] have "len ?pre = int i * ?n" unfolding len_i .
    then have "int i * ?n + ?k = len (?pre @ k)" using sizes by simp
    then have "HeapId_unpack_from (concat ?xs) (int i * ?n + ?k) = Inr c"
      using HeapId_codec.decode_encode [OF sizes(2), of "?pre @ k" "concat (drop (Suc i) ?xs)"]
      unfolding split by simp
    with key kc show ?thesis by simp
  qed
  have "index_records h (index_page_bytes rs) = emap (\<lambda>i. ebind (HeapId_unpack_from (concat ?xs) (int i * ?n + ?k))
      (\<lambda>child. Inr (slice (concat ?xs) (int i * ?n) (int i * ?n + ?k), child))) [0..<length rs]"
    using pos unfolding index_records_def Let_def l
    by (simp add: range_by_multiple index_page_bytes_def emap_map)
  also have "\<dots> = Inr (map (\<lambda>i. rs ! i) [0..<length rs])" using step by (intro emap_Inr_map) simp
  finally show "index_records h (index_page_bytes rs) = Inr rs" by (simp add: map_nth)
qed

lemma index_page_written:
  assumes "heap_tree_header_ok h" "\<forall>(k, c) \<in> set rs. len k = hth_key_size h \<and> heap_id_ok c"
    and "heap_item hn hid = Inr (index_page_bytes rs)"
  shows "index_page hn h hid = Inr rs"
  using index_records_written [OF assms(1,2)] header_ok_sizes [OF assms(1)] assms(3)
  by (simp add: index_page_def page_item_def py_mod_def)

section \<open>A sample tree\<close>

definition sample_bth :: heap_tree_header where
  "sample_bth = \<lparr>hth_key_size = 2, hth_entry_size = 1, hth_levels = 1, hth_root = HeapId 0x40\<rparr>"

definition sample_index :: "(bytes \<times> heap_id) list" where
  "sample_index = [([1, 0], HeapId 0x60), ([5, 0], HeapId 0x80)]"

definition sample_leaf1 :: "(bytes \<times> bytes) list" where
  "sample_leaf1 = [([1, 0], [0x61]), ([3, 0], [0x62])]"

definition sample_leaf2 :: "(bytes \<times> bytes) list" where
  "sample_leaf2 = [([5, 0], [0x63])]"

definition sample_pages :: "bytes list" where
  "sample_pages = [bth_header_bytes sample_bth, index_page_bytes sample_index,
     leaf_page_bytes sample_leaf1, leaf_page_bytes sample_leaf2]"

definition sample_bth_heap :: heap_node where
  "sample_bth_heap = small_heap HN_TREE (HeapId 0x20) sample_pages"

lemma sample_bth_ok: "heap_tree_header_ok sample_bth"
  by (simp add: sample_bth_def heap_tree_header_ok_def KEY_SIZES_def MAX_ENTRY_SIZE_def heap_id_ok_def U32_def)

lemma sample_pages_lengths: "map length sample_pages = [8, 12, 6, 3]"
  by (simp add: sample_pages_def bth_header_bytes_def index_page_bytes_def leaf_page_bytes_def
      sample_index_def sample_leaf1_def sample_leaf2_def BTH_HEADER_FORMAT_def HeapId_pack_def HEAP_ID_FORMAT_def)

lemma sample_pages_writable: "writable_heap_block 0 (HeapId 0x20) 0 sample_pages"
proof -
  have "length (concat sample_pages) = 29"
    using sample_pages_lengths by (simp add: length_concat)
  moreover have "length sample_pages = 4" by (simp add: sample_pages_def)
  ultimately show ?thesis
    by (simp add: writable_heap_block_def heap_id_ok_def U32_def heap_header_size_def heap_formats)
qed

lemma sample_bth_items:
  "heap_item sample_bth_heap (HeapId 0x20) = Inr (bth_header_bytes sample_bth)"
  "heap_item sample_bth_heap (HeapId 0x40) = Inr (index_page_bytes sample_index)"
  "heap_item sample_bth_heap (HeapId 0x60) = Inr (leaf_page_bytes sample_leaf1)"
  "heap_item sample_bth_heap (HeapId 0x80) = Inr (leaf_page_bytes sample_leaf2)"
proof -
  have ne: "sample_pages ! k \<noteq> []" if "k < 4" for k
    using sample_pages_lengths that nth_map [of k sample_pages length]
    by (auto simp: less_Suc_eq numeral_eq_Suc sample_pages_def)
  have "heap_item sample_bth_heap (HeapId (32 * (int k + 1))) = Inr (sample_pages ! k)" if "k < 4" for k
    unfolding sample_bth_heap_def using that ne
    by (intro small_heap_item [OF sample_pages_writable]) (simp_all add: sample_pages_def)
  from this [of 0] this [of 1] this [of 2] this [of 3]
  show "heap_item sample_bth_heap (HeapId 0x20) = Inr (bth_header_bytes sample_bth)"
    "heap_item sample_bth_heap (HeapId 0x40) = Inr (index_page_bytes sample_index)"
    "heap_item sample_bth_heap (HeapId 0x60) = Inr (leaf_page_bytes sample_leaf1)"
    "heap_item sample_bth_heap (HeapId 0x80) = Inr (leaf_page_bytes sample_leaf2)"
    by (simp_all add: sample_pages_def)
qed

lemma sample_bth_limits: "hn_limits sample_bth_heap = DEFAULT_LIMITS"
  by (simp add: sample_bth_heap_def small_heap_def)

lemma sample_bth_header: "bth_header sample_bth_heap (HeapId 0x20) = Inr sample_bth"
  using HeapTreeHeader_written [OF sample_bth_ok]
  by (simp add: bth_header_def sample_bth_items sample_bth_limits default_limits_simps check_ok sample_bth_def)

lemma sample_bth_pages:
  "index_page sample_bth_heap sample_bth (HeapId 0x40) = Inr sample_index"
  "leaf_page sample_bth_heap sample_bth (HeapId 0x60) = Inr sample_leaf1"
  "leaf_page sample_bth_heap sample_bth (HeapId 0x80) = Inr sample_leaf2"
  by (rule index_page_written [OF sample_bth_ok _ sample_bth_items(2)]
        leaf_page_written [OF sample_bth_ok _ sample_bth_items(3)]
        leaf_page_written [OF sample_bth_ok _ sample_bth_items(4)];
      simp add: sample_index_def sample_leaf1_def sample_leaf2_def sample_bth_def heap_id_ok_def U32_def)+

lemma sample_bth_load:
  "load_bth sample_bth_heap sample_bth 1 (HeapId 0x40) = Inr (SNode [(1, SLeaf sample_leaf1), (5, SLeaf sample_leaf2)])"
  using sample_bth_pages by (simp add: sample_index_def)

lemma sample_bth_entries: "bth_entries sample_bth_heap sample_bth = Inr (sample_leaf1 @ sample_leaf2)"
proof -
  have "nat (hth_levels sample_bth) = 1" "hth_root sample_bth = HeapId 0x40" by (simp_all add: sample_bth_def)
  moreover have "bth_ids sample_bth_heap sample_bth 1 (HeapId 0x40) = [0x40, 0x60, 0x80]"
    using sample_bth_pages by (simp add: page_children_def sample_index_def)
  moreover have "max_items (hn_limits sample_bth_heap) = 134217728"
    by (simp add: sample_bth_limits default_limits_simps)
  ultimately show ?thesis
    using bth_entries_iff [of sample_bth_heap sample_bth "sample_leaf1 @ sample_leaf2"] sample_bth_load
    by (simp add: HeapId_is_null_def sample_leaf1_def sample_leaf2_def)
qed

lemma sample_bth_ordered: "bth_ordered sample_bth_heap sample_bth"
proof -
  have "st_ordered bth_key 0 100 (SNode [(1, SLeaf sample_leaf1), (5, SLeaf sample_leaf2)])"
    by (simp add: bth_key_def sample_leaf1_def sample_leaf2_def)
  moreover have "nat (hth_levels sample_bth) = 1" "hth_root sample_bth = HeapId 0x40" by (simp_all add: sample_bth_def)
  ultimately show ?thesis using sample_bth_load unfolding bth_ordered_def by metis
qed

lemma sample_bth_budget: "heap_within_budget sample_bth_heap"
  unfolding sample_bth_heap_def by (rule small_heap_budget [OF sample_pages_writable])

definition sample_bth_tree :: heap_tree where
  "sample_bth_tree = \<lparr>ht_heap = sample_bth_heap, ht_root = HeapId 0x20, ht_header = sample_bth\<rparr>"

lemma sample_bth_tree_is: "\<exists>s. HeapTree sample_bth_heap None heap_fresh = (Inr sample_bth_tree, s) \<and> heap_inv sample_bth_heap s"
proof -
  have "HeapNode_user_root sample_bth_heap = HeapId 0x20"
    by (simp add: HeapNode_user_root_def sample_bth_heap_def small_heap_def)
  then have "fst (HeapTree sample_bth_heap None heap_fresh) = Inr sample_bth_tree"
    using HeapTree_implements [of sample_bth_heap None] sample_bth_budget heap_inv_fresh sample_bth_header
    by (simp add: implements_def sample_bth_tree_def Let_def)
  then show ?thesis
    using HeapTree_Inr(1) [OF heap_inv_fresh] by (metis prod.collapse)
qed

section \<open>Properties\<close>

text \<open>C13: the lookup of the BTree-on-Heap answers what its listing says. When a constructed tree can be
  listed and its keys are in order, \<open>find\<close> of a key of the tree's size returns the value of the first
  listed record with that key, and None when there is none, from any state of the heap's cache.\<close>

theorem HeapTree_find_agrees_with_entries:
  assumes tree: "heap_inv hn s0" "HeapTree hn r s0 = (Inr t, s1)"
    and listed: "heap_inv hn s" "HeapTree_entries t s = (Inr es, s')"
    and look: "heap_inv hn s''" "heap_within_budget hn" "bth_ordered hn (ht_header t)"
    and size: "len key = hth_key_size (ht_header t)" "0 \<le> max_items (hn_limits hn)"
  shows "fst (HeapTree_find t key s'') = Inr (map_of es key)"
proof -
  note t = HeapTree_Inr [OF tree]
  have "bth_entries hn (ht_header t) = Inr es"
    using implements_Inr [OF HeapTree_entries_implements, of t] listed t(2) by metis
  from bth_find_entries [OF t(3) this look(3) size]
  show ?thesis
    using HeapTree_find_implements [of t key] look(1,2) t(2) by (simp add: implements_def)
qed

theorem HeapTree_find_agrees_witness:
  "fst (HeapTree_find sample_bth_tree [3, 0] heap_fresh) = Inr (Some [0x62]) \<and>
   fst (HeapTree_find sample_bth_tree [4, 0] heap_fresh) = Inr None"
proof -
  obtain s where t: "HeapTree sample_bth_heap None heap_fresh = (Inr sample_bth_tree, s)"
    using sample_bth_tree_is by blast
  have "fst (HeapTree_entries sample_bth_tree heap_fresh) = Inr (sample_leaf1 @ sample_leaf2)"
    using HeapTree_entries_implements [of sample_bth_tree] sample_bth_budget sample_bth_entries heap_inv_fresh
    by (simp add: implements_def sample_bth_tree_def)
  then obtain s' where "HeapTree_entries sample_bth_tree heap_fresh = (Inr (sample_leaf1 @ sample_leaf2), s')"
    by (metis prod.collapse)
  note find = HeapTree_find_agrees_with_entries [OF heap_inv_fresh t heap_inv_fresh this heap_inv_fresh sample_bth_budget]
  have "bth_ordered sample_bth_heap (ht_header sample_bth_tree)"
    using sample_bth_ordered by (simp add: sample_bth_tree_def)
  from find [OF this, of "[3, 0]"] find [OF this, of "[4, 0]"] show ?thesis
    by (simp add: sample_bth_tree_def sample_bth_def sample_bth_limits default_limits_simps
        sample_leaf1_def sample_leaf2_def)
qed

text \<open>The level-by-level listing is the tree. It succeeds exactly when every page under the root parses
  at its level, no heap id occurs twice and the pages and the records stay within the item limit, and
  it lists the leaves from left to right; and a loop over the tree with any body is that loop over
  the listed records.\<close>

theorem HeapTree_entries_is_tree:
  assumes "heap_inv (ht_heap t) s" "heap_within_budget (ht_heap t)" "0 \<le> max_items (hn_limits (ht_heap t))"
    and "h = ht_header t" "\<not> HeapId_is_null (hth_root h)" "n = nat (hth_levels h)"
  shows "(fst (HeapTree_entries t s) = Inr es \<longleftrightarrow>
      (\<exists>u. load_bth (ht_heap t) h n (hth_root h) = Inr u \<and> es = st_entries u) \<and>
      distinct (bth_ids (ht_heap t) h n (hth_root h)) \<and>
      len (bth_ids (ht_heap t) h n (hth_root h)) \<le> max_items (hn_limits (ht_heap t)) \<and>
      len es \<le> max_items (hn_limits (ht_heap t))) \<and>
    (fst (HeapTree_entries t s) = Inr es \<longrightarrow> fst (HeapTree_iter t body acc s) = efold body acc es)"
proof -
  have run: "fst (HeapTree_entries t s) = bth_entries (ht_heap t) h"
    "fst (HeapTree_iter t body acc s) = bth_iter (ht_heap t) h body acc"
    using HeapTree_entries_implements [of t] HeapTree_iter_implements [of t body acc] assms
    by (simp_all add: implements_def)
  show ?thesis
    unfolding run bth_entries_iff [OF assms(3), of h es] if_not_P [OF assms(5)] assms(6) [symmetric]
    using bth_iter_entries [of "ht_heap t" h es body acc]
      bth_entries_iff [OF assms(3), of h es, unfolded if_not_P [OF assms(5)] assms(6) [symmetric]]
    by (intro conjI refl impI) blast
qed

text \<open>Constructing, looping over and searching a BTree-on-Heap ends on every heap and from every state,
  in a value or a PstError (when the loop's body raises nothing else), and leaves the heap's cache in a
  good state.\<close>

theorem HeapTree_total:
  assumes "heap_inv hn s" "\<And>a e. fails_closed (body a e)"
  shows "fails_closed (fst (HeapTree hn r s)) \<and> heap_inv hn (snd (HeapTree hn r s)) \<and>
    (\<forall>t s1. HeapTree hn r s = (Inr t, s1) \<longrightarrow>
       fails_closed (fst (HeapTree_iter t body acc s1)) \<and> heap_inv hn (snd (HeapTree_iter t body acc s1)) \<and>
       fails_closed (fst (HeapTree_find t key s1)) \<and> heap_inv hn (snd (HeapTree_find t key s1)))"
proof (intro conjI allI impI)
  show "fails_closed (fst (HeapTree hn r s))" "heap_inv hn (snd (HeapTree hn r s))"
    using assms(1) HeapTree_keeps [of hn r] by (simp_all add: st_keeps_def)
  fix t s1 assume run: "HeapTree hn r s = (Inr t, s1)"
  note t = HeapTree_Inr [OF assms(1) run]
  have "st_keeps (heap_inv hn) (HeapTree_iter t body acc)"
    using implements_closed [OF HeapTree_iter_implements [of t body acc] bth_iter_closed] t(2,3) assms(2) by simp
  then show "fails_closed (fst (HeapTree_iter t body acc s1))" "heap_inv hn (snd (HeapTree_iter t body acc s1))"
    using t(1) by (simp_all add: st_keeps_def)
  have "st_keeps (heap_inv hn) (HeapTree_find t key)"
    using implements_closed [OF HeapTree_find_implements [of t key] bth_find_closed] t(2,3) by simp
  then show "fails_closed (fst (HeapTree_find t key s1))" "heap_inv hn (snd (HeapTree_find t key s1))"
    using t(1) by (simp_all add: st_keeps_def)
qed

end
