(* ===== verification/Pst_Prop_Type.thy ===== *)
theory Pst_Prop_Type
  imports Pst_Ids Pst_Limits
begin

unbundle bit_operations_syntax

text \<open>
  \<open>src/pypstreader/ltp/prop_type.py\<close>: the property types and the decoders that turn the bytes of a
  property into a value. A value is the datatype \<open>prop_value\<close>: a Python float is the bit pattern it was
  unpacked from, a datetime is its microseconds since 1601, a UUID its 128-bit integer and a string its
  code points. Of the standard library, \<open>bytes.find\<close>, the strict UTF-16 decoder and the calendar
  behind \<open>datetime.max\<close> are defined here; a code page is the decoder \<open>codecs.lookup\<close> finds for its
  name, a parameter of the model.
\<close>

section \<open>PropType\<close>

datatype prop_type =
    T_UNSPECIFIED | T_NULL | T_SHORT | T_LONG | T_FLOAT | T_DOUBLE | T_CURRENCY | T_APPTIME
  | T_ERROR | T_BOOLEAN | T_OBJECT | T_LONGLONG | T_STRING8 | T_UNICODE | T_SYSTIME | T_GUID
  | T_BINARY | T_MV_SHORT | T_MV_LONG | T_MV_FLOAT | T_MV_DOUBLE | T_MV_CURRENCY | T_MV_APPTIME
  | T_MV_LONGLONG | T_MV_STRING8 | T_MV_UNICODE | T_MV_SYSTIME | T_MV_GUID | T_MV_BINARY

fun prop_type_value :: "prop_type \<Rightarrow> int" where
  "prop_type_value T_UNSPECIFIED = 0x0000"
| "prop_type_value T_NULL = 0x0001"
| "prop_type_value T_SHORT = 0x0002"
| "prop_type_value T_LONG = 0x0003"
| "prop_type_value T_FLOAT = 0x0004"
| "prop_type_value T_DOUBLE = 0x0005"
| "prop_type_value T_CURRENCY = 0x0006"
| "prop_type_value T_APPTIME = 0x0007"
| "prop_type_value T_ERROR = 0x000A"
| "prop_type_value T_BOOLEAN = 0x000B"
| "prop_type_value T_OBJECT = 0x000D"
| "prop_type_value T_LONGLONG = 0x0014"
| "prop_type_value T_STRING8 = 0x001E"
| "prop_type_value T_UNICODE = 0x001F"
| "prop_type_value T_SYSTIME = 0x0040"
| "prop_type_value T_GUID = 0x0048"
| "prop_type_value T_BINARY = 0x0102"
| "prop_type_value T_MV_SHORT = 0x1002"
| "prop_type_value T_MV_LONG = 0x1003"
| "prop_type_value T_MV_FLOAT = 0x1004"
| "prop_type_value T_MV_DOUBLE = 0x1005"
| "prop_type_value T_MV_CURRENCY = 0x1006"
| "prop_type_value T_MV_APPTIME = 0x1007"
| "prop_type_value T_MV_LONGLONG = 0x1014"
| "prop_type_value T_MV_STRING8 = 0x101E"
| "prop_type_value T_MV_UNICODE = 0x101F"
| "prop_type_value T_MV_SYSTIME = 0x1040"
| "prop_type_value T_MV_GUID = 0x1048"
| "prop_type_value T_MV_BINARY = 0x1102"

definition prop_types :: "prop_type list" where
  "prop_types =
     [T_UNSPECIFIED, T_NULL, T_SHORT, T_LONG, T_FLOAT, T_DOUBLE, T_CURRENCY, T_APPTIME,
      T_ERROR, T_BOOLEAN, T_OBJECT, T_LONGLONG, T_STRING8, T_UNICODE, T_SYSTIME, T_GUID,
      T_BINARY, T_MV_SHORT, T_MV_LONG, T_MV_FLOAT, T_MV_DOUBLE, T_MV_CURRENCY, T_MV_APPTIME,
      T_MV_LONGLONG, T_MV_STRING8, T_MV_UNICODE, T_MV_SYSTIME, T_MV_GUID, T_MV_BINARY]"

interpretation prop_type_enum: int_enum prop_type_value prop_types
proof
  show "m \<in> set prop_types" for m by (cases m) (simp_all add: prop_types_def)
  show "prop_type_value m = prop_type_value m' \<Longrightarrow> m = m'" for m m'
    by (cases m) (cases m'; simp)+
qed

definition WIRE_CODES :: "int set" where
  "WIRE_CODES = set (map prop_type_value prop_types)"

definition prop_type_from_wire :: "int \<Rightarrow> prop_type result" where
  "prop_type_from_wire value =
     ebind (raise_if (\<not> (0 \<le> value \<and> value \<le> 0xFFFF)) PstFormatError) (\<lambda>_.
     ebind (raise_if (value = prop_type_value T_UNSPECIFIED \<or> value \<notin> WIRE_CODES) PstUnsupportedError) (\<lambda>_.
     enum_of prop_type_value prop_types value))"

fun prop_type_debug_name :: "prop_type \<Rightarrow> string result" where
  "prop_type_debug_name T_NULL = Inr ''Null''"
| "prop_type_debug_name T_SHORT = Inr ''Integer16''"
| "prop_type_debug_name T_LONG = Inr ''Integer32''"
| "prop_type_debug_name T_FLOAT = Inr ''Floating32''"
| "prop_type_debug_name T_DOUBLE = Inr ''Floating64''"
| "prop_type_debug_name T_CURRENCY = Inr ''Currency''"
| "prop_type_debug_name T_APPTIME = Inr ''FloatingTime''"
| "prop_type_debug_name T_ERROR = Inr ''ErrorCode''"
| "prop_type_debug_name T_BOOLEAN = Inr ''Boolean''"
| "prop_type_debug_name T_OBJECT = Inr ''Object''"
| "prop_type_debug_name T_LONGLONG = Inr ''Integer64''"
| "prop_type_debug_name T_STRING8 = Inr ''String8''"
| "prop_type_debug_name T_UNICODE = Inr ''Unicode''"
| "prop_type_debug_name T_SYSTIME = Inr ''Time''"
| "prop_type_debug_name T_GUID = Inr ''Guid''"
| "prop_type_debug_name T_BINARY = Inr ''Binary''"
| "prop_type_debug_name T_MV_SHORT = Inr ''MultipleInteger16''"
| "prop_type_debug_name T_MV_LONG = Inr ''MultipleInteger32''"
| "prop_type_debug_name T_MV_FLOAT = Inr ''MultipleFloating32''"
| "prop_type_debug_name T_MV_DOUBLE = Inr ''MultipleFloating64''"
| "prop_type_debug_name T_MV_CURRENCY = Inr ''MultipleCurrency''"
| "prop_type_debug_name T_MV_APPTIME = Inr ''MultipleFloatingTime''"
| "prop_type_debug_name T_MV_LONGLONG = Inr ''MultipleInteger64''"
| "prop_type_debug_name T_MV_STRING8 = Inr ''MultipleString8''"
| "prop_type_debug_name T_MV_UNICODE = Inr ''MultipleUnicode''"
| "prop_type_debug_name T_MV_SYSTIME = Inr ''MultipleTime''"
| "prop_type_debug_name T_MV_GUID = Inr ''MultipleGuid''"
| "prop_type_debug_name T_MV_BINARY = Inr ''MultipleBinary''"
| "prop_type_debug_name T_UNSPECIFIED = Inl PstUnsupportedError"

text \<open>\<open>_TYPES_BY_DEBUG_NAME\<close> is the inverted dictionary.\<close>

definition prop_type_from_debug_name :: "string \<Rightarrow> prop_type result" where
  "prop_type_from_debug_name name =
     (case find (\<lambda>t. prop_type_debug_name t = Inr name) prop_types of
        None \<Rightarrow> Inl PstFormatError | Some t \<Rightarrow> Inr t)"

lemma prop_type_value_range: "0 \<le> prop_type_value t" "prop_type_value t \<le> 0xFFFF"
  by (cases t; simp)+

lemma WIRE_CODES_range: "WIRE_CODES = range prop_type_value"
  using prop_type_enum.complete by (auto simp: WIRE_CODES_def)

lemma prop_type_from_wire_iff:
  "prop_type_from_wire v = Inr t \<longleftrightarrow> prop_type_value t = v \<and> t \<noteq> T_UNSPECIFIED"
proof -
  have "prop_type_value t = 0 \<longleftrightarrow> t = T_UNSPECIFIED" by (cases t) simp_all
  then show ?thesis
    using prop_type_value_range [of t]
    by (auto simp: prop_type_from_wire_def ebind_Inr_iff raise_if_Inr_iff WIRE_CODES_range
        prop_type_enum.of_value_iff)
qed

lemma prop_type_from_wire_closed [simp, intro]: "fails_closed (prop_type_from_wire v)"
  unfolding prop_type_from_wire_def fails_closed_def
  by (auto simp: ebind_Inl_iff raise_if_Inl_iff raise_if_Inr_iff WIRE_CODES_range
      prop_type_enum.of_value_Inl_iff)

lemma prop_type_debug_roundtrip: "t \<noteq> T_UNSPECIFIED \<Longrightarrow>
  \<exists>n. prop_type_debug_name t = Inr n \<and> prop_type_from_debug_name n = Inr t"
  by (cases t) (simp_all add: prop_type_from_debug_name_def prop_types_def)

section \<open>Sizes and formats\<close>

text \<open>The \<open>struct\<close> codes of the scalars.\<close>

datatype scalar_format = Fmt_h | Fmt_i | Fmt_q | Fmt_f | Fmt_d | Fmt_B

fun scalar_calcsize :: "scalar_format \<Rightarrow> int" where
  "scalar_calcsize Fmt_h = 2"
| "scalar_calcsize Fmt_i = 4"
| "scalar_calcsize Fmt_q = 8"
| "scalar_calcsize Fmt_f = 4"
| "scalar_calcsize Fmt_d = 8"
| "scalar_calcsize Fmt_B = 1"

fun SCALAR_FORMATS :: "prop_type \<Rightarrow> scalar_format option" where
  "SCALAR_FORMATS T_SHORT = Some Fmt_h"
| "SCALAR_FORMATS T_LONG = Some Fmt_i"
| "SCALAR_FORMATS T_FLOAT = Some Fmt_f"
| "SCALAR_FORMATS T_DOUBLE = Some Fmt_d"
| "SCALAR_FORMATS T_CURRENCY = Some Fmt_q"
| "SCALAR_FORMATS T_APPTIME = Some Fmt_d"
| "SCALAR_FORMATS T_ERROR = Some Fmt_i"
| "SCALAR_FORMATS T_BOOLEAN = Some Fmt_B"
| "SCALAR_FORMATS T_LONGLONG = Some Fmt_q"
| "SCALAR_FORMATS T_SYSTIME = Some Fmt_q"
| "SCALAR_FORMATS _ = None"

definition FIXED_SIZES :: "prop_type \<Rightarrow> int option" where
  "FIXED_SIZES t =
     (if t = T_NULL then Some 0 else if t = T_GUID then Some 16
      else map_option scalar_calcsize (SCALAR_FORMATS t))"

fun MV_FIXED_BASE :: "prop_type \<Rightarrow> prop_type option" where
  "MV_FIXED_BASE T_MV_SHORT = Some T_SHORT"
| "MV_FIXED_BASE T_MV_LONG = Some T_LONG"
| "MV_FIXED_BASE T_MV_FLOAT = Some T_FLOAT"
| "MV_FIXED_BASE T_MV_DOUBLE = Some T_DOUBLE"
| "MV_FIXED_BASE T_MV_CURRENCY = Some T_CURRENCY"
| "MV_FIXED_BASE T_MV_APPTIME = Some T_APPTIME"
| "MV_FIXED_BASE T_MV_LONGLONG = Some T_LONGLONG"
| "MV_FIXED_BASE T_MV_SYSTIME = Some T_SYSTIME"
| "MV_FIXED_BASE _ = None"

definition is_fixed_size :: "prop_type \<Rightarrow> bool" where
  "is_fixed_size t = (FIXED_SIZES t \<noteq> None)"

definition fixed_size :: "prop_type \<Rightarrow> int result" where
  "fixed_size t = (case FIXED_SIZES t of None \<Rightarrow> Inl PstFormatError | Some n \<Rightarrow> Inr n)"

section \<open>Values\<close>

record object_ref =
  obj_node :: node_id
  obj_size :: int

type_synonym ustring = "int list"

datatype prop_value =
    VNull
  | VInt int
  | VFloat32 int
  | VFloat64 int
  | VBool bool
  | VBytes bytes
  | VStr ustring
  | VTime int
  | VGuid int
  | VObject object_ref
  | VTuple "prop_value list"

section \<open>FILETIME\<close>

definition TICKS_PER_MICROSECOND :: int where "TICKS_PER_MICROSECOND = 10"
definition TICKS_PER_SECOND :: int where "TICKS_PER_SECOND = 10000000"
definition TICKS_PER_DAY :: int where "TICKS_PER_DAY = 86400 * TICKS_PER_SECOND"

text \<open>
  A datetime: whether it is aware, and its time in microseconds from 1601-01-01 UTC. The days between
  two years are \<open>datetime\<close>'s own count for the proleptic Gregorian calendar.
\<close>

record py_datetime =
  dt_aware :: bool
  dt_micros :: int

definition days_before_year :: "int \<Rightarrow> int" where
  "days_before_year y = (y - 1) * 365 + (y - 1) div 4 - (y - 1) div 100 + (y - 1) div 400"

definition MICROS_PER_DAY :: int where "MICROS_PER_DAY = 86400 * 1000000"

definition DATETIME_MAX :: py_datetime where
  "DATETIME_MAX = \<lparr>dt_aware = True,
     dt_micros = (days_before_year 10000 - days_before_year 1601) * MICROS_PER_DAY - 1\<rparr>"

definition datetime_to_filetime :: "py_datetime \<Rightarrow> int result" where
  "datetime_to_filetime dt =
     ebind (raise_if (\<not> dt_aware dt) TypeError) (\<lambda>_.
     let delta = dt_micros dt in
     ebind (raise_if (delta < 0) ValueError) (\<lambda>_.
     let days = delta div MICROS_PER_DAY; rest = delta mod MICROS_PER_DAY;
         seconds = rest div 1000000; microseconds = rest mod 1000000 in
     Inr (days * TICKS_PER_DAY + seconds * TICKS_PER_SECOND + microseconds * TICKS_PER_MICROSECOND)))"

definition FILETIME_MAX :: int where
  "FILETIME_MAX =
     (case datetime_to_filetime DATETIME_MAX of
        Inr t \<Rightarrow> t + TICKS_PER_MICROSECOND - 1 | Inl _ \<Rightarrow> 0)"

definition filetime_to_datetime :: "int \<Rightarrow> py_datetime result" where
  "filetime_to_datetime ft =
     ebind (raise_if (\<not> (0 \<le> ft \<and> ft \<le> FILETIME_MAX)) PstFormatError) (\<lambda>_.
     ebind (py_floordiv ft TICKS_PER_MICROSECOND) (\<lambda>micros. Inr \<lparr>dt_aware = True, dt_micros = micros\<rparr>))"

lemmas time_consts =
  TICKS_PER_MICROSECOND_def TICKS_PER_SECOND_def TICKS_PER_DAY_def MICROS_PER_DAY_def

lemma datetime_to_filetime_eq:
  "datetime_to_filetime dt =
     (if \<not> dt_aware dt then Inl TypeError else if dt_micros dt < 0 then Inl ValueError
      else Inr (10 * dt_micros dt))"
proof -
  have ticks: "d div MICROS_PER_DAY * TICKS_PER_DAY + d mod MICROS_PER_DAY div 1000000 * TICKS_PER_SECOND +
      d mod MICROS_PER_DAY mod 1000000 * TICKS_PER_MICROSECOND = 10 * d" for d
  proof -
    define q r where "q = d div MICROS_PER_DAY" and "r = d mod MICROS_PER_DAY"
    have "q * 86400000000 + r = d"
      unfolding q_def r_def MICROS_PER_DAY_def using div_mult_mod_eq [of d 86400000000] by simp
    moreover have "r div 1000000 * 1000000 + r mod 1000000 = r" by (rule div_mult_mod_eq)
    ultimately have "q * 864000000000 + r div 1000000 * 10000000 + r mod 1000000 * 10 = 10 * d" by linarith
    then show ?thesis by (simp add: time_consts flip: q_def r_def) (simp add: time_consts q_def r_def)
  qed
  show ?thesis by (simp add: datetime_to_filetime_def Let_def ticks)
qed

lemma FILETIME_MAX_eq: "FILETIME_MAX = 2650467743999999999"
  by (simp add: FILETIME_MAX_def datetime_to_filetime_eq DATETIME_MAX_def days_before_year_def time_consts)

lemma filetime_to_datetime_Inr_iff:
  "filetime_to_datetime ft = Inr dt \<longleftrightarrow>
     0 \<le> ft \<and> ft \<le> FILETIME_MAX \<and> dt = \<lparr>dt_aware = True, dt_micros = ft div 10\<rparr>"
  by (auto simp: filetime_to_datetime_def ebind_Inr_iff raise_if_Inr_iff py_floordiv_def time_consts)

lemma filetime_to_datetime_closed [simp, intro]: "fails_closed (filetime_to_datetime ft)"
  by (auto simp: filetime_to_datetime_def py_floordiv_def time_consts intro!: fails_closed_ebind)

section \<open>Scalars\<close>

definition exact_size :: "bytes \<Rightarrow> int \<Rightarrow> unit result" where
  "exact_size data n = raise_if (len data \<noteq> n) PstFormatError"

fun unpack_scalar :: "scalar_format \<Rightarrow> bytes \<Rightarrow> prop_value" where
  "unpack_scalar Fmt_h data = VInt (le_sint data)"
| "unpack_scalar Fmt_i data = VInt (le_sint data)"
| "unpack_scalar Fmt_q data = VInt (le_sint data)"
| "unpack_scalar Fmt_f data = VFloat32 (le_int data)"
| "unpack_scalar Fmt_d data = VFloat64 (le_int data)"
| "unpack_scalar Fmt_B data = VInt (le_int data)"

definition decode_scalar :: "scalar_format \<Rightarrow> bytes \<Rightarrow> prop_value result" where
  "decode_scalar fmt data = ebind (exact_size data (scalar_calcsize fmt)) (\<lambda>_. Inr (unpack_scalar fmt data))"

definition decode_boolean :: "bytes \<Rightarrow> prop_value result" where
  "decode_boolean data =
     ebind (decode_scalar Fmt_B data) (\<lambda>v. case v of
       VInt value \<Rightarrow> ebind (raise_if (value \<noteq> 0 \<and> value \<noteq> 1) PstFormatError) (\<lambda>_. Inr (VBool (value = 1)))
     | _ \<Rightarrow> Inl TypeError)"

definition decode_systime :: "bytes \<Rightarrow> prop_value result" where
  "decode_systime data =
     ebind (decode_scalar Fmt_q data) (\<lambda>v. case v of
       VInt ft \<Rightarrow> ebind (filetime_to_datetime ft) (\<lambda>dt. Inr (VTime (dt_micros dt)))
     | _ \<Rightarrow> Inl TypeError)"

text \<open>\<open>uuid.UUID(bytes_le=...)\<close>: the first three fields are little-endian, the integer is big-endian.\<close>

definition uuid_of_bytes_le :: "bytes \<Rightarrow> int" where
  "uuid_of_bytes_le b =
     le_int (rev (rev (slice b 0 4) @ rev (slice b 4 6) @ rev (slice b 6 8) @ slice b 8 16))"

definition decode_guid :: "bytes \<Rightarrow> prop_value result" where
  "decode_guid data = ebind (exact_size data 16) (\<lambda>_. Inr (VGuid (uuid_of_bytes_le data)))"

definition decode_object :: "bytes \<Rightarrow> prop_value result" where
  "decode_object data =
     ebind (exact_size data 8) (\<lambda>_.
     ebind (struct_unpack_from [4, 4] data 0) (\<lambda>fs.
     ebind (mk_NodeId (fs ! 0)) (\<lambda>node. Inr (VObject \<lparr>obj_node = node, obj_size = fs ! 1\<rparr>))))"

definition decode_binary :: "bytes \<Rightarrow> prop_value result" where
  "decode_binary data = Inr (VBytes data)"

definition decode_null :: "bytes \<Rightarrow> prop_value result" where
  "decode_null data = ebind (exact_size data 0) (\<lambda>_. Inr VNull)"

lemma exact_size_Inr_iff [res_simps]: "exact_size data n = Inr u \<longleftrightarrow> len data = n"
  by (simp add: exact_size_def raise_if_def)

lemma exact_size_closed [simp, intro]: "fails_closed (exact_size data n)"
  by (simp add: exact_size_def)

lemma decode_scalar_closed [simp, intro]: "fails_closed (decode_scalar f data)"
  by (auto simp: decode_scalar_def)

lemma decode_boolean_eq:
  "decode_boolean data =
     (case data of [b] \<Rightarrow> if b = 0 then Inr (VBool False) else if b = 1 then Inr (VBool True) else Inl PstFormatError
      | _ \<Rightarrow> Inl PstFormatError)"
proof (cases "length data = 1")
  case True
  then obtain b where b: "data = [b]" by (auto simp: length_Suc_conv)
  have "uint b = 0 \<longleftrightarrow> b = 0" "uint b = 1 \<longleftrightarrow> b = 1" by (simp_all add: word_uint_eq_iff)
  with b show ?thesis by (auto simp: decode_boolean_def decode_scalar_def exact_size_def raise_if_def)
next
  case False
  then show ?thesis
    by (auto simp: decode_boolean_def decode_scalar_def exact_size_def raise_if_def split: list.split)
qed

lemma decode_boolean_closed [simp, intro]: "fails_closed (decode_boolean data)"
  by (auto simp: decode_boolean_eq split: list.split)

lemma decode_systime_eq:
  "decode_systime data =
     ebind (exact_size data 8) (\<lambda>_. ebind (filetime_to_datetime (le_sint data)) (\<lambda>dt. Inr (VTime (dt_micros dt))))"
  by (simp add: decode_systime_def decode_scalar_def ebind_assoc)

lemma decode_systime_closed [simp, intro]: "fails_closed (decode_systime data)"
  unfolding decode_systime_eq by (intro fails_closed_ebind) auto

lemma decode_guid_closed [simp, intro]: "fails_closed (decode_guid data)"
  by (auto simp: decode_guid_def)

lemma decode_object_closed [simp, intro]: "fails_closed (decode_object data)"
proof -
  have "fails_closed (struct_unpack_from [4, 4] data 0)" if "len data = 8"
    using that by (simp add: struct_unpack_from_ok calcsize_def)
  then show ?thesis unfolding decode_object_def
    by (intro fails_closed_ebind) (auto simp: exact_size_Inr_iff)
qed

lemma decode_null_closed [simp, intro]: "fails_closed (decode_null data)"
  by (auto simp: decode_null_def)

section \<open>Text\<close>

text \<open>What \<open>codecs.lookup\<close> gives for the name of a code page: nothing, or a decoder that may fail.\<close>

type_synonym codec_info = "bytes \<Rightarrow> ustring option"
type_synonym codepage = "codec_info option"

definition lookup_codepage :: "codepage \<Rightarrow> codec_info result" where
  "lookup_codepage codepage = (case codepage of None \<Rightarrow> Inl PstUnsupportedError | Some c \<Rightarrow> Inr c)"

text \<open>\<open>raw.find(needle, start)\<close>: the first position from \<open>start\<close> on, or -1.\<close>

fun find_from :: "bytes \<Rightarrow> bytes \<Rightarrow> nat \<Rightarrow> nat \<Rightarrow> int" where
  "find_from raw needle start 0 = -1"
| "find_from raw needle start (Suc n) =
     (if take (length needle) (drop start raw) = needle \<and> start + length needle \<le> length raw then int start
      else find_from raw needle (Suc start) n)"

definition bytes_find :: "bytes \<Rightarrow> bytes \<Rightarrow> int \<Rightarrow> int" where
  "bytes_find raw needle start = find_from raw needle (nat start) (Suc (length raw) - nat start)"

definition decode_string8_bytes :: "bytes \<Rightarrow> codec_info \<Rightarrow> ustring result" where
  "decode_string8_bytes raw dec =
     (let stop = bytes_find raw [0] 0;
          raw' = (if stop \<ge> 0 then slice raw 0 stop else raw) in
      case dec raw' of None \<Rightarrow> Inl PstFormatError | Some text \<Rightarrow> Inr text)"

text \<open>The strict UTF-16 decoder: a surrogate must be the high half of a pair.\<close>

fun utf16_units :: "bytes \<Rightarrow> int list" where
  "utf16_units (a # b # bs) = (uint a + 256 * uint b) # utf16_units bs"
| "utf16_units _ = []"

definition is_high_surrogate :: "int \<Rightarrow> bool" where
  "is_high_surrogate u \<longleftrightarrow> 0xD800 \<le> u \<and> u \<le> 0xDBFF"

definition is_low_surrogate :: "int \<Rightarrow> bool" where
  "is_low_surrogate u \<longleftrightarrow> 0xDC00 \<le> u \<and> u \<le> 0xDFFF"

fun utf16_decode :: "int list \<Rightarrow> ustring option" where
  "utf16_decode [] = Some []"
| "utf16_decode (u # us) =
     (if is_high_surrogate u then
        (case us of
           v # vs \<Rightarrow> if is_low_surrogate v
             then map_option (Cons (0x10000 + (u - 0xD800) * 0x400 + (v - 0xDC00))) (utf16_decode vs) else None
         | [] \<Rightarrow> None)
      else if is_low_surrogate u then None else map_option (Cons u) (utf16_decode us))"

lemma find_from_Some:
  "find_from raw needle start n = int k \<Longrightarrow>
   start \<le> k \<and> k < start + n \<and> k + length needle \<le> length raw \<and> take (length needle) (drop k raw) = needle"
proof (induction n arbitrary: start)
  case (Suc n)
  then show ?case by (auto split: if_splits dest: Suc.IH)
qed simp

lemma bytes_find_nonneg:
  assumes "0 \<le> bytes_find raw needle start" "0 \<le> start"
  shows "start \<le> bytes_find raw needle start" "bytes_find raw needle start + len needle \<le> len raw"
    "take (length needle) (drop (nat (bytes_find raw needle start)) raw) = needle"
proof -
  obtain k where k: "bytes_find raw needle start = int k" using assms(1) nonneg_int_cases by blast
  from find_from_Some [OF this [unfolded bytes_find_def]]
  show "start \<le> bytes_find raw needle start" "bytes_find raw needle start + len needle \<le> len raw"
    "take (length needle) (drop (nat (bytes_find raw needle start)) raw) = needle"
    using k assms(2) by auto
qed

text \<open>The search for the first aligned zero unit: an odd hit is skipped past.\<close>

function nul_cut :: "bytes \<Rightarrow> int \<Rightarrow> bytes" where
  "nul_cut raw start =
     (let nul = bytes_find raw [0, 0] start in
      if nul < 0 then raw
      else if nul mod 2 = 0 then slice raw 0 nul
      else nul_cut raw (nul + 1))"
  by pat_completeness auto

termination
proof (relation "measure (\<lambda>(raw, start). nat (len raw + 1 - start))")
  fix raw :: bytes and start nul
  assume nul: "nul = bytes_find raw [0, 0] start" "\<not> nul < 0"
  have "start \<le> nul"
  proof (cases "0 \<le> start")
    case True
    with nul bytes_find_nonneg(1) [of raw "[0, 0]" start] show ?thesis by simp
  next
    case False
    with nul show ?thesis by simp
  qed
  moreover have "nul + 2 \<le> len raw"
  proof -
    obtain k where k: "nul = int k" using nul(2) by (metis linorder_not_less nonneg_int_cases)
    from find_from_Some [OF nul(1) [unfolded bytes_find_def k, symmetric]] show ?thesis using k by simp
  qed
  ultimately show "((raw, nul + 1), (raw, start)) \<in> measure (\<lambda>(raw, start). nat (len raw + 1 - start))"
    by simp
qed simp

declare nul_cut.simps [simp del]

definition decode_unicode_bytes :: "bytes \<Rightarrow> ustring result" where
  "decode_unicode_bytes raw =
     ebind (raise_if (len raw mod 2 \<noteq> 0) PstFormatError) (\<lambda>_.
     case utf16_decode (utf16_units (nul_cut raw 0)) of None \<Rightarrow> Inl PstFormatError | Some text \<Rightarrow> Inr text)"

definition decode_string8 :: "bytes \<Rightarrow> codepage \<Rightarrow> prop_value result" where
  "decode_string8 data codepage =
     ebind (lookup_codepage codepage) (\<lambda>dec.
     ebind (decode_string8_bytes data dec) (\<lambda>text. Inr (VStr text)))"

definition decode_unicode :: "bytes \<Rightarrow> prop_value result" where
  "decode_unicode data = ebind (decode_unicode_bytes data) (\<lambda>text. Inr (VStr text))"

section \<open>Multi-valued properties\<close>

definition mv_check_count :: "int \<Rightarrow> int \<Rightarrow> unit result" where
  "mv_check_count cnt item_max = raise_if (cnt > item_max) PstLimitError"

text \<open>\<open>_DECODERS\<close>: the single-valued decoders that need only the bytes.\<close>

fun DECODERS :: "prop_type \<Rightarrow> (bytes \<Rightarrow> prop_value result) option" where
  "DECODERS T_NULL = Some decode_null"
| "DECODERS T_BOOLEAN = Some decode_boolean"
| "DECODERS T_SYSTIME = Some decode_systime"
| "DECODERS T_GUID = Some decode_guid"
| "DECODERS T_OBJECT = Some decode_object"
| "DECODERS T_BINARY = Some decode_binary"
| "DECODERS T_UNICODE = Some decode_unicode"
| "DECODERS t = map_option decode_scalar (SCALAR_FORMATS t)"

definition decode_mv_fixed :: "prop_type \<Rightarrow> bytes \<Rightarrow> int \<Rightarrow> prop_value result" where
  "decode_mv_fixed base data item_max =
     ebind (fixed_size base) (\<lambda>sz.
     ebind (py_mod (len data) sz) (\<lambda>rest.
     ebind (raise_if (rest \<noteq> 0) PstFormatError) (\<lambda>_.
     ebind (py_floordiv (len data) sz) (\<lambda>cnt.
     ebind (mv_check_count cnt item_max) (\<lambda>_.
     case DECODERS base of
       None \<Rightarrow> Inl PstFormatError
     | Some decoder \<Rightarrow>
         ebind (emap (\<lambda>i. decoder (slice data i (i + sz))) (range_by (len data) sz)) (\<lambda>vs.
         Inr (VTuple vs)))))))"

definition decode_mv_guid :: "bytes \<Rightarrow> int \<Rightarrow> prop_value result" where
  "decode_mv_guid data item_max =
     ebind (raise_if (len data < 4) PstFormatError) (\<lambda>_.
     ebind (struct_unpack_from [4] data 0) (\<lambda>fs.
     let cnt = fs ! 0 in
     ebind (mv_check_count cnt item_max) (\<lambda>_.
     ebind (exact_size data (4 + 16 * cnt)) (\<lambda>_.
     ebind (emap (\<lambda>i. decode_guid (slice data i (i + 16))) (map (\<lambda>i. 4 + i) (range_by (len data - 4) 16))) (\<lambda>vs.
     Inr (VTuple vs))))))"

definition mv_item :: "bytes \<Rightarrow> int list \<Rightarrow> int \<Rightarrow> int \<Rightarrow> bytes result" where
  "mv_item data offsets cnt i =
     ebind (py_index offsets i) (\<lambda>start.
     ebind (if i + 1 < cnt then py_index offsets (i + 1) else Inr (len data)) (\<lambda>stop.
     ebind (raise_if (stop < start \<or> stop > len data) PstFormatError) (\<lambda>_.
     Inr (slice data start stop))))"

definition mv_variable_items :: "bytes \<Rightarrow> int \<Rightarrow> bytes list result" where
  "mv_variable_items data item_max =
     ebind (raise_if (len data < 4) PstFormatError) (\<lambda>_.
     ebind (struct_unpack_from [4] data 0) (\<lambda>fs.
     let cnt = fs ! 0 in
     ebind (mv_check_count cnt item_max) (\<lambda>_.
     let table_end = 4 * (cnt + 1) in
     ebind (raise_if (len data < table_end) PstFormatError) (\<lambda>_.
     ebind (struct_unpack_from (replicate (nat cnt) 4) data 4) (\<lambda>offsets.
     if cnt = 0 then Inr []
     else
       ebind (py_index offsets 0) (\<lambda>first.
       ebind (raise_if (first \<noteq> table_end) PstFormatError) (\<lambda>_.
       emap (mv_item data offsets cnt) (map int [0..<length offsets]))))))))"

definition decode_mv_string8 :: "bytes \<Rightarrow> codepage \<Rightarrow> int \<Rightarrow> prop_value result" where
  "decode_mv_string8 data codepage item_max =
     ebind (lookup_codepage codepage) (\<lambda>dec.
     ebind (mv_variable_items data item_max) (\<lambda>items.
     ebind (emap (\<lambda>item. ebind (decode_string8_bytes item dec) (\<lambda>t. Inr (VStr t))) items) (\<lambda>vs.
     Inr (VTuple vs))))"

definition decode_mv_unicode :: "bytes \<Rightarrow> int \<Rightarrow> prop_value result" where
  "decode_mv_unicode data item_max =
     ebind (mv_variable_items data item_max) (\<lambda>items.
     ebind (emap (\<lambda>item. ebind (decode_unicode_bytes item) (\<lambda>t. Inr (VStr t))) items) (\<lambda>vs.
     Inr (VTuple vs)))"

definition decode_mv_binary :: "bytes \<Rightarrow> int \<Rightarrow> prop_value result" where
  "decode_mv_binary data item_max =
     ebind (mv_variable_items data item_max) (\<lambda>items. Inr (VTuple (map VBytes items)))"

section \<open>decode\<close>

definition decode :: "prop_type \<Rightarrow> bytes \<Rightarrow> codepage \<Rightarrow> int \<Rightarrow> prop_value result" where
  "decode t data codepage item_max =
     (if t = T_STRING8 then decode_string8 data codepage
      else if t = T_MV_STRING8 then decode_mv_string8 data codepage item_max
      else if t = T_MV_UNICODE then decode_mv_unicode data item_max
      else if t = T_MV_BINARY then decode_mv_binary data item_max
      else if t = T_MV_GUID then decode_mv_guid data item_max
      else case MV_FIXED_BASE t of
        Some base \<Rightarrow> decode_mv_fixed base data item_max
      | None \<Rightarrow> (case DECODERS t of None \<Rightarrow> Inl PstFormatError | Some decoder \<Rightarrow> decoder data))"

text \<open>\<open>decode\<close> called with a wire code.\<close>

definition decode_wire :: "int \<Rightarrow> bytes \<Rightarrow> codepage \<Rightarrow> int \<Rightarrow> prop_value result" where
  "decode_wire code data codepage item_max =
     ebind (prop_type_from_wire code) (\<lambda>t. decode t data codepage item_max)"

section \<open>Only a PstError escapes\<close>

lemma mv_check_count_Inr_iff [res_simps]: "mv_check_count n m = Inr u \<longleftrightarrow> n \<le> m"
  by (auto simp: mv_check_count_def raise_if_def)

lemma mv_check_count_closed [simp, intro]: "fails_closed (mv_check_count n m)"
  by (simp add: mv_check_count_def)

lemma decode_unicode_bytes_closed [simp, intro]: "fails_closed (decode_unicode_bytes raw)"
  unfolding decode_unicode_bytes_def by (intro fails_closed_ebind) (auto split: option.split)

lemma decode_string8_bytes_closed [simp, intro]: "fails_closed (decode_string8_bytes raw c)"
  by (auto simp: decode_string8_bytes_def Let_def split: option.split)

lemma lookup_codepage_closed [simp, intro]: "fails_closed (lookup_codepage c)"
  by (auto simp: lookup_codepage_def split: option.split)

lemma DECODERS_closed: "DECODERS t = Some d \<Longrightarrow> fails_closed (d data)"
  by (cases t) (auto simp: decode_binary_def decode_unicode_def intro!: fails_closed_ebind)

lemma unpack_count:
  assumes "4 \<le> len data"
  shows "struct_unpack_from [4] data 0 = Inr [le_int (take 4 data)]" "0 \<le> le_int (take 4 data)"
  using assms by (simp_all add: struct_unpack_from_ok calcsize_def)

lemma mv_variable_items_closed [simp, intro]: "fails_closed (mv_variable_items data m)"
proof (cases "4 \<le> len data")
  case False
  then show ?thesis by (simp add: mv_variable_items_def)
next
  case True
  let ?c = "le_int (take 4 data)"
  have offs: "struct_unpack_from (replicate (nat ?c) 4) data 4 = Inr (le_fields (replicate (nat ?c) 4) (drop 4 data))"
    if "4 * (?c + 1) \<le> len data"
    using that by (simp add: struct_unpack_from_ok calcsize_def sum_list_replicate)
  have item: "fails_closed (mv_item data os c (int i))" if "i < length os" "len os = c" for os i c
    unfolding mv_item_def using that
    by (intro fails_closed_ebind fails_closed_if) (auto simp: py_index_ok)
  have "fails_closed (if ?c = 0 then Inr [] else ebind (py_index os 0) (\<lambda>first.
      ebind (raise_if (first \<noteq> 4 * (?c + 1)) PstFormatError) (\<lambda>_.
      emap (mv_item data os ?c) (map int [0..<length os]))))"
    if "os = le_fields (replicate (nat ?c) 4) (drop 4 data)" for os
  proof -
    have "len os = ?c" using that by simp
    with item show ?thesis
      by (intro fails_closed_if fails_closed_ebind fails_closed_emap) (auto simp: py_index_ok)
  qed
  with offs show ?thesis
    unfolding mv_variable_items_def unpack_count [OF True] Let_def
    by (intro fails_closed_ebind) (auto simp: raise_if_Inr_iff unpack_count(1) [OF True])
qed

lemma decode_mv_guid_closed [simp, intro]: "fails_closed (decode_mv_guid data m)"
proof (cases "4 \<le> len data")
  case False
  then show ?thesis by (simp add: decode_mv_guid_def)
next
  case True
  then show ?thesis
    unfolding decode_mv_guid_def unpack_count [OF True] Let_def
    by (intro fails_closed_ebind fails_closed_emap) (auto simp: unpack_count)
qed

lemma MV_FIXED_BASE_facts:
  assumes "MV_FIXED_BASE t = Some b"
  shows "\<exists>f. SCALAR_FORMATS b = Some f" "\<exists>n. FIXED_SIZES b = Some n \<and> 0 < n" "\<exists>d. DECODERS b = Some d"
  using assms by (cases t; simp add: FIXED_SIZES_def; fail)+

lemma decode_mv_fixed_closed:
  assumes "MV_FIXED_BASE t = Some b"
  shows "fails_closed (decode_mv_fixed b data m)"
proof -
  obtain n d where n: "FIXED_SIZES b = Some n" "0 < n" and d: "DECODERS b = Some d"
    using MV_FIXED_BASE_facts [OF assms] by blast
  moreover have "fails_closed (d x)" for x using DECODERS_closed [OF d] .
  ultimately show ?thesis
    unfolding decode_mv_fixed_def fixed_size_def
    by (auto simp: py_mod_def py_floordiv_def intro!: fails_closed_ebind fails_closed_emap)
qed

lemma decode_closed [simp, intro]: "fails_closed (decode t data cp m)"
  unfolding decode_def decode_string8_def decode_mv_string8_def decode_mv_unicode_def decode_mv_binary_def
  by (auto split: option.split dest: DECODERS_closed intro: decode_mv_fixed_closed
      intro!: fails_closed_ebind fails_closed_emap)

section \<open>Text is cut at the first zero unit\<close>

lemma find_from_first:
  "find_from raw needle start n = int k \<Longrightarrow> start \<le> j \<Longrightarrow> j < k \<Longrightarrow>
   \<not> (take (length needle) (drop j raw) = needle \<and> j + length needle \<le> length raw)"
proof (induction n arbitrary: start)
  case (Suc n)
  then show ?case
    by (cases "j = start") (auto split: if_splits dest: Suc.IH [of "Suc start"])
qed simp

lemma find_from_none:
  "find_from raw needle start n < 0 \<Longrightarrow> start \<le> j \<Longrightarrow> j < start + n \<Longrightarrow>
   \<not> (take (length needle) (drop j raw) = needle \<and> j + length needle \<le> length raw)"
proof (induction n arbitrary: start)
  case (Suc n)
  then show ?case
    by (cases "j = start") (auto split: if_splits dest: Suc.IH [of "Suc start"])
qed simp

lemma utf16_units_length: "length (utf16_units raw) = length raw div 2"
  by (induction raw rule: utf16_units.induct) auto

lemma utf16_units_take: "utf16_units (take (2 * n) raw) = take n (utf16_units raw)"
proof (induction raw arbitrary: n rule: utf16_units.induct)
  case (1 a b bs)
  then show ?case by (cases n) auto
qed (auto simp: take_Cons' split: nat.split)

lemma utf16_units_nth:
  "k < length raw div 2 \<Longrightarrow> utf16_units raw ! k = uint (raw ! (2 * k)) + 256 * uint (raw ! Suc (2 * k))"
proof (induction raw arbitrary: k rule: utf16_units.induct)
  case (1 a b bs)
  then show ?case by (cases k) auto
qed auto

lemma length_takeWhile_first:
  "(\<And>i. i < n \<Longrightarrow> P (xs ! i)) \<Longrightarrow> n < length xs \<Longrightarrow> \<not> P (xs ! n) \<Longrightarrow> length (takeWhile P xs) = n"
  using takeWhile_eq_take_P_nth [of n xs P] by simp

lemma uint_byte_nonneg: "0 \<le> uint (b :: byte)"
  by simp

lemma zero_unit_iff:
  assumes "k < length raw div 2"
  shows "utf16_units raw ! k = 0 \<longleftrightarrow> take 2 (drop (2 * k) raw) = [0, 0]"
proof -
  have k: "Suc (2 * k) < length raw" using assms by linarith
  have "take 2 (drop (2 * k) raw) = [raw ! (2 * k), raw ! Suc (2 * k)]"
    using k by (simp add: numeral_2_eq_2 take_Suc_conv_app_nth)
  moreover have "uint (raw ! (2 * k)) + 256 * uint (raw ! Suc (2 * k)) = 0 \<longleftrightarrow>
      uint (raw ! (2 * k)) = 0 \<and> uint (raw ! Suc (2 * k)) = 0"
    using uint_byte_nonneg [of "raw ! (2 * k)"] uint_byte_nonneg [of "raw ! Suc (2 * k)"] by linarith
  ultimately show ?thesis
    using utf16_units_nth [OF assms] by (simp add: uint_0_iff)
qed

text \<open>
  Whatever odd hits the byte search makes on the way, what is kept is the bytes of the units before
  the first zero one.
\<close>

theorem nul_cut_units:
  assumes "even (length raw)" "0 \<le> start" "\<forall>k < length raw div 2. int (2 * k) < start \<longrightarrow> utf16_units raw ! k \<noteq> 0"
  shows "nul_cut raw start = take (2 * length (takeWhile (\<lambda>u. u \<noteq> 0) (utf16_units raw))) raw"
  using assms
proof (induction raw start rule: nul_cut.induct)
  case (1 raw start)
  let ?u = "utf16_units raw" and ?nul = "bytes_find raw [0, 0] start"
  have hit: "(take (length [0, 0 :: byte]) (drop (2 * k) raw) = [0, 0] \<and> 2 * k + length [0, 0 :: byte] \<le> length raw) \<longleftrightarrow> ?u ! k = 0"
    if "k < length raw div 2" for k
  proof -
    have "2 * k + 2 \<le> length raw" using that by linarith
    with zero_unit_iff [OF that] show ?thesis by (simp add: numeral_2_eq_2)
  qed
  show ?case
  proof (cases "?nul < 0")
    case True
    have "?u ! k \<noteq> 0" if k: "k < length raw div 2" for k
    proof (cases "int (2 * k) < start")
      case False
      then have "nat start \<le> 2 * k" "2 * k < nat start + (Suc (length raw) - nat start)"
        using k by auto
      from find_from_none [OF True [unfolded bytes_find_def] this] hit [OF k] show ?thesis by blast
    qed (use "1.prems"(3) k in blast)
    then have all: "takeWhile (\<lambda>u. u \<noteq> 0) ?u = ?u"
      by (auto simp: takeWhile_eq_all_conv in_set_conv_nth utf16_units_length)
    show ?thesis
      unfolding all using True "1.prems"(1) by (simp add: nul_cut.simps [of raw start] utf16_units_length)
  next
    case False
    then obtain m where m: "?nul = int m" by (metis linorder_not_less nonneg_int_cases)
    note found = find_from_Some [OF m [unfolded bytes_find_def]]
    have first: "?u ! k \<noteq> 0" if "k < length raw div 2" "2 * k < m" for k
    proof (cases "int (2 * k) < start")
      case False
      then have "nat start \<le> 2 * k" by simp
      from find_from_first [OF m [unfolded bytes_find_def] this that(2)] hit [OF that(1)] show ?thesis by blast
    qed (use "1.prems"(3) that in blast)
    show ?thesis
    proof (cases "even m")
      case True
      then obtain j where j: "m = 2 * j" by blast
      have jl: "j < length raw div 2" using found j by auto
      have "?u ! j = 0" using hit [OF jl] found j by simp
      then have "length (takeWhile (\<lambda>u. u \<noteq> 0) ?u) = j"
        using first j jl by (intro length_takeWhile_first) (auto simp: utf16_units_length)
      moreover have "nul_cut raw start = slice raw 0 (int m)"
      proof -
        have "int m mod 2 = 0" using True by presburger
        with m show ?thesis by (simp add: nul_cut.simps [of raw start])
      qed
      ultimately show ?thesis using j by (simp add: slice_def nat_mult_distrib)
    next
      case odd: False
      have mod: "int m mod 2 \<noteq> 0" using odd by presburger
      have "nul_cut raw start = nul_cut raw (?nul + 1)"
        using m mod by (simp add: nul_cut.simps [of raw start])
      also have "\<dots> = take (2 * length (takeWhile (\<lambda>u. u \<noteq> 0) ?u)) raw"
      proof (rule "1.IH" [OF refl])
        show "\<not> ?nul < 0" "0 \<le> ?nul + 1" using m by simp_all
        show "?nul mod 2 \<noteq> 0" using m mod by simp
        show "even (length raw)" by (rule "1.prems"(1))
        show "\<forall>k < length raw div 2. int (2 * k) < ?nul + 1 \<longrightarrow> ?u ! k \<noteq> 0"
        proof (intro allI impI)
          fix k assume k: "k < length raw div 2" "int (2 * k) < ?nul + 1"
          then have "2 * k \<le> m" using m by simp
          moreover have "2 * k \<noteq> m" using odd by auto
          ultimately show "?u ! k \<noteq> 0" using first [OF k(1)] by simp
        qed
      qed
      finally show ?thesis .
    qed
  qed
qed

lemma decode_unicode_bytes_eq:
  "decode_unicode_bytes raw =
     (if len raw mod 2 \<noteq> 0 then Inl PstFormatError
      else case utf16_decode (takeWhile (\<lambda>u. u \<noteq> 0) (utf16_units raw)) of
        None \<Rightarrow> Inl PstFormatError | Some text \<Rightarrow> Inr text)"
proof (cases "len raw mod 2 = 0")
  case True
  then have ev: "even (length raw)" by presburger
  have "utf16_units (nul_cut raw 0) = takeWhile (\<lambda>u. u \<noteq> 0) (utf16_units raw)"
    using nul_cut_units [OF ev, of 0] by (simp add: utf16_units_take takeWhile_eq_take [symmetric])
  with True show ?thesis by (simp add: decode_unicode_bytes_def)
next
  case False
  then show ?thesis by (simp add: decode_unicode_bytes_def)
qed

lemma decode_string8_bytes_eq:
  "decode_string8_bytes raw c =
     (case c (takeWhile (\<lambda>b. b \<noteq> 0) raw) of None \<Rightarrow> Inl PstFormatError | Some text \<Rightarrow> Inr text)"
proof -
  let ?f = "bytes_find raw [0] 0"
  have hit: "(take (length [0 :: byte]) (drop j raw) = [0] \<and> j + length [0 :: byte] \<le> length raw) \<longleftrightarrow> raw ! j = 0"
    if "j < length raw" for j
    using that by (auto simp: take_Suc_conv_app_nth)
  have "(if ?f \<ge> 0 then slice raw 0 ?f else raw) = takeWhile (\<lambda>b. b \<noteq> 0) raw"
  proof (cases "?f \<ge> 0")
    case False
    then have "?f < 0" by simp
    have "raw ! j \<noteq> 0" if j: "j < length raw" for j
      using find_from_none [OF \<open>?f < 0\<close> [unfolded bytes_find_def], of j] hit [OF j] j by simp
    then have all: "takeWhile (\<lambda>b. b \<noteq> 0) raw = raw" by (auto simp: takeWhile_eq_all_conv in_set_conv_nth)
    from False show ?thesis by (simp add: all)
  next
    case True
    then obtain m where m: "?f = int m" using nonneg_int_cases by blast
    note found = find_from_Some [OF m [unfolded bytes_find_def]]
    have ml: "m < length raw" using found by simp
    have "raw ! m = 0" using found hit [OF ml] by simp
    moreover have "raw ! j \<noteq> 0" if j: "j < m" for j
      using find_from_first [OF m [unfolded bytes_find_def] _ j] hit [of j] j ml by simp
    ultimately have "length (takeWhile (\<lambda>b. b \<noteq> 0) raw) = m"
      using ml by (intro length_takeWhile_first) auto
    then have tw: "takeWhile (\<lambda>b. b \<noteq> 0) raw = take m raw"
      using takeWhile_eq_take [of "\<lambda>b. b \<noteq> 0" raw] by simp
    show ?thesis unfolding tw m by (simp add: slice_def)
  qed
  then show ?thesis by (simp add: decode_string8_bytes_def Let_def)
qed

section \<open>UTF-16\<close>

definition is_scalar :: "int \<Rightarrow> bool" where
  "is_scalar c \<longleftrightarrow> 0 \<le> c \<and> c < 0xD800 \<or> 0xE000 \<le> c \<and> c < 0x110000"

definition utf16_char :: "int \<Rightarrow> int list" where
  "utf16_char c =
     (if c < 0x10000 then [c] else [0xD800 + (c - 0x10000) div 0x400, 0xDC00 + (c - 0x10000) mod 0x400])"

definition utf16_encode :: "ustring \<Rightarrow> int list" where
  "utf16_encode s = concat (map utf16_char s)"

definition utf16_bytes :: "ustring \<Rightarrow> bytes" where
  "utf16_bytes s = concat (map (le_bytes 2) (utf16_encode s))"

lemma utf16_char_cases:
  assumes "is_scalar c"
  obtains (bmp) "utf16_char c = [c]" "0 \<le> c" "c < 65536" "\<not> is_high_surrogate c" "\<not> is_low_surrogate c"
  | (pair) h l where "utf16_char c = [h, l]" "is_high_surrogate h" "is_low_surrogate l"
      "0x10000 + (h - 0xD800) * 0x400 + (l - 0xDC00) = c"
proof (cases "c < 65536")
  case True
  with assms bmp show ?thesis
    by (auto simp: utf16_char_def is_scalar_def is_high_surrogate_def is_low_surrogate_def)
next
  case False
  let ?h = "0xD800 + (c - 0x10000) div 0x400" and ?l = "0xDC00 + (c - 0x10000) mod 0x400"
  have r: "0 \<le> c - 65536" "c - 65536 < 1048576" using False assms by (auto simp: is_scalar_def)
  have "0 \<le> (c - 65536) div 1024" "(c - 65536) div 1024 < 1024"
    using r by (auto simp: pos_imp_zdiv_nonneg_iff div_less_iff_less_mult)
  moreover have "0 \<le> (c - 65536) mod 1024" "(c - 65536) mod 1024 < 1024" by simp_all
  moreover have "(c - 65536) div 1024 * 1024 + (c - 65536) mod 1024 = c - 65536" by (rule div_mult_mod_eq)
  ultimately show ?thesis
    using False pair [of ?h ?l] by (simp add: utf16_char_def is_high_surrogate_def is_low_surrogate_def)
qed

lemma utf16_decode_encode: "\<forall>c \<in> set s. is_scalar c \<Longrightarrow> utf16_decode (utf16_encode s) = Some s"
proof (induction s)
  case Nil
  show ?case by (simp add: utf16_encode_def)
next
  case (Cons c s)
  then have c: "is_scalar c" and IH: "utf16_decode (utf16_encode s) = Some s" by simp_all
  have enc: "utf16_encode (c # s) = utf16_char c @ utf16_encode s" by (simp add: utf16_encode_def)
  from c show ?case
  proof (cases rule: utf16_char_cases)
    case bmp
    with IH show ?thesis by (simp add: enc)
  next
    case (pair h l)
    with IH show ?thesis by (simp add: enc)
  qed
qed

lemma utf16_encode_units:
  assumes "\<forall>c \<in> set s. is_scalar c \<and> c \<noteq> 0" "u \<in> set (utf16_encode s)"
  shows "0 < u \<and> u < 65536"
proof -
  from assms obtain c where c: "is_scalar c" "c \<noteq> 0" "u \<in> set (utf16_char c)"
    by (auto simp: utf16_encode_def)
  from c(1) show ?thesis
    by (cases rule: utf16_char_cases) (use c in \<open>auto simp: is_high_surrogate_def is_low_surrogate_def\<close>)
qed

lemma utf16_units_bytes:
  "\<forall>u \<in> set us. 0 \<le> u \<and> u < 65536 \<Longrightarrow> utf16_units (concat (map (le_bytes 2) us) @ rest) = us @ utf16_units rest"
proof (induction us)
  case (Cons u us)
  then have u: "0 \<le> u" "u < 65536" by simp_all
  have "uint (word_of_int (u div 256) :: byte) = u div 256"
    using u by (intro uint_byte_small) (simp_all add: pos_imp_zdiv_nonneg_iff div_less_iff_less_mult)
  moreover have "u div 256 mod 256 = u div 256" using u by simp
  moreover have "u mod 256 + 256 * (u div 256) = u" by simp
  ultimately show ?case using Cons by (simp add: numeral_2_eq_2)
qed simp

text \<open>A string of scalar values without NUL reads back, with or without a terminator and what follows it.\<close>

lemma decode_unicode_written:
  assumes "\<forall>c \<in> set s. is_scalar c \<and> c \<noteq> 0" "rest = [] \<or> (\<exists>junk. rest = 0 # 0 # junk \<and> even (length junk))"
  shows "decode_unicode_bytes (utf16_bytes s @ rest) = Inr s"
proof -
  note enc = utf16_encode_units [OF assms(1)]
  have units: "utf16_units (utf16_bytes s @ rest) = utf16_encode s @ utf16_units rest"
    unfolding utf16_bytes_def using enc by (intro utf16_units_bytes) force
  have "takeWhile (\<lambda>u. u \<noteq> 0) (utf16_units (utf16_bytes s @ rest)) = utf16_encode s"
    unfolding units using enc assms(2) by (auto simp: takeWhile_append takeWhile_eq_all_conv)
  moreover have "len (utf16_bytes s @ rest) mod 2 = 0"
  proof -
    have "length (utf16_bytes s) = 2 * length (utf16_encode s)"
      unfolding utf16_bytes_def by (simp add: length_concat comp_def sum_list_triv)
    moreover have "even (length rest)" using assms(2) by auto
    ultimately have "even (len (utf16_bytes s @ rest))" by simp
    then show ?thesis by presburger
  qed
  ultimately show ?thesis using assms(1) utf16_decode_encode by (simp add: decode_unicode_bytes_eq)
qed

text \<open>And only scalar values come out of the decoder.\<close>

lemma utf16_decode_scalar:
  "utf16_decode us = Some s \<Longrightarrow> \<forall>u \<in> set us. 0 < u \<and> u < 65536 \<Longrightarrow> \<forall>c \<in> set s. is_scalar c \<and> c \<noteq> 0"
proof (induction us arbitrary: s rule: utf16_decode.induct)
  case 1
  then show ?case by simp
next
  case (2 u us)
  show ?case
  proof (cases "is_high_surrogate u")
    case True
    with "2.prems"(1) obtain v vs s' where v: "us = v # vs" "is_low_surrogate v" "utf16_decode vs = Some s'"
      and s: "s = (0x10000 + (u - 0xD800) * 0x400 + (v - 0xDC00)) # s'"
      by (auto split: list.splits if_splits)
    have "\<forall>c \<in> set s'. is_scalar c \<and> c \<noteq> 0"
      using "2.IH"(1) [OF True v(1,2,3)] "2.prems"(2) v(1) by simp
    with s True v(2) show ?thesis
      by (auto simp: is_scalar_def is_high_surrogate_def is_low_surrogate_def)
  next
    case False
    with "2.prems"(1) obtain s' where "\<not> is_low_surrogate u" "utf16_decode us = Some s'" "s = u # s'"
      by (auto split: if_splits)
    with "2.IH"(2) [OF False this(1,2)] "2.prems"(2) False show ?thesis
      by (auto simp: is_scalar_def is_high_surrogate_def is_low_surrogate_def)
  qed
qed

lemma decode_unicode_bytes_scalar:
  assumes "decode_unicode_bytes raw = Inr s"
  shows "\<forall>c \<in> set s. is_scalar c \<and> c \<noteq> 0"
proof -
  let ?us = "takeWhile (\<lambda>u. u \<noteq> 0) (utf16_units raw)"
  have "utf16_decode ?us = Some s"
    using assms by (auto simp: decode_unicode_bytes_eq split: if_splits option.splits)
  moreover have "0 < u \<and> u < 65536" if "u \<in> set ?us" for u
  proof -
    have "u \<noteq> 0" "u \<in> set (utf16_units raw)" using that by (auto dest: set_takeWhileD)
    then obtain k where "k < length raw div 2" "u = utf16_units raw ! k"
      by (auto simp: in_set_conv_nth utf16_units_length)
    then have "0 \<le> u" "u < 65536"
      using utf16_units_nth uint_byte_bound [of "raw ! (2 * k)"] uint_byte_bound [of "raw ! Suc (2 * k)"] by simp_all
    with \<open>u \<noteq> 0\<close> show ?thesis by simp
  qed
  ultimately show ?thesis by (intro utf16_decode_scalar) auto
qed

section \<open>The items of a variable-size multi-value\<close>

lemma mv_variable_items_Inr:
  assumes "mv_variable_items data m = Inr items" "items \<noteq> []"
  shows "concat items = drop (4 * (length items + 1)) data" "len items \<le> m"
    "len items = le_int (take 4 data)"
proof -
  let ?c = "le_int (take 4 data)"
  have l4: "4 \<le> len data" using assms by (auto simp: mv_variable_items_def ebind_Inr_iff raise_if_Inr_iff)
  note hdr = unpack_count [OF l4]
  from assms have m: "?c \<le> m" and te: "4 * (?c + 1) \<le> len data" and c0: "?c \<noteq> 0"
    by (auto simp: mv_variable_items_def hdr Let_def ebind_Inr_iff raise_if_Inr_iff mv_check_count_Inr_iff split: if_splits)
  define os where "os = le_fields (replicate (nat ?c) 4) (drop 4 data)"
  have unp: "struct_unpack_from (replicate (nat ?c) 4) data 4 = Inr os"
    using te by (simp add: struct_unpack_from_ok calcsize_def sum_list_replicate os_def)
  have los: "len os = ?c" using hdr(2) by (simp add: os_def)
  have ne: "os \<noteq> []" using los c0 by auto
  from assms have first: "os ! 0 = 4 * (?c + 1)"
    and ems: "emap (mv_item data os ?c) (map int [0..<length os]) = Inr items"
    using c0 m te ne by (auto simp: mv_variable_items_def hdr unp Let_def ebind_Inr_iff raise_if_Inr_iff
        mv_check_count_Inr_iff py_index_ok)
  let ?cut = "\<lambda>i. if i < length os then os ! i else len data"
  have li: "length items = length os" using emap_length [OF ems] by simp
  have item: "items ! i = slice data (?cut i) (?cut (Suc i)) \<and> ?cut i \<le> ?cut (Suc i) \<and> ?cut (Suc i) \<le> len data"
    if i: "i < length os" for i
  proof -
    have nx: "nat (int i + 1) = Suc i" by simp
    have "mv_item data os ?c (int i) = Inr (items ! i)"
      using emap_nth [OF ems, of i] i by simp
    then show ?thesis
      using i los [symmetric] by (cases "Suc i < length os")
        (auto simp: mv_item_def ebind_Inr_iff raise_if_Inr_iff py_index_def Let_def nx split: if_splits)
  qed
  have "concat items = concat (map (\<lambda>i. slice data (?cut i) (?cut (Suc i))) [0..<length os])"
    using item li by (intro arg_cong [of _ _ concat] nth_equalityI) auto
  also have "\<dots> = slice data (?cut 0) (?cut (length os))"
    using item first hdr(2) ne by (intro slice_chain) (auto simp: split: if_splits)
  also have "\<dots> = drop (4 * (length items + 1)) data"
  proof -
    have "?cut 0 = 4 * (?c + 1)" using first ne by simp
    moreover have "?cut (length os) = len data" by simp
    moreover have "nat (4 * (?c + 1)) = 4 * (length items + 1)" using los li by simp
    ultimately show ?thesis by (simp add: slice_def)
  qed
  finally show "concat items = drop (4 * (length items + 1)) data" .
  show "len items \<le> m" "len items = ?c" using m los li by simp_all
qed

lemma mv_items_count:
  assumes "mv_variable_items data m = Inr items"
  shows "len items \<le> m"
proof (cases "items = []")
  case True
  have "4 \<le> len data" using assms by (auto simp: mv_variable_items_def ebind_Inr_iff raise_if_Inr_iff)
  note hdr = unpack_count [OF this]
  have "le_int (take 4 data) \<le> m"
    using assms by (auto simp: mv_variable_items_def hdr Let_def ebind_Inr_iff mv_check_count_Inr_iff)
  with hdr(2) have "0 \<le> m" by (rule order_trans)
  with True show ?thesis by simp
qed (use mv_variable_items_Inr(2) [OF assms] in simp)

definition mv_variable_bytes :: "bytes list \<Rightarrow> bytes" where
  "mv_variable_bytes items =
     (let n = length items in
      struct_pack [4] [int n] @
      struct_pack (replicate n 4) (butlast (item_offsets (4 * (int n + 1)) items)) @ concat items)"

lemma mv_variable_bytes_length:
  "length (mv_variable_bytes items) = 4 * (length items + 1) + length (concat items)"
  using length_struct_pack [of "butlast (item_offsets (4 * (len items + 1)) items)" "replicate (length items) 4"]
  by (simp add: mv_variable_bytes_def Let_def sum_list_replicate)

lemma mv_variable_items_written:
  assumes small: "4 * (len items + 1) + len (concat items) < 256 ^ 4" and m: "len items \<le> m"
  shows "mv_variable_items (mv_variable_bytes items) m = Inr items"
proof -
  let ?n = "length items" and ?t = "4 * (len items + 1)" and ?data = "mv_variable_bytes items"
  let ?os = "butlast (item_offsets ?t items)"
  let ?table = "struct_pack (replicate ?n 4) ?os"
  have lo: "length ?os = ?n" by simp
  have os: "?os ! i = ?t + len (concat (take i items))" if "i < ?n" for i
    using that by (simp add: nth_butlast item_offsets_nth)
  have fits: "fits (replicate ?n 4) ?os"
    using item_offsets_range [of ?t _ items] small
    by (intro fits_replicate) (force dest: in_set_butlastD)+
  have tl: "length ?table = 4 * ?n"
    using length_struct_pack [of ?os "replicate ?n 4"] by (simp add: sum_list_replicate)
  have data: "?data = struct_pack [4] [int ?n] @ ?table @ concat items"
    by (simp add: mv_variable_bytes_def Let_def)
  have len: "len ?data = ?t + len (concat items)" unfolding data using tl by simp
  have f1: "fits [4] [int ?n]" using small by simp
  have hd: "struct_unpack_from [4] ?data 0 = Inr [int ?n]"
    using le_fields_struct_pack [OF f1, of "?table @ concat items"] len
    by (simp add: struct_unpack_from_ok calcsize_def data)
  have tbl: "struct_unpack_from (replicate ?n 4) ?data 4 = Inr ?os"
  proof -
    have "struct_unpack_from (replicate ?n 4) ?data 4 = Inr (le_fields (replicate ?n 4) (drop 4 ?data))"
      using len by (subst struct_unpack_from_ok) (simp_all add: calcsize_def sum_list_replicate)
    also have "drop 4 ?data = ?table @ concat items" by (simp add: data)
    finally show ?thesis using le_fields_struct_pack [OF fits] by simp
  qed
  show ?thesis
  proof (cases "items = []")
    case True
    then show ?thesis using hd tbl len m
      by (simp add: mv_variable_items_def mv_check_count_def)
  next
    case False
    have item: "mv_item ?data ?os (int ?n) (int i) = Inr (items ! i)" if i: "i < ?n" for i
    proof -
      have nx: "nat (int i + 1) = Suc i" by simp
      have stop: "(if int i + 1 < int ?n then py_index ?os (int i + 1) else Inr (len ?data)) =
          Inr (?t + len (concat (take (Suc i) items)))"
      proof (cases "Suc i < ?n")
        case True
        then show ?thesis using os [OF True] lo by (simp add: py_index_ok nx del: length_butlast)
      next
        case False
        then have "take (Suc i) items = items" using i by simp
        with False show ?thesis by (simp add: len)
      qed
      have split: "concat items = concat (take i items) @ items ! i @ concat (drop (Suc i) items)"
        by (rule concat_nth_split [OF i])
      have part: "len (concat (take (Suc i) items)) = len (concat (take i items)) + len (items ! i)"
        using i by (simp add: take_Suc_conv_app_nth)
      have le: "?t + len (concat (take (Suc i) items)) \<le> len ?data"
        unfolding part len by (subst split) simp
      have "slice ?data (?t + len (concat (take i items))) (?t + len (concat (take (Suc i) items))) = items ! i"
      proof -
        let ?pre = "struct_pack [4] [int ?n] @ ?table @ concat (take i items)"
        have "?data = ?pre @ items ! i @ concat (drop (Suc i) items)"
          unfolding data by (subst split) simp
        moreover have "?t + len (concat (take i items)) = len ?pre" using tl by simp
        ultimately show ?thesis unfolding part by (simp add: slice_def)
      qed
      moreover have "py_index ?os (int i) = Inr (?t + len (concat (take i items)))"
        using os [OF i] i lo by (simp add: py_index_ok del: length_butlast)
      ultimately show ?thesis
        unfolding mv_item_def stop using le part by (simp add: raise_if_def)
    qed
    have "emap (mv_item ?data ?os (int ?n)) (map int [0..<length ?os]) = Inr (map (\<lambda>i. items ! i) [0..<?n])"
      unfolding lo emap_map using item by (intro emap_Inr_map) simp
    moreover have "py_index ?os 0 = Inr ?t" using os [of 0] False lo by (simp add: py_index_ok del: length_butlast)
    ultimately show ?thesis using hd tbl len m False
      by (simp add: mv_variable_items_def mv_check_count_def map_nth del: length_butlast)
  qed
qed

section \<open>The type of a value\<close>

text \<open>The type a multi-valued type repeats.\<close>

definition mv_base :: "prop_type \<Rightarrow> prop_type option" where
  "mv_base t =
     (if t = T_MV_GUID then Some T_GUID else if t = T_MV_BINARY then Some T_BINARY
      else if t = T_MV_UNICODE then Some T_UNICODE else if t = T_MV_STRING8 then Some T_STRING8
      else MV_FIXED_BASE t)"

inductive value_typed :: "prop_type \<Rightarrow> prop_value \<Rightarrow> bool" where
  typed_null: "value_typed T_NULL VNull"
| typed_short: "- (2 ^ 15) \<le> i \<Longrightarrow> i < 2 ^ 15 \<Longrightarrow> value_typed T_SHORT (VInt i)"
| typed_long: "t = T_LONG \<or> t = T_ERROR \<Longrightarrow> - (2 ^ 31) \<le> i \<Longrightarrow> i < 2 ^ 31 \<Longrightarrow> value_typed t (VInt i)"
| typed_longlong: "t = T_LONGLONG \<or> t = T_CURRENCY \<Longrightarrow> - (2 ^ 63) \<le> i \<Longrightarrow> i < 2 ^ 63 \<Longrightarrow> value_typed t (VInt i)"
| typed_float: "0 \<le> b \<Longrightarrow> b < 2 ^ 32 \<Longrightarrow> value_typed T_FLOAT (VFloat32 b)"
| typed_double: "t = T_DOUBLE \<or> t = T_APPTIME \<Longrightarrow> 0 \<le> b \<Longrightarrow> b < 2 ^ 64 \<Longrightarrow> value_typed t (VFloat64 b)"
| typed_boolean: "value_typed T_BOOLEAN (VBool b)"
| typed_systime: "0 \<le> us \<Longrightarrow> us \<le> dt_micros DATETIME_MAX \<Longrightarrow> value_typed T_SYSTIME (VTime us)"
| typed_guid: "0 \<le> g \<Longrightarrow> g < 2 ^ 128 \<Longrightarrow> value_typed T_GUID (VGuid g)"
| typed_object: "node_id_ok (obj_node r) \<Longrightarrow> 0 \<le> obj_size r \<Longrightarrow> obj_size r < 2 ^ 32 \<Longrightarrow> value_typed T_OBJECT (VObject r)"
| typed_binary: "value_typed T_BINARY (VBytes b)"
| typed_unicode: "\<forall>c \<in> set s. is_scalar c \<and> c \<noteq> 0 \<Longrightarrow> value_typed T_UNICODE (VStr s)"
| typed_string8: "value_typed T_STRING8 (VStr s)"
| typed_mv: "mv_base t = Some b \<Longrightarrow> \<forall>v \<in> set vs. value_typed b v \<Longrightarrow> value_typed t (VTuple vs)"

inductive_cases typed_tupleE: "value_typed t (VTuple vs)"

inductive_simps typed_simps:
  "value_typed T_NULL v" "value_typed T_BOOLEAN v" "value_typed T_BINARY v" "value_typed T_UNICODE v"

lemma DATETIME_MAX_micros: "dt_micros DATETIME_MAX = 265046774399999999"
  by (simp add: DATETIME_MAX_def days_before_year_def time_consts)

lemma le_sint_range:
  "length data = 2 \<Longrightarrow> - 32768 \<le> le_sint data" "length data = 2 \<Longrightarrow> le_sint data < 32768"
  "length data = 4 \<Longrightarrow> - 2147483648 \<le> le_sint data" "length data = 4 \<Longrightarrow> le_sint data < 2147483648"
  "length data = 8 \<Longrightarrow> - 9223372036854775808 \<le> le_sint data"
  "length data = 8 \<Longrightarrow> le_sint data < 9223372036854775808"
  using le_sint_bounds [of data] by simp_all

lemma le_int_range:
  "length data = 4 \<Longrightarrow> le_int data < 4294967296"
  "length data = 8 \<Longrightarrow> le_int data < 18446744073709551616"
  "length data = 16 \<Longrightarrow> le_int data < 340282366920938463463374607431768211456"
  using le_int_bound [of data] by simp_all

lemma decode_scalar_Inr:
  "decode_scalar f data = Inr v \<longleftrightarrow> length data = nat (scalar_calcsize f) \<and> v = unpack_scalar f data"
  by (cases f) (auto simp: decode_scalar_def ebind_Inr_iff exact_size_Inr_iff)

lemma decode_guid_typed: "decode_guid data = Inr v \<Longrightarrow> value_typed T_GUID v"
proof -
  assume "decode_guid data = Inr v"
  then have l: "len data = 16" and v: "v = VGuid (uuid_of_bytes_le data)"
    by (auto simp: decode_guid_def ebind_Inr_iff exact_size_Inr_iff)
  let ?b = "rev (rev (slice data 0 4) @ rev (slice data 4 6) @ rev (slice data 6 8) @ slice data 8 16)"
  have "length ?b = 16" using l by (simp add: slice_def)
  from le_int_range(3) [OF this] show ?thesis
    unfolding v uuid_of_bytes_le_def by (intro typed_guid) auto
qed

lemma decode_object_typed: "decode_object data = Inr v \<Longrightarrow> value_typed T_OBJECT v"
proof -
  assume a: "decode_object data = Inr v"
  then have l: "len data = 8" by (auto simp: decode_object_def ebind_Inr_iff exact_size_Inr_iff)
  have "struct_unpack_from [4, 4] data 0 = Inr (le_fields [4, 4] data)"
    using l by (simp add: struct_unpack_from_ok calcsize_def)
  with a l obtain node where node: "mk_NodeId (le_int (take 4 data)) = Inr node"
    and v: "v = VObject \<lparr>obj_node = node, obj_size = le_int (take 4 (drop 4 data))\<rparr>"
    by (auto simp: decode_object_def ebind_Inr_iff exact_size_def)
  have "node_id_ok node" using node by (auto simp: mk_NodeId_Inr_iff node_id_ok_def)
  moreover have "le_int (take 4 (drop 4 data)) < 4294967296"
    using l by (intro le_int_range(1)) simp
  ultimately show ?thesis unfolding v by (intro typed_object) auto
qed

lemma DECODERS_typed:
  assumes "DECODERS t = Some d" "d data = Inr v"
  shows "value_typed t v"
  using assms
proof (cases t)
  case T_SYSTIME
  with assms show ?thesis
    by (auto simp: decode_systime_eq ebind_Inr_iff filetime_to_datetime_Inr_iff FILETIME_MAX_eq
        DATETIME_MAX_micros intro!: typed_systime)
next
  case T_UNICODE
  with assms show ?thesis
    by (auto simp: decode_unicode_def ebind_Inr_iff dest: decode_unicode_bytes_scalar intro!: typed_unicode)
next
  case T_BOOLEAN
  with assms show ?thesis
    by (auto simp: decode_boolean_eq intro: typed_boolean split: list.splits if_splits)
next
  case T_GUID
  with assms show ?thesis by (auto intro: decode_guid_typed)
next
  case T_OBJECT
  with assms show ?thesis by (auto intro: decode_object_typed)
next
  case T_LONGLONG
  with assms show ?thesis by (auto simp: decode_scalar_Inr le_sint_range intro!: typed_longlong)
next
  case T_CURRENCY
  with assms show ?thesis by (auto simp: decode_scalar_Inr le_sint_range intro!: typed_longlong)
next
  case T_DOUBLE
  with assms show ?thesis by (auto simp: decode_scalar_Inr le_int_range intro!: typed_double)
next
  case T_APPTIME
  with assms show ?thesis by (auto simp: decode_scalar_Inr le_int_range intro!: typed_double)
qed (auto simp: decode_null_def decode_binary_def decode_scalar_Inr ebind_Inr_iff
      le_sint_range le_int_range intro: typed_null typed_binary intro!: typed_short typed_long typed_float)

lemma emap_typed:
  assumes "emap f xs = Inr vs" "\<And>x v. f x = Inr v \<Longrightarrow> value_typed b v"
  shows "\<forall>v \<in> set vs. value_typed b v"
  using emap_set [OF assms(1)] assms(2) by blast

text \<open>What \<open>decode\<close> returns has the type asked for, and a multi-value stays within the item limit.\<close>

theorem decode_typed:
  assumes "decode t data cp m = Inr v"
  shows "value_typed t v \<and> (\<forall>vs. v = VTuple vs \<longrightarrow> len vs \<le> m)"
proof -
  consider (s8) "t = T_STRING8" | (mvs8) "t = T_MV_STRING8" | (mvu) "t = T_MV_UNICODE" | (mvb) "t = T_MV_BINARY"
    | (mvg) "t = T_MV_GUID" | (mvf) b where "MV_FIXED_BASE t = Some b" "t \<notin> {T_STRING8, T_MV_STRING8, T_MV_UNICODE, T_MV_BINARY, T_MV_GUID}"
    | (single) "MV_FIXED_BASE t = None" "t \<notin> {T_STRING8, T_MV_STRING8, T_MV_UNICODE, T_MV_BINARY, T_MV_GUID}"
    by (cases "MV_FIXED_BASE t") auto
  then show ?thesis
  proof cases
    case s8
    with assms show ?thesis by (auto simp: decode_def decode_string8_def ebind_Inr_iff intro: typed_string8)
  next
    case mvs8
    with assms obtain items vs dec where i: "mv_variable_items data m = Inr items" and v: "v = VTuple vs"
      and vs: "emap (\<lambda>item. ebind (decode_string8_bytes item dec) (\<lambda>t. Inr (VStr t))) items = Inr vs"
      by (auto simp: decode_def decode_mv_string8_def ebind_Inr_iff)
    have "\<forall>v \<in> set vs. value_typed T_STRING8 v"
      by (rule emap_typed [OF vs]) (auto simp: ebind_Inr_iff intro: typed_string8)
    moreover have "len vs \<le> m"
      using emap_length [OF vs] mv_items_count [OF i] by simp
    ultimately show ?thesis using v mvs8 by (auto simp: mv_base_def intro!: typed_mv)
  next
    case mvu
    with assms obtain items vs where i: "mv_variable_items data m = Inr items" and v: "v = VTuple vs"
      and vs: "emap (\<lambda>item. ebind (decode_unicode_bytes item) (\<lambda>t. Inr (VStr t))) items = Inr vs"
      by (auto simp: decode_def decode_mv_unicode_def ebind_Inr_iff)
    have "\<forall>v \<in> set vs. value_typed T_UNICODE v"
      by (rule emap_typed [OF vs]) (auto simp: ebind_Inr_iff dest: decode_unicode_bytes_scalar intro!: typed_unicode)
    moreover have "len vs \<le> m"
      using emap_length [OF vs] mv_items_count [OF i] by simp
    ultimately show ?thesis using v mvu by (auto simp: mv_base_def intro!: typed_mv)
  next
    case mvb
    with assms obtain items where i: "mv_variable_items data m = Inr items" and v: "v = VTuple (map VBytes items)"
      by (auto simp: decode_def decode_mv_binary_def ebind_Inr_iff)
    then show ?thesis using mvb mv_items_count [OF i] by (auto simp: mv_base_def intro!: typed_mv typed_binary)
  next
    case mvg
    with assms obtain cnt vs where c: "cnt \<le> m" "len data = 4 + 16 * cnt" and v: "v = VTuple vs"
      and vs: "emap (\<lambda>i. decode_guid (slice data i (i + 16))) (map (\<lambda>i. 4 + i) (range_by (len data - 4) 16)) = Inr vs"
      by (auto simp: decode_def decode_mv_guid_def ebind_Inr_iff Let_def mv_check_count_Inr_iff exact_size_Inr_iff)
    have "\<forall>v \<in> set vs. value_typed T_GUID v"
      by (rule emap_typed [OF vs]) (auto intro: decode_guid_typed)
    moreover have "len vs \<le> m"
    proof -
      have "0 \<le> cnt"
      proof (rule ccontr)
        assume "\<not> 0 \<le> cnt"
        then have "4 + 16 * cnt < 0" by simp
        then show False using c(2) by (metis of_nat_less_0_iff)
      qed
      then have "range_by (len data - 4) 16 = map (\<lambda>i. int i * 16) [0..<nat cnt]"
        using c(2) range_by_multiple [of 16 "nat cnt"] by (simp add: mult.commute)
      then have "length vs = nat cnt" using emap_length [OF vs] by simp
      with c(1) \<open>0 \<le> cnt\<close> show ?thesis by simp
    qed
    ultimately show ?thesis using v mvg by (auto simp: mv_base_def intro!: typed_mv)
  next
    case (mvf b)
    obtain n d where n: "FIXED_SIZES b = Some n" "0 < n" and d: "DECODERS b = Some d"
      using MV_FIXED_BASE_facts [OF mvf(1)] by blast
    from assms mvf n d obtain vs where c: "len data div n \<le> m" "len data mod n = 0" and v: "v = VTuple vs"
      and vs: "emap (\<lambda>i. d (slice data i (i + n))) (range_by (len data) n) = Inr vs"
      by (auto simp: decode_def decode_mv_fixed_def fixed_size_def ebind_Inr_iff raise_if_Inr_iff
          mv_check_count_Inr_iff py_mod_def py_floordiv_def)
    have "\<forall>v \<in> set vs. value_typed b v"
      by (rule emap_typed [OF vs]) (auto intro: DECODERS_typed [OF d])
    moreover have "len vs \<le> m"
    proof -
      let ?k = "nat (len data div n)"
      have "0 \<le> len data div n" using n(2) by (simp add: pos_imp_zdiv_nonneg_iff)
      moreover have "len data = (len data div n) * n" using c(2) by (simp add: minus_mod_eq_div_mult [symmetric])
      ultimately have "len data = int ?k * n" by simp
      from range_by_multiple [OF n(2), of ?k] this have "length (range_by (len data) n) = ?k" by simp
      with emap_length [OF vs] have "length vs = ?k" by simp
      with c(1) \<open>0 \<le> len data div n\<close> show ?thesis by simp
    qed
    moreover have "mv_base t = Some b" using mvf by (auto simp: mv_base_def)
    ultimately show ?thesis using v by (auto intro: typed_mv)
  next
    case single
    with assms obtain d where d: "DECODERS t = Some d" "d data = Inr v"
      by (auto simp: decode_def split: option.splits)
    have "v \<noteq> VTuple vs" for vs
    proof
      assume "v = VTuple vs"
      then have "value_typed t (VTuple vs)" using DECODERS_typed [OF d] by simp
      then have "mv_base t \<noteq> None" by (rule typed_tupleE) auto
      with single show False by (auto simp: mv_base_def split: if_splits)
    qed
    with DECODERS_typed [OF d] show ?thesis by blast
  qed
qed

section \<open>Writing values\<close>

definition uuid_bytes_le :: "int \<Rightarrow> bytes" where
  "uuid_bytes_le g =
     (let b = rev (le_bytes 16 g) in
      rev (slice b 0 4) @ rev (slice b 4 6) @ rev (slice b 6 8) @ slice b 8 16)"

fun encode_single :: "prop_type \<Rightarrow> prop_value \<Rightarrow> bytes" where
  "encode_single t (VInt i) =
     (let n = nat (case FIXED_SIZES t of None \<Rightarrow> 0 | Some k \<Rightarrow> k) in le_bytes n (i mod 256 ^ n))"
| "encode_single t (VFloat32 b) = le_bytes 4 b"
| "encode_single t (VFloat64 b) = le_bytes 8 b"
| "encode_single t (VBool b) = [if b then 1 else 0]"
| "encode_single t (VBytes b) = b"
| "encode_single t (VStr s) = utf16_bytes s"
| "encode_single t (VTime us) = le_bytes 8 (10 * us)"
| "encode_single t (VGuid g) = uuid_bytes_le g"
| "encode_single t (VObject r) = struct_pack [4, 4] [nid_raw (obj_node r), obj_size r]"
| "encode_single t VNull = []"
| "encode_single t (VTuple vs) = []"

definition encode_value :: "prop_type \<Rightarrow> prop_value \<Rightarrow> bytes" where
  "encode_value t v =
     (case v of
        VTuple vs \<Rightarrow>
          (case MV_FIXED_BASE t of
             Some b \<Rightarrow> concat (map (encode_single b) vs)
           | None \<Rightarrow>
               if t = T_MV_GUID then struct_pack [4] [len vs] @ concat (map (encode_single T_GUID) vs)
               else mv_variable_bytes (map (encode_single (if t = T_MV_BINARY then T_BINARY else T_UNICODE)) vs))
      | _ \<Rightarrow> encode_single t v)"

lemma uuid_bytes_le_length [simp]: "length (uuid_bytes_le g) = 16"
  by (simp add: uuid_bytes_le_def Let_def slice_def)

lemma uuid_roundtrip: "0 \<le> g \<Longrightarrow> g < 2 ^ 128 \<Longrightarrow> uuid_of_bytes_le (uuid_bytes_le g) = g"
proof -
  assume g: "0 \<le> g" "g < 2 ^ 128"
  let ?b = "rev (le_bytes 16 g)"
  have parts: "slice ?b 0 4 @ slice ?b 4 6 @ slice ?b 6 8 @ slice ?b 8 16 = ?b"
    by (simp add: slice_join) (simp add: slice_def)
  let ?p = "rev (slice ?b 0 4)" and ?q = "rev (slice ?b 4 6)" and ?r = "rev (slice ?b 6 8)" and ?s = "slice ?b 8 16"
  have l: "length ?p = 4" "length ?q = 2" "length ?r = 2" "length ?s = 8" by (simp_all add: slice_def)
  have "slice (?p @ ?q @ ?r @ ?s) 0 4 = ?p" "slice (?p @ ?q @ ?r @ ?s) 4 6 = ?q"
    "slice (?p @ ?q @ ?r @ ?s) 6 8 = ?r" "slice (?p @ ?q @ ?r @ ?s) 8 16 = ?s"
    using l by (simp_all add: slice_def [of "_ @ _"])
  then have "uuid_of_bytes_le (uuid_bytes_le g) = le_int (rev ?b)"
    unfolding uuid_of_bytes_le_def uuid_bytes_le_def Let_def using parts by simp
  with g show ?thesis by (simp add: le_int_le_bytes)
qed

lemma sint_written:
  "- (256 ^ n) \<le> 2 * i \<Longrightarrow> 2 * i < 256 ^ n \<Longrightarrow> scalar_calcsize f = int n \<Longrightarrow> f \<in> {Fmt_h, Fmt_i, Fmt_q} \<Longrightarrow>
   decode_scalar f (le_bytes n (i mod 256 ^ n)) = Inr (VInt i)"
proof -
  assume *: "- (256 ^ n) \<le> 2 * i" "2 * i < 256 ^ n" "scalar_calcsize f = int n" "f \<in> {Fmt_h, Fmt_i, Fmt_q}"
  have "unpack_scalar f (le_bytes n (i mod 256 ^ n)) = VInt (le_sint (le_bytes n (i mod 256 ^ n)))"
    using *(4) by auto
  also have "le_sint (le_bytes n (i mod 256 ^ n)) = i" using *(1,2) by (rule le_sint_le_bytes)
  finally show ?thesis using *(3) by (simp add: decode_scalar_Inr)
qed

lemma decode_object_written:
  assumes "node_id_ok (obj_node r)" "0 \<le> obj_size r" "obj_size r < 2 ^ 32"
  shows "decode_object (struct_pack [4, 4] [nid_raw (obj_node r), obj_size r]) = Inr (VObject r)"
proof -
  let ?fs = "[nid_raw (obj_node r), obj_size r]"
  have f: "fits [4, 4] ?fs" using assms by (simp add: node_id_ok_def U32_def)
  have "struct_unpack_from [4, 4] (struct_pack [4, 4] ?fs) 0 = Inr ?fs"
    using le_fields_struct_pack [OF f, of "[]"]
    by (simp add: struct_unpack_from_ok calcsize_def del: struct_pack.simps) (simp add: struct_unpack_from_ok calcsize_def)
  moreover have "mk_NodeId (nid_raw (obj_node r)) = Inr (obj_node r)"
    using assms(1) by (cases "obj_node r") (simp add: mk_NodeId_Inr_iff node_id_ok_def)
  moreover have "len (struct_pack [4, 4] ?fs) = 8" by simp
  ultimately show ?thesis
    by (simp add: decode_object_def exact_size_def del: struct_pack.simps)
qed

lemma encode_single_decodes:
  assumes "value_typed t v" "mv_base t = None" "t \<noteq> T_STRING8"
  shows "\<exists>d. DECODERS t = Some d \<and> d (encode_single t v) = Inr v"
  using assms
proof (cases rule: value_typed.cases)
  case (typed_short i)
  then show ?thesis using sint_written [of 2 i Fmt_h] by (simp add: FIXED_SIZES_def)
next
  case (typed_long i)
  then show ?thesis using sint_written [of 4 i Fmt_i] by (auto simp: FIXED_SIZES_def)
next
  case (typed_longlong i)
  then show ?thesis using sint_written [of 8 i Fmt_q] by (auto simp: FIXED_SIZES_def)
next
  case (typed_float b)
  then show ?thesis by (simp add: decode_scalar_Inr le_int_le_bytes)
next
  case (typed_double b)
  then show ?thesis by (auto simp: decode_scalar_Inr le_int_le_bytes)
next
  case (typed_boolean b)
  then show ?thesis by (simp add: decode_boolean_eq)
next
  case (typed_systime us)
  have "le_sint (le_bytes 8 (10 * us)) = 10 * us"
    using typed_systime le_sint_le_bytes [of 8 "10 * us"] by (simp add: DATETIME_MAX_micros)
  then show ?thesis using typed_systime
    by (auto simp: decode_systime_eq exact_size_def filetime_to_datetime_def FILETIME_MAX_eq DATETIME_MAX_micros
        py_floordiv_def time_consts)
next
  case (typed_guid g)
  then show ?thesis by (simp add: decode_guid_def exact_size_def uuid_roundtrip)
next
  case (typed_object r)
  then show ?thesis using decode_object_written [of r] by simp
next
  case (typed_unicode s)
  then show ?thesis using decode_unicode_written [of s "[]"] by (simp add: decode_unicode_def)
qed (auto simp: decode_null_def decode_binary_def exact_size_def)

lemma encode_single_length:
  assumes "value_typed b v" "FIXED_SIZES b = Some n" "mv_base b = None"
  shows "len (encode_single b v) = n"
  using assms
  by (cases rule: value_typed.cases) (auto simp: FIXED_SIZES_def)

lemma mv_fixed_written:
  assumes b: "MV_FIXED_BASE t = Some b" and vs: "\<forall>v \<in> set vs. value_typed b v" and m: "len vs \<le> m"
  shows "decode_mv_fixed b (concat (map (encode_single b) vs)) m = Inr (VTuple vs)"
proof -
  obtain n d where n: "FIXED_SIZES b = Some n" "0 < n" and d: "DECODERS b = Some d"
    using MV_FIXED_BASE_facts [OF b] by blast
  have base: "mv_base b = None" "b \<noteq> T_STRING8" using b by (cases t; auto simp: mv_base_def)+
  let ?xs = "map (encode_single b) vs" and ?data = "concat (map (encode_single b) vs)"
  have xs: "\<forall>x \<in> set ?xs. len x = n" using vs encode_single_length [OF _ n(1) base(1)] by auto
  have len: "len ?data = int (length vs) * n" using length_concat_const [OF xs] by simp
  have item: "d (slice ?data (int i * n) (int i * n + n)) = Inr (vs ! i)" if i: "i < length vs" for i
  proof -
    have "len (?xs ! i) = n" using xs i by (auto simp: all_set_conv_all_nth)
    then have "slice (?xs ! i) 0 n = ?xs ! i" using slice_full [of "?xs ! i"] by simp
    then have "slice ?data (int i * n) (int i * n + n) = encode_single b (vs ! i)"
      using slice_concat [OF xs, of i 0 n] i n(2) by simp
    with encode_single_decodes [OF _ base, of "vs ! i"] vs i d show ?thesis by auto
  qed
  have "emap (\<lambda>i. d (slice ?data i (i + n))) (range_by (len ?data) n) = Inr (map (\<lambda>i. vs ! i) [0..<length vs])"
    unfolding len range_by_multiple [OF n(2)] emap_map using item by (intro emap_Inr_map) auto
  with n d m len show ?thesis
    by (simp add: decode_mv_fixed_def fixed_size_def py_mod_def py_floordiv_def mv_check_count_def map_nth)
qed

lemma mv_guid_written:
  assumes vs: "\<forall>v \<in> set vs. value_typed T_GUID v" and m: "len vs \<le> m" "len vs < 2 ^ 32"
  shows "decode_mv_guid (struct_pack [4] [len vs] @ concat (map (encode_single T_GUID) vs)) m = Inr (VTuple vs)"
proof -
  let ?xs = "map (encode_single T_GUID) vs"
  let ?data = "struct_pack [4] [len vs] @ concat ?xs"
  have n: "FIXED_SIZES T_GUID = Some 16" and base: "mv_base T_GUID = None"
    by (simp_all add: FIXED_SIZES_def mv_base_def)
  have xs: "\<forall>x \<in> set ?xs. len x = 16" using vs encode_single_length [OF _ n base] by auto
  have clen: "len (concat ?xs) = int (length vs) * 16" using length_concat_const [OF xs] by simp
  have dlen: "len ?data = 4 + 16 * len vs" using clen by simp
  have f: "fits [4] [len vs]" using m(2) by simp
  have hd: "struct_unpack_from [4] ?data 0 = Inr [len vs]"
    using le_fields_struct_pack [OF f, of "concat ?xs"] dlen
    by (simp add: struct_unpack_from_ok calcsize_def del: struct_pack.simps)
  have item: "decode_guid (slice ?data (4 + int i * 16) (4 + int i * 16 + 16)) = Inr (vs ! i)" if i: "i < length vs" for i
  proof -
    have "len (?xs ! i) = 16" using xs i by (auto simp: all_set_conv_all_nth)
    then have "slice (?xs ! i) 0 16 = ?xs ! i" using slice_full [of "?xs ! i"] by simp
    then have "slice (concat ?xs) (int i * 16) (int i * 16 + 16) = encode_single T_GUID (vs ! i)"
      using slice_concat [OF xs, of i 0 16] i by simp
    moreover have "slice ?data (4 + int i * 16) (4 + int i * 16 + 16) = slice (concat ?xs) (int i * 16) (int i * 16 + 16)"
      by (simp add: slice_def nat_add_distrib nat_mult_distrib)
    moreover have "decode_guid (encode_single T_GUID (vs ! i)) = Inr (vs ! i)"
      using encode_single_decodes [OF _ base, of "vs ! i"] vs i by auto
    ultimately show ?thesis by simp
  qed
  have "map (\<lambda>i. 4 + i) (range_by (len ?data - 4) 16) = map (\<lambda>i. 4 + int i * 16) [0..<length vs]"
    unfolding dlen using range_by_multiple [of 16 "length vs"] by (simp add: mult.commute)
  then have "emap (\<lambda>i. decode_guid (slice ?data i (i + 16))) (map (\<lambda>i. 4 + i) (range_by (len ?data - 4) 16)) =
      Inr (map (\<lambda>i. vs ! i) [0..<length vs])"
    unfolding \<open>map _ _ = _\<close> emap_map using item by (intro emap_Inr_map) auto
  with hd dlen m show ?thesis
    by (simp add: decode_mv_guid_def mv_check_count_def exact_size_def map_nth del: struct_pack.simps)
qed

theorem decode_encode_value:
  assumes typed: "value_typed t v" and t: "t \<notin> {T_STRING8, T_MV_STRING8}"
    and m: "\<forall>vs. v = VTuple vs \<longrightarrow> len vs \<le> m" and small: "len (encode_value t v) < 2 ^ 32"
  shows "decode t (encode_value t v) cp m = Inr v"
proof (cases "\<exists>vs. v = VTuple vs")
  case False
  then have single: "encode_value t v = encode_single t v" by (auto simp: encode_value_def split: prop_value.split)
  have "mv_base t = None" using typed False by (cases rule: value_typed.cases) (auto simp: mv_base_def)
  with encode_single_decodes [OF typed this] t single show ?thesis
    by (auto simp: decode_def mv_base_def split: if_splits)
next
  case True
  then obtain vs where v: "v = VTuple vs" by blast
  with m have mm: "len vs \<le> m" by blast
  from typed [unfolded v] obtain b where b: "mv_base t = Some b" "\<forall>v \<in> set vs. value_typed b v"
    by (rule typed_tupleE)
  consider (fixed) "MV_FIXED_BASE t = Some b" | (guid) "t = T_MV_GUID" "b = T_GUID"
    | (bin) "t = T_MV_BINARY" "b = T_BINARY" | (uni) "t = T_MV_UNICODE" "b = T_UNICODE"
    using b(1) t by (auto simp: mv_base_def split: if_splits)
  then show ?thesis
  proof cases
    case fixed
    then have "t \<notin> {T_MV_UNICODE, T_MV_BINARY, T_MV_GUID}" by auto
    with fixed t mv_fixed_written [OF fixed b(2) mm] show ?thesis
      by (simp add: decode_def encode_value_def v)
  next
    case guid
    have l: "\<forall>x \<in> set (map (encode_single T_GUID) vs). len x = 16"
      using b(2) guid encode_single_length [of T_GUID _ 16] by (auto simp: FIXED_SIZES_def mv_base_def)
    have "len vs < 2 ^ 32"
      using small guid v length_concat_const [OF l] by (simp add: encode_value_def)
    with mv_guid_written [of vs m] b(2) guid mm show ?thesis
      by (simp add: decode_def encode_value_def v del: struct_pack.simps)
  next
    case bin
    let ?items = "map (encode_single T_BINARY) vs"
    have "length (mv_variable_bytes ?items) = 4 * (length ?items + 1) + length (concat ?items)"
      by (rule mv_variable_bytes_length)
    then have "mv_variable_items (mv_variable_bytes ?items) m = Inr ?items"
      using small mm bin v by (intro mv_variable_items_written) (simp_all add: encode_value_def)
    moreover have "map VBytes ?items = vs"
      using b(2) bin by (force simp: typed_simps mv_base_def intro!: map_idI)
    ultimately show ?thesis using bin v by (simp add: decode_def decode_mv_binary_def encode_value_def)
  next
    case uni
    let ?items = "map (encode_single T_UNICODE) vs"
    have "length (mv_variable_bytes ?items) = 4 * (length ?items + 1) + length (concat ?items)"
      by (rule mv_variable_bytes_length)
    then have "mv_variable_items (mv_variable_bytes ?items) m = Inr ?items"
      using small mm uni v by (intro mv_variable_items_written) (simp_all add: encode_value_def)
    moreover have "emap (\<lambda>item. ebind (decode_unicode_bytes item) (\<lambda>t. Inr (VStr t))) ?items = Inr vs"
    proof -
      have "ebind (decode_unicode_bytes (encode_single T_UNICODE x)) (\<lambda>t. Inr (VStr t)) = Inr x" if "x \<in> set vs" for x
      proof -
        have "value_typed T_UNICODE x" using b(2) uni that by blast
        then obtain s where "x = VStr s" "\<forall>c \<in> set s. is_scalar c \<and> c \<noteq> 0"
          by (auto simp: typed_simps mv_base_def)
        with decode_unicode_written [of s "[]"] show ?thesis by simp
      qed
      then show ?thesis unfolding emap_map by (subst emap_Inr_map [of _ _ "\<lambda>x. x"]) auto
    qed
    ultimately show ?thesis using uni v by (simp add: decode_def decode_mv_unicode_def encode_value_def)
  qed
qed

section \<open>Code-page strings\<close>

text \<open>Written with an encoder of the code page; the other types as above.\<close>

definition codepage_bytes :: "(ustring \<Rightarrow> bytes) \<Rightarrow> prop_value \<Rightarrow> bytes" where
  "codepage_bytes enc v = (case v of VStr s \<Rightarrow> enc s | _ \<Rightarrow> [])"

definition encode_in :: "(ustring \<Rightarrow> bytes) \<Rightarrow> prop_type \<Rightarrow> prop_value \<Rightarrow> bytes" where
  "encode_in enc t v =
     (if t = T_STRING8 then codepage_bytes enc v
      else if t = T_MV_STRING8 then (case v of VTuple vs \<Rightarrow> mv_variable_bytes (map (codepage_bytes enc) vs) | _ \<Rightarrow> [])
      else encode_value t v)"

definition strings_of :: "prop_value \<Rightarrow> ustring list" where
  "strings_of v =
     (case v of VStr s \<Rightarrow> [s] | VTuple vs \<Rightarrow> concat (map (\<lambda>x. case x of VStr s \<Rightarrow> [s] | _ \<Rightarrow> []) vs) | _ \<Rightarrow> [])"

text \<open>The code page has the strings of the value: its codec is known and gives back what the encoder writes, which has no NUL.\<close>

definition spells :: "codepage \<Rightarrow> (ustring \<Rightarrow> bytes) \<Rightarrow> prop_type \<Rightarrow> prop_value \<Rightarrow> bool" where
  "spells cp enc t v \<longleftrightarrow> t \<noteq> T_STRING8 \<and> t \<noteq> T_MV_STRING8 \<or>
     (case cp of None \<Rightarrow> False | Some dec \<Rightarrow> list_all (\<lambda>s. 0 \<notin> set (enc s) \<and> dec (enc s) = Some s) (strings_of v))"

lemma decode_string8_written:
  assumes s: "0 \<notin> set (enc s)" "dec (enc s) = Some s"
  shows "decode_string8_bytes (enc s) dec = Inr s"
proof -
  have "takeWhile (\<lambda>b. b \<noteq> 0) (enc s) = enc s" unfolding takeWhile_eq_all_conv using s(1) by metis
  then show ?thesis by (simp only: decode_string8_bytes_eq s(2) option.case)
qed

lemma typed_string8_cases: "value_typed T_STRING8 v \<Longrightarrow> \<exists>s. v = VStr s"
  by (cases rule: value_typed.cases) (auto simp: mv_base_def)

lemma decode_encode_in:
  assumes "value_typed t v" "spells cp enc t v" "\<forall>vs. v = VTuple vs \<longrightarrow> len vs \<le> m" "len (encode_in enc t v) < 2 ^ 32"
  shows "decode t (encode_in enc t v) cp m = Inr v"
proof -
  consider (single) "t = T_STRING8" | (many) "t = T_MV_STRING8" | (other) "t \<noteq> T_STRING8" "t \<noteq> T_MV_STRING8" by blast
  then show ?thesis
  proof cases
    case single
    with assms(1) typed_string8_cases obtain s where v: "v = VStr s" by blast
    with assms(2) single obtain dec where "cp = Some dec" "0 \<notin> set (enc s)" "dec (enc s) = Some s"
      by (auto simp: spells_def strings_of_def split: option.splits)
    with single v decode_string8_written [of enc s dec] show ?thesis
      by (simp add: decode_def decode_string8_def lookup_codepage_def encode_in_def codepage_bytes_def)
  next
    case many
    with assms(1) obtain vs where v: "v = VTuple vs" "\<forall>x \<in> set vs. value_typed T_STRING8 x"
      by (cases rule: value_typed.cases) (auto simp: mv_base_def)
    let ?items = "map (codepage_bytes enc) vs"
    obtain dec where cp: "cp = Some dec"
      and "list_all (\<lambda>s. 0 \<notin> set (enc s) \<and> dec (enc s) = Some s) (strings_of v)"
      using assms(2) many by (auto simp: spells_def split: option.splits)
    then have ok: "0 \<notin> set (enc s) \<and> dec (enc s) = Some s" if "VStr s \<in> set vs" for s
      using that by (force simp: strings_of_def v(1) list_all_iff)
    have "length (mv_variable_bytes ?items) = 4 * (length ?items + 1) + length (concat ?items)"
      by (rule mv_variable_bytes_length)
    then have items: "mv_variable_items (mv_variable_bytes ?items) m = Inr ?items"
      using assms(3,4) many v(1) by (intro mv_variable_items_written) (simp_all add: encode_in_def)
    have "ebind (decode_string8_bytes (codepage_bytes enc x) dec) (\<lambda>t. Inr (VStr t)) = Inr x" if "x \<in> set vs" for x
      using that v(2) typed_string8_cases [of x] ok decode_string8_written [of enc _ dec] by (fastforce simp: codepage_bytes_def)
    then have "emap (\<lambda>item. ebind (decode_string8_bytes item dec) (\<lambda>t. Inr (VStr t))) ?items = Inr vs"
      unfolding emap_map by (subst emap_Inr_map [of _ _ "\<lambda>x. x"]) auto
    with items show ?thesis
      by (simp add: decode_def decode_mv_string8_def lookup_codepage_def encode_in_def many v(1) cp)
  next
    case other
    with decode_encode_value [OF assms(1) _ assms(3)] assms(4) show ?thesis by (simp add: encode_in_def)
  qed
qed

section \<open>Properties\<close>

text \<open>C29: \<open>decode\<close> is total and typed. Whatever bytes are given, it raises a \<open>PstError\<close>, and no other exception, or
  returns a value of the property type asked for: an integer within the type's width, a time that a datetime
  can hold, a string of Unicode scalar values with no NUL, a tuple of values of the base type with at
  most the item limit of them.\<close>

theorem decode_type_sound:
  "case decode t data cp m of
     Inl e \<Rightarrow> is_pst_error e
   | Inr v \<Rightarrow> value_typed t v \<and> (case v of VTuple vs \<Rightarrow> len vs \<le> m | _ \<Rightarrow> True)"
  using decode_typed [of t data cp m] fails_closedD [OF decode_closed, of t data cp m]
  by (auto split: sum.split prop_value.split)

text \<open>C28: values round-trip. Every value of a type, written in the layout the type has in a store (a
  fixed-width scalar, FILETIME ticks, a GUID's mixed byte order, UTF-16 text, text in the code page, a packed array, or a
  count, an offset table and the items), is what \<open>decode\<close> returns for the bytes, within the item limit
  and the 32-bit offsets. A STRING8 value is one the code page has: its codec gives back what the encoder writes.\<close>

theorem decode_roundtrip:
  assumes "value_typed t v" "spells cp enc t v"
    and "\<forall>vs. v = VTuple vs \<longrightarrow> len vs \<le> m" "len (encode_in enc t v) < 2 ^ 32"
  shows "decode t (encode_in enc t v) cp m = Inr v"
  by (rule decode_encode_in [OF assms])

text \<open>UTF-16 with no code page, and Latin-1 as the code page.\<close>

theorem decode_roundtrip_witness:
  "decode T_MV_UNICODE (encode_in (\<lambda>s. []) T_MV_UNICODE (VTuple [VStr [0x61, 0x1F600], VStr []])) None 9 =
     Inr (VTuple [VStr [0x61, 0x1F600], VStr []]) \<and>
   decode T_MV_STRING8 (encode_in (map word_of_int) T_MV_STRING8 (VTuple [VStr [0x61, 0xE9], VStr []])) (Some (\<lambda>b. Some (map uint b))) 9 =
     Inr (VTuple [VStr [0x61, 0xE9], VStr []])"
proof
  have "value_typed T_UNICODE (VStr [0x61, 0x1F600])" "value_typed T_UNICODE (VStr [])"
    by (rule typed_unicode; simp add: is_scalar_def)+
  then have ty: "value_typed T_MV_UNICODE (VTuple [VStr [0x61, 0x1F600], VStr []])"
    by (intro typed_mv [of _ T_UNICODE]) (auto simp: mv_base_def)
  have "len (encode_in (\<lambda>s. []) T_MV_UNICODE (VTuple [VStr [0x61, 0x1F600], VStr []])) = 18"
    by (simp add: encode_in_def encode_value_def mv_variable_bytes_length utf16_bytes_def utf16_encode_def utf16_char_def)
  with decode_roundtrip [OF ty, of None "\<lambda>s. []" 9]
  show "decode T_MV_UNICODE (encode_in (\<lambda>s. []) T_MV_UNICODE (VTuple [VStr [0x61, 0x1F600], VStr []])) None 9 =
     Inr (VTuple [VStr [0x61, 0x1F600], VStr []])" by (simp add: spells_def)
next
  let ?v = "VTuple [VStr [0x61, 0xE9], VStr []]" and ?enc = "map word_of_int" and ?cp = "Some (\<lambda>b :: bytes. Some (map uint b))"
  have ty: "value_typed T_MV_STRING8 ?v"
    by (intro typed_mv [of _ T_STRING8]) (auto simp: mv_base_def intro: typed_string8)
  have "len (encode_in ?enc T_MV_STRING8 ?v) = 14"
    by (simp add: encode_in_def codepage_bytes_def mv_variable_bytes_length)
  with decode_roundtrip [OF ty, of ?cp ?enc 9]
  show "decode T_MV_STRING8 (encode_in ?enc T_MV_STRING8 ?v) ?cp 9 = Inr ?v" by (simp add: spells_def strings_of_def)
qed

text \<open>A multi-value of variable-size items is cut into its items without gap or overlap. The items
  \<open>_mv_variable_items\<close> returns are as many as the count says and, put together, are exactly the bytes
  behind the offset table.\<close>

theorem mv_variable_items_partition:
  assumes "mv_variable_items data m = Inr items" "items \<noteq> []"
  shows "concat items = drop (4 * (length items + 1)) data \<and> len items = le_int (take 4 data) \<and> len items \<le> m"
  using mv_variable_items_Inr [OF assms] by blast

text \<open>The text decoders stop at the first NUL. For any bytes, a UNICODE value is refused when it has an
  odd length and is otherwise the strict UTF-16 decoding of the units before the first zero unit,
  although the code looks for two zero bytes at any position; a STRING8 value is the code page's
  decoding of the bytes before the first zero byte.\<close>

theorem text_stops_at_nul:
  "decode_unicode_bytes raw =
     (if len raw mod 2 \<noteq> 0 then Inl PstFormatError
      else case utf16_decode (takeWhile (\<lambda>u. u \<noteq> 0) (utf16_units raw)) of
        None \<Rightarrow> Inl PstFormatError | Some text \<Rightarrow> Inr text) \<and>
   decode_string8_bytes raw c =
     (case c (takeWhile (\<lambda>b. b \<noteq> 0) raw) of None \<Rightarrow> Inl PstFormatError | Some text \<Rightarrow> Inr text)"
  by (rule conjI [OF decode_unicode_bytes_eq decode_string8_bytes_eq])

text \<open>FILETIME and datetime agree. A FILETIME in range decodes to the datetime whose FILETIME is the
  same value with the sub-microsecond digit dropped, every aware datetime from 1601 to 9999-12-31 is
  the decoding of its FILETIME, the decoding is monotone, and anything outside the range is refused.\<close>

theorem filetime_roundtrip:
  assumes "0 \<le> ft" "ft \<le> FILETIME_MAX" "0 \<le> us" "us \<le> dt_micros DATETIME_MAX" "ft' < 0 \<or> FILETIME_MAX < ft'"
  shows "ebind (filetime_to_datetime ft) datetime_to_filetime = Inr (ft - ft mod 10) \<and>
    ebind (datetime_to_filetime \<lparr>dt_aware = True, dt_micros = us\<rparr>) filetime_to_datetime =
      Inr \<lparr>dt_aware = True, dt_micros = us\<rparr> \<and>
    (\<forall>g a b. ft \<le> g \<and> filetime_to_datetime ft = Inr a \<and> filetime_to_datetime g = Inr b \<longrightarrow> dt_micros a \<le> dt_micros b) \<and>
    filetime_to_datetime ft' = Inl PstFormatError"
proof (intro conjI allI impI)
  have "10 * (ft div 10) = ft - ft mod 10" by (simp add: minus_mod_eq_mult_div)
  moreover have "0 \<le> ft div 10" using assms(1) by (simp add: pos_imp_zdiv_nonneg_iff)
  ultimately show "ebind (filetime_to_datetime ft) datetime_to_filetime = Inr (ft - ft mod 10)"
    using assms(1,2) by (simp add: filetime_to_datetime_def py_floordiv_def time_consts datetime_to_filetime_eq)
  show "ebind (datetime_to_filetime \<lparr>dt_aware = True, dt_micros = us\<rparr>) filetime_to_datetime =
      Inr \<lparr>dt_aware = True, dt_micros = us\<rparr>"
    using assms(3,4) by (simp add: datetime_to_filetime_eq filetime_to_datetime_def py_floordiv_def time_consts
        FILETIME_MAX_eq DATETIME_MAX_micros)
  show "filetime_to_datetime ft' = Inl PstFormatError"
    using assms(5) by (auto simp: filetime_to_datetime_def)
  fix g a b assume "ft \<le> g \<and> filetime_to_datetime ft = Inr a \<and> filetime_to_datetime g = Inr b"
  then show "dt_micros a \<le> dt_micros b" by (auto simp: filetime_to_datetime_Inr_iff zdiv_mono1)
qed

end
