(* ===== verification/Pst_Prop_Context.thy ===== *)
theory Pst_Prop_Context
  imports Pst_Tree Pst_Prop_Type
begin

text \<open>
  \<open>src/pypstreader/ltp/prop_context.py\<close>: the property context (PC), the properties of one node as
  records in a BTree-on-Heap. A record carries a type and a 32-bit field that is the value itself, an
  item of the heap or a sub-node. The state of a context is its heap's and the records it remembers;
  each operation is related to its meaning without the memory, and reading to writing.
\<close>

section \<open>Records\<close>

definition PC_KEY_FORMAT :: fmt where "PC_KEY_FORMAT = [2]"
definition PC_KEY_SIZE :: int where "PC_KEY_SIZE = 2"
definition PC_RECORD_FORMAT :: fmt where "PC_RECORD_FORMAT = [2, 4]"
definition PC_RECORD_SIZE :: int where "PC_RECORD_SIZE = 6"

fun INLINE_WIDTHS :: "prop_type \<Rightarrow> nat option" where
  "INLINE_WIDTHS T_NULL = Some 0"
| "INLINE_WIDTHS T_SHORT = Some 2"
| "INLINE_WIDTHS T_LONG = Some 4"
| "INLINE_WIDTHS T_FLOAT = Some 4"
| "INLINE_WIDTHS T_ERROR = Some 4"
| "INLINE_WIDTHS T_BOOLEAN = Some 1"
| "INLINE_WIDTHS _ = None"

definition HEAP_ONLY_TYPES :: "prop_type set" where
  "HEAP_ONLY_TYPES = {T_DOUBLE, T_CURRENCY, T_APPTIME, T_LONGLONG, T_SYSTIME, T_GUID, T_OBJECT}"

record property_record =
  pr_id :: int
  pr_type :: prop_type
  pr_raw :: int

definition PropertyRecord_SIZE :: int where "PropertyRecord_SIZE = PC_KEY_SIZE + PC_RECORD_SIZE"

definition mk_PropertyRecord :: "int \<Rightarrow> prop_type \<Rightarrow> int \<Rightarrow> property_record result" where
  "mk_PropertyRecord prop_id prop_type raw =
     ebind (raise_if (\<not> (0 \<le> prop_id \<and> prop_id \<le> 0xFFFF)) PstFormatError) (\<lambda>_.
     ebind (raise_if (\<not> (0 \<le> raw \<and> raw \<le> U32)) PstFormatError) (\<lambda>_.
     Inr \<lparr>pr_id = prop_id, pr_type = prop_type, pr_raw = raw\<rparr>))"

text \<open>The \<open>except PstUnsupportedError\<close> of \<open>unpack\<close> raises the same class with another message.\<close>

definition PropertyRecord_unpack :: "bytes \<Rightarrow> bytes \<Rightarrow> property_record result" where
  "PropertyRecord_unpack key val =
     ebind (unpack PC_KEY_FORMAT key 0) (\<lambda>ks.
     ebind (unpack PC_RECORD_FORMAT val 0) (\<lambda>fs.
     ebind (prop_type_from_wire (fs ! 0)) (\<lambda>prop_type.
     mk_PropertyRecord (ks ! 0) prop_type (fs ! 1))))"

definition PropertyRecord_is_inline :: "property_record \<Rightarrow> bool" where
  "PropertyRecord_is_inline r \<longleftrightarrow> INLINE_WIDTHS (pr_type r) \<noteq> None"

definition PropertyRecord_hnid :: "property_record \<Rightarrow> heap_node_id option result" where
  "PropertyRecord_hnid r =
     (if PropertyRecord_is_inline r then Inr None
      else ebind (mk_HeapNodeId (pr_raw r)) (\<lambda>h. Inr (Some h)))"

definition PropertyRecord_is_null :: "property_record \<Rightarrow> bool" where
  "PropertyRecord_is_null r \<longleftrightarrow> \<not> PropertyRecord_is_inline r \<and> pr_raw r = 0"

definition PropertyRecord_value_type :: "property_record \<Rightarrow> prop_type" where
  "PropertyRecord_value_type r = (if PropertyRecord_is_null r then T_NULL else pr_type r)"

section \<open>PropertyContext\<close>

record property_context =
  pc_heap :: heap_node
  pc_limits :: limits
  pc_codepage :: codepage
  pc_tree :: heap_tree

text \<open>What changes in a context: its heap's state, and the records once they have been read.\<close>

type_synonym property_records = "(int \<times> property_record) list"

record pc_state =
  pcs_heap :: heap_state
  pcs_records :: "property_records option"

definition pc_fresh :: "heap_state \<Rightarrow> pc_state" where
  "pc_fresh s = \<lparr>pcs_heap = s, pcs_records = None\<rparr>"

definition on_heap :: "(heap_state, 'a) st \<Rightarrow> (pc_state, 'a) st" where
  "on_heap = szoom pcs_heap (\<lambda>s t. t\<lparr>pcs_heap := s\<rparr>)"

definition PropertyContext :: "heap_node \<Rightarrow> limits option \<Rightarrow> codepage \<Rightarrow> (heap_state, property_context) st" where
  "PropertyContext heap limits codepage =
     sbind (slift (raise_if (HeapNode_client_signature heap \<noteq> HN_PROPERTIES) PstFormatError)) (\<lambda>_.
     let limits' = (case limits of None \<Rightarrow> hn_limits heap | Some l \<Rightarrow> l) in
     sbind (HeapTree heap None) (\<lambda>tree.
     sbind (slift (raise_if (hth_key_size (ht_header tree) \<noteq> PC_KEY_SIZE \<or>
         hth_entry_size (ht_header tree) \<noteq> PC_RECORD_SIZE) PstFormatError)) (\<lambda>_.
     sret \<lparr>pc_heap = heap, pc_limits = limits', pc_codepage = codepage, pc_tree = tree\<rparr>)))"

text \<open>
  \<open>from_node\<close>: a node is its data's and its sub-node tree's block ids, from a B-tree entry or from an
  entry of a sub-node tree. The new object is the context with its first state.
\<close>

definition PropertyContext_from_node ::
  "block_reader \<Rightarrow> block_id \<Rightarrow> block_id option \<Rightarrow> limits option \<Rightarrow> codepage \<Rightarrow>
   (property_context \<times> pc_state) result" where
  "PropertyContext_from_node reader data sub_node limits codepage =
     ebind (HeapNode_from_node reader data sub_node limits) (\<lambda>heap.
     ebind (srun (PropertyContext heap limits codepage) heap_fresh) (\<lambda>(pc, s). Inr (pc, pc_fresh s)))"

text \<open>The body of the loop in \<open>records\<close>.\<close>

definition add_record :: "int \<Rightarrow> property_records \<Rightarrow> bytes \<times> bytes \<Rightarrow> property_records result" where
  "add_record ceiling seen = (\<lambda>(key, val).
     ebind (PropertyRecord_unpack key val) (\<lambda>r.
     ebind (raise_if (map_of seen (pr_id r) \<noteq> None) PstFormatError) (\<lambda>_.
     let seen' = seen @ [(pr_id r, r)] in
     ebind (check_count (len seen') ceiling) (\<lambda>_. Inr seen'))))"

definition PropertyContext_records :: "property_context \<Rightarrow> (pc_state, property_records) st" where
  "PropertyContext_records pc =
     smemo pcs_records (\<lambda>records s. s\<lparr>pcs_records := Some records\<rparr>)
       (sbind (on_heap (HeapTree_iter (pc_tree pc) (add_record (max_property_count (pc_limits pc))) [])) (\<lambda>seen.
        sret (sort_key fst seen)))"

definition PropertyContext_len :: "property_context \<Rightarrow> (pc_state, int) st" where
  "PropertyContext_len pc = sbind (PropertyContext_records pc) (\<lambda>records. sret (len records))"

definition PropertyContext_contains :: "property_context \<Rightarrow> int \<Rightarrow> (pc_state, bool) st" where
  "PropertyContext_contains pc prop_id =
     sbind (PropertyContext_records pc) (\<lambda>records. sret (map_of records prop_id \<noteq> None))"

text \<open>
  \<open>read\<close>. The call for an inline type passes no code page and no item limit: the types have no use for
  either.
\<close>

definition PropertyContext_read :: "property_context \<Rightarrow> property_record \<Rightarrow> (pc_state, prop_value) st" where
  "PropertyContext_read pc r =
     (case INLINE_WIDTHS (pr_type r) of
        Some width \<Rightarrow>
          slift (decode (pr_type r) (le_bytes width (pr_raw r mod 2 ^ (8 * width))) None MAX_MV_ITEMS)
      | None \<Rightarrow>
          if pr_raw r = 0 then sret VNull
          else
            sbind (slift (mk_HeapNodeId (pr_raw r))) (\<lambda>hnid.
            sbind (slift (raise_if (pr_type r \<in> HEAP_ONLY_TYPES \<and> \<not> HeapNodeId_is_heap hnid) PstFormatError)) (\<lambda>_.
            sbind (on_heap (HeapNode_get_hnid (pc_heap pc) hnid)) (\<lambda>data.
            slift (decode (pr_type r) data (pc_codepage pc) (max_mv_items (pc_limits pc)))))))"

definition PropertyContext_get :: "property_context \<Rightarrow> int \<Rightarrow> (pc_state, prop_value) st" where
  "PropertyContext_get pc prop_id =
     sbind (PropertyContext_records pc) (\<lambda>records.
     case map_of records prop_id of
       None \<Rightarrow> sret VNull
     | Some r \<Rightarrow> PropertyContext_read pc r)"

text \<open>\<open>__iter__\<close>, as the loop it drives.\<close>

definition PropertyContext_iter ::
  "property_context \<Rightarrow> ('a \<Rightarrow> int \<times> prop_value \<Rightarrow> 'a result) \<Rightarrow> 'a \<Rightarrow> (pc_state, 'a) st" where
  "PropertyContext_iter pc body acc =
     sbind (PropertyContext_records pc) (\<lambda>records.
     sfold (\<lambda>acc (prop_id, r).
       sbind (PropertyContext_read pc r) (\<lambda>v. slift (body acc (prop_id, v)))) acc records)"

section \<open>The meaning without the memory\<close>

definition pc_records :: "property_context \<Rightarrow> property_records result" where
  "pc_records pc =
     ebind (bth_iter (ht_heap (pc_tree pc)) (ht_header (pc_tree pc)) (add_record (max_property_count (pc_limits pc))) [])
       (\<lambda>seen. Inr (sort_key fst seen))"

definition pc_read :: "property_context \<Rightarrow> property_record \<Rightarrow> prop_value result" where
  "pc_read pc r =
     (case INLINE_WIDTHS (pr_type r) of
        Some width \<Rightarrow> decode (pr_type r) (le_bytes width (pr_raw r mod 2 ^ (8 * width))) None MAX_MV_ITEMS
      | None \<Rightarrow>
          if pr_raw r = 0 then Inr VNull
          else
            ebind (mk_HeapNodeId (pr_raw r)) (\<lambda>hnid.
            ebind (raise_if (pr_type r \<in> HEAP_ONLY_TYPES \<and> \<not> HeapNodeId_is_heap hnid) PstFormatError) (\<lambda>_.
            ebind (heap_value (pc_heap pc) hnid) (\<lambda>data.
            decode (pr_type r) data (pc_codepage pc) (max_mv_items (pc_limits pc))))))"

definition pc_get :: "property_context \<Rightarrow> int \<Rightarrow> prop_value result" where
  "pc_get pc prop_id =
     ebind (pc_records pc) (\<lambda>records.
     case map_of records prop_id of None \<Rightarrow> Inr VNull | Some r \<Rightarrow> pc_read pc r)"

definition pc_iter :: "property_context \<Rightarrow> ('a \<Rightarrow> int \<times> prop_value \<Rightarrow> 'a result) \<Rightarrow> 'a \<Rightarrow> 'a result" where
  "pc_iter pc body acc =
     ebind (pc_records pc) (efold (\<lambda>acc (prop_id, r). ebind (pc_read pc r) (\<lambda>v. body acc (prop_id, v))) acc)"

text \<open>
  A context as its constructor makes it, and the states it can be in: a good heap state, and, once
  remembered, the right records.
\<close>

definition pc_ok :: "property_context \<Rightarrow> bool" where
  "pc_ok pc \<longleftrightarrow> ht_heap (pc_tree pc) = pc_heap pc \<and> heap_tree_header_ok (ht_header (pc_tree pc)) \<and>
     hth_key_size (ht_header (pc_tree pc)) = PC_KEY_SIZE \<and> hth_entry_size (ht_header (pc_tree pc)) = PC_RECORD_SIZE"

definition pc_inv :: "property_context \<Rightarrow> pc_state \<Rightarrow> bool" where
  "pc_inv pc s \<longleftrightarrow> heap_inv (pc_heap pc) (pcs_heap s) \<and>
     (\<forall>rs. pcs_records s = Some rs \<longrightarrow> pc_records pc = Inr rs)"

lemma on_heap_implements [intro]:
  "implements (heap_inv (pc_heap pc)) ex m p \<Longrightarrow> implements (pc_inv pc) ex (on_heap m) p"
  unfolding on_heap_def by (rule implements_szoom) (auto simp: pc_inv_def)

lemma PropertyContext_records_implements [intro]:
  assumes "pc_ok pc"
  shows "implements (pc_inv pc) (heap_within_budget (pc_heap pc)) (PropertyContext_records pc) (pc_records pc)"
proof -
  let ?body = "add_record (max_property_count (pc_limits pc))"
  have walk: "implements (pc_inv pc) (heap_within_budget (pc_heap pc)) (on_heap (HeapTree_iter (pc_tree pc) ?body []))
      (bth_iter (ht_heap (pc_tree pc)) (ht_header (pc_tree pc)) ?body [])"
    using HeapTree_iter_implements [of "pc_tree pc" ?body "[]"] assms
    by (intro on_heap_implements) (simp add: pc_ok_def)
  show ?thesis
    unfolding PropertyContext_records_def
  proof (rule implements_smemo)
    show "implements (pc_inv pc) (heap_within_budget (pc_heap pc))
        (sbind (on_heap (HeapTree_iter (pc_tree pc) ?body [])) (\<lambda>seen. sret (sort_key fst seen))) (pc_records pc)"
      unfolding pc_records_def by (intro implements_sbind walk implements_sret refl)
  qed (auto simp: pc_inv_def)
qed

lemma PropertyContext_read_implements [intro]:
  "implements (pc_inv pc) (heap_within_budget (pc_heap pc)) (PropertyContext_read pc r) (pc_read pc r)"
  unfolding PropertyContext_read_def pc_read_def
  by (cases "INLINE_WIDTHS (pr_type r)")
     (auto intro!: implements_sbind implements_slift implements_if implements_sret on_heap_implements
        HeapNode_get_hnid_implements)

lemma PropertyContext_get_implements [intro]:
  "pc_ok pc \<Longrightarrow>
   implements (pc_inv pc) (heap_within_budget (pc_heap pc)) (PropertyContext_get pc prop_id) (pc_get pc prop_id)"
  unfolding PropertyContext_get_def pc_get_def
  by (intro implements_sbind PropertyContext_records_implements) (auto split: option.split)

lemma PropertyContext_iter_implements [intro]:
  "pc_ok pc \<Longrightarrow>
   implements (pc_inv pc) (heap_within_budget (pc_heap pc)) (PropertyContext_iter pc body acc) (pc_iter pc body acc)"
  unfolding PropertyContext_iter_def pc_iter_def case_prod_beta
  by (intro implements_sbind PropertyContext_records_implements implements_sfold implements_slift
      PropertyContext_read_implements refl)

section \<open>Only a PstError escapes\<close>

lemma mk_PropertyRecord_Inr_iff:
  "mk_PropertyRecord i t raw = Inr r \<longleftrightarrow>
     0 \<le> i \<and> i \<le> 0xFFFF \<and> 0 \<le> raw \<and> raw \<le> U32 \<and> r = \<lparr>pr_id = i, pr_type = t, pr_raw = raw\<rparr>"
  by (auto simp: mk_PropertyRecord_def ebind_Inr_iff raise_if_Inr_iff)

lemma PropertyRecord_unpack_closed [simp, intro]: "fails_closed (PropertyRecord_unpack k v)"
  unfolding PropertyRecord_unpack_def mk_PropertyRecord_def by (intro fails_closed_ebind) auto

lemma add_record_closed [simp, intro]: "fails_closed (add_record c rs e)"
  unfolding add_record_def case_prod_beta Let_def by (intro fails_closed_ebind) auto

lemma pc_records_closed: "pc_ok pc \<Longrightarrow> fails_closed (pc_records pc)"
  unfolding pc_records_def by (intro fails_closed_ebind bth_iter_closed) (auto simp: pc_ok_def)

lemma pc_read_closed [simp, intro]: "heap_ok (pc_heap pc) \<Longrightarrow> fails_closed (pc_read pc r)"
  unfolding pc_read_def by (auto split: option.split intro!: fails_closed_ebind)

lemma pc_get_closed: "pc_ok pc \<Longrightarrow> heap_ok (pc_heap pc) \<Longrightarrow> fails_closed (pc_get pc i)"
  unfolding pc_get_def by (intro fails_closed_ebind pc_records_closed) (auto split: option.split)

lemma pc_iter_closed:
  "pc_ok pc \<Longrightarrow> heap_ok (pc_heap pc) \<Longrightarrow> (\<And>a e. fails_closed (body a e)) \<Longrightarrow> fails_closed (pc_iter pc body acc)"
  unfolding pc_iter_def case_prod_beta
  by (intro fails_closed_ebind fails_closed_efold pc_records_closed) auto

lemma PropertyContext_Inr:
  assumes "heap_inv hn s" "PropertyContext hn l cp s = (Inr pc, s')"
  shows "pc_ok pc" "pc_heap pc = hn" "heap_inv hn s'" "pc_inv pc (pc_fresh s')"
    "pc_limits pc = (case l of None \<Rightarrow> hn_limits hn | Some x \<Rightarrow> x)" "pc_codepage pc = cp"
    "ht_root (pc_tree pc) = HeapNode_user_root hn"
    "bth_header hn (HeapNode_user_root hn) = Inr (ht_header (pc_tree pc))"
proof -
  from assms(2) obtain t where tree: "HeapTree hn None s = (Inr t, s')" and
    sizes: "hth_key_size (ht_header t) = PC_KEY_SIZE" "hth_entry_size (ht_header t) = PC_RECORD_SIZE" and
    pc: "pc = \<lparr>pc_heap = hn, pc_limits = (case l of None \<Rightarrow> hn_limits hn | Some x \<Rightarrow> x), pc_codepage = cp, pc_tree = t\<rparr>"
    by (auto simp: PropertyContext_def sbind_eq_Inr raise_if_Inr_iff Let_def)
  note t = HeapTree_Inr [OF assms(1) tree]
  show "pc_ok pc" "pc_heap pc = hn" "heap_inv hn s'" "pc_inv pc (pc_fresh s')"
    "pc_limits pc = (case l of None \<Rightarrow> hn_limits hn | Some x \<Rightarrow> x)" "pc_codepage pc = cp"
    "ht_root (pc_tree pc) = HeapNode_user_root hn"
    "bth_header hn (HeapNode_user_root hn) = Inr (ht_header (pc_tree pc))"
    using t sizes by (simp_all add: pc pc_ok_def pc_inv_def pc_fresh_def)
qed

lemma PropertyContext_keeps: "st_keeps (heap_inv hn) (PropertyContext hn l cp)"
  unfolding PropertyContext_def Let_def
  by (intro st_keeps_sbind st_keeps_slift st_keeps_sret HeapTree_keeps) auto

lemma PropertyContext_from_node_closed [simp, intro]:
  assumes "reader_ok rd"
  shows "fails_closed (PropertyContext_from_node rd data sub l cp)"
  unfolding PropertyContext_from_node_def case_prod_beta using assms
  by (intro fails_closed_ebind srun_closed [OF PropertyContext_keeps heap_inv_fresh]) auto

lemma PropertyContext_from_node_Inr:
  assumes "PropertyContext_from_node rd data sub l cp = Inr (pc, s)"
  shows "pc_ok pc" "pc_inv pc s" "pc_codepage pc = cp" "reader_ok rd \<Longrightarrow> heap_ok (pc_heap pc)"
proof -
  from assms obtain hn s' where hn: "HeapNode_from_node rd data sub l = Inr hn"
    and run: "PropertyContext hn l cp heap_fresh = (Inr pc, s')" and s: "s = pc_fresh s'"
    by (auto simp: PropertyContext_from_node_def ebind_Inr_iff srun_Inr_iff)
  note D = PropertyContext_Inr [OF heap_inv_fresh run]
  show "pc_ok pc" "pc_inv pc s" "pc_codepage pc = cp" "reader_ok rd \<Longrightarrow> heap_ok (pc_heap pc)"
    using D s HeapNode_from_node_ok [OF _ hn] by simp_all
qed

section \<open>The records are the leaves, in id order\<close>

lemma add_records_iff:
  "efold (add_record c) acc es = Inr rs \<longleftrightarrow>
     (\<exists>rows. emap (\<lambda>(k, v). PropertyRecord_unpack k v) es = Inr rows \<and>
        distinct (map pr_id rows) \<and> set (map pr_id rows) \<inter> set (map fst acc) = {} \<and>
        (rows = [] \<or> len acc + len rows \<le> c) \<and> rs = acc @ map (\<lambda>r. (pr_id r, r)) rows)"
proof (induction es arbitrary: acc)
  case Nil
  then show ?case by auto
next
  case (Cons e es)
  obtain k v where e: "e = (k, v)" by (cases e)
  show ?case
  proof (cases "PropertyRecord_unpack k v")
    case (Inl x)
    then show ?thesis by (simp add: e add_record_def)
  next
    case (Inr r)
    let ?acc = "acc @ [(pr_id r, r)]"
    have "efold (add_record c) acc (e # es) = Inr rs \<longleftrightarrow>
        pr_id r \<notin> set (map fst acc) \<and> len ?acc \<le> c \<and> efold (add_record c) ?acc es = Inr rs"
      using Inr by (auto simp: e add_record_def ebind_Inr_iff raise_if_Inr_iff check_Inr_iff Let_def map_of_eq_None_iff)
    also have "\<dots> \<longleftrightarrow> (\<exists>rows. emap (\<lambda>(k, v). PropertyRecord_unpack k v) (e # es) = Inr rows \<and>
        distinct (map pr_id rows) \<and> set (map pr_id rows) \<inter> set (map fst acc) = {} \<and>
        (rows = [] \<or> len acc + len rows \<le> c) \<and> rs = acc @ map (\<lambda>r. (pr_id r, r)) rows)"
      unfolding Cons.IH using Inr by (fastforce simp: e ebind_Inr_iff)
    finally show ?thesis .
  qed
qed

lemma sort_records: "sort_key fst (map (\<lambda>r. (pr_id r, r)) rows) = map (\<lambda>r. (pr_id r, r)) (sort_key pr_id rows)"
proof -
  have ins: "insort_key fst (pr_id r, r) (map (\<lambda>r. (pr_id r, r)) xs) = map (\<lambda>r. (pr_id r, r)) (insort_key pr_id r xs)" for r xs
    by (induction xs) auto
  show ?thesis by (induction rows) (auto simp: ins)
qed

theorem pc_records_iff:
  "pc_records pc = Inr rs \<longleftrightarrow>
     (\<exists>es rows. bth_entries (ht_heap (pc_tree pc)) (ht_header (pc_tree pc)) = Inr es \<and>
        emap (\<lambda>(k, v). PropertyRecord_unpack k v) es = Inr rows \<and> distinct (map pr_id rows) \<and>
        (rows = [] \<or> len rows \<le> max_property_count (pc_limits pc)) \<and>
        rs = map (\<lambda>r. (pr_id r, r)) (sort_key pr_id rows))"
  (is "_ \<longleftrightarrow> (\<exists>es rows. ?listed es \<and> ?rows es rows)")
proof -
  let ?hn = "ht_heap (pc_tree pc)" and ?h = "ht_header (pc_tree pc)"
  let ?c = "max_property_count (pc_limits pc)"
  have "pc_records pc = Inr rs \<longleftrightarrow>
      (\<exists>found. bth_iter ?hn ?h (add_record ?c) [] = Inr found \<and> rs = sort_key fst found)"
    by (auto simp: pc_records_def ebind_Inr_iff)
  also have "\<dots> \<longleftrightarrow> (\<exists>es found. ?listed es \<and> efold (add_record ?c) [] es = Inr found \<and> rs = sort_key fst found)"
    using bth_iter_Inr [of ?hn ?h "add_record ?c" "[]"] bth_iter_entries [of ?hn ?h _ "add_record ?c" "[]"] by metis
  also have "\<dots> \<longleftrightarrow> (\<exists>es rows. ?listed es \<and> ?rows es rows)"
    unfolding add_records_iff using sort_records by auto
  finally show ?thesis .
qed

lemma pc_records_ascending:
  assumes "pc_records pc = Inr rs"
  shows "sorted (map fst rs)" "distinct (map fst rs)" "\<forall>(i, r) \<in> set rs. pr_id r = i"
proof -
  from assms obtain rows where d: "distinct (map pr_id rows)"
    and rs: "rs = map (\<lambda>r. (pr_id r, r)) (sort_key pr_id rows)" unfolding pc_records_iff by blast
  have ids: "map fst rs = map pr_id (sort_key pr_id rows)" by (simp add: rs)
  show "sorted (map fst rs)" unfolding ids by (rule sorted_sort_key)
  have "mset (map pr_id (sort_key pr_id rows)) = mset (map pr_id rows)" by simp
  then show "distinct (map fst rs)" unfolding ids using d mset_eq_imp_distinct_iff by blast
  show "\<forall>(i, r) \<in> set rs. pr_id r = i" by (auto simp: rs)
qed

section \<open>Writing a property context\<close>

text \<open>
  A context in one heap block: item 1 is the tree's header, item 2 its one leaf page, and item \<open>j + 3\<close> the
  value of the \<open>j\<close>th property, empty where the record holds the value itself.
\<close>

type_synonym property = "int \<times> prop_type \<times> prop_value"

definition pc_bth :: heap_tree_header where
  "pc_bth = \<lparr>hth_key_size = 2, hth_entry_size = 6, hth_levels = 0, hth_root = HeapId 0x40\<rparr>"

definition value_hid :: "nat \<Rightarrow> int" where
  "value_hid j = 32 * (int j + 3)"

definition record_raw :: "nat \<Rightarrow> prop_type \<Rightarrow> prop_value \<Rightarrow> int" where
  "record_raw j t v = (if INLINE_WIDTHS t = None then value_hid j else le_int (encode_value t v))"

definition written_record :: "nat \<Rightarrow> property \<Rightarrow> property_record" where
  "written_record j = (\<lambda>(i, t, v). \<lparr>pr_id = i, pr_type = t, pr_raw = record_raw j t v\<rparr>)"

definition record_bytes :: "property_record \<Rightarrow> bytes \<times> bytes" where
  "record_bytes r = (struct_pack PC_KEY_FORMAT [pr_id r],
     struct_pack PC_RECORD_FORMAT [prop_type_value (pr_type r), pr_raw r])"

definition written_records :: "property list \<Rightarrow> property_record list" where
  "written_records ps = map (\<lambda>j. written_record j (ps ! j)) [0..<length ps]"

definition value_item :: "property \<Rightarrow> bytes" where
  "value_item = (\<lambda>(i, t, v). if INLINE_WIDTHS t = None then encode_value t v else [])"

definition pc_items :: "property list \<Rightarrow> bytes list" where
  "pc_items ps = [bth_header_bytes pc_bth, leaf_page_bytes (map record_bytes (written_records ps))] @
     map value_item ps"

definition pc_heap_at :: "subnodes \<Rightarrow> block_reader option \<Rightarrow> property list \<Rightarrow> heap_node" where
  "pc_heap_at d rd ps = (small_heap HN_PROPERTIES (HeapId 0x20) (pc_items ps))\<lparr>hn_subnodes := d, hn_reader := rd\<rparr>"

abbreviation pc_heap_of :: "property list \<Rightarrow> heap_node" where
  "pc_heap_of \<equiv> pc_heap_at [] None"

text \<open>What the layout can hold. The code-page strings, whose encoding is not modelled, are left out.\<close>

definition writable_property :: "property \<Rightarrow> bool" where
  "writable_property = (\<lambda>(i, t, v).
     0 \<le> i \<and> i \<le> 0xFFFF \<and> value_typed t v \<and> t \<noteq> T_STRING8 \<and> t \<noteq> T_MV_STRING8 \<and>
     (\<forall>vs. v = VTuple vs \<longrightarrow> len vs \<le> MAX_MV_ITEMS) \<and> len (encode_value t v) < 2 ^ 32 \<and>
     (INLINE_WIDTHS t = None \<longrightarrow> encode_value t v \<noteq> []))"

definition writable_pc :: "property list \<Rightarrow> bool" where
  "writable_pc ps \<longleftrightarrow> ps \<noteq> [] \<and> length ps \<le> 2000 \<and> distinct (map fst ps) \<and> (\<forall>p \<in> set ps. writable_property p) \<and>
     writable_heap_block 0 (HeapId 0x20) 0 (pc_items ps)"

lemma inline_length:
  assumes "value_typed t v" "INLINE_WIDTHS t = Some w"
  shows "length (encode_value t v) = w" "\<forall>vs. v \<noteq> VTuple vs"
proof -
  have "mv_base t = None" using assms(2) by (cases t) (simp_all add: mv_base_def)
  then show no: "\<forall>vs. v \<noteq> VTuple vs" using assms(1) by (auto elim: typed_tupleE)
  show "length (encode_value t v) = w"
    using assms no by (cases rule: value_typed.cases)
      (auto simp: encode_value_def FIXED_SIZES_def mv_base_def split: if_splits)
qed

lemma typed_specified: "value_typed t v \<Longrightarrow> t \<noteq> T_UNSPECIFIED"
  by (cases rule: value_typed.cases) (auto simp: mv_base_def)

lemma written_record_ok:
  assumes "writable_property p" "j < 2000"
  shows "0 \<le> pr_id (written_record j p)" "pr_id (written_record j p) < 65536"
    "0 \<le> pr_raw (written_record j p)" "pr_raw (written_record j p) < 4294967296"
    "pr_type (written_record j p) \<noteq> T_UNSPECIFIED" "pr_id (written_record j p) = fst p"
proof -
  obtain i t v where p: "p = (i, t, v)" by (cases p)
  have raw: "0 \<le> record_raw j t v \<and> record_raw j t v < 4294967296"
  proof (cases "INLINE_WIDTHS t")
    case None
    then show ?thesis using assms(2) by (simp add: record_raw_def value_hid_def)
  next
    case (Some w)
    have w: "w \<le> 4" using Some by (cases t) simp_all
    have "length (encode_value t v) = w"
      using inline_length(1) [OF _ Some] assms(1) by (simp add: p writable_property_def)
    with le_int_bound [of "encode_value t v"] have "le_int (encode_value t v) < 256 ^ w" by simp
    moreover have "(256 :: int) ^ w \<le> 256 ^ 4" using w by (intro power_increasing) auto
    ultimately show ?thesis using Some by (simp add: record_raw_def)
  qed
  show "0 \<le> pr_id (written_record j p)" "pr_id (written_record j p) < 65536"
    "0 \<le> pr_raw (written_record j p)" "pr_raw (written_record j p) < 4294967296"
    "pr_type (written_record j p) \<noteq> T_UNSPECIFIED" "pr_id (written_record j p) = fst p"
    using assms(1) raw by (auto simp: p written_record_def writable_property_def dest: typed_specified)
qed

lemma PropertyRecord_unpack_written:
  assumes "0 \<le> pr_id r" "pr_id r < 65536" "0 \<le> pr_raw r" "pr_raw r < 4294967296" "pr_type r \<noteq> T_UNSPECIFIED"
  shows "(\<lambda>(k, v). PropertyRecord_unpack k v) (record_bytes r) = Inr r"
proof -
  have "fits PC_KEY_FORMAT [pr_id r]" using assms by (simp add: PC_KEY_FORMAT_def)
  note k = unpack_pack0 [OF this, of "[]", simplified append_Nil2]
  have "fits PC_RECORD_FORMAT [prop_type_value (pr_type r), pr_raw r]"
    using assms prop_type_value_range [of "pr_type r"] by (simp add: PC_RECORD_FORMAT_def)
  note v = unpack_pack0 [OF this, of "[]", simplified append_Nil2]
  have "prop_type_from_wire (prop_type_value (pr_type r)) = Inr (pr_type r)"
    using assms(5) by (simp add: prop_type_from_wire_iff)
  with k v assms show ?thesis
    by (simp add: record_bytes_def PropertyRecord_unpack_def mk_PropertyRecord_Inr_iff U32_def)
qed

lemma record_bytes_length: "len (fst (record_bytes r)) = 2" "len (snd (record_bytes r)) = 6"
  by (simp_all add: record_bytes_def PC_KEY_FORMAT_def PC_RECORD_FORMAT_def length_struct_pack)

lemma pc_bth_ok: "heap_tree_header_ok pc_bth"
  by (simp add: pc_bth_def heap_tree_header_ok_def KEY_SIZES_def MAX_ENTRY_SIZE_def heap_id_ok_def U32_def)

lemma written_records_simps:
  "length (written_records ps) = length ps"
  "j < length ps \<Longrightarrow> written_records ps ! j = written_record j (ps ! j)"
  by (simp_all add: written_records_def)

lemma leaf_bytes_length:
  "len (leaf_page_bytes (map record_bytes rs)) = 8 * len rs"
  using record_bytes_length unfolding leaf_page_bytes_def
  by (induction rs) (auto simp: case_prod_beta)

lemma pc_heap_block:
  "HeapNode_block (pc_heap_at d rd ps) k = HeapNode_block (small_heap HN_PROPERTIES (HeapId 0x20) (pc_items ps)) k"
  by (simp add: HeapNode_block_def pc_heap_at_def)

lemma pc_heap_facts: "hn_limits (pc_heap_at d rd ps) = DEFAULT_LIMITS" "HeapNode_client_signature (pc_heap_at d rd ps) = HN_PROPERTIES"
  "HeapNode_user_root (pc_heap_at d rd ps) = HeapId 0x20" "heap_ok (pc_heap_at d rd ps) \<longleftrightarrow> (\<forall>r. rd = Some r \<longrightarrow> reader_ok r)"
  by (simp_all add: pc_heap_at_def small_heap_def HeapNode_client_signature_def HeapNode_user_root_def heap_ok_def)

lemma pc_heap_items:
  assumes w: "writable_pc ps"
  shows "heap_item (pc_heap_at d rd ps) (HeapId 0x20) = Inr (bth_header_bytes pc_bth)"
    and "heap_item (pc_heap_at d rd ps) (HeapId 0x40) = Inr (leaf_page_bytes (map record_bytes (written_records ps)))"
    and "j < length ps \<Longrightarrow> value_item (ps ! j) \<noteq> [] \<Longrightarrow>
      heap_item (pc_heap_at d rd ps) (HeapId (value_hid j)) = Inr (value_item (ps ! j))"
proof -
  have wb: "writable_heap_block 0 (HeapId 0x20) 0 (pc_items ps)" and n: "ps \<noteq> []" "length ps \<le> 2000"
    using w by (simp_all add: writable_pc_def)
  have item: "heap_item (pc_heap_at d rd ps) (HeapId (32 * (int k + 1))) = Inr (pc_items ps ! k)"
    if "k < length ps + 2" "pc_items ps ! k \<noteq> []" for k
    using that n small_heap_item [OF wb, of k] by (simp add: heap_item_def pc_heap_block) (simp add: pc_items_def)
  have "bth_header_bytes pc_bth \<noteq> []" by (simp add: bth_header_bytes_def BTH_HEADER_FORMAT_def)
  with item [of 0] show "heap_item (pc_heap_at d rd ps) (HeapId 0x20) = Inr (bth_header_bytes pc_bth)"
    by (simp add: pc_items_def)
  have "leaf_page_bytes (map record_bytes (written_records ps)) \<noteq> []"
    using leaf_bytes_length [of "written_records ps"] n(1) by (auto simp: written_records_simps)
  with item [of 1] show "heap_item (pc_heap_at d rd ps) (HeapId 0x40) = Inr (leaf_page_bytes (map record_bytes (written_records ps)))"
    by (simp add: pc_items_def)
  assume j: "j < length ps" "value_item (ps ! j) \<noteq> []"
  have "pc_items ps ! (j + 2) = value_item (ps ! j)" using j(1) by (simp add: pc_items_def nth_append)
  with item [of "j + 2"] j
  show "heap_item (pc_heap_at d rd ps) (HeapId (value_hid j)) = Inr (value_item (ps ! j))"
    by (simp add: value_hid_def algebra_simps)
qed

lemma pc_heap_header:
  assumes w: "writable_pc ps"
  shows "bth_header (pc_heap_at d rd ps) (HeapId 0x20) = Inr pc_bth"
  using HeapTreeHeader_written [OF pc_bth_ok] pc_heap_items(1) [OF w]
  by (simp add: bth_header_def pc_heap_facts default_limits_simps check_ok pc_bth_def)

lemma pc_heap_entries:
  assumes w: "writable_pc ps"
  shows "bth_entries (pc_heap_at d rd ps) pc_bth = Inr (map record_bytes (written_records ps))"
proof -
  let ?es = "map record_bytes (written_records ps)"
  have "\<forall>(k, v) \<in> set ?es. len k = hth_key_size pc_bth \<and> len v = hth_entry_size pc_bth"
    using record_bytes_length by (auto simp: pc_bth_def split_beta)
  from leaf_page_written [OF pc_bth_ok this pc_heap_items(2) [OF w]]
  have leaf: "leaf_page (pc_heap_at d rd ps) pc_bth (HeapId 0x40) = Inr ?es" .
  have n: "len ?es \<le> 2000" using w by (simp add: writable_pc_def written_records_simps)
  have h: "nat (hth_levels pc_bth) = 0" "hth_root pc_bth = HeapId 0x40" "\<not> HeapId_is_null (HeapId 0x40)"
    by (simp_all add: pc_bth_def HeapId_is_null_def)
  have c: "max_items (hn_limits (pc_heap_at d rd ps)) = 134217728"
    by (simp add: pc_heap_facts default_limits_simps)
  show ?thesis
    using bth_entries_iff [of "pc_heap_at d rd ps" pc_bth ?es] leaf n h c by simp
qed

text \<open>The context read back, with its records and its values.\<close>

definition written_pc_at :: "subnodes \<Rightarrow> block_reader option \<Rightarrow> property list \<Rightarrow> codepage \<Rightarrow> property_context" where
  "written_pc_at d rd ps cp = \<lparr>pc_heap = pc_heap_at d rd ps, pc_limits = DEFAULT_LIMITS, pc_codepage = cp,
     pc_tree = \<lparr>ht_heap = pc_heap_at d rd ps, ht_root = HeapId 0x20, ht_header = pc_bth\<rparr>\<rparr>"

abbreviation written_pc :: "property list \<Rightarrow> codepage \<Rightarrow> property_context" where
  "written_pc \<equiv> written_pc_at [] None"

lemma pc_heap_budget: "writable_pc ps \<Longrightarrow> heap_within_budget (pc_heap_at d rd ps)"
  using small_heap_budget [of "HeapId 0x20" "pc_items ps" HN_PROPERTIES]
  by (simp add: writable_pc_def heap_within_budget_def block_items_def pc_heap_block) (simp add: pc_heap_at_def)

lemma written_pc_made:
  assumes w: "writable_pc ps"
  shows "\<exists>s. PropertyContext (pc_heap_at d rd ps) None cp heap_fresh = (Inr (written_pc_at d rd ps cp), s)"
proof -
  obtain r s where run: "HeapTree (pc_heap_at d rd ps) None heap_fresh = (r, s)" by fastforce
  have "r = Inr \<lparr>ht_heap = pc_heap_at d rd ps, ht_root = HeapId 0x20, ht_header = pc_bth\<rparr>"
    using implementsD [OF HeapTree_implements heap_inv_fresh run] pc_heap_budget [OF w] pc_heap_header [OF w]
    by (simp add: pc_heap_facts)
  with run show ?thesis
    by (simp add: PropertyContext_def pc_heap_facts written_pc_at_def sbind_def Let_def pc_bth_def
        PC_KEY_SIZE_def PC_RECORD_SIZE_def)
qed

lemma written_pc_records:
  assumes w: "writable_pc ps"
  shows "pc_records (written_pc_at d rd ps cp) = Inr (map (\<lambda>r. (pr_id r, r)) (sort_key pr_id (written_records ps)))"
    and "distinct (map pr_id (written_records ps))"
proof -
  have ok: "writable_property (ps ! j) \<and> j < 2000" if "j < length ps" for j
    using w that nth_mem by (fastforce simp: writable_pc_def)
  have rec: "(\<lambda>(k, v). PropertyRecord_unpack k v) (record_bytes r) = Inr r" if r: "r \<in> set (written_records ps)" for r
  proof -
    from r obtain j where j: "j < length ps" "r = written_record j (ps ! j)" by (auto simp: written_records_def)
    from written_record_ok [of "ps ! j" j] ok [OF j(1)] j(2) show ?thesis
      by (intro PropertyRecord_unpack_written) auto
  qed
  have rows: "emap (\<lambda>(k, v). PropertyRecord_unpack k v) (map record_bytes (written_records ps)) = Inr (written_records ps)"
    unfolding emap_map using emap_Inr_map [of "written_records ps" _ "\<lambda>r. r"] rec by simp
  have "map pr_id (written_records ps) = map fst ps"
    using ok written_record_ok(6) by (intro nth_equalityI) (auto simp: written_records_simps)
  then show d: "distinct (map pr_id (written_records ps))" using w by (simp add: writable_pc_def)
  have "len (written_records ps) \<le> max_property_count DEFAULT_LIMITS"
    using w by (simp add: writable_pc_def written_records_simps default_limits_simps)
  then show "pc_records (written_pc_at d rd ps cp) = Inr (map (\<lambda>r. (pr_id r, r)) (sort_key pr_id (written_records ps)))"
    using pc_heap_entries [OF w] rows d unfolding pc_records_iff by (auto simp: written_pc_at_def)
qed

lemma written_pc_read:
  assumes w: "writable_pc ps" and j: "j < length ps" "ps ! j = (i, t, v)"
  shows "pc_read (written_pc_at d rd ps cp) (written_record j (ps ! j)) = Inr v"
proof -
  have p: "writable_property (i, t, v)" using w j nth_mem by (fastforce simp: writable_pc_def)
  then have typed: "value_typed t v" "t \<notin> {T_STRING8, T_MV_STRING8}" "len (encode_value t v) < 2 ^ 32"
    and mv: "\<forall>vs. v = VTuple vs \<longrightarrow> len vs \<le> MAX_MV_ITEMS"
    by (auto simp: writable_property_def)
  note dec = decode_encode_value [OF typed(1,2) mv typed(3)]
  show ?thesis
  proof (cases "INLINE_WIDTHS t")
    case (Some width)
    have len: "length (encode_value t v) = width" using inline_length(1) [OF typed(1) Some] .
    have "le_int (encode_value t v) < 2 ^ (8 * width)"
      using le_int_bound [of "encode_value t v"] len by (simp add: power_mult)
    then have "le_bytes width (le_int (encode_value t v) mod 2 ^ (8 * width)) = encode_value t v"
      using le_bytes_le_int [of "encode_value t v"] len by (simp add: mod_pos_pos_trivial)
    with Some dec [of None] show ?thesis
      by (simp add: j(2) pc_read_def written_record_def record_raw_def)
  next
    case None
    have item: "value_item (ps ! j) = encode_value t v" using None j(2) by (simp add: value_item_def)
    have ne: "encode_value t v \<noteq> []" using p None by (simp add: writable_property_def)
    have raw: "pr_raw (written_record j (ps ! j)) = value_hid j" "pr_type (written_record j (ps ! j)) = t"
      using None by (simp_all add: j(2) written_record_def record_raw_def)
    have bound: "0 < value_hid j" "value_hid j \<le> U32" "value_hid j mod 32 = 0"
      using w j(1) by (simp_all add: value_hid_def writable_pc_def U32_def)
    have hnid: "mk_HeapNodeId (value_hid j) = Inr (HeapNodeId (value_hid j))"
      "HeapNodeId_is_heap (HeapNodeId (value_hid j))"
      using bound by (simp_all add: mk_HeapNodeId_Inr_iff HeapNodeId_is_heap_iff)
    have "heap_node_id_ok (HeapNodeId (value_hid j))" using bound by (simp add: heap_node_id_ok_def)
    from HeapNodeId_split(1) [OF this] bound(3)
    have "heap_value (pc_heap_at d rd ps) (HeapNodeId (value_hid j)) = Inr (encode_value t v)"
      using pc_heap_items(3) [OF w j(1)] item ne by (simp add: heap_value_def)
    moreover have "decode t (encode_value t v) cp (max_mv_items DEFAULT_LIMITS) = Inr v"
      using dec [of cp] by (simp add: default_limits_simps)
    ultimately show ?thesis
      using None raw bound(1) hnid by (simp add: pc_read_def written_pc_at_def)
  qed
qed

theorem written_pc_get:
  assumes w: "writable_pc ps"
  shows "(i, t, v) \<in> set ps \<Longrightarrow> pc_get (written_pc_at d rd ps cp) i = Inr v"
    and "i \<notin> fst ` set ps \<Longrightarrow> pc_get (written_pc_at d rd ps cp) i = Inr VNull"
proof -
  let ?rs = "written_records ps" and ?m = "\<lambda>rs. map (\<lambda>r. (pr_id r, r)) rs"
  note recs = written_pc_records(1) [OF w, of d rd cp]
  have d: "distinct (map fst (?m (sort_key pr_id ?rs)))"
    using pc_records_ascending(2) [OF recs] .
  have mem: "map_of (?m (sort_key pr_id ?rs)) (pr_id r) = Some r" if "r \<in> set ?rs" for r
    using that by (intro map_of_is_SomeI [OF d]) auto
  { assume "(i, t, v) \<in> set ps"
    then obtain j where j: "j < length ps" "ps ! j = (i, t, v)" by (auto simp: in_set_conv_nth)
    let ?r = "written_record j (ps ! j)"
    have "?r \<in> set ?rs" using j(1) by (auto simp: written_records_def)
    moreover have "pr_id ?r = i" by (simp add: j(2) written_record_def)
    ultimately show "pc_get (written_pc_at d rd ps cp) i = Inr v"
      using mem [of ?r] recs written_pc_read [OF w j, of d rd cp] by (simp add: pc_get_def) }
  assume "i \<notin> fst ` set ps"
  then have "i \<notin> pr_id ` set ?rs"
    by (auto simp: written_records_def written_record_def split_beta)
  then have "map_of (?m (sort_key pr_id ?rs)) i = None"
    by (auto simp: map_of_eq_None_iff image_iff)
  then show "pc_get (written_pc_at d rd ps cp) i = Inr VNull" using recs by (simp add: pc_get_def)
qed

section \<open>Properties\<close>

definition sample_properties :: "property list" where
  "sample_properties = [(0x3001, T_UNICODE, VStr [0x41]), (0x0E07, T_LONG, VInt (- 5))]"

lemma sample_properties_encoded:
  "encode_value T_UNICODE (VStr [0x41]) = [0x41, 0]" "encode_value T_LONG (VInt (- 5)) = [0xFB, 0xFF, 0xFF, 0xFF]"
  by (code_simp, code_simp)

lemma sample_properties_size: "len (concat (pc_items sample_properties)) = 26" "len (pc_items sample_properties) = 4"
  using sample_properties_encoded leaf_bytes_length [of "written_records sample_properties"]
  by (simp_all add: pc_items_def written_records_simps sample_properties_def value_item_def
      bth_header_bytes_def BTH_HEADER_FORMAT_def)

lemma sample_properties_writable: "writable_pc sample_properties"
proof -
  have "value_typed T_UNICODE (VStr [0x41])" by (rule typed_unicode) (simp add: is_scalar_def)
  moreover have "value_typed T_LONG (VInt (- 5))" by (rule typed_long) simp_all
  ultimately have "\<forall>p \<in> set sample_properties. writable_property p"
    using sample_properties_encoded by (simp add: sample_properties_def writable_property_def)
  moreover note sample_properties_size
  ultimately show ?thesis
    by (simp add: writable_pc_def writable_heap_block_def heap_id_ok_def U32_def heap_header_size_def heap_formats
        sample_properties_def)
qed

text \<open>A written property context reads back. For any properties a heap block can hold (distinct ids,
  values of their types, in the record where the type says so and in a heap item otherwise), the
  context over the block opens, and from every state its heap cache and its remembered records can be
  in, \<open>get\<close> returns each property's value, and None for an id that was not written.\<close>

theorem PropertyContext_roundtrip:
  assumes "writable_pc ps"
  shows "\<exists>pc s. PropertyContext (pc_heap_of ps) None cp heap_fresh = (Inr pc, s) \<and> pc_inv pc (pc_fresh s) \<and>
    (\<forall>s'. pc_inv pc s' \<longrightarrow>
       (\<forall>i t v. (i, t, v) \<in> set ps \<longrightarrow> fst (PropertyContext_get pc i s') = Inr v) \<and>
       (\<forall>i. i \<notin> fst ` set ps \<longrightarrow> fst (PropertyContext_get pc i s') = Inr VNull))"
proof -
  let ?pc = "written_pc ps cp"
  obtain s where made: "PropertyContext (pc_heap_of ps) None cp heap_fresh = (Inr ?pc, s)"
    using written_pc_made [OF assms] by blast
  note pc = PropertyContext_Inr [OF heap_inv_fresh made]
  have "fst (PropertyContext_get ?pc i s') = pc_get ?pc i" if "pc_inv ?pc s'" for i s'
    using PropertyContext_get_implements [OF pc(1), of i] that pc_heap_budget [OF assms] pc(2)
    by (simp add: implements_def)
  with made pc(4) written_pc_get [OF assms] show ?thesis by auto
qed

text \<open>The records are the leaves of the context's tree in ascending id order. \<open>records\<close> succeeds exactly
  when the tree can be listed, every leaf parses, no id occurs twice and the count stays within the
  limit; the result is then sorted by id, each id once, and is the same when asked again.\<close>

theorem PropertyContext_records_sorted:
  assumes "pc_ok pc" "pc_inv pc s" "heap_within_budget (pc_heap pc)"
    and "PropertyContext_records pc s = (r, s')"
  shows "(r = Inr rs \<longleftrightarrow>
      (\<exists>es rows. bth_entries (ht_heap (pc_tree pc)) (ht_header (pc_tree pc)) = Inr es \<and>
        emap (\<lambda>(k, v). PropertyRecord_unpack k v) es = Inr rows \<and> distinct (map pr_id rows) \<and>
        (rows = [] \<or> len rows \<le> max_property_count (pc_limits pc)) \<and>
        rs = map (\<lambda>x. (pr_id x, x)) (sort_key pr_id rows))) \<and>
    (r = Inr rs \<longrightarrow> sorted (map fst rs) \<and> distinct (map fst rs)) \<and> fst (PropertyContext_records pc s') = r"
proof -
  note imp = PropertyContext_records_implements [OF assms(1)]
  have r: "r = pc_records pc" and s': "pc_inv pc s'"
    using implementsD [OF imp assms(2,4)] assms(3) by auto
  have "fst (PropertyContext_records pc s') = r"
    using imp s' assms(3) r by (simp add: implements_def)
  then show ?thesis unfolding r pc_records_iff [symmetric]
    using pc_records_ascending [of pc rs] by blast
qed

text \<open>Opening and reading a property context ends, on every file, in a value or a PstError, and its
  memory is invisible. From every state, \<open>get\<close> and iteration give what the blocks say or, only when the
  heap's items exceed their ceiling, a limit error, and they leave a good state.\<close>

theorem PropertyContext_total:
  assumes "reader_ok rd"
  shows "fails_closed (PropertyContext_from_node rd data sub l cp) \<and>
    (\<forall>pc s. PropertyContext_from_node rd data sub l cp = Inr (pc, s) \<longrightarrow> pc_inv pc s \<and>
       (\<forall>s1. pc_inv pc s1 \<longrightarrow> pc_inv pc (snd (PropertyContext_get pc i s1)) \<and>
          fails_closed (fst (PropertyContext_get pc i s1)) \<and>
          (fst (PropertyContext_get pc i s1) = pc_get pc i \<or>
             \<not> heap_within_budget (pc_heap pc) \<and> fst (PropertyContext_get pc i s1) = Inl PstLimitError)))"
proof (intro conjI allI impI)
  show "fails_closed (PropertyContext_from_node rd data sub l cp)" using assms by simp
next
  fix pc s assume "PropertyContext_from_node rd data sub l cp = Inr (pc, s)"
  note pc = PropertyContext_from_node_Inr [OF this]
  show "pc_inv pc s" by (rule pc(2))
  fix s1 assume inv: "pc_inv pc s1"
  note imp = PropertyContext_get_implements [OF pc(1), of i]
  have "st_keeps (pc_inv pc) (PropertyContext_get pc i)"
    by (rule implements_closed [OF imp pc_get_closed [OF pc(1) pc(4) [OF assms]]])
  with inv show "pc_inv pc (snd (PropertyContext_get pc i s1))" "fails_closed (fst (PropertyContext_get pc i s1))"
    by (simp_all add: st_keeps_def)
  show "fst (PropertyContext_get pc i s1) = pc_get pc i \<or>
      \<not> heap_within_budget (pc_heap pc) \<and> fst (PropertyContext_get pc i s1) = Inl PstLimitError"
    using imp inv by (simp add: implements_def)
qed

end
