(* ===== verification/Pst_Named_Prop.thy ===== *)
theory Pst_Named_Prop
  imports Pst_Prop_Context Pst_Crc
begin

unbundle bit_operations_syntax

text \<open>
  \<open>src/pypstreader/messaging/named_prop.py\<close>: the Named Property Lookup Map, a property context whose
  streams say what each property id from 0x8000 on means in this store. The state of a map is its
  context's and four remembered results; each operation is related to its meaning without the memory,
  and \<open>lookup\<close> and \<open>resolve\<close> to one another and to what a writer put in the streams.
\<close>

section \<open>NAMEIDs\<close>

definition PID_TAG_NAMEID_BUCKET_COUNT :: int where "PID_TAG_NAMEID_BUCKET_COUNT = 0x0001"
definition PID_TAG_NAMEID_STREAM_GUID :: int where "PID_TAG_NAMEID_STREAM_GUID = 0x0002"
definition PID_TAG_NAMEID_STREAM_ENTRY :: int where "PID_TAG_NAMEID_STREAM_ENTRY = 0x0003"
definition PID_TAG_NAMEID_STREAM_STRING :: int where "PID_TAG_NAMEID_STREAM_STRING = 0x0004"
definition PID_TAG_NAMEID_BUCKET_BASE :: int where "PID_TAG_NAMEID_BUCKET_BASE = 0x1000"

definition NAME_ID_FORMAT :: fmt where "NAME_ID_FORMAT = [4, 2, 2]"
definition NAME_ID_SIZE :: int where "NAME_ID_SIZE = calcsize NAME_ID_FORMAT"
definition GUID_SIZE :: int where "GUID_SIZE = 16"
definition STRING_LENGTH_FORMAT :: fmt where "STRING_LENGTH_FORMAT = [4]"
definition STRING_LENGTH_SIZE :: int where "STRING_LENGTH_SIZE = calcsize STRING_LENGTH_FORMAT"
definition MAX_BUCKET_COUNT :: int where "MAX_BUCKET_COUNT = 0xFFFF - PID_TAG_NAMEID_BUCKET_BASE"
definition NAMED_PROPERTY_BASE :: int where "NAMED_PROPERTY_BASE = 0x8000"
definition PS_MAPI :: int where "PS_MAPI = 0x0002032800000000c000000000000046"
definition PS_PUBLIC_STRINGS :: int where "PS_PUBLIC_STRINGS = 0x0002032900000000c000000000000046"
definition GUID_MAPI :: int where "GUID_MAPI = 1"
definition GUID_PUBLIC_STRINGS :: int where "GUID_PUBLIC_STRINGS = 2"
definition GUID_INDEX_BASE :: int where "GUID_INDEX_BASE = 3"

datatype named_property_guid = NamedPropertyGuid (npg_raw: int)

definition mk_NamedPropertyGuid :: "int \<Rightarrow> named_property_guid result" where
  "mk_NamedPropertyGuid raw =
     ebind (raise_if (\<not> (0 \<le> raw \<and> raw \<le> 0x7FFF)) PstFormatError) (\<lambda>_. Inr (NamedPropertyGuid raw))"

definition NamedPropertyGuid_from_wire :: "int \<Rightarrow> named_property_guid result" where
  "NamedPropertyGuid_from_wire value = mk_NamedPropertyGuid value"

definition NamedPropertyGuid_is_index :: "named_property_guid \<Rightarrow> bool" where
  "NamedPropertyGuid_is_index g \<longleftrightarrow> npg_raw g \<ge> GUID_INDEX_BASE"

definition NamedPropertyGuid_index :: "named_property_guid \<Rightarrow> int option" where
  "NamedPropertyGuid_index g = (if NamedPropertyGuid_is_index g then Some (npg_raw g - GUID_INDEX_BASE) else None)"

definition NamedPropertyGuid_well_known :: "named_property_guid \<Rightarrow> int option" where
  "NamedPropertyGuid_well_known g =
     (if npg_raw g = GUID_MAPI then Some PS_MAPI
      else if npg_raw g = GUID_PUBLIC_STRINGS then Some PS_PUBLIC_STRINGS
      else None)"

record name_id_entry =
  ni_name_id :: int
  ni_guid :: named_property_guid
  ni_prop_index :: int
  ni_is_string :: bool

definition NameIdEntry :: "int \<Rightarrow> named_property_guid \<Rightarrow> int \<Rightarrow> bool \<Rightarrow> name_id_entry result" where
  "NameIdEntry name_id guid prop_index is_string =
     ebind (raise_if (\<not> (0 \<le> name_id \<and> name_id \<le> U32)) PstFormatError) (\<lambda>_.
     ebind (raise_if (\<not> (0 \<le> prop_index \<and> prop_index < NAMED_PROPERTY_BASE)) PstFormatError) (\<lambda>_.
     Inr \<lparr>ni_name_id = name_id, ni_guid = guid, ni_prop_index = prop_index, ni_is_string = is_string\<rparr>))"

definition NameIdEntry_unpack_from :: "bytes \<Rightarrow> int \<Rightarrow> name_id_entry result" where
  "NameIdEntry_unpack_from buf offset =
     ebind (unpack NAME_ID_FORMAT buf offset) (\<lambda>fs.
     ebind (mk_NamedPropertyGuid (drop_bit 1 (fs ! 1))) (\<lambda>guid.
     NameIdEntry (fs ! 0) guid (fs ! 2) (fs ! 1 AND 0x0001 \<noteq> 0)))"

definition NameIdEntry_prop_id :: "name_id_entry \<Rightarrow> int" where
  "NameIdEntry_prop_id e = NAMED_PROPERTY_BASE + ni_prop_index e"

definition NameIdEntry_hash_value :: "name_id_entry \<Rightarrow> int" where
  "NameIdEntry_hash_value e =
     (let guid_index = push_bit 1 (npg_raw (ni_guid e)) AND 0xFFFF;
          guid_index = (if ni_is_string e then guid_index OR 0x0001 else guid_index)
      in (ni_name_id e XOR guid_index) AND U32)"

text \<open>A name is a string or a number, and no string equals a number.\<close>

datatype prop_name = NameStr ustring | NameInt int

record named_property =
  np_guid :: int
  np_name :: prop_name

definition NamedProperty_is_string :: "named_property \<Rightarrow> bool" where
  "NamedProperty_is_string p = (case np_name p of NameStr s \<Rightarrow> True | NameInt i \<Rightarrow> False)"

text \<open>The UTF-16 decoder that replaces each surrogate which is not half of a pair.\<close>

fun utf16_replace :: "int list \<Rightarrow> ustring" where
  "utf16_replace [] = []"
| "utf16_replace [u] = (if is_high_surrogate u \<or> is_low_surrogate u then [0xFFFD] else [u])"
| "utf16_replace (u # v # us) =
     (if is_high_surrogate u \<and> is_low_surrogate v
        then (0x10000 + (u - 0xD800) * 0x400 + (v - 0xDC00)) # utf16_replace us
      else (if is_high_surrogate u \<or> is_low_surrogate u then 0xFFFD else u) # utf16_replace (v # us))"

section \<open>The map\<close>

record named_map =
  nm_pc :: property_context
  nm_limits :: limits

type_synonym name_key = "int \<times> prop_name"

record nm_state =
  nms_pc :: pc_state
  nms_guids :: "int list option"
  nms_entries :: "name_id_entry list option"
  nms_by_prop_id :: "(int \<times> name_id_entry) list option"
  nms_by_name :: "(name_key \<times> int) list option"

definition nm_fresh :: "pc_state \<Rightarrow> nm_state" where
  "nm_fresh s = \<lparr>nms_pc = s, nms_guids = None, nms_entries = None, nms_by_prop_id = None, nms_by_name = None\<rparr>"

definition NamedPropertyMap :: "property_context \<Rightarrow> limits option \<Rightarrow> named_map" where
  "NamedPropertyMap properties limits =
     \<lparr>nm_pc = properties, nm_limits = (case limits of None \<Rightarrow> pc_limits properties | Some l \<Rightarrow> l)\<rparr>"

definition NamedPropertyMap_from_node ::
  "block_reader \<Rightarrow> block_id \<Rightarrow> block_id option \<Rightarrow> limits option \<Rightarrow> codepage \<Rightarrow> (named_map \<times> nm_state) result" where
  "NamedPropertyMap_from_node reader data sub_node limits codepage =
     ebind (PropertyContext_from_node reader data sub_node limits codepage) (\<lambda>(pc, s).
     Inr (NamedPropertyMap pc limits, nm_fresh s))"

definition on_pc :: "(pc_state, 'a) st \<Rightarrow> (nm_state, 'a) st" where
  "on_pc = szoom nms_pc (\<lambda>s t. t\<lparr>nms_pc := s\<rparr>)"

text \<open>A null value and a value of another type are refused alike.\<close>

definition NamedPropertyMap_stream :: "named_map \<Rightarrow> int \<Rightarrow> (nm_state, bytes) st" where
  "NamedPropertyMap_stream nm prop_id =
     sbind (on_pc (PropertyContext_records (nm_pc nm))) (\<lambda>records.
     case map_of records prop_id of
       None \<Rightarrow> slift (Inl PstFormatError)
     | Some r \<Rightarrow>
         sbind (on_pc (PropertyContext_read (nm_pc nm) r)) (\<lambda>v.
         case v of VBytes b \<Rightarrow> sret b | _ \<Rightarrow> slift (Inl PstFormatError)))"

definition guids_of :: "limits \<Rightarrow> bytes \<Rightarrow> int list result" where
  "guids_of limits data =
     ebind (raise_if (len data mod GUID_SIZE \<noteq> 0) PstFormatError) (\<lambda>_.
     ebind (check_count (len data div GUID_SIZE) (max_items limits)) (\<lambda>_.
     Inr (map (\<lambda>at. uuid_of_bytes_le (slice data at (at + GUID_SIZE))) (range_by (len data) GUID_SIZE))))"

definition NamedPropertyMap_guids :: "named_map \<Rightarrow> (nm_state, int list) st" where
  "NamedPropertyMap_guids nm =
     smemo nms_guids (\<lambda>x s. s\<lparr>nms_guids := Some x\<rparr>)
       (sbind (NamedPropertyMap_stream nm PID_TAG_NAMEID_STREAM_GUID) (\<lambda>data. slift (guids_of (nm_limits nm) data)))"

text \<open>A stream of NAMEIDs, of the entry stream or of a hash bucket.\<close>

definition entries_of :: "limits \<Rightarrow> bytes \<Rightarrow> name_id_entry list result" where
  "entries_of limits data =
     ebind (raise_if (len data mod NAME_ID_SIZE \<noteq> 0) PstFormatError) (\<lambda>_.
     ebind (check_count (len data div NAME_ID_SIZE) (max_items limits)) (\<lambda>_.
     emap (NameIdEntry_unpack_from data) (range_by (len data) NAME_ID_SIZE)))"

definition NamedPropertyMap_entries :: "named_map \<Rightarrow> (nm_state, name_id_entry list) st" where
  "NamedPropertyMap_entries nm =
     smemo nms_entries (\<lambda>x s. s\<lparr>nms_entries := Some x\<rparr>)
       (sbind (NamedPropertyMap_stream nm PID_TAG_NAMEID_STREAM_ENTRY) (\<lambda>data. slift (entries_of (nm_limits nm) data)))"

definition NamedPropertyMap_len :: "named_map \<Rightarrow> (nm_state, int) st" where
  "NamedPropertyMap_len nm = sbind (NamedPropertyMap_entries nm) (\<lambda>entries. sret (len entries))"

text \<open>The bucket properties, and \<open>max\<close> of them: the last check of \<open>bucket_count\<close>.\<close>

definition check_buckets :: "int list \<Rightarrow> int \<Rightarrow> int result" where
  "check_buckets prop_ids value =
     (let buckets = filter (\<lambda>prop_id. prop_id \<ge> PID_TAG_NAMEID_BUCKET_BASE) prop_ids in
      ebind (raise_if (buckets \<noteq> [] \<and> Max (set buckets) - PID_TAG_NAMEID_BUCKET_BASE \<ge> value) PstFormatError) (\<lambda>_.
      Inr value))"

definition NamedPropertyMap_bucket_count :: "named_map \<Rightarrow> (nm_state, int) st" where
  "NamedPropertyMap_bucket_count nm =
     sbind (on_pc (PropertyContext_records (nm_pc nm))) (\<lambda>records.
     case map_of records PID_TAG_NAMEID_BUCKET_COUNT of
       None \<Rightarrow> slift (Inl PstFormatError)
     | Some r \<Rightarrow>
         sbind (slift (raise_if (pr_type r \<noteq> T_LONG) PstFormatError)) (\<lambda>_.
         sbind (on_pc (PropertyContext_read (nm_pc nm) r)) (\<lambda>v.
         case v of
           VInt value \<Rightarrow>
             sbind (slift (raise_if (\<not> (0 \<le> value \<and> value \<le> MAX_BUCKET_COUNT)) PstFormatError)) (\<lambda>_.
             sbind (if value = 0 then sbind (NamedPropertyMap_entries nm) (\<lambda>entries. sret (entries \<noteq> [])) else sret False) (\<lambda>unprobed.
             sbind (slift (raise_if unprobed PstFormatError)) (\<lambda>_.
             slift (check_buckets (map fst records) value))))
         | _ \<Rightarrow> slift (Inl AssertionError))))"

definition string_at :: "bytes \<Rightarrow> int \<Rightarrow> bytes result" where
  "string_at data offset =
     ebind (unpack STRING_LENGTH_FORMAT data offset) (\<lambda>fs.
     let n = fs ! 0 in
     ebind (raise_if (n mod 2 \<noteq> 0) PstFormatError) (\<lambda>_.
     let start = offset + STRING_LENGTH_SIZE in
     ebind (raise_if (start + n > len data) PstFormatError) (\<lambda>_.
     Inr (slice data start (start + n)))))"

definition NamedPropertyMap_string_bytes :: "named_map \<Rightarrow> int \<Rightarrow> (nm_state, bytes) st" where
  "NamedPropertyMap_string_bytes nm offset =
     sbind (NamedPropertyMap_stream nm PID_TAG_NAMEID_STREAM_STRING) (\<lambda>data. slift (string_at data offset))"

definition NamedPropertyMap_lookup_string :: "named_map \<Rightarrow> int \<Rightarrow> (nm_state, ustring) st" where
  "NamedPropertyMap_lookup_string nm offset =
     sbind (NamedPropertyMap_string_bytes nm offset) (\<lambda>raw. sret (utf16_replace (utf16_units raw)))"

definition NamedPropertyMap_guid_of :: "named_map \<Rightarrow> name_id_entry \<Rightarrow> (nm_state, int) st" where
  "NamedPropertyMap_guid_of nm e =
     (case NamedPropertyGuid_well_known (ni_guid e) of
        Some known \<Rightarrow> sret known
      | None \<Rightarrow>
          (case NamedPropertyGuid_index (ni_guid e) of
             None \<Rightarrow> sret 0
           | Some index \<Rightarrow>
               sbind (NamedPropertyMap_guids nm) (\<lambda>guids.
               sbind (slift (raise_if (index \<ge> len guids) PstFormatError)) (\<lambda>_.
               slift (py_index guids index)))))"

definition NamedPropertyMap_name_of :: "named_map \<Rightarrow> name_id_entry \<Rightarrow> (nm_state, prop_name) st" where
  "NamedPropertyMap_name_of nm e =
     (if ni_is_string e
      then sbind (NamedPropertyMap_lookup_string nm (ni_name_id e)) (\<lambda>s. sret (NameStr s))
      else sret (NameInt (ni_name_id e)))"

definition add_by_prop_id :: "(int \<times> name_id_entry) list \<Rightarrow> name_id_entry \<Rightarrow> (int \<times> name_id_entry) list result" where
  "add_by_prop_id seen e =
     ebind (raise_if (map_of seen (NameIdEntry_prop_id e) \<noteq> None) PstFormatError) (\<lambda>_.
     Inr (seen @ [(NameIdEntry_prop_id e, e)]))"

definition NamedPropertyMap_index :: "named_map \<Rightarrow> (nm_state, (int \<times> name_id_entry) list) st" where
  "NamedPropertyMap_index nm =
     smemo nms_by_prop_id (\<lambda>x s. s\<lparr>nms_by_prop_id := Some x\<rparr>)
       (sbind (NamedPropertyMap_entries nm) (\<lambda>entries. slift (efold add_by_prop_id [] entries)))"

definition NamedPropertyMap_lookup :: "named_map \<Rightarrow> int \<Rightarrow> (nm_state, named_property option) st" where
  "NamedPropertyMap_lookup nm prop_id =
     sbind (NamedPropertyMap_index nm) (\<lambda>index.
     case map_of index prop_id of
       None \<Rightarrow> sret None
     | Some e \<Rightarrow>
         sbind (NamedPropertyMap_guid_of nm e) (\<lambda>guid.
         sbind (NamedPropertyMap_name_of nm e) (\<lambda>name.
         sret (Some \<lparr>np_guid = guid, np_name = name\<rparr>))))"

definition NamedPropertyMap_by_name :: "named_map \<Rightarrow> (nm_state, (name_key \<times> int) list) st" where
  "NamedPropertyMap_by_name nm =
     smemo nms_by_name (\<lambda>x s. s\<lparr>nms_by_name := Some x\<rparr>)
       (sbind (NamedPropertyMap_entries nm) (\<lambda>entries.
        sfold (\<lambda>index e.
          sbind (NamedPropertyMap_guid_of nm e) (\<lambda>guid.
          sbind (NamedPropertyMap_name_of nm e) (\<lambda>name.
          sret (dict_setdefault index (guid, name) (NameIdEntry_prop_id e))))) [] entries))"

definition NamedPropertyMap_resolve :: "named_map \<Rightarrow> int \<Rightarrow> prop_name \<Rightarrow> (nm_state, int option) st" where
  "NamedPropertyMap_resolve nm guid name =
     sbind (NamedPropertyMap_by_name nm) (\<lambda>index. sret (map_of index (guid, name)))"

definition NamedPropertyMap_hash_entry :: "named_map \<Rightarrow> name_id_entry \<Rightarrow> (nm_state, name_id_entry) st" where
  "NamedPropertyMap_hash_entry nm e =
     (if \<not> ni_is_string e then sret e
      else
        sbind (NamedPropertyMap_string_bytes nm (ni_name_id e)) (\<lambda>raw.
        slift (NameIdEntry (compute_crc 0 raw) (ni_guid e) (ni_prop_index e) True)))"

definition NamedPropertyMap_hash_bucket :: "named_map \<Rightarrow> name_id_entry \<Rightarrow> (nm_state, name_id_entry list) st" where
  "NamedPropertyMap_hash_bucket nm entry =
     sbind (NamedPropertyMap_hash_entry nm entry) (\<lambda>e.
     sbind (NamedPropertyMap_bucket_count nm) (\<lambda>count.
     sbind (slift (raise_if (count = 0) PstFormatError)) (\<lambda>_.
     sbind (slift (py_mod (NameIdEntry_hash_value e) count)) (\<lambda>offset.
     let prop_id = PID_TAG_NAMEID_BUCKET_BASE + offset in
     sbind (on_pc (PropertyContext_records (nm_pc nm))) (\<lambda>records.
     sbind (slift (raise_if (map_of records prop_id = None) PstNotFoundError)) (\<lambda>_.
     sbind (NamedPropertyMap_stream nm prop_id) (\<lambda>data.
     slift (entries_of (nm_limits nm) data))))))))"

section \<open>The meaning without the memory\<close>

definition nm_stream :: "named_map \<Rightarrow> int \<Rightarrow> bytes result" where
  "nm_stream nm prop_id =
     ebind (pc_records (nm_pc nm)) (\<lambda>records.
     case map_of records prop_id of
       None \<Rightarrow> Inl PstFormatError
     | Some r \<Rightarrow> ebind (pc_read (nm_pc nm) r) (\<lambda>v. case v of VBytes b \<Rightarrow> Inr b | _ \<Rightarrow> Inl PstFormatError))"

definition nm_guids :: "named_map \<Rightarrow> int list result" where
  "nm_guids nm = ebind (nm_stream nm PID_TAG_NAMEID_STREAM_GUID) (guids_of (nm_limits nm))"

definition nm_entries :: "named_map \<Rightarrow> name_id_entry list result" where
  "nm_entries nm = ebind (nm_stream nm PID_TAG_NAMEID_STREAM_ENTRY) (entries_of (nm_limits nm))"

definition nm_bucket_value :: "named_map \<Rightarrow> int list \<Rightarrow> prop_value \<Rightarrow> int result" where
  "nm_bucket_value nm ids v =
     (case v of
        VInt value \<Rightarrow>
          ebind (raise_if (\<not> (0 \<le> value \<and> value \<le> MAX_BUCKET_COUNT)) PstFormatError) (\<lambda>_.
          ebind (if value = 0 then ebind (nm_entries nm) (\<lambda>entries. Inr (entries \<noteq> [])) else Inr False) (\<lambda>unprobed.
          ebind (raise_if unprobed PstFormatError) (\<lambda>_.
          check_buckets ids value)))
      | _ \<Rightarrow> Inl AssertionError)"

definition nm_bucket_count :: "named_map \<Rightarrow> int result" where
  "nm_bucket_count nm =
     ebind (pc_records (nm_pc nm)) (\<lambda>records.
     case map_of records PID_TAG_NAMEID_BUCKET_COUNT of
       None \<Rightarrow> Inl PstFormatError
     | Some r \<Rightarrow>
         ebind (raise_if (pr_type r \<noteq> T_LONG) PstFormatError) (\<lambda>_.
         ebind (pc_read (nm_pc nm) r) (nm_bucket_value nm (map fst records))))"

definition nm_string_bytes :: "named_map \<Rightarrow> int \<Rightarrow> bytes result" where
  "nm_string_bytes nm offset = ebind (nm_stream nm PID_TAG_NAMEID_STREAM_STRING) (\<lambda>data. string_at data offset)"

definition nm_guid_of :: "named_map \<Rightarrow> name_id_entry \<Rightarrow> int result" where
  "nm_guid_of nm e =
     (case NamedPropertyGuid_well_known (ni_guid e) of
        Some known \<Rightarrow> Inr known
      | None \<Rightarrow>
          (case NamedPropertyGuid_index (ni_guid e) of
             None \<Rightarrow> Inr 0
           | Some index \<Rightarrow>
               ebind (nm_guids nm) (\<lambda>guids.
               ebind (raise_if (index \<ge> len guids) PstFormatError) (\<lambda>_.
               py_index guids index))))"

definition nm_name_of :: "named_map \<Rightarrow> name_id_entry \<Rightarrow> prop_name result" where
  "nm_name_of nm e =
     (if ni_is_string e
      then ebind (nm_string_bytes nm (ni_name_id e)) (\<lambda>raw. Inr (NameStr (utf16_replace (utf16_units raw))))
      else Inr (NameInt (ni_name_id e)))"

definition nm_key :: "named_map \<Rightarrow> name_id_entry \<Rightarrow> name_key result" where
  "nm_key nm e = ebind (nm_guid_of nm e) (\<lambda>guid. ebind (nm_name_of nm e) (\<lambda>name. Inr (guid, name)))"

definition nm_index :: "named_map \<Rightarrow> (int \<times> name_id_entry) list result" where
  "nm_index nm = ebind (nm_entries nm) (efold add_by_prop_id [])"

definition nm_lookup :: "named_map \<Rightarrow> int \<Rightarrow> named_property option result" where
  "nm_lookup nm prop_id =
     ebind (nm_index nm) (\<lambda>index.
     case map_of index prop_id of
       None \<Rightarrow> Inr None
     | Some e \<Rightarrow> ebind (nm_key nm e) (\<lambda>(guid, name). Inr (Some \<lparr>np_guid = guid, np_name = name\<rparr>)))"

definition nm_by_name :: "named_map \<Rightarrow> (name_key \<times> int) list result" where
  "nm_by_name nm =
     ebind (nm_entries nm) (efold (\<lambda>index e.
       ebind (nm_key nm e) (\<lambda>key. Inr (dict_setdefault index key (NameIdEntry_prop_id e)))) [])"

definition nm_resolve :: "named_map \<Rightarrow> int \<Rightarrow> prop_name \<Rightarrow> int option result" where
  "nm_resolve nm guid name = ebind (nm_by_name nm) (\<lambda>index. Inr (map_of index (guid, name)))"

definition nm_hash_entry :: "named_map \<Rightarrow> name_id_entry \<Rightarrow> name_id_entry result" where
  "nm_hash_entry nm e =
     (if \<not> ni_is_string e then Inr e
      else ebind (nm_string_bytes nm (ni_name_id e)) (\<lambda>raw.
           NameIdEntry (compute_crc 0 raw) (ni_guid e) (ni_prop_index e) True))"

definition nm_hash_bucket :: "named_map \<Rightarrow> name_id_entry \<Rightarrow> name_id_entry list result" where
  "nm_hash_bucket nm entry =
     ebind (nm_hash_entry nm entry) (\<lambda>e.
     ebind (nm_bucket_count nm) (\<lambda>count.
     ebind (raise_if (count = 0) PstFormatError) (\<lambda>_.
     ebind (py_mod (NameIdEntry_hash_value e) count) (\<lambda>offset.
     ebind (pc_records (nm_pc nm)) (\<lambda>records.
     ebind (raise_if (map_of records (PID_TAG_NAMEID_BUCKET_BASE + offset) = None) PstNotFoundError) (\<lambda>_.
     ebind (nm_stream nm (PID_TAG_NAMEID_BUCKET_BASE + offset)) (entries_of (nm_limits nm))))))))"

text \<open>The states of a map: what it remembers is what it would compute.\<close>

definition nm_inv :: "named_map \<Rightarrow> nm_state \<Rightarrow> bool" where
  "nm_inv nm s \<longleftrightarrow> pc_inv (nm_pc nm) (nms_pc s) \<and>
     (\<forall>x. nms_guids s = Some x \<longrightarrow> nm_guids nm = Inr x) \<and>
     (\<forall>x. nms_entries s = Some x \<longrightarrow> nm_entries nm = Inr x) \<and>
     (\<forall>x. nms_by_prop_id s = Some x \<longrightarrow> nm_index nm = Inr x) \<and>
     (\<forall>x. nms_by_name s = Some x \<longrightarrow> nm_by_name nm = Inr x)"

definition nm_ok :: "named_map \<Rightarrow> bool" where
  "nm_ok nm \<longleftrightarrow> pc_ok (nm_pc nm)"

definition nm_exact :: "named_map \<Rightarrow> bool" where
  "nm_exact nm \<longleftrightarrow> heap_within_budget (pc_heap (nm_pc nm))"

lemma on_pc_implements [intro]:
  "implements (pc_inv (nm_pc nm)) ex m p \<Longrightarrow> implements (nm_inv nm) ex (on_pc m) p"
  unfolding on_pc_def by (rule implements_szoom) (auto simp: nm_inv_def)

lemma nm_records_implements [intro]:
  "nm_ok nm \<Longrightarrow> implements (nm_inv nm) (nm_exact nm) (on_pc (PropertyContext_records (nm_pc nm))) (pc_records (nm_pc nm))"
  unfolding nm_exact_def nm_ok_def by (intro on_pc_implements PropertyContext_records_implements)

lemma nm_read_implements [intro]:
  "implements (nm_inv nm) (nm_exact nm) (on_pc (PropertyContext_read (nm_pc nm) r)) (pc_read (nm_pc nm) r)"
  unfolding nm_exact_def by (intro on_pc_implements PropertyContext_read_implements)

lemma nm_stream_implements [intro]:
  "nm_ok nm \<Longrightarrow> implements (nm_inv nm) (nm_exact nm) (NamedPropertyMap_stream nm i) (nm_stream nm i)"
  unfolding NamedPropertyMap_stream_def nm_stream_def
  by (intro implements_sbind nm_records_implements)
    (auto split: option.split prop_value.split intro!: implements_sbind nm_read_implements implements_slift implements_sret)

lemma nm_guids_implements [intro]:
  assumes "nm_ok nm"
  shows "implements (nm_inv nm) (nm_exact nm) (NamedPropertyMap_guids nm) (nm_guids nm)"
  unfolding NamedPropertyMap_guids_def
  by (rule implements_smemo)
    (use assms in \<open>auto simp: nm_inv_def nm_guids_def [of nm] intro!: implements_sbind nm_stream_implements implements_slift\<close>)

lemma nm_entries_implements [intro]:
  assumes "nm_ok nm"
  shows "implements (nm_inv nm) (nm_exact nm) (NamedPropertyMap_entries nm) (nm_entries nm)"
  unfolding NamedPropertyMap_entries_def
  by (rule implements_smemo)
    (use assms in \<open>auto simp: nm_inv_def nm_entries_def [of nm] intro!: implements_sbind nm_stream_implements implements_slift\<close>)

lemma nm_bucket_count_implements [intro]:
  assumes "nm_ok nm"
  shows "implements (nm_inv nm) (nm_exact nm) (NamedPropertyMap_bucket_count nm) (nm_bucket_count nm)"
  unfolding NamedPropertyMap_bucket_count_def nm_bucket_count_def nm_bucket_value_def
  by (intro implements_sbind nm_records_implements assms)
    (auto simp del: ebind_simps split: option.split prop_value.split intro!: implements_sbind nm_read_implements
      nm_entries_implements assms implements_slift implements_sret implements_if)

lemma nm_string_bytes_implements [intro]:
  "nm_ok nm \<Longrightarrow> implements (nm_inv nm) (nm_exact nm) (NamedPropertyMap_string_bytes nm i) (nm_string_bytes nm i)"
  unfolding NamedPropertyMap_string_bytes_def nm_string_bytes_def
  by (intro implements_sbind nm_stream_implements implements_slift refl)

lemma nm_guid_of_implements [intro]:
  "nm_ok nm \<Longrightarrow> implements (nm_inv nm) (nm_exact nm) (NamedPropertyMap_guid_of nm e) (nm_guid_of nm e)"
  unfolding NamedPropertyMap_guid_of_def nm_guid_of_def
  by (auto split: option.split intro!: implements_sbind nm_guids_implements implements_slift implements_sret)

lemma lookup_string_eq:
  "sbind (NamedPropertyMap_lookup_string nm i) f =
   sbind (NamedPropertyMap_string_bytes nm i) (\<lambda>raw. f (utf16_replace (utf16_units raw)))"
  by (rule ext) (auto simp: NamedPropertyMap_lookup_string_def sbind_def split: prod.splits sum.splits)

lemma nm_name_of_implements [intro]:
  "nm_ok nm \<Longrightarrow> implements (nm_inv nm) (nm_exact nm) (NamedPropertyMap_name_of nm e) (nm_name_of nm e)"
  unfolding NamedPropertyMap_name_of_def nm_name_of_def lookup_string_eq
  by (intro implements_if implements_sbind nm_string_bytes_implements implements_sret refl)

lemma sbind_key_implements:
  assumes "nm_ok nm" and "\<And>guid name. nm_key nm e = Inr (guid, name) \<Longrightarrow> implements (nm_inv nm) (nm_exact nm) (f guid name) (g (guid, name))"
  shows "implements (nm_inv nm) (nm_exact nm)
    (sbind (NamedPropertyMap_guid_of nm e) (\<lambda>guid. sbind (NamedPropertyMap_name_of nm e) (\<lambda>name. f guid name)))
    (ebind (nm_key nm e) g)"
  unfolding nm_key_def ebind_assoc ebind_simps
  by (intro implements_sbind nm_guid_of_implements nm_name_of_implements assms) (simp add: nm_key_def)

lemma nm_index_implements [intro]:
  assumes "nm_ok nm"
  shows "implements (nm_inv nm) (nm_exact nm) (NamedPropertyMap_index nm) (nm_index nm)"
  unfolding NamedPropertyMap_index_def
  by (rule implements_smemo)
    (use assms in \<open>auto simp: nm_inv_def nm_index_def [of nm] intro!: implements_sbind nm_entries_implements implements_slift\<close>)

lemma nm_lookup_implements [intro]:
  assumes "nm_ok nm"
  shows "implements (nm_inv nm) (nm_exact nm) (NamedPropertyMap_lookup nm i) (nm_lookup nm i)"
  unfolding NamedPropertyMap_lookup_def nm_lookup_def
  by (intro implements_sbind nm_index_implements assms)
    (auto split: option.split intro!: sbind_key_implements implements_sret assms)

lemma nm_by_name_implements [intro]:
  assumes "nm_ok nm"
  shows "implements (nm_inv nm) (nm_exact nm) (NamedPropertyMap_by_name nm) (nm_by_name nm)"
  unfolding NamedPropertyMap_by_name_def
proof (rule implements_smemo)
  show "implements (nm_inv nm) (nm_exact nm)
      (sbind (NamedPropertyMap_entries nm) (\<lambda>entries.
        sfold (\<lambda>index e.
          sbind (NamedPropertyMap_guid_of nm e) (\<lambda>guid.
          sbind (NamedPropertyMap_name_of nm e) (\<lambda>name.
          sret (dict_setdefault index (guid, name) (NameIdEntry_prop_id e))))) [] entries)) (nm_by_name nm)"
    unfolding nm_by_name_def
    by (intro implements_sbind nm_entries_implements implements_sfold sbind_key_implements implements_sret assms refl)
qed (auto simp: nm_inv_def)

lemma nm_resolve_implements [intro]:
  "nm_ok nm \<Longrightarrow> implements (nm_inv nm) (nm_exact nm) (NamedPropertyMap_resolve nm g n) (nm_resolve nm g n)"
  unfolding NamedPropertyMap_resolve_def nm_resolve_def
  by (intro implements_sbind nm_by_name_implements implements_sret refl)

lemma nm_hash_entry_implements [intro]:
  "nm_ok nm \<Longrightarrow> implements (nm_inv nm) (nm_exact nm) (NamedPropertyMap_hash_entry nm e) (nm_hash_entry nm e)"
  unfolding NamedPropertyMap_hash_entry_def nm_hash_entry_def
  by (intro implements_if implements_sbind nm_string_bytes_implements implements_slift implements_sret refl)

lemma nm_hash_bucket_implements [intro]:
  "nm_ok nm \<Longrightarrow> implements (nm_inv nm) (nm_exact nm) (NamedPropertyMap_hash_bucket nm e) (nm_hash_bucket nm e)"
  unfolding NamedPropertyMap_hash_bucket_def nm_hash_bucket_def Let_def
  by (intro implements_sbind nm_hash_entry_implements nm_bucket_count_implements nm_records_implements
      nm_stream_implements implements_slift refl)

section \<open>Only a PstError escapes\<close>

lemma pc_read_typed:
  assumes "pc_read pc r = Inr v"
  shows "v = VNull \<or> value_typed (pr_type r) v"
  using assms decode_typed by (auto simp: pc_read_def ebind_Inr_iff split: option.splits if_splits)

lemma pc_read_long: "pc_read pc r = Inr v \<Longrightarrow> pr_type r = T_LONG \<Longrightarrow> \<exists>i. v = VInt i"
proof -
  assume r: "pc_read pc r = Inr v" "pr_type r = T_LONG"
  then have "\<exists>data m. decode T_LONG data None m = Inr v" by (auto simp: pc_read_def)
  then have "value_typed T_LONG v" using decode_typed by blast
  then show ?thesis by (cases rule: value_typed.cases) (auto simp: mv_base_def)
qed

lemma mk_NamedPropertyGuid_Inr_iff: "mk_NamedPropertyGuid raw = Inr g \<longleftrightarrow> 0 \<le> raw \<and> raw \<le> 0x7FFF \<and> g = NamedPropertyGuid raw"
  by (auto simp: mk_NamedPropertyGuid_def ebind_Inr_iff raise_if_Inr_iff)

lemma NameIdEntry_Inr_iff:
  "NameIdEntry i g p s = Inr e \<longleftrightarrow> 0 \<le> i \<and> i \<le> U32 \<and> 0 \<le> p \<and> p < NAMED_PROPERTY_BASE \<and>
     e = \<lparr>ni_name_id = i, ni_guid = g, ni_prop_index = p, ni_is_string = s\<rparr>"
  by (auto simp: NameIdEntry_def ebind_Inr_iff raise_if_Inr_iff)

lemma NameIdEntry_closed [simp, intro]: "fails_closed (NameIdEntry i g p s)"
  unfolding NameIdEntry_def by (intro fails_closed_ebind) auto

lemma NameIdEntry_unpack_from_closed [simp, intro]: "fails_closed (NameIdEntry_unpack_from buf off)"
  unfolding NameIdEntry_unpack_from_def mk_NamedPropertyGuid_def by (intro fails_closed_ebind) auto

lemma stream_parsers_closed [simp, intro]:
  "fails_closed (guids_of l data)" "fails_closed (entries_of l data)" "fails_closed (string_at data i)"
  "fails_closed (check_buckets ids n)" "fails_closed (add_by_prop_id seen e)"
  unfolding guids_of_def entries_of_def string_at_def check_buckets_def add_by_prop_id_def Let_def
  by (intro fails_closed_ebind fails_closed_emap fails_closed_raise_if fails_closed_Inr fails_closed_checks
      NameIdEntry_unpack_from_closed fails_closed_unpack; simp)+

definition nm_sound :: "named_map \<Rightarrow> bool" where
  "nm_sound nm \<longleftrightarrow> pc_ok (nm_pc nm) \<and> heap_ok (pc_heap (nm_pc nm))"

lemma nm_stream_closed [simp, intro]: "nm_sound nm \<Longrightarrow> fails_closed (nm_stream nm i)"
  unfolding nm_stream_def nm_sound_def
  by (intro fails_closed_ebind pc_records_closed) (auto split: option.split prop_value.split intro!: fails_closed_ebind)

lemma nm_guids_closed [simp, intro]: "nm_sound nm \<Longrightarrow> fails_closed (nm_guids nm)"
  unfolding nm_guids_def by (intro fails_closed_ebind) auto

lemma nm_entries_closed [simp, intro]: "nm_sound nm \<Longrightarrow> fails_closed (nm_entries nm)"
  unfolding nm_entries_def by (intro fails_closed_ebind) auto

lemma nm_string_bytes_closed [simp, intro]: "nm_sound nm \<Longrightarrow> fails_closed (nm_string_bytes nm i)"
  unfolding nm_string_bytes_def by (intro fails_closed_ebind) auto

lemma nm_guid_of_closed [simp, intro]: "nm_sound nm \<Longrightarrow> fails_closed (nm_guid_of nm e)"
  unfolding nm_guid_of_def
  by (auto split: option.split intro!: fails_closed_ebind
      simp: raise_if_Inr_iff py_index_ok NamedPropertyGuid_index_def NamedPropertyGuid_is_index_def split: if_splits)

lemma nm_key_closed [simp, intro]: "nm_sound nm \<Longrightarrow> fails_closed (nm_key nm e)"
  unfolding nm_key_def nm_name_of_def by (intro fails_closed_ebind fails_closed_if) auto

lemma nm_lookup_closed [simp, intro]: "nm_sound nm \<Longrightarrow> fails_closed (nm_lookup nm i)"
  unfolding nm_lookup_def nm_index_def case_prod_beta
  by (intro fails_closed_ebind fails_closed_efold) (auto split: option.split intro!: fails_closed_ebind)

lemma nm_resolve_closed [simp, intro]: "nm_sound nm \<Longrightarrow> fails_closed (nm_resolve nm g n)"
  unfolding nm_resolve_def nm_by_name_def by (intro fails_closed_ebind fails_closed_efold) auto

lemma nm_bucket_value_Inr:
  assumes "nm_bucket_value nm ids v = Inr n"
  shows "v = VInt n" "0 \<le> n" "n \<le> MAX_BUCKET_COUNT" "check_buckets ids n = Inr n"
proof -
  from assms obtain i where i: "v = VInt i" "0 \<le> i" "i \<le> MAX_BUCKET_COUNT"
    and check: "check_buckets ids i = Inr n"
    by (cases v) (auto simp: nm_bucket_value_def ebind_Inr_iff raise_if_Inr_iff)
  moreover from check have "n = i" by (auto simp: check_buckets_def Let_def ebind_Inr_iff)
  ultimately show "v = VInt n" "0 \<le> n" "n \<le> MAX_BUCKET_COUNT" "check_buckets ids n = Inr n" by simp_all
qed

lemma nm_bucket_value_closed: "nm_sound nm \<Longrightarrow> fails_closed (nm_bucket_value nm ids (VInt i))"
  unfolding nm_bucket_value_def prop_value.case
  by (intro fails_closed_ebind fails_closed_if fails_closed_raise_if fails_closed_Inr nm_entries_closed
      stream_parsers_closed; simp)

lemma nm_bucket_count_closed [simp, intro]:
  assumes sound: "nm_sound nm"
  shows "fails_closed (nm_bucket_count nm)"
proof -
  have ok: "pc_ok (nm_pc nm)" "heap_ok (pc_heap (nm_pc nm))" using sound by (simp_all add: nm_sound_def)
  have "fails_closed (ebind (pc_read (nm_pc nm) r) (nm_bucket_value nm ids))" if "pr_type r = T_LONG" for r ids
    using nm_bucket_value_closed [OF sound] pc_read_long [OF _ that] ok by (fastforce intro!: fails_closed_ebind)
  then show ?thesis unfolding nm_bucket_count_def
    by (intro fails_closed_ebind pc_records_closed ok)
      (auto split: option.split intro!: fails_closed_ebind [of "raise_if _ _"] simp: raise_if_Inr_iff)
qed

lemma nm_bucket_count_Inr:
  "nm_bucket_count nm = Inr n \<Longrightarrow>
   \<exists>records. pc_records (nm_pc nm) = Inr records \<and> 0 \<le> n \<and> n \<le> MAX_BUCKET_COUNT \<and>
     check_buckets (map fst records) n = Inr n"
  by (auto simp: nm_bucket_count_def ebind_Inr_iff split: option.splits dest: nm_bucket_value_Inr(2-4))

lemma nm_hash_bucket_closed [simp, intro]: "nm_sound nm \<Longrightarrow> fails_closed (nm_hash_bucket nm e)"
  unfolding nm_hash_bucket_def nm_hash_entry_def
  by (intro fails_closed_ebind fails_closed_if fails_closed_raise_if pc_records_closed)
    (auto simp: raise_if_Inr_iff py_mod_def nm_sound_def)

lemma NamedPropertyMap_from_node_Inr:
  assumes "NamedPropertyMap_from_node rd data sub l cp = Inr (nm, s)"
  shows "nm_ok nm" "nm_inv nm s" "reader_ok rd \<Longrightarrow> nm_sound nm"
  using assms PropertyContext_from_node_Inr [of rd data sub l cp]
  by (auto simp: NamedPropertyMap_from_node_def NamedPropertyMap_def ebind_Inr_iff nm_ok_def nm_sound_def nm_inv_def nm_fresh_def)

lemma NamedPropertyMap_from_node_closed [simp, intro]:
  "reader_ok rd \<Longrightarrow> fails_closed (NamedPropertyMap_from_node rd data sub l cp)"
  unfolding NamedPropertyMap_from_node_def case_prod_beta by (intro fails_closed_ebind) auto

section \<open>lookup and resolve\<close>

text \<open>The table of ids is the entry stream, refused on a repeated id; the table of names keeps the first id of a name.\<close>

lemma add_by_prop_id_iff:
  "efold add_by_prop_id seen es = Inr index \<longleftrightarrow>
     distinct (map NameIdEntry_prop_id es) \<and> set (map NameIdEntry_prop_id es) \<inter> set (map fst seen) = {} \<and>
     index = seen @ map (\<lambda>e. (NameIdEntry_prop_id e, e)) es"
proof (induction es arbitrary: seen)
  case (Cons e es)
  have "efold add_by_prop_id seen (e # es) = Inr index \<longleftrightarrow>
      NameIdEntry_prop_id e \<notin> set (map fst seen) \<and>
      efold add_by_prop_id (seen @ [(NameIdEntry_prop_id e, e)]) es = Inr index"
    by (auto simp: add_by_prop_id_def ebind_Inr_iff raise_if_Inr_iff map_of_eq_None_iff)
  then show ?case unfolding Cons.IH by auto
qed auto

theorem nm_index_iff:
  "nm_index nm = Inr index \<longleftrightarrow>
     (\<exists>es. nm_entries nm = Inr es \<and> distinct (map NameIdEntry_prop_id es) \<and>
        index = map (\<lambda>e. (NameIdEntry_prop_id e, e)) es)"
  by (auto simp: nm_index_def ebind_Inr_iff add_by_prop_id_iff)

lemma setdefault_run:
  assumes "efold (\<lambda>index e. ebind (key e) (\<lambda>k. Inr (dict_setdefault index k (val e)))) d es = Inr index"
  shows "\<forall>e \<in> set es. \<exists>k. key e = Inr k"
    and "map_of index k = (case map_of d k of Some v \<Rightarrow> Some v | None \<Rightarrow> map_option val (find (\<lambda>e. key e = Inr k) es))"
  using assms
proof (induction es arbitrary: d)
  case Nil
  { case 1 then show ?case by simp }
  { case 2 then show ?case by (auto split: option.split) }
next
  case (Cons e es)
  { case 1
    then show ?case using Cons.IH(1) by (auto simp: ebind_Inr_iff) }
  { case 2
    then obtain k' where k': "key e = Inr k'"
      and rest: "efold (\<lambda>index e. ebind (key e) (\<lambda>k. Inr (dict_setdefault index k (val e)))) (dict_setdefault d k' (val e)) es = Inr index"
      by (auto simp: ebind_Inr_iff)
    show ?case unfolding Cons.IH(2) [OF rest]
      by (cases "map_of d k") (auto simp: dict_setdefault_map_of k' domIff split: option.split) }
qed

lemma nm_by_name_Inr:
  assumes "nm_by_name nm = Inr index" "nm_entries nm = Inr es"
  shows "\<forall>e \<in> set es. \<exists>k. nm_key nm e = Inr k"
    and "map_of index k = map_option NameIdEntry_prop_id (find (\<lambda>e. nm_key nm e = Inr k) es)"
  using setdefault_run [of "nm_key nm" NameIdEntry_prop_id "[]" es index] assms by (auto simp: nm_by_name_def)

lemma nm_lookup_Some_iff:
  "nm_lookup nm i = Inr (Some p) \<longleftrightarrow>
     (\<exists>es e. nm_entries nm = Inr es \<and> distinct (map NameIdEntry_prop_id es) \<and> e \<in> set es \<and>
        NameIdEntry_prop_id e = i \<and> nm_key nm e = Inr (np_guid p, np_name p))"
  (is "?l \<longleftrightarrow> ?r")
proof -
  have get: "map_of (map (\<lambda>e. (NameIdEntry_prop_id e, e)) es) i = Some e \<longleftrightarrow> e \<in> set es \<and> NameIdEntry_prop_id e = i"
    if "distinct (map NameIdEntry_prop_id es)" for es e
    using that by (subst map_of_eq_Some_iff) (auto simp: comp_def)
  have "?l \<longleftrightarrow> (\<exists>index e. nm_index nm = Inr index \<and> map_of index i = Some e \<and> nm_key nm e = Inr (np_guid p, np_name p))"
    by (cases p) (auto simp: nm_lookup_def ebind_Inr_iff split: option.splits)
  also have "\<dots> \<longleftrightarrow> ?r" unfolding nm_index_iff using get by blast
  finally show ?thesis .
qed

lemma nm_lookup_resolve:
  assumes "nm_lookup nm i = Inr (Some p)" "nm_resolve nm (np_guid p) (np_name p) = Inr r"
  shows "\<exists>j. r = Some j \<and> nm_lookup nm j = Inr (Some p)"
proof -
  let ?k = "(np_guid p, np_name p)"
  obtain es e where es: "nm_entries nm = Inr es" "distinct (map NameIdEntry_prop_id es)" "e \<in> set es" "nm_key nm e = Inr ?k"
    using assms(1) unfolding nm_lookup_Some_iff by blast
  obtain index where ix: "nm_by_name nm = Inr index" "r = map_of index ?k"
    using assms(2) by (auto simp: nm_resolve_def ebind_Inr_iff)
  have "find (\<lambda>e. nm_key nm e = Inr ?k) es \<noteq> None" using es(3,4) by (auto simp: find_None_iff)
  then obtain e' where e': "find (\<lambda>e. nm_key nm e = Inr ?k) es = Some e'" by auto
  then have "e' \<in> set es" "nm_key nm e' = Inr ?k" by (auto simp: find_Some_iff)
  then have "nm_lookup nm (NameIdEntry_prop_id e') = Inr (Some p)" unfolding nm_lookup_Some_iff using es by blast
  moreover have "r = Some (NameIdEntry_prop_id e')" using nm_by_name_Inr(2) [OF ix(1) es(1)] ix(2) e' by simp
  ultimately show ?thesis by blast
qed

lemma nm_resolve_lookup:
  assumes "nm_resolve nm g n = Inr (Some i)" "nm_lookup nm i = Inr r"
  shows "r = Some \<lparr>np_guid = g, np_name = n\<rparr>"
proof -
  obtain index where ix: "nm_by_name nm = Inr index" "map_of index (g, n) = Some i"
    using assms(1) by (auto simp: nm_resolve_def ebind_Inr_iff)
  obtain index' where "nm_index nm = Inr index'" using assms(2) by (auto simp: nm_lookup_def ebind_Inr_iff)
  then obtain es where es: "nm_entries nm = Inr es" "distinct (map NameIdEntry_prop_id es)"
    unfolding nm_index_iff by blast
  obtain e where e: "find (\<lambda>e. nm_key nm e = Inr (g, n)) es = Some e" "NameIdEntry_prop_id e = i"
    using nm_by_name_Inr(2) [OF ix(1) es(1), of "(g, n)"] unfolding ix(2) by (auto dest!: sym [of "Some i"])
  then have "e \<in> set es" "nm_key nm e = Inr (g, n)" by (auto simp: find_Some_iff)
  then have "nm_lookup nm i = Inr (Some \<lparr>np_guid = g, np_name = n\<rparr>)"
    unfolding nm_lookup_Some_iff using es e(2) by auto
  with assms(2) show ?thesis by simp
qed

section \<open>Writing a map\<close>

definition NameIdEntry_pack :: "name_id_entry \<Rightarrow> bytes" where
  "NameIdEntry_pack e = struct_pack NAME_ID_FORMAT
     [ni_name_id e, 2 * npg_raw (ni_guid e) + of_bool (ni_is_string e), ni_prop_index e]"

definition name_id_entry_ok :: "name_id_entry \<Rightarrow> bool" where
  "name_id_entry_ok e \<longleftrightarrow> 0 \<le> ni_name_id e \<and> ni_name_id e \<le> U32 \<and> 0 \<le> npg_raw (ni_guid e) \<and> npg_raw (ni_guid e) \<le> 0x7FFF \<and>
     0 \<le> ni_prop_index e \<and> ni_prop_index e < NAMED_PROPERTY_BASE"

lemma name_id_sizes: "NAME_ID_SIZE = 8" "STRING_LENGTH_SIZE = 4"
  by (simp_all add: NAME_ID_SIZE_def NAME_ID_FORMAT_def STRING_LENGTH_SIZE_def STRING_LENGTH_FORMAT_def calcsize_def)

interpretation NameIdEntry_codec: codec NameIdEntry_unpack_from NameIdEntry_pack 8 name_id_entry_ok
proof
  show "len (NameIdEntry_pack x) = 8" for x
    by (simp add: NameIdEntry_pack_def NAME_ID_FORMAT_def length_struct_pack)
  show "NameIdEntry_unpack_from (pre @ NameIdEntry_pack x @ post) (len pre) = Inr x" if ok: "name_id_entry_ok x" for x pre post
  proof -
    let ?w = "2 * npg_raw (ni_guid x) + of_bool (ni_is_string x)"
    have un: "unpack NAME_ID_FORMAT (pre @ NameIdEntry_pack x @ post) (len pre) = Inr [ni_name_id x, ?w, ni_prop_index x]"
      unfolding NameIdEntry_pack_def using ok
      by (intro unpack_pack) (auto simp: NAME_ID_FORMAT_def name_id_entry_ok_def U32_def NAMED_PROPERTY_BASE_def of_bool_def)
    have "drop_bit 1 ?w = npg_raw (ni_guid x)" by (simp add: drop_bit_eq_div)
    moreover have "(?w AND 1 \<noteq> 0) = ni_is_string x" by (simp add: and_one_eq odd_iff_mod_2_eq_one [symmetric])
    moreover have "mk_NamedPropertyGuid (npg_raw (ni_guid x)) = Inr (ni_guid x)"
      using ok by (cases "ni_guid x") (simp add: mk_NamedPropertyGuid_Inr_iff name_id_entry_ok_def)
    ultimately show ?thesis using un ok
      by (simp add: NameIdEntry_unpack_from_def NameIdEntry_Inr_iff name_id_entry_ok_def)
  qed
  show "0 \<le> off \<and> off + 8 \<le> len buf" if "NameIdEntry_unpack_from buf off = Inr x" for buf off x
    using that by (auto simp: NameIdEntry_unpack_from_def ebind_Inr_iff unpack_Inr_iff NAME_ID_FORMAT_def calcsize_def)
qed (rule NameIdEntry_unpack_from_closed)

lemma entries_of_written:
  assumes "\<forall>e \<in> set es. name_id_entry_ok e" "len es \<le> max_items l"
  shows "entries_of l (concat (map NameIdEntry_pack es)) = Inr es"
proof -
  let ?data = "concat (map NameIdEntry_pack es)"
  have len: "len ?data = len es * 8"
    using NameIdEntry_codec.length_concat_encode [of es "[]"] assms(1) by simp
  have "emap (\<lambda>i. NameIdEntry_unpack_from ?data (int i * 8)) [0..<length es] = Inr es"
    using NameIdEntry_codec.decode_array [of es 0 "[]" "[]" "[]"] assms(1) by simp
  then have "emap (NameIdEntry_unpack_from ?data) (range_by (len ?data) 8) = Inr es"
    unfolding len by (simp add: range_by_multiple emap_map)
  then show ?thesis using assms(2) by (simp add: entries_of_def name_id_sizes len check_ok)
qed

lemma guids_of_written:
  assumes "\<forall>g \<in> set gs. 0 \<le> g \<and> g < 2 ^ 128" "len gs \<le> max_items l"
  shows "guids_of l (concat (map uuid_bytes_le gs)) = Inr gs"
proof -
  let ?data = "concat (map uuid_bytes_le gs)"
  have sixteen: "\<forall>x \<in> set (map uuid_bytes_le gs). len x = 16" by simp
  have len: "len ?data = len gs * 16" using length_concat_const [OF sixteen] by simp
  have "uuid_of_bytes_le (slice ?data (int i * 16) (int i * 16 + 16)) = gs ! i" if "i < length gs" for i
    using slice_concat [OF sixteen, of i 0 16] that assms(1) slice_full [of "uuid_bytes_le (gs ! i)"] uuid_roundtrip [of "gs ! i"]
    by simp
  then have "map (\<lambda>at. uuid_of_bytes_le (slice ?data at (at + 16))) (range_by (len ?data) 16) = gs"
    unfolding len by (intro nth_equalityI) (simp_all add: range_by_multiple)
  then show ?thesis using assms(2) by (simp add: guids_of_def GUID_SIZE_def len check_ok)
qed

type_synonym names = "(int \<times> prop_name) list"

definition string_piece :: "int \<times> prop_name \<Rightarrow> bytes" where
  "string_piece n = (case snd n of
     NameStr s \<Rightarrow> struct_pack STRING_LENGTH_FORMAT [len (utf16_bytes s)] @ utf16_bytes s
   | NameInt i \<Rightarrow> [])"

definition string_stream :: "names \<Rightarrow> bytes" where
  "string_stream names = concat (map string_piece names)"

definition guid_stream :: "names \<Rightarrow> bytes" where
  "guid_stream names = concat (map (\<lambda>n. uuid_bytes_le (fst n)) names)"

definition named_entry :: "names \<Rightarrow> nat \<Rightarrow> name_id_entry" where
  "named_entry names i =
     \<lparr>ni_name_id = (case snd (names ! i) of NameStr s \<Rightarrow> len (string_stream (take i names)) | NameInt k \<Rightarrow> k),
      ni_guid = NamedPropertyGuid (int i + 3), ni_prop_index = int i,
      ni_is_string = (case snd (names ! i) of NameStr s \<Rightarrow> True | NameInt k \<Rightarrow> False)\<rparr>"

definition named_entries :: "names \<Rightarrow> name_id_entry list" where
  "named_entries names = map (named_entry names) [0..<length names]"

definition entry_stream :: "names \<Rightarrow> bytes" where
  "entry_stream names = concat (map NameIdEntry_pack (named_entries names))"

definition writable_name :: "int \<times> prop_name \<Rightarrow> bool" where
  "writable_name n \<longleftrightarrow> 0 \<le> fst n \<and> fst n < 2 ^ 128 \<and>
     (case snd n of NameStr s \<Rightarrow> \<forall>c \<in> set s. is_scalar c \<and> c \<noteq> 0 | NameInt k \<Rightarrow> 0 \<le> k \<and> k \<le> U32)"

definition writable_names :: "limits \<Rightarrow> names \<Rightarrow> bool" where
  "writable_names l names \<longleftrightarrow> (\<forall>n \<in> set names. writable_name n) \<and> len (string_stream names) \<le> U32 \<and>
     len names \<le> 0x7FFC \<and> len names \<le> max_items l"

lemma utf16_replace_plain:
  "\<not> is_high_surrogate u \<Longrightarrow> \<not> is_low_surrogate u \<Longrightarrow> utf16_replace (u # us) = u # utf16_replace us"
  by (cases us) simp_all

lemma utf16_replace_encode: "\<forall>c \<in> set s. is_scalar c \<Longrightarrow> utf16_replace (utf16_encode s) = s"
proof (induction s)
  case Nil
  show ?case by (simp add: utf16_encode_def)
next
  case (Cons c s)
  then have c: "is_scalar c" and IH: "utf16_replace (utf16_encode s) = s" by simp_all
  have enc: "utf16_encode (c # s) = utf16_char c @ utf16_encode s" by (simp add: utf16_encode_def)
  from c show ?case
  proof (cases rule: utf16_char_cases)
    case bmp
    with IH show ?thesis by (simp add: enc utf16_replace_plain)
  next
    case (pair h l)
    with IH show ?thesis by (simp add: enc)
  qed
qed

lemma utf16_bytes_facts:
  assumes "\<forall>c \<in> set s. is_scalar c \<and> c \<noteq> 0"
  shows "utf16_replace (utf16_units (utf16_bytes s)) = s" "len (utf16_bytes s) mod 2 = 0"
proof -
  have "utf16_units (utf16_bytes s @ []) = utf16_encode s @ utf16_units []"
    unfolding utf16_bytes_def using utf16_encode_units [OF assms] by (intro utf16_units_bytes) force
  then show "utf16_replace (utf16_units (utf16_bytes s)) = s" using utf16_replace_encode [of s] assms by simp
  show "len (utf16_bytes s) mod 2 = 0"
    unfolding utf16_bytes_def by (simp add: length_concat comp_def sum_list_triv)
qed

lemma string_at_written:
  assumes "\<forall>c \<in> set s. is_scalar c \<and> c \<noteq> 0" "len (utf16_bytes s) \<le> U32"
  shows "string_at (pre @ (struct_pack STRING_LENGTH_FORMAT [len (utf16_bytes s)] @ utf16_bytes s) @ post) (len pre) =
    Inr (utf16_bytes s)"
proof -
  let ?n = "len (utf16_bytes s)" and ?p = "struct_pack STRING_LENGTH_FORMAT [len (utf16_bytes s)]"
  have f: "fits STRING_LENGTH_FORMAT [?n]" using assms(2) by (simp add: STRING_LENGTH_FORMAT_def U32_def)
  have u: "unpack STRING_LENGTH_FORMAT (pre @ (?p @ utf16_bytes s) @ post) (len pre) = Inr [?n]"
    using unpack_pack [OF f, of pre "utf16_bytes s @ post"] by (simp only: append_assoc)
  have l: "length ?p = 4" by (simp add: STRING_LENGTH_FORMAT_def)
  have "slice (pre @ (?p @ utf16_bytes s) @ post) (len pre + 4) (len pre + 4 + ?n) = utf16_bytes s"
    using l by (simp add: slice_def nat_add_distrib)
  then show ?thesis using u l utf16_bytes_facts(2) [OF assms(1)]
    by (simp add: string_at_def Let_def name_id_sizes)
qed

lemma string_stream_split:
  "i < length names \<Longrightarrow>
   string_stream names = string_stream (take i names) @ string_piece (names ! i) @ string_stream (drop (Suc i) names)"
  unfolding string_stream_def using concat_nth_split [of i "map string_piece names"] by (simp add: take_map drop_map)

text \<open>A map whose three streams are those of a list of names.\<close>

definition carries_names :: "named_map \<Rightarrow> names \<Rightarrow> bool" where
  "carries_names nm names \<longleftrightarrow> writable_names (nm_limits nm) names \<and>
     nm_stream nm PID_TAG_NAMEID_STREAM_GUID = Inr (guid_stream names) \<and>
     nm_stream nm PID_TAG_NAMEID_STREAM_ENTRY = Inr (entry_stream names) \<and>
     nm_stream nm PID_TAG_NAMEID_STREAM_STRING = Inr (string_stream names)"

lemma carried_entries:
  assumes "carries_names nm names"
  shows "nm_entries nm = Inr (named_entries names)"
proof -
  have w: "writable_names (nm_limits nm) names" using assms by (simp add: carries_names_def)
  have "name_id_entry_ok (named_entry names i)" if "i < length names" for i
  proof -
    have n: "writable_name (names ! i)" using w that by (simp add: writable_names_def)
    have "len (string_stream (take i names)) \<le> U32"
      using w string_stream_split [OF that] by (simp add: writable_names_def)
    then show ?thesis using n w that
      by (auto simp: name_id_entry_ok_def named_entry_def writable_name_def writable_names_def NAMED_PROPERTY_BASE_def
          split: prop_name.splits)
  qed
  then have "entries_of (nm_limits nm) (entry_stream names) = Inr (named_entries names)"
    unfolding entry_stream_def using w by (intro entries_of_written) (auto simp: named_entries_def writable_names_def)
  then show ?thesis using assms by (simp add: nm_entries_def carries_names_def)
qed

lemma carried_key:
  assumes "carries_names nm names" "i < length names"
  shows "nm_key nm (named_entry names i) = Inr (names ! i)"
proof -
  have w: "writable_names (nm_limits nm) names" using assms(1) by (simp add: carries_names_def)
  have n: "writable_name (names ! i)" using w assms(2) by (simp add: writable_names_def)
  have "guids_of (nm_limits nm) (guid_stream names) = Inr (map fst names)"
    unfolding guid_stream_def using guids_of_written [of "map fst names" "nm_limits nm"] w
    by (auto simp: writable_names_def writable_name_def comp_def)
  then have guids: "nm_guids nm = Inr (map fst names)" using assms(1) by (simp add: nm_guids_def carries_names_def)
  have "nm_guid_of nm (named_entry names i) = Inr (fst (names ! i))"
    using guids assms(2)
    by (simp add: nm_guid_of_def named_entry_def NamedPropertyGuid_well_known_def NamedPropertyGuid_index_def
        NamedPropertyGuid_is_index_def GUID_MAPI_def GUID_PUBLIC_STRINGS_def GUID_INDEX_BASE_def py_index_ok)
  moreover have "nm_name_of nm (named_entry names i) = Inr (snd (names ! i))"
  proof (cases "snd (names ! i)")
    case (NameInt k)
    then show ?thesis by (simp add: nm_name_of_def named_entry_def)
  next
    case (NameStr s)
    then have s: "\<forall>c \<in> set s. is_scalar c \<and> c \<noteq> 0" using n by (simp add: writable_name_def)
    have piece: "string_piece (names ! i) = struct_pack STRING_LENGTH_FORMAT [len (utf16_bytes s)] @ utf16_bytes s"
      using NameStr by (simp add: string_piece_def)
    have "len (utf16_bytes s) \<le> U32"
      using w string_stream_split [OF assms(2)] piece by (simp add: writable_names_def)
    from string_at_written [OF s this, of "string_stream (take i names)" "string_stream (drop (Suc i) names)"]
    have "string_at (string_stream names) (len (string_stream (take i names))) = Inr (utf16_bytes s)"
      unfolding string_stream_split [OF assms(2)] piece by simp
    then show ?thesis using NameStr assms(1) utf16_bytes_facts(1) [OF s]
      by (simp add: nm_name_of_def nm_string_bytes_def named_entry_def carries_names_def)
  qed
  ultimately show ?thesis by (simp add: nm_key_def)
qed

definition first_position :: "'a list \<Rightarrow> 'a \<Rightarrow> nat option" where
  "first_position xs x = find (\<lambda>i. xs ! i = x) [0..<length xs]"

lemma find_map: "find P (map f xs) = map_option f (find (P \<circ> f) xs)"
  by (induction xs) auto

lemma carried_by_name:
  assumes c: "carries_names nm names"
  shows "nm_resolve nm g n = Inr (map_option (\<lambda>i. 0x8000 + int i) (first_position names (g, n)))"
proof -
  have "efold (\<lambda>index e. ebind (nm_key nm e) (\<lambda>k. Inr (dict_setdefault index k (NameIdEntry_prop_id e)))) [] (named_entries names) =
      Inr (foldl (\<lambda>index e. dict_setdefault index (names ! nat (ni_prop_index e)) (NameIdEntry_prop_id e)) [] (named_entries names))"
    using carried_key [OF c] by (intro efold_Inr_foldl) (auto simp: named_entries_def named_entry_def)
  then obtain index where ix: "nm_by_name nm = Inr index" using carried_entries [OF c] by (simp add: nm_by_name_def)
  have "find (\<lambda>e. nm_key nm e = Inr (g, n)) (named_entries names) =
      map_option (named_entry names) (find (\<lambda>i. nm_key nm (named_entry names i) = Inr (g, n)) [0..<length names])"
    by (simp add: named_entries_def find_map comp_def)
  also have "find (\<lambda>i. nm_key nm (named_entry names i) = Inr (g, n)) [0..<length names] = first_position names (g, n)"
    unfolding first_position_def using carried_key [OF c] by (intro find_cong) auto
  finally have "map_of index (g, n) = map_option NameIdEntry_prop_id (map_option (named_entry names) (first_position names (g, n)))"
    using nm_by_name_Inr(2) [OF ix carried_entries [OF c]] by simp
  then show ?thesis using ix
    by (simp add: nm_resolve_def option.map_comp comp_def NameIdEntry_prop_id_def NAMED_PROPERTY_BASE_def named_entry_def)
qed

lemma carried_lookup:
  assumes c: "carries_names nm names"
  shows "nm_lookup nm pid = Inr (if 0x8000 \<le> pid \<and> pid < 0x8000 + len names
     then Some \<lparr>np_guid = fst (names ! nat (pid - 0x8000)), np_name = snd (names ! nat (pid - 0x8000))\<rparr> else None)"
proof -
  have ids: "map NameIdEntry_prop_id (named_entries names) = map (\<lambda>i. 0x8000 + int i) [0..<length names]"
    by (simp add: named_entries_def named_entry_def NameIdEntry_prop_id_def NAMED_PROPERTY_BASE_def)
  have d: "distinct (map NameIdEntry_prop_id (named_entries names))"
    unfolding ids by (simp add: distinct_map inj_on_def)
  then have ix: "nm_index nm = Inr (map (\<lambda>e. (NameIdEntry_prop_id e, e)) (named_entries names))"
    unfolding nm_index_iff using carried_entries [OF c] by blast
  show ?thesis
  proof (cases "0x8000 \<le> pid \<and> pid < 0x8000 + len names")
    case True
    let ?i = "nat (pid - 0x8000)" and ?n = "names ! nat (pid - 0x8000)"
    have "?i < length names" using True by auto
    moreover from this have "named_entry names ?i \<in> set (named_entries names)" by (simp add: named_entries_def)
    moreover have "NameIdEntry_prop_id (named_entry names ?i) = pid"
      using True by (simp add: named_entry_def NameIdEntry_prop_id_def NAMED_PROPERTY_BASE_def)
    ultimately have "nm_lookup nm pid = Inr (Some \<lparr>np_guid = fst ?n, np_name = snd ?n\<rparr>)"
      unfolding nm_lookup_Some_iff using carried_entries [OF c] d carried_key [OF c] by auto
    with True show ?thesis by simp
  next
    case False
    have "pid \<notin> set (map NameIdEntry_prop_id (named_entries names))" unfolding ids using False by auto
    then have "map_of (map (\<lambda>e. (NameIdEntry_prop_id e, e)) (named_entries names)) pid = None"
      by (simp add: map_of_eq_None_iff image_comp)
    with False ix show ?thesis by (simp add: nm_lookup_def)
  qed
qed

lemma nm_lookup_plain:
  assumes "nm_ok nm" "nm_inv nm s"
  shows "nm_exact nm \<Longrightarrow> fst (NamedPropertyMap_lookup nm i s) = nm_lookup nm i"
    and "fst (NamedPropertyMap_lookup nm i s) = Inr x \<Longrightarrow> nm_lookup nm i = Inr x"
  using nm_lookup_implements [OF assms(1), of i] assms(2) by (auto simp: implements_def)

lemma nm_resolve_plain:
  assumes "nm_ok nm" "nm_inv nm s"
  shows "nm_exact nm \<Longrightarrow> fst (NamedPropertyMap_resolve nm g n s) = nm_resolve nm g n"
    and "fst (NamedPropertyMap_resolve nm g n s) = Inr y \<Longrightarrow> nm_resolve nm g n = Inr y"
  using nm_resolve_implements [OF assms(1), of g n] assms(2) by (auto simp: implements_def)

section \<open>Properties\<close>

text \<open>C32: a written map reads back. When the three streams hold a list of (GUID, name) pairs as a writer lays them
  out, \<open>lookup\<close> gives pair \<open>i\<close> for property id \<open>0x8000 + i\<close> and None for every other id, and \<open>resolve\<close> gives
  the id of the first position at which a pair stands, or None, from every state of the map's memory.\<close>

theorem NamedPropertyMap_roundtrip:
  assumes "nm_ok nm" "nm_exact nm" "nm_inv nm s" "carries_names nm names"
  shows "fst (NamedPropertyMap_lookup nm pid s) = Inr (if 0x8000 \<le> pid \<and> pid < 0x8000 + len names
      then Some \<lparr>np_guid = fst (names ! nat (pid - 0x8000)), np_name = snd (names ! nat (pid - 0x8000))\<rparr> else None) \<and>
    fst (NamedPropertyMap_resolve nm g n s) = Inr (map_option (\<lambda>i. 0x8000 + int i) (first_position names (g, n)))"
  using nm_lookup_plain(1) [OF assms(1,3,2)] nm_resolve_plain(1) [OF assms(1,3,2)]
    carried_lookup [OF assms(4)] carried_by_name [OF assms(4)]
  by simp

definition sample_names :: names where
  "sample_names = [(5, NameStr [0x41]), (7, NameInt 0x8233)]"

definition sample_name_properties :: "property list" where
  "sample_name_properties =
     [(2, T_BINARY, VBytes (guid_stream sample_names)), (3, T_BINARY, VBytes (entry_stream sample_names)),
      (4, T_BINARY, VBytes (string_stream sample_names))]"

definition sample_map :: named_map where
  "sample_map = NamedPropertyMap (written_pc sample_name_properties None) None"

lemma sample_name_streams:
  "guid_stream sample_names = [0, 0, 0, 0, 0, 0, 0, 0, 0, 0, 0, 0, 0, 0, 0, 5, 0, 0, 0, 0, 0, 0, 0, 0, 0, 0, 0, 0, 0, 0, 0, 7]"
  "string_stream sample_names = [2, 0, 0, 0, 0x41, 0]"
  "entry_stream sample_names = [0, 0, 0, 0, 7, 0, 0, 0, 0x33, 0x82, 0, 0, 8, 0, 1, 0]"
  by (code_simp, code_simp, code_simp)

lemma sample_name_properties_writable: "writable_pc sample_name_properties"
proof -
  have "\<forall>p \<in> set sample_name_properties. writable_property p"
    by (auto simp: sample_name_properties_def writable_property_def sample_name_streams encode_value_def intro: typed_binary)
  moreover have "len (concat (pc_items sample_name_properties)) = 86" "len (pc_items sample_name_properties) = 5"
    using leaf_bytes_length [of "written_records sample_name_properties"]
    by (simp_all add: pc_items_def written_records_simps sample_name_properties_def value_item_def encode_value_def
        sample_name_streams bth_header_bytes_def BTH_HEADER_FORMAT_def)
  ultimately show ?thesis
    by (simp add: writable_pc_def writable_heap_block_def heap_id_ok_def U32_def heap_header_size_def heap_formats
        sample_name_properties_def)
qed

lemma nm_stream_get: "pc_get (nm_pc nm) i = Inr (VBytes b) \<Longrightarrow> nm_stream nm i = Inr b"
  by (auto simp: pc_get_def nm_stream_def ebind_Inr_iff split: option.splits)

lemma sample_map_facts: "nm_ok sample_map" "nm_exact sample_map" "nm_inv sample_map (nm_fresh (pc_fresh heap_fresh))"
  "carries_names sample_map sample_names"
proof -
  have pc: "nm_pc sample_map = written_pc sample_name_properties None" by (simp add: sample_map_def NamedPropertyMap_def)
  note w = sample_name_properties_writable
  have heap: "pc_heap (written_pc ps cp) = pc_heap_of ps" "ht_heap (pc_tree (written_pc ps cp)) = pc_heap_of ps" for ps cp
    by (simp_all add: written_pc_at_def)
  show "nm_ok sample_map" using pc_bth_ok
    by (simp add: nm_ok_def pc pc_ok_def heap) (simp add: written_pc_at_def pc_bth_def PC_KEY_SIZE_def PC_RECORD_SIZE_def)
  show "nm_exact sample_map" using pc_heap_budget [OF w] by (simp add: nm_exact_def pc heap)
  show "nm_inv sample_map (nm_fresh (pc_fresh heap_fresh))"
    using heap_inv_fresh by (simp add: nm_inv_def nm_fresh_def pc_inv_def pc_fresh_def)
  have "nm_stream sample_map i = Inr b" if "(i, T_BINARY, VBytes b) \<in> set sample_name_properties" for i b
    by (rule nm_stream_get) (use written_pc_get(1) [OF w that] pc in simp)
  moreover have "nm_limits sample_map = DEFAULT_LIMITS" by (simp add: sample_map_def NamedPropertyMap_def written_pc_at_def)
  ultimately show "carries_names sample_map sample_names"
    by (simp add: carries_names_def sample_name_properties_def PID_TAG_NAMEID_STREAM_GUID_def PID_TAG_NAMEID_STREAM_ENTRY_def
        PID_TAG_NAMEID_STREAM_STRING_def writable_names_def sample_name_streams default_limits_simps U32_def)
      (simp add: sample_names_def writable_name_def is_scalar_def U32_def)
qed

theorem NamedPropertyMap_roundtrip_witness:
  "fst (NamedPropertyMap_lookup sample_map 0x8001 (nm_fresh (pc_fresh heap_fresh))) =
     Inr (Some \<lparr>np_guid = 7, np_name = NameInt 0x8233\<rparr>) \<and>
   fst (NamedPropertyMap_resolve sample_map 5 (NameStr [0x41]) (nm_fresh (pc_fresh heap_fresh))) = Inr (Some 0x8000)"
  using NamedPropertyMap_roundtrip [OF sample_map_facts, where pid = "0x8001" and g = 5 and n = "NameStr [0x41]"]
  by (simp add: sample_names_def first_position_def upt_conv_Cons)

text \<open>C33: \<open>lookup\<close> and \<open>resolve\<close> are inverse to one another on every file. What \<open>resolve\<close> gives for a name, \<open>lookup\<close>
  takes back to that name; and a name \<open>lookup\<close> gave resolves to an id with the same meaning. No more
  is assumed than that the calls return, in whatever states the map's memory is.\<close>

theorem NamedPropertyMap_inverse:
  assumes "nm_ok nm" "nm_inv nm s1" "nm_inv nm s2" "nm_inv nm s3"
  shows "(fst (NamedPropertyMap_resolve nm g n s1) = Inr (Some i) \<and> fst (NamedPropertyMap_lookup nm i s2) = Inr r \<longrightarrow>
       r = Some \<lparr>np_guid = g, np_name = n\<rparr>) \<and>
    (fst (NamedPropertyMap_lookup nm i s1) = Inr (Some p) \<and>
     fst (NamedPropertyMap_resolve nm (np_guid p) (np_name p) s2) = Inr q \<longrightarrow>
       (\<exists>j. q = Some j \<and> (\<forall>r'. fst (NamedPropertyMap_lookup nm j s3) = Inr r' \<longrightarrow> r' = Some p)))"
proof (intro conjI impI)
  note ok = assms(1)
  assume a: "fst (NamedPropertyMap_resolve nm g n s1) = Inr (Some i) \<and> fst (NamedPropertyMap_lookup nm i s2) = Inr r"
  have "nm_resolve nm g n = Inr (Some i)" using nm_resolve_plain(2) [OF ok assms(2)] a by blast
  moreover have "nm_lookup nm i = Inr r" using nm_lookup_plain(2) [OF ok assms(3)] a by blast
  ultimately show "r = Some \<lparr>np_guid = g, np_name = n\<rparr>" by (rule nm_resolve_lookup)
next
  note ok = assms(1)
  assume a: "fst (NamedPropertyMap_lookup nm i s1) = Inr (Some p) \<and>
     fst (NamedPropertyMap_resolve nm (np_guid p) (np_name p) s2) = Inr q"
  have "nm_lookup nm i = Inr (Some p)" using nm_lookup_plain(2) [OF ok assms(2)] a by blast
  moreover have "nm_resolve nm (np_guid p) (np_name p) = Inr q" using nm_resolve_plain(2) [OF ok assms(3)] a by blast
  ultimately obtain j where j: "q = Some j" "nm_lookup nm j = Inr (Some p)" using nm_lookup_resolve by blast
  have "r' = Some p" if "fst (NamedPropertyMap_lookup nm j s3) = Inr r'" for r'
    using nm_lookup_plain(2) [OF ok assms(4) that] j(2) by simp
  with j(1) show "\<exists>j. q = Some j \<and> (\<forall>r'. fst (NamedPropertyMap_lookup nm j s3) = Inr r' \<longrightarrow> r' = Some p)" by blast
qed

theorem NamedPropertyMap_inverse_witness:
  "\<exists>j. fst (NamedPropertyMap_resolve sample_map 7 (NameInt 0x8233) (nm_fresh (pc_fresh heap_fresh))) = Inr (Some j) \<and>
     fst (NamedPropertyMap_lookup sample_map j (nm_fresh (pc_fresh heap_fresh))) = Inr (Some \<lparr>np_guid = 7, np_name = NameInt 0x8233\<rparr>)"
proof -
  let ?s = "nm_fresh (pc_fresh heap_fresh)"
  note f = sample_map_facts
  have "fst (NamedPropertyMap_resolve sample_map 7 (NameInt 0x8233) ?s) = Inr (Some 0x8001)"
    using nm_resolve_plain(1) [OF f(1,3,2)] carried_by_name [OF f(4)]
    by (simp add: sample_names_def first_position_def upt_conv_Cons)
  moreover obtain r where "fst (NamedPropertyMap_lookup sample_map 0x8001 ?s) = Inr r"
    using nm_lookup_plain(1) [OF f(1,3,2)] carried_lookup [OF f(4)] by simp
  ultimately show ?thesis
    using NamedPropertyMap_inverse [OF f(1) f(3) f(3) f(3), where g = 7 and n = "NameInt 0x8233" and i = "0x8001" and r = r] by auto
qed

definition nm_behaves :: "named_map \<Rightarrow> (nm_state, 'a) st \<Rightarrow> 'a result \<Rightarrow> bool" where
  "nm_behaves nm m p \<longleftrightarrow> (\<forall>s. nm_inv nm s \<longrightarrow> nm_inv nm (snd (m s)) \<and> fails_closed (fst (m s)) \<and>
     (fst (m s) = p \<or> \<not> nm_exact nm \<and> fst (m s) = Inl PstLimitError))"

lemma nm_behavesI: "implements (nm_inv nm) (nm_exact nm) m p \<Longrightarrow> fails_closed p \<Longrightarrow> nm_behaves nm m p"
  using implements_closed [of "nm_inv nm" "nm_exact nm" m p]
  by (simp add: nm_behaves_def implements_def st_keeps_def)

text \<open>Reading the map ends, on every file, in a value or a PstError, and its memory is invisible: from every
  state a map can be in, \<open>lookup\<close>, \<open>resolve\<close> and \<open>hash_bucket\<close> give what the streams say or, only when the
  heap's items exceed their ceiling, a limit error, and they leave a state the map can be in.\<close>

theorem NamedPropertyMap_total:
  assumes "reader_ok rd"
  shows "fails_closed (NamedPropertyMap_from_node rd data sub l cp) \<and>
    (\<forall>nm s. NamedPropertyMap_from_node rd data sub l cp = Inr (nm, s) \<longrightarrow> nm_inv nm s \<and>
       nm_behaves nm (NamedPropertyMap_lookup nm i) (nm_lookup nm i) \<and>
       nm_behaves nm (NamedPropertyMap_resolve nm g n) (nm_resolve nm g n) \<and>
       nm_behaves nm (NamedPropertyMap_hash_bucket nm e) (nm_hash_bucket nm e))"
proof (intro conjI allI impI)
  show "fails_closed (NamedPropertyMap_from_node rd data sub l cp)" using assms by simp
  fix nm s assume "NamedPropertyMap_from_node rd data sub l cp = Inr (nm, s)"
  note F = NamedPropertyMap_from_node_Inr [OF this]
  show "nm_inv nm s" by (rule F(2))
  show "nm_behaves nm (NamedPropertyMap_lookup nm i) (nm_lookup nm i)"
    "nm_behaves nm (NamedPropertyMap_resolve nm g n) (nm_resolve nm g n)"
    "nm_behaves nm (NamedPropertyMap_hash_bucket nm e) (nm_hash_bucket nm e)"
    using F(1) F(3) [OF assms] by (auto intro!: nm_behavesI)
qed

end
