(* ===== verification/Pst_Store.thy ===== *)
theory Pst_Store
  imports Pst_Named_Prop
begin

text \<open>
  \<open>src/pypstreader/messaging/store.py\<close>: entry ids, and the store, the object that owns the open file. An
  object of the messaging layer is a record of what its constructor read, and what it remembers is
  the state of its property context and of its tables: each operation is a state transformer of the
  part it uses. The node B-tree's page cache is left out here, as it never shows (\<open>node_lookup_cache\<close>).
  Opening and closing the file are the operating system's and are not modelled: the file is its bytes.
\<close>

section \<open>Operations of an object that remembers\<close>

text \<open>
  \<open>behaves\<close>: some result, with no exception but those in \<open>E\<close>, is what the operation gives from every
  good state (but for a resource limit when \<open>exact\<close> is not granted), and the states stay good.
\<close>

definition behaves :: "('s \<Rightarrow> bool) \<Rightarrow> bool \<Rightarrow> (error \<Rightarrow> bool) \<Rightarrow> ('s, 'a) st \<Rightarrow> bool" where
  "behaves I exact E m \<longleftrightarrow> (\<exists>p. implements I exact m p \<and> (\<forall>e. p = Inl e \<longrightarrow> E e))"

lemma behaves_sret [intro]: "behaves I ex E (sret x)"
  unfolding behaves_def by (intro exI [of _ "Inr x"]) auto

lemma behaves_slift [intro]: "(\<And>e. m = Inl e \<Longrightarrow> E e) \<Longrightarrow> behaves I ex E (slift m)"
  unfolding behaves_def by (intro exI [of _ m]) auto

lemma behaves_closed: "implements I ex m p \<Longrightarrow> fails_closed p \<Longrightarrow> (\<And>e. is_pst_error e \<Longrightarrow> E e) \<Longrightarrow> behaves I ex E m"
  unfolding behaves_def fails_closed_def by blast

lemma behaves_sbind_implements:
  assumes "implements I ex m p" "\<And>e. p = Inl e \<Longrightarrow> E e" "\<And>x. p = Inr x \<Longrightarrow> behaves I ex E (f x)"
  shows "behaves I ex E (sbind m f)"
proof (cases p)
  case (Inl e)
  then have "implements I ex (sbind m f) (ebind p (\<lambda>_. Inl e))"
    using assms(1) by (intro implements_sbind) auto
  with Inl assms(2) show ?thesis unfolding behaves_def by auto
next
  case (Inr x)
  then obtain q where q: "implements I ex (f x) q" "\<forall>e. q = Inl e \<longrightarrow> E e" using assms(3) unfolding behaves_def by blast
  have "implements I ex (sbind m f) (ebind p (\<lambda>_. q))"
    using assms(1) q(1) Inr by (intro implements_sbind) auto
  with Inr q(2) show ?thesis unfolding behaves_def by auto
qed

lemma behaves_sbind [intro]:
  "behaves I ex E m \<Longrightarrow> (\<And>x. behaves I ex E (f x)) \<Longrightarrow> behaves I ex E (sbind m f)"
  unfolding behaves_def [of I ex E m] using behaves_sbind_implements by metis

lemma behaves_if [intro]:
  "(c \<Longrightarrow> behaves I ex E a) \<Longrightarrow> (\<not> c \<Longrightarrow> behaves I ex E b) \<Longrightarrow> behaves I ex E (if c then a else b)"
  by simp

lemma behaves_raise_if [intro]: "(c \<Longrightarrow> E e) \<Longrightarrow> behaves I ex E (slift (raise_if c e))"
  by (rule behaves_slift) (auto simp: raise_if_Inl_iff)

lemma behaves_closed_slift [intro]: "fails_closed m \<Longrightarrow> behaves I ex is_pst_error (slift m)"
  by (rule behaves_slift) (auto dest: fails_closedD)

text \<open>What this says of runs: any two good states give the same result, up to the limit.\<close>

definition remembers :: "('s \<Rightarrow> bool) \<Rightarrow> bool \<Rightarrow> (error \<Rightarrow> bool) \<Rightarrow> ('s, 'a) st \<Rightarrow> bool" where
  "remembers I exact E m \<longleftrightarrow>
     (\<forall>s. I s \<longrightarrow> I (snd (m s)) \<and> (\<forall>e. fst (m s) = Inl e \<longrightarrow> E e) \<and>
        (\<forall>s'. I s' \<longrightarrow> fst (m s) = fst (m s') \<or>
           \<not> exact \<and> (fst (m s) = Inl PstLimitError \<or> fst (m s') = Inl PstLimitError)))"

lemma behaves_remembers: "behaves I ex E m \<Longrightarrow> E PstLimitError \<Longrightarrow> remembers I ex E m"
proof -
  assume b: "behaves I ex E m" and limit: "E PstLimitError"
  then obtain p where p: "\<And>s. I s \<Longrightarrow> I (snd (m s)) \<and> (fst (m s) = p \<or> \<not> ex \<and> fst (m s) = Inl PstLimitError)"
    and E: "\<And>e. p = Inl e \<Longrightarrow> E e" unfolding behaves_def implements_def by blast
  have "E e" if "I s" "fst (m s) = Inl e" for s e using p [OF that(1)] that(2) E limit by auto
  moreover have "fst (m s) = fst (m s') \<or> \<not> ex \<and> (fst (m s) = Inl PstLimitError \<or> fst (m s') = Inl PstLimitError)"
    if "I s" "I s'" for s s' using p [OF that(1)] p [OF that(2)] by auto
  ultimately show ?thesis using p unfolding remembers_def by blast
qed

section \<open>Records and values of a context\<close>

text \<open>\<open>self._properties.records.get(prop_id)\<close>.\<close>

definition pc_record :: "property_context \<Rightarrow> int \<Rightarrow> (pc_state, property_record option) st" where
  "pc_record pc prop_id = sbind (PropertyContext_records pc) (\<lambda>records. sret (map_of records prop_id))"

definition pc_good :: "property_context \<Rightarrow> bool" where
  "pc_good pc \<longleftrightarrow> pc_ok pc \<and> heap_ok (pc_heap pc)"

abbreviation pc_exact :: "property_context \<Rightarrow> bool" where
  "pc_exact pc \<equiv> heap_within_budget (pc_heap pc)"

lemma pc_records_behaves [intro]:
  "pc_good pc \<Longrightarrow> behaves (pc_inv pc) (pc_exact pc) is_pst_error (PropertyContext_records pc)"
  unfolding pc_good_def by (rule behaves_closed [OF PropertyContext_records_implements pc_records_closed]) auto

lemma pc_record_behaves [intro]: "pc_good pc \<Longrightarrow> behaves (pc_inv pc) (pc_exact pc) is_pst_error (pc_record pc i)"
  unfolding pc_record_def by (intro behaves_sbind pc_records_behaves behaves_sret)

lemma pc_read_behaves [intro]:
  "pc_good pc \<Longrightarrow> behaves (pc_inv pc) (pc_exact pc) is_pst_error (PropertyContext_read pc r)"
  unfolding pc_good_def by (rule behaves_closed [OF PropertyContext_read_implements]) auto

lemma pc_get_behaves [intro]:
  "pc_good pc \<Longrightarrow> behaves (pc_inv pc) (pc_exact pc) is_pst_error (PropertyContext_get pc i)"
  unfolding pc_good_def by (rule behaves_closed [OF PropertyContext_get_implements pc_get_closed]) auto

lemma PropertyContext_from_node_good:
  "PropertyContext_from_node rd data sub l cp = Inr (pc, s) \<Longrightarrow> reader_ok rd \<Longrightarrow> pc_good pc \<and> pc_inv pc s"
  using PropertyContext_from_node_Inr [of rd data sub l cp pc s] by (simp add: pc_good_def)

section \<open>Entry ids\<close>

definition ENTRY_ID_FORMAT :: fmt where "ENTRY_ID_FORMAT = [4, 16, 4]"
definition ENTRY_ID_SIZE :: int where "ENTRY_ID_SIZE = calcsize ENTRY_ID_FORMAT"
definition RECORD_KEY_SIZE :: int where "RECORD_KEY_SIZE = 16"
definition PID_TAG_RECORD_KEY :: int where "PID_TAG_RECORD_KEY = 0x0FF9"
definition PID_TAG_DISPLAY_NAME :: int where "PID_TAG_DISPLAY_NAME = 0x3001"
definition PID_TAG_IPM_SUB_TREE_ENTRY_ID :: int where "PID_TAG_IPM_SUB_TREE_ENTRY_ID = 0x35E0"
definition PID_TAG_IPM_WASTEBASKET_ENTRY_ID :: int where "PID_TAG_IPM_WASTEBASKET_ENTRY_ID = 0x35E3"
definition PID_TAG_FINDER_ENTRY_ID :: int where "PID_TAG_FINDER_ENTRY_ID = 0x35E7"

record entry_id =
  eid_record_key :: bytes
  eid_node :: node_id

definition mk_EntryId :: "bytes \<Rightarrow> node_id \<Rightarrow> entry_id result" where
  "mk_EntryId record_key node =
     ebind (raise_if (len record_key \<noteq> RECORD_KEY_SIZE) PstFormatError) (\<lambda>_.
     Inr \<lparr>eid_record_key = record_key, eid_node = node\<rparr>)"

text \<open>The field \<open>16s\<close> is bytes of the buffer.\<close>

definition EntryId_unpack_from :: "bytes \<Rightarrow> int \<Rightarrow> entry_id result" where
  "EntryId_unpack_from buf offset =
     ebind (unpack ENTRY_ID_FORMAT buf offset) (\<lambda>fs.
     ebind (raise_if (fs ! 0 \<noteq> 0) PstFormatError) (\<lambda>_.
     ebind (mk_NodeId (fs ! 2)) (\<lambda>node.
     mk_EntryId (slice buf (offset + 4) (offset + 20)) node)))"

definition EntryId_pack :: "entry_id \<Rightarrow> bytes" where
  "EntryId_pack e = struct_pack [4] [0] @ eid_record_key e @ struct_pack [4] [nid_raw (eid_node e)]"

definition entry_id_ok :: "entry_id \<Rightarrow> bool" where
  "entry_id_ok e \<longleftrightarrow> length (eid_record_key e) = 16 \<and> node_id_ok (eid_node e)"

section \<open>Store\<close>

record store =
  so_limits :: limits
  so_codepage :: codepage
  so_header :: header
  so_bbt :: btree
  so_nbt :: btree
  so_reader :: block_reader
  so_properties :: property_context

text \<open>\<open>__init__\<close>, from the file's bytes: the store, and the state its property context is left in.\<close>

definition Store :: "bytes \<Rightarrow> limits \<Rightarrow> codepage \<Rightarrow> (store \<times> pc_state) result" where
  "Store f limits codepage =
     ebind (read_header f) (\<lambda>header.
     let root = hdr_root header;
         bbt = BlockBTree f (block_btree root) limits;
         nbt = NodeBTree f (node_btree root) limits;
         reader = BlockReader f header bbt limits in
     ebind (node_lookup nbt (nid_raw NID_MESSAGE_STORE)) (\<lambda>entry.
     ebind (PropertyContext_from_node reader (nbe_data entry) (nbe_sub_node entry) (Some limits) codepage) (\<lambda>(pc, s).
     ebind (srun (PropertyContext_records pc) s) (\<lambda>(_, s').
     Inr (\<lparr>so_limits = limits, so_codepage = codepage, so_header = header, so_bbt = bbt, so_nbt = nbt,
           so_reader = reader, so_properties = pc\<rparr>, s')))))"

definition Store_record :: "store \<Rightarrow> int \<Rightarrow> (pc_state, property_record) st" where
  "Store_record so prop_id =
     sbind (pc_record (so_properties so) prop_id) (\<lambda>record.
     case record of
       None \<Rightarrow> slift (Inl PstFormatError)
     | Some r \<Rightarrow> if PropertyRecord_is_null r then slift (Inl PstFormatError) else sret r)"

definition Store_binary :: "store \<Rightarrow> int \<Rightarrow> (pc_state, bytes) st" where
  "Store_binary so prop_id =
     sbind (Store_record so prop_id) (\<lambda>r.
     sbind (PropertyContext_read (so_properties so) r) (\<lambda>v.
     case v of VBytes b \<Rightarrow> sret b | _ \<Rightarrow> slift (Inl PstFormatError)))"

definition entry_id_of_value :: "prop_value \<Rightarrow> entry_id result" where
  "entry_id_of_value v =
     (case v of
        VBytes b \<Rightarrow> ebind (raise_if (len b \<noteq> ENTRY_ID_SIZE) PstFormatError) (\<lambda>_. EntryId_unpack_from b 0)
      | _ \<Rightarrow> Inl PstFormatError)"

definition Store_entry_id_of :: "store \<Rightarrow> int \<Rightarrow> bool \<Rightarrow> (pc_state, entry_id option) st" where
  "Store_entry_id_of so prop_id required =
     sbind (pc_record (so_properties so) prop_id) (\<lambda>record.
     case record of
       None \<Rightarrow> if required then slift (Inl PstFormatError) else sret None
     | Some r \<Rightarrow>
         if PropertyRecord_is_null r then (if required then slift (Inl PstFormatError) else sret None)
         else
           sbind (PropertyContext_read (so_properties so) r) (\<lambda>v.
           sbind (slift (entry_id_of_value v)) (\<lambda>e. sret (Some e))))"

definition Store_record_key :: "store \<Rightarrow> (pc_state, bytes) st" where
  "Store_record_key so =
     sbind (Store_binary so PID_TAG_RECORD_KEY) (\<lambda>v.
     sbind (slift (raise_if (len v \<noteq> RECORD_KEY_SIZE) PstFormatError)) (\<lambda>_. sret v))"

definition Store_display_name :: "store \<Rightarrow> (pc_state, ustring) st" where
  "Store_display_name so =
     sbind (Store_record so PID_TAG_DISPLAY_NAME) (\<lambda>r.
     sbind (PropertyContext_read (so_properties so) r) (\<lambda>v.
     case v of VStr s \<Rightarrow> sret s | _ \<Rightarrow> slift (Inl PstFormatError)))"

definition Store_ipm_subtree :: "store \<Rightarrow> (pc_state, entry_id) st" where
  "Store_ipm_subtree so =
     sbind (Store_entry_id_of so PID_TAG_IPM_SUB_TREE_ENTRY_ID True) (\<lambda>entry.
     case entry of None \<Rightarrow> slift (Inl AssertionError) | Some e \<Rightarrow> sret e)"

definition Store_wastebasket :: "store \<Rightarrow> (pc_state, entry_id option) st" where
  "Store_wastebasket so = Store_entry_id_of so PID_TAG_IPM_WASTEBASKET_ENTRY_ID False"

definition Store_finder :: "store \<Rightarrow> (pc_state, entry_id option) st" where
  "Store_finder so = Store_entry_id_of so PID_TAG_FINDER_ENTRY_ID False"

definition Store_entry_id :: "store \<Rightarrow> node_id \<Rightarrow> (pc_state, entry_id) st" where
  "Store_entry_id so node = sbind (Store_record_key so) (\<lambda>key. slift (mk_EntryId key node))"

definition Store_matches_record_key :: "store \<Rightarrow> entry_id \<Rightarrow> (pc_state, bool) st" where
  "Store_matches_record_key so entry = sbind (Store_record_key so) (\<lambda>key. sret (eid_record_key entry = key))"

definition Store_get :: "store \<Rightarrow> int \<Rightarrow> (pc_state, prop_value) st" where
  "Store_get so prop_id = PropertyContext_get (so_properties so) prop_id"

text \<open>The map, read on first use and kept.\<close>

definition Store_named_properties :: "store \<Rightarrow> ((named_map \<times> nm_state) option, named_map) st" where
  "Store_named_properties so =
     sbind (smemo (\<lambda>m. m) (\<lambda>x _. Some x)
       (sbind (slift (node_lookup (so_nbt so) (nid_raw NID_NAME_TO_ID_MAP))) (\<lambda>entry.
        slift (NamedPropertyMap_from_node (so_reader so) (nbe_data entry) (nbe_sub_node entry)
          (Some (so_limits so)) (so_codepage so))))) (\<lambda>(nm, _). sret nm)"

text \<open>What every store is: the layers it holds are over one file, with its limits.\<close>

definition store_ok :: "store \<Rightarrow> bool" where
  "store_ok so \<longleftrightarrow> reader_ok (so_reader so) \<and> bt_KIND (so_nbt so) = PT_NBT \<and> pc_good (so_properties so)"

abbreviation store_inv :: "store \<Rightarrow> pc_state \<Rightarrow> bool" where
  "store_inv so \<equiv> pc_inv (so_properties so)"

abbreviation store_exact :: "store \<Rightarrow> bool" where
  "store_exact so \<equiv> pc_exact (so_properties so)"

section \<open>Entry ids read back\<close>

lemma entry_id_formats: "ENTRY_ID_FORMAT = [4, 16, 4]" "ENTRY_ID_SIZE = 24" "RECORD_KEY_SIZE = 16" "calcsize ENTRY_ID_FORMAT = 24"
  by (simp_all add: ENTRY_ID_FORMAT_def ENTRY_ID_SIZE_def RECORD_KEY_SIZE_def calcsize_def)

lemma mk_EntryId_Inr_iff: "mk_EntryId k n = Inr e \<longleftrightarrow> length k = 16 \<and> e = \<lparr>eid_record_key = k, eid_node = n\<rparr>"
  by (auto simp: mk_EntryId_def ebind_Inr_iff raise_if_Inr_iff entry_id_formats)

lemma mk_EntryId_closed [simp, intro]: "fails_closed (mk_EntryId k n)"
  unfolding mk_EntryId_def by (intro fails_closed_ebind) auto

text \<open>The packed form is one of the format, the key read as the number it is little-endian.\<close>

lemma EntryId_pack_fields:
  assumes "entry_id_ok e"
  shows "EntryId_pack e = struct_pack ENTRY_ID_FORMAT [0, le_int (eid_record_key e), nid_raw (eid_node e)]"
    and "fits ENTRY_ID_FORMAT [0, le_int (eid_record_key e), nid_raw (eid_node e)]"
  using assms le_bytes_le_int [of "eid_record_key e"] le_int_bound [of "eid_record_key e"]
  by (simp_all add: EntryId_pack_def entry_id_formats entry_id_ok_def node_id_ok_def U32_def)

interpretation EntryId_codec: codec EntryId_unpack_from EntryId_pack 24 entry_id_ok
proof
  show "len (EntryId_pack x) = 24" if "entry_id_ok x" for x
    using that by (simp add: EntryId_pack_def entry_id_ok_def)
  show "EntryId_unpack_from (pre @ EntryId_pack x @ post) (len pre) = Inr x" if ok: "entry_id_ok x" for x pre post
  proof -
    note f = EntryId_pack_fields [OF ok]
    have u: "unpack ENTRY_ID_FORMAT (pre @ EntryId_pack x @ post) (len pre) = Inr [0, le_int (eid_record_key x), nid_raw (eid_node x)]"
      unfolding f(1) by (rule unpack_pack [OF f(2)])
    have key: "slice (pre @ EntryId_pack x @ post) (len pre + 4) (len pre + 20) = eid_record_key x"
      using ok by (simp add: EntryId_pack_def slice_def entry_id_ok_def nat_add_distrib)
    have "mk_NodeId (nid_raw (eid_node x)) = Inr (eid_node x)"
      using ok by (cases "eid_node x") (simp add: mk_NodeId_Inr_iff node_id_ok_def entry_id_ok_def)
    with u key ok show ?thesis by (simp add: EntryId_unpack_from_def mk_EntryId_Inr_iff entry_id_ok_def)
  qed
  show "0 \<le> off \<and> off + 24 \<le> len buf" if "EntryId_unpack_from buf off = Inr x" for buf off x
    using that by (auto simp: EntryId_unpack_from_def ebind_Inr_iff unpack_Inr_iff entry_id_formats calcsize_def)
  show "fails_closed (EntryId_unpack_from buf off)" for buf off
    unfolding EntryId_unpack_from_def by (intro fails_closed_ebind) auto
qed

lemma EntryId_unpack_from_ok:
  assumes "EntryId_unpack_from buf off = Inr e"
  shows "entry_id_ok e" "EntryId_pack e = slice buf off (off + 24)"
proof -
  note at = EntryId_codec.decode_bounds [OF assms]
  let ?b = "drop (nat off) buf"
  obtain k where "off = int k" using at nonneg_int_cases by blast
  then have b: "24 \<le> length ?b" using at by simp
  from assms have e: "le_int (take 4 ?b) = 0" "node_id_ok (eid_node e)"
      "nid_raw (eid_node e) = le_int (take 4 (drop 20 ?b))" "length (eid_record_key e) = 16"
      "eid_record_key e = slice buf (off + 4) (off + 20)"
    by (auto simp: EntryId_unpack_from_def ebind_Inr_iff raise_if_Inr_iff unpack_Inr_iff mk_EntryId_Inr_iff entry_id_formats
        mk_NodeId_Inr_iff node_id_ok_def)
  from e(2,4) show "entry_id_ok e" by (simp add: entry_id_ok_def)
  have key: "eid_record_key e = take 16 (drop 4 ?b)" using at unfolding e(5) slice_def by (simp add: nat_add_distrib add.commute)
  have z: "le_bytes 4 0 = take 4 ?b" using le_bytes_le_int [of "take 4 ?b"] e(1) b by simp
  have n: "le_bytes 4 (nid_raw (eid_node e)) = take 4 (drop 20 ?b)" unfolding e(3) using le_bytes_le_int [of "take 4 (drop 20 ?b)"] b by simp
  have "EntryId_pack e = take 4 ?b @ take 16 (drop 4 ?b) @ take 4 (drop 20 ?b)"
    using z n by (simp add: EntryId_pack_def key)
  also have "\<dots> = take 24 ?b" by (simp add: take_add [of 4 20 ?b, simplified] take_add [of 16 4 "drop 4 ?b", simplified])
  finally show "EntryId_pack e = slice buf off (off + 24)" by (simp add: slice_def)
qed

section \<open>The store behaves\<close>

lemma Store_Inr:
  assumes "Store f l cp = Inr (so, s)"
  shows "store_ok so" "store_inv so s" "so_limits so = l" "so_codepage so = cp"
proof -
  let ?rd = "\<lambda>header. BlockReader f header (BlockBTree f (block_btree (hdr_root header)) l) l"
  from assms obtain header where header: "read_header f = Inr header" by (auto simp: Store_def ebind_Inr_iff)
  with assms obtain entry where "node_lookup (NodeBTree f (node_btree (hdr_root header)) l) (nid_raw NID_MESSAGE_STORE) = Inr entry"
    by (auto simp: Store_def Let_def ebind_Inr_iff)
  with assms header obtain pc s0 where
    pc: "PropertyContext_from_node (?rd header) (nbe_data entry) (nbe_sub_node entry) (Some l) cp = Inr (pc, s0)"
    and rest: "ebind (srun (PropertyContext_records pc) s0) (\<lambda>(_, s').
     Inr (\<lparr>so_limits = l, so_codepage = cp, so_header = header, so_bbt = BlockBTree f (block_btree (hdr_root header)) l,
           so_nbt = NodeBTree f (node_btree (hdr_root header)) l, so_reader = ?rd header, so_properties = pc\<rparr>, s')) = Inr (so, s)"
    by (auto simp: Store_def Let_def ebind_Inr_iff)
  from rest obtain rs where rs: "PropertyContext_records pc s0 = (Inr rs, s)"
    and so: "so = \<lparr>so_limits = l, so_codepage = cp, so_header = header, so_bbt = BlockBTree f (block_btree (hdr_root header)) l,
           so_nbt = NodeBTree f (node_btree (hdr_root header)) l, so_reader = ?rd header, so_properties = pc\<rparr>"
    by (auto simp: ebind_Inr_iff srun_Inr_iff)
  have rd: "reader_ok (BlockReader f header (BlockBTree f (block_btree (hdr_root header)) l) l)"
    by (simp add: reader_ok_def BlockReader_def BlockBTree_def)
  note good = PropertyContext_from_node_good [OF pc rd]
  show "store_ok so" "so_limits so = l" "so_codepage so = cp" using rd good by (simp_all add: so store_ok_def NodeBTree_def)
  have "implements (pc_inv pc) (pc_exact pc) (PropertyContext_records pc) (pc_records pc)"
    using good by (intro PropertyContext_records_implements) (simp add: pc_good_def)
  from implementsD [OF this conjunct2 [OF good] rs] show "store_inv so s" by (simp add: so)
qed

lemma Store_closed: "fails_closed (Store f l cp)"
proof -
  have "fails_closed (srun (PropertyContext_records pc) s)" if "pc_good pc" "pc_inv pc s" for pc s
    using that by (intro srun_closed [of "pc_inv pc"] implements_closed [OF PropertyContext_records_implements pc_records_closed])
      (auto simp: pc_good_def)
  moreover have rd: "reader_ok (BlockReader f header (BlockBTree f r l) l)" for header r
    by (simp add: reader_ok_def BlockReader_def BlockBTree_def)
  ultimately have ctx: "fails_closed (ebind (srun (PropertyContext_records pc) s) g)"
    if "PropertyContext_from_node (BlockReader f header (BlockBTree f r l) l) d sub (Some l) cp = Inr (pc, s)"
      "\<And>x. fails_closed (g x)" for header r d sub pc s and g :: "_ \<Rightarrow> (store \<times> pc_state) result"
    using PropertyContext_from_node_good [OF that(1) rd] that(2) by (intro fails_closed_ebind) auto
  have "fails_closed (read_header f)" using Header_parse_closed by (simp add: read_header_def)
  then show ?thesis unfolding Store_def Let_def
    by (intro fails_closed_ebind node_lookup_closed PropertyContext_from_node_closed rd)
      (auto simp: NodeBTree_def intro!: ctx split: prod.splits)
qed

lemma entry_id_of_value_closed [simp, intro]: "fails_closed (entry_id_of_value v)"
  unfolding entry_id_of_value_def
  by (cases v) (auto intro!: fails_closed_ebind EntryId_codec.decode_closed)

lemma Store_record_behaves [intro]:
  "store_ok so \<Longrightarrow> behaves (store_inv so) (store_exact so) is_pst_error (Store_record so i)"
  unfolding Store_record_def store_ok_def
  by (intro behaves_sbind pc_record_behaves) (auto split: option.split)

lemma Store_binary_behaves [intro]:
  "store_ok so \<Longrightarrow> behaves (store_inv so) (store_exact so) is_pst_error (Store_binary so i)"
  unfolding Store_binary_def
  by (intro behaves_sbind Store_record_behaves) (auto simp: store_ok_def split: prop_value.split)

lemma Store_record_key_behaves [intro]:
  "store_ok so \<Longrightarrow> behaves (store_inv so) (store_exact so) is_pst_error (Store_record_key so)"
  unfolding Store_record_key_def by (intro behaves_sbind Store_binary_behaves behaves_raise_if behaves_sret) auto

lemma Store_display_name_behaves [intro]:
  "store_ok so \<Longrightarrow> behaves (store_inv so) (store_exact so) is_pst_error (Store_display_name so)"
  unfolding Store_display_name_def
  by (intro behaves_sbind Store_record_behaves) (auto simp: store_ok_def split: prop_value.split)

lemma Store_entry_id_behaves [intro]:
  "store_ok so \<Longrightarrow> behaves (store_inv so) (store_exact so) is_pst_error (Store_entry_id so n)"
  unfolding Store_entry_id_def by (intro behaves_sbind Store_record_key_behaves) auto

lemma Store_matches_record_key_behaves [intro]:
  "store_ok so \<Longrightarrow> behaves (store_inv so) (store_exact so) is_pst_error (Store_matches_record_key so e)"
  unfolding Store_matches_record_key_def by (intro behaves_sbind Store_record_key_behaves) auto

lemma Store_entry_id_of_behaves [intro]:
  "store_ok so \<Longrightarrow> behaves (store_inv so) (store_exact so) is_pst_error (Store_entry_id_of so i req)"
  unfolding Store_entry_id_of_def
  by (intro behaves_sbind pc_record_behaves) (auto simp: store_ok_def split: option.split intro!: behaves_sbind)

text \<open>A required entry id is never None: the assertion holds.\<close>

lemma Store_entry_id_required: "fst (Store_entry_id_of so i True s) \<noteq> Inr None"
proof
  obtain r s' where run: "Store_entry_id_of so i True s = (r, s')" by fastforce
  assume "fst (Store_entry_id_of so i True s) = Inr None"
  with run show False
    by (auto simp: Store_entry_id_of_def sbind_eq_Inr split: option.splits if_splits)
qed

lemma Store_ipm_subtree_behaves [intro]:
  assumes "store_ok so"
  shows "behaves (store_inv so) (store_exact so) is_pst_error (Store_ipm_subtree so)"
proof -
  obtain p where p: "implements (store_inv so) (store_exact so) (Store_entry_id_of so PID_TAG_IPM_SUB_TREE_ENTRY_ID True) p"
    "\<forall>e. p = Inl e \<longrightarrow> is_pst_error e" using Store_entry_id_of_behaves [OF assms] unfolding behaves_def by blast
  show ?thesis
  proof (cases "\<exists>s. store_inv so s")
    case True
    then obtain s where s: "store_inv so s" ..
    show ?thesis
    proof (cases "p = Inr None")
      case True
      then have "fst (Store_entry_id_of so PID_TAG_IPM_SUB_TREE_ENTRY_ID True s') = Inl PstLimitError"
        if "store_inv so s'" for s'
        using p(1) Store_entry_id_required [of so PID_TAG_IPM_SUB_TREE_ENTRY_ID s'] that by (auto simp: implements_def)
      then have "implements (store_inv so) (store_exact so) (Store_entry_id_of so PID_TAG_IPM_SUB_TREE_ENTRY_ID True) (Inl PstLimitError)"
        using p(1) by (simp add: implements_def)
      then show ?thesis unfolding Store_ipm_subtree_def by (rule behaves_sbind_implements) auto
    next
      case False
      then show ?thesis unfolding Store_ipm_subtree_def using p(2)
        by (intro behaves_sbind_implements [OF p(1)]) (auto split: option.split)
    qed
  next
    case False
    then show ?thesis unfolding behaves_def by (intro exI [of _ "Inl PstLimitError"]) (simp add: implements_def)
  qed
qed

text \<open>The record key read twice is the same, so an id the store made is its own.\<close>

lemma Store_own_id:
  assumes ok: "store_ok so" and inv: "store_inv so s" "store_inv so s'"
    and made: "fst (Store_entry_id so node s) = Inr e"
    and asked: "fst (Store_matches_record_key so e s') = Inr b"
  shows "b \<and> eid_node e = node \<and> length (eid_record_key e) = 16"
proof -
  from Store_record_key_behaves [OF ok] obtain p where p: "implements (store_inv so) (store_exact so) (Store_record_key so) p"
    unfolding behaves_def by blast
  have key: "p = Inr k" if "Store_record_key so s0 = (Inr k, s1)" "store_inv so s0" for k s0 s1
    by (rule implements_Inr [OF p that(2,1)])
  obtain s1 where "Store_entry_id so node s = (Inr e, s1)" using made by (metis surjective_pairing)
  then obtain k s0 where "Store_record_key so s = (Inr k, s0)" and e: "mk_EntryId k node = Inr e"
    by (auto simp: Store_entry_id_def sbind_eq_Inr)
  then have pk: "p = Inr k" using key inv(1) by blast
  obtain s2 where "Store_matches_record_key so e s' = (Inr b, s2)" using asked by (metis surjective_pairing)
  then obtain k' s3 where "Store_record_key so s' = (Inr k', s3)" and b: "b = (eid_record_key e = k')"
    by (auto simp: Store_matches_record_key_def sbind_eq_Inr)
  then have "p = Inr k'" using key inv(2) by blast
  with pk e b show ?thesis by (auto simp: mk_EntryId_Inr_iff)
qed

section \<open>A written store's properties\<close>

lemma written_pc_good:
  assumes "writable_pc ps" "\<forall>r. rd = Some r \<longrightarrow> reader_ok r"
  shows "pc_good (written_pc_at d rd ps cp)" "pc_exact (written_pc_at d rd ps cp)" "pc_inv (written_pc_at d rd ps cp) (pc_fresh heap_fresh)"
proof -
  obtain s where made: "PropertyContext (pc_heap_at d rd ps) None cp heap_fresh = (Inr (written_pc_at d rd ps cp), s)"
    using written_pc_made [OF assms(1)] by blast
  have heap: "pc_heap (written_pc_at d rd ps cp) = pc_heap_at d rd ps" by (simp add: written_pc_at_def)
  show "pc_good (written_pc_at d rd ps cp)"
    using PropertyContext_Inr(1) [OF heap_inv_fresh made] by (simp add: pc_good_def heap pc_heap_facts assms(2))
  show "pc_exact (written_pc_at d rd ps cp)" using pc_heap_budget [OF assms(1)] by (simp add: heap)
  show "pc_inv (written_pc_at d rd ps cp) (pc_fresh heap_fresh)" by (simp add: pc_inv_def pc_fresh_def heap_inv_fresh)
qed

text \<open>A written property is found by its id and read, and one that was not written is not found.\<close>

lemma written_pc_found:
  assumes w: "writable_pc ps" and rd: "\<forall>r. rd = Some r \<longrightarrow> reader_ok r" and mem: "(i, t, v) \<in> set ps" and inv: "pc_inv (written_pc_at d rd ps cp) s"
  obtains r s' where "pc_record (written_pc_at d rd ps cp) i s = (Inr (Some r), s')" "\<not> PropertyRecord_is_null r"
    "pc_inv (written_pc_at d rd ps cp) s'"
    "\<And>s1. pc_inv (written_pc_at d rd ps cp) s1 \<Longrightarrow> fst (PropertyContext_read (written_pc_at d rd ps cp) r s1) = Inr v"
proof -
  let ?pc = "written_pc_at d rd ps cp"
  let ?m = "map (\<lambda>r. (pr_id r, r)) (sort_key pr_id (written_records ps))"
  from mem obtain j where j: "j < length ps" "ps ! j = (i, t, v)" by (auto simp: in_set_conv_nth)
  let ?r = "written_record j (ps ! j)"
  note recs = written_pc_records(1) [OF w, of d rd cp]
  have "?r \<in> set (written_records ps)" using j(1) by (auto simp: written_records_def)
  moreover have id: "pr_id ?r = i" by (simp add: j(2) written_record_def)
  ultimately have found: "map_of ?m i = Some ?r"
    using pc_records_ascending(2) [OF recs] by (intro map_of_is_SomeI) (auto simp: image_iff)
  have null: "\<not> PropertyRecord_is_null ?r"
    by (simp add: PropertyRecord_is_null_def PropertyRecord_is_inline_def written_record_def record_raw_def j(2) value_hid_def)
  note good = written_pc_good [OF w rd, of d cp]
  have budget: "pc_exact ?pc = True" using good(2) by simp
  have ok: "pc_ok ?pc" using good(1) by (simp add: pc_good_def)
  have exact: "implements (pc_inv ?pc) True (PropertyContext_records ?pc) (Inr ?m)"
    using PropertyContext_records_implements [OF ok] unfolding recs budget .
  have read: "implements (pc_inv ?pc) True (PropertyContext_read ?pc ?r) (Inr v)"
    using PropertyContext_read_implements [of ?pc ?r] unfolding written_pc_read [OF w j, of d rd cp] budget .
  obtain x s' where run: "PropertyContext_records ?pc s = (x, s')" by fastforce
  then have x: "x = Inr ?m" and s': "pc_inv ?pc s'" using implementsD [OF exact inv run] by simp_all
  have rec: "pc_record ?pc i s = (Inr (Some ?r), s')" by (simp add: pc_record_def sbind_def run x sret_def found)
  show thesis by (rule that [OF rec null s']) (rule implements_exact [OF read])
qed

lemma Store_record_key_written:
  assumes "so_properties so = written_pc ps cp" "writable_pc ps" "(PID_TAG_RECORD_KEY, t, VBytes k) \<in> set ps" "length k = 16"
    "store_inv so s"
  shows "fst (Store_record_key so s) = Inr k"
proof -
  obtain r s' where r: "pc_record (written_pc ps cp) PID_TAG_RECORD_KEY s = (Inr (Some r), s')" "\<not> PropertyRecord_is_null r"
    "pc_inv (written_pc ps cp) s'"
    "\<And>s1. pc_inv (written_pc ps cp) s1 \<Longrightarrow> fst (PropertyContext_read (written_pc ps cp) r s1) = Inr (VBytes k)"
    using written_pc_found [OF assms(2) _ assms(3), where rd = None] assms(1,5) by (metis option.distinct(1))
  obtain s2 where "PropertyContext_read (written_pc ps cp) r s' = (Inr (VBytes k), s2)" using r(3,4) by (metis prod.collapse)
  with r(1,2) show ?thesis
    by (simp add: Store_record_key_def Store_binary_def Store_record_def assms(1,4) sbind_def sret_def slift_def
        RECORD_KEY_SIZE_def raise_if_def)
qed

definition sample_store_properties :: "property list" where
  "sample_store_properties = [(0x0FF9, T_BINARY, VBytes (replicate 16 7)), (0x3001, T_UNICODE, VStr [0x41])]"

lemma sample_store_properties_encoded:
  "encode_value T_UNICODE (VStr [0x41]) = [0x41, 0]" "encode_value T_BINARY (VBytes (replicate 16 7)) = replicate 16 7"
  by (code_simp, code_simp)

lemma sample_store_properties_size: "len (concat (pc_items sample_store_properties)) = 42" "len (pc_items sample_store_properties) = 4"
  using sample_store_properties_encoded leaf_bytes_length [of "written_records sample_store_properties"]
  by (simp_all add: pc_items_def written_records_simps sample_store_properties_def value_item_def
      bth_header_bytes_def BTH_HEADER_FORMAT_def)

lemma sample_store_properties_writable: "writable_pc sample_store_properties"
proof -
  have "value_typed T_UNICODE (VStr [0x41])" by (rule typed_unicode) (simp add: is_scalar_def)
  moreover have "value_typed T_BINARY (VBytes (replicate 16 7))" by (rule typed_binary)
  ultimately have "\<forall>p \<in> set sample_store_properties. writable_property p"
    using sample_store_properties_encoded by (simp add: sample_store_properties_def writable_property_def)
  moreover note sample_store_properties_size
  ultimately show ?thesis
    by (simp add: writable_pc_def writable_heap_block_def heap_id_ok_def U32_def heap_header_size_def heap_formats
        sample_store_properties_def)
qed

section \<open>Properties\<close>

text \<open>The codec of entry ids is exact: an id written anywhere in a buffer reads back, and a reading that succeeds
  is of an id whose written form is those 24 bytes; in particular the flags are zero.\<close>

theorem EntryId_exact:
  "(entry_id_ok e \<longrightarrow> EntryId_unpack_from (pre @ EntryId_pack e @ post) (len pre) = Inr e) \<and>
   (EntryId_unpack_from buf off = Inr e \<longrightarrow> entry_id_ok e \<and> EntryId_pack e = slice buf off (off + 24))"
  using EntryId_codec.decode_encode EntryId_unpack_from_ok by blast

definition sample_entry_id :: entry_id where
  "sample_entry_id = \<lparr>eid_record_key = replicate 16 7, eid_node = NodeId 0x122\<rparr>"

text \<open>Opening a store ends, on every file, in a store or a PstError; and whatever has been read from it before,
  the properties of an open store give the same answers, raise only PstErrors, and leave it readable.\<close>

theorem Store_total:
  "fails_closed (Store f l cp) \<and>
   (\<forall>so s. Store f l cp = Inr (so, s) \<longrightarrow> store_inv so s \<and>
      remembers (store_inv so) (store_exact so) is_pst_error (Store_record_key so) \<and>
      remembers (store_inv so) (store_exact so) is_pst_error (Store_display_name so) \<and>
      remembers (store_inv so) (store_exact so) is_pst_error (Store_ipm_subtree so) \<and>
      remembers (store_inv so) (store_exact so) is_pst_error (Store_wastebasket so) \<and>
      remembers (store_inv so) (store_exact so) is_pst_error (Store_finder so) \<and>
      remembers (store_inv so) (store_exact so) is_pst_error (Store_entry_id so n) \<and>
      remembers (store_inv so) (store_exact so) is_pst_error (Store_matches_record_key so e))"
proof (intro conjI allI impI)
  show "fails_closed (Store f l cp)" by (rule Store_closed)
  fix so s assume "Store f l cp = Inr (so, s)"
  note so = Store_Inr [OF this]
  show "store_inv so s" by (rule so(2))
  show "remembers (store_inv so) (store_exact so) is_pst_error (Store_record_key so)"
    "remembers (store_inv so) (store_exact so) is_pst_error (Store_display_name so)"
    "remembers (store_inv so) (store_exact so) is_pst_error (Store_ipm_subtree so)"
    "remembers (store_inv so) (store_exact so) is_pst_error (Store_wastebasket so)"
    "remembers (store_inv so) (store_exact so) is_pst_error (Store_finder so)"
    "remembers (store_inv so) (store_exact so) is_pst_error (Store_entry_id so n)"
    "remembers (store_inv so) (store_exact so) is_pst_error (Store_matches_record_key so e)"
    using so(1) by (auto intro!: behaves_remembers simp: Store_wastebasket_def Store_finder_def)
qed

end
