(* ===== verification/Pst_Table_Context.thy ===== *)
theory Pst_Table_Context
  imports Pst_Tree Pst_Prop_Type "HOL-Library.AList"
begin

unbundle bit_operations_syntax

text \<open>
  \<open>src/pypstreader/ltp/table_context.py\<close>: the table context (TC). A schema of columns, a matrix of
  fixed-width rows packed per block, and a BTree-on-Heap from row id to the row's place in the matrix. The
  state of a table is its heap's, the row index and the matrix once they have been read; each
  operation is related to its meaning without that memory.
\<close>

section \<open>Layout\<close>

definition LTP_ROW_ID_PROP_ID :: int where "LTP_ROW_ID_PROP_ID = 0x67F2"
definition LTP_ROW_VERSION_PROP_ID :: int where "LTP_ROW_VERSION_PROP_ID = 0x67F3"
definition ROW_INDEX_KEY_SIZE :: int where "ROW_INDEX_KEY_SIZE = 4"
definition ROW_INDEX_ENTRY_SIZE :: int where "ROW_INDEX_ENTRY_SIZE = 4"
definition TCINFO_FORMAT :: fmt where "TCINFO_FORMAT = [1, 1, 2, 2, 2, 2, 4, 4, 4]"
definition TCINFO_SIZE :: int where "TCINFO_SIZE = calcsize TCINFO_FORMAT"
definition TCOLDESC_FORMAT :: fmt where "TCOLDESC_FORMAT = [2, 2, 2, 1, 1]"
definition TCOLDESC_SIZE :: int where "TCOLDESC_SIZE = calcsize TCOLDESC_FORMAT"
definition ROW_HEADER_SIZE :: int where "ROW_HEADER_SIZE = 8"
definition MAX_COLUMNS :: int where "MAX_COLUMNS = 0xFF"

definition ONE_BYTE_TYPES :: "prop_type set" where
  "ONE_BYTE_TYPES = {T_BOOLEAN}"

definition TWO_BYTE_TYPES :: "prop_type set" where
  "TWO_BYTE_TYPES = {T_SHORT}"

definition FOUR_BYTE_TYPES :: "prop_type set" where
  "FOUR_BYTE_TYPES = {T_LONG, T_FLOAT, T_ERROR}"

definition EIGHT_BYTE_TYPES :: "prop_type set" where
  "EIGHT_BYTE_TYPES = {T_DOUBLE, T_CURRENCY, T_APPTIME, T_LONGLONG, T_SYSTIME}"

definition HNID_TYPES :: "prop_type set" where
  "HNID_TYPES = {T_STRING8, T_UNICODE, T_GUID, T_BINARY, T_OBJECT, T_MV_SHORT, T_MV_LONG, T_MV_FLOAT,
     T_MV_DOUBLE, T_MV_CURRENCY, T_MV_APPTIME, T_MV_LONGLONG, T_MV_STRING8, T_MV_UNICODE, T_MV_SYSTIME,
     T_MV_GUID, T_MV_BINARY}"

definition COLUMN_WIDTHS :: "prop_type \<Rightarrow> int option" where
  "COLUMN_WIDTHS t =
     (if t \<in> HNID_TYPES then Some 4
      else if t \<in> EIGHT_BYTE_TYPES then Some 8
      else if t \<in> FOUR_BYTE_TYPES then Some 4
      else if t \<in> TWO_BYTE_TYPES then Some 2
      else if t \<in> ONE_BYTE_TYPES then Some 1
      else None)"

lemmas column_types = ONE_BYTE_TYPES_def TWO_BYTE_TYPES_def FOUR_BYTE_TYPES_def EIGHT_BYTE_TYPES_def HNID_TYPES_def

section \<open>The existence bitmap\<close>

definition existence_bitmap_size :: "int \<Rightarrow> int" where
  "existence_bitmap_size column_count = - ((- column_count) div 8)"

definition check_existence_bitmap :: "int \<Rightarrow> bytes \<Rightarrow> bool result" where
  "check_existence_bitmap column bitmap =
     ebind (raise_if (column \<ge> len bitmap * 8) PstFormatError) (\<lambda>_.
     ebind (py_index bitmap (column div 8)) (\<lambda>b.
     Inr (uint b AND push_bit (nat (7 - column mod 8)) 1 \<noteq> 0)))"

section \<open>The schema\<close>

record column_descriptor =
  cd_type :: prop_type
  cd_id :: int
  cd_offset :: int
  cd_size :: int
  cd_bit :: int

text \<open>The \<open>except PstUnsupportedError\<close> raises the same class with another message.\<close>

definition ColumnDescriptor_unpack_from :: "bytes \<Rightarrow> int \<Rightarrow> column_descriptor result" where
  "ColumnDescriptor_unpack_from buf offset =
     ebind (unpack TCOLDESC_FORMAT buf offset) (\<lambda>fs.
     ebind (prop_type_from_wire (fs ! 0)) (\<lambda>prop_type.
     Inr \<lparr>cd_type = prop_type, cd_id = fs ! 1, cd_offset = fs ! 2, cd_size = fs ! 3, cd_bit = fs ! 4\<rparr>))"

record table_context_info =
  ti_end_4byte :: int
  ti_end_2byte :: int
  ti_end_1byte :: int
  ti_end_bitmap :: int
  ti_row_index :: heap_id
  ti_rows :: "heap_node_id option"
  ti_deprecated_index :: int
  ti_columns :: "column_descriptor list"

definition ti_row_width :: "table_context_info \<Rightarrow> int" where
  "ti_row_width info = ti_end_bitmap info"

definition ti_bitmap_size :: "table_context_info \<Rightarrow> int" where
  "ti_bitmap_size info = existence_bitmap_size (len (ti_columns info))"

definition ti_check_row_header_fits :: "table_context_info \<Rightarrow> unit result" where
  "ti_check_row_header_fits info = raise_if (ti_end_4byte info < ROW_HEADER_SIZE) PstFormatError"

definition ti_validate_column :: "table_context_info \<Rightarrow> column_descriptor \<Rightarrow> unit result" where
  "ti_validate_column info c =
     (let t = cd_type c; offset = cd_offset c in
      ebind (raise_if (t = T_LONG \<and> cd_id c \<in> {LTP_ROW_ID_PROP_ID, LTP_ROW_VERSION_PROP_ID} \<and>
        (offset, cd_bit c) \<noteq> (if cd_id c = LTP_ROW_ID_PROP_ID then (0, 0) else (4, 1))) PstFormatError) (\<lambda>_.
      case COLUMN_WIDTHS t of
        None \<Rightarrow> Inl PstFormatError
      | Some width \<Rightarrow>
          ebind (if t \<in> ONE_BYTE_TYPES
                 then raise_if (\<not> (ti_end_2byte info \<le> offset \<and> offset < ti_end_1byte info)) PstFormatError
                 else if t \<in> TWO_BYTE_TYPES
                 then raise_if (offset mod 2 \<noteq> 0 \<or> offset < ti_end_4byte info \<or> offset + 2 > ti_end_2byte info)
                        PstFormatError
                 else raise_if (offset mod 4 \<noteq> 0 \<or> offset + width > ti_end_4byte info) PstFormatError) (\<lambda>_.
          ebind (raise_if (cd_size c \<noteq> width) PstFormatError) (\<lambda>_.
          raise_if (cd_bit c > len (ti_columns info)) PstFormatError))))"

definition ti_validate :: "table_context_info \<Rightarrow> unit result" where
  "ti_validate info =
     ebind (raise_if (len (ti_columns info) > MAX_COLUMNS) PstFormatError) (\<lambda>_.
     ebind (raise_if (ti_end_4byte info mod 4 \<noteq> 0) PstFormatError) (\<lambda>_.
     ebind (raise_if (ti_end_2byte info mod 2 \<noteq> 0 \<or> ti_end_2byte info < ti_end_4byte info) PstFormatError) (\<lambda>_.
     ebind (raise_if (ti_end_1byte info < ti_end_2byte info) PstFormatError) (\<lambda>_.
     ebind (raise_if (ti_end_bitmap info < ti_end_1byte info \<or>
       ti_end_bitmap info - ti_end_1byte info \<noteq> ti_bitmap_size info) PstFormatError) (\<lambda>_.
     ebind (emap (ti_validate_column info) (ti_columns info)) (\<lambda>_. Inr ()))))))"

definition TableContextInfo_unpack :: "bytes \<Rightarrow> table_context_info result" where
  "TableContextInfo_unpack data =
     ebind (unpack TCINFO_FORMAT data 0) (\<lambda>fs.
     ebind (HeapNodeType_from_wire (fs ! 0)) (\<lambda>signature.
     ebind (raise_if (signature \<noteq> HN_TABLE) PstFormatError) (\<lambda>_.
     ebind (emap (\<lambda>i. ColumnDescriptor_unpack_from data (TCINFO_SIZE + int i * TCOLDESC_SIZE)) [0..<nat (fs ! 1)]) (\<lambda>columns.
     ebind (mk_HeapId (fs ! 6)) (\<lambda>row_index.
     ebind (if fs ! 7 \<noteq> 0 then ebind (mk_HeapNodeId (fs ! 7)) (\<lambda>h. Inr (Some h)) else Inr None) (\<lambda>rows.
     let info = \<lparr>ti_end_4byte = fs ! 2, ti_end_2byte = fs ! 3, ti_end_1byte = fs ! 4, ti_end_bitmap = fs ! 5,
       ti_row_index = row_index, ti_rows = rows, ti_deprecated_index = fs ! 8, ti_columns = columns\<rparr> in
     ebind (ti_validate info) (\<lambda>_. Inr info)))))))"

section \<open>Cells and rows\<close>

datatype cell_kind = CELL_SMALL | CELL_HEAP | CELL_NODE

record cell_record =
  ce_kind :: cell_kind
  ce_raw :: int
  ce_data :: bytes

definition CellRecord_hnid :: "cell_record \<Rightarrow> heap_node_id option result" where
  "CellRecord_hnid c =
     (if ce_kind c = CELL_SMALL then Inr None else ebind (mk_HeapNodeId (ce_raw c)) (\<lambda>h. Inr (Some h)))"

definition CellRecord_heap :: "cell_record \<Rightarrow> heap_id option result" where
  "CellRecord_heap c =
     (if ce_kind c = CELL_HEAP then ebind (mk_HeapId (ce_raw c)) (\<lambda>h. Inr (Some h)) else Inr None)"

definition CellRecord_node :: "cell_record \<Rightarrow> node_id option result" where
  "CellRecord_node c =
     (if ce_kind c = CELL_NODE then ebind (mk_NodeId (ce_raw c)) (\<lambda>h. Inr (Some h)) else Inr None)"

definition CellRecord_is_null :: "cell_record \<Rightarrow> bool" where
  "CellRecord_is_null c \<longleftrightarrow> ce_kind c \<noteq> CELL_SMALL \<and> ce_raw c = 0"

record table_row =
  tr_id :: int
  tr_unique :: int
  tr_cells :: "(int \<times> prop_value) list"
  tr_records :: "cell_record option list"

definition TableRow_get :: "table_row \<Rightarrow> int \<Rightarrow> prop_value \<Rightarrow> prop_value" where
  "TableRow_get r prop_id dflt = (case map_of (tr_cells r) prop_id of None \<Rightarrow> dflt | Some v \<Rightarrow> v)"

definition TableRow_contains :: "table_row \<Rightarrow> int \<Rightarrow> bool" where
  "TableRow_contains r prop_id \<longleftrightarrow> map_of (tr_cells r) prop_id \<noteq> None"

definition TableRow_len :: "table_row \<Rightarrow> int" where
  "TableRow_len r = len (tr_cells r)"

section \<open>TableContext\<close>

record table_context =
  tc_heap :: heap_node
  tc_limits :: limits
  tc_codepage :: codepage
  tc_info :: table_context_info
  tc_tree :: heap_tree

text \<open>The blocks of the matrix, the rows each holds, and the number of the first row of each.\<close>

record row_matrix =
  rm_blocks :: "bytes list"
  rm_counts :: "int list"
  rm_starts :: "int list"

record tc_state =
  tcs_heap :: heap_state
  tcs_index :: "(int \<times> int) list option"
  tcs_matrix :: "row_matrix option"

definition tc_fresh :: "heap_state \<Rightarrow> tc_state" where
  "tc_fresh s = \<lparr>tcs_heap = s, tcs_index = None, tcs_matrix = None\<rparr>"

definition on_tc_heap :: "(heap_state, 'a) st \<Rightarrow> (tc_state, 'a) st" where
  "on_tc_heap = szoom tcs_heap (\<lambda>s t. t\<lparr>tcs_heap := s\<rparr>)"

definition TableContext :: "heap_node \<Rightarrow> limits option \<Rightarrow> codepage \<Rightarrow> (heap_state, table_context) st" where
  "TableContext heap limits codepage =
     sbind (slift (raise_if (HeapNode_client_signature heap \<noteq> HN_TABLE) PstFormatError)) (\<lambda>_.
     let limits' = (case limits of None \<Rightarrow> hn_limits heap | Some l \<Rightarrow> l) in
     sbind (HeapNode_get heap (HeapNode_user_root heap)) (\<lambda>item.
     sbind (slift (TableContextInfo_unpack item)) (\<lambda>info.
     sbind (HeapTree heap (Some (ti_row_index info))) (\<lambda>tree.
     sbind (slift (raise_if (hth_key_size (ht_header tree) \<noteq> ROW_INDEX_KEY_SIZE \<or>
         hth_entry_size (ht_header tree) \<noteq> ROW_INDEX_ENTRY_SIZE) PstFormatError)) (\<lambda>_.
     sret \<lparr>tc_heap = heap, tc_limits = limits', tc_codepage = codepage, tc_info = info, tc_tree = tree\<rparr>)))))"

definition TableContext_from_node ::
  "block_reader \<Rightarrow> block_id \<Rightarrow> block_id option \<Rightarrow> limits option \<Rightarrow> codepage \<Rightarrow>
   (table_context \<times> tc_state) result" where
  "TableContext_from_node reader data sub_node limits codepage =
     ebind (HeapNode_from_node reader data sub_node limits) (\<lambda>heap.
     ebind (srun (TableContext heap limits codepage) heap_fresh) (\<lambda>(tc, s). Inr (tc, tc_fresh s)))"

text \<open>\<open>row_index\<close>, and the body of its loop.\<close>

definition add_row_id :: "int \<Rightarrow> (int \<times> int) list \<Rightarrow> bytes \<times> bytes \<Rightarrow> (int \<times> int) list result" where
  "add_row_id ceiling seen = (\<lambda>(key, val).
     ebind (unpack [4] key 0) (\<lambda>ks.
     ebind (unpack [4] val 0) (\<lambda>vs.
     ebind (raise_if (map_of seen (ks ! 0) \<noteq> None) PstFormatError) (\<lambda>_.
     let seen' = seen @ [(ks ! 0, vs ! 0)] in
     ebind (check_count (len seen') ceiling) (\<lambda>_. Inr seen')))))"

definition TableContext_row_index :: "table_context \<Rightarrow> (tc_state, (int \<times> int) list) st" where
  "TableContext_row_index tc =
     smemo tcs_index (\<lambda>index s. s\<lparr>tcs_index := Some index\<rparr>)
       (on_tc_heap (HeapTree_iter (tc_tree tc) (add_row_id (max_items (tc_limits tc))) []))"

text \<open>\<open>_read_matrix\<close>: the running starts, and the matrix from its blocks.\<close>

fun running_starts :: "int \<Rightarrow> int list \<Rightarrow> int list" where
  "running_starts a [] = [a]"
| "running_starts a (c # cs) = a # running_starts (a + c) cs"

definition matrix_of :: "table_context_info \<Rightarrow> limits \<Rightarrow> bytes list \<Rightarrow> row_matrix result" where
  "matrix_of info limits blocks =
     (let width = ti_row_width info in
      ebind (emap (\<lambda>b. py_floordiv (len b) width) blocks) (\<lambda>counts.
      let starts = running_starts 0 counts in
      ebind (if last starts > 0 then ti_check_row_header_fits info else Inr ()) (\<lambda>_.
      ebind (check_count (last starts) (max_items limits)) (\<lambda>_.
      Inr \<lparr>rm_blocks = blocks, rm_counts = counts, rm_starts = starts\<rparr>))))"

definition TableContext_blocks :: "table_context \<Rightarrow> (tc_state, bytes list) st" where
  "TableContext_blocks tc =
     (case ti_rows (tc_info tc) of
        None \<Rightarrow> sret []
      | Some rows \<Rightarrow>
          sbind (on_tc_heap (HeapNode_get_hnid_blocks (tc_heap tc) rows)) (\<lambda>blocks.
          sbind (slift (check_allocation (sum_list (map len blocks)) (max_allocation (tc_limits tc)))) (\<lambda>_.
          sret blocks)))"

definition TableContext_read_matrix :: "table_context \<Rightarrow> (tc_state, row_matrix) st" where
  "TableContext_read_matrix tc =
     smemo tcs_matrix (\<lambda>m s. s\<lparr>tcs_matrix := Some m\<rparr>)
       (sbind (TableContext_blocks tc) (\<lambda>blocks. slift (matrix_of (tc_info tc) (tc_limits tc) blocks)))"

definition TableContext_row_count :: "table_context \<Rightarrow> (tc_state, int) st" where
  "TableContext_row_count tc = sbind (TableContext_read_matrix tc) (\<lambda>m. sret (last (rm_starts m)))"

text \<open>\<open>_row_bytes\<close>: the block by bisection, then the slice.\<close>

definition row_slice :: "table_context_info \<Rightarrow> row_matrix \<Rightarrow> int \<Rightarrow> bytes result" where
  "row_slice info m index =
     ebind (raise_if (\<not> (0 \<le> index \<and> index < last (rm_starts m))) PstFormatError) (\<lambda>_.
     let block = int (bisect_right (rm_starts m) index) - 1 in
     ebind (py_index (rm_starts m) block) (\<lambda>start.
     ebind (py_index (rm_blocks m) block) (\<lambda>bytes.
     let offset = (index - start) * ti_row_width info in
     Inr (slice bytes offset (offset + ti_row_width info)))))"

definition TableContext_row_bytes :: "table_context \<Rightarrow> int \<Rightarrow> (tc_state, bytes) st" where
  "TableContext_row_bytes tc index =
     sbind (TableContext_read_matrix tc) (\<lambda>m. slift (row_slice (tc_info tc) m index))"

definition check_offset :: "column_descriptor \<Rightarrow> int \<Rightarrow> int \<Rightarrow> int result" where
  "check_offset c low high =
     ebind (raise_if (cd_offset c < low \<or> cd_offset c + cd_size c > high) PstFormatError) (\<lambda>_. Inr (cd_offset c))"

definition small_cell :: "bytes \<Rightarrow> column_descriptor \<Rightarrow> int \<Rightarrow> cell_record" where
  "small_cell row c start = \<lparr>ce_kind = CELL_SMALL, ce_raw = 0, ce_data = slice row start (start + cd_size c)\<rparr>"

definition cell_record_of :: "table_context_info \<Rightarrow> bytes \<Rightarrow> column_descriptor \<Rightarrow> cell_record result" where
  "cell_record_of info row c =
     (if cd_type c \<in> HNID_TYPES then
        ebind (check_offset c 8 (ti_end_4byte info)) (\<lambda>at.
        ebind (unpack [4] row at) (\<lambda>fs.
        ebind (mk_HeapNodeId (fs ! 0)) (\<lambda>hnid.
        Inr \<lparr>ce_kind = (if HeapNodeId_is_heap hnid then CELL_HEAP else CELL_NODE), ce_raw = fs ! 0, ce_data = []\<rparr>)))
      else
        ebind (if cd_type c \<in> ONE_BYTE_TYPES then check_offset c (ti_end_2byte info) (ti_end_1byte info)
               else if cd_type c \<in> TWO_BYTE_TYPES then check_offset c (ti_end_4byte info) (ti_end_2byte info)
               else if cd_type c = T_LONG \<and> cd_offset c \<in> {0, 4} then Inr (cd_offset c)
               else check_offset c ROW_HEADER_SIZE (ti_end_4byte info)) (\<lambda>start.
        Inr (small_cell row c start)))"

definition TableContext_read_cell :: "table_context \<Rightarrow> cell_record \<Rightarrow> prop_type \<Rightarrow> (tc_state, prop_value) st" where
  "TableContext_read_cell tc record t =
     (if ce_kind record = CELL_SMALL
      then slift (decode t (ce_data record) (tc_codepage tc) (max_mv_items (tc_limits tc)))
      else if ce_raw record = 0 then sret VNull
      else
        sbind (slift (mk_HeapNodeId (ce_raw record))) (\<lambda>hnid.
        sbind (on_tc_heap (HeapNode_get_hnid (tc_heap tc) hnid)) (\<lambda>data.
        slift (decode t data (tc_codepage tc) (max_mv_items (tc_limits tc))))))"

text \<open>One step of the loop over the columns: a cell that is absent adds no value.\<close>

type_synonym row_acc = "cell_record option list \<times> (int \<times> prop_value) list"

definition TableContext_read_column ::
  "table_context \<Rightarrow> bytes \<Rightarrow> bytes \<Rightarrow> row_acc \<Rightarrow> column_descriptor \<Rightarrow> (tc_state, row_acc) st" where
  "TableContext_read_column tc row bitmap acc c =
     sbind (slift (check_existence_bitmap (cd_bit c) bitmap)) (\<lambda>present.
     if \<not> present then sret (fst acc @ [None], snd acc)
     else
       sbind (slift (cell_record_of (tc_info tc) row c)) (\<lambda>record.
       sbind (TableContext_read_cell tc record (cd_type c)) (\<lambda>v.
       sret (fst acc @ [Some record], AList.update (cd_id c) v (snd acc)))))"

definition TableContext_read_row :: "table_context \<Rightarrow> bytes \<Rightarrow> (tc_state, table_row) st" where
  "TableContext_read_row tc row =
     sbind (slift (unpack [4, 4] row 0)) (\<lambda>fs.
     let bitmap = slice row (ti_end_1byte (tc_info tc)) (ti_end_bitmap (tc_info tc)) in
     sbind (sfold (TableContext_read_column tc row bitmap) ([], []) (ti_columns (tc_info tc))) (\<lambda>(records, cells).
     sret \<lparr>tr_id = fs ! 0, tr_unique = fs ! 1, tr_cells = cells, tr_records = records\<rparr>))"

definition TableContext_row :: "table_context \<Rightarrow> int \<Rightarrow> (tc_state, table_row) st" where
  "TableContext_row tc index = sbind (TableContext_row_bytes tc index) (TableContext_read_row tc)"

text \<open>\<open>rows\<close> and \<open>__iter__\<close>, as the loop they drive.\<close>

definition TableContext_rows :: "table_context \<Rightarrow> ('a \<Rightarrow> table_row \<Rightarrow> 'a result) \<Rightarrow> 'a \<Rightarrow> (tc_state, 'a) st" where
  "TableContext_rows tc body acc =
     sbind (TableContext_read_matrix tc) (\<lambda>m.
     sfold (\<lambda>acc index. sbind (TableContext_row tc (int index)) (\<lambda>row. slift (body acc row)))
       acc [0..<nat (last (rm_starts m))])"

definition TableContext_find_row :: "table_context \<Rightarrow> int \<Rightarrow> (tc_state, table_row) st" where
  "TableContext_find_row tc row_id =
     sbind (TableContext_row_index tc) (\<lambda>index.
     case map_of index row_id of
       None \<Rightarrow> slift (Inl PstNotFoundError)
     | Some i \<Rightarrow> TableContext_row tc i)"

section \<open>The meaning without the memory\<close>

definition tc_row_index :: "table_context \<Rightarrow> (int \<times> int) list result" where
  "tc_row_index tc =
     bth_iter (ht_heap (tc_tree tc)) (ht_header (tc_tree tc)) (add_row_id (max_items (tc_limits tc))) []"

definition tc_blocks :: "table_context \<Rightarrow> bytes list result" where
  "tc_blocks tc =
     (case ti_rows (tc_info tc) of
        None \<Rightarrow> Inr []
      | Some rows \<Rightarrow>
          ebind (heap_value_blocks (tc_heap tc) rows) (\<lambda>blocks.
          ebind (check_allocation (sum_list (map len blocks)) (max_allocation (tc_limits tc))) (\<lambda>_. Inr blocks)))"

definition tc_matrix :: "table_context \<Rightarrow> row_matrix result" where
  "tc_matrix tc = ebind (tc_blocks tc) (matrix_of (tc_info tc) (tc_limits tc))"

definition tc_cell :: "table_context \<Rightarrow> cell_record \<Rightarrow> prop_type \<Rightarrow> prop_value result" where
  "tc_cell tc record t =
     (if ce_kind record = CELL_SMALL
      then decode t (ce_data record) (tc_codepage tc) (max_mv_items (tc_limits tc))
      else if ce_raw record = 0 then Inr VNull
      else
        ebind (mk_HeapNodeId (ce_raw record)) (\<lambda>hnid.
        ebind (heap_value (tc_heap tc) hnid) (\<lambda>data.
        decode t data (tc_codepage tc) (max_mv_items (tc_limits tc)))))"

definition tc_column :: "table_context \<Rightarrow> bytes \<Rightarrow> bytes \<Rightarrow> row_acc \<Rightarrow> column_descriptor \<Rightarrow> row_acc result" where
  "tc_column tc row bitmap acc c =
     ebind (check_existence_bitmap (cd_bit c) bitmap) (\<lambda>present.
     if \<not> present then Inr (fst acc @ [None], snd acc)
     else
       ebind (cell_record_of (tc_info tc) row c) (\<lambda>record.
       ebind (tc_cell tc record (cd_type c)) (\<lambda>v.
       Inr (fst acc @ [Some record], AList.update (cd_id c) v (snd acc)))))"

definition tc_read_row :: "table_context \<Rightarrow> bytes \<Rightarrow> table_row result" where
  "tc_read_row tc row =
     ebind (unpack [4, 4] row 0) (\<lambda>fs.
     let bitmap = slice row (ti_end_1byte (tc_info tc)) (ti_end_bitmap (tc_info tc)) in
     ebind (efold (tc_column tc row bitmap) ([], []) (ti_columns (tc_info tc))) (\<lambda>(records, cells).
     Inr \<lparr>tr_id = fs ! 0, tr_unique = fs ! 1, tr_cells = cells, tr_records = records\<rparr>))"

definition tc_row :: "table_context \<Rightarrow> int \<Rightarrow> table_row result" where
  "tc_row tc index =
     ebind (ebind (tc_matrix tc) (\<lambda>m. row_slice (tc_info tc) m index)) (tc_read_row tc)"

definition tc_rows :: "table_context \<Rightarrow> ('a \<Rightarrow> table_row \<Rightarrow> 'a result) \<Rightarrow> 'a \<Rightarrow> 'a result" where
  "tc_rows tc body acc =
     ebind (tc_matrix tc) (\<lambda>m.
     efold (\<lambda>acc index. ebind (tc_row tc (int index)) (body acc)) acc [0..<nat (last (rm_starts m))])"

definition tc_find_row :: "table_context \<Rightarrow> int \<Rightarrow> table_row result" where
  "tc_find_row tc row_id =
     ebind (tc_row_index tc) (\<lambda>index.
     case map_of index row_id of None \<Rightarrow> Inl PstNotFoundError | Some i \<Rightarrow> tc_row tc i)"

text \<open>What the constructor's TCINFO is.\<close>

definition ti_ok :: "table_context_info \<Rightarrow> bool" where
  "ti_ok info \<longleftrightarrow> ti_validate info = Inr () \<and> 0 \<le> ti_end_4byte info \<and> 0 \<le> ti_end_bitmap info \<and>
     heap_id_ok (ti_row_index info) \<and> (\<forall>c \<in> set (ti_columns info). 0 \<le> cd_offset c \<and> 0 \<le> cd_bit c)"

definition tc_ok :: "table_context \<Rightarrow> bool" where
  "tc_ok tc \<longleftrightarrow> ht_heap (tc_tree tc) = tc_heap tc \<and> heap_tree_header_ok (ht_header (tc_tree tc)) \<and>
     hth_key_size (ht_header (tc_tree tc)) = ROW_INDEX_KEY_SIZE \<and>
     hth_entry_size (ht_header (tc_tree tc)) = ROW_INDEX_ENTRY_SIZE \<and> ti_ok (tc_info tc)"

definition tc_inv :: "table_context \<Rightarrow> tc_state \<Rightarrow> bool" where
  "tc_inv tc s \<longleftrightarrow> heap_inv (tc_heap tc) (tcs_heap s) \<and>
     (\<forall>x. tcs_index s = Some x \<longrightarrow> tc_row_index tc = Inr x) \<and>
     (\<forall>m. tcs_matrix s = Some m \<longrightarrow> tc_matrix tc = Inr m)"

abbreviation tc_exact :: "table_context \<Rightarrow> bool" where
  "tc_exact tc \<equiv> heap_within_budget (tc_heap tc)"

lemma on_tc_heap_implements [intro]:
  "implements (heap_inv (tc_heap tc)) ex m p \<Longrightarrow> implements (tc_inv tc) ex (on_tc_heap m) p"
  unfolding on_tc_heap_def by (rule implements_szoom) (auto simp: tc_inv_def)

lemma TableContext_row_index_implements [intro]:
  assumes "tc_ok tc"
  shows "implements (tc_inv tc) (tc_exact tc) (TableContext_row_index tc) (tc_row_index tc)"
  unfolding TableContext_row_index_def
proof (rule implements_smemo)
  show "implements (tc_inv tc) (tc_exact tc)
      (on_tc_heap (HeapTree_iter (tc_tree tc) (add_row_id (max_items (tc_limits tc))) [])) (tc_row_index tc)"
    using HeapTree_iter_implements [of "tc_tree tc" "add_row_id (max_items (tc_limits tc))" "[]"] assms
    unfolding tc_row_index_def by (intro on_tc_heap_implements) (simp add: tc_ok_def)
qed (auto simp: tc_inv_def)

lemma TableContext_read_matrix_implements [intro]:
  "implements (tc_inv tc) (tc_exact tc) (TableContext_read_matrix tc) (tc_matrix tc)"
  unfolding TableContext_read_matrix_def
proof (rule implements_smemo)
  have "implements (tc_inv tc) (tc_exact tc) (TableContext_blocks tc) (tc_blocks tc)"
    unfolding TableContext_blocks_def tc_blocks_def
    by (auto split: option.split intro!: implements_sbind implements_slift implements_sret on_tc_heap_implements
        HeapNode_get_hnid_blocks_implements)
  then show "implements (tc_inv tc) (tc_exact tc)
      (sbind (TableContext_blocks tc) (\<lambda>blocks. slift (matrix_of (tc_info tc) (tc_limits tc) blocks))) (tc_matrix tc)"
    unfolding tc_matrix_def by (intro implements_sbind implements_slift refl)
qed (auto simp: tc_inv_def)

lemma TableContext_read_cell_implements [intro]:
  "implements (tc_inv tc) (tc_exact tc) (TableContext_read_cell tc r t) (tc_cell tc r t)"
  unfolding TableContext_read_cell_def tc_cell_def
  by (intro implements_if implements_sbind implements_slift implements_sret on_tc_heap_implements
      HeapNode_get_hnid_implements refl)

lemma TableContext_read_row_implements [intro]:
  "implements (tc_inv tc) (tc_exact tc) (TableContext_read_row tc row) (tc_read_row tc row)"
  unfolding TableContext_read_row_def tc_read_row_def TableContext_read_column_def tc_column_def Let_def case_prod_beta
  by (intro implements_if implements_sbind implements_slift implements_sfold implements_sret
      TableContext_read_cell_implements refl)

lemma TableContext_row_implements [intro]:
  "implements (tc_inv tc) (tc_exact tc) (TableContext_row tc i) (tc_row tc i)"
  unfolding TableContext_row_def tc_row_def TableContext_row_bytes_def
  by (intro implements_sbind implements_slift TableContext_read_matrix_implements TableContext_read_row_implements refl)

lemma TableContext_rows_implements [intro]:
  "implements (tc_inv tc) (tc_exact tc) (TableContext_rows tc body acc) (tc_rows tc body acc)"
  unfolding TableContext_rows_def tc_rows_def
  by (intro implements_sbind implements_slift implements_sfold TableContext_read_matrix_implements
      TableContext_row_implements refl)

lemma TableContext_find_row_implements [intro]:
  "tc_ok tc \<Longrightarrow> implements (tc_inv tc) (tc_exact tc) (TableContext_find_row tc i) (tc_find_row tc i)"
  unfolding TableContext_find_row_def tc_find_row_def
  by (intro implements_sbind TableContext_row_index_implements) (auto split: option.split)

section \<open>A validated schema\<close>

lemma emap_unit: "emap f xs = Inr (us :: unit list) \<Longrightarrow> x \<in> set xs \<Longrightarrow> f x = Inr ()"
  using emap_nth [of f xs us] by (auto simp: in_set_conv_nth)

lemma ti_validate_Inr:
  assumes "ti_validate info = Inr ()"
  shows "ti_end_4byte info mod 4 = 0" "ti_end_4byte info \<le> ti_end_2byte info"
    "ti_end_2byte info \<le> ti_end_1byte info" "ti_end_1byte info \<le> ti_end_bitmap info"
    "ti_end_bitmap info = ti_end_1byte info + ti_bitmap_size info" "len (ti_columns info) \<le> MAX_COLUMNS"
    "c \<in> set (ti_columns info) \<Longrightarrow> ti_validate_column info c = Inr ()"
  using assms by (auto simp: ti_validate_def ebind_Inr_iff raise_if_Inr_iff dest: emap_unit)

text \<open>Where a validated column's cells are.\<close>

lemma two_not_one: "t \<in> TWO_BYTE_TYPES \<Longrightarrow> t \<notin> ONE_BYTE_TYPES"
  by (auto simp: column_types)

lemma ti_validate_column_Inr:
  assumes "ti_validate_column info c = Inr ()"
  shows "COLUMN_WIDTHS (cd_type c) = Some (cd_size c)" "cd_bit c \<le> len (ti_columns info)"
    "cd_type c \<in> ONE_BYTE_TYPES \<Longrightarrow> ti_end_2byte info \<le> cd_offset c \<and> cd_offset c < ti_end_1byte info"
    "cd_type c \<in> TWO_BYTE_TYPES \<Longrightarrow> ti_end_4byte info \<le> cd_offset c \<and> cd_offset c + 2 \<le> ti_end_2byte info"
    "cd_type c \<notin> ONE_BYTE_TYPES \<union> TWO_BYTE_TYPES \<Longrightarrow>
       cd_offset c mod 4 = 0 \<and> cd_offset c + cd_size c \<le> ti_end_4byte info"
  using assms
  by (auto simp: ti_validate_column_def ebind_Inr_iff raise_if_Inr_iff Let_def dest: two_not_one
      split: option.splits if_splits)

definition low_cell :: "column_descriptor \<Rightarrow> bool" where
  "low_cell c \<longleftrightarrow> cd_type c \<notin> ONE_BYTE_TYPES \<union> TWO_BYTE_TYPES \<union> {T_LONG} \<and> cd_offset c < 8"

lemma unpack_u32: "unpack [4] row at = Inr fs \<longleftrightarrow> 0 \<le> at \<and> at + 4 \<le> len row \<and> fs = [le_int (slice row at (at + 4))]"
  by (auto simp: unpack_Inr_iff calcsize_def slice_def)

lemma ColumnDescriptor_closed [simp, intro]: "fails_closed (ColumnDescriptor_unpack_from buf off)"
  unfolding ColumnDescriptor_unpack_from_def by (intro fails_closed_ebind) auto

lemma ti_validate_closed [simp, intro]: "fails_closed (ti_validate info)"
  unfolding ti_validate_def ti_validate_column_def Let_def
  by (auto intro!: fails_closed_ebind fails_closed_emap fails_closed_raise_if split: option.split)

lemma TableContextInfo_closed [simp, intro]: "fails_closed (TableContextInfo_unpack data)"
  unfolding TableContextInfo_unpack_def Let_def by (intro fails_closed_ebind fails_closed_if fails_closed_emap) auto

lemma ColumnDescriptor_nonneg:
  assumes "ColumnDescriptor_unpack_from buf off = Inr c"
  shows "0 \<le> cd_offset c" "0 \<le> cd_bit c"
  using assms unpack_nonneg [of TCOLDESC_FORMAT buf off]
  by (auto simp: ColumnDescriptor_unpack_from_def ebind_Inr_iff TCOLDESC_FORMAT_def)

lemma TableContextInfo_ok:
  assumes "TableContextInfo_unpack data = Inr info"
  shows "ti_ok info"
proof -
  from assms obtain fs cols where fs: "unpack TCINFO_FORMAT data 0 = Inr fs"
    and cols: "emap (\<lambda>i. ColumnDescriptor_unpack_from data (TCINFO_SIZE + int i * TCOLDESC_SIZE)) [0..<nat (fs ! 1)] = Inr cols"
    and v: "ti_validate info = Inr ()" and info: "ti_end_4byte info = fs ! 2" "ti_end_bitmap info = fs ! 5"
      "ti_columns info = cols" "heap_id_ok (ti_row_index info)"
    by (auto simp: TableContextInfo_unpack_def ebind_Inr_iff Let_def dest: mk_HeapId_ok)
  have "0 \<le> fs ! 2" "0 \<le> fs ! 5" using unpack_nonneg [OF fs] by (simp_all add: TCINFO_FORMAT_def)
  moreover have "0 \<le> cd_offset c \<and> 0 \<le> cd_bit c" if "c \<in> set cols" for c
    using emap_set [OF cols that] ColumnDescriptor_nonneg by blast
  ultimately show ?thesis using v info by (simp add: ti_ok_def)
qed

theorem cell_record_validated:
  assumes ok: "ti_ok info" and c: "c \<in> set (ti_columns info)" and row: "len row = ti_row_width info"
  shows "low_cell c \<Longrightarrow> cell_record_of info row c = Inl PstFormatError"
    and "\<not> low_cell c \<Longrightarrow> 0 \<le> cd_offset c \<and> cd_offset c + cd_size c \<le> ti_end_1byte info \<and>
      cell_record_of info row c =
        Inr (if cd_type c \<in> HNID_TYPES
             then let raw = le_int (slice row (cd_offset c) (cd_offset c + 4)) in
               \<lparr>ce_kind = (if raw mod 32 = 0 then CELL_HEAP else CELL_NODE), ce_raw = raw, ce_data = []\<rparr>
             else small_cell row c (cd_offset c))"
proof -
  have v: "ti_validate info = Inr ()" and off: "0 \<le> cd_offset c" using ok c by (auto simp: ti_ok_def)
  note info = ti_validate_Inr [OF v]
  note col = ti_validate_column_Inr [OF info(7) [OF c]]
  have e1: "ti_end_1byte info \<le> len row" using info row by (simp add: ti_row_width_def)
  { assume low: "low_cell c"
    then show "cell_record_of info row c = Inl PstFormatError"
      by (auto simp: low_cell_def cell_record_of_def check_offset_def raise_if_def ROW_HEADER_SIZE_def) }
  assume high: "\<not> low_cell c"
  consider (hnid) "cd_type c \<in> HNID_TYPES" | (one) "cd_type c \<in> ONE_BYTE_TYPES" | (two) "cd_type c \<in> TWO_BYTE_TYPES"
    | (wide) "cd_type c \<in> FOUR_BYTE_TYPES \<union> EIGHT_BYTE_TYPES"
    using col(1) by (auto simp: COLUMN_WIDTHS_def split: if_splits)
  then show "0 \<le> cd_offset c \<and> cd_offset c + cd_size c \<le> ti_end_1byte info \<and>
      cell_record_of info row c =
        Inr (if cd_type c \<in> HNID_TYPES
             then let raw = le_int (slice row (cd_offset c) (cd_offset c + 4)) in
               \<lparr>ce_kind = (if raw mod 32 = 0 then CELL_HEAP else CELL_NODE), ce_raw = raw, ce_data = []\<rparr>
             else small_cell row c (cd_offset c))"
  proof cases
    case hnid
    have sz: "cd_size c = 4" using hnid col(1) by (simp add: COLUMN_WIDTHS_def)
    have out: "cd_type c \<notin> ONE_BYTE_TYPES \<union> TWO_BYTE_TYPES \<union> {T_LONG}" using hnid by (auto simp: column_types)
    then have at: "8 \<le> cd_offset c" "cd_offset c + 4 \<le> ti_end_4byte info"
      using high col(5) sz by (auto simp: low_cell_def)
    have "le_int (slice row (cd_offset c) (cd_offset c + 4)) < 256 ^ 4"
      using le_int_bound [of "slice row (cd_offset c) (cd_offset c + 4)"] at info e1
        length_slice [of "cd_offset c" "cd_offset c + 4" row] by simp
    moreover have "unpack [4] row (cd_offset c) = Inr [le_int (slice row (cd_offset c) (cd_offset c + 4))]"
      using at info e1 by (simp add: unpack_u32)
    ultimately show ?thesis using hnid at info e1 sz
      by (simp add: cell_record_of_def check_offset_def mk_HeapNodeId_def check_u32_def
          HeapNodeId_is_heap_iff raise_if_def U32_def Let_def not_less)
  next
    case one
    then have "cd_size c = 1" using col(1) by (auto simp: COLUMN_WIDTHS_def column_types)
    with one col(3) off show ?thesis
      by (auto simp: cell_record_of_def check_offset_def raise_if_def column_types)
  next
    case two
    then have "cd_size c = 2" using col(1) by (auto simp: COLUMN_WIDTHS_def column_types)
    with two col(4) off info show ?thesis
      by (auto simp: cell_record_of_def check_offset_def raise_if_def column_types)
  next
    case wide
    then have out: "cd_type c \<notin> HNID_TYPES" "cd_type c \<notin> ONE_BYTE_TYPES" "cd_type c \<notin> TWO_BYTE_TYPES"
      by (auto simp: column_types)
    then have at: "cd_offset c mod 4 = 0" "cd_offset c + cd_size c \<le> ti_end_4byte info" using col(5) by auto
    have "cd_type c = T_LONG \<and> cd_offset c \<in> {0, 4} \<or> 8 \<le> cd_offset c"
    proof (cases "cd_offset c < 8")
      case True
      then have "cd_offset c = 0 \<or> cd_offset c = 4" using at(1) off by presburger
      then show ?thesis using True high out by (auto simp: low_cell_def)
    qed simp
    with at out off info show ?thesis
      by (auto simp: cell_record_of_def check_offset_def raise_if_def ROW_HEADER_SIZE_def)
  qed
qed

section \<open>The rows of the matrix\<close>

definition block_rows :: "int \<Rightarrow> bytes \<Rightarrow> bytes list" where
  "block_rows width b = map (\<lambda>k. slice b (int k * width) (int k * width + width)) [0..<nat (len b div width)]"

lemma running_starts_facts:
  "length (running_starts a cs) = length cs + 1"
  "i \<le> length cs \<Longrightarrow> running_starts a cs ! i = a + sum_list (take i cs)"
  "last (running_starts a cs) = a + sum_list cs"
  "running_starts a cs \<noteq> []"
proof -
  show l: "length (running_starts a cs) = length cs + 1" by (induction a cs rule: running_starts.induct) auto
  show n: "i \<le> length cs \<Longrightarrow> running_starts a cs ! i = a + sum_list (take i cs)" for i
    by (induction a cs arbitrary: i rule: running_starts.induct) (auto simp: nth_Cons split: nat.split)
  show ne: "running_starts a cs \<noteq> []" using l by auto
  show "last (running_starts a cs) = a + sum_list cs" using n [of "length cs"] l ne by (simp add: last_conv_nth)
qed

lemma running_starts_sorted: "\<forall>c \<in> set cs. 0 \<le> c \<Longrightarrow> sorted (running_starts a cs)"
proof (induction a cs rule: running_starts.induct)
  case (2 a c cs)
  have "a + c \<le> x" if "x \<in> set (running_starts (a + c) cs)" for x
  proof -
    from that obtain i where i: "i < length (running_starts (a + c) cs)" "x = running_starts (a + c) cs ! i"
      by (metis in_set_conv_nth)
    then have "x = a + c + sum_list (take i cs)" by (simp add: running_starts_facts)
    moreover have "0 \<le> sum_list (take i cs)" using 2(2) by (intro sum_list_nonneg) (auto dest: in_set_takeD)
    ultimately show ?thesis by simp
  qed
  with 2 show ?case by fastforce
qed simp

lemma sum_list_int: "sum_list (map int xs) = int (sum_list xs)"
  by (induction xs) auto

lemma concat_nth:
  assumes "b < length xss" "j < length (xss ! b)"
  shows "concat xss ! (sum_list (take b (map length xss)) + j) = xss ! b ! j"
    and "sum_list (take b (map length xss)) + j < length (concat xss)"
proof -
  have len: "length (concat (take b xss)) = sum_list (take b (map length xss))"
    by (simp add: length_concat take_map)
  note split = concat_nth_split [OF assms(1)]
  show "concat xss ! (sum_list (take b (map length xss)) + j) = xss ! b ! j"
    unfolding split len [symmetric] using assms(2) by (simp add: nth_append)
  show "sum_list (take b (map length xss)) + j < length (concat xss)"
    unfolding split len [symmetric] using assms(2) by simp
qed

lemma bisect_right_spec:
  assumes "sorted a"
  shows "\<forall>i < bisect_right a x. a ! i \<le> x" "\<forall>i < length a. bisect_right a x \<le> i \<longrightarrow> x < a ! i"
    "bisect_right a x \<le> length a"
  using bisect_loop_spec [OF assms, of 0 "length a" x] bisect_loop_bounds [of 0 "length a" a x]
  unfolding bisect_right_def by auto

lemma matrix_of_Inr:
  assumes "matrix_of info limits blocks = Inr m" "0 < ti_row_width info"
  shows "rm_blocks m = blocks" "rm_counts m = map (\<lambda>b. len b div ti_row_width info) blocks"
    "rm_starts m = running_starts 0 (map (\<lambda>b. len b div ti_row_width info) blocks)"
    "last (rm_starts m) \<le> max_items limits" "0 < last (rm_starts m) \<Longrightarrow> 8 \<le> ti_end_4byte info"
proof -
  have counts: "emap (\<lambda>b. py_floordiv (len b) (ti_row_width info)) blocks =
      Inr (map (\<lambda>b. len b div ti_row_width info) blocks)"
    using assms(2) by (intro emap_Inr_map) (simp add: py_floordiv_ok)
  show "rm_blocks m = blocks" "rm_counts m = map (\<lambda>b. len b div ti_row_width info) blocks"
    "rm_starts m = running_starts 0 (map (\<lambda>b. len b div ti_row_width info) blocks)"
    "last (rm_starts m) \<le> max_items limits" "0 < last (rm_starts m) \<Longrightarrow> 8 \<le> ti_end_4byte info"
    using assms(1)
    by (auto simp: matrix_of_def Let_def counts ebind_Inr_iff check_Inr_iff ti_check_row_header_fits_def
        raise_if_Inr_iff ROW_HEADER_SIZE_def split: if_splits)
qed

theorem row_slice_rows:
  assumes m: "matrix_of info limits blocks = Inr m" and w: "0 < ti_row_width info"
  defines "rows \<equiv> concat (map (block_rows (ti_row_width info)) blocks)"
  shows "last (rm_starts m) = len rows"
    and "row_slice info m i = (if 0 \<le> i \<and> i < len rows then Inr (rows ! nat i) else Inl PstFormatError)"
proof -
  let ?w = "ti_row_width info" and ?xss = "map (block_rows (ti_row_width info)) blocks"
  let ?cs = "map (\<lambda>b. len b div ti_row_width info) blocks"
  note m = matrix_of_Inr [OF m w]
  have cs: "?cs = map int (map length ?xss)"
    using w by (simp add: block_rows_def pos_imp_zdiv_nonneg_iff)
  have sum: "sum_list (take b ?cs) = int (sum_list (take b (map length ?xss)))" for b
    unfolding cs by (simp only: take_map sum_list_int)
  show last: "last (rm_starts m) = len rows"
    using sum [of "length blocks"] by (simp add: m(3) running_starts_facts rows_def length_concat)
  show "row_slice info m i = (if 0 \<le> i \<and> i < len rows then Inr (rows ! nat i) else Inl PstFormatError)"
  proof (cases "0 \<le> i \<and> i < len rows")
    case False
    then show ?thesis using last by (auto simp: row_slice_def)
  next
    case True
    let ?S = "running_starts 0 ?cs" and ?r = "bisect_right (running_starts 0 ?cs) i"
    have srt: "sorted ?S" using w by (intro running_starts_sorted) (auto simp: pos_imp_zdiv_nonneg_iff)
    note bis = bisect_right_spec [OF srt, of i]
    have S: "length ?S = length blocks + 1" "?S ! 0 = 0" by (simp_all add: running_starts_facts)
    have "?r \<noteq> 0" using bis(2) S True by (metis le_0_eq less_add_one less_le_not_le linorder_not_less zero_less_Suc add.commute Suc_eq_plus1)
    moreover have "?r \<noteq> length ?S"
    proof
      assume "?r = length ?S"
      then have "?S ! length blocks \<le> i" using bis(1) S by simp
      then show False using True last by (simp add: m(3) running_starts_facts)
    qed
    ultimately obtain b where b: "?r = Suc b" "b < length blocks"
      using bis(3) S by (cases ?r) auto
    have lo: "?S ! b \<le> i" and hi: "i < ?S ! Suc b" using bis(1,2) b S by auto
    let ?j = "nat (i - ?S ! b)"
    have Sb: "?S ! b = int (sum_list (take b (map length ?xss)))" using b(2) sum [of b] by (simp add: running_starts_facts)
    have step: "?S ! Suc b = ?S ! b + len (?xss ! b)"
      using b(2) cs by (simp add: running_starts_facts take_Suc_conv_app_nth)
    have j: "?j < length (?xss ! b)" using lo hi step by linarith
    have "nat i = sum_list (take b (map length ?xss)) + ?j" using lo Sb by linarith
    then have row: "rows ! nat i = ?xss ! b ! ?j"
      using concat_nth(1) [of b ?xss ?j] b(2) j by (simp add: rows_def)
    have "rows ! nat i = slice (blocks ! b) (int ?j * ?w) (int ?j * ?w + ?w)"
      unfolding row using b(2) j by (simp add: block_rows_def)
    moreover have "int ?j = i - ?S ! b" using lo by simp
    moreover have "py_index ?S (int b) = Inr (?S ! b)" "py_index blocks (int b) = Inr (blocks ! b)"
      using b(2) S by (simp_all add: py_index_ok)
    ultimately show ?thesis
      using True last b(1) by (simp add: row_slice_def m Let_def)
  qed
qed

section \<open>What can escape\<close>

lemma tc_row_index_closed: "tc_ok tc \<Longrightarrow> fails_closed (tc_row_index tc)"
  unfolding tc_row_index_def add_row_id_def
  by (intro bth_iter_closed) (auto simp: tc_ok_def case_prod_beta Let_def intro!: fails_closed_ebind)

lemma tc_blocks_closed: "heap_ok (tc_heap tc) \<Longrightarrow> fails_closed (tc_blocks tc)"
  unfolding tc_blocks_def by (auto split: option.split intro!: fails_closed_ebind)

lemma matrix_of_closed: "ti_row_width info \<noteq> 0 \<Longrightarrow> fails_closed (matrix_of info l blocks)"
  unfolding matrix_of_def Let_def
  by (intro fails_closed_ebind fails_closed_emap fails_closed_if) (auto simp: py_floordiv_def ti_check_row_header_fits_def)

lemma matrix_of_zero: "ti_row_width info = 0 \<Longrightarrow> matrix_of info l (b # bs) = Inl ZeroDivisionError"
  by (simp add: matrix_of_def Let_def py_floordiv_def)

lemma matrix_of_empty: "ti_row_width info = 0 \<Longrightarrow> fails_closed (matrix_of info l [])"
  by (auto simp: matrix_of_def Let_def)

text \<open>The one exception that is not a PstError: rows of width zero, in a matrix that has a block.\<close>

theorem tc_matrix_escapes:
  assumes "heap_ok (tc_heap tc)" "tc_matrix tc = Inl e" "\<not> is_pst_error e"
  shows "e = ZeroDivisionError \<and> ti_row_width (tc_info tc) = 0"
proof -
  have blocks: "\<exists>bs. tc_blocks tc = Inr bs"
    using assms(2,3) tc_blocks_closed [OF assms(1)] by (cases "tc_blocks tc") (auto simp: tc_matrix_def)
  then obtain bs where bs: "tc_blocks tc = Inr bs" by blast
  with assms(2) have m: "matrix_of (tc_info tc) (tc_limits tc) bs = Inl e" by (simp add: tc_matrix_def)
  have w: "ti_row_width (tc_info tc) = 0"
    using m assms(3) fails_closedD [OF matrix_of_closed] by blast
  moreover have "e = ZeroDivisionError"
    using m assms(3) matrix_of_zero [OF w] fails_closedD [OF matrix_of_empty [OF w]] by (cases bs) auto
  ultimately show ?thesis by simp
qed

lemma check_existence_bitmap_eq:
  assumes "0 \<le> i"
  shows "check_existence_bitmap i bm =
    (if i < 8 * len bm then Inr (bit (bm ! nat (i div 8)) (nat (7 - i mod 8))) else Inl PstFormatError)"
proof -
  have "uint b AND push_bit n 1 \<noteq> 0 \<longleftrightarrow> bit b n" for b :: byte and n
    using bit_imp_le_length [of b n] by (auto simp: push_bit_eq_mult and_exp_eq_0_iff_not_bit bit_uint_iff)
  moreover have "py_index bm (i div 8) = Inr (bm ! nat (i div 8))" if "i < 8 * len bm"
    using that assms by (intro py_index_ok) auto
  ultimately show ?thesis using assms by (simp add: check_existence_bitmap_def raise_if_def)
qed

lemma cell_record_of_closed [simp, intro]: "fails_closed (cell_record_of info row c)"
  unfolding cell_record_of_def check_offset_def by (intro fails_closed_if fails_closed_ebind) auto

lemma tc_cell_closed [simp, intro]: "heap_ok (tc_heap tc) \<Longrightarrow> fails_closed (tc_cell tc r t)"
  unfolding tc_cell_def by (intro fails_closed_if fails_closed_ebind) auto

lemma tc_read_row_closed:
  assumes "tc_ok tc" "heap_ok (tc_heap tc)"
  shows "fails_closed (tc_read_row tc row)"
proof -
  have "fails_closed (tc_column tc row bm acc c)" if "c \<in> set (ti_columns (tc_info tc))" for bm acc c
  proof -
    have "0 \<le> cd_bit c" using that assms(1) by (auto simp: tc_ok_def ti_ok_def)
    then show ?thesis
      unfolding tc_column_def using assms(2)
      by (intro fails_closed_ebind) (auto simp: check_existence_bitmap_eq intro!: fails_closed_ebind)
  qed
  then show ?thesis
    unfolding tc_read_row_def Let_def case_prod_beta by (intro fails_closed_ebind fails_closed_efold) auto
qed

lemma tc_row_closed:
  assumes "tc_ok tc" "heap_ok (tc_heap tc)"
  shows "fails_closed (tc_row tc i) \<or> ti_row_width (tc_info tc) = 0 \<and> tc_row tc i = Inl ZeroDivisionError"
proof (cases "tc_matrix tc")
  case (Inl e)
  then show ?thesis using tc_matrix_escapes [OF assms(2) Inl] by (auto simp: tc_row_def)
next
  case (Inr m)
  then obtain bs where m: "matrix_of (tc_info tc) (tc_limits tc) bs = Inr m" by (auto simp: tc_matrix_def ebind_Inr_iff)
  have "0 \<le> ti_row_width (tc_info tc)" using assms(1) by (simp add: tc_ok_def ti_ok_def ti_row_width_def)
  then consider (pos) "0 < ti_row_width (tc_info tc)" | (zero) "ti_row_width (tc_info tc) = 0" by linarith
  then show ?thesis
  proof cases
    case pos
    have "fails_closed (row_slice (tc_info tc) m i)" unfolding row_slice_rows(2) [OF m pos] by simp
    with Inr tc_read_row_closed [OF assms] have "fails_closed (tc_row tc i)"
      by (auto simp: tc_row_def intro!: fails_closed_ebind)
    then show ?thesis ..
  next
    case zero
    then have "bs = []" using m matrix_of_zero [OF zero] by (cases bs) auto
    with m have "last (rm_starts m) = 0"
      by (auto simp: matrix_of_def Let_def ebind_Inr_iff check_Inr_iff)
    then have "tc_row tc i = Inl PstFormatError" using Inr by (simp add: tc_row_def row_slice_def)
    then show ?thesis by simp
  qed
qed

lemma tc_find_row_closed:
  assumes "tc_ok tc" "heap_ok (tc_heap tc)"
  shows "fails_closed (tc_find_row tc i) \<or> ti_row_width (tc_info tc) = 0 \<and> tc_find_row tc i = Inl ZeroDivisionError"
proof (cases "tc_row_index tc")
  case (Inl e)
  then show ?thesis using tc_row_index_closed [OF assms(1)] by (simp add: tc_find_row_def)
next
  case (Inr index)
  then show ?thesis using tc_row_closed [OF assms] by (cases "map_of index i") (auto simp: tc_find_row_def)
qed

section \<open>The constructor\<close>

lemma TableContext_Inr:
  assumes "heap_inv hn s" "TableContext hn l cp s = (Inr tc, s')"
  shows "tc_ok tc" "tc_heap tc = hn" "heap_inv hn s'" "tc_inv tc (tc_fresh s')"
    "tc_limits tc = (case l of None \<Rightarrow> hn_limits hn | Some x \<Rightarrow> x)" "tc_codepage tc = cp"
proof -
  from assms(2) obtain item s1 info t s2 where
    item: "HeapNode_get hn (HeapNode_user_root hn) s = (Inr item, s1)" and
    info: "TableContextInfo_unpack item = Inr info" and
    tree: "HeapTree hn (Some (ti_row_index info)) s1 = (Inr t, s')" and
    sizes: "hth_key_size (ht_header t) = ROW_INDEX_KEY_SIZE" "hth_entry_size (ht_header t) = ROW_INDEX_ENTRY_SIZE" and
    tc: "tc = \<lparr>tc_heap = hn, tc_limits = (case l of None \<Rightarrow> hn_limits hn | Some x \<Rightarrow> x), tc_codepage = cp,
      tc_info = info, tc_tree = t\<rparr>"
    by (auto simp: TableContext_def sbind_eq_Inr raise_if_Inr_iff Let_def)
  have s1: "heap_inv hn s1" using implementsD [OF HeapNode_get_implements assms(1) item] by blast
  note t = HeapTree_Inr [OF s1 tree]
  show "tc_ok tc" "tc_heap tc = hn" "heap_inv hn s'" "tc_inv tc (tc_fresh s')"
    "tc_limits tc = (case l of None \<Rightarrow> hn_limits hn | Some x \<Rightarrow> x)" "tc_codepage tc = cp"
    using t sizes TableContextInfo_ok [OF info] by (simp_all add: tc tc_ok_def tc_inv_def tc_fresh_def)
qed

lemma TableContext_keeps: "st_keeps (heap_inv hn) (TableContext hn l cp)"
  unfolding TableContext_def Let_def
  by (intro st_keeps_sbind st_keeps_slift st_keeps_sret HeapTree_keeps
      implements_closed [OF HeapNode_get_implements heap_item_closed]) auto

lemma TableContext_from_node_closed [simp, intro]:
  "reader_ok rd \<Longrightarrow> fails_closed (TableContext_from_node rd data sub l cp)"
  unfolding TableContext_from_node_def case_prod_beta
  by (intro fails_closed_ebind srun_closed [OF TableContext_keeps heap_inv_fresh]) auto

lemma TableContext_from_node_Inr:
  assumes "TableContext_from_node rd data sub l cp = Inr (tc, s)"
  shows "tc_ok tc" "tc_inv tc s" "tc_codepage tc = cp" "reader_ok rd \<Longrightarrow> heap_ok (tc_heap tc)"
proof -
  from assms obtain hn s' where hn: "HeapNode_from_node rd data sub l = Inr hn"
    and run: "TableContext hn l cp heap_fresh = (Inr tc, s')" and s: "s = tc_fresh s'"
    by (auto simp: TableContext_from_node_def ebind_Inr_iff srun_Inr_iff)
  note D = TableContext_Inr [OF heap_inv_fresh run]
  show "tc_ok tc" "tc_inv tc s" "tc_codepage tc = cp" "reader_ok rd \<Longrightarrow> heap_ok (tc_heap tc)"
    using D s HeapNode_from_node_ok [OF _ hn] by simp_all
qed

section \<open>What a row's bytes say\<close>

text \<open>
  A column's cell in a row, said of the bytes: its bit of the existence bitmap; and its value, in place
  or behind the HNID in place. The code-page strings, whose encoding is not modelled, are left out.
\<close>

definition cell_present :: "table_context_info \<Rightarrow> bytes \<Rightarrow> column_descriptor \<Rightarrow> bool" where
  "cell_present info row c = bit (row ! nat (ti_end_1byte info + cd_bit c div 8)) (nat (7 - cd_bit c mod 8))"

definition encodable :: "table_context \<Rightarrow> prop_type \<Rightarrow> prop_value \<Rightarrow> bool" where
  "encodable tc t v \<longleftrightarrow> value_typed t v \<and> t \<notin> {T_STRING8, T_MV_STRING8} \<and>
     (\<forall>vs. v = VTuple vs \<longrightarrow> len vs \<le> max_mv_items (tc_limits tc)) \<and> len (encode_value t v) < 2 ^ 32"

definition cell_carries :: "table_context \<Rightarrow> bytes \<Rightarrow> column_descriptor \<Rightarrow> prop_value \<Rightarrow> bool" where
  "cell_carries tc row c v \<longleftrightarrow>
     (let t = cd_type c; at = slice row (cd_offset c) (cd_offset c + cd_size c) in
      if t \<notin> HNID_TYPES then at = encode_value t v \<and> encodable tc t v
      else if le_int at = 0 then v = VNull
      else heap_value (tc_heap tc) (HeapNodeId (le_int at)) = Inr (encode_value t v) \<and> encodable tc t v)"

definition row_carries :: "table_context \<Rightarrow> bytes \<Rightarrow> (column_descriptor \<Rightarrow> prop_value option) \<Rightarrow> bool" where
  "row_carries tc row cell \<longleftrightarrow> (\<forall>c \<in> set (ti_columns (tc_info tc)).
     cd_bit c < len (ti_columns (tc_info tc)) \<and>
     (case cell c of
        None \<Rightarrow> \<not> cell_present (tc_info tc) row c
      | Some v \<Rightarrow> cell_present (tc_info tc) row c \<and> \<not> low_cell c \<and> cell_carries tc row c v))"

lemma existence_bit:
  assumes ok: "ti_ok info" and c: "c \<in> set (ti_columns info)" "cd_bit c < len (ti_columns info)"
    and row: "len row = ti_row_width info"
  shows "check_existence_bitmap (cd_bit c) (slice row (ti_end_1byte info) (ti_end_bitmap info)) =
    Inr (cell_present info row c)"
proof -
  let ?bm = "slice row (ti_end_1byte info) (ti_end_bitmap info)"
  have v: "ti_validate info = Inr ()" and b: "0 \<le> cd_bit c" using ok c by (auto simp: ti_ok_def)
  note info = ti_validate_Inr [OF v]
  have e1: "0 \<le> ti_end_1byte info" using ok info by (simp add: ti_ok_def)
  have bm: "len ?bm = ti_bitmap_size info"
    using length_slice [of "ti_end_1byte info" "ti_end_bitmap info" row] e1 info row by (simp add: ti_row_width_def)
  have lt: "cd_bit c < 8 * len ?bm"
    using c(2) unfolding bm ti_bitmap_size_def existence_bitmap_size_def by linarith
  then have "nat (cd_bit c div 8) < length ?bm" using b by linarith
  moreover have "nat (ti_end_1byte info) + nat (cd_bit c div 8) = nat (ti_end_1byte info + cd_bit c div 8)"
    using e1 b by (simp add: nat_add_distrib)
  moreover have "drop (nat (ti_end_1byte info)) row ! i = row ! (nat (ti_end_1byte info) + i)" for i
    using row info(4) e1 by (intro nth_drop) (simp add: ti_row_width_def)
  moreover have "ti_end_bitmap info \<le> len row" using row by (simp add: ti_row_width_def)
  ultimately have "?bm ! nat (cd_bit c div 8) = row ! nat (ti_end_1byte info + cd_bit c div 8)"
    using info(4) e1 by (auto simp: slice_def)
  with lt b show ?thesis by (simp add: check_existence_bitmap_eq cell_present_def)
qed

lemma tc_cell_carried:
  assumes ok: "ti_ok (tc_info tc)" and c: "c \<in> set (ti_columns (tc_info tc))" "\<not> low_cell c"
    and row: "len row = ti_row_width (tc_info tc)" and v: "cell_carries tc row c v"
  shows "\<exists>r. cell_record_of (tc_info tc) row c = Inr r \<and> tc_cell tc r (cd_type c) = Inr v"
proof -
  let ?at = "slice row (cd_offset c) (cd_offset c + cd_size c)"
  note rec = cell_record_validated(2) [OF ok c(1) row c(2)]
  have val: "ti_validate (tc_info tc) = Inr ()" and off: "0 \<le> cd_offset c" using ok c by (auto simp: ti_ok_def)
  note info = ti_validate_Inr [OF val]
  have dec: "decode (cd_type c) (encode_value (cd_type c) v) (tc_codepage tc) (max_mv_items (tc_limits tc)) = Inr v"
    if "encodable tc (cd_type c) v"
    using that by (intro decode_encode_value) (auto simp: encodable_def)
  show ?thesis
  proof (cases "cd_type c \<in> HNID_TYPES")
    case False
    then show ?thesis using rec v dec by (auto simp: tc_cell_def small_cell_def cell_carries_def Let_def)
  next
    case True
    have "COLUMN_WIDTHS (cd_type c) = Some (cd_size c)"
      using ti_validate_column_Inr(1) [OF info(7) [OF c(1)]] .
    then have sz: "cd_size c = 4" using True by (simp add: COLUMN_WIDTHS_def)
    have "len ?at = 4" using rec off sz info row length_slice [of "cd_offset c" "cd_offset c + 4" row]
      by (simp add: ti_row_width_def)
    then have "le_int ?at \<le> U32" using le_int_bound [of ?at] by (simp add: U32_def)
    then have "mk_HeapNodeId (le_int ?at) = Inr (HeapNodeId (le_int ?at))" by (simp add: mk_HeapNodeId_Inr_iff)
    then show ?thesis using True rec v dec sz
      by (auto simp: tc_cell_def cell_carries_def Let_def split: if_splits)
  qed
qed

lemma AList_update_new: "k \<notin> fst ` set al \<Longrightarrow> AList.update k v al = al @ [(k, v)]"
  by (induction al) auto

abbreviation cells_of :: "(column_descriptor \<Rightarrow> prop_value option) \<Rightarrow> column_descriptor list \<Rightarrow> (int \<times> prop_value) list" where
  "cells_of cell cs \<equiv> List.map_filter (\<lambda>c. map_option (Pair (cd_id c)) (cell c)) cs"

lemma map_of_cells:
  "distinct (map cd_id cs) \<Longrightarrow> c \<in> set cs \<Longrightarrow> map_of (cells_of cell cs) (cd_id c) = cell c"
proof (induction cs)
  case (Cons a cs)
  have out: "map_of (cells_of cell cs) k = None" if "k \<notin> cd_id ` set cs" for k
    using that by (induction cs) (auto simp: List.map_filter_simps split: option.splits)
  show ?case
  proof (cases "c = a")
    case True
    with Cons.prems out [of "cd_id a"] show ?thesis by (auto simp: List.map_filter_simps split: option.split)
  next
    case False
    with Cons show ?thesis by (auto simp: List.map_filter_simps image_iff split: option.split)
  qed
qed simp

lemma columns_fold:
  assumes ok: "ti_ok (tc_info tc)" and row: "len row = ti_row_width (tc_info tc)" and carries: "row_carries tc row cell"
  defines "bm \<equiv> slice row (ti_end_1byte (tc_info tc)) (ti_end_bitmap (tc_info tc))"
  shows "set cs \<subseteq> set (ti_columns (tc_info tc)) \<Longrightarrow> distinct (map cd_id cs) \<Longrightarrow> cd_id ` set cs \<inter> fst ` set kv = {} \<Longrightarrow>
    \<exists>rs'. efold (tc_column tc row bm) (rs, kv) cs = Inr (rs @ rs', kv @ cells_of cell cs) \<and>
      map (\<lambda>x. x \<noteq> None) rs' = map (\<lambda>c. cell c \<noteq> None) cs"
proof (induction cs arbitrary: rs kv)
  case (Cons c cs)
  have c: "c \<in> set (ti_columns (tc_info tc))" using Cons.prems(1) by simp
  have bit: "cd_bit c < len (ti_columns (tc_info tc))" using carries c by (auto simp: row_carries_def)
  note present = existence_bit [OF ok c bit row, folded bm_def]
  show ?case
  proof (cases "cell c")
    case None
    then have "\<not> cell_present (tc_info tc) row c" using carries c by (auto simp: row_carries_def)
    then have step: "tc_column tc row bm (rs, kv) c = Inr (rs @ [None], kv)" using present by (simp add: tc_column_def)
    obtain rs' where "efold (tc_column tc row bm) (rs @ [None], kv) cs = Inr ((rs @ [None]) @ rs', kv @ cells_of cell cs)"
      "map (\<lambda>x. x \<noteq> None) rs' = map (\<lambda>c. cell c \<noteq> None) cs"
      using Cons.IH [of kv "rs @ [None]"] Cons.prems by auto
    with step None show ?thesis by (intro exI [of _ "None # rs'"]) (simp add: List.map_filter_simps)
  next
    case (Some v)
    then have p: "cell_present (tc_info tc) row c" "\<not> low_cell c" "cell_carries tc row c v"
      using carries c by (force simp: row_carries_def)+
    obtain r where r: "cell_record_of (tc_info tc) row c = Inr r" "tc_cell tc r (cd_type c) = Inr v"
      using tc_cell_carried [OF ok c p(2) row p(3)] by blast
    have "cd_id c \<notin> fst ` set kv" using Cons.prems(3) by auto
    then have step: "tc_column tc row bm (rs, kv) c = Inr (rs @ [Some r], kv @ [(cd_id c, v)])"
      using present p r by (simp add: tc_column_def AList_update_new)
    obtain rs' where "efold (tc_column tc row bm) (rs @ [Some r], kv @ [(cd_id c, v)]) cs =
        Inr ((rs @ [Some r]) @ rs', (kv @ [(cd_id c, v)]) @ cells_of cell cs)"
      "map (\<lambda>x. x \<noteq> None) rs' = map (\<lambda>c. cell c \<noteq> None) cs"
      using Cons.IH [of "kv @ [(cd_id c, v)]" "rs @ [Some r]"] Cons.prems by auto
    with step Some show ?thesis by (intro exI [of _ "Some r # rs'"]) (simp add: List.map_filter_simps)
  qed
qed (simp add: List.map_filter_simps)

theorem tc_read_row_carried:
  assumes ok: "ti_ok (tc_info tc)" "8 \<le> ti_end_4byte (tc_info tc)" and row: "len row = ti_row_width (tc_info tc)"
    and carries: "row_carries tc row cell" and d: "distinct (map cd_id (ti_columns (tc_info tc)))"
  shows "\<exists>r. tc_read_row tc row = Inr r \<and> tr_id r = le_int (slice row 0 4) \<and> tr_unique r = le_int (slice row 4 8) \<and>
    tr_cells r = cells_of cell (ti_columns (tc_info tc)) \<and>
    map (\<lambda>x. x \<noteq> None) (tr_records r) = map (\<lambda>c. cell c \<noteq> None) (ti_columns (tc_info tc))"
proof -
  have v: "ti_validate (tc_info tc) = Inr ()" using ok by (simp add: ti_ok_def)
  have "8 \<le> len row" using ti_validate_Inr [OF v] ok(2) row by (simp add: ti_row_width_def)
  then have hdr: "unpack [4, 4] row 0 = Inr [le_int (slice row 0 4), le_int (slice row 4 8)]"
    by (simp add: unpack_eq calcsize_def slice_def numeral_eq_Suc)
  from columns_fold [OF ok(1) row carries subset_refl d, of "[]" "[]"] obtain rs where
    "efold (tc_column tc row (slice row (ti_end_1byte (tc_info tc)) (ti_end_bitmap (tc_info tc)))) ([], [])
       (ti_columns (tc_info tc)) = Inr (rs, cells_of cell (ti_columns (tc_info tc)))"
    "map (\<lambda>x. x \<noteq> None) rs = map (\<lambda>c. cell c \<noteq> None) (ti_columns (tc_info tc))"
    by auto
  with hdr show ?thesis by (simp add: tc_read_row_def Let_def)
qed

section \<open>A sample table\<close>

definition sample_columns :: "column_descriptor list" where
  "sample_columns =
     [\<lparr>cd_type = T_LONG, cd_id = 0x67F2, cd_offset = 0, cd_size = 4, cd_bit = 0\<rparr>,
      \<lparr>cd_type = T_LONG, cd_id = 0x67F3, cd_offset = 4, cd_size = 4, cd_bit = 1\<rparr>,
      \<lparr>cd_type = T_UNICODE, cd_id = 0x3001, cd_offset = 8, cd_size = 4, cd_bit = 2\<rparr>,
      \<lparr>cd_type = T_BOOLEAN, cd_id = 0x360A, cd_offset = 12, cd_size = 1, cd_bit = 3\<rparr>]"

definition sample_tcinfo :: table_context_info where
  "sample_tcinfo = \<lparr>ti_end_4byte = 12, ti_end_2byte = 12, ti_end_1byte = 13, ti_end_bitmap = 14,
     ti_row_index = HeapId 0x40, ti_rows = Some (HeapNodeId 0x60), ti_deprecated_index = 0,
     ti_columns = sample_columns\<rparr>"

definition sample_row :: bytes where
  "sample_row = [5, 0, 0, 0, 9, 0, 0, 0, 0x80, 0, 0, 0, 1, 0xE0]"

text \<open>The matrix holds the row twice, and three bytes of padding.\<close>

definition sample_table_items :: "bytes list" where
  "sample_table_items = [[1], [1], sample_row @ sample_row @ [1, 2, 3], [0x41, 0]]"

definition sample_table_heap :: heap_node where
  "sample_table_heap = small_heap HN_TABLE (HeapId 0x20) sample_table_items"

definition sample_table :: table_context where
  "sample_table = \<lparr>tc_heap = sample_table_heap, tc_limits = DEFAULT_LIMITS, tc_codepage = None,
     tc_info = sample_tcinfo,
     tc_tree = \<lparr>ht_heap = sample_table_heap, ht_root = HeapId 0x40,
       ht_header = \<lparr>hth_key_size = 4, hth_entry_size = 4, hth_levels = 0, hth_root = HeapId 0\<rparr>\<rparr>\<rparr>"

definition sample_cell :: "column_descriptor \<Rightarrow> prop_value option" where
  "sample_cell c =
     (if cd_id c = 0x67F2 then Some (VInt 5) else if cd_id c = 0x67F3 then Some (VInt 9)
      else if cd_id c = 0x3001 then Some (VStr [0x41]) else None)"

lemma sample_table_writable: "writable_heap_block 0 (HeapId 0x20) 0 sample_table_items"
  by (simp add: writable_heap_block_def sample_table_items_def sample_row_def heap_id_ok_def U32_def
      heap_header_size_def heap_formats)

lemma sample_table_items:
  "heap_item sample_table_heap (HeapId 0x60) = Inr (sample_row @ sample_row @ [1, 2, 3])"
  "heap_item sample_table_heap (HeapId 0x80) = Inr [0x41, 0]"
  using small_heap_item [OF sample_table_writable, of 2 "HeapId 0x60" HN_TABLE]
    small_heap_item [OF sample_table_writable, of 3 "HeapId 0x80" HN_TABLE]
  by (simp_all add: sample_table_heap_def sample_table_items_def)

lemma sample_table_values:
  "heap_value sample_table_heap (HeapNodeId 0x80) = Inr [0x41, 0]"
  "heap_value_blocks sample_table_heap (HeapNodeId 0x60) = Inr [sample_row @ sample_row @ [1, 2, 3]]"
proof -
  have "heap_node_id_ok (HeapNodeId 0x80)" "heap_node_id_ok (HeapNodeId 0x60)"
    by (simp_all add: heap_node_id_ok_def U32_def)
  note ids = HeapNodeId_split(1) [OF this(1)] HeapNodeId_split(1) [OF this(2)]
  show "heap_value sample_table_heap (HeapNodeId 0x80) = Inr [0x41, 0]"
    "heap_value_blocks sample_table_heap (HeapNodeId 0x60) = Inr [sample_row @ sample_row @ [1, 2, 3]]"
    using ids sample_table_items by (simp_all add: heap_value_def heap_value_blocks_def)
qed

lemma sample_table_budget: "heap_within_budget sample_table_heap"
  unfolding sample_table_heap_def by (rule small_heap_budget [OF sample_table_writable])

lemma sample_tcinfo_ok: "ti_ok sample_tcinfo"
proof -
  have "ti_validate sample_tcinfo = Inr ()" by code_simp
  then show ?thesis by (simp add: ti_ok_def) (simp add: sample_tcinfo_def sample_columns_def heap_id_ok_def U32_def)
qed

lemma sample_table_simps:
  "tc_heap sample_table = sample_table_heap" "tc_info sample_table = sample_tcinfo" "tc_limits sample_table = DEFAULT_LIMITS"
  by (simp_all add: sample_table_def)

lemma sample_table_inv: "tc_inv sample_table (tc_fresh heap_fresh)"
  using heap_inv_fresh by (simp add: tc_inv_def tc_fresh_def)

lemma sample_row_carries: "row_carries sample_table sample_row sample_cell"
proof -
  have enc: "encode_value T_UNICODE (VStr [0x41]) = [0x41, 0]" "encode_value T_LONG (VInt 5) = [5, 0, 0, 0]"
    "encode_value T_LONG (VInt 9) = [9, 0, 0, 0]"
    by (code_simp, code_simp, code_simp)
  have "value_typed T_UNICODE (VStr [0x41])" by (rule typed_unicode) (simp add: is_scalar_def)
  moreover have "value_typed T_LONG (VInt 5)" "value_typed T_LONG (VInt 9)" by (rule typed_long; simp)+
  ultimately have ok: "encodable sample_table T_UNICODE (VStr [0x41])" "encodable sample_table T_LONG (VInt 5)"
    "encodable sample_table T_LONG (VInt 9)"
    using enc by (simp_all add: encodable_def)
  have bits: "cell_present sample_tcinfo sample_row c \<longleftrightarrow> sample_cell c \<noteq> None" if "c \<in> set sample_columns" for c
    using that by (auto simp: sample_columns_def cell_present_def sample_tcinfo_def sample_row_def sample_cell_def)
  have at: "slice sample_row 0 4 = [5, 0, 0, 0]" "slice sample_row 4 8 = [9, 0, 0, 0]" "slice sample_row 8 12 = [0x80, 0, 0, 0]"
    by (simp_all add: sample_row_def slice_def)
  have all: "cd_bit c < len sample_columns \<and> (case sample_cell c of
        None \<Rightarrow> \<not> cell_present sample_tcinfo sample_row c
      | Some v \<Rightarrow> cell_present sample_tcinfo sample_row c \<and> \<not> low_cell c \<and> cell_carries sample_table sample_row c v)"
    if c: "c \<in> set sample_columns" for c
    using bits [OF c] c ok enc at sample_table_values
    by (auto simp: sample_columns_def sample_cell_def low_cell_def cell_carries_def sample_table_simps
        column_types)
  have cols: "ti_columns sample_tcinfo = sample_columns" by (simp add: sample_tcinfo_def)
  show ?thesis unfolding row_carries_def sample_table_simps cols using all by blast
qed

text \<open>A table whose schema has no columns and no bytes: its TCINFO is accepted.\<close>

definition zero_tcinfo :: bytes where
  "zero_tcinfo = struct_pack TCINFO_FORMAT [0x7C, 0, 0, 0, 0, 0, 0x40, 0x60, 0]"

definition zero_bth :: heap_tree_header where
  "zero_bth = \<lparr>hth_key_size = 4, hth_entry_size = 4, hth_levels = 0, hth_root = HeapId 0\<rparr>"

definition zero_items :: "bytes list" where
  "zero_items = [zero_tcinfo, bth_header_bytes zero_bth, [0x61]]"

definition zero_heap :: heap_node where
  "zero_heap = small_heap HN_TABLE (HeapId 0x20) zero_items"

lemma zero_lengths: "length zero_tcinfo = 22" "length (bth_header_bytes zero_bth) = 8"
  by (simp_all add: zero_tcinfo_def bth_header_bytes_def TCINFO_FORMAT_def BTH_HEADER_FORMAT_def)

lemma zero_nonempty: "zero_tcinfo \<noteq> []" "bth_header_bytes zero_bth \<noteq> []"
  using zero_lengths by force+

lemma zero_writable: "writable_heap_block 0 (HeapId 0x20) 0 zero_items"
  by (simp add: writable_heap_block_def zero_items_def zero_lengths heap_id_ok_def U32_def
      heap_header_size_def heap_formats)

lemma zero_heap_items:
  "heap_item zero_heap (HeapId 0x20) = Inr zero_tcinfo"
  "heap_item zero_heap (HeapId 0x40) = Inr (bth_header_bytes zero_bth)"
  "heap_item zero_heap (HeapId 0x60) = Inr [0x61]"
  using small_heap_item [OF zero_writable, of 0 "HeapId 0x20" HN_TABLE]
    small_heap_item [OF zero_writable, of 1 "HeapId 0x40" HN_TABLE]
    small_heap_item [OF zero_writable, of 2 "HeapId 0x60" HN_TABLE] zero_nonempty
  by (auto simp: zero_heap_def zero_items_def)

section \<open>Properties\<close>

text \<open>C25: a row decodes to what its bytes carry. In a validated table with distinct column ids, from any state
  of the heap's cache, a row reads as its id, its version, and a value for exactly the columns whose
  existence bit is set: the value in place for the fixed-width types, the one behind the HNID for the
  others, None for an HNID of zero; a column whose bit is clear is absent, whatever its bytes hold.\<close>

theorem TableContext_read_row_cells:
  assumes tc: "tc_inv tc s" "heap_within_budget (tc_heap tc)" "ti_ok (tc_info tc)" "8 \<le> ti_end_4byte (tc_info tc)"
    and cols: "cols = ti_columns (tc_info tc)" "distinct (map cd_id cols)"
    and row: "len row = ti_row_width (tc_info tc)" "row_carries tc row cell"
  shows "\<exists>r. fst (TableContext_read_row tc row s) = Inr r \<and>
    tr_id r = le_int (slice row 0 4) \<and> tr_unique r = le_int (slice row 4 8) \<and>
    (\<forall>c \<in> set cols. TableRow_get r (cd_id c) d = (case cell c of None \<Rightarrow> d | Some v \<Rightarrow> v) \<and>
       (TableRow_contains r (cd_id c) \<longleftrightarrow> cell c \<noteq> None)) \<and>
    map (\<lambda>x. x \<noteq> None) (tr_records r) = map (\<lambda>c. cell c \<noteq> None) cols"
proof -
  obtain r where r: "tc_read_row tc row = Inr r" and rest: "tr_id r = le_int (slice row 0 4)"
    "tr_unique r = le_int (slice row 4 8)" "tr_cells r = cells_of cell cols"
    "map (\<lambda>x. x \<noteq> None) (tr_records r) = map (\<lambda>c. cell c \<noteq> None) cols"
    using tc_read_row_carried [OF tc(3,4) row] cols by auto
  have "fst (TableContext_read_row tc row s) = Inr r"
    using TableContext_read_row_implements [of tc row] tc(1,2) r by (simp add: implements_def)
  moreover have "map_of (tr_cells r) (cd_id c) = cell c" if "c \<in> set cols" for c
    unfolding rest(3) by (rule map_of_cells [OF cols(2) that])
  ultimately show ?thesis using rest(1,2,4) by (auto simp: TableRow_get_def TableRow_contains_def)
qed

theorem TableContext_read_row_cells_witness:
  "\<exists>r. fst (TableContext_read_row sample_table sample_row (tc_fresh heap_fresh)) = Inr r \<and> tr_id r = 5 \<and>
     TableRow_get r 0x3001 VNull = VStr [0x41] \<and> \<not> TableRow_contains r 0x360A"
proof -
  have cols: "sample_columns = ti_columns (tc_info sample_table)" "distinct (map cd_id sample_columns)"
    by (simp_all add: sample_table_simps) (simp_all add: sample_tcinfo_def sample_columns_def)
  have info: "8 \<le> ti_end_4byte (tc_info sample_table)" "len sample_row = ti_row_width (tc_info sample_table)"
    by (simp_all add: sample_table_simps sample_tcinfo_def ti_row_width_def sample_row_def)
  have ok: "ti_ok (tc_info sample_table)" "heap_within_budget (tc_heap sample_table)"
    using sample_tcinfo_ok sample_table_budget by (simp_all add: sample_table_simps)
  from TableContext_read_row_cells [OF sample_table_inv ok(2,1) info(1) cols info(2) sample_row_carries, of VNull]
  obtain r where run: "fst (TableContext_read_row sample_table sample_row (tc_fresh heap_fresh)) = Inr r"
    and id: "tr_id r = le_int (slice sample_row 0 4)"
    and cells: "\<forall>c \<in> set sample_columns. TableRow_get r (cd_id c) VNull = (case sample_cell c of None \<Rightarrow> VNull | Some v \<Rightarrow> v) \<and>
       (TableRow_contains r (cd_id c) \<longleftrightarrow> sample_cell c \<noteq> None)" by blast
  have "tr_id r = 5" using id by (simp add: sample_row_def slice_def)
  moreover have "TableRow_get r 0x3001 VNull = VStr [0x41]" "\<not> TableRow_contains r 0x360A"
    using cells by (simp_all add: sample_columns_def sample_cell_def)
  ultimately show ?thesis using run by blast
qed

text \<open>C26: rows are packed per block. Once the matrix is read, the row count is the sum of what each block
  holds whole, and row \<open>i\<close>, found by bisection, is the \<open>i\<close>th of the blocks' full-width pieces in order; the
  rest of a block is padding, and an index outside the count is refused.\<close>

theorem TableContext_rows_packed:
  assumes tc: "tc_inv tc s" "heap_within_budget (tc_heap tc)" "0 < ti_row_width (tc_info tc)"
    and m: "tc_blocks tc = Inr blocks" "tc_matrix tc = Inr m"
    and rows: "rows = concat (map (block_rows (ti_row_width (tc_info tc))) blocks)"
  shows "fst (TableContext_row_count tc s) = Inr (len rows) \<and>
    fst (TableContext_row_bytes tc i s) =
      (if 0 \<le> i \<and> i < len rows then Inr (rows ! nat i) else Inl PstFormatError) \<and>
    len rows = (\<Sum>b \<leftarrow> blocks. len b div ti_row_width (tc_info tc)) \<and> len rows \<le> max_items (tc_limits tc)"
proof -
  have mo: "matrix_of (tc_info tc) (tc_limits tc) blocks = Inr m" using m by (simp add: tc_matrix_def)
  note R = row_slice_rows [OF mo tc(3), folded rows]
  have "implements (tc_inv tc) (tc_exact tc) (TableContext_row_count tc) (ebind (tc_matrix tc) (\<lambda>m. Inr (last (rm_starts m))))"
    "implements (tc_inv tc) (tc_exact tc) (TableContext_row_bytes tc i) (ebind (tc_matrix tc) (\<lambda>m. row_slice (tc_info tc) m i))"
    unfolding TableContext_row_count_def TableContext_row_bytes_def
    by (intro implements_sbind implements_slift implements_sret TableContext_read_matrix_implements refl)+
  then have run: "fst (TableContext_row_count tc s) = Inr (last (rm_starts m))"
    "fst (TableContext_row_bytes tc i s) = row_slice (tc_info tc) m i"
    using tc m(2) by (simp_all add: implements_def)
  have "last (rm_starts m) = (\<Sum>b \<leftarrow> blocks. len b div ti_row_width (tc_info tc))"
    unfolding matrix_of_Inr(3) [OF mo tc(3)] by (simp add: running_starts_facts)
  with matrix_of_Inr(4) [OF mo tc(3)] run R show ?thesis by simp
qed

theorem TableContext_rows_packed_witness:
  "fst (TableContext_row_count sample_table (tc_fresh heap_fresh)) = Inr 2 \<and>
   fst (TableContext_row_bytes sample_table 1 (tc_fresh heap_fresh)) = Inr sample_row"
proof -
  let ?blocks = "[sample_row @ sample_row @ [1, 2, 3]]"
  let ?rows = "concat (map (block_rows (ti_row_width (tc_info sample_table))) ?blocks)"
  have w: "ti_row_width (tc_info sample_table) = 14" "len sample_row = 14"
    by (simp_all add: sample_table_simps sample_tcinfo_def ti_row_width_def sample_row_def)
  have row_id: "ti_rows sample_tcinfo = Some (HeapNodeId 0x60)" by (simp add: sample_tcinfo_def)
  have blocks: "tc_blocks sample_table = Inr ?blocks"
    using sample_table_values w(2) row_id
    by (simp add: tc_blocks_def sample_table_simps check_ok default_limits_simps)
  have rows: "?rows = [sample_row, sample_row]"
    unfolding w(1) by (simp add: sample_row_def block_rows_def slice_def upt_rec)
  have "matrix_of sample_tcinfo DEFAULT_LIMITS ?blocks =
      Inr \<lparr>rm_blocks = ?blocks, rm_counts = [2], rm_starts = [0, 2]\<rparr>"
    using w by (simp add: matrix_of_def sample_table_simps py_floordiv_def ti_check_row_header_fits_def check_ok
        default_limits_simps) (simp add: sample_tcinfo_def ROW_HEADER_SIZE_def)
  then have m: "tc_matrix sample_table = Inr \<lparr>rm_blocks = ?blocks, rm_counts = [2], rm_starts = [0, 2]\<rparr>"
    using blocks by (simp add: tc_matrix_def sample_table_simps)
  have b: "heap_within_budget (tc_heap sample_table)" "0 < ti_row_width (tc_info sample_table)"
    using sample_table_budget w by (simp_all add: sample_table_simps)
  from TableContext_rows_packed [OF sample_table_inv b blocks m refl, of 1] show ?thesis
    unfolding rows by simp
qed

text \<open>A validated column's cell lies inside its row. For a row as wide as the schema says, a present cell
  is sliced from inside the row and before the bitmap, with the column's width, and becomes an inline
  cell or an HNID; the only refusal left is a wide or HNID column placed over the eight bytes of the
  row header, which the validation of the schema lets through and the reading of the cell refuses.\<close>

theorem TableContext_cell_in_row:
  assumes "TableContextInfo_unpack data = Inr info" "c \<in> set (ti_columns info)" "len row = ti_row_width info"
  shows "(cell_record_of info row c = Inl PstFormatError \<longleftrightarrow> low_cell c) \<and>
    (\<forall>e. cell_record_of info row c = Inl e \<longrightarrow> e = PstFormatError) \<and>
    (\<not> low_cell c \<longrightarrow> 0 \<le> cd_offset c \<and> cd_offset c + cd_size c \<le> ti_end_1byte info \<and>
       COLUMN_WIDTHS (cd_type c) = Some (cd_size c) \<and>
       (cd_type c \<notin> HNID_TYPES \<longrightarrow> cell_record_of info row c = Inr (small_cell row c (cd_offset c)) \<and>
          len (ce_data (small_cell row c (cd_offset c))) = cd_size c))"
proof -
  have ok: "ti_ok info" by (rule TableContextInfo_ok [OF assms(1)])
  note rec = cell_record_validated [OF ok assms(2,3)]
  have v: "ti_validate info = Inr ()" using ok by (simp add: ti_ok_def)
  note info = ti_validate_Inr [OF v]
  have w: "COLUMN_WIDTHS (cd_type c) = Some (cd_size c)"
    using ti_validate_column_Inr(1) [OF info(7) [OF assms(2)]] .
  then have pos: "0 \<le> cd_size c" by (auto simp: COLUMN_WIDTHS_def split: if_splits)
  have "len (ce_data (small_cell row c (cd_offset c))) = cd_size c" if "\<not> low_cell c"
    using rec(2) [OF that] info assms(3) pos
    by (simp add: small_cell_def ti_row_width_def length_slice)
  then show ?thesis using rec w by (cases "low_cell c") auto
qed

text \<open>A schema with a string column over the row header is accepted.\<close>

definition low_tcinfo :: bytes where
  "low_tcinfo = struct_pack TCINFO_FORMAT [0x7C, 1, 8, 8, 8, 9, 0x40, 0, 0] @
     struct_pack TCOLDESC_FORMAT [0x1F, 0x3001, 4, 4, 0]"

lemma TableContext_low_column_accepted:
  "\<exists>info c. TableContextInfo_unpack low_tcinfo = Inr info \<and> ti_columns info = [c] \<and>
     cell_record_of info [1, 0, 0, 0, 2, 0, 0, 0, 0x80] c = Inl PstFormatError"
proof -
  let ?c = "\<lparr>cd_type = T_UNICODE, cd_id = 0x3001, cd_offset = 4, cd_size = 4, cd_bit = 0\<rparr>"
  let ?info = "\<lparr>ti_end_4byte = 8, ti_end_2byte = 8, ti_end_1byte = 8, ti_end_bitmap = 9, ti_row_index = HeapId 0x40,
    ti_rows = None, ti_deprecated_index = 0, ti_columns = [?c]\<rparr>"
  have info: "TableContextInfo_unpack low_tcinfo = Inr ?info" by code_simp
  have "?c \<in> set (ti_columns ?info)" "len [1, 0, 0, 0, 2, 0, 0, 0, 0x80 :: byte] = ti_row_width ?info"
    by (simp_all add: ti_row_width_def)
  from TableContext_cell_in_row [OF info this] have "cell_record_of ?info [1, 0, 0, 0, 2, 0, 0, 0, 0x80] ?c = Inl PstFormatError"
    by (simp add: low_cell_def column_types)
  with info show ?thesis by (intro exI [of _ ?info] exI [of _ ?c]) simp
qed

text \<open>Opening and reading a table ends, on every file, in a value or an exception, and its memory is
  invisible. From every state, reading a row by place or by id gives what the blocks say (or a limit
  error when the heap's items exceed their ceiling) and leaves a good state; and only a PstError is
  raised, with one exception: rows of width zero divide by zero.\<close>

theorem TableContext_total:
  assumes "reader_ok rd"
  shows "fails_closed (TableContext_from_node rd data sub l cp) \<and>
    (\<forall>tc s s1 i. TableContext_from_node rd data sub l cp = Inr (tc, s) \<and> tc_inv tc s1 \<longrightarrow>
       tc_inv tc s \<and> tc_inv tc (snd (TableContext_row tc i s1)) \<and> tc_inv tc (snd (TableContext_find_row tc i s1)) \<and>
       (heap_within_budget (tc_heap tc) \<longrightarrow>
          fst (TableContext_row tc i s1) = tc_row tc i \<and> fst (TableContext_find_row tc i s1) = tc_find_row tc i) \<and>
       (\<forall>e. fst (TableContext_row tc i s1) = Inl e \<or> fst (TableContext_find_row tc i s1) = Inl e \<longrightarrow>
          is_pst_error e \<or> e = ZeroDivisionError \<and> ti_row_width (tc_info tc) = 0))"
proof (rule conjI)
  show "fails_closed (TableContext_from_node rd data sub l cp)" using assms by simp
  show "\<forall>tc s s1 i. TableContext_from_node rd data sub l cp = Inr (tc, s) \<and> tc_inv tc s1 \<longrightarrow>
       tc_inv tc s \<and> tc_inv tc (snd (TableContext_row tc i s1)) \<and> tc_inv tc (snd (TableContext_find_row tc i s1)) \<and>
       (heap_within_budget (tc_heap tc) \<longrightarrow>
          fst (TableContext_row tc i s1) = tc_row tc i \<and> fst (TableContext_find_row tc i s1) = tc_find_row tc i) \<and>
       (\<forall>e. fst (TableContext_row tc i s1) = Inl e \<or> fst (TableContext_find_row tc i s1) = Inl e \<longrightarrow>
          is_pst_error e \<or> e = ZeroDivisionError \<and> ti_row_width (tc_info tc) = 0)"
  proof (intro allI impI, elim conjE)
    fix tc s s1 i assume made: "TableContext_from_node rd data sub l cp = Inr (tc, s)" and inv: "tc_inv tc s1"
    note tc = TableContext_from_node_Inr [OF made]
    note row = TableContext_row_implements [of tc i, unfolded implements_def, rule_format, OF inv]
    note find = TableContext_find_row_implements [OF tc(1), of i, unfolded implements_def, rule_format, OF inv]
    note closed = tc_row_closed [OF tc(1) tc(4) [OF assms], of i] tc_find_row_closed [OF tc(1) tc(4) [OF assms], of i]
    have esc: "is_pst_error e \<or> e = ZeroDivisionError \<and> ti_row_width (tc_info tc) = 0"
      if "fst (TableContext_row tc i s1) = Inl e \<or> fst (TableContext_find_row tc i s1) = Inl e" for e
      using that row find closed by (auto simp: fails_closed_def)
    show "tc_inv tc s \<and> tc_inv tc (snd (TableContext_row tc i s1)) \<and> tc_inv tc (snd (TableContext_find_row tc i s1)) \<and>
       (heap_within_budget (tc_heap tc) \<longrightarrow>
          fst (TableContext_row tc i s1) = tc_row tc i \<and> fst (TableContext_find_row tc i s1) = tc_find_row tc i) \<and>
       (\<forall>e. fst (TableContext_row tc i s1) = Inl e \<or> fst (TableContext_find_row tc i s1) = Inl e \<longrightarrow>
          is_pst_error e \<or> e = ZeroDivisionError \<and> ti_row_width (tc_info tc) = 0)"
      using tc(2) row find esc by auto
  qed
qed

text \<open>C27: the exception is real. A table whose TCINFO has no columns and all its offsets zero passes the
  validation, and asking such a table with a row matrix for its row count raises ZeroDivisionError.\<close>

theorem TableContext_zero_width:
  "\<exists>tc s. TableContext zero_heap None cp heap_fresh = (Inr tc, s) \<and>
     fst (TableContext_row_count tc (tc_fresh s)) = Inl ZeroDivisionError"
proof -
  let ?info = "\<lparr>ti_end_4byte = 0, ti_end_2byte = 0, ti_end_1byte = 0, ti_end_bitmap = 0, ti_row_index = HeapId 0x40,
    ti_rows = Some (HeapNodeId 0x60), ti_deprecated_index = 0, ti_columns = []\<rparr>"
  have info: "TableContextInfo_unpack zero_tcinfo = Inr ?info" by code_simp
  have budget: "heap_within_budget zero_heap" unfolding zero_heap_def by (rule small_heap_budget [OF zero_writable])
  have simps: "HeapNode_user_root zero_heap = HeapId 0x20" "HeapNode_client_signature zero_heap = HN_TABLE"
    "hn_limits zero_heap = DEFAULT_LIMITS"
    by (simp_all add: zero_heap_def small_heap_def HeapNode_user_root_def HeapNode_client_signature_def)
  obtain r s where root: "HeapNode_get zero_heap (HeapId 0x20) heap_fresh = (r, s)" by fastforce
  have r: "r = Inr zero_tcinfo" and s: "heap_inv zero_heap s"
    using implementsD [OF HeapNode_get_implements heap_inv_fresh root] budget zero_heap_items(1) by simp_all
  have "heap_tree_header_ok zero_bth"
    by (simp add: zero_bth_def heap_tree_header_ok_def KEY_SIZES_def MAX_ENTRY_SIZE_def heap_id_ok_def U32_def)
  from HeapTreeHeader_written [OF this] have hdr: "bth_header zero_heap (HeapId 0x40) = Inr zero_bth"
    using zero_heap_items(2) by (simp add: bth_header_def simps default_limits_simps check_ok zero_bth_def)
  let ?t = "\<lparr>ht_heap = zero_heap, ht_root = HeapId 0x40, ht_header = zero_bth\<rparr>"
  obtain q s' where tree: "HeapTree zero_heap (Some (HeapId 0x40)) s = (q, s')" by fastforce
  have q: "q = Inr ?t" using implementsD [OF HeapTree_implements s tree] budget hdr by simp
  let ?tc = "\<lparr>tc_heap = zero_heap, tc_limits = DEFAULT_LIMITS, tc_codepage = cp, tc_info = ?info, tc_tree = ?t\<rparr>"
  have made: "TableContext zero_heap None cp heap_fresh = (Inr ?tc, s')"
    using root r info tree q
    by (simp add: TableContext_def simps sbind_def Let_def zero_bth_def ROW_INDEX_KEY_SIZE_def ROW_INDEX_ENTRY_SIZE_def)
  have "heap_node_id_ok (HeapNodeId 0x60)" by (simp add: heap_node_id_ok_def U32_def)
  from HeapNodeId_split(1) [OF this] have "heap_value_blocks zero_heap (HeapNodeId 0x60) = Inr [[0x61]]"
    using zero_heap_items(3) by (simp add: heap_value_blocks_def)
  then have "tc_matrix ?tc = Inl ZeroDivisionError"
    by (simp add: tc_matrix_def tc_blocks_def check_ok default_limits_simps matrix_of_zero ti_row_width_def)
  moreover have "implements (tc_inv ?tc) (tc_exact ?tc) (TableContext_row_count ?tc)
      (ebind (tc_matrix ?tc) (\<lambda>m. Inr (last (rm_starts m))))"
    unfolding TableContext_row_count_def by (intro implements_sbind implements_sret TableContext_read_matrix_implements refl)
  ultimately have "fst (TableContext_row_count ?tc (tc_fresh s')) = Inl ZeroDivisionError"
    using TableContext_Inr(4) [OF heap_inv_fresh made] budget by (simp add: implements_def)
  with made show ?thesis by blast
qed

end
