(* ===== verification/Pst_Tables.thy ===== *)
theory Pst_Tables
  imports Pst_Store Pst_Table_Context
begin

text \<open>
  The tables beside an object of the messaging layer, as folders and messages keep them: opened on first
  use, kept by their node type, each with what it remembers itself. The interface \<open>table_source\<close> says what
  the operation that opens them must promise; folders (\<open>Folder.table\<close>) and messages (\<open>Message._sub_node_table\<close>)
  interpret it.
\<close>

section \<open>The tables kept by an object\<close>

type_synonym opened_table = "table_context \<times> tc_state"
type_synonym tables = "(node_id_type \<times> opened_table option) list"

text \<open>A look into the dictionary, then \<open>tbl\<close>, whose answer is kept: a table, or that there is none.\<close>

definition memo_table :: "(node_id_type \<Rightarrow> opened_table option result) \<Rightarrow> node_id_type \<Rightarrow> (tables, table_context option) st" where
  "memo_table tbl t =
     sbind sget (\<lambda>ts.
     case map_of ts t of
       Some x \<Rightarrow> sret (map_option fst x)
     | None \<Rightarrow> sbind (slift (tbl t)) (\<lambda>x. sbind (sput (AList.update t x ts)) (\<lambda>_. sret (map_option fst x))))"

text \<open>An operation of a table that was opened, on what it remembers.\<close>

definition on_table :: "node_id_type \<Rightarrow> (tc_state, 'a) st \<Rightarrow> (tables, 'a) st" where
  "on_table t m ts =
     (case map_of ts t of
        Some (Some (tc, s)) \<Rightarrow> (let (r, s') = m s in (r, AList.update t (Some (tc, s')) ts))
      | _ \<Rightarrow> (Inl AssertionError, ts))"

text \<open>The loop over the rows of a table, when there is one.\<close>

definition table_rows ::
  "(node_id_type \<Rightarrow> opened_table option result) \<Rightarrow> node_id_type \<Rightarrow> ('a \<Rightarrow> table_row \<Rightarrow> 'a result) \<Rightarrow> 'a \<Rightarrow> (tables, 'a) st" where
  "table_rows tbl t body acc =
     sbind (memo_table tbl t) (\<lambda>table.
     case table of None \<Rightarrow> sret acc | Some tc \<Rightarrow> on_table t (TableContext_rows tc body acc))"

section \<open>The meaning without the memory\<close>

definition tables_inv :: "(node_id_type \<Rightarrow> opened_table option result) \<Rightarrow> tables \<Rightarrow> bool" where
  "tables_inv tbl ts \<longleftrightarrow>
     (\<forall>t x. map_of ts t = Some x \<longrightarrow>
        (case x of None \<Rightarrow> tbl t = Inr None | Some (tc, s) \<Rightarrow> (\<exists>s0. tbl t = Inr (Some (tc, s0))) \<and> tc_inv tc s))"

definition table_exact :: "(node_id_type \<Rightarrow> opened_table option result) \<Rightarrow> node_id_type \<Rightarrow> bool" where
  "table_exact tbl t \<longleftrightarrow> (\<forall>tc s. tbl t = Inr (Some (tc, s)) \<longrightarrow> tc_exact tc)"

definition tables_exact :: "(node_id_type \<Rightarrow> opened_table option result) \<Rightarrow> bool" where
  "tables_exact tbl \<longleftrightarrow> (\<forall>t. table_exact tbl t)"

definition rows_meaning ::
  "(node_id_type \<Rightarrow> opened_table option result) \<Rightarrow> node_id_type \<Rightarrow> ('a \<Rightarrow> table_row \<Rightarrow> 'a result) \<Rightarrow> 'a \<Rightarrow> 'a result" where
  "rows_meaning tbl t body acc =
     ebind (tbl t) (\<lambda>table. case table of None \<Rightarrow> Inr acc | Some (tc, s) \<Rightarrow> tc_rows tc body acc)"

lemma tables_inv_empty [simp, intro]: "tables_inv tbl []"
  by (simp add: tables_inv_def)

lemma tables_inv_update:
  "tables_inv tbl ts \<Longrightarrow> (\<And>tc s. x = Some (tc, s) \<Longrightarrow> (\<exists>s0. tbl t = Inr (Some (tc, s0))) \<and> tc_inv tc s) \<Longrightarrow>
   (x = None \<Longrightarrow> tbl t = Inr None) \<Longrightarrow> tables_inv tbl (AList.update t x ts)"
  unfolding tables_inv_def by (auto simp: update_conv split: option.split)

lemma memo_table_run:
  assumes "tables_inv tbl ts" "\<And>tc s. tbl t = Inr (Some (tc, s)) \<Longrightarrow> tc_inv tc s"
  obtains (fails) e where "tbl t = Inl e" "memo_table tbl t ts = (Inl e, ts)"
    | (absent) ts' where "tbl t = Inr None" "memo_table tbl t ts = (Inr None, ts')" "tables_inv tbl ts'"
    | (opened) tc s0 s ts' where "tbl t = Inr (Some (tc, s0))" "memo_table tbl t ts = (Inr (Some tc), ts')"
        "tables_inv tbl ts'" "map_of ts' t = Some (Some (tc, s))" "tc_inv tc s"
proof (cases "map_of ts t")
  case None
  show ?thesis
  proof (cases "tbl t")
    case (Inl e)
    with None fails show ?thesis by (simp add: memo_table_def sbind_def sget_def slift_def)
  next
    case (Inr x)
    let ?ts = "AList.update t x ts"
    have run: "memo_table tbl t ts = (Inr (map_option fst x), ?ts)"
      using None Inr by (simp add: memo_table_def sbind_def sget_def slift_def sput_def sret_def)
    have inv: "tables_inv tbl ?ts" using assms Inr by (intro tables_inv_update) auto
    have at: "map_of ?ts t = Some x" by (simp add: update_conv)
    show ?thesis
    proof (cases x)
      case None
      with Inr run inv absent show ?thesis by simp
    next
      case (Some p)
      obtain tc s where "p = (tc, s)" by fastforce
      with Some Inr run inv at assms(2) opened show ?thesis by simp
    qed
  qed
next
  case (Some x)
  then have run: "memo_table tbl t ts = (Inr (map_option fst x), ts)"
    by (simp add: memo_table_def sbind_def sget_def sret_def)
  have kept: "case x of None \<Rightarrow> tbl t = Inr None | Some (tc, s) \<Rightarrow> (\<exists>s0. tbl t = Inr (Some (tc, s0))) \<and> tc_inv tc s"
    using assms(1) Some by (simp add: tables_inv_def)
  show ?thesis
  proof (cases x)
    case None
    with kept run assms(1) absent show ?thesis by simp
  next
    case (Some p)
    obtain tc s where "p = (tc, s)" by fastforce
    with Some kept run assms(1) opened \<open>map_of ts t = Some x\<close> show ?thesis by auto
  qed
qed

lemma table_rows_implements:
  assumes "\<And>tc s. tbl t = Inr (Some (tc, s)) \<Longrightarrow> tc_inv tc s"
  shows "implements (tables_inv tbl) (table_exact tbl t) (table_rows tbl t body acc) (rows_meaning tbl t body acc)"
  unfolding implements_def
proof (intro allI impI)
  fix ts assume inv: "tables_inv tbl ts"
  show "tables_inv tbl (snd (table_rows tbl t body acc ts)) \<and>
     (fst (table_rows tbl t body acc ts) = rows_meaning tbl t body acc \<or>
      \<not> table_exact tbl t \<and> fst (table_rows tbl t body acc ts) = Inl PstLimitError)"
  proof (cases rule: memo_table_run [OF inv, of t, OF assms])
    case (2 e)
    with inv show ?thesis by (simp add: table_rows_def rows_meaning_def sbind_def)
  next
    case (3 ts')
    then show ?thesis by (simp add: table_rows_def rows_meaning_def sbind_def sret_def)
  next
    case (4 tc s0 s ts')
    obtain r s' where run: "TableContext_rows tc body acc s = (r, s')" by fastforce
    note R = implementsD [OF TableContext_rows_implements 4(5) run]
    have out: "table_rows tbl t body acc ts = (r, AList.update t (Some (tc, s')) ts')"
      using 4 run by (simp add: table_rows_def sbind_def on_table_def)
    have "tables_inv tbl (AList.update t (Some (tc, s')) ts')" using 4 R by (intro tables_inv_update) auto
    moreover have "\<not> table_exact tbl t" if "\<not> tc_exact tc" using that 4(1) by (auto simp: table_exact_def)
    ultimately show ?thesis using out R 4(1) by (auto simp: rows_meaning_def)
  qed (use assms in auto)
qed

section \<open>The rows of a table, and the exceptions of their loop\<close>

definition table_error :: "error \<Rightarrow> bool" where
  "table_error e \<longleftrightarrow> is_pst_error e \<or> e = ZeroDivisionError"

lemma table_error_pst [simp, intro]: "is_pst_error e \<Longrightarrow> table_error e"
  by (simp add: table_error_def)

lemma efold_error:
  assumes "\<And>a x e. f a x = Inl e \<Longrightarrow> E e"
  shows "efold f acc xs = Inl e \<Longrightarrow> E e"
proof (induction xs arbitrary: acc)
  case (Cons x xs)
  then show ?case using assms by (cases "f acc x") auto
qed simp

lemma tc_rows_error:
  assumes "tc_ok tc" "heap_ok (tc_heap tc)" "\<And>a row e. body a row = Inl e \<Longrightarrow> table_error e" "tc_rows tc body acc = Inl e"
  shows "table_error e"
proof (cases "tc_matrix tc")
  case (Inl e')
  then show ?thesis using assms(4) tc_matrix_escapes [OF assms(2) Inl] by (auto simp: tc_rows_def table_error_def)
next
  case (Inr m)
  have row: "table_error e" if "tc_row tc i = Inl e" for i e
    using that tc_row_closed [OF assms(1,2), of i] by (auto simp: table_error_def dest: fails_closedD)
  have step: "table_error e" if "ebind (tc_row tc (int i)) (body a) = Inl e" for a i e
    using that row assms(3) by (cases "tc_row tc (int i)") auto
  have loop: "efold (\<lambda>acc index. ebind (tc_row tc (int index)) (body acc)) acc [0..<nat (last (rm_starts m))] = Inl e"
    using assms(4) Inr by (simp add: tc_rows_def)
  show ?thesis by (rule efold_error [OF _ loop]) (rule step)
qed

text \<open>The rows read in order, and the loop over them.\<close>

definition tc_row_list :: "table_context \<Rightarrow> table_row list result" where
  "tc_row_list tc = ebind (tc_matrix tc) (\<lambda>m. emap (\<lambda>i. tc_row tc (int i)) [0..<nat (last (rm_starts m))])"

lemma efold_emap:
  "efold (\<lambda>a x. ebind (f x) (body a)) acc xs = Inr r \<longleftrightarrow> (\<exists>ys. emap f xs = Inr ys \<and> efold body acc ys = Inr r)"
  by (induction xs arbitrary: acc) (auto simp: ebind_Inr_iff)

lemma tc_rows_Inr_iff:
  "tc_rows tc body acc = Inr r \<longleftrightarrow> (\<exists>rows. tc_row_list tc = Inr rows \<and> efold body acc rows = Inr r)"
  by (auto simp: tc_rows_def tc_row_list_def ebind_Inr_iff efold_emap)

section \<open>The interface of what has tables\<close>

locale table_source =
  fixes ok :: "'n \<Rightarrow> bool" and tbl :: "'n \<Rightarrow> node_id_type \<Rightarrow> opened_table option result"
  assumes tbl_good: "ok x \<Longrightarrow> tbl x t = Inr (Some (tc, s)) \<Longrightarrow> tc_ok tc \<and> tc_inv tc s \<and> heap_ok (tc_heap tc)"
    and tbl_closed: "ok x \<Longrightarrow> fails_closed (tbl x t)"
begin

lemma rows_implements:
  "ok x \<Longrightarrow> implements (tables_inv (tbl x)) (table_exact (tbl x) t) (table_rows (tbl x) t body acc) (rows_meaning (tbl x) t body acc)"
  using tbl_good by (intro table_rows_implements) blast

lemma rows_error:
  assumes "ok x" "\<And>a row e. body a row = Inl e \<Longrightarrow> table_error e" "rows_meaning (tbl x) t body acc = Inl e"
  shows "table_error e"
proof (cases "tbl x t")
  case (Inl e')
  with assms(3) tbl_closed [OF assms(1), of t] show ?thesis by (auto simp: rows_meaning_def dest: fails_closedD)
next
  case (Inr table)
  show ?thesis
  proof (cases table)
    case (Some p)
    obtain tc s where p: "p = (tc, s)" by fastforce
    with Inr Some tbl_good [OF assms(1)] have good: "tc_ok tc" "heap_ok (tc_heap tc)" by blast+
    show ?thesis by (rule tc_rows_error [OF good assms(2)]) (use assms(3) Inr Some p in \<open>simp_all add: rows_meaning_def\<close>)
  qed (use assms(3) Inr in \<open>simp add: rows_meaning_def\<close>)
qed

lemma rows_behaves:
  assumes "ok x" "\<And>a row e. body a row = Inl e \<Longrightarrow> table_error e"
  shows "behaves (tables_inv (tbl x)) (tables_exact (tbl x)) table_error (table_rows (tbl x) t body acc)"
  proof -
  have "table_error e" if "rows_meaning (tbl x) t body acc = Inl e" for e
    by (rule rows_error [OF assms(1) _ that]) (rule assms(2))
  moreover have "implements (tables_inv (tbl x)) (tables_exact (tbl x)) (table_rows (tbl x) t body acc) (rows_meaning (tbl x) t body acc)"
    using rows_implements [OF assms(1), of t body acc] by (auto simp: implements_def tables_exact_def)
  ultimately show ?thesis unfolding behaves_def
    by (intro exI [of _ "rows_meaning (tbl x) t body acc"] conjI allI impI)
qed

lemma memo_keeps:
  assumes "ok x" "tables_inv (tbl x) ts"
  shows "tables_inv (tbl x) (snd (memo_table (tbl x) t ts))"
    and "fst (memo_table (tbl x) t ts) = ebind (tbl x t) (\<lambda>table. Inr (map_option fst table))"
  by (rule memo_table_run [OF assms(2), of t]; use tbl_good [OF assms(1)] assms(2) in auto)+

lemma memo_behaves:
  assumes "ok x"
  shows "behaves (tables_inv (tbl x)) (tables_exact (tbl x)) is_pst_error (memo_table (tbl x) t)"
proof -
  have "implements (tables_inv (tbl x)) (tables_exact (tbl x)) (memo_table (tbl x) t)
      (ebind (tbl x t) (\<lambda>table. Inr (map_option fst table)))"
    unfolding implements_def using memo_keeps [OF assms] by auto
  from behaves_closed [OF this] show ?thesis using tbl_closed [OF assms] by (auto intro!: fails_closed_ebind)
qed

end

section \<open>Operations of a part\<close>

lemma behaves_szoom:
  assumes "behaves I ex E m" "\<And>t. J t \<Longrightarrow> I (get t)" "\<And>s t. J t \<Longrightarrow> I s \<Longrightarrow> J (put s t)" "ex' \<Longrightarrow> ex"
    "\<And>e. E e \<Longrightarrow> E' e"
  shows "behaves J ex' E' (szoom get put m)"
proof -
  obtain p where p: "implements I ex m p" "\<And>e. p = Inl e \<Longrightarrow> E e" using assms(1) unfolding behaves_def by blast
  have "implements I ex' m p" using p(1) assms(4) unfolding implements_def by blast
  then have "implements J ex' (szoom get put m) p" by (rule implements_szoom) (fact assms(2,3))+
  with p(2) assms(5) show ?thesis unfolding behaves_def by blast
qed

end
