(* ===== verification/Pst_Walk.thy ===== *)
theory Pst_Walk
  imports Pst_Limits
begin

text \<open>
  The guarded depth-first walk of \<open>Folder.walk\<close>, over any kind of object whose children can be listed: an
  explicit stack, a depth ceiling and a \<open>VisitedSet\<close>. Its reference is the tree of objects read without
  any of these, and reachability; an interface, \<open>family\<close>, says what the objects and the listing of their
  children must promise for the walk to end in nothing but the exceptions allowed.
\<close>

section \<open>The walk\<close>

text \<open>What is yielded, and the exception the walk ends in, if any.\<close>

function guarded_walk ::
  "('n \<Rightarrow> 'n list result) \<Rightarrow> ('n \<Rightarrow> 'k) \<Rightarrow> int \<Rightarrow> ('n \<times> int) list \<Rightarrow> 'k visited \<Rightarrow> 'n list \<times> error option" where
  "guarded_walk kids key ceiling [] visited = ([], None)"
| "guarded_walk kids key ceiling ((x, depth) # stack) visited =
     (case check_depth depth ceiling of
        Inl e \<Rightarrow> ([], Some e)
      | Inr _ \<Rightarrow>
          (case vs_add visited (key x) of
             Inl e \<Rightarrow> ([], Some e)
           | Inr visited' \<Rightarrow>
               (case kids x of
                  Inl e \<Rightarrow> ([x], Some e)
                | Inr children \<Rightarrow>
                    (let (xs, err) = guarded_walk kids key ceiling (map (\<lambda>c. (c, depth + 1)) children @ stack) visited'
                     in (x # xs, err)))))"
  by pat_completeness auto

termination
  by (relation "measure (\<lambda>(kids, key, ceiling, stack, visited). vs_room visited)") (auto dest: vs_add_room)

declare guarded_walk.simps(2) [simp del]

lemma guarded_walk_cases:
  obtains (stop) e where "guarded_walk kids key ceiling ((x, depth) # stack) visited = ([], Some e)" "e = PstLimitError"
      "\<not> (depth \<le> ceiling \<and> (\<exists>v. vs_add visited (key x) = Inr v))"
    | (fail) v e where "guarded_walk kids key ceiling ((x, depth) # stack) visited = ([x], Some e)" "depth \<le> ceiling"
      "vs_add visited (key x) = Inr v" "kids x = Inl e"
    | (go) v children xs err where "guarded_walk kids key ceiling ((x, depth) # stack) visited = (x # xs, err)"
      "depth \<le> ceiling" "vs_add visited (key x) = Inr v" "kids x = Inr children"
      "guarded_walk kids key ceiling (map (\<lambda>c. (c, depth + 1)) children @ stack) v = (xs, err)"
proof (cases "depth \<le> ceiling \<and> (\<exists>v. vs_add visited (key x) = Inr v)")
  case False
  show ?thesis
  proof (cases "depth \<le> ceiling")
    case True
    then obtain e where e: "vs_add visited (key x) = Inl e" using False by (cases "vs_add visited (key x)") auto
    then have "e = PstLimitError" by (rule vs_add_Inl)
    with e True False stop show ?thesis by (simp add: guarded_walk.simps(2) check_ok)
  next
    case deep: False
    then show ?thesis using stop by (simp add: guarded_walk.simps(2) check_over)
  qed
next
  case True
  then obtain v where v: "depth \<le> ceiling" "vs_add visited (key x) = Inr v" by blast
  show ?thesis
  proof (cases "kids x")
    case (Inl e)
    with v fail show ?thesis by (simp add: guarded_walk.simps(2) check_ok)
  next
    case (Inr children)
    obtain xs err where "guarded_walk kids key ceiling (map (\<lambda>c. (c, depth + 1)) children @ stack) v = (xs, err)" by fastforce
    with v Inr go show ?thesis by (simp add: guarded_walk.simps(2) check_ok)
  qed
qed

section \<open>The tree\<close>

datatype 'n rtree = RNode 'n "'n rtree list"

text \<open>Every object read, to a depth: no stack and no guard.\<close>

fun load_rtree :: "('n \<Rightarrow> 'n list result) \<Rightarrow> nat \<Rightarrow> 'n \<Rightarrow> 'n rtree result" where
  "load_rtree kids 0 x = ebind (kids x) (\<lambda>children. if children = [] then Inr (RNode x []) else Inl PstLimitError)"
| "load_rtree kids (Suc n) x =
     ebind (kids x) (\<lambda>children. ebind (emap (load_rtree kids n) children) (\<lambda>ts. Inr (RNode x ts)))"

fun preorder :: "'n rtree \<Rightarrow> 'n list" where
  "preorder (RNode x ts) = x # concat (map preorder ts)"

definition rtree_at :: "('n \<Rightarrow> 'n list result) \<Rightarrow> int \<Rightarrow> 'n \<times> int \<Rightarrow> 'n rtree \<Rightarrow> bool" where
  "rtree_at kids ceiling = (\<lambda>(x, depth) t. depth \<le> ceiling \<and> load_rtree kids (nat (ceiling - depth)) x = Inr t)"

lemma rtree_at_iff:
  assumes "depth \<le> ceiling"
  shows "rtree_at kids ceiling (x, depth) t \<longleftrightarrow>
    (\<exists>children ts. kids x = Inr children \<and> list_all2 (\<lambda>c t. rtree_at kids ceiling (c, depth + 1) t) children ts \<and> t = RNode x ts)"
proof (cases "nat (ceiling - depth)")
  case 0
  then have "depth = ceiling" using assms by simp
  then have "list_all2 (\<lambda>c t. rtree_at kids ceiling (c, depth + 1) t) children ts \<longleftrightarrow> children = [] \<and> ts = []" for children ts
    by (cases children) (auto simp: rtree_at_def list_all2_Cons1)
  with 0 assms show ?thesis by (auto simp: rtree_at_def ebind_Inr_iff split: if_splits)
next
  case (Suc n)
  then have "nat (ceiling - (depth + 1)) = n" "depth + 1 \<le> ceiling" by auto
  with Suc assms show ?thesis by (auto simp: rtree_at_def ebind_Inr_iff emap_Inr_iff)
qed

abbreviation rtrees_at :: "('n \<Rightarrow> 'n list result) \<Rightarrow> int \<Rightarrow> ('n \<times> int) list \<Rightarrow> 'n rtree list \<Rightarrow> bool" where
  "rtrees_at kids ceiling \<equiv> list_all2 (rtree_at kids ceiling)"

lemma rtrees_at_push:
  "rtrees_at kids ceiling (map (\<lambda>c. (c, d)) cs @ stack) ts \<longleftrightarrow>
     (\<exists>us vs. ts = us @ vs \<and> list_all2 (\<lambda>c t. rtree_at kids ceiling (c, d) t) cs us \<and> rtrees_at kids ceiling stack vs)"
  unfolding list_all2_append1 list_all2_map1 by (metis list_all2_lengthD length_map)

text \<open>The walk ends without an exception exactly when every tree of the stack loads within the ceiling and no key
  occurs twice, and has then yielded their nodes in pre-order.\<close>

theorem guarded_walk_iff:
  "guarded_walk kids key ceiling stack visited = (xs, None) \<longleftrightarrow>
     (\<exists>ts v. rtrees_at kids ceiling stack ts \<and> vs.visit_all visited (map key (concat (map preorder ts))) = Inr v \<and>
        xs = concat (map preorder ts))"
proof (induction kids key ceiling stack visited arbitrary: xs rule: guarded_walk.induct)
  case (1 kids key ceiling visited)
  then show ?case by auto
next
  case (2 kids key ceiling x depth stack visited)
  let ?nodes = "\<lambda>ts. concat (map preorder ts)"
  have spec: "(\<exists>ts v. rtrees_at kids ceiling ((x, depth) # stack) ts \<and> vs.visit_all visited (map key (?nodes ts)) = Inr v \<and> xs = ?nodes ts)
      \<longleftrightarrow> depth \<le> ceiling \<and> (\<exists>v1 children xs'. vs_add visited (key x) = Inr v1 \<and> kids x = Inr children \<and> xs = x # xs' \<and>
        (\<exists>ts v. rtrees_at kids ceiling (map (\<lambda>c. (c, depth + 1)) children @ stack) ts \<and>
           vs.visit_all v1 (map key (?nodes ts)) = Inr v \<and> xs' = ?nodes ts))" (is "?L \<longleftrightarrow> ?R")
  proof
    assume ?L
    then obtain t ts v where t: "rtree_at kids ceiling (x, depth) t" "rtrees_at kids ceiling stack ts"
      and v: "vs.visit_all visited (map key (preorder t @ ?nodes ts)) = Inr v" and xs: "xs = preorder t @ ?nodes ts"
      by (auto simp: list_all2_Cons1)
    have d: "depth \<le> ceiling" using t(1) by (simp add: rtree_at_def)
    obtain children us where c: "kids x = Inr children" "list_all2 (\<lambda>c t. rtree_at kids ceiling (c, depth + 1) t) children us" "t = RNode x us"
      using t(1) unfolding rtree_at_iff [OF d] by blast
    have "rtrees_at kids ceiling (map (\<lambda>c. (c, depth + 1)) children @ stack) (us @ ts)"
      unfolding rtrees_at_push using c(2) t(2) by blast
    moreover obtain v1 where "vs_add visited (key x) = Inr v1" "vs.visit_all v1 (map key (?nodes (us @ ts))) = Inr v"
      using v c(3) by (auto simp: ebind_Inr_iff)
    moreover have "xs = x # ?nodes (us @ ts)" using xs c(3) by simp
    ultimately show ?R using d c(1) by blast
  next
    assume ?R
    then obtain v1 children ts v where d: "depth \<le> ceiling" and v1: "vs_add visited (key x) = Inr v1"
      and c: "kids x = Inr children" and ts: "rtrees_at kids ceiling (map (\<lambda>c. (c, depth + 1)) children @ stack) ts"
      and v: "vs.visit_all v1 (map key (?nodes ts)) = Inr v" and xs: "xs = x # ?nodes ts" by blast
    then obtain us ws where us: "ts = us @ ws" "list_all2 (\<lambda>c t. rtree_at kids ceiling (c, depth + 1) t) children us"
      "rtrees_at kids ceiling stack ws" unfolding rtrees_at_push by blast
    have "rtree_at kids ceiling (x, depth) (RNode x us)" unfolding rtree_at_iff [OF d] using c us(2) by blast
    then have "rtrees_at kids ceiling ((x, depth) # stack) (RNode x us # ws)" using us(3) by simp
    moreover have "vs.visit_all visited (map key (?nodes (RNode x us # ws))) = Inr v" using v1 v us(1) by simp
    ultimately show ?L using xs us(1) by (intro exI [of _ "RNode x us # ws"]) auto
  qed
  show ?case
  proof (cases rule: guarded_walk_cases [of kids key ceiling x depth stack visited])
    case (stop e)
    then show ?thesis unfolding spec by auto
  next
    case (fail v e)
    then show ?thesis unfolding spec by auto
  next
    case (go v children xs' err)
    have "guarded_walk kids key ceiling ((x, depth) # stack) visited = (xs, None) \<longleftrightarrow>
        (\<exists>xs'. xs = x # xs' \<and> guarded_walk kids key ceiling (map (\<lambda>c. (c, depth + 1)) children @ stack) v = (xs', None))"
      using go(1,5) by auto
    also have "\<dots> \<longleftrightarrow> (\<exists>xs'. xs = x # xs' \<and> (\<exists>ts v'. rtrees_at kids ceiling (map (\<lambda>c. (c, depth + 1)) children @ stack) ts \<and>
           vs.visit_all v (map key (?nodes ts)) = Inr v' \<and> xs' = ?nodes ts))"
      using "2.IH" [OF _ go(3,4)] go(2) by (simp add: check_ok)
    finally show ?thesis unfolding spec using go by auto
  qed
qed

section \<open>What every walk yields, however it ends\<close>

lemma guarded_walk_visits:
  "guarded_walk kids key ceiling stack visited = (xs, err) \<Longrightarrow> \<exists>v. vs.visit_all visited (map key xs) = Inr v"
proof (induction kids key ceiling stack visited arbitrary: xs err rule: guarded_walk.induct)
  case (2 kids key ceiling x depth stack visited)
  show ?case
  proof (cases rule: guarded_walk_cases [of kids key ceiling x depth stack visited])
    case (go v children xs' err')
    then have "\<exists>v'. vs.visit_all v (map key xs') = Inr v'" using "2.IH" [OF _ go(3,4)] by (simp add: check_ok)
    with go "2.prems" show ?thesis by auto
  qed (use "2.prems" in auto)
qed auto

text \<open>Each key once, and no more of them than the guard has room for.\<close>

theorem guarded_walk_bounded:
  assumes "guarded_walk kids key ceiling stack (new_visited m) = (xs, err)"
  shows "distinct (map key xs)" "xs \<noteq> [] \<Longrightarrow> len xs \<le> m"
proof -
  obtain v where "vs.visit_all (new_visited m) (map key xs) = Inr v" using guarded_walk_visits [OF assms] by blast
  with visit_new_iff [of m "map key xs"] show "distinct (map key xs)" "xs \<noteq> [] \<Longrightarrow> len xs \<le> m" by auto
qed

text \<open>What is yielded can be reached in at most as many steps as the ceiling allows.\<close>

inductive child_path :: "('n \<Rightarrow> 'n list result) \<Rightarrow> 'n \<Rightarrow> int \<Rightarrow> 'n \<Rightarrow> bool" for kids where
  here: "child_path kids x 0 x"
| down: "child_path kids x d y \<Longrightarrow> kids y = Inr children \<Longrightarrow> z \<in> set children \<Longrightarrow> child_path kids x (d + 1) z"

inductive_cases child_path_startE: "child_path kids x 0 y"

lemma child_path_nonneg: "child_path kids x d y \<Longrightarrow> 0 \<le> d"
  by (induction rule: child_path.induct) auto

theorem guarded_walk_reachable:
  assumes "guarded_walk kids key ceiling stack visited = (xs, err)" "y \<in> set xs"
    and "\<forall>(x, d) \<in> set stack. child_path kids root d x"
  shows "\<exists>d \<le> ceiling. child_path kids root d y"
  using assms
proof (induction kids key ceiling stack visited arbitrary: xs err rule: guarded_walk.induct)
  case (2 kids key ceiling x depth stack visited)
  have x: "child_path kids root depth x" using "2.prems"(3) by simp
  show ?case
  proof (cases rule: guarded_walk_cases [of kids key ceiling x depth stack visited])
    case (go v children xs' err')
    have "\<forall>(c, d) \<in> set (map (\<lambda>c. (c, depth + 1)) children @ stack). child_path kids root d c"
      using child_path.down [OF x go(4)] "2.prems"(3) by auto
    then have "\<exists>d \<le> ceiling. child_path kids root d y" if "y \<in> set xs'"
      using "2.IH" [OF _ go(3,4) go(5) that] go(2) by (simp add: check_ok)
    then show ?thesis using go "2.prems"(1,2) x by auto
  qed (use "2.prems" x in auto)
qed auto

text \<open>What holds of the roots and passes to children holds of everything yielded.\<close>

lemma guarded_walk_keeps:
  assumes "guarded_walk kids key ceiling stack visited = (xs, err)" "\<forall>(x, d) \<in> set stack. good x"
    and "\<And>x children y. good x \<Longrightarrow> kids x = Inr children \<Longrightarrow> y \<in> set children \<Longrightarrow> good y"
  shows "(\<forall>y \<in> set xs. good y) \<and> (\<forall>e. err = Some e \<longrightarrow> e = PstLimitError \<or> (\<exists>x. good x \<and> kids x = Inl e))"
  using assms
proof (induction kids key ceiling stack visited arbitrary: xs err rule: guarded_walk.induct)
  case (2 kids key ceiling x depth stack visited)
  have x: "good x" using "2.prems"(2) by simp
  show ?case
  proof (cases rule: guarded_walk_cases [of kids key ceiling x depth stack visited])
    case (go v children xs' err')
    have push: "\<forall>(c, d) \<in> set (map (\<lambda>c. (c, depth + 1)) children @ stack). good c"
      using "2.prems"(3) [OF x go(4)] "2.prems"(2) by auto
    have "(\<forall>y \<in> set xs'. good y) \<and> (\<forall>e. err' = Some e \<longrightarrow> e = PstLimitError \<or> (\<exists>x. good x \<and> kids x = Inl e))"
      by (rule "2.IH" [OF _ go(3,4) go(5) push "2.prems"(3)]) (use go(2) in \<open>simp_all add: check_ok\<close>)
    then show ?thesis using go "2.prems"(1) x by auto
  qed (use "2.prems"(1) x in auto)
qed auto

section \<open>The interface of what is walked\<close>

locale family =
  fixes kids :: "'n \<Rightarrow> 'n list result" and good :: "'n \<Rightarrow> bool" and escapes :: "error \<Rightarrow> bool"
  assumes kids_good: "good x \<Longrightarrow> kids x = Inr children \<Longrightarrow> y \<in> set children \<Longrightarrow> good y"
    and kids_escapes: "good x \<Longrightarrow> kids x = Inl e \<Longrightarrow> escapes e"
    and limit_escapes: "escapes PstLimitError"
begin

lemma walk_good:
  assumes "guarded_walk kids key ceiling [(x, 0)] visited = (xs, err)" "good x"
  shows "(\<forall>y \<in> set xs. good y) \<and> (\<forall>e. err = Some e \<longrightarrow> escapes e)"
  using guarded_walk_keeps [OF assms(1), of good] kids_good kids_escapes limit_escapes assms(2) by auto

end

end
