(* ===== verification/Pst_Folder.thy ===== *)
theory Pst_Folder
  imports Pst_Tables Pst_Walk
begin

text \<open>
  \<open>src/pypstreader/messaging/folder.py\<close>, and what \<open>messaging/store.py\<close> opens folders with: a folder is the
  property context of its node and the tables at its index. What a folder remembers is the state of the
  context and of its tables; two folder objects of one node remember apart, as the code's do. The messages
  of a folder are opened in \<open>Pst_Message\<close>.
\<close>

section \<open>Folders\<close>

definition PID_TAG_CONTENT_COUNT :: int where "PID_TAG_CONTENT_COUNT = 0x3602"
definition PID_TAG_CONTENT_UNREAD_COUNT :: int where "PID_TAG_CONTENT_UNREAD_COUNT = 0x3603"
definition PID_TAG_SUBFOLDERS :: int where "PID_TAG_SUBFOLDERS = 0x360A"

definition FOLDER_NODE_TYPES :: "node_id_type list" where
  "FOLDER_NODE_TYPES = [NT_NORMAL_FOLDER, NT_SEARCH_FOLDER]"

definition FOLDER_TYPE_ROOT :: int where "FOLDER_TYPE_ROOT = 0"
definition FOLDER_TYPE_GENERIC :: int where "FOLDER_TYPE_GENERIC = 1"
definition FOLDER_TYPE_SEARCH :: int where "FOLDER_TYPE_SEARCH = 2"

record folder =
  fo_store :: store
  fo_node :: node_id
  fo_properties :: property_context

record folder_state =
  fos_properties :: pc_state
  fos_tables :: tables

definition on_folder_properties :: "(pc_state, 'a) st \<Rightarrow> (folder_state, 'a) st" where
  "on_folder_properties = szoom fos_properties (\<lambda>p s. s\<lparr>fos_properties := p\<rparr>)"

definition on_folder_tables :: "(tables, 'a) st \<Rightarrow> (folder_state, 'a) st" where
  "on_folder_tables = szoom fos_tables (\<lambda>ts s. s\<lparr>fos_tables := ts\<rparr>)"

definition Folder :: "store \<Rightarrow> node_id \<Rightarrow> (folder \<times> folder_state) result" where
  "Folder so node =
     ebind (NodeId_id_type node) (\<lambda>node_type.
     ebind (raise_if (node_type \<notin> set FOLDER_NODE_TYPES) PstFormatError) (\<lambda>_.
     ebind (node_lookup (so_nbt so) (nid_raw node)) (\<lambda>entry.
     ebind (PropertyContext_from_node (so_reader so) (nbe_data entry) (nbe_sub_node entry)
         (Some (so_limits so)) (so_codepage so)) (\<lambda>(pc, s).
     Inr (\<lparr>fo_store = so, fo_node = node, fo_properties = pc\<rparr>, \<lparr>fos_properties = s, fos_tables = []\<rparr>)))))"

text \<open>\<open>open\<close> takes an entry id or a bare node id; the record key is read from the store.\<close>

datatype entry_or_node = AnEntryId entry_id | ANodeId node_id

definition own_node :: "store \<Rightarrow> entry_or_node \<Rightarrow> (pc_state, node_id) st" where
  "own_node so entry =
     (case entry of
        AnEntryId e \<Rightarrow>
          sbind (Store_matches_record_key so e) (\<lambda>own.
          sbind (slift (raise_if (\<not> own) PstFormatError)) (\<lambda>_. sret (eid_node e)))
      | ANodeId node \<Rightarrow> sret node)"

definition Folder_open :: "store \<Rightarrow> entry_or_node \<Rightarrow> (pc_state, folder \<times> folder_state) st" where
  "Folder_open so entry = sbind (own_node so entry) (\<lambda>node. slift (Folder so node))"

definition Store_open_folder :: "store \<Rightarrow> entry_or_node \<Rightarrow> (pc_state, folder \<times> folder_state) st" where
  "Store_open_folder so entry = Folder_open so entry"

definition Store_root_folder :: "store \<Rightarrow> (pc_state, folder \<times> folder_state) st" where
  "Store_root_folder so = Store_open_folder so (ANodeId NID_ROOT_FOLDER)"

text \<open>The entry id is read off the store, whose state it is.\<close>

definition Folder_entry_id :: "folder \<Rightarrow> (pc_state, entry_id) st" where
  "Folder_entry_id fo = Store_entry_id (fo_store fo) (fo_node fo)"

definition Folder_folder_type :: "folder \<Rightarrow> int result" where
  "Folder_folder_type fo =
     (if fo_node fo = NID_ROOT_FOLDER then Inr FOLDER_TYPE_ROOT
      else ebind (NodeId_id_type (fo_node fo)) (\<lambda>t.
        Inr (if t = NT_SEARCH_FOLDER then FOLDER_TYPE_SEARCH else FOLDER_TYPE_GENERIC)))"

definition Folder_get :: "folder \<Rightarrow> int \<Rightarrow> (folder_state, prop_value) st" where
  "Folder_get fo prop_id = on_folder_properties (PropertyContext_get (fo_properties fo) prop_id)"

definition Folder_record :: "folder \<Rightarrow> int \<Rightarrow> (folder_state, property_record) st" where
  "Folder_record fo prop_id =
     sbind (on_folder_properties (pc_record (fo_properties fo) prop_id)) (\<lambda>record.
     case record of None \<Rightarrow> slift (Inl PstFormatError) | Some r \<Rightarrow> sret r)"

definition Folder_display_name :: "folder \<Rightarrow> (folder_state, ustring) st" where
  "Folder_display_name fo =
     sbind (Folder_record fo PID_TAG_DISPLAY_NAME) (\<lambda>r.
     sbind (on_folder_properties (PropertyContext_read (fo_properties fo) r)) (\<lambda>v.
     case v of VStr s \<Rightarrow> sret s | _ \<Rightarrow> slift (Inl PstFormatError)))"

definition Folder_int32 :: "folder \<Rightarrow> int \<Rightarrow> (folder_state, int) st" where
  "Folder_int32 fo prop_id =
     sbind (Folder_record fo prop_id) (\<lambda>r.
     sbind (on_folder_properties (PropertyContext_read (fo_properties fo) r)) (\<lambda>v.
     case v of VInt i \<Rightarrow> sret i | _ \<Rightarrow> slift (Inl PstFormatError)))"

definition Folder_content_count :: "folder \<Rightarrow> (folder_state, int) st" where
  "Folder_content_count fo = Folder_int32 fo PID_TAG_CONTENT_COUNT"

definition Folder_unread_count :: "folder \<Rightarrow> (folder_state, int) st" where
  "Folder_unread_count fo = Folder_int32 fo PID_TAG_CONTENT_UNREAD_COUNT"

definition Folder_has_subfolders :: "folder \<Rightarrow> (folder_state, bool) st" where
  "Folder_has_subfolders fo =
     sbind (Folder_record fo PID_TAG_SUBFOLDERS) (\<lambda>r.
     sbind (on_folder_properties (PropertyContext_read (fo_properties fo) r)) (\<lambda>v.
     case v of VBool b \<Rightarrow> sret b | _ \<Rightarrow> slift (Inl PstFormatError)))"

section \<open>The tables of a folder and what they name\<close>

text \<open>What \<open>table\<close> does for a type it has not met: only a node that is not there is no table.\<close>

definition Folder_open_table :: "folder \<Rightarrow> node_id_type \<Rightarrow> opened_table option result" where
  "Folder_open_table fo node_type =
     ebind (NodeId_from_parts (node_type_value node_type) (NodeId_index (fo_node fo))) (\<lambda>node.
     case node_lookup (so_nbt (fo_store fo)) (nid_raw node) of
       Inl e \<Rightarrow> if e = PstNotFoundError then Inr None else Inl e
     | Inr entry \<Rightarrow>
         ebind (TableContext_from_node (so_reader (fo_store fo)) (nbe_data entry) (nbe_sub_node entry)
           (Some (so_limits (fo_store fo))) (so_codepage (fo_store fo))) (\<lambda>table. Inr (Some table)))"

definition Folder_table :: "folder \<Rightarrow> node_id_type \<Rightarrow> (folder_state, table_context option) st" where
  "Folder_table fo node_type = on_folder_tables (memo_table (Folder_open_table fo) node_type)"

definition Folder_hierarchy_table :: "folder \<Rightarrow> (folder_state, table_context option) st" where
  "Folder_hierarchy_table fo = Folder_table fo NT_HIERARCHY_TABLE"

definition Folder_contents_table :: "folder \<Rightarrow> (folder_state, table_context option) st" where
  "Folder_contents_table fo = Folder_table fo NT_CONTENTS_TABLE"

definition Folder_associated_table :: "folder \<Rightarrow> (folder_state, table_context option) st" where
  "Folder_associated_table fo = Folder_table fo NT_ASSOC_CONTENTS_TABLE"

text \<open>\<open>_row_ids\<close>, of the table of a type.\<close>

definition add_node_id :: "int \<Rightarrow> node_id list \<Rightarrow> table_row \<Rightarrow> node_id list result" where
  "add_node_id ceiling ids row =
     ebind (check_count (len ids + 1) ceiling) (\<lambda>_.
     ebind (mk_NodeId (tr_id row)) (\<lambda>node. Inr (ids @ [node])))"

definition Folder_row_ids :: "folder \<Rightarrow> node_id_type \<Rightarrow> int \<Rightarrow> (folder_state, node_id list) st" where
  "Folder_row_ids fo node_type ceiling =
     on_folder_tables (table_rows (Folder_open_table fo) node_type (add_node_id ceiling) [])"

definition Folder_subfolder_ids :: "folder \<Rightarrow> (folder_state, node_id list) st" where
  "Folder_subfolder_ids fo = Folder_row_ids fo NT_HIERARCHY_TABLE (max_folders (so_limits (fo_store fo)))"

definition Folder_message_ids :: "folder \<Rightarrow> (folder_state, node_id list) st" where
  "Folder_message_ids fo = Folder_row_ids fo NT_CONTENTS_TABLE (max_messages (so_limits (fo_store fo)))"

definition Folder_associated_ids :: "folder \<Rightarrow> (folder_state, node_id list) st" where
  "Folder_associated_ids fo = Folder_row_ids fo NT_ASSOC_CONTENTS_TABLE (max_messages (so_limits (fo_store fo)))"

text \<open>\<open>contents\<close> reads the folder and its store.\<close>

definition Folder_contents :: "folder \<Rightarrow> (folder_state \<times> pc_state, entry_id list) st" where
  "Folder_contents fo =
     sbind (szoom fst (\<lambda>s p. (s, snd p)) (Folder_message_ids fo)) (\<lambda>ids.
     szoom snd (\<lambda>s p. (fst p, s)) (smap (Store_entry_id (fo_store fo)) ids))"

text \<open>\<open>subfolders\<close>, as the loop it drives.\<close>

definition Folder_subfolders ::
  "folder \<Rightarrow> ('a \<Rightarrow> folder \<times> folder_state \<Rightarrow> 'a result) \<Rightarrow> 'a \<Rightarrow> (folder_state, 'a) st" where
  "Folder_subfolders fo body acc =
     sbind (Folder_subfolder_ids fo) (\<lambda>ids.
     slift (efold (\<lambda>acc node. ebind (Folder (fo_store fo) node) (body acc)) acc ids))"

section \<open>The walk\<close>

definition Folder_children :: "folder \<times> folder_state \<Rightarrow> (folder \<times> folder_state) list result" where
  "Folder_children = (\<lambda>(fo, s). fst (Folder_subfolders fo (\<lambda>children child. Inr (children @ [child])) [] s))"

abbreviation walked_node :: "folder \<times> folder_state \<Rightarrow> node_id" where
  "walked_node x \<equiv> fo_node (fst x)"

definition walk_ceiling :: "folder \<Rightarrow> int option \<Rightarrow> int" where
  "walk_ceiling fo max_depth = (case max_depth of None \<Rightarrow> max_folder_depth (so_limits (fo_store fo)) | Some d \<Rightarrow> d)"

definition Folder_walk :: "folder \<times> folder_state \<Rightarrow> int option \<Rightarrow> (folder \<times> folder_state) list \<times> error option" where
  "Folder_walk x max_depth =
     guarded_walk Folder_children walked_node (walk_ceiling (fst x) max_depth) [(x, 0)]
       (new_visited (max_folders (so_limits (fo_store (fst x)))))"

section \<open>The meaning without the memory\<close>

definition folder_ok :: "folder \<Rightarrow> bool" where
  "folder_ok fo \<longleftrightarrow> store_ok (fo_store fo) \<and> pc_good (fo_properties fo) \<and>
     (\<exists>t. NodeId_id_type (fo_node fo) = Inr t \<and> t \<in> set FOLDER_NODE_TYPES)"

definition folder_inv :: "folder \<Rightarrow> folder_state \<Rightarrow> bool" where
  "folder_inv fo s \<longleftrightarrow> pc_inv (fo_properties fo) (fos_properties s) \<and> tables_inv (Folder_open_table fo) (fos_tables s)"

definition folder_exact :: "folder \<Rightarrow> bool" where
  "folder_exact fo \<longleftrightarrow> pc_exact (fo_properties fo) \<and> tables_exact (Folder_open_table fo)"

lemma Folder_Inr:
  assumes "Folder so node = Inr (fo, s)" "store_ok so"
  shows "folder_ok fo" "folder_inv fo s" "fo_store fo = so" "fo_node fo = node"
proof -
  from assms(1) obtain t pc p and entry :: node_btree_entry where t: "NodeId_id_type node = Inr t" "t \<in> set FOLDER_NODE_TYPES"
    and pc: "PropertyContext_from_node (so_reader so) (nbe_data entry) (nbe_sub_node entry) (Some (so_limits so))
      (so_codepage so) = Inr (pc, p)"
    and fo: "fo = \<lparr>fo_store = so, fo_node = node, fo_properties = pc\<rparr>" "s = \<lparr>fos_properties = p, fos_tables = []\<rparr>"
    by (auto simp: Folder_def ebind_Inr_iff raise_if_Inr_iff)
  have "pc_good pc \<and> pc_inv pc p" using PropertyContext_from_node_good [OF pc] assms(2) by (simp add: store_ok_def)
  with t assms(2) show "folder_ok fo" "folder_inv fo s" "fo_store fo = so" "fo_node fo = node"
    by (auto simp: fo folder_ok_def folder_inv_def)
qed

lemma Folder_closed [simp, intro]: "store_ok so \<Longrightarrow> fails_closed (Folder so node)"
  unfolding Folder_def store_ok_def case_prod_beta
  by (intro fails_closed_ebind node_lookup_closed PropertyContext_from_node_closed) auto

interpretation folder_tables: table_source folder_ok Folder_open_table
proof
  fix fo t
  assume ok: "folder_ok fo"
  then have rd: "reader_ok (so_reader (fo_store fo))" and nbt: "bt_KIND (so_nbt (fo_store fo)) = PT_NBT"
    by (auto simp: folder_ok_def store_ok_def)
  show "fails_closed (Folder_open_table fo t)"
    unfolding Folder_open_table_def
  proof (rule fails_closed_ebind)
    show "fails_closed (NodeId_from_parts (node_type_value t) (NodeId_index (fo_node fo)))"
      by (simp add: NodeId_from_parts_eq)
    show "fails_closed (case node_lookup (so_nbt (fo_store fo)) (nid_raw node) of
         Inl e \<Rightarrow> if e = PstNotFoundError then Inr None else Inl e
       | Inr entry \<Rightarrow> ebind (TableContext_from_node (so_reader (fo_store fo)) (nbe_data entry) (nbe_sub_node entry)
           (Some (so_limits (fo_store fo))) (so_codepage (fo_store fo))) (\<lambda>table. Inr (Some table)))" for node
      using node_lookup_closed [OF nbt, of "nid_raw node"] rd
      by (cases "node_lookup (so_nbt (fo_store fo)) (nid_raw node)") (simp_all add: fails_closed_ebind)
  qed
  show "tc_ok tc \<and> tc_inv tc s \<and> heap_ok (tc_heap tc)" if "Folder_open_table fo t = Inr (Some (tc, s))" for tc s
  proof -
    from that [unfolded Folder_open_table_def ebind_Inr_iff] obtain node where
      n: "(case node_lookup (so_nbt (fo_store fo)) (nid_raw node) of
         Inl e \<Rightarrow> if e = PstNotFoundError then Inr None else Inl e
       | Inr entry \<Rightarrow> ebind (TableContext_from_node (so_reader (fo_store fo)) (nbe_data entry) (nbe_sub_node entry)
           (Some (so_limits (fo_store fo))) (so_codepage (fo_store fo))) (\<lambda>table. Inr (Some table))) = Inr (Some (tc, s))"
      by blast
    show ?thesis
    proof (cases "node_lookup (so_nbt (fo_store fo)) (nid_raw node)")
      case (Inr entry)
      with n have "TableContext_from_node (so_reader (fo_store fo)) (nbe_data entry) (nbe_sub_node entry)
         (Some (so_limits (fo_store fo))) (so_codepage (fo_store fo)) = Inr (tc, s)" by (simp add: ebind_Inr_iff)
      from TableContext_from_node_Inr [OF this] rd show ?thesis by blast
    qed (use n in \<open>auto split: if_splits\<close>)
  qed
qed

lemma on_folder_properties_behaves [intro]:
  "behaves (pc_inv (fo_properties fo)) (pc_exact (fo_properties fo)) E m \<Longrightarrow> (\<And>e. E e \<Longrightarrow> E' e) \<Longrightarrow>
   behaves (folder_inv fo) (folder_exact fo) E' (on_folder_properties m)"
  unfolding on_folder_properties_def by (erule behaves_szoom) (auto simp: folder_inv_def folder_exact_def)

lemma on_folder_tables_behaves [intro]:
  "behaves (tables_inv (Folder_open_table fo)) (tables_exact (Folder_open_table fo)) E m \<Longrightarrow> (\<And>e. E e \<Longrightarrow> E' e) \<Longrightarrow>
   behaves (folder_inv fo) (folder_exact fo) E' (on_folder_tables m)"
  unfolding on_folder_tables_def by (erule behaves_szoom) (auto simp: folder_inv_def folder_exact_def)

section \<open>A folder behaves\<close>

lemma Folder_record_behaves [intro]:
  "folder_ok fo \<Longrightarrow> behaves (folder_inv fo) (folder_exact fo) is_pst_error (Folder_record fo i)"
  unfolding Folder_record_def folder_ok_def
  by (intro behaves_sbind on_folder_properties_behaves pc_record_behaves) (auto split: option.split)

lemma Folder_get_behaves [intro]:
  "folder_ok fo \<Longrightarrow> behaves (folder_inv fo) (folder_exact fo) is_pst_error (Folder_get fo i)"
  unfolding Folder_get_def folder_ok_def by (intro on_folder_properties_behaves pc_get_behaves) auto

lemma Folder_display_name_behaves [intro]:
  "folder_ok fo \<Longrightarrow> behaves (folder_inv fo) (folder_exact fo) is_pst_error (Folder_display_name fo)"
  unfolding Folder_display_name_def
  by (intro behaves_sbind Folder_record_behaves on_folder_properties_behaves pc_read_behaves)
    (auto simp: folder_ok_def split: prop_value.split)

lemma Folder_int32_behaves [intro]:
  "folder_ok fo \<Longrightarrow> behaves (folder_inv fo) (folder_exact fo) is_pst_error (Folder_int32 fo i)"
  unfolding Folder_int32_def
  by (intro behaves_sbind Folder_record_behaves on_folder_properties_behaves pc_read_behaves)
    (auto simp: folder_ok_def split: prop_value.split)

lemma Folder_has_subfolders_behaves [intro]:
  "folder_ok fo \<Longrightarrow> behaves (folder_inv fo) (folder_exact fo) is_pst_error (Folder_has_subfolders fo)"
  unfolding Folder_has_subfolders_def
  by (intro behaves_sbind Folder_record_behaves on_folder_properties_behaves pc_read_behaves)
    (auto simp: folder_ok_def split: prop_value.split)

lemma Folder_table_behaves [intro]:
  "folder_ok fo \<Longrightarrow> behaves (folder_inv fo) (folder_exact fo) is_pst_error (Folder_table fo t)"
  unfolding Folder_table_def by (rule on_folder_tables_behaves [OF folder_tables.memo_behaves]) auto

lemma add_node_id_closed [simp, intro]: "fails_closed (add_node_id c ids row)"
  unfolding add_node_id_def by (intro fails_closed_ebind) auto

lemma Folder_row_ids_behaves [intro]:
  "folder_ok fo \<Longrightarrow> behaves (folder_inv fo) (folder_exact fo) table_error (Folder_row_ids fo t c)"
  unfolding Folder_row_ids_def
  by (rule on_folder_tables_behaves [OF folder_tables.rows_behaves]) (auto dest: fails_closedD [OF add_node_id_closed])

text \<open>The children are opened one by one.\<close>

lemma efold_collect:
  "efold (\<lambda>acc x. ebind (f x) (\<lambda>y. Inr (acc @ [y]))) acc xs = ebind (emap f xs) (\<lambda>ys. Inr (acc @ ys))"
proof (induction xs arbitrary: acc)
  case (Cons x xs)
  then show ?case by (cases "f x"; cases "emap f xs") simp_all
qed simp

lemma ebind_return [simp]: "ebind m Inr = m"
  by (cases m) simp_all

lemma Folder_children_eq:
  "Folder_children (fo, s) = ebind (fst (Folder_subfolder_ids fo s)) (emap (Folder (fo_store fo)))"
  by (cases "Folder_subfolder_ids fo s"; cases "fst (Folder_subfolder_ids fo s)")
    (auto simp: Folder_children_def Folder_subfolders_def sbind_def efold_collect ebind_assoc split: sum.splits)

lemma Folder_subfolder_ids_behaves [intro]:
  "folder_ok fo \<Longrightarrow> behaves (folder_inv fo) (folder_exact fo) table_error (Folder_subfolder_ids fo)"
  unfolding Folder_subfolder_ids_def by blast

lemma behaves_Inl: "behaves I ex E m \<Longrightarrow> I s \<Longrightarrow> fst (m s) = Inl e \<Longrightarrow> E PstLimitError \<Longrightarrow> E e"
  using behaves_remembers [of I ex E m] unfolding remembers_def by blast

lemma behaves_keeps: "behaves I ex E m \<Longrightarrow> I s \<Longrightarrow> I (snd (m s))"
  unfolding behaves_def implements_def by blast

abbreviation walked_good :: "folder \<times> folder_state \<Rightarrow> bool" where
  "walked_good \<equiv> \<lambda>(fo, s). folder_ok fo \<and> folder_inv fo s"

interpretation folder_family: family Folder_children walked_good table_error
proof
  fix x children y e
  assume good: "walked_good x"
  obtain fo s where x: "x = (fo, s)" by fastforce
  have ok: "folder_ok fo" "folder_inv fo s" "store_ok (fo_store fo)" using good by (auto simp: x folder_ok_def)
  show "walked_good y" if "Folder_children x = Inr children" "y \<in> set children"
    using that Folder_Inr [OF _ ok(3)]
    by (auto simp: x Folder_children_eq ebind_Inr_iff emap_Inr_iff list_all2_conv_all_nth in_set_conv_nth split: prod.splits)
  show "table_error e" if e: "Folder_children x = Inl e"
  proof (cases "fst (Folder_subfolder_ids fo s)")
    case (Inl e')
    with e behaves_Inl [OF Folder_subfolder_ids_behaves [OF ok(1)] ok(2) Inl] show ?thesis
      by (auto simp: x Folder_children_eq)
  next
    case (Inr ids)
    have "fails_closed (emap (Folder (fo_store fo)) ids)" using ok(3) by (intro fails_closed_emap) auto
    with e Inr show ?thesis by (auto simp: x Folder_children_eq dest: fails_closedD)
  qed
qed auto

section \<open>Node ids are the ids of the rows\<close>

lemma add_node_id_Inr_iff:
  "add_node_id c acc row = Inr acc' \<longleftrightarrow>
     len acc + 1 \<le> c \<and> node_id_ok (NodeId (tr_id row)) \<and> acc' = acc @ [NodeId (tr_id row)]"
  by (auto simp: add_node_id_def ebind_Inr_iff check_Inr_iff mk_NodeId_Inr_iff node_id_ok_def)

lemma add_node_id_fold:
  "efold (add_node_id c) acc rows = Inr ids \<longleftrightarrow>
     ids = acc @ map (\<lambda>row. NodeId (tr_id row)) rows \<and> (rows = [] \<or> len acc + len rows \<le> c) \<and>
     (\<forall>row \<in> set rows. node_id_ok (NodeId (tr_id row)))"
proof (induction rows arbitrary: acc)
  case (Cons row rows)
  have "efold (add_node_id c) acc (row # rows) = Inr ids \<longleftrightarrow>
      len acc + 1 \<le> c \<and> node_id_ok (NodeId (tr_id row)) \<and> efold (add_node_id c) (acc @ [NodeId (tr_id row)]) rows = Inr ids"
    by (simp add: ebind_Inr_iff add_node_id_Inr_iff)
  also have "\<dots> \<longleftrightarrow> ids = acc @ map (\<lambda>row. NodeId (tr_id row)) (row # rows) \<and> len acc + len (row # rows) \<le> c \<and>
     (\<forall>row \<in> set (row # rows). node_id_ok (NodeId (tr_id row)))"
    unfolding Cons.IH by (cases rows) auto
  finally show ?case by simp
qed auto

definition ids_of_rows :: "opened_table option \<Rightarrow> int \<Rightarrow> node_id list \<Rightarrow> bool" where
  "ids_of_rows table ceiling ids =
     (case table of
        None \<Rightarrow> ids = []
      | Some (tc, s) \<Rightarrow>
          (\<exists>rows. tc_row_list tc = Inr rows \<and> ids = map (\<lambda>row. NodeId (tr_id row)) rows \<and>
             (\<forall>row \<in> set rows. node_id_ok (NodeId (tr_id row))) \<and> (ids = [] \<or> len ids \<le> ceiling)))"

lemma rows_meaning_ids:
  "rows_meaning tbl t (add_node_id c) [] = Inr ids \<longleftrightarrow> (\<exists>table. tbl t = Inr table \<and> ids_of_rows table c ids)"
proof (cases "tbl t")
  case (Inr table)
  have "tc_rows tc (add_node_id c) [] = Inr ids \<longleftrightarrow> ids_of_rows (Some (tc, s)) c ids" for tc s
    by (auto simp: ids_of_rows_def tc_rows_Inr_iff add_node_id_fold)
  with Inr show ?thesis by (cases table) (auto simp: rows_meaning_def ids_of_rows_def)
qed (simp add: rows_meaning_def)

section \<open>A folder to try the statements on\<close>

definition sample_open_store :: store where
  "sample_open_store = \<lparr>so_limits = DEFAULT_LIMITS, so_codepage = None, so_header = sample_header,
     so_bbt = rd_bbt sample_reader, so_nbt = sample_tree, so_reader = sample_reader,
     so_properties = written_pc sample_store_properties None\<rparr>"

definition sample_folder :: folder where
  "sample_folder = \<lparr>fo_store = sample_open_store, fo_node = NID_ROOT_FOLDER,
     fo_properties = written_pc sample_properties None\<rparr>"

definition sample_folder_state :: folder_state where
  "sample_folder_state = \<lparr>fos_properties = pc_fresh heap_fresh, fos_tables = []\<rparr>"

lemma sample_open_store_ok: "store_ok sample_open_store" "store_inv sample_open_store (pc_fresh heap_fresh)" "store_exact sample_open_store"
  using written_pc_good [OF sample_store_properties_writable, of None "[]" None] sample_limits_rd(4)
  by (simp_all add: store_ok_def sample_open_store_def sample_tree_def NodeBTree_def)

lemma sample_folder_simps:
  "fo_node sample_folder = NodeId 0x122" "fo_store sample_folder = sample_open_store"
  "fo_properties sample_folder = written_pc sample_properties None" "so_nbt sample_open_store = sample_tree"
  "so_limits sample_open_store = DEFAULT_LIMITS"
  by (simp_all add: sample_folder_def sample_open_store_def NID_ROOT_FOLDER_def)

lemma sample_folder_ok: "folder_ok sample_folder" "folder_inv sample_folder sample_folder_state"
  using written_pc_good [OF sample_properties_writable, of None "[]" None] sample_open_store_ok(1)
  by (auto simp: folder_ok_def folder_inv_def sample_folder_simps sample_folder_state_def NodeId_id_type_iff
      FOLDER_NODE_TYPES_def intro!: exI [of _ NT_NORMAL_FOLDER])

lemma sample_folder_no_table: "Folder_open_table sample_folder NT_HIERARCHY_TABLE = Inr None"
proof -
  have "fst (BTree_find sample_tree 0x12D Map.empty) = Inl PstNotFoundError"
    using BTree_find_listed [OF cache_ok_empty cache_ok_empty sample_list sample_ordered, of "0x12D"]
    by (simp add: found_def sample_entries_def page_leaves_def nbe_key_def)
  then have "node_lookup sample_tree 0x12D = Inl PstNotFoundError"
    by (cases "BTree_find sample_tree 0x12D Map.empty") (simp add: node_lookup_def NodeBTree_find_def sbind_def)
  moreover have "NodeId_from_parts (node_type_value NT_HIERARCHY_TABLE) (NodeId_index (NodeId 0x122)) = Inr (NodeId 0x12D)"
    unfolding NodeId_from_parts_eq by (simp add: NodeId_index_div id_masks)
  ultimately show ?thesis by (simp add: Folder_open_table_def sample_folder_simps del: node_type_value.simps)
qed

text \<open>Its walk is of itself alone.\<close>

lemma sample_folder_children: "Folder_children (sample_folder, sample_folder_state) = Inr []"
proof -
  have "fst (table_rows (Folder_open_table sample_folder) NT_HIERARCHY_TABLE body [] []) = Inr []" for body
    using folder_tables.rows_implements [OF sample_folder_ok(1), of NT_HIERARCHY_TABLE body "[]"] sample_folder_no_table
    by (auto simp: implements_def rows_meaning_def table_exact_def)
  then have "fst (Folder_subfolder_ids sample_folder sample_folder_state) = Inr []"
    by (simp add: Folder_subfolder_ids_def Folder_row_ids_def on_folder_tables_def szoom_def case_prod_beta Let_def
        sample_folder_state_def)
  then show ?thesis by (simp add: Folder_children_eq)
qed

section \<open>Properties\<close>

text \<open>C35: an entry id opens a folder of the store that made it and of no other: whatever was read from the store
  since its record key was first asked for, an id with that key opens the folder of its node, and any other id
  is a PstFormatError.\<close>

theorem Folder_open_checks_store:
  assumes "store_ok so" "store_exact so" "store_inv so s" "store_inv so s'" "fst (Store_record_key so s) = Inr key"
  shows "fst (Folder_open so (AnEntryId e) s') =
    (if eid_record_key e = key then Folder so (eid_node e) else Inl PstFormatError)"
proof -
  from Store_record_key_behaves [OF assms(1)] obtain p where
    p: "implements (store_inv so) (store_exact so) (Store_record_key so) p" unfolding behaves_def by blast
  with assms have "fst (Store_record_key so s') = Inr key" by (auto simp: implements_def)
  then obtain s1 where "Store_record_key so s' = (Inr key, s1)" by (metis surjective_pairing)
  then show ?thesis
    by (simp add: Folder_open_def own_node_def Store_matches_record_key_def sbind_def sret_def slift_def raise_if_def)
qed

theorem Folder_open_checks_store_witness:
  "fst (Folder_open sample_open_store (AnEntryId \<lparr>eid_record_key = replicate 16 7, eid_node = NodeId 0x122\<rparr>) (pc_fresh heap_fresh)) =
     Folder sample_open_store (NodeId 0x122) \<and>
   fst (Folder_open sample_open_store (AnEntryId \<lparr>eid_record_key = replicate 16 8, eid_node = NodeId 0x122\<rparr>) (pc_fresh heap_fresh)) =
     Inl PstFormatError"
proof -
  have key: "fst (Store_record_key sample_open_store (pc_fresh heap_fresh)) = Inr (replicate 16 7)"
    by (rule Store_record_key_written [OF _ sample_store_properties_writable])
      (use sample_open_store_ok(2) in \<open>simp_all add: sample_open_store_def sample_store_properties_def PID_TAG_RECORD_KEY_def\<close>)
  show ?thesis
    using Folder_open_checks_store [OF sample_open_store_ok(1,3,2,2) key] by simp
qed

text \<open>The ids a folder lists are the row ids of its table in matrix order, within the ceiling: none when the
  node B-tree has no node for the table, and otherwise an answer is exactly the rows of that table. The answer
  is the same whatever the folder remembers, up to the limit on heap items.\<close>

theorem Folder_row_ids_are_rows:
  assumes "folder_ok fo" "folder_inv fo s"
  shows "(fst (Folder_row_ids fo t ceiling s) = Inr ids \<longrightarrow>
      (\<exists>table. Folder_open_table fo t = Inr table \<and> ids_of_rows table ceiling ids)) \<and>
    (\<forall>table. table_exact (Folder_open_table fo) t \<and> Folder_open_table fo t = Inr table \<and> ids_of_rows table ceiling ids \<longrightarrow>
      fst (Folder_row_ids fo t ceiling s) = Inr ids)"
proof -
  have inv: "tables_inv (Folder_open_table fo) (fos_tables s)" using assms(2) by (simp add: folder_inv_def)
  have run: "fst (Folder_row_ids fo t ceiling s) = fst (table_rows (Folder_open_table fo) t (add_node_id ceiling) [] (fos_tables s))"
    by (simp add: Folder_row_ids_def on_folder_tables_def szoom_def case_prod_beta Let_def)
  from folder_tables.rows_implements [OF assms(1), of t "add_node_id ceiling" "[]"] inv run
  have meaning: "fst (Folder_row_ids fo t ceiling s) = rows_meaning (Folder_open_table fo) t (add_node_id ceiling) [] \<or>
      \<not> table_exact (Folder_open_table fo) t \<and> fst (Folder_row_ids fo t ceiling s) = Inl PstLimitError"
    by (simp add: implements_def)
  then show ?thesis
    using rows_meaning_ids [of "Folder_open_table fo" t ceiling ids] by auto
qed

text \<open>C34: the walk is the pre-order of the tree of folders. It ends without an exception exactly when every folder
  of the tree opens and lists its children, the tree is no deeper than the ceiling, no node is met twice and the
  folders are no more than \<open>max_folders\<close>; and it has then yielded each folder before its children, in row order.\<close>

theorem Folder_walk_preorder:
  "Folder_walk (fo, s) max_depth = (xs, None) \<longleftrightarrow>
     (\<exists>t. 0 \<le> walk_ceiling fo max_depth \<and>
        load_rtree Folder_children (nat (walk_ceiling fo max_depth)) (fo, s) = Inr t \<and> xs = preorder t \<and>
        distinct (map walked_node xs) \<and> len xs \<le> max_folders (so_limits (fo_store fo)))"
proof -
  have one: "rtrees_at Folder_children c [((fo, s), 0)] ts \<longleftrightarrow>
      (\<exists>t. ts = [t] \<and> 0 \<le> c \<and> load_rtree Folder_children (nat c) (fo, s) = Inr t)" for c ts
    by (auto simp: list_all2_Cons1 rtree_at_def)
  have visit: "(\<exists>v. vs.visit_all (new_visited m) (map walked_node (preorder t)) = Inr v) \<longleftrightarrow>
      distinct (map walked_node (preorder t)) \<and> len (preorder t) \<le> m" for m t
    unfolding visit_new_iff by (cases t) auto
  show ?thesis
    unfolding Folder_walk_def guarded_walk_iff fst_conv one using visit by fastforce
qed

text \<open>Every walk ends, whatever the store holds, a hierarchy table that names its own folder or an ancestor
  included. It yields folders of this store, each node once and no more of them than \<open>max_folders\<close>, each in good
  order and reached in at most as many steps as the ceiling; and what it raises is a PstError, but for the
  division by zero of a table whose rows have no width.\<close>

theorem Folder_walk_ends:
  assumes "folder_ok fo" "folder_inv fo s" "Folder_walk (fo, s) max_depth = (xs, err)"
  shows "distinct (map walked_node xs) \<and> (xs \<noteq> [] \<longrightarrow> len xs \<le> max_folders (so_limits (fo_store fo))) \<and>
    (\<forall>x \<in> set xs. walked_good x \<and> (\<exists>d \<le> walk_ceiling fo max_depth. child_path Folder_children (fo, s) d x)) \<and>
    (\<forall>e. err = Some e \<longrightarrow> is_pst_error e \<or> e = ZeroDivisionError)"
proof -
  have walk: "guarded_walk Folder_children walked_node (walk_ceiling fo max_depth) [((fo, s), 0)]
      (new_visited (max_folders (so_limits (fo_store fo)))) = (xs, err)"
    using assms(3) by (simp add: Folder_walk_def)
  note good = folder_family.walk_good [OF walk]
  have "\<exists>d \<le> walk_ceiling fo max_depth. child_path Folder_children (fo, s) d x" if "x \<in> set xs" for x
    by (rule guarded_walk_reachable [OF walk that]) (simp add: child_path.here)
  with guarded_walk_bounded [OF walk] good assms(1,2) show ?thesis by (auto simp: table_error_def)
qed

end
