(* ===== verification/Pst_Rtf.thy ===== *)
theory Pst_Rtf
  imports Pst_Crc Pst_Ids
begin

unbundle bit_operations_syntax

text \<open>
  \<open>src/pypstreader/rtf.py\<close> and \<open>src/pypstreader/_rtf_dictionary.py\<close>: the decompressor of
  compressed RTF. The code's circular dictionary of 4096 bytes is related to the history it stands for
  (the initial string and all output so far), on which a reference is a distance back and a length;
  and the decompressor to the token list a stream encodes.
\<close>

section \<open>The header\<close>

definition INITIAL_DICTIONARY :: bytes where
  "INITIAL_DICTIONARY =
    [123, 92, 114, 116, 102, 49, 92, 97, 110, 115, 105, 92, 109, 97, 99, 92, 100, 101, 102, 102,
     48, 92, 100, 101, 102, 116, 97, 98, 55, 50, 48, 123, 92, 102, 111, 110, 116, 116, 98, 108,
     59, 125, 123, 92, 102, 48, 92, 102, 110, 105, 108, 32, 92, 102, 114, 111, 109, 97, 110, 32,
     92, 102, 115, 119, 105, 115, 115, 32, 92, 102, 109, 111, 100, 101, 114, 110, 32, 92, 102, 115,
     99, 114, 105, 112, 116, 32, 92, 102, 100, 101, 99, 111, 114, 32, 77, 83, 32, 83, 97, 110,
     115, 32, 83, 101, 114, 105, 102, 83, 121, 109, 98, 111, 108, 65, 114, 105, 97, 108, 84, 105,
     109, 101, 115, 32, 78, 101, 119, 32, 82, 111, 109, 97, 110, 67, 111, 117, 114, 105, 101, 114,
     123, 92, 99, 111, 108, 111, 114, 116, 98, 108, 92, 114, 101, 100, 48, 92, 103, 114, 101, 101,
     110, 48, 92, 98, 108, 117, 101, 48, 13, 10, 92, 112, 97, 114, 32, 92, 112, 97, 114, 100,
     92, 112, 108, 97, 105, 110, 92, 102, 48, 92, 102, 115, 50, 48, 92, 98, 92, 105, 92, 117,
     92, 116, 97, 98, 92, 116, 120]"

definition RTF_HEADER_SIZE :: int where "RTF_HEADER_SIZE = 16"
definition RTF_HEADER :: fmt where "RTF_HEADER = [4, 4, 4, 4]"
definition DICTIONARY_SIZE :: nat where "DICTIONARY_SIZE = 4096"
definition DICTIONARY_MASK :: nat where "DICTIONARY_MASK = DICTIONARY_SIZE - 1"

datatype compression_type = RTF_COMPRESSED | RTF_UNCOMPRESSED

fun compression_value :: "compression_type \<Rightarrow> int" where
  "compression_value RTF_COMPRESSED = 0x75465A4C"
| "compression_value RTF_UNCOMPRESSED = 0x414C454D"

interpretation compression_enum: int_enum compression_value "[RTF_COMPRESSED, RTF_UNCOMPRESSED]"
proof
  show "m \<in> set [RTF_COMPRESSED, RTF_UNCOMPRESSED]" for m by (cases m) simp_all
  show "compression_value m = compression_value m' \<Longrightarrow> m = m'" for m m' by (cases m; cases m') simp_all
qed

definition compression_type_of :: "int \<Rightarrow> compression_type result" where
  "compression_type_of v = reraise ValueError PstFormatError (enum_of compression_value [RTF_COMPRESSED, RTF_UNCOMPRESSED] v)"

record rtf_header =
  rh_comp_size :: int
  rh_raw_size :: int
  rh_comp_type :: compression_type
  rh_crc :: int

definition rtf_read_header :: "bytes \<Rightarrow> rtf_header result" where
  "rtf_read_header data =
     ebind (raise_if (len data < RTF_HEADER_SIZE) PstFormatError) (\<lambda>_.
     ebind (struct_unpack_from RTF_HEADER data 0) (\<lambda>fs.
     ebind (raise_if (fs ! 0 + 4 \<noteq> len data) PstFormatError) (\<lambda>_.
     ebind (compression_type_of (fs ! 2)) (\<lambda>comp_type.
     Inr \<lparr>rh_comp_size = fs ! 0, rh_raw_size = fs ! 1, rh_comp_type = comp_type, rh_crc = fs ! 3\<rparr>))))"

section \<open>The token loop\<close>

text \<open>The loop's variables; the counters are never negative.\<close>

record lz =
  lz_dict :: bytes
  lz_write :: nat
  lz_end :: nat
  lz_output :: bytes
  lz_pos :: nat

definition lz_start :: lz where
  "lz_start = \<lparr>lz_dict = INITIAL_DICTIONARY @ replicate (DICTIONARY_SIZE - length INITIAL_DICTIONARY) 0,
     lz_write = length INITIAL_DICTIONARY, lz_end = length INITIAL_DICTIONARY, lz_output = [], lz_pos = 0\<rparr>"

text \<open>One byte out and into the dictionary.\<close>

definition lz_emit :: "byte \<Rightarrow> lz \<Rightarrow> lz" where
  "lz_emit b st = st\<lparr>lz_output := lz_output st @ [b], lz_dict := (lz_dict st)[lz_write st := b],
     lz_write := (lz_write st + 1) AND DICTIONARY_MASK,
     lz_end := (if lz_end st < DICTIONARY_SIZE then lz_end st + 1 else lz_end st)\<rparr>"

fun lz_copy :: "nat \<Rightarrow> nat \<Rightarrow> lz \<Rightarrow> lz" where
  "lz_copy 0 read st = st"
| "lz_copy (Suc n) read st = lz_copy n ((read + 1) AND DICTIONARY_MASK) (lz_emit (lz_dict st ! read) st)"

definition lz_literal :: "bytes \<Rightarrow> int \<Rightarrow> lz \<Rightarrow> lz result" where
  "lz_literal payload max_output st =
     ebind (raise_if (lz_pos st \<ge> length payload) PstFormatError) (\<lambda>_.
     ebind (raise_if (len (lz_output st) \<ge> max_output) PstLimitError) (\<lambda>_.
     Inr (lz_emit (payload ! lz_pos st) (st\<lparr>lz_pos := lz_pos st + 1\<rparr>))))"

definition be16 :: "byte \<Rightarrow> byte \<Rightarrow> nat" where
  "be16 hi lo = nat (push_bit 8 (uint hi) OR uint lo)"

text \<open>A reference: the output, when it is the terminator, or the next state.\<close>

definition lz_reference :: "bytes \<Rightarrow> int \<Rightarrow> lz \<Rightarrow> (bytes + lz) result" where
  "lz_reference payload max_output st =
     ebind (raise_if (lz_pos st + 2 > length payload) PstFormatError) (\<lambda>_.
     let token = be16 (payload ! lz_pos st) (payload ! (lz_pos st + 1));
         st' = st\<lparr>lz_pos := lz_pos st + 2\<rparr>;
         offset = drop_bit 4 token in
     if offset = lz_write st' then Inr (Inl (lz_output st'))
     else
       ebind (raise_if (offset \<ge> lz_end st') PstFormatError) (\<lambda>_.
       let n = (token AND 0x0F) + 2 in
       ebind (raise_if (len (lz_output st') + int n > max_output) PstLimitError) (\<lambda>_.
       Inr (Inr (lz_copy n offset st')))))"

definition lz_token :: "bytes \<Rightarrow> int \<Rightarrow> bool \<Rightarrow> lz \<Rightarrow> (bytes + lz) result" where
  "lz_token payload max_output is_reference st =
     (if \<not> is_reference then ebind (lz_literal payload max_output st) (\<lambda>st'. Inr (Inr st'))
      else lz_reference payload max_output st)"

text \<open>The run of one control byte, over the bits left, and the runs.\<close>

fun lz_bits :: "bytes \<Rightarrow> int \<Rightarrow> int \<Rightarrow> nat list \<Rightarrow> lz \<Rightarrow> (bytes + lz) result" where
  "lz_bits payload max_output control [] st = Inr (Inr st)"
| "lz_bits payload max_output control (b # bs) st =
     ebind (lz_token payload max_output (control AND push_bit b 1 \<noteq> 0) st) (\<lambda>r.
     case r of
       Inl out \<Rightarrow> Inr (Inl out)
     | Inr st' \<Rightarrow> lz_bits payload max_output control bs st')"

lemma lz_emit_pos [simp]: "lz_pos (lz_emit b st) = lz_pos st"
  by (simp add: lz_emit_def)

lemma lz_copy_pos [simp]: "lz_pos (lz_copy n r st) = lz_pos st"
  by (induction n r st rule: lz_copy.induct) auto

lemma lz_token_pos: "lz_token payload mx c st = Inr (Inr st') \<Longrightarrow> lz_pos st \<le> lz_pos st'"
  by (auto simp: lz_token_def lz_literal_def lz_reference_def ebind_Inr_iff raise_if_Inr_iff Let_def split: if_splits)

lemma lz_bits_pos: "lz_bits payload mx c bs st = Inr (Inr st') \<Longrightarrow> lz_pos st \<le> lz_pos st'"
proof (induction bs arbitrary: st)
  case (Cons b bs)
  from Cons.prems obtain r where t: "lz_token payload mx (c AND push_bit b 1 \<noteq> 0) st = Inr r"
    and r: "(case r of Inl out \<Rightarrow> Inr (Inl out) | Inr st1 \<Rightarrow> lz_bits payload mx c bs st1) = Inr (Inr st')"
    by (auto simp only: lz_bits.simps ebind_Inr_iff)
  then obtain st1 where st1: "r = Inr st1" "lz_bits payload mx c bs st1 = Inr (Inr st')" by (cases r) auto
  from lz_token_pos [OF t [unfolded st1(1)]] Cons.IH [OF st1(2)] show ?case by simp
qed simp

function lz_runs :: "bytes \<Rightarrow> int \<Rightarrow> lz \<Rightarrow> bytes result" where
  "lz_runs payload max_output st =
     (if lz_pos st \<ge> length payload then Inl PstFormatError
      else
        let control = uint (payload ! lz_pos st); st1 = st\<lparr>lz_pos := lz_pos st + 1\<rparr> in
        case lz_bits payload max_output control [0..<8] st1 of
          Inl e \<Rightarrow> Inl e
        | Inr (Inl out) \<Rightarrow> Inr out
        | Inr (Inr st') \<Rightarrow> lz_runs payload max_output st')"
  by pat_completeness auto
termination
proof (relation "measure (\<lambda>(payload, mx, st). length payload - lz_pos st)")
  fix payload :: bytes and mx st control st1 r st'
  assume pos: "\<not> length payload \<le> lz_pos st" and st1: "st1 = st\<lparr>lz_pos := lz_pos st + 1\<rparr>"
    and run: "lz_bits payload mx control [0..<8] st1 = Inr r" "r = Inr st'"
  have "lz_pos st1 \<le> lz_pos st'" using lz_bits_pos run by blast
  then show "((payload, mx, st'), payload, mx, st) \<in> measure (\<lambda>(payload, mx, st). length payload - lz_pos st)"
    using pos st1 by simp
qed simp

declare lz_runs.simps [simp del]

definition decompress_lzfu :: "bytes \<Rightarrow> int \<Rightarrow> bytes result" where
  "decompress_lzfu payload max_output = lz_runs payload max_output lz_start"

definition decompress_rtf :: "bytes \<Rightarrow> int \<Rightarrow> bytes result" where
  "decompress_rtf data max_output =
     ebind (rtf_read_header data) (\<lambda>h.
     ebind (raise_if (rh_raw_size h > max_output) PstLimitError) (\<lambda>_.
     let payload = drop (nat RTF_HEADER_SIZE) data in
     if rh_comp_type h = RTF_UNCOMPRESSED then
       ebind (raise_if (rh_raw_size h > len payload) PstFormatError) (\<lambda>_.
       Inr (slice payload 0 (rh_raw_size h)))
     else
       ebind (raise_if (compute_crc 0 payload \<noteq> rh_crc h) PstFormatError) (\<lambda>_.
       decompress_lzfu payload max_output)))"

section \<open>The history behind the circular dictionary\<close>

text \<open>
  The reference: a token is a literal or a reference, and a reference of length \<open>n\<close> to an offset appends
  \<open>n\<close> bytes, each the one a fixed distance back from the end of the history as it grows.
\<close>

datatype rtf_token = Lit byte | Ref nat nat

fun is_ref :: "rtf_token \<Rightarrow> bool" where
  "is_ref (Lit b) = False"
| "is_ref (Ref offset n) = True"

fun copy_back :: "nat \<Rightarrow> nat \<Rightarrow> bytes \<Rightarrow> bytes" where
  "copy_back d 0 h = h"
| "copy_back d (Suc n) h = copy_back d n (h @ [h ! (length h - d)])"

definition ref_distance :: "bytes \<Rightarrow> nat \<Rightarrow> nat" where
  "ref_distance h offset = (length h + 4096 - offset) mod 4096"

fun token_step :: "bytes \<Rightarrow> rtf_token \<Rightarrow> bytes" where
  "token_step h (Lit b) = h @ [b]"
| "token_step h (Ref offset n) = copy_back (ref_distance h offset) n h"

fun token_ok :: "bytes \<Rightarrow> rtf_token \<Rightarrow> bool" where
  "token_ok h (Lit b) = True"
| "token_ok h (Ref offset n) =
     (offset < 4096 \<and> offset \<noteq> length h mod 4096 \<and> offset < length h \<and> 2 \<le> n \<and> n \<le> 17)"

fun expand :: "bytes \<Rightarrow> rtf_token list \<Rightarrow> bytes" where
  "expand h [] = h"
| "expand h (t # ts) = expand (token_step h t) ts"

fun tokens_ok :: "bytes \<Rightarrow> rtf_token list \<Rightarrow> bool" where
  "tokens_ok h [] = True"
| "tokens_ok h (t # ts) = (token_ok h t \<and> tokens_ok (token_step h t) ts)"

text \<open>The variables of the loop stand for a history.\<close>

definition lz_window :: "bytes \<Rightarrow> lz \<Rightarrow> bool" where
  "lz_window h st \<longleftrightarrow>
     length (lz_dict st) = 4096 \<and> lz_write st = length h mod 4096 \<and> lz_end st = min 4096 (length h) \<and>
     h = INITIAL_DICTIONARY @ lz_output st \<and>
     (\<forall>i < length h. length h \<le> i + 4096 \<longrightarrow> lz_dict st ! (i mod 4096) = h ! i)"

lemma DICTIONARY_MASK_and: "(x :: nat) AND DICTIONARY_MASK = x mod 4096"
  using take_bit_eq_mask [of 12 x] by (simp add: take_bit_eq_mod mask_eq_exp_minus_1 DICTIONARY_MASK_def DICTIONARY_SIZE_def)

lemma and_15: "(x :: nat) AND 15 = x mod 16"
  using take_bit_eq_mask [of 4 x] by (simp add: take_bit_eq_mod mask_eq_exp_minus_1)

lemma INITIAL_DICTIONARY_length: "length INITIAL_DICTIONARY = 207"
  by (simp add: INITIAL_DICTIONARY_def)

lemma lz_window_start: "lz_window INITIAL_DICTIONARY lz_start"
  by (simp add: lz_window_def lz_start_def INITIAL_DICTIONARY_length DICTIONARY_SIZE_def nth_append)

lemma lz_window_pos [simp]: "lz_window h (st\<lparr>lz_pos := p\<rparr>) = lz_window h st"
  by (simp add: lz_window_def)

lemma mod_window_neq:
  assumes "i < n" "n < i + (4096 :: nat)"
  shows "i mod 4096 \<noteq> n mod 4096"
proof
  assume "i mod 4096 = n mod 4096"
  then have "4096 dvd n - i" using assms(1) by (metis mod_eq_dvd_iff_nat order_less_imp_le)
  then show False using assms by (auto dest: dvd_imp_le)
qed

lemma lz_window_emit:
  assumes w: "lz_window h st"
  shows "lz_window (h @ [b]) (lz_emit b st)"
proof -
  have dict: "(lz_dict st)[length h mod 4096 := b] ! (i mod 4096) = (h @ [b]) ! i"
    if i: "i < length h + 1" "length h + 1 \<le> i + 4096" for i
  proof (cases "i = length h")
    case True
    then show ?thesis using w by (simp add: lz_window_def)
  next
    case False
    then have "i mod 4096 \<noteq> length h mod 4096" using i by (intro mod_window_neq) auto
    then show ?thesis using w i False by (auto simp: lz_window_def nth_append)
  qed
  have "length h mod 4096 < 4096" by simp
  then have "Suc (length h mod 4096) mod 4096 = Suc (length h) mod 4096" by (simp add: mod_Suc_eq)
  then show ?thesis using w dict
    by (auto simp: lz_window_def lz_emit_def DICTIONARY_MASK_and DICTIONARY_SIZE_def)
qed

lemma lz_window_copy:
  assumes "lz_window h st" "1 \<le> d" "d \<le> 4096" "d \<le> length h" "r = (length h - d) mod 4096"
  shows "lz_window (copy_back d n h) (lz_copy n r st)"
  using assms
proof (induction n arbitrary: h st r)
  case (Suc n)
  let ?b = "h ! (length h - d)"
  have "lz_dict st ! r = ?b" using Suc.prems by (auto simp: lz_window_def)
  moreover have "lz_window (h @ [?b]) (lz_emit ?b st)" by (rule lz_window_emit [OF Suc.prems(1)])
  moreover have "(r + 1) AND DICTIONARY_MASK = (length (h @ [?b]) - d) mod 4096"
    using Suc.prems(4,5) by (simp add: DICTIONARY_MASK_and mod_Suc_eq Suc_diff_le)
  ultimately show ?case using Suc.IH [of "h @ [?b]" "lz_emit ?b st"] Suc.prems by simp
qed simp

lemma copy_back_length: "length (copy_back d n h) = length h + n"
  by (induction d n h rule: copy_back.induct) auto

lemma copy_back_prefix: "\<exists>x. copy_back d n h = h @ x"
  by (induction d n h rule: copy_back.induct) auto

lemma ref_distance:
  assumes "token_ok h (Ref offset n)"
  shows "1 \<le> ref_distance h offset" "ref_distance h offset \<le> 4096" "ref_distance h offset \<le> length h"
    "(length h - ref_distance h offset) mod 4096 = offset"
proof -
  let ?l = "length h" and ?d = "ref_distance h offset"
  have o: "offset < 4096" "offset \<noteq> ?l mod 4096" "offset < ?l" using assms by auto
  have d: "?d = (?l - offset) mod 4096"
    using o by (simp add: ref_distance_def) (metis Nat.add_diff_assoc2 le_eq_less_or_eq mod_add_self2)
  have l: "?l = offset + (?l - offset)" using o by simp
  show "1 \<le> ?d"
  proof (rule ccontr)
    assume "\<not> 1 \<le> ?d"
    then have "(?l - offset) mod 4096 = 0" using d by simp
    then have "?l mod 4096 = offset mod 4096" using l by (metis add.right_neutral mod_add_right_eq)
    then show False using o by simp
  qed
  show "?d \<le> 4096" unfolding d by (simp add: less_imp_le)
  have le: "?d \<le> ?l - offset" unfolding d by (rule mod_less_eq_dividend)
  then show "?d \<le> ?l" by simp
  have "?l - ?d = offset + ((?l - offset) - ?d)" using le o by simp
  also have "(?l - offset) - ?d = 4096 * ((?l - offset) div 4096)" unfolding d by (metis minus_mod_eq_mult_div)
  finally show "(?l - ?d) mod 4096 = offset" using o by simp
qed

lemma lz_window_step:
  assumes "lz_window h st" "token_ok h (Ref offset n)"
  shows "lz_window (token_step h (Ref offset n)) (lz_copy n offset st)"
  using lz_window_copy [OF assms(1) ref_distance(1-3) [OF assms(2)] ref_distance(4) [OF assms(2), symmetric], of n] assms(2)
  by simp

lemma token_step_length: "length (token_step h t) = length h + (case t of Lit b \<Rightarrow> 1 | Ref offset n \<Rightarrow> n)"
  by (cases t) (auto simp: copy_back_length)

lemma expand_length: "length h \<le> length (expand h ts)"
  by (induction h ts rule: expand.induct) (auto simp: token_step_length split: rtf_token.splits)

lemma expand_append: "expand h (ts @ us) = expand (expand h ts) us"
  by (induction h ts rule: expand.induct) auto

lemma tokens_ok_append: "tokens_ok h (ts @ us) \<longleftrightarrow> tokens_ok h ts \<and> tokens_ok (expand h ts) us"
  by (induction h ts rule: expand.induct) auto

lemma expand_literals: "expand h (map Lit xs) = h @ xs" "tokens_ok h (map Lit xs)"
  by (induction xs arbitrary: h) auto

lemma lz_window_output: "lz_window h st \<Longrightarrow> lz_output st = drop 207 h" "lz_window h st \<Longrightarrow> length h = 207 + length (lz_output st)"
  by (auto simp: lz_window_def INITIAL_DICTIONARY_length)

lemma lz_bits_Cons_iff:
  "lz_bits payload mx c (b # bs) st = Inr r \<longleftrightarrow>
     (\<exists>out. lz_token payload mx (c AND push_bit b 1 \<noteq> 0) st = Inr (Inl out) \<and> r = Inl out) \<or>
     (\<exists>st'. lz_token payload mx (c AND push_bit b 1 \<noteq> 0) st = Inr (Inr st') \<and> lz_bits payload mx c bs st' = Inr r)"
proof (cases "lz_token payload mx (c AND push_bit b 1 \<noteq> 0) st")
  case (Inl e)
  then show ?thesis unfolding lz_bits.simps by simp
next
  case (Inr q)
  then show ?thesis unfolding lz_bits.simps by (cases q) auto
qed

subsection \<open>Every encoded token list is accepted\<close>

text \<open>The stream of a token list: eight tokens to a control byte, a reference in two big-endian bytes.\<close>

fun token_bytes :: "rtf_token \<Rightarrow> bytes" where
  "token_bytes (Lit b) = [b]"
| "token_bytes (Ref offset n) = (let t = 16 * offset + (n - 2) in [word_of_int (int (t div 256)), word_of_int (int (t mod 256))])"

fun control_of :: "rtf_token list \<Rightarrow> int" where
  "control_of [] = 0"
| "control_of (t # ts) = of_bool (is_ref t) + 2 * control_of ts"

fun encode_groups :: "rtf_token list \<Rightarrow> bytes" where
  "encode_groups ts =
     (if ts = [] then []
      else word_of_int (control_of (take 8 ts)) # concat (map token_bytes (take 8 ts)) @ encode_groups (drop 8 ts))"

declare encode_groups.simps [simp del]

lemma control_of_bound: "0 \<le> control_of ts \<and> control_of ts < 2 ^ length ts"
  by (induction ts) auto

lemma control_of_bit: "i < length ts \<Longrightarrow> bit (control_of ts) i \<longleftrightarrow> is_ref (ts ! i)"
proof (induction ts arbitrary: i)
  case (Cons t ts)
  show ?case
  proof (cases i)
    case 0
    then show ?thesis by (simp add: bit_0)
  next
    case (Suc j)
    have "(of_bool (is_ref t) + 2 * control_of ts) div 2 = control_of ts" by simp
    then show ?thesis using Suc Cons by (simp add: bit_Suc)
  qed
qed simp

lemma control_flag:
  assumes "i < length g" "length g \<le> 8"
  shows "uint (word_of_int (control_of g) :: byte) AND push_bit i 1 \<noteq> 0 \<longleftrightarrow> is_ref (g ! i)"
proof -
  have "(2 :: int) ^ length g \<le> 2 ^ 8" using assms(2) by (intro power_increasing) auto
  then have "uint (word_of_int (control_of g) :: byte) = control_of g"
    using control_of_bound [of g] by (intro uint_byte_small) auto
  then show ?thesis using control_of_bit [OF assms(1)] by (simp add: push_bit_eq_mult and_exp_eq_0_iff_not_bit)
qed

lemma nat_join: "nat (256 * int a + int b) = 256 * a + b"
  by (simp add: nat_add_distrib nat_mult_distrib)

lemma token_bytes_ref:
  assumes "offset < 4096" "2 \<le> n" "n \<le> 17"
  obtains hi lo where "token_bytes (Ref offset n) = [hi, lo]" "be16 hi lo = 16 * offset + (n - 2)"
    "drop_bit 4 (be16 hi lo) = offset" "(be16 hi lo AND 15) + 2 = n"
proof -
  define m where "m = n - 2"
  have m: "m < 16" "n = m + 2" using assms unfolding m_def by linarith+
  let ?t = "16 * offset + m"
  let ?hi = "word_of_int (int (?t div 256)) :: byte" and ?lo = "word_of_int (int (?t mod 256)) :: byte"
  have t: "?t < 65536" using assms(1) m(1) by linarith
  have "?t div 256 < 256" using t by (simp add: less_mult_imp_div_less)
  then have "uint ?hi = int (?t div 256)" by (intro uint_byte_small) auto
  moreover have "?t mod 256 < 256" by simp
  then have "uint ?lo = int (?t mod 256)" by (intro uint_byte_small) auto
  moreover have "push_bit 8 (int (?t div 256)) OR int (?t mod 256) = 2 ^ 8 * int (?t div 256) + int (?t mod 256)"
    by (rule or_low) auto
  ultimately have "be16 ?hi ?lo = nat (256 * int (?t div 256) + int (?t mod 256))"
    by (simp only: be16_def) simp
  also have "\<dots> = 256 * (?t div 256) + ?t mod 256"
    using nat_join [of "?t div 256" "?t mod 256"] .
  also have "\<dots> = ?t" by (rule mult_div_mod_eq)
  finally have be: "be16 ?hi ?lo = ?t" .
  have "?t div 16 = offset" using m(1) by simp
  then have d: "drop_bit 4 (be16 ?hi ?lo) = offset" unfolding be by (simp add: drop_bit_eq_div)
  have "?t mod 16 = m" using m(1) by simp
  then have a: "(be16 ?hi ?lo AND 15) + 2 = n" unfolding be and_15 using m(2) by simp
  show ?thesis using that [OF _ be [unfolded m_def] d [unfolded m_def] a [unfolded m_def]] by (simp add: Let_def m_def)
qed

lemma lz_token_step:
  assumes w: "lz_window h st" and pos: "lz_pos st = length pre" and payload: "payload = pre @ token_bytes t @ post"
    and ok: "token_ok h t" and mx: "int (length (token_step h t)) \<le> 207 + mx"
  shows "\<exists>st'. lz_token payload mx (is_ref t) st = Inr (Inr st') \<and> lz_window (token_step h t) st' \<and>
    lz_pos st' = length (pre @ token_bytes t)"
proof (cases t)
  case (Lit b)
  have "len (lz_output st) < mx" using mx lz_window_output(2) [OF w] Lit by simp
  then have "lz_token payload mx (is_ref t) st = Inr (Inr (lz_emit b (st\<lparr>lz_pos := lz_pos st + 1\<rparr>)))"
    using Lit pos payload by (simp add: lz_token_def lz_literal_def nth_append)
  then show ?thesis using Lit lz_window_emit [of h "st\<lparr>lz_pos := lz_pos st + 1\<rparr>" b] w pos by simp
next
  case (Ref offset n)
  have o: "offset < 4096" "offset \<noteq> length h mod 4096" "offset < length h" "2 \<le> n" "n \<le> 17" using ok Ref by auto
  obtain hi lo where tb: "token_bytes (Ref offset n) = [hi, lo]" "drop_bit 4 (be16 hi lo) = offset"
      "(be16 hi lo AND 15) + 2 = n"
    using token_bytes_ref [OF o(1,4,5)] by metis
  have at: "payload ! lz_pos st = hi" "payload ! (lz_pos st + 1) = lo" "lz_pos st + 2 \<le> length payload"
    using Ref pos payload tb(1) by (simp_all add: nth_append)
  let ?st = "st\<lparr>lz_pos := lz_pos st + 2\<rparr>"
  have ww: "lz_window h ?st" using w by simp
  have e: "lz_write ?st = length h mod 4096" "lz_end ?st = min 4096 (length h)" using ww unfolding lz_window_def by blast+
  have short: "\<not> min 4096 (length h) \<le> offset" using o by simp
  have "len (lz_output ?st) + int n \<le> mx"
    using mx lz_window_output(2) [OF w] Ref by (simp add: copy_back_length)
  then have "lz_token payload mx (is_ref t) st = Inr (Inr (lz_copy n offset ?st))"
    using Ref at tb(2,3) o e short by (simp add: lz_token_def lz_reference_def Let_def)
  then show ?thesis using Ref lz_window_step [OF ww, of offset n] ok pos tb(1) by simp
qed

lemma lz_bits_prefix:
  assumes "lz_window h st" "lz_pos st = length pre" "payload = pre @ concat (map token_bytes g) @ post"
    and "tokens_ok h g" "int (length (expand h g)) \<le> 207 + mx"
    and "\<forall>i < length g. c AND push_bit (k + i) 1 \<noteq> 0 \<longleftrightarrow> is_ref (g ! i)"
  shows "\<exists>st'. lz_bits payload mx c ([k..<k + length g] @ bs) st = lz_bits payload mx c bs st' \<and>
    lz_window (expand h g) st' \<and> lz_pos st' = length (pre @ concat (map token_bytes g))"
  using assms
proof (induction g arbitrary: h st pre k)
  case Nil
  then show ?case by auto
next
  case (Cons t g)
  have "int (length (token_step h t)) \<le> 207 + mx"
    using Cons.prems(5) expand_length [of "token_step h t" g] by simp
  then obtain st1 where st1: "lz_token payload mx (is_ref t) st = Inr (Inr st1)" "lz_window (token_step h t) st1"
      "lz_pos st1 = length (pre @ token_bytes t)"
    using lz_token_step [OF Cons.prems(1,2), of payload t "concat (map token_bytes g) @ post" mx] Cons.prems(3,4) by auto
  have flag: "c AND push_bit k 1 \<noteq> 0 \<longleftrightarrow> is_ref t" using Cons.prems(6) [rule_format, of 0] by simp
  have rest: "\<forall>i < length g. c AND push_bit (Suc k + i) 1 \<noteq> 0 \<longleftrightarrow> is_ref (g ! i)"
    using Cons.prems(6) by (auto dest: spec [of _ "Suc _"])
  have split: "[k..<k + length (t # g)] @ bs = k # [Suc k..<Suc k + length g] @ bs"
    by (simp add: upt_conv_Cons del: upt_Suc)
  have step: "lz_bits payload mx c ([k..<k + length (t # g)] @ bs) st =
      lz_bits payload mx c ([Suc k..<Suc k + length g] @ bs) st1"
    unfolding split lz_bits.simps flag st1(1) by simp
  show ?case
    using Cons.IH [OF st1(2,3) _ _ _ rest] Cons.prems(3,4,5) unfolding step by simp
qed

text \<open>The terminator: a reference to the place the next byte would go.\<close>

definition terminator :: "bytes \<Rightarrow> rtf_token" where
  "terminator h = Ref (length h mod 4096) 2"

lemma lz_token_terminator:
  assumes w: "lz_window h st" and pos: "lz_pos st = length pre"
    and payload: "payload = pre @ token_bytes (terminator h) @ post"
  shows "lz_token payload mx (is_ref (terminator h)) st = Inr (Inl (drop 207 h))"
proof -
  have m: "length h mod 4096 < 4096" "(2 :: nat) \<le> 2" "(2 :: nat) \<le> 17" by simp_all
  obtain hi lo where "token_bytes (Ref (length h mod 4096) 2) = [hi, lo]"
      "be16 hi lo = 16 * (length h mod 4096) + (2 - 2)" "drop_bit 4 (be16 hi lo) = length h mod 4096"
      "(be16 hi lo AND 15) + 2 = 2"
    by (rule token_bytes_ref [OF m])
  then have tb: "token_bytes (terminator h) = [hi, lo]" "drop_bit 4 (be16 hi lo) = length h mod 4096"
    by (simp_all only: terminator_def)
  have "payload ! lz_pos st = hi" "payload ! (lz_pos st + 1) = lo" "lz_pos st + 2 \<le> length payload"
    using pos payload tb(1) by (simp_all add: nth_append)
  moreover have "lz_write st = length h mod 4096" using w unfolding lz_window_def by blast
  ultimately show ?thesis
    using tb(2) lz_window_output(1) [OF w] by (simp add: lz_token_def lz_reference_def terminator_def)
qed

theorem lz_runs_encoded:
  assumes "lz_window h st" "lz_pos st = length pre" "tokens_ok h ts" "int (length (expand h ts)) \<le> 207 + mx"
    and "payload = pre @ encode_groups (ts @ [terminator (expand h ts)])"
  shows "lz_runs payload mx st = Inr (drop 207 (expand h ts))"
  using assms
proof (induction ts arbitrary: h st pre rule: length_induct)
  case (1 ts)
  let ?T = "terminator (expand h ts)"
  let ?us = "ts @ [?T]"
  let ?g = "take 8 ?us"
  define c where "c = (word_of_int (control_of ?g) :: byte)"
  have payload: "payload = (pre @ [c]) @ concat (map token_bytes ?g) @ encode_groups (drop 8 ?us)"
    using "1.prems"(5) by (simp add: encode_groups.simps [of ?us] c_def)
  have pos: "lz_pos st < length payload" "payload ! lz_pos st = c"
    using "1.prems"(2) unfolding payload by (simp_all add: nth_append)
  let ?st = "st\<lparr>lz_pos := lz_pos st + 1\<rparr>"
  have w: "lz_window h ?st" "lz_pos ?st = length (pre @ [c])" using "1.prems"(1,2) by simp_all
  have flags: "\<forall>i < length ?g. uint c AND push_bit (0 + i) 1 \<noteq> 0 \<longleftrightarrow> is_ref (?g ! i)"
    using control_flag [of _ ?g] unfolding c_def by simp
  show ?case
  proof (cases "length ts < 8")
    case True
    then have g: "?g = ts @ [?T]" "drop 8 ?us = []" by simp_all
    have ts: "payload = (pre @ [c]) @ concat (map token_bytes ts) @ token_bytes ?T"
      unfolding payload g by (simp add: encode_groups.simps)
    have fl: "\<forall>i < length ts. uint c AND push_bit (0 + i) 1 \<noteq> 0 \<longleftrightarrow> is_ref (ts ! i)"
      using flags unfolding g by (auto simp: nth_append)
    have last: "uint c AND push_bit (length ts) 1 \<noteq> 0 \<longleftrightarrow> is_ref ?T"
      using flags [rule_format, of "length ts"] unfolding g by simp
    have upt: "[0..<8] = [0..<0 + length ts] @ length ts # [Suc (length ts)..<8]"
      using True by (metis add_0 le_add1 less_imp_le_nat upt_add_eq_append upt_conv_Cons le_add_diff_inverse)
    obtain st1 where st1: "lz_bits payload mx (uint c) ([0..<0 + length ts] @ length ts # [Suc (length ts)..<8]) ?st =
        lz_bits payload mx (uint c) (length ts # [Suc (length ts)..<8]) st1"
        "lz_window (expand h ts) st1" "lz_pos st1 = length ((pre @ [c]) @ concat (map token_bytes ts))"
      using lz_bits_prefix [OF w ts "1.prems"(3,4) fl] by blast
    have "payload = ((pre @ [c]) @ concat (map token_bytes ts)) @ token_bytes ?T @ []" unfolding ts by simp
    note T = lz_token_terminator [OF st1(2,3) this, of mx]
    have "lz_bits payload mx (uint c) [0..<8] ?st = Inr (Inl (drop 207 (expand h ts)))"
      unfolding upt st1(1) lz_bits.simps last T by simp
    then show ?thesis using pos by (simp add: lz_runs.simps [of payload mx st] Let_def)
  next
    case False
    let ?h = "expand h (take 8 ts)"
    have g: "?g = take 8 ts" "drop 8 ?us = drop 8 ts @ [?T]" using False by simp_all
    have ex: "expand h ts = expand ?h (drop 8 ts)" by (metis append_take_drop_id expand_append)
    have oks: "tokens_ok h (take 8 ts)" "tokens_ok ?h (drop 8 ts)"
      using "1.prems"(3) by (metis append_take_drop_id tokens_ok_append)+
    have mx: "int (length ?h) \<le> 207 + mx" using "1.prems"(4) expand_length [of ?h "drop 8 ts"] ex by simp
    have len8: "length (take 8 ts) = 8" using False by simp
    obtain st1 where st1: "lz_bits payload mx (uint c) ([0..<0 + length (take 8 ts)] @ []) ?st = lz_bits payload mx (uint c) [] st1"
        "lz_window ?h st1" "lz_pos st1 = length ((pre @ [c]) @ concat (map token_bytes (take 8 ts)))"
      using lz_bits_prefix [OF w payload [unfolded g] oks(1) mx, of "uint c" 0 "[]"] flags unfolding g by blast
    have bits: "lz_bits payload mx (uint c) [0..<8] ?st = Inr (Inr st1)" using st1(1) unfolding len8 by simp
    have split: "payload = ((pre @ [c]) @ concat (map token_bytes (take 8 ts))) @ encode_groups (drop 8 ts @ [terminator (expand ?h (drop 8 ts))])"
      using payload unfolding g by (simp only: append_assoc ex [symmetric])
    have shorter: "length (drop 8 ts) < length ts" using False by simp
    have "lz_runs payload mx st1 = Inr (drop 207 (expand ?h (drop 8 ts)))"
      by (rule "1.IH" [rule_format, OF shorter st1(2,3) oks(2) _ split]) (use "1.prems"(4) ex in simp)
    then have "lz_runs payload mx st1 = Inr (drop 207 (expand h ts))" unfolding ex .
    with pos bits show ?thesis by (simp add: lz_runs.simps [of payload mx st] Let_def)
  qed
qed

section \<open>The whole function\<close>

text \<open>A compressed stream of a token list, with the header that describes it.\<close>

definition rtf_tokens_ok :: "rtf_token list \<Rightarrow> bool" where
  "rtf_tokens_ok ts = tokens_ok INITIAL_DICTIONARY ts"

definition rtf_text :: "rtf_token list \<Rightarrow> bytes" where
  "rtf_text ts = drop 207 (expand INITIAL_DICTIONARY ts)"

definition rtf_payload :: "rtf_token list \<Rightarrow> bytes" where
  "rtf_payload ts = encode_groups (ts @ [terminator (expand INITIAL_DICTIONARY ts)])"

definition rtf_pack :: "rtf_token list \<Rightarrow> bytes" where
  "rtf_pack ts = struct_pack RTF_HEADER
     [len (rtf_payload ts) + 12, len (rtf_text ts), compression_value RTF_COMPRESSED, compute_crc 0 (rtf_payload ts)]
     @ rtf_payload ts"

lemma rtf_text_length: "length (expand INITIAL_DICTIONARY ts) = 207 + length (rtf_text ts)"
  using expand_length [of INITIAL_DICTIONARY ts] by (simp add: rtf_text_def INITIAL_DICTIONARY_length)

lemma rtf_text_literals: "rtf_tokens_ok (map Lit xs)" "rtf_text (map Lit xs) = xs"
  by (simp_all add: rtf_tokens_ok_def rtf_text_def expand_literals INITIAL_DICTIONARY_length)

lemma decompress_lzfu_payload:
  assumes "rtf_tokens_ok ts" "len (rtf_text ts) \<le> mx"
  shows "decompress_lzfu (rtf_payload ts) mx = Inr (rtf_text ts)"
proof -
  have "len (expand INITIAL_DICTIONARY ts) \<le> 207 + mx" using assms(2) rtf_text_length [of ts] by linarith
  with assms(1) have "lz_runs (rtf_payload ts) mx lz_start = Inr (drop 207 (expand INITIAL_DICTIONARY ts))"
    by (intro lz_runs_encoded [OF lz_window_start, of "[]"]) (simp_all add: lz_start_def rtf_payload_def rtf_tokens_ok_def)
  then show ?thesis by (simp only: decompress_lzfu_def rtf_text_def)
qed

lemma rtf_pack_header:
  assumes "len (rtf_payload ts) + 12 < 256 ^ 4" "len (rtf_text ts) < 256 ^ 4"
  shows "rtf_read_header (rtf_pack ts) = Inr \<lparr>rh_comp_size = len (rtf_payload ts) + 12, rh_raw_size = len (rtf_text ts),
    rh_comp_type = RTF_COMPRESSED, rh_crc = compute_crc 0 (rtf_payload ts)\<rparr>"
    "drop (nat RTF_HEADER_SIZE) (rtf_pack ts) = rtf_payload ts"
proof -
  let ?xs = "[len (rtf_payload ts) + 12, len (rtf_text ts), compression_value RTF_COMPRESSED, compute_crc 0 (rtf_payload ts)]"
  have fit: "fits RTF_HEADER ?xs" using assms compute_crc_range by (simp add: RTF_HEADER_def)
  have l: "length (struct_pack RTF_HEADER ?xs) = 16" by (simp add: length_struct_pack RTF_HEADER_def)
  show "drop (nat RTF_HEADER_SIZE) (rtf_pack ts) = rtf_payload ts" using l by (simp add: rtf_pack_def RTF_HEADER_SIZE_def)
  have "len (rtf_pack ts) = len (rtf_payload ts) + 16" using l by (simp add: rtf_pack_def)
  moreover from this have "struct_unpack_from RTF_HEADER (rtf_pack ts) 0 = Inr (le_fields RTF_HEADER (rtf_pack ts))"
    by (subst struct_unpack_from_ok) (simp_all add: calcsize_def RTF_HEADER_def)
  moreover have "le_fields RTF_HEADER (rtf_pack ts) = ?xs" unfolding rtf_pack_def by (rule le_fields_struct_pack [OF fit])
  moreover have "compression_type_of 0x75465A4C = Inr RTF_COMPRESSED"
    using compression_enum.of_value_val [of RTF_COMPRESSED] by (simp add: compression_type_of_def)
  ultimately show "rtf_read_header (rtf_pack ts) = Inr \<lparr>rh_comp_size = len (rtf_payload ts) + 12, rh_raw_size = len (rtf_text ts),
    rh_comp_type = RTF_COMPRESSED, rh_crc = compute_crc 0 (rtf_payload ts)\<rparr>"
    by (simp add: rtf_read_header_def RTF_HEADER_SIZE_def)
qed

subsection \<open>What is produced stays within the ceiling\<close>

lemma lz_copy_output: "length (lz_output (lz_copy n r st)) = length (lz_output st) + n"
  by (induction n r st rule: lz_copy.induct) (auto simp: lz_emit_def)

lemma lz_token_within:
  assumes "len (lz_output st) \<le> mx" "lz_token payload mx c st = Inr r"
  shows "case r of Inl out \<Rightarrow> len out \<le> mx | Inr st' \<Rightarrow> len (lz_output st') \<le> mx"
  using assms
  by (auto simp: lz_token_def lz_literal_def lz_reference_def lz_emit_def lz_copy_output ebind_Inr_iff raise_if_Inr_iff Let_def
      split: if_splits)

lemma lz_bits_within:
  assumes "len (lz_output st) \<le> mx" "lz_bits payload mx c bs st = Inr r"
  shows "case r of Inl out \<Rightarrow> len out \<le> mx | Inr st' \<Rightarrow> len (lz_output st') \<le> mx"
  using assms
proof (induction bs arbitrary: st)
  case (Cons b bs)
  then show ?case unfolding lz_bits_Cons_iff using lz_token_within [OF Cons.prems(1)] by fastforce
qed auto

lemma lz_runs_within: "lz_runs payload mx st = Inr out \<Longrightarrow> len (lz_output st) \<le> mx \<Longrightarrow> len out \<le> mx"
proof (induction payload mx st rule: lz_runs.induct)
  case (1 payload mx st)
  let ?st = "st\<lparr>lz_pos := lz_pos st + 1\<rparr>"
  let ?bits = "lz_bits payload mx (uint (payload ! lz_pos st)) [0..<8] ?st"
  have pos: "\<not> length payload \<le> lz_pos st" using "1.prems"(1) by (auto simp: lz_runs.simps [of payload mx st] split: if_splits)
  with "1.prems"(1) obtain r where r: "?bits = Inr r"
    by (cases ?bits) (auto simp: lz_runs.simps [of payload mx st] Let_def)
  have "len (lz_output ?st) \<le> mx" using "1.prems"(2) by simp
  note within = lz_bits_within [OF this r]
  show ?case
  proof (cases r)
    case (Inl out')
    then show ?thesis using within "1.prems"(1) r pos by (simp add: lz_runs.simps [of payload mx st] Let_def)
  next
    case (Inr st')
    then have "lz_runs payload mx st' = Inr out" using "1.prems"(1) r pos
      by (simp add: lz_runs.simps [of payload mx st] Let_def)
    with "1.IH" [OF pos refl refl r Inr this] within Inr show ?thesis by simp
  qed
qed

lemma lz_token_closed: "fails_closed (lz_token payload mx c st)"
  unfolding lz_token_def lz_literal_def lz_reference_def Let_def
  by (intro fails_closed_if fails_closed_ebind fails_closed_raise_if fails_closed_Inr) simp_all

lemma lz_bits_closed: "fails_closed (lz_bits payload mx c bs st)"
proof (induction bs arbitrary: st)
  case (Cons b bs)
  then show ?case unfolding lz_bits.simps
    by (intro fails_closed_ebind lz_token_closed) (auto split: sum.split)
qed simp

lemma lz_runs_closed: "fails_closed (lz_runs payload mx st)"
proof (induction payload mx st rule: lz_runs.induct)
  case (1 payload mx st)
  let ?bits = "lz_bits payload mx (uint (payload ! lz_pos st)) [0..<8] (st\<lparr>lz_pos := lz_pos st + 1\<rparr>)"
  show ?case
  proof (cases "length payload \<le> lz_pos st")
    case False
    show ?thesis
    proof (cases ?bits)
      case (Inl e)
      with False show ?thesis using fails_closedD [OF lz_bits_closed Inl] by (simp add: lz_runs.simps [of payload mx st] Let_def)
    next
      case (Inr r)
      with False "1.IH" [OF False refl refl Inr] show ?thesis
        by (cases r) (simp_all add: lz_runs.simps [of payload mx st] Let_def)
    qed
  qed (simp add: lz_runs.simps [of payload mx st])
qed

lemma compression_type_of_closed: "fails_closed (compression_type_of v)"
  by (auto simp: fails_closed_def compression_type_of_def reraise_def compression_enum.of_value_Inl_iff split: sum.splits)

lemma rtf_read_header_closed: "fails_closed (rtf_read_header data)"
proof (cases "len data < 16")
  case True
  then show ?thesis by (simp add: rtf_read_header_def RTF_HEADER_SIZE_def)
next
  case False
  then have "struct_unpack_from RTF_HEADER data 0 = Inr (le_fields RTF_HEADER data)"
    by (subst struct_unpack_from_ok) (simp_all add: calcsize_def RTF_HEADER_def)
  then show ?thesis unfolding rtf_read_header_def
    by (auto intro!: fails_closed_ebind compression_type_of_closed)
qed

lemma rtf_read_header_raw: "rtf_read_header data = Inr h \<Longrightarrow> 0 \<le> rh_raw_size h"
proof -
  assume "rtf_read_header data = Inr h"
  then obtain fs where fs: "struct_unpack_from RTF_HEADER data 0 = Inr fs" "rh_raw_size h = fs ! 1"
    by (auto simp: rtf_read_header_def ebind_Inr_iff)
  from fs(1) have "fs = le_fields RTF_HEADER data" by (auto simp: struct_unpack_from_def split: if_splits)
  then show ?thesis using fs(2) by (simp add: RTF_HEADER_def)
qed

lemma decompress_rtf_closed: "fails_closed (decompress_rtf data mx)"
  unfolding decompress_rtf_def Let_def decompress_lzfu_def
  by (intro fails_closed_ebind rtf_read_header_closed fails_closed_raise_if fails_closed_if lz_runs_closed fails_closed_Inr) simp_all

subsection \<open>The streams accepted\<close>

text \<open>
  The bytes of a token sequence: full groups, then a group the terminator ends. The bits of its control byte after the
  terminator's, the length nibble of the terminator and what follows it are not looked at.
\<close>

definition stream_of :: "nat \<Rightarrow> bytes \<Rightarrow> rtf_token list \<Rightarrow> bool" where
  "stream_of place stream ts \<longleftrightarrow>
     (\<exists>full rest c hi lo tail. ts = full @ rest \<and> 8 dvd length full \<and> length rest < 8 \<and>
        stream = encode_groups full @ [c] @ concat (map token_bytes rest) @ [hi, lo] @ tail \<and>
        (\<forall>i < length rest. uint c AND push_bit i 1 \<noteq> 0 \<longleftrightarrow> is_ref (rest ! i)) \<and>
        uint c AND push_bit (length rest) 1 \<noteq> 0 \<and> drop_bit 4 (be16 hi lo) = place)"

lemma be16_unat: "be16 hi lo = 256 * unat hi + unat lo"
proof -
  have "push_bit 8 (uint hi) OR uint lo = 2 ^ 8 * uint hi + uint lo"
    using uint_lt2p [of lo] by (intro or_low) simp_all
  then have "be16 hi lo = nat (256 * int (unat hi) + int (unat lo))" by (simp only: be16_def) simp
  then show ?thesis using nat_join [of "unat hi" "unat lo"] by simp
qed

lemma token_bytes_be16:
  "token_bytes (Ref (drop_bit 4 (be16 hi lo)) ((be16 hi lo AND 15) + 2)) = [hi, lo]"
proof -
  have "unat lo < 256" by (rule unat_byte_bound)
  then have "(256 * unat hi + unat lo) div 256 = unat hi" "(256 * unat hi + unat lo) mod 256 = unat lo" by simp_all
  moreover have "16 * drop_bit 4 (be16 hi lo) + ((be16 hi lo AND 15) + 2 - 2) = be16 hi lo"
    by (simp add: and_15 drop_bit_eq_div)
  ultimately show ?thesis unfolding token_bytes.simps Let_def by (simp add: be16_unat)
qed

lemma take_two: "n + 2 \<le> length xs \<Longrightarrow> take 2 (drop n xs) = [xs ! n, xs ! (n + 1)]"
  by (simp add: numeral_2_eq_2 take_Suc_conv_app_nth)

text \<open>Each token accepted is spelled by the bytes read for it.\<close>

lemma lz_token_reads:
  assumes w: "lz_window h st" and run: "lz_token payload mx c st = Inr (Inr st')"
  shows "\<exists>t. token_ok h t \<and> is_ref t = c \<and> lz_window (token_step h t) st' \<and> lz_pos st' = lz_pos st + length (token_bytes t) \<and>
    take (length (token_bytes t)) (drop (lz_pos st) payload) = token_bytes t \<and> lz_pos st' \<le> length payload"
proof (cases c)
  case False
  let ?b = "payload ! lz_pos st"
  from run False have st': "lz_pos st < length payload" "st' = lz_emit ?b (st\<lparr>lz_pos := lz_pos st + 1\<rparr>)"
    by (auto simp: lz_token_def lz_literal_def ebind_Inr_iff raise_if_Inr_iff)
  have "take 1 (drop (lz_pos st) payload) = [?b]" using st'(1) by (simp add: take_Suc_conv_app_nth hd_drop_conv_nth take_Suc)
  moreover have "lz_window (token_step h (Lit ?b)) st'" using lz_window_emit [of h "st\<lparr>lz_pos := lz_pos st + 1\<rparr>"] w st'(2) by simp
  ultimately show ?thesis using False st' by (intro exI [of _ "Lit ?b"]) simp
next
  case True
  define hi lo where b: "hi = payload ! lz_pos st" "lo = payload ! (lz_pos st + 1)"
  define off n where t: "off = drop_bit 4 (be16 hi lo)" "n = (be16 hi lo AND 15) + 2"
  let ?st = "st\<lparr>lz_pos := lz_pos st + 2\<rparr>"
  have ww: "lz_window h ?st" using w by simp
  from run True have r: "lz_pos st + 2 \<le> length payload" "off \<noteq> lz_write ?st" "\<not> lz_end ?st \<le> off" "st' = lz_copy n off ?st"
    unfolding b t by (auto simp: lz_token_def lz_reference_def ebind_Inr_iff raise_if_Inr_iff Let_def split: if_splits)
  have e: "lz_end ?st = min 4096 (length h)" using ww unfolding lz_window_def by blast
  have "off < min 4096 (length h)" using r(3) unfolding e linorder_not_le .
  moreover have "off \<noteq> length h mod 4096" using r(2) ww by (simp add: lz_window_def)
  moreover have "n \<le> 17" "2 \<le> n" unfolding t and_15 using mod_less_divisor [of 16 "be16 hi lo"] by linarith+
  ultimately have ok: "token_ok h (Ref off n)" by simp
  have "token_bytes (Ref off n) = take 2 (drop (lz_pos st) payload)"
    unfolding t token_bytes_be16 take_two [OF r(1)] b ..
  then show ?thesis
    using ok True r(1,4) lz_window_step [OF ww ok] by (intro exI [of _ "Ref off n"]) (simp del: token_bytes.simps token_step.simps)
qed

lemma lz_token_stops:
  assumes "lz_window h st" "lz_token payload mx c st = Inr (Inl out)"
  shows "c \<and> out = drop 207 h \<and> lz_pos st + 2 \<le> length payload \<and>
    drop_bit 4 (be16 (payload ! lz_pos st) (payload ! (lz_pos st + 1))) = length h mod 4096"
proof -
  have "lz_write st = length h mod 4096" using assms(1) unfolding lz_window_def by blast
  with assms(2) lz_window_output(1) [OF assms(1)] show ?thesis
    by (auto simp: lz_token_def lz_reference_def lz_literal_def ebind_Inr_iff raise_if_Inr_iff Let_def split: if_splits)
qed

text \<open>The tokens of the bits left of a control byte, and the bytes they are read from.\<close>

definition reads_tokens :: "bytes \<Rightarrow> nat \<Rightarrow> (nat \<Rightarrow> bool) \<Rightarrow> bytes \<Rightarrow> rtf_token list \<Rightarrow> nat \<Rightarrow> bool" where
  "reads_tokens payload pos flag h ts pos' \<longleftrightarrow> tokens_ok h ts \<and> (\<forall>i < length ts. flag i \<longleftrightarrow> is_ref (ts ! i)) \<and>
     pos' = pos + length (concat (map token_bytes ts)) \<and> pos' \<le> length payload \<and>
     take (pos' - pos) (drop pos payload) = concat (map token_bytes ts)"

lemma reads_tokens_Nil: "pos \<le> length payload \<Longrightarrow> reads_tokens payload pos flag h [] pos"
  by (simp add: reads_tokens_def)

lemma reads_tokens_Cons:
  assumes t: "token_ok h t" "flag 0 \<longleftrightarrow> is_ref t" "take (length (token_bytes t)) (drop pos payload) = token_bytes t"
    and rest: "reads_tokens payload (pos + length (token_bytes t)) (\<lambda>i. flag (Suc i)) (token_step h t) ts pos'"
  shows "reads_tokens payload pos flag h (t # ts) pos'"
proof -
  let ?n = "length (token_bytes t)" and ?m = "length (concat (map token_bytes ts))"
  have "take (?n + ?m) (drop pos payload) = token_bytes t @ concat (map token_bytes ts)"
    using rest t(3) unfolding take_add drop_drop reads_tokens_def by (auto simp: add.commute)
  moreover have "flag i \<longleftrightarrow> is_ref ((t # ts) ! i)" if "i < length (t # ts)" for i
    using that rest t(2) by (cases i) (auto simp: reads_tokens_def)
  ultimately show ?thesis using rest t(1) by (auto simp: reads_tokens_def)
qed

lemma lz_bits_reads:
  assumes "lz_window h st" "lz_bits payload mx c [k..<k + m] st = Inr r" "lz_pos st \<le> length payload"
  shows "\<exists>ts pos. reads_tokens payload (lz_pos st) (\<lambda>i. c AND push_bit (k + i) 1 \<noteq> 0) h ts pos \<and>
    (case r of
       Inr st' \<Rightarrow> length ts = m \<and> lz_window (expand h ts) st' \<and> lz_pos st' = pos
     | Inl out \<Rightarrow> length ts < m \<and> out = drop 207 (expand h ts) \<and> c AND push_bit (k + length ts) 1 \<noteq> 0 \<and>
         pos + 2 \<le> length payload \<and> drop_bit 4 (be16 (payload ! pos) (payload ! (pos + 1))) = length (expand h ts) mod 4096)"
  using assms
proof (induction m arbitrary: k h st)
  case 0
  then show ?case by (auto intro!: exI [of _ "[]"] reads_tokens_Nil)
next
  case (Suc m)
  have upt: "[k..<k + Suc m] = k # [Suc k..<Suc k + m]" by (simp add: upt_conv_Cons del: upt_Suc)
  from Suc.prems(2) consider
      (stop) out where "lz_token payload mx (c AND push_bit k 1 \<noteq> 0) st = Inr (Inl out)" "r = Inl out"
    | (go) st' where "lz_token payload mx (c AND push_bit k 1 \<noteq> 0) st = Inr (Inr st')"
        "lz_bits payload mx c [Suc k..<Suc k + m] st' = Inr r"
    unfolding upt lz_bits_Cons_iff by blast
  then show ?case
  proof cases
    case stop
    from lz_token_stops [OF Suc.prems(1) stop(1)] stop(2) Suc.prems(3) show ?thesis
      by (intro exI [of _ "[]"] exI [of _ "lz_pos st"]) (simp add: reads_tokens_Nil)
  next
    case go
    obtain t where t: "token_ok h t" "is_ref t = (c AND push_bit k 1 \<noteq> 0)" "lz_window (token_step h t) st'"
        "lz_pos st' = lz_pos st + length (token_bytes t)" "lz_pos st' \<le> length payload"
        "take (length (token_bytes t)) (drop (lz_pos st) payload) = token_bytes t"
      using lz_token_reads [OF Suc.prems(1) go(1)] by blast
    from Suc.IH [OF t(3) go(2) t(5)] obtain ts pos where
      ts: "reads_tokens payload (lz_pos st') (\<lambda>i. c AND push_bit (Suc k + i) 1 \<noteq> 0) (token_step h t) ts pos" and
      r: "case r of
       Inr st1 \<Rightarrow> length ts = m \<and> lz_window (expand (token_step h t) ts) st1 \<and> lz_pos st1 = pos
     | Inl out \<Rightarrow> length ts < m \<and> out = drop 207 (expand (token_step h t) ts) \<and> c AND push_bit (Suc k + length ts) 1 \<noteq> 0 \<and>
         pos + 2 \<le> length payload \<and>
         drop_bit 4 (be16 (payload ! pos) (payload ! (pos + 1))) = length (expand (token_step h t) ts) mod 4096"
      by blast
    have "reads_tokens payload (lz_pos st) (\<lambda>i. c AND push_bit (k + i) 1 \<noteq> 0) h (t # ts) pos"
      by (rule reads_tokens_Cons) (use t ts in simp_all)
    with r show ?thesis by (intro exI [of _ "t # ts"] exI [of _ pos]) (cases r; simp)
  qed
qed

lemma reads_tokens_split:
  assumes "reads_tokens payload pos flag h ts pos'" "pos \<le> length payload"
  shows "drop pos payload = concat (map token_bytes ts) @ drop pos' payload"
proof -
  have t: "take (pos' - pos) (drop pos payload) = concat (map token_bytes ts)" "pos' - pos + pos = pos'"
    using assms(1) unfolding reads_tokens_def by auto
  have "drop pos payload = take (pos' - pos) (drop pos payload) @ drop (pos' - pos) (drop pos payload)"
    by (simp only: append_take_drop_id)
  then show ?thesis unfolding t drop_drop .
qed

lemma control_byte:
  assumes "length g = 8" "\<forall>i < length g. uint c AND push_bit i 1 \<noteq> 0 \<longleftrightarrow> is_ref (g ! i)"
  shows "(c :: byte) = word_of_int (control_of g)"
proof (rule bit_word_eqI)
  fix n :: nat assume n: "n < LENGTH(8)"
  have "bit c n \<longleftrightarrow> uint c AND push_bit n 1 \<noteq> 0" by (simp add: push_bit_eq_mult and_exp_eq_0_iff_not_bit bit_uint_iff n [simplified])
  also have "\<dots> \<longleftrightarrow> bit (control_of g) n" using assms n control_of_bit [of n g] by simp
  finally show "bit c n \<longleftrightarrow> bit (word_of_int (control_of g) :: byte) n" using n by (simp add: bit_word_of_int_iff)
qed

lemma stream_of_group:
  assumes "stream_of place stream ts" "length g = 8" "\<forall>i < length g. uint c AND push_bit i 1 \<noteq> 0 \<longleftrightarrow> is_ref (g ! i)"
  shows "stream_of place (c # concat (map token_bytes g) @ stream) (g @ ts)"
proof -
  from assms(1) obtain full rest c' hi lo tail where s: "ts = full @ rest" "8 dvd length full" "length rest < 8"
    "stream = encode_groups full @ [c'] @ concat (map token_bytes rest) @ [hi, lo] @ tail"
    "\<forall>i < length rest. uint c' AND push_bit i 1 \<noteq> 0 \<longleftrightarrow> is_ref (rest ! i)"
    "uint c' AND push_bit (length rest) 1 \<noteq> 0" "drop_bit 4 (be16 hi lo) = place"
    unfolding stream_of_def by blast
  have "encode_groups (g @ full) = c # concat (map token_bytes g) @ encode_groups full"
    using assms(2) control_byte [OF assms(2,3)] by (subst encode_groups.simps) auto
  then show ?thesis unfolding stream_of_def using s assms(2)
    by (intro exI [of _ "g @ full"] exI [of _ rest] exI [of _ c'] exI [of _ hi] exI [of _ lo] exI [of _ tail]) simp
qed

lemma lz_runs_reads:
  assumes "lz_window h st" "lz_runs payload mx st = Inr out"
  shows "\<exists>ts. tokens_ok h ts \<and> out = drop 207 (expand h ts) \<and>
    stream_of (length (expand h ts) mod 4096) (drop (lz_pos st) payload) ts"
  using assms
proof (induction payload mx st arbitrary: h rule: lz_runs.induct)
  case (1 payload mx st)
  let ?st = "st\<lparr>lz_pos := lz_pos st + 1\<rparr>" and ?c = "payload ! lz_pos st"
  let ?bits = "lz_bits payload mx (uint ?c) [0..<8] ?st"
  have pos: "\<not> length payload \<le> lz_pos st" using "1.prems"(2) by (auto simp: lz_runs.simps [of payload mx st] split: if_splits)
  with "1.prems"(2) obtain r where r: "?bits = Inr r"
    by (cases ?bits) (auto simp: lz_runs.simps [of payload mx st] Let_def)
  have w: "lz_window h ?st" using "1.prems"(1) by simp
  have le: "lz_pos ?st \<le> length payload" using pos by simp
  have "lz_bits payload mx (uint ?c) [0..<0 + 8] ?st = Inr r" using r by (simp only: add_0)
  from lz_bits_reads [OF w this le, unfolded add_0] obtain ts p where
    ts: "reads_tokens payload (lz_pos ?st) (\<lambda>i. uint ?c AND push_bit i 1 \<noteq> 0) h ts p" and
    out: "case r of
       Inr st' \<Rightarrow> length ts = 8 \<and> lz_window (expand h ts) st' \<and> lz_pos st' = p
     | Inl out \<Rightarrow> length ts < 8 \<and> out = drop 207 (expand h ts) \<and> uint ?c AND push_bit (length ts) 1 \<noteq> 0 \<and>
         p + 2 \<le> length payload \<and> drop_bit 4 (be16 (payload ! p) (payload ! (p + 1))) = length (expand h ts) mod 4096"
    by blast
  have stream: "drop (lz_pos st) payload = ?c # concat (map token_bytes ts) @ drop p payload"
    using reads_tokens_split [OF ts le] pos by (simp add: Cons_nth_drop_Suc [symmetric])
  have flags: "\<forall>i < length ts. uint ?c AND push_bit i 1 \<noteq> 0 \<longleftrightarrow> is_ref (ts ! i)" "tokens_ok h ts"
    using ts by (simp_all add: reads_tokens_def)
  show ?case
  proof (cases r)
    case (Inl out')
    then have o: "out = drop 207 (expand h ts)" "length ts < 8" using "1.prems"(2) r pos out by (simp_all add: lz_runs.simps [of payload mx st] Let_def)
    have "drop p payload = [payload ! p, payload ! (p + 1)] @ drop (p + 2) payload"
      using out Inl by (simp add: Cons_nth_drop_Suc)
    then have "drop (lz_pos st) payload =
        encode_groups [] @ [?c] @ concat (map token_bytes ts) @ [payload ! p, payload ! (p + 1)] @ drop (p + 2) payload"
      unfolding stream by (simp add: encode_groups.simps [of "[]"])
    then have "stream_of (length (expand h ts) mod 4096) (drop (lz_pos st) payload) ts"
      unfolding stream_of_def using flags(1) out Inl
      by (intro exI [of _ "[]"] exI [of _ ts] exI [of _ ?c] exI [of _ "payload ! p"] exI [of _ "payload ! (p + 1)"]
          exI [of _ "drop (p + 2) payload"]) simp
    with o flags(2) show ?thesis by blast
  next
    case (Inr st')
    then have "lz_runs payload mx st' = Inr out" using "1.prems"(2) r pos
      by (simp add: lz_runs.simps [of payload mx st] Let_def)
    from "1.IH" [OF pos refl refl r Inr _ this] out Inr obtain us where us:
      "tokens_ok (expand h ts) us" "out = drop 207 (expand (expand h ts) us)"
      "stream_of (length (expand (expand h ts) us) mod 4096) (drop p payload) us" by auto
    from stream_of_group [OF us(3), of ts ?c] flags out Inr
    have "stream_of (length (expand (expand h ts) us) mod 4096) (drop (lz_pos st) payload) (ts @ us)" by (simp add: stream)
    with us flags(2) show ?thesis by (intro exI [of _ "ts @ us"]) (simp add: tokens_ok_append expand_append)
  qed
qed

text \<open>Every such stream is accepted.\<close>

lemma lz_token_stopping:
  assumes "lz_window h st" "lz_pos st = length pre" "payload = pre @ [hi, lo] @ tail"
    and "drop_bit 4 (be16 hi lo) = length h mod 4096"
  shows "lz_token payload mx True st = Inr (Inl (drop 207 h))"
proof -
  have "payload ! lz_pos st = hi" "payload ! (lz_pos st + 1) = lo" "lz_pos st + 2 \<le> length payload"
    using assms(2,3) by (simp_all add: nth_append)
  moreover have "lz_write st = length h mod 4096" using assms(1) unfolding lz_window_def by blast
  ultimately show ?thesis
    using assms(4) lz_window_output(1) [OF assms(1)] by (simp add: lz_token_def lz_reference_def)
qed

lemma lz_runs_last:
  assumes "lz_window h st" "lz_pos st = length pre" "tokens_ok h ts" "int (length (expand h ts)) \<le> 207 + mx" "length ts < 8"
    and "payload = pre @ [c] @ concat (map token_bytes ts) @ [hi, lo] @ tail"
    and "\<forall>i < length ts. uint c AND push_bit i 1 \<noteq> 0 \<longleftrightarrow> is_ref (ts ! i)" "uint c AND push_bit (length ts) 1 \<noteq> 0"
    and "drop_bit 4 (be16 hi lo) = length (expand h ts) mod 4096"
  shows "lz_runs payload mx st = Inr (drop 207 (expand h ts))"
proof -
  let ?st = "st\<lparr>lz_pos := lz_pos st + 1\<rparr>"
  have w: "lz_window h ?st" "lz_pos ?st = length (pre @ [c])" using assms(1,2) by simp_all
  have payload: "payload = (pre @ [c]) @ concat (map token_bytes ts) @ [hi, lo] @ tail" using assms(6) by simp
  have upt: "[0..<8] = [0..<0 + length ts] @ length ts # [Suc (length ts)..<8]"
    using assms(5) by (metis add_0 le_add1 less_imp_le_nat upt_add_eq_append upt_conv_Cons le_add_diff_inverse)
  have flags: "\<forall>i < length ts. uint c AND push_bit (0 + i) 1 \<noteq> 0 \<longleftrightarrow> is_ref (ts ! i)" using assms(7) by simp
  obtain st1 where st1: "lz_bits payload mx (uint c) ([0..<0 + length ts] @ length ts # [Suc (length ts)..<8]) ?st =
      lz_bits payload mx (uint c) (length ts # [Suc (length ts)..<8]) st1"
      "lz_window (expand h ts) st1" "lz_pos st1 = length ((pre @ [c]) @ concat (map token_bytes ts))"
    using lz_bits_prefix [OF w payload assms(3,4) flags] by blast
  have "payload = ((pre @ [c]) @ concat (map token_bytes ts)) @ [hi, lo] @ tail" unfolding payload by simp
  note stop = lz_token_stopping [OF st1(2,3) this assms(9), of mx]
  have "lz_bits payload mx (uint c) [0..<8] ?st = Inr (Inl (drop 207 (expand h ts)))"
    unfolding upt st1(1) lz_bits.simps using assms(8) stop by simp
  moreover have "lz_pos st < length payload" "payload ! lz_pos st = c"
    using assms(2) unfolding payload by (simp_all add: nth_append)
  ultimately show ?thesis by (simp add: lz_runs.simps [of payload mx st] Let_def)
qed

lemma lz_runs_group:
  assumes "lz_window h st" "lz_pos st = length pre" "tokens_ok h g" "int (length (expand h g)) \<le> 207 + mx" "length g = 8"
    and "payload = pre @ [c] @ concat (map token_bytes g) @ post" "c = word_of_int (control_of g)"
  obtains st' where "lz_runs payload mx st = lz_runs payload mx st'" "lz_window (expand h g) st'"
    "lz_pos st' = length (pre @ [c] @ concat (map token_bytes g))"
proof -
  let ?st = "st\<lparr>lz_pos := lz_pos st + 1\<rparr>"
  have w: "lz_window h ?st" "lz_pos ?st = length (pre @ [c])" using assms(1,2) by simp_all
  have payload: "payload = (pre @ [c]) @ concat (map token_bytes g) @ post" using assms(6) by simp
  have flags: "\<forall>i < length g. uint c AND push_bit (0 + i) 1 \<noteq> 0 \<longleftrightarrow> is_ref (g ! i)"
    using control_flag [of _ g] assms(5) unfolding assms(7) by simp
  obtain st1 where st1: "lz_bits payload mx (uint c) ([0..<0 + length g] @ []) ?st = lz_bits payload mx (uint c) [] st1"
      "lz_window (expand h g) st1" "lz_pos st1 = length ((pre @ [c]) @ concat (map token_bytes g))"
    using lz_bits_prefix [OF w payload assms(3,4) flags] by blast
  have bits: "lz_bits payload mx (uint c) [0..<8] ?st = Inr (Inr st1)" using st1(1) unfolding assms(5) by simp
  have "lz_pos st < length payload" "payload ! lz_pos st = c" using assms(2) unfolding payload by (simp_all add: nth_append)
  with bits have "lz_runs payload mx st = lz_runs payload mx st1" by (simp add: lz_runs.simps [of payload mx st] Let_def)
  with st1 that show thesis by simp
qed

lemma lz_runs_streams:
  assumes "lz_window h st" "lz_pos st = length pre" "tokens_ok h ts" "int (length (expand h ts)) \<le> 207 + mx"
    and "stream_of (length (expand h ts) mod 4096) stream ts" "payload = pre @ stream"
  shows "lz_runs payload mx st = Inr (drop 207 (expand h ts))"
proof -
  from assms(5) obtain full rest c hi lo tail where s: "ts = full @ rest" "8 dvd length full" "length rest < 8"
    "stream = encode_groups full @ [c] @ concat (map token_bytes rest) @ [hi, lo] @ tail"
    "\<forall>i < length rest. uint c AND push_bit i 1 \<noteq> 0 \<longleftrightarrow> is_ref (rest ! i)"
    "uint c AND push_bit (length rest) 1 \<noteq> 0" "drop_bit 4 (be16 hi lo) = length (expand h ts) mod 4096"
    unfolding stream_of_def by blast
  show ?thesis using assms(1-4,6) s
  proof (induction full arbitrary: h st pre ts stream rule: length_induct)
    case (1 full)
    note ok = "1.prems"(1-5) and at = "1.prems"(6-12)
    show ?case
    proof (cases "full = []")
      case True
      show ?thesis
        by (rule lz_runs_last [OF ok(1-4), where c = c and hi = hi and lo = lo and tail = tail]) (use ok(5) at True in \<open>simp_all add: encode_groups.simps [of "[]"]\<close>)
    next
      case False
      let ?g = "take 8 full" and ?full = "drop 8 full"
      define c1 where "c1 = (word_of_int (control_of ?g) :: byte)"
      have eight: "length ?g = 8" "8 dvd length ?full" "length ?full < length full"
        using False at(2) dvd_imp_le [of 8 "length full"] by (auto simp: dvd_diff_nat)
      have ts: "ts = ?g @ ?full @ rest" using at(1) by simp
      have groups: "encode_groups full = [c1] @ concat (map token_bytes ?g) @ encode_groups ?full"
        using False by (subst encode_groups.simps) (simp add: c1_def)
      let ?stream = "encode_groups ?full @ [c] @ concat (map token_bytes rest) @ [hi, lo] @ tail"
      have oks: "tokens_ok h ?g" "tokens_ok (expand h ?g) (?full @ rest)" "expand h ts = expand (expand h ?g) (?full @ rest)"
        using ok(3) unfolding ts tokens_ok_append expand_append by auto
      have mx: "int (length (expand h ?g)) \<le> 207 + mx" using ok(4) expand_length [of "expand h ?g" "?full @ rest"] oks(3) by simp
      have payload: "payload = pre @ [c1] @ concat (map token_bytes ?g) @ ?stream" using ok(5) at(4) groups by simp
      obtain st' where st': "lz_runs payload mx st = lz_runs payload mx st'" "lz_window (expand h ?g) st'"
          "lz_pos st' = length (pre @ [c1] @ concat (map token_bytes ?g))"
        using lz_runs_group [OF ok(1,2) oks(1) mx eight(1) payload c1_def] by blast
      have "lz_runs payload mx st' = Inr (drop 207 (expand (expand h ?g) (?full @ rest)))"
        by (rule "1.IH" [rule_format, OF eight(3) st'(2,3) oks(2) _ _ refl eight(2) at(3) refl _ at(6)])
          (use ok(4) oks(3) payload at(5,7) in simp_all)
      then show ?thesis unfolding st'(1) oks(3) .
    qed
  qed
qed

lemma decompress_lzfu_iff:
  assumes "0 \<le> mx"
  shows "decompress_lzfu payload mx = Inr out \<longleftrightarrow>
    (\<exists>ts. rtf_tokens_ok ts \<and> stream_of ((207 + length (rtf_text ts)) mod 4096) payload ts \<and> out = rtf_text ts \<and> len out \<le> mx)"
    (is "_ \<longleftrightarrow> ?R")
proof
  assume run: "decompress_lzfu payload mx = Inr out"
  have "len (lz_output lz_start) \<le> mx" using assms by (simp add: lz_start_def)
  with run lz_runs_within have "len out \<le> mx" by (auto simp: decompress_lzfu_def)
  moreover from lz_runs_reads [OF lz_window_start run [unfolded decompress_lzfu_def]] obtain ts where
    "tokens_ok INITIAL_DICTIONARY ts" "out = drop 207 (expand INITIAL_DICTIONARY ts)"
    "stream_of (length (expand INITIAL_DICTIONARY ts) mod 4096) (drop (lz_pos lz_start) payload) ts" by blast
  then have "rtf_tokens_ok ts" "out = rtf_text ts" "stream_of ((207 + length (rtf_text ts)) mod 4096) payload ts"
    unfolding rtf_text_length by (simp_all add: rtf_tokens_ok_def rtf_text_def lz_start_def)
  ultimately show ?R by blast
next
  assume ?R
  then obtain ts where ts: "rtf_tokens_ok ts" "stream_of ((207 + length (rtf_text ts)) mod 4096) payload ts"
    "out = rtf_text ts" "len out \<le> mx" by blast
  have "lz_runs payload mx lz_start = Inr (drop 207 (expand INITIAL_DICTIONARY ts))"
    by (rule lz_runs_streams [OF lz_window_start, of "[]"])
      (use ts rtf_text_length [of ts] in \<open>simp_all add: lz_start_def rtf_tokens_ok_def\<close>)
  with ts(3) show "decompress_lzfu payload mx = Inr out" by (simp add: decompress_lzfu_def rtf_text_def)
qed

section \<open>Properties\<close>

definition rtf_fits :: "rtf_token list \<Rightarrow> bool" where
  "rtf_fits ts \<longleftrightarrow> len (rtf_payload ts) + 12 < 256 ^ 4 \<and> len (rtf_text ts) < 256 ^ 4"

text \<open>C30: the round trip of compressed RTF: whatever sequence of literals and back references a compressor
  chose, the stream it writes, eight tokens to a control byte with the CRC and the sizes in the header,
  decompresses to the text the sequence stands for, and it does so through wrapped and self-overlapping
  references alike. The literals alone write every text.\<close>

theorem decompress_rtf_roundtrip:
  assumes "rtf_tokens_ok ts" "rtf_fits ts" "len (rtf_text ts) \<le> max_output"
  shows "decompress_rtf (rtf_pack ts) max_output = Inr (rtf_text ts)"
proof -
  have "\<not> max_output < len (rtf_text ts)" using assms(3) by simp
  then show ?thesis
    using rtf_pack_header [of ts] decompress_lzfu_payload [OF assms(1,3)] assms(2)
    by (simp add: decompress_rtf_def Let_def rtf_fits_def)
qed

text \<open>\<open>WXWXWXWX\<close>: two literals and a reference that reads its own output.\<close>

definition sample_rtf :: "rtf_token list" where
  "sample_rtf = [Lit 87, Lit 88, Ref 207 6]"

lemma decompress_rtf_roundtrip_witness:
  "decompress_rtf (rtf_pack sample_rtf) 1000 = Inr (rtf_text sample_rtf) \<and> length (rtf_text sample_rtf) = 8"
proof -
  have ok: "rtf_tokens_ok sample_rtf"
    by (simp add: rtf_tokens_ok_def sample_rtf_def INITIAL_DICTIONARY_length)
  have l: "length (rtf_text sample_rtf) = 8"
    using rtf_text_length [of sample_rtf] by (simp add: sample_rtf_def copy_back_length INITIAL_DICTIONARY_length)
  have "length (rtf_payload sample_rtf) = 7"
    by (simp add: rtf_payload_def sample_rtf_def terminator_def encode_groups.simps Let_def)
  then show ?thesis using decompress_rtf_roundtrip [of sample_rtf 1000] ok l by (simp add: rtf_fits_def)
qed

text \<open>C31: the decompressor accepts exactly the streams of the format. It returns or raises a \<open>PstError\<close> on every input, and it
  returns a text just when the header parses, its size is within the ceiling, and the body is either uncompressed and long
  enough, the text being its first bytes, or has the CRC and is the stream, tokens eight to a control byte and a
  terminator at the end, of a sequence of tokens each of which refers only to what has been written so far (no byte is read
  from the part of the dictionary never written), the text being what the sequence stands for and within the ceiling.\<close>

theorem decompress_rtf_exact:
  "fails_closed (decompress_rtf data max_output) \<and>
   (decompress_rtf data max_output = Inr out \<longleftrightarrow>
      (\<exists>h. rtf_read_header data = Inr h \<and> rh_raw_size h \<le> max_output \<and>
         (let payload = drop 16 data
          in if rh_comp_type h = RTF_UNCOMPRESSED then rh_raw_size h \<le> len payload \<and> out = slice payload 0 (rh_raw_size h)
             else compute_crc 0 payload = rh_crc h \<and> len out \<le> max_output \<and>
               (\<exists>ts. rtf_tokens_ok ts \<and> stream_of ((207 + length (rtf_text ts)) mod 4096) payload ts \<and> out = rtf_text ts))))"
proof (rule conjI [OF decompress_rtf_closed])
  have run: "decompress_rtf data max_output = Inr out \<longleftrightarrow>
      (\<exists>h. rtf_read_header data = Inr h \<and> rh_raw_size h \<le> max_output \<and>
         (let payload = drop 16 data
          in if rh_comp_type h = RTF_UNCOMPRESSED then rh_raw_size h \<le> len payload \<and> out = slice payload 0 (rh_raw_size h)
             else compute_crc 0 payload = rh_crc h \<and> decompress_lzfu payload max_output = Inr out))"
    unfolding decompress_rtf_def Let_def RTF_HEADER_SIZE_def by (auto simp: ebind_Inr_iff raise_if_Inr_iff not_less)
  have lzfu: "decompress_lzfu (drop 16 data) max_output = Inr out \<longleftrightarrow> len out \<le> max_output \<and>
      (\<exists>ts. rtf_tokens_ok ts \<and> stream_of ((207 + length (rtf_text ts)) mod 4096) (drop 16 data) ts \<and> out = rtf_text ts)"
    if "rtf_read_header data = Inr h" "rh_raw_size h \<le> max_output" for h
    using decompress_lzfu_iff [of max_output] rtf_read_header_raw [OF that(1)] that(2) by auto
  show "decompress_rtf data max_output = Inr out \<longleftrightarrow>
      (\<exists>h. rtf_read_header data = Inr h \<and> rh_raw_size h \<le> max_output \<and>
         (let payload = drop 16 data
          in if rh_comp_type h = RTF_UNCOMPRESSED then rh_raw_size h \<le> len payload \<and> out = slice payload 0 (rh_raw_size h)
             else compute_crc 0 payload = rh_crc h \<and> len out \<le> max_output \<and>
               (\<exists>ts. rtf_tokens_ok ts \<and> stream_of ((207 + length (rtf_text ts)) mod 4096) payload ts \<and> out = rtf_text ts)))"
    unfolding run Let_def using lzfu by (intro ex_cong1 conj_cong refl if_cong) blast+
qed

end
