(* ===== verification/Pst_Message.thy ===== *)
theory Pst_Message
  imports Pst_Folder Pst_Rtf
begin

text \<open>
  \<open>src/pypstreader/messaging/message.py\<close>, and what \<open>messaging/store.py\<close> and \<open>messaging/folder.py\<close> open
  messages with: a message is the property context of its node and its sub-node tree, in which the recipient
  and attachment tables are found by type. Its attachments are opened in \<open>Pst_Attachment\<close>.
\<close>

section \<open>Property ids\<close>

definition PID_TAG_MESSAGE_CLASS :: int where "PID_TAG_MESSAGE_CLASS = 0x001A"
definition PID_TAG_SUBJECT :: int where "PID_TAG_SUBJECT = 0x0037"
definition PID_TAG_CLIENT_SUBMIT_TIME :: int where "PID_TAG_CLIENT_SUBMIT_TIME = 0x0039"
definition PID_TAG_TRANSPORT_MESSAGE_HEADERS :: int where "PID_TAG_TRANSPORT_MESSAGE_HEADERS = 0x007D"
definition PID_TAG_RECIPIENT_TYPE :: int where "PID_TAG_RECIPIENT_TYPE = 0x0C15"
definition PID_TAG_SENDER_NAME :: int where "PID_TAG_SENDER_NAME = 0x0C1A"
definition PID_TAG_SENDER_EMAIL_ADDRESS :: int where "PID_TAG_SENDER_EMAIL_ADDRESS = 0x0C1F"
definition PID_TAG_MESSAGE_DELIVERY_TIME :: int where "PID_TAG_MESSAGE_DELIVERY_TIME = 0x0E06"
definition PID_TAG_MESSAGE_FLAGS :: int where "PID_TAG_MESSAGE_FLAGS = 0x0E07"
definition PID_TAG_MESSAGE_SIZE :: int where "PID_TAG_MESSAGE_SIZE = 0x0E08"
definition PID_TAG_NORMALIZED_SUBJECT :: int where "PID_TAG_NORMALIZED_SUBJECT = 0x0E1D"
definition PID_TAG_MESSAGE_STATUS :: int where "PID_TAG_MESSAGE_STATUS = 0x0E17"
definition PID_TAG_BODY :: int where "PID_TAG_BODY = 0x1000"
definition PID_TAG_RTF_COMPRESSED :: int where "PID_TAG_RTF_COMPRESSED = 0x1009"
definition PID_TAG_HTML :: int where "PID_TAG_HTML = 0x1013"
definition PID_TAG_EMAIL_ADDRESS :: int where "PID_TAG_EMAIL_ADDRESS = 0x3003"
definition PID_TAG_CREATION_TIME :: int where "PID_TAG_CREATION_TIME = 0x3007"
definition PID_TAG_LAST_MODIFICATION_TIME :: int where "PID_TAG_LAST_MODIFICATION_TIME = 0x3008"
definition PID_TAG_SEARCH_KEY :: int where "PID_TAG_SEARCH_KEY = 0x300B"
definition PID_TAG_SMTP_ADDRESS :: int where "PID_TAG_SMTP_ADDRESS = 0x39FE"
definition PID_TAG_SENDER_SMTP_ADDRESS :: int where "PID_TAG_SENDER_SMTP_ADDRESS = 0x5D01"

definition MESSAGE_NODE_TYPES :: "node_id_type list" where
  "MESSAGE_NODE_TYPES = [NT_NORMAL_MESSAGE, NT_ASSOC_MESSAGE, NT_ATTACHMENT]"

section \<open>The subject's prefix\<close>

definition SUBJECT_PREFIX_MARKER :: int where "SUBJECT_PREFIX_MARKER = 1"

definition split_subject :: "ustring \<Rightarrow> (ustring \<times> ustring) result" where
  "split_subject raw =
     (if take 1 raw \<noteq> [SUBJECT_PREFIX_MARKER] then Inr ([], raw)
      else
        ebind (raise_if (len raw < 2) PstFormatError) (\<lambda>_.
        let prefix_len = raw ! 1 - 1;
            body = drop 2 raw in
        ebind (raise_if (prefix_len < 0) PstFormatError) (\<lambda>_.
        ebind (raise_if (prefix_len > len body) PstFormatError) (\<lambda>_.
        Inr (take (nat prefix_len) body, drop (nat prefix_len) body)))))"

text \<open>The form a writer gives a subject with a prefix.\<close>

definition pack_subject :: "ustring \<Rightarrow> ustring \<Rightarrow> ustring" where
  "pack_subject prefix normalized = [SUBJECT_PREFIX_MARKER, len prefix + 1] @ prefix @ normalized"

section \<open>Recipients\<close>

datatype recipient_type = RT_ORIGINATOR | RT_TO | RT_CC | RT_BCC

fun recipient_type_value :: "recipient_type \<Rightarrow> int" where
  "recipient_type_value RT_ORIGINATOR = 0"
| "recipient_type_value RT_TO = 1"
| "recipient_type_value RT_CC = 2"
| "recipient_type_value RT_BCC = 3"

definition recipient_types :: "recipient_type list" where
  "recipient_types = [RT_ORIGINATOR, RT_TO, RT_CC, RT_BCC]"

datatype recipient_kind = Named recipient_type | Unnamed int

record recipient =
  rc_type :: recipient_kind
  rc_name :: "ustring option"
  rc_email :: "ustring option"
  rc_smtp :: "ustring option"
  rc_properties :: "(int \<times> prop_value) list"

definition recipient_kind_of :: "prop_value \<Rightarrow> recipient_kind result" where
  "recipient_kind_of kind =
     (case kind of
        VNull \<Rightarrow> Inr (Named RT_ORIGINATOR)
      | VInt i \<Rightarrow>
          Inr (case enum_of recipient_type_value recipient_types i of Inl _ \<Rightarrow> Unnamed i | Inr t \<Rightarrow> Named t)
      | _ \<Rightarrow> Inl PstFormatError)"

definition row_text :: "table_row \<Rightarrow> int \<Rightarrow> ustring option result" where
  "row_text row prop_id =
     (case TableRow_get row prop_id VNull of
        VNull \<Rightarrow> Inr None
      | VStr s \<Rightarrow> Inr (Some s)
      | _ \<Rightarrow> Inl PstFormatError)"

definition recipient_from_row :: "table_row \<Rightarrow> recipient result" where
  "recipient_from_row row =
     ebind (recipient_kind_of (TableRow_get row PID_TAG_RECIPIENT_TYPE VNull)) (\<lambda>kind.
     ebind (row_text row PID_TAG_DISPLAY_NAME) (\<lambda>name.
     ebind (row_text row PID_TAG_EMAIL_ADDRESS) (\<lambda>email.
     ebind (row_text row PID_TAG_SMTP_ADDRESS) (\<lambda>smtp.
     Inr \<lparr>rc_type = kind, rc_name = name, rc_email = email, rc_smtp = smtp, rc_properties = tr_cells row\<rparr>))))"

definition Recipient_get :: "recipient \<Rightarrow> int \<Rightarrow> prop_value" where
  "Recipient_get r prop_id = (case map_of (rc_properties r) prop_id of None \<Rightarrow> VNull | Some v \<Rightarrow> v)"

section \<open>Messages\<close>

text \<open>The entry of the node is its data and its sub-node block, from the node B-tree or a sub-node tree.\<close>

record message =
  ms_store :: store
  ms_node :: node_id
  ms_parent :: "folder option"
  ms_depth :: int
  ms_entry :: "block_id \<times> block_id option"
  ms_properties :: property_context
  ms_sub_nodes :: subnodes

record message_state =
  mss_properties :: pc_state
  mss_tables :: tables

definition on_message_properties :: "(pc_state, 'a) st \<Rightarrow> (message_state, 'a) st" where
  "on_message_properties = szoom mss_properties (\<lambda>p s. s\<lparr>mss_properties := p\<rparr>)"

definition on_message_tables :: "(tables, 'a) st \<Rightarrow> (message_state, 'a) st" where
  "on_message_tables = szoom mss_tables (\<lambda>ts s. s\<lparr>mss_tables := ts\<rparr>)"

definition message_entry :: "store \<Rightarrow> node_id \<Rightarrow> sub_node_leaf_entry option \<Rightarrow> (block_id \<times> block_id option) result" where
  "message_entry so node entry =
     (case entry of
        None \<Rightarrow> ebind (node_lookup (so_nbt so) (nid_raw node)) (\<lambda>e. Inr (nbe_data e, nbe_sub_node e))
      | Some e \<Rightarrow> Inr (sl_data e, sl_sub_node e))"

definition Message ::
  "store \<Rightarrow> node_id \<Rightarrow> sub_node_leaf_entry option \<Rightarrow> folder option \<Rightarrow> int \<Rightarrow> (message \<times> message_state) result" where
  "Message so node entry parent depth =
     ebind (NodeId_id_type node) (\<lambda>node_type.
     ebind (raise_if (node_type \<notin> set MESSAGE_NODE_TYPES) PstFormatError) (\<lambda>_.
     ebind (message_entry so node entry) (\<lambda>e.
     ebind (PropertyContext_from_node (so_reader so) (fst e) (snd e) (Some (so_limits so)) (so_codepage so)) (\<lambda>(pc, s).
     case snd e of
       None \<Rightarrow> Inl PstFormatError
     | Some sub_node \<Rightarrow>
         ebind (read_subnode_tree (so_reader so) sub_node) (\<lambda>sub_nodes.
         Inr (\<lparr>ms_store = so, ms_node = node, ms_parent = parent, ms_depth = depth, ms_entry = e,
               ms_properties = pc, ms_sub_nodes = sub_nodes\<rparr>,
              \<lparr>mss_properties = s, mss_tables = []\<rparr>))))))"

definition Message_open :: "store \<Rightarrow> entry_or_node \<Rightarrow> folder option \<Rightarrow> (pc_state, message \<times> message_state) st" where
  "Message_open so entry parent = sbind (own_node so entry) (\<lambda>node. slift (Message so node None parent 0))"

definition Store_open_message :: "store \<Rightarrow> entry_or_node \<Rightarrow> folder option \<Rightarrow> (pc_state, message \<times> message_state) st" where
  "Store_open_message so entry parent = Message_open so entry parent"

text \<open>\<open>Folder.messages\<close> and \<open>Folder.associated\<close>, as the loops they drive.\<close>

definition open_messages :: "folder \<Rightarrow> ('a \<Rightarrow> message \<times> message_state \<Rightarrow> 'a result) \<Rightarrow> 'a \<Rightarrow> node_id list \<Rightarrow> 'a result" where
  "open_messages fo body acc ids =
     efold (\<lambda>acc node. ebind (Message (fo_store fo) node None (Some fo) 0) (body acc)) acc ids"

definition Folder_messages ::
  "folder \<Rightarrow> ('a \<Rightarrow> message \<times> message_state \<Rightarrow> 'a result) \<Rightarrow> 'a \<Rightarrow> (folder_state, 'a) st" where
  "Folder_messages fo body acc = sbind (Folder_message_ids fo) (\<lambda>ids. slift (open_messages fo body acc ids))"

definition Folder_associated ::
  "folder \<Rightarrow> ('a \<Rightarrow> message \<times> message_state \<Rightarrow> 'a result) \<Rightarrow> 'a \<Rightarrow> (folder_state, 'a) st" where
  "Folder_associated fo body acc = sbind (Folder_associated_ids fo) (\<lambda>ids. slift (open_messages fo body acc ids))"

definition Message_entry_id :: "message \<Rightarrow> (pc_state, entry_id) st" where
  "Message_entry_id me = Store_entry_id (ms_store me) (ms_node me)"

definition Message_get :: "message \<Rightarrow> int \<Rightarrow> (message_state, prop_value) st" where
  "Message_get me prop_id = on_message_properties (PropertyContext_get (ms_properties me) prop_id)"

section \<open>The typed accessors\<close>

text \<open>\<open>_record\<close>, then \<open>read\<close>: nothing, for a property that is absent or null. The attachments read theirs the same
  way, so the four helpers take the context.\<close>

definition live_record :: "property_context \<Rightarrow> int \<Rightarrow> (pc_state, property_record option) st" where
  "live_record pc prop_id =
     sbind (pc_record pc prop_id) (\<lambda>record.
     sret (case record of None \<Rightarrow> None | Some r \<Rightarrow> if PropertyRecord_is_null r then None else Some r))"

definition text_property :: "property_context \<Rightarrow> int \<Rightarrow> (pc_state, ustring option) st" where
  "text_property pc prop_id =
     sbind (live_record pc prop_id) (\<lambda>record.
     case record of
       None \<Rightarrow> sret None
     | Some r \<Rightarrow>
         sbind (PropertyContext_read pc r) (\<lambda>v. case v of VStr s \<Rightarrow> sret (Some s) | _ \<Rightarrow> slift (Inl PstFormatError)))"

definition int32_property :: "property_context \<Rightarrow> int \<Rightarrow> (pc_state, int) st" where
  "int32_property pc prop_id =
     sbind (live_record pc prop_id) (\<lambda>record.
     case record of
       None \<Rightarrow> slift (Inl PstFormatError)
     | Some r \<Rightarrow>
         sbind (PropertyContext_read pc r) (\<lambda>v. case v of VInt i \<Rightarrow> sret i | _ \<Rightarrow> slift (Inl PstFormatError)))"

definition binary_property :: "property_context \<Rightarrow> int \<Rightarrow> (pc_state, bytes option) st" where
  "binary_property pc prop_id =
     sbind (live_record pc prop_id) (\<lambda>record.
     case record of
       None \<Rightarrow> sret None
     | Some r \<Rightarrow>
         sbind (PropertyContext_read pc r) (\<lambda>v. case v of VBytes b \<Rightarrow> sret (Some b) | _ \<Rightarrow> slift (Inl PstFormatError)))"

definition Message_record :: "message \<Rightarrow> int \<Rightarrow> (message_state, property_record option) st" where
  "Message_record me prop_id = on_message_properties (live_record (ms_properties me) prop_id)"

definition Message_text :: "message \<Rightarrow> int \<Rightarrow> (message_state, ustring option) st" where
  "Message_text me prop_id = on_message_properties (text_property (ms_properties me) prop_id)"

definition Message_int32 :: "message \<Rightarrow> int \<Rightarrow> (message_state, int) st" where
  "Message_int32 me prop_id = on_message_properties (int32_property (ms_properties me) prop_id)"

text \<open>The ticks, from the heap or from the sub-node the HNID names.\<close>

definition filetime_property :: "property_context \<Rightarrow> int \<Rightarrow> (pc_state, int option) st" where
  "filetime_property pc prop_id =
     sbind (live_record pc prop_id) (\<lambda>record.
     case record of
       None \<Rightarrow> sret None
     | Some r \<Rightarrow>
         if pr_type r \<noteq> T_SYSTIME then slift (Inl PstFormatError)
         else
           sbind (slift (PropertyRecord_hnid r)) (\<lambda>hnid.
           sbind (case hnid of None \<Rightarrow> sret [] | Some h \<Rightarrow> on_heap (HeapNode_get_hnid (pc_heap pc) h)) (\<lambda>raw.
           sbind (slift (raise_if (len raw \<noteq> 8) PstFormatError)) (\<lambda>_.
           sret (Some (le_sint raw))))))"

definition Message_filetime :: "message \<Rightarrow> int \<Rightarrow> (message_state, int option) st" where
  "Message_filetime me prop_id = on_message_properties (filetime_property (ms_properties me) prop_id)"

definition Message_time :: "message \<Rightarrow> int \<Rightarrow> (message_state, py_datetime option) st" where
  "Message_time me prop_id =
     sbind (Message_filetime me prop_id) (\<lambda>ticks.
     case ticks of
       None \<Rightarrow> sret None
     | Some t \<Rightarrow> sbind (slift (filetime_to_datetime t)) (\<lambda>dt. sret (Some dt)))"

definition Message_message_class :: "message \<Rightarrow> (message_state, ustring) st" where
  "Message_message_class me =
     sbind (Message_text me PID_TAG_MESSAGE_CLASS) (\<lambda>v.
     case v of None \<Rightarrow> slift (Inl PstFormatError) | Some s \<Rightarrow> sret s)"

definition Message_subject_raw :: "message \<Rightarrow> (message_state, ustring option) st" where
  "Message_subject_raw me = Message_text me PID_TAG_SUBJECT"

definition on_subject :: "(ustring \<times> ustring \<Rightarrow> ustring) \<Rightarrow> ustring option \<Rightarrow> ustring option result" where
  "on_subject f raw =
     (case raw of None \<Rightarrow> Inr None | Some s \<Rightarrow> ebind (split_subject s) (\<lambda>parts. Inr (Some (f parts))))"

definition Message_subject :: "message \<Rightarrow> (message_state, ustring option) st" where
  "Message_subject me =
     sbind (Message_subject_raw me) (\<lambda>raw. slift (on_subject (\<lambda>(prefix, normalized). prefix @ normalized) raw))"

definition Message_subject_prefix :: "message \<Rightarrow> (message_state, ustring option) st" where
  "Message_subject_prefix me = sbind (Message_subject_raw me) (\<lambda>raw. slift (on_subject fst raw))"

definition Message_normalized_subject :: "message \<Rightarrow> (message_state, ustring option) st" where
  "Message_normalized_subject me =
     sbind (Message_text me PID_TAG_NORMALIZED_SUBJECT) (\<lambda>stored.
     case stored of
       Some s \<Rightarrow> sret (Some s)
     | None \<Rightarrow> sbind (Message_subject_raw me) (\<lambda>raw. slift (on_subject snd raw)))"

definition Message_sender_name :: "message \<Rightarrow> (message_state, ustring option) st" where
  "Message_sender_name me = Message_text me PID_TAG_SENDER_NAME"

definition Message_sender_email :: "message \<Rightarrow> (message_state, ustring option) st" where
  "Message_sender_email me = Message_text me PID_TAG_SENDER_EMAIL_ADDRESS"

definition Message_sender_smtp :: "message \<Rightarrow> (message_state, ustring option) st" where
  "Message_sender_smtp me = Message_text me PID_TAG_SENDER_SMTP_ADDRESS"

definition Message_delivery_filetime :: "message \<Rightarrow> (message_state, int option) st" where
  "Message_delivery_filetime me = Message_filetime me PID_TAG_MESSAGE_DELIVERY_TIME"

definition Message_delivery_time :: "message \<Rightarrow> (message_state, py_datetime option) st" where
  "Message_delivery_time me = Message_time me PID_TAG_MESSAGE_DELIVERY_TIME"

definition Message_client_submit_filetime :: "message \<Rightarrow> (message_state, int option) st" where
  "Message_client_submit_filetime me = Message_filetime me PID_TAG_CLIENT_SUBMIT_TIME"

definition Message_client_submit_time :: "message \<Rightarrow> (message_state, py_datetime option) st" where
  "Message_client_submit_time me = Message_time me PID_TAG_CLIENT_SUBMIT_TIME"

definition Message_creation_time :: "message \<Rightarrow> (message_state, py_datetime option) st" where
  "Message_creation_time me = Message_time me PID_TAG_CREATION_TIME"

definition Message_last_modification_time :: "message \<Rightarrow> (message_state, py_datetime option) st" where
  "Message_last_modification_time me = Message_time me PID_TAG_LAST_MODIFICATION_TIME"

definition Message_message_flags :: "message \<Rightarrow> (message_state, int) st" where
  "Message_message_flags me = Message_int32 me PID_TAG_MESSAGE_FLAGS"

definition Message_message_size :: "message \<Rightarrow> (message_state, int) st" where
  "Message_message_size me = Message_int32 me PID_TAG_MESSAGE_SIZE"

definition Message_message_status :: "message \<Rightarrow> (message_state, int) st" where
  "Message_message_status me = Message_int32 me PID_TAG_MESSAGE_STATUS"

definition Message_search_key :: "message \<Rightarrow> (message_state, bytes) st" where
  "Message_search_key me =
     sbind (on_message_properties (binary_property (ms_properties me) PID_TAG_SEARCH_KEY)) (\<lambda>v.
     case v of None \<Rightarrow> slift (Inl PstFormatError) | Some b \<Rightarrow> sret b)"

section \<open>The bodies\<close>

text \<open>\<open>str.encode("utf-8")\<close>, which refuses a surrogate.\<close>

definition utf8_char :: "int \<Rightarrow> bytes result" where
  "utf8_char c =
     (if c < 0x80 then Inr [word_of_int c]
      else if c < 0x800 then Inr [word_of_int (0xC0 + c div 64), word_of_int (0x80 + c mod 64)]
      else if 0xD800 \<le> c \<and> c < 0xE000 then Inl UnicodeError
      else if c < 0x10000 then
        Inr [word_of_int (0xE0 + c div 4096), word_of_int (0x80 + c div 64 mod 64), word_of_int (0x80 + c mod 64)]
      else
        Inr [word_of_int (0xF0 + c div 262144), word_of_int (0x80 + c div 4096 mod 64),
             word_of_int (0x80 + c div 64 mod 64), word_of_int (0x80 + c mod 64)])"

definition utf8_encode :: "ustring \<Rightarrow> bytes result" where
  "utf8_encode s = ebind (emap utf8_char s) (\<lambda>bs. Inr (concat bs))"

definition Message_body_text :: "message \<Rightarrow> (message_state, ustring option) st" where
  "Message_body_text me = Message_text me PID_TAG_BODY"

definition html_property :: "property_context \<Rightarrow> (pc_state, bytes option) st" where
  "html_property pc =
     sbind (live_record pc PID_TAG_HTML) (\<lambda>record.
     case record of
       None \<Rightarrow> sret None
     | Some r \<Rightarrow>
         sbind (PropertyContext_read pc r) (\<lambda>v.
         case v of
           VBytes b \<Rightarrow> sret (Some b)
         | VStr s \<Rightarrow> sbind (slift (utf8_encode s)) (\<lambda>b. sret (Some b))
         | _ \<Rightarrow> slift (Inl PstFormatError)))"

definition Message_body_html :: "message \<Rightarrow> (message_state, bytes option) st" where
  "Message_body_html me = on_message_properties (html_property (ms_properties me))"

definition Message_body_rtf :: "message \<Rightarrow> (message_state, bytes option) st" where
  "Message_body_rtf me = on_message_properties (binary_property (ms_properties me) PID_TAG_RTF_COMPRESSED)"

definition Message_body_rtf_decompressed :: "message \<Rightarrow> (message_state, bytes option) st" where
  "Message_body_rtf_decompressed me =
     sbind (Message_body_rtf me) (\<lambda>data.
     case data of
       None \<Rightarrow> sret None
     | Some d \<Rightarrow>
         sbind (slift (decompress_rtf d (max_allocation (so_limits (ms_store me))))) (\<lambda>out.
         sret (Some (takeWhile (\<lambda>b. b \<noteq> 0) out))))"

definition Message_transport_headers :: "message \<Rightarrow> (message_state, ustring option) st" where
  "Message_transport_headers me = Message_text me PID_TAG_TRANSPORT_MESSAGE_HEADERS"

section \<open>The sub-node tables\<close>

text \<open>The entries whose node id is of the type; an unknown type is of none.\<close>

definition sub_nodes_of_type :: "subnodes \<Rightarrow> node_id_type \<Rightarrow> sub_node_leaf_entry list" where
  "sub_nodes_of_type sub_nodes node_type =
     map snd (filter (\<lambda>(nid, e). NodeId_id_type nid = Inr node_type) sub_nodes)"

definition Message_open_table :: "message \<Rightarrow> node_id_type \<Rightarrow> opened_table option result" where
  "Message_open_table me node_type =
     (let entries = sub_nodes_of_type (ms_sub_nodes me) node_type in
      ebind (raise_if (length entries > 1) PstFormatError) (\<lambda>_.
      case entries of
        [] \<Rightarrow> Inr None
      | e # _ \<Rightarrow>
          ebind (TableContext_from_node (so_reader (ms_store me)) (sl_data e) (sl_sub_node e)
            (Some (so_limits (ms_store me))) (so_codepage (ms_store me))) (\<lambda>table. Inr (Some table))))"

definition Message_sub_node_table :: "message \<Rightarrow> node_id_type \<Rightarrow> (message_state, table_context option) st" where
  "Message_sub_node_table me node_type = on_message_tables (memo_table (Message_open_table me) node_type)"

definition Message_recipient_table :: "message \<Rightarrow> (message_state, table_context option) st" where
  "Message_recipient_table me = Message_sub_node_table me NT_RECIPIENT_TABLE"

definition Message_attachment_table :: "message \<Rightarrow> (message_state, table_context option) st" where
  "Message_attachment_table me = Message_sub_node_table me NT_ATTACHMENT_TABLE"

text \<open>\<open>recipients\<close>, as the loop it drives; the rows are counted from one.\<close>

definition recipient_step ::
  "int \<Rightarrow> ('a \<Rightarrow> recipient \<Rightarrow> 'a result) \<Rightarrow> int \<times> 'a \<Rightarrow> table_row \<Rightarrow> (int \<times> 'a) result" where
  "recipient_step ceiling body = (\<lambda>(index, acc) row.
     ebind (check_count index ceiling) (\<lambda>_.
     ebind (recipient_from_row row) (\<lambda>r.
     ebind (body acc r) (\<lambda>acc'. Inr (index + 1, acc')))))"

definition Message_recipients ::
  "message \<Rightarrow> ('a \<Rightarrow> recipient \<Rightarrow> 'a result) \<Rightarrow> 'a \<Rightarrow> (message_state, 'a) st" where
  "Message_recipients me body acc =
     sbind (on_message_tables (table_rows (Message_open_table me) NT_RECIPIENT_TABLE
       (recipient_step (max_recipients (so_limits (ms_store me))) body) (1, acc))) (\<lambda>(index, acc'). sret acc')"

definition Message_attachment_ids :: "message \<Rightarrow> (message_state, node_id list) st" where
  "Message_attachment_ids me =
     on_message_tables (table_rows (Message_open_table me) NT_ATTACHMENT_TABLE
       (add_node_id (max_attachments (so_limits (ms_store me)))) [])"

definition Message_sub_node_entry :: "message \<Rightarrow> node_id \<Rightarrow> sub_node_leaf_entry result" where
  "Message_sub_node_entry me node =
     (case map_of (ms_sub_nodes me) node of None \<Rightarrow> Inl PstNotFoundError | Some e \<Rightarrow> Inr e)"

definition Message_check_embedded_depth :: "message \<Rightarrow> unit result" where
  "Message_check_embedded_depth me =
     check_depth (ms_depth me + 1) (max_embedded_message_depth (so_limits (ms_store me)))"

section \<open>A message behaves\<close>

definition message_ok :: "message \<Rightarrow> bool" where
  "message_ok me \<longleftrightarrow> store_ok (ms_store me) \<and> pc_good (ms_properties me) \<and>
     (\<exists>t. NodeId_id_type (ms_node me) = Inr t \<and> t \<in> set MESSAGE_NODE_TYPES)"

definition message_inv :: "message \<Rightarrow> message_state \<Rightarrow> bool" where
  "message_inv me s \<longleftrightarrow> pc_inv (ms_properties me) (mss_properties s) \<and> tables_inv (Message_open_table me) (mss_tables s)"

definition message_exact :: "message \<Rightarrow> bool" where
  "message_exact me \<longleftrightarrow> pc_exact (ms_properties me) \<and> tables_exact (Message_open_table me)"

lemma Message_Inr:
  assumes "Message so node entry parent depth = Inr (me, s)" "store_ok so"
  shows "message_ok me" "message_inv me s" "ms_store me = so" "ms_node me = node" "ms_depth me = depth"
proof -
  from assms(1) obtain t pc p e sub_node sub_nodes where t: "NodeId_id_type node = Inr t" "t \<in> set MESSAGE_NODE_TYPES"
    and pc: "PropertyContext_from_node (so_reader so) (fst e) (snd e) (Some (so_limits so)) (so_codepage so) = Inr (pc, p)"
    and me: "me = \<lparr>ms_store = so, ms_node = node, ms_parent = parent, ms_depth = depth, ms_entry = e,
               ms_properties = pc, ms_sub_nodes = sub_nodes\<rparr>" "s = \<lparr>mss_properties = p, mss_tables = []\<rparr>"
    by (auto simp: Message_def ebind_Inr_iff raise_if_Inr_iff split: option.splits)
  have "pc_good pc \<and> pc_inv pc p" using PropertyContext_from_node_good [OF pc] assms(2) by (simp add: store_ok_def)
  with t assms(2) show "message_ok me" "message_inv me s" "ms_store me = so" "ms_node me = node" "ms_depth me = depth"
    by (auto simp: me message_ok_def message_inv_def)
qed

lemma Message_closed [simp, intro]: "store_ok so \<Longrightarrow> fails_closed (Message so node entry parent depth)"
  unfolding Message_def message_entry_def store_ok_def case_prod_beta
  by (intro fails_closed_ebind PropertyContext_from_node_closed)
    (auto split: option.split intro!: fails_closed_ebind node_lookup_closed)

interpretation message_tables: table_source message_ok Message_open_table
proof
  fix me t
  assume "message_ok me"
  then have rd: "reader_ok (so_reader (ms_store me))" by (simp add: message_ok_def store_ok_def)
  show "fails_closed (Message_open_table me t)"
    unfolding Message_open_table_def Let_def using rd
    by (intro fails_closed_ebind) (auto split: list.split intro!: fails_closed_ebind)
  show "tc_ok tc \<and> tc_inv tc s \<and> heap_ok (tc_heap tc)" if "Message_open_table me t = Inr (Some (tc, s))" for tc s
  proof -
    from that obtain e :: sub_node_leaf_entry where "TableContext_from_node (so_reader (ms_store me)) (sl_data e) (sl_sub_node e)
        (Some (so_limits (ms_store me))) (so_codepage (ms_store me)) = Inr (tc, s)"
      by (cases "sub_nodes_of_type (ms_sub_nodes me) t") (auto simp: Message_open_table_def ebind_Inr_iff)
    from TableContext_from_node_Inr [OF this] rd show ?thesis by blast
  qed
qed

lemma on_message_properties_behaves:
  "behaves (pc_inv (ms_properties me)) (pc_exact (ms_properties me)) E m \<Longrightarrow> (\<And>e. E e \<Longrightarrow> E' e) \<Longrightarrow>
   behaves (message_inv me) (message_exact me) E' (on_message_properties m)"
  unfolding on_message_properties_def by (erule behaves_szoom) (auto simp: message_inv_def message_exact_def)

lemma on_message_tables_behaves:
  "behaves (tables_inv (Message_open_table me)) (tables_exact (Message_open_table me)) E m \<Longrightarrow> (\<And>e. E e \<Longrightarrow> E' e) \<Longrightarrow>
   behaves (message_inv me) (message_exact me) E' (on_message_tables m)"
  unfolding on_message_tables_def by (erule behaves_szoom) (auto simp: message_inv_def message_exact_def)

lemma live_record_behaves [intro]:
  "pc_good pc \<Longrightarrow> behaves (pc_inv pc) (pc_exact pc) is_pst_error (live_record pc i)"
  unfolding live_record_def by (intro behaves_sbind pc_record_behaves behaves_sret)

text \<open>A value of a live record, taken when it is of the kind wanted.\<close>

lemma text_property_behaves [intro]:
  "pc_good pc \<Longrightarrow> behaves (pc_inv pc) (pc_exact pc) is_pst_error (text_property pc i)"
  unfolding text_property_def
  by (intro behaves_sbind live_record_behaves)
    (auto split: option.split prop_value.split intro!: behaves_sbind behaves_sret behaves_closed_slift pc_read_behaves)

lemma int32_property_behaves [intro]:
  "pc_good pc \<Longrightarrow> behaves (pc_inv pc) (pc_exact pc) is_pst_error (int32_property pc i)"
  unfolding int32_property_def
  by (intro behaves_sbind live_record_behaves)
    (auto split: option.split prop_value.split intro!: behaves_sbind behaves_sret behaves_closed_slift pc_read_behaves)

lemma binary_property_behaves [intro]:
  "pc_good pc \<Longrightarrow> behaves (pc_inv pc) (pc_exact pc) is_pst_error (binary_property pc i)"
  unfolding binary_property_def
  by (intro behaves_sbind live_record_behaves)
    (auto split: option.split prop_value.split intro!: behaves_sbind behaves_sret behaves_closed_slift pc_read_behaves)

lemma on_heap_get_behaves:
  "pc_good pc \<Longrightarrow> behaves (pc_inv pc) (pc_exact pc) is_pst_error (on_heap (HeapNode_get_hnid (pc_heap pc) h))"
  by (rule behaves_closed [OF on_heap_implements [OF HeapNode_get_hnid_implements]]) (auto simp: pc_good_def)

lemma filetime_property_behaves [intro]:
  assumes "pc_good pc"
  shows "behaves (pc_inv pc) (pc_exact pc) is_pst_error (filetime_property pc i)"
proof -
  have hnid: "fails_closed (PropertyRecord_hnid r)" for r
    unfolding PropertyRecord_hnid_def by (intro fails_closed_if fails_closed_ebind) auto
  have raw: "behaves (pc_inv pc) (pc_exact pc) is_pst_error
      (case h of None \<Rightarrow> sret [] | Some h \<Rightarrow> on_heap (HeapNode_get_hnid (pc_heap pc) h))" for h
    using on_heap_get_behaves [OF assms] by (auto split: option.split)
  have "behaves (pc_inv pc) (pc_exact pc) is_pst_error
      (case rc of
       None \<Rightarrow> sret None
     | Some r \<Rightarrow>
         if pr_type r \<noteq> T_SYSTIME then slift (Inl PstFormatError)
         else
           sbind (slift (PropertyRecord_hnid r)) (\<lambda>hnid.
           sbind (case hnid of None \<Rightarrow> sret [] | Some h \<Rightarrow> on_heap (HeapNode_get_hnid (pc_heap pc) h)) (\<lambda>raw.
           sbind (slift (raise_if (len raw \<noteq> 8) PstFormatError)) (\<lambda>_.
           sret (Some (le_sint raw))))))" for rc
    by (cases rc) (auto intro!: behaves_sbind raw behaves_closed_slift hnid)
  then show ?thesis unfolding filetime_property_def using assms by (intro behaves_sbind live_record_behaves)
qed

lemma Message_text_behaves [intro]:
  "message_ok me \<Longrightarrow> behaves (message_inv me) (message_exact me) is_pst_error (Message_text me i)"
  unfolding Message_text_def message_ok_def by (auto intro: on_message_properties_behaves [OF text_property_behaves])

lemma Message_int32_behaves [intro]:
  "message_ok me \<Longrightarrow> behaves (message_inv me) (message_exact me) is_pst_error (Message_int32 me i)"
  unfolding Message_int32_def message_ok_def by (auto intro: on_message_properties_behaves [OF int32_property_behaves])

lemma Message_filetime_behaves [intro]:
  "message_ok me \<Longrightarrow> behaves (message_inv me) (message_exact me) is_pst_error (Message_filetime me i)"
  unfolding Message_filetime_def message_ok_def by (auto intro: on_message_properties_behaves [OF filetime_property_behaves])

lemma Message_time_behaves [intro]:
  "message_ok me \<Longrightarrow> behaves (message_inv me) (message_exact me) is_pst_error (Message_time me i)"
  unfolding Message_time_def
  by (intro behaves_sbind Message_filetime_behaves) (auto split: option.split intro!: behaves_sbind)

lemma split_subject_closed [simp, intro]: "fails_closed (split_subject raw)"
  unfolding split_subject_def Let_def by (intro fails_closed_if fails_closed_ebind) auto

lemma on_subject_closed [simp, intro]: "fails_closed (on_subject f raw)"
  unfolding on_subject_def by (auto split: option.split intro!: fails_closed_ebind)

lemma Message_subject_behaves [intro]:
  assumes "message_ok me"
  shows "behaves (message_inv me) (message_exact me) is_pst_error (Message_subject me)"
    "behaves (message_inv me) (message_exact me) is_pst_error (Message_subject_prefix me)"
    "behaves (message_inv me) (message_exact me) is_pst_error (Message_normalized_subject me)"
    "behaves (message_inv me) (message_exact me) is_pst_error (Message_message_class me)"
  unfolding Message_subject_def Message_subject_prefix_def Message_normalized_subject_def Message_subject_raw_def
    Message_message_class_def using assms
  by (auto split: option.split intro!: behaves_sbind Message_text_behaves behaves_sret behaves_closed_slift)

lemma Message_binary_behaves [intro]:
  assumes "message_ok me"
  shows "behaves (message_inv me) (message_exact me) is_pst_error (Message_search_key me)"
    "behaves (message_inv me) (message_exact me) is_pst_error (Message_body_rtf me)"
    "behaves (message_inv me) (message_exact me) is_pst_error (Message_body_rtf_decompressed me)"
proof -
  have pc: "pc_good (ms_properties me)" using assms by (simp add: message_ok_def)
  note b = on_message_properties_behaves [OF binary_property_behaves [OF pc], of is_pst_error]
  show rtf: "behaves (message_inv me) (message_exact me) is_pst_error (Message_body_rtf me)"
    unfolding Message_body_rtf_def by (rule b)
  show "behaves (message_inv me) (message_exact me) is_pst_error (Message_search_key me)"
    unfolding Message_search_key_def by (intro behaves_sbind b) (auto split: option.split)
  show "behaves (message_inv me) (message_exact me) is_pst_error (Message_body_rtf_decompressed me)"
    unfolding Message_body_rtf_decompressed_def
    by (intro behaves_sbind rtf) (auto split: option.split intro!: behaves_sbind behaves_closed_slift decompress_rtf_closed)
qed

text \<open>A string body is encoded without an exception when its code page yields no surrogate; UTF-16 never does.\<close>

definition scalar_codepage :: "codepage \<Rightarrow> bool" where
  "scalar_codepage cp \<longleftrightarrow> (\<forall>dec data s. cp = Some dec \<longrightarrow> dec data = Some s \<longrightarrow> (\<forall>c \<in> set s. is_scalar c))"

lemma decode_scalars:
  assumes "decode t data cp m = Inr (VStr s)" "scalar_codepage cp"
  shows "\<forall>c \<in> set s. is_scalar c"
proof (cases "t = T_STRING8")
  case True
  with assms show ?thesis
    by (auto simp: decode_def decode_string8_def decode_string8_bytes_def lookup_codepage_def ebind_Inr_iff Let_def
        scalar_codepage_def split: option.splits)
next
  case False
  from decode_typed [OF assms(1)] have "value_typed t (VStr s)" by simp
  then show ?thesis using False by cases auto
qed

lemma pc_read_scalars:
  assumes "pc_read pc r = Inr (VStr s)" "scalar_codepage (pc_codepage pc)"
  shows "\<forall>c \<in> set s. is_scalar c"
proof (cases "INLINE_WIDTHS (pr_type r)")
  case None
  with assms(1) obtain data where "decode (pr_type r) data (pc_codepage pc) (max_mv_items (pc_limits pc)) = Inr (VStr s)"
    by (auto simp: pc_read_def ebind_Inr_iff split: if_splits)
  then show ?thesis using assms(2) by (rule decode_scalars)
next
  case (Some width)
  have "scalar_codepage None" by (simp add: scalar_codepage_def)
  with assms(1) Some show ?thesis by (auto simp: pc_read_def dest: decode_scalars)
qed

lemma utf8_encode_closed:
  assumes "\<forall>c \<in> set s. is_scalar c"
  shows "fails_closed (utf8_encode s)"
proof -
  have "fails_closed (utf8_char c)" if "c \<in> set s" for c using assms that by (auto simp: utf8_char_def is_scalar_def)
  then show ?thesis unfolding utf8_encode_def by (intro fails_closed_ebind fails_closed_emap) auto
qed

lemma html_property_behaves:
  assumes "pc_good pc" "scalar_codepage (pc_codepage pc)"
  shows "behaves (pc_inv pc) (pc_exact pc) is_pst_error (html_property pc)"
proof -
  have "behaves (pc_inv pc) (pc_exact pc) is_pst_error
      (sbind (PropertyContext_read pc r) (\<lambda>v.
         case v of
           VBytes b \<Rightarrow> sret (Some b)
         | VStr s \<Rightarrow> sbind (slift (utf8_encode s)) (\<lambda>b. sret (Some b))
         | _ \<Rightarrow> slift (Inl PstFormatError)))" for r
  proof (rule behaves_sbind_implements [OF PropertyContext_read_implements])
    show "is_pst_error e" if "pc_read pc r = Inl e" for e
      using fails_closedD [OF pc_read_closed that] assms(1) by (simp add: pc_good_def)
    show "behaves (pc_inv pc) (pc_exact pc) is_pst_error (case v of
           VBytes b \<Rightarrow> sret (Some b)
         | VStr s \<Rightarrow> sbind (slift (utf8_encode s)) (\<lambda>b. sret (Some b))
         | _ \<Rightarrow> slift (Inl PstFormatError))" if "pc_read pc r = Inr v" for v
      using that pc_read_scalars [OF _ assms(2), of r]
      by (cases v) (auto intro!: behaves_sbind behaves_sret behaves_closed_slift utf8_encode_closed)
  qed
  then show ?thesis unfolding html_property_def using assms(1)
    by (intro behaves_sbind live_record_behaves) (auto split: option.split)
qed

lemma Message_body_html_behaves:
  "message_ok me \<Longrightarrow> scalar_codepage (pc_codepage (ms_properties me)) \<Longrightarrow>
   behaves (message_inv me) (message_exact me) is_pst_error (Message_body_html me)"
  unfolding Message_body_html_def message_ok_def by (auto intro: on_message_properties_behaves [OF html_property_behaves])

lemma Message_sub_node_table_behaves [intro]:
  "message_ok me \<Longrightarrow> behaves (message_inv me) (message_exact me) is_pst_error (Message_sub_node_table me t)"
  unfolding Message_sub_node_table_def by (rule on_message_tables_behaves [OF message_tables.memo_behaves]) auto

lemma Message_attachment_ids_behaves [intro]:
  "message_ok me \<Longrightarrow> behaves (message_inv me) (message_exact me) table_error (Message_attachment_ids me)"
  unfolding Message_attachment_ids_def
  by (rule on_message_tables_behaves [OF message_tables.rows_behaves]) (auto dest: fails_closedD [OF add_node_id_closed])

section \<open>Recipients are the rows\<close>

lemma recipient_kind_of_closed [simp, intro]: "fails_closed (recipient_kind_of v)"
  unfolding recipient_kind_of_def by (cases v) auto

lemma row_text_closed [simp, intro]: "fails_closed (row_text row i)"
  unfolding row_text_def by (auto split: prop_value.split)

lemma recipient_from_row_closed [simp, intro]: "fails_closed (recipient_from_row row)"
  unfolding recipient_from_row_def by (intro fails_closed_ebind) auto

text \<open>The list of the recipients, as the loop makes it.\<close>

abbreviation collect :: "'a list \<Rightarrow> 'a \<Rightarrow> 'a list result" where
  "collect acc x \<equiv> Inr (acc @ [x])"

lemma recipient_steps:
  "efold (recipient_step ceiling collect) (index, acc) rows = Inr (index', rs) \<longleftrightarrow>
     (\<exists>ys. emap recipient_from_row rows = Inr ys \<and> rs = acc @ ys \<and> index' = index + len rows \<and>
        (rows = [] \<or> index + len rows \<le> ceiling + 1))"
proof (induction rows arbitrary: index acc)
  case (Cons row rows)
  have "recipient_step ceiling collect (index, acc) row = Inr x \<longleftrightarrow>
      index \<le> ceiling \<and> (\<exists>r. recipient_from_row row = Inr r \<and> x = (index + 1, acc @ [r]))" for x
    by (auto simp: recipient_step_def ebind_Inr_iff check_Inr_iff)
  then have "efold (recipient_step ceiling collect) (index, acc) (row # rows) = Inr (index', rs) \<longleftrightarrow>
      index \<le> ceiling \<and> (\<exists>r. recipient_from_row row = Inr r \<and>
        efold (recipient_step ceiling collect) (index + 1, acc @ [r]) rows = Inr (index', rs))"
    by (auto simp: ebind_Inr_iff)
  also have "\<dots> \<longleftrightarrow> (\<exists>ys. emap recipient_from_row (row # rows) = Inr ys \<and> rs = acc @ ys \<and> index' = index + len (row # rows) \<and>
      index + len (row # rows) \<le> ceiling + 1)"
    unfolding Cons.IH by (cases rows) (auto simp: ebind_Inr_iff)
  finally show ?case by simp
qed auto

lemma recipient_step_error:
  assumes "\<And>a r e. body a r = Inl e \<Longrightarrow> table_error e" "recipient_step ceiling body a row = Inl e"
  shows "table_error e"
proof (cases a)
  case (Pair index acc)
  show ?thesis
  proof (cases "check_count index ceiling")
    case (Inl e')
    then show ?thesis using assms(2) Pair by (auto simp: recipient_step_def dest: fails_closedD [OF fails_closed_checks(2)])
  next
    case (Inr u)
    show ?thesis
    proof (cases "recipient_from_row row")
      case (Inl e')
      then show ?thesis using assms(2) Pair Inr
        by (auto simp: recipient_step_def dest: fails_closedD [OF recipient_from_row_closed])
    next
      case (Inr r)
      then show ?thesis using assms Pair \<open>check_count index ceiling = Inr u\<close>
        by (cases "body acc r") (auto simp: recipient_step_def)
    qed
  qed
qed

lemma Message_recipients_behaves:
  assumes "message_ok me" "\<And>a r e. body a r = Inl e \<Longrightarrow> table_error e"
  shows "behaves (message_inv me) (message_exact me) table_error (Message_recipients me body acc)"
  unfolding Message_recipients_def
proof (rule behaves_sbind)
  show "behaves (message_inv me) (message_exact me) table_error (on_message_tables
      (table_rows (Message_open_table me) NT_RECIPIENT_TABLE
         (recipient_step (max_recipients (so_limits (ms_store me))) body) (1, acc)))"
  proof (rule on_message_tables_behaves [OF message_tables.rows_behaves [OF assms(1)]])
    fix a row e
    assume e: "recipient_step (max_recipients (so_limits (ms_store me))) body a row = Inl e"
    show "table_error e" by (rule recipient_step_error [OF _ e]) (rule assms(2))
  qed
qed (auto split: prod.split)

text \<open>What the recipients of a message are: those of the one table of the sub-node tree, or none.\<close>

definition recipients_are :: "message \<Rightarrow> recipient list \<Rightarrow> bool" where
  "recipients_are me rs \<longleftrightarrow>
     sub_nodes_of_type (ms_sub_nodes me) NT_RECIPIENT_TABLE = [] \<and> rs = [] \<or>
     (\<exists>e tc s rows. sub_nodes_of_type (ms_sub_nodes me) NT_RECIPIENT_TABLE = [e] \<and>
        TableContext_from_node (so_reader (ms_store me)) (sl_data e) (sl_sub_node e)
          (Some (so_limits (ms_store me))) (so_codepage (ms_store me)) = Inr (tc, s) \<and>
        tc_row_list tc = Inr rows \<and> emap recipient_from_row rows = Inr rs \<and>
        (rows = [] \<or> len rows \<le> max_recipients (so_limits (ms_store me))))"

lemma Message_open_table_Inr_iff:
  "Message_open_table me t = Inr table \<longleftrightarrow>
     sub_nodes_of_type (ms_sub_nodes me) t = [] \<and> table = None \<or>
     (\<exists>e opened. sub_nodes_of_type (ms_sub_nodes me) t = [e] \<and> table = Some opened \<and>
        TableContext_from_node (so_reader (ms_store me)) (sl_data e) (sl_sub_node e)
          (Some (so_limits (ms_store me))) (so_codepage (ms_store me)) = Inr opened)"
  by (cases "sub_nodes_of_type (ms_sub_nodes me) t")
    (auto simp: Message_open_table_def ebind_Inr_iff raise_if_Inr_iff)

lemma Message_recipients_meaning:
  assumes "message_ok me" "message_inv me s"
  shows "fst (Message_recipients me collect [] s) =
      ebind (rows_meaning (Message_open_table me) NT_RECIPIENT_TABLE
        (recipient_step (max_recipients (so_limits (ms_store me))) collect) (1, [])) (\<lambda>(index, rs). Inr rs) \<or>
    \<not> table_exact (Message_open_table me) NT_RECIPIENT_TABLE \<and> fst (Message_recipients me collect [] s) = Inl PstLimitError"
proof -
  let ?step = "recipient_step (max_recipients (so_limits (ms_store me))) collect"
  let ?rows = "table_rows (Message_open_table me) NT_RECIPIENT_TABLE ?step (1, []) (mss_tables s)"
  have run: "fst (Message_recipients me collect [] s) = ebind (fst ?rows) (\<lambda>(index, rs). Inr rs)"
    by (cases ?rows; cases "fst ?rows")
      (auto simp: Message_recipients_def on_message_tables_def szoom_def sbind_def sret_def Let_def split: prod.splits)
  from message_tables.rows_implements [OF assms(1), of NT_RECIPIENT_TABLE ?step "(1, [])"] assms(2)
  have "fst ?rows = rows_meaning (Message_open_table me) NT_RECIPIENT_TABLE ?step (1, []) \<or>
      \<not> table_exact (Message_open_table me) NT_RECIPIENT_TABLE \<and> fst ?rows = Inl PstLimitError"
    by (simp add: implements_def message_inv_def)
  with run show ?thesis by auto
qed

lemma recipients_meaning:
  "ebind (rows_meaning (Message_open_table me) NT_RECIPIENT_TABLE
     (recipient_step (max_recipients (so_limits (ms_store me))) collect) (1, [])) (\<lambda>(index, rs). Inr rs) = Inr rs \<longleftrightarrow>
   recipients_are me rs"
proof -
  let ?step = "recipient_step (max_recipients (so_limits (ms_store me))) collect"
  have tc: "(\<exists>index. tc_rows tc ?step (1, []) = Inr (index, rs)) \<longleftrightarrow>
      (\<exists>rows. tc_row_list tc = Inr rows \<and> emap recipient_from_row rows = Inr rs \<and>
        (rows = [] \<or> len rows \<le> max_recipients (so_limits (ms_store me))))" for tc
    unfolding tc_rows_Inr_iff recipient_steps by auto
  have "(ebind (rows_meaning (Message_open_table me) NT_RECIPIENT_TABLE ?step (1, [])) (\<lambda>(index, rs). Inr rs) = Inr rs) \<longleftrightarrow>
      (\<exists>table. Message_open_table me NT_RECIPIENT_TABLE = Inr table \<and>
        (case table of None \<Rightarrow> rs = [] | Some (tc, s) \<Rightarrow> \<exists>index. tc_rows tc ?step (1, []) = Inr (index, rs)))"
  proof (cases "Message_open_table me NT_RECIPIENT_TABLE")
    case (Inr table)
    then show ?thesis by (cases table) (auto simp: rows_meaning_def ebind_Inr_iff)
  qed (simp add: rows_meaning_def)
  also have "\<dots> \<longleftrightarrow> Message_open_table me NT_RECIPIENT_TABLE = Inr None \<and> rs = [] \<or>
      (\<exists>tc s. Message_open_table me NT_RECIPIENT_TABLE = Inr (Some (tc, s)) \<and> (\<exists>index. tc_rows tc ?step (1, []) = Inr (index, rs)))"
    unfolding split_option_ex by simp
  also have "\<dots> \<longleftrightarrow> recipients_are me rs" unfolding tc recipients_are_def Message_open_table_Inr_iff by simp blast
  finally show ?thesis .
qed

lemma split_subject_Inr_iff:
  "split_subject raw = Inr (prefix, normalized) \<longleftrightarrow>
     take 1 raw \<noteq> [SUBJECT_PREFIX_MARKER] \<and> prefix = [] \<and> normalized = raw \<or> raw = pack_subject prefix normalized"
proof (cases "take 1 raw = [SUBJECT_PREFIX_MARKER]")
  case False
  then have "raw \<noteq> pack_subject prefix normalized" by (auto simp: pack_subject_def)
  with False show ?thesis by (auto simp: split_subject_def)
next
  case True
  then obtain rest where raw: "raw = SUBJECT_PREFIX_MARKER # rest" by (cases raw) auto
  show ?thesis
  proof (cases rest)
    case Nil
    then show ?thesis by (simp add: raw split_subject_def pack_subject_def raise_if_def)
  next
    case (Cons c body)
    have "split_subject raw = Inr (prefix, normalized) \<longleftrightarrow>
        1 \<le> c \<and> c - 1 \<le> len body \<and> prefix = take (nat (c - 1)) body \<and> normalized = drop (nat (c - 1)) body"
      by (auto simp: raw Cons split_subject_def Let_def ebind_Inr_iff raise_if_Inr_iff)
    also have "\<dots> \<longleftrightarrow> raw = pack_subject prefix normalized"
    proof
      assume "raw = pack_subject prefix normalized"
      then have "c = len prefix + 1" "body = prefix @ normalized" by (simp_all add: raw Cons pack_subject_def)
      then show "1 \<le> c \<and> c - 1 \<le> len body \<and> prefix = take (nat (c - 1)) body \<and> normalized = drop (nat (c - 1)) body" by simp
    qed (auto simp: raw Cons pack_subject_def)
    finally show ?thesis using True by simp
  qed
qed

section \<open>A message to try the statements on\<close>

definition sample_message :: message where
  "sample_message = \<lparr>ms_store = sample_open_store, ms_node = NodeId 0x24, ms_parent = None, ms_depth = 0,
     ms_entry = (BlockId 4, Some (BlockId 14)), ms_properties = written_pc sample_properties None, ms_sub_nodes = []\<rparr>"

definition sample_message_state :: message_state where
  "sample_message_state = \<lparr>mss_properties = pc_fresh heap_fresh, mss_tables = []\<rparr>"

lemma sample_message_ok: "message_ok sample_message" "message_inv sample_message sample_message_state"
  using written_pc_good [OF sample_properties_writable, of None "[]" None] sample_open_store_ok(1)
  by (auto simp: message_ok_def message_inv_def sample_message_def sample_message_state_def NodeId_id_type_iff
      MESSAGE_NODE_TYPES_def intro!: exI [of _ NT_NORMAL_MESSAGE])

section \<open>Properties\<close>

text \<open>C36: splitting a subject is exact. A subject without the marker is its own normalized form; one with it splits into
  a prefix and a rest just when it is what a writer makes of them, marker, length and text; and everything else is
  refused with a PstError.\<close>

theorem split_subject_exact:
  "(split_subject raw = Inr (prefix, normalized) \<longleftrightarrow>
      (if take 1 raw \<noteq> [SUBJECT_PREFIX_MARKER] then prefix = [] \<and> normalized = raw
       else raw = pack_subject prefix normalized)) \<and>
   fails_closed (split_subject raw)"
  using split_subject_Inr_iff [of raw prefix normalized] by (auto simp: pack_subject_def)

text \<open>C37: the recipients listed are those of the rows of the recipient table in matrix order, each read as a whole or
  the listing refused: none when the sub-node tree has no recipient table, and refused when it has two. The
  answer does not depend on what the message remembers, up to the limit on heap items.\<close>

theorem Message_recipients_are_rows:
  assumes "message_ok me" "message_inv me s"
  shows "(fst (Message_recipients me collect [] s) = Inr rs \<longrightarrow> recipients_are me rs) \<and>
    (table_exact (Message_open_table me) NT_RECIPIENT_TABLE \<and> recipients_are me rs \<longrightarrow>
       fst (Message_recipients me collect [] s) = Inr rs)"
  using Message_recipients_meaning [OF assms] recipients_meaning [of me rs] by auto

theorem Message_recipients_are_rows_witness:
  "fst (Message_recipients sample_message collect [] sample_message_state) = Inr []"
proof -
  have none: "sub_nodes_of_type (ms_sub_nodes sample_message) NT_RECIPIENT_TABLE = []"
    by (simp add: sub_nodes_of_type_def sample_message_def)
  then have "table_exact (Message_open_table sample_message) NT_RECIPIENT_TABLE" "recipients_are sample_message []"
    by (auto simp: table_exact_def Message_open_table_Inr_iff recipients_are_def)
  with Message_recipients_are_rows [OF sample_message_ok, of "[]"] show ?thesis by blast
qed

text \<open>Opening a message ends in a message or a PstError, and whatever has been asked of it before, its properties,
  bodies, recipients and attachment ids give the same answers, up to the limit on heap items, and raise only
  PstErrors; but for the division by zero of a table whose rows have no width, and for an HTML body held as a
  string whose code page yields surrogates.\<close>

theorem Message_total:
  assumes "store_ok so"
  shows "fails_closed (Message so node entry parent depth) \<and>
    (\<forall>me s. Message so node entry parent depth = Inr (me, s) \<longrightarrow> message_ok me \<and> message_inv me s) \<and>
    (\<forall>me. message_ok me \<longrightarrow>
       remembers (message_inv me) (message_exact me) is_pst_error (Message_subject me) \<and>
       remembers (message_inv me) (message_exact me) is_pst_error (Message_normalized_subject me) \<and>
       remembers (message_inv me) (message_exact me) is_pst_error (Message_message_class me) \<and>
       remembers (message_inv me) (message_exact me) is_pst_error (Message_delivery_time me) \<and>
       remembers (message_inv me) (message_exact me) is_pst_error (Message_message_flags me) \<and>
       remembers (message_inv me) (message_exact me) is_pst_error (Message_search_key me) \<and>
       remembers (message_inv me) (message_exact me) is_pst_error (Message_body_text me) \<and>
       remembers (message_inv me) (message_exact me) is_pst_error (Message_body_rtf_decompressed me) \<and>
       (scalar_codepage (pc_codepage (ms_properties me)) \<longrightarrow>
          remembers (message_inv me) (message_exact me) is_pst_error (Message_body_html me)) \<and>
       remembers (message_inv me) (message_exact me) table_error (Message_recipients me collect []) \<and>
       remembers (message_inv me) (message_exact me) table_error (Message_attachment_ids me))"
  using Message_closed [OF assms] Message_Inr [OF _ assms]
  by (auto intro!: behaves_remembers Message_body_html_behaves Message_recipients_behaves
      simp: Message_delivery_time_def Message_message_flags_def Message_body_text_def)

end
