(* ===== verification/Pst_Attachment.thy ===== *)
theory Pst_Attachment
  imports Pst_Message
begin

text \<open>
  \<open>src/pypstreader/messaging/attachment.py\<close>: an attachment is a sub-node of its message, with a property
  context and a sub-node tree of its own, from which an embedded message is opened. The chain of messages
  embedded in one another is bounded.
\<close>

section \<open>Methods\<close>

definition PID_TAG_ATTACH_SIZE :: int where "PID_TAG_ATTACH_SIZE = 0x0E20"
definition PID_TAG_ATTACH_DATA_BINARY :: int where "PID_TAG_ATTACH_DATA_BINARY = 0x3701"
definition PID_TAG_ATTACH_FILENAME :: int where "PID_TAG_ATTACH_FILENAME = 0x3704"
definition PID_TAG_ATTACH_METHOD :: int where "PID_TAG_ATTACH_METHOD = 0x3705"
definition PID_TAG_ATTACH_LONG_FILENAME :: int where "PID_TAG_ATTACH_LONG_FILENAME = 0x3707"
definition PID_TAG_RENDERING_POSITION :: int where "PID_TAG_RENDERING_POSITION = 0x370B"
definition PID_TAG_ATTACH_MIME_TAG :: int where "PID_TAG_ATTACH_MIME_TAG = 0x370E"
definition PID_TAG_ATTACH_LONG_PATHNAME :: int where "PID_TAG_ATTACH_LONG_PATHNAME = 0x3710"
definition PID_TAG_ATTACH_CONTENT_ID :: int where "PID_TAG_ATTACH_CONTENT_ID = 0x3712"

datatype attach_method =
    AM_NONE | AM_BY_VALUE | AM_BY_REFERENCE | AM_BY_REF_RESOLVE | AM_BY_REF_ONLY | AM_EMBEDDED_MESSAGE | AM_OLE
  | AM_BY_WEB_REFERENCE

fun attach_method_value :: "attach_method \<Rightarrow> int" where
  "attach_method_value AM_NONE = 0"
| "attach_method_value AM_BY_VALUE = 1"
| "attach_method_value AM_BY_REFERENCE = 2"
| "attach_method_value AM_BY_REF_RESOLVE = 3"
| "attach_method_value AM_BY_REF_ONLY = 4"
| "attach_method_value AM_EMBEDDED_MESSAGE = 5"
| "attach_method_value AM_OLE = 6"
| "attach_method_value AM_BY_WEB_REFERENCE = 7"

definition attach_methods :: "attach_method list" where
  "attach_methods =
     [AM_NONE, AM_BY_VALUE, AM_BY_REFERENCE, AM_BY_REF_RESOLVE, AM_BY_REF_ONLY, AM_EMBEDDED_MESSAGE, AM_OLE,
      AM_BY_WEB_REFERENCE]"

interpretation attach_method_enum: int_enum attach_method_value attach_methods
proof
  show "m \<in> set attach_methods" for m by (cases m) (simp_all add: attach_methods_def)
  show "attach_method_value m = attach_method_value m' \<Longrightarrow> m = m'" for m m'
    by (cases m) (cases m'; simp)+
qed

definition AttachMethod_from_wire :: "int \<Rightarrow> attach_method result" where
  "AttachMethod_from_wire wire =
     (case enum_of attach_method_value attach_methods wire of Inl _ \<Rightarrow> Inl PstUnsupportedError | Inr m \<Rightarrow> Inr m)"

definition AttachMethod_carries_bytes :: "attach_method \<Rightarrow> bool" where
  "AttachMethod_carries_bytes m \<longleftrightarrow> m \<in> {AM_BY_VALUE, AM_OLE}"

section \<open>Attachments\<close>

record attachment =
  at_message :: message
  at_node :: node_id
  at_entry :: sub_node_leaf_entry
  at_properties :: property_context

record attachment_state =
  ats_properties :: pc_state
  ats_sub_nodes :: "subnodes option"

definition on_attachment_properties :: "(pc_state, 'a) st \<Rightarrow> (attachment_state, 'a) st" where
  "on_attachment_properties = szoom ats_properties (\<lambda>p s. s\<lparr>ats_properties := p\<rparr>)"

definition Attachment :: "message \<Rightarrow> node_id \<Rightarrow> (attachment \<times> attachment_state) result" where
  "Attachment me node =
     ebind (NodeId_id_type node) (\<lambda>node_type.
     ebind (raise_if (node_type \<noteq> NT_ATTACHMENT) PstFormatError) (\<lambda>_.
     ebind (Message_sub_node_entry me node) (\<lambda>entry.
     let so = ms_store me in
     ebind (PropertyContext_from_node (so_reader so) (sl_data entry) (sl_sub_node entry) (Some (so_limits so))
         (so_codepage so)) (\<lambda>(pc, s).
     Inr (\<lparr>at_message = me, at_node = node, at_entry = entry, at_properties = pc\<rparr>,
          \<lparr>ats_properties = s, ats_sub_nodes = None\<rparr>)))))"

text \<open>\<open>Message.attachments\<close>, as the loop it drives.\<close>

definition Message_attachments ::
  "message \<Rightarrow> ('a \<Rightarrow> attachment \<times> attachment_state \<Rightarrow> 'a result) \<Rightarrow> 'a \<Rightarrow> (message_state, 'a) st" where
  "Message_attachments me body acc =
     sbind (Message_attachment_ids me) (\<lambda>ids.
     slift (efold (\<lambda>acc node. ebind (Attachment me node) (body acc)) acc ids))"

text \<open>The attachment's own tree, read on first use and kept.\<close>

definition attachment_tree :: "attachment \<Rightarrow> subnodes result" where
  "attachment_tree at =
     (case sl_sub_node (at_entry at) of
        None \<Rightarrow> Inr []
      | Some sub_node \<Rightarrow> read_subnode_tree (so_reader (ms_store (at_message at))) sub_node)"

definition Attachment_sub_nodes :: "attachment \<Rightarrow> (attachment_state, subnodes) st" where
  "Attachment_sub_nodes at = smemo ats_sub_nodes (\<lambda>x s. s\<lparr>ats_sub_nodes := Some x\<rparr>) (slift (attachment_tree at))"

definition Attachment_sub_node_entry :: "attachment \<Rightarrow> node_id \<Rightarrow> (attachment_state, sub_node_leaf_entry) st" where
  "Attachment_sub_node_entry at node =
     sbind (Attachment_sub_nodes at) (\<lambda>sub_nodes.
     case map_of sub_nodes node of None \<Rightarrow> slift (Inl PstNotFoundError) | Some e \<Rightarrow> sret e)"

definition Attachment_get :: "attachment \<Rightarrow> int \<Rightarrow> (attachment_state, prop_value) st" where
  "Attachment_get at prop_id = on_attachment_properties (PropertyContext_get (at_properties at) prop_id)"

definition Attachment_record :: "attachment \<Rightarrow> int \<Rightarrow> (attachment_state, property_record option) st" where
  "Attachment_record at prop_id = on_attachment_properties (live_record (at_properties at) prop_id)"

definition Attachment_text :: "attachment \<Rightarrow> int \<Rightarrow> (attachment_state, ustring option) st" where
  "Attachment_text at prop_id = on_attachment_properties (text_property (at_properties at) prop_id)"

definition Attachment_int32 :: "attachment \<Rightarrow> int \<Rightarrow> (attachment_state, int) st" where
  "Attachment_int32 at prop_id = on_attachment_properties (int32_property (at_properties at) prop_id)"

definition Attachment_method_value :: "attachment \<Rightarrow> (attachment_state, int) st" where
  "Attachment_method_value at = Attachment_int32 at PID_TAG_ATTACH_METHOD"

definition Attachment_method :: "attachment \<Rightarrow> (attachment_state, attach_method) st" where
  "Attachment_method at = sbind (Attachment_method_value at) (\<lambda>v. slift (AttachMethod_from_wire v))"

definition Attachment_size :: "attachment \<Rightarrow> (attachment_state, int) st" where
  "Attachment_size at = Attachment_int32 at PID_TAG_ATTACH_SIZE"

definition Attachment_rendering_position :: "attachment \<Rightarrow> (attachment_state, int) st" where
  "Attachment_rendering_position at = Attachment_int32 at PID_TAG_RENDERING_POSITION"

definition Attachment_filename :: "attachment \<Rightarrow> (attachment_state, ustring option) st" where
  "Attachment_filename at = Attachment_text at PID_TAG_ATTACH_FILENAME"

definition Attachment_long_filename :: "attachment \<Rightarrow> (attachment_state, ustring option) st" where
  "Attachment_long_filename at = Attachment_text at PID_TAG_ATTACH_LONG_FILENAME"

definition Attachment_pathname :: "attachment \<Rightarrow> (attachment_state, ustring option) st" where
  "Attachment_pathname at = Attachment_text at PID_TAG_ATTACH_LONG_PATHNAME"

definition Attachment_mime_tag :: "attachment \<Rightarrow> (attachment_state, ustring option) st" where
  "Attachment_mime_tag at = Attachment_text at PID_TAG_ATTACH_MIME_TAG"

definition Attachment_content_id :: "attachment \<Rightarrow> (attachment_state, ustring option) st" where
  "Attachment_content_id at = Attachment_text at PID_TAG_ATTACH_CONTENT_ID"

section \<open>What the method points at\<close>

definition Attachment_data_record :: "attachment \<Rightarrow> (attachment_state, property_record) st" where
  "Attachment_data_record at =
     sbind (Attachment_record at PID_TAG_ATTACH_DATA_BINARY) (\<lambda>record.
     case record of None \<Rightarrow> slift (Inl PstFormatError) | Some r \<Rightarrow> sret r)"

definition Attachment_object_ref :: "attachment \<Rightarrow> property_record \<Rightarrow> (attachment_state, object_ref) st" where
  "Attachment_object_ref at r =
     sbind (on_attachment_properties (PropertyContext_read (at_properties at) r)) (\<lambda>v.
     case v of VObject ref \<Rightarrow> sret ref | _ \<Rightarrow> slift (Inl PstFormatError))"

definition Attachment_data :: "attachment \<Rightarrow> (attachment_state, bytes option) st" where
  "Attachment_data at =
     sbind (Attachment_method at) (\<lambda>method.
     if \<not> AttachMethod_carries_bytes method then sret None
     else
       sbind (Attachment_data_record at) (\<lambda>r.
       if method = AM_BY_VALUE then
         sbind (on_attachment_properties (PropertyContext_read (at_properties at) r)) (\<lambda>v.
         case v of VBytes b \<Rightarrow> sret (Some b) | _ \<Rightarrow> slift (Inl PstFormatError))
       else
         sbind (Attachment_object_ref at r) (\<lambda>ref.
         sbind (Attachment_sub_node_entry at (obj_node ref)) (\<lambda>entry.
         sbind (slift (read_data (so_reader (ms_store (at_message at))) (sl_data entry))) (\<lambda>b. sret (Some b))))))"

definition Attachment_embedded_message :: "attachment \<Rightarrow> (attachment_state, (message \<times> message_state) option) st" where
  "Attachment_embedded_message at =
     sbind (Attachment_method at) (\<lambda>method.
     if method \<noteq> AM_EMBEDDED_MESSAGE then sret None
     else
       sbind (Attachment_data_record at) (\<lambda>r.
       sbind (Attachment_object_ref at r) (\<lambda>ref.
       sbind (slift (Message_check_embedded_depth (at_message at))) (\<lambda>_.
       sbind (Attachment_sub_node_entry at (obj_node ref)) (\<lambda>entry.
       sbind (slift (Message (ms_store (at_message at)) (obj_node ref) (Some entry) (ms_parent (at_message at))
         (ms_depth (at_message at) + 1))) (\<lambda>me. sret (Some me)))))))"

section \<open>An attachment behaves\<close>

definition attachment_ok :: "attachment \<Rightarrow> bool" where
  "attachment_ok at \<longleftrightarrow> message_ok (at_message at) \<and> pc_good (at_properties at)"

definition attachment_inv :: "attachment \<Rightarrow> attachment_state \<Rightarrow> bool" where
  "attachment_inv at s \<longleftrightarrow> pc_inv (at_properties at) (ats_properties s) \<and>
     (\<forall>x. ats_sub_nodes s = Some x \<longrightarrow> attachment_tree at = Inr x)"

abbreviation attachment_exact :: "attachment \<Rightarrow> bool" where
  "attachment_exact at \<equiv> pc_exact (at_properties at)"

lemma message_ok_store: "message_ok me \<Longrightarrow> store_ok (ms_store me)" "message_ok me \<Longrightarrow> reader_ok (so_reader (ms_store me))"
  by (simp_all add: message_ok_def store_ok_def)

lemma Attachment_Inr:
  assumes "Attachment me node = Inr (at, s)" "message_ok me"
  shows "attachment_ok at" "attachment_inv at s" "at_message at = me" "at_node at = node" "NodeId_id_type node = Inr NT_ATTACHMENT"
    "map_of (ms_sub_nodes me) node = Some (at_entry at)"
proof -
  from assms(1) obtain pc p e where pc: "PropertyContext_from_node (so_reader (ms_store me)) (sl_data e) (sl_sub_node e)
      (Some (so_limits (ms_store me))) (so_codepage (ms_store me)) = Inr (pc, p)"
    and e: "NodeId_id_type node = Inr NT_ATTACHMENT" "map_of (ms_sub_nodes me) node = Some e"
    and at: "at = \<lparr>at_message = me, at_node = node, at_entry = e, at_properties = pc\<rparr>"
      "s = \<lparr>ats_properties = p, ats_sub_nodes = None\<rparr>"
    by (auto simp: Attachment_def ebind_Inr_iff raise_if_Inr_iff Let_def Message_sub_node_entry_def split: option.splits)
  have "pc_good pc \<and> pc_inv pc p" using PropertyContext_from_node_good [OF pc] message_ok_store(2) [OF assms(2)] by simp
  with e assms(2) show "attachment_ok at" "attachment_inv at s" "at_message at = me" "at_node at = node"
    "NodeId_id_type node = Inr NT_ATTACHMENT" "map_of (ms_sub_nodes me) node = Some (at_entry at)"
    by (auto simp: at attachment_ok_def attachment_inv_def)
qed

lemma Attachment_closed [simp, intro]: "message_ok me \<Longrightarrow> fails_closed (Attachment me node)"
  unfolding Attachment_def Message_sub_node_entry_def Let_def case_prod_beta
  by (intro fails_closed_ebind PropertyContext_from_node_closed) (auto split: option.split dest: message_ok_store(2))

lemma on_attachment_properties_behaves:
  "behaves (pc_inv (at_properties at)) (pc_exact (at_properties at)) E m \<Longrightarrow> (\<And>e. E e \<Longrightarrow> E' e) \<Longrightarrow>
   behaves (attachment_inv at) (attachment_exact at) E' (on_attachment_properties m)"
  unfolding on_attachment_properties_def by (erule behaves_szoom) (auto simp: attachment_inv_def)

lemma attachment_tree_closed [simp, intro]: "attachment_ok at \<Longrightarrow> fails_closed (attachment_tree at)"
  unfolding attachment_tree_def attachment_ok_def by (auto split: option.split dest: message_ok_store(2))

lemma Attachment_sub_nodes_implements:
  "implements (attachment_inv at) (attachment_exact at) (Attachment_sub_nodes at) (attachment_tree at)"
  unfolding Attachment_sub_nodes_def by (rule implements_smemo) (auto simp: attachment_inv_def)

lemma Attachment_sub_node_entry_behaves [intro]:
  "attachment_ok at \<Longrightarrow> behaves (attachment_inv at) (attachment_exact at) is_pst_error (Attachment_sub_node_entry at node)"
  unfolding Attachment_sub_node_entry_def
  by (intro behaves_sbind behaves_closed [OF Attachment_sub_nodes_implements])
    (auto split: option.split intro!: behaves_sret behaves_closed_slift)

lemma Attachment_text_behaves [intro]:
  "attachment_ok at \<Longrightarrow> behaves (attachment_inv at) (attachment_exact at) is_pst_error (Attachment_text at i)"
  unfolding Attachment_text_def attachment_ok_def
  by (auto intro: on_attachment_properties_behaves [OF text_property_behaves])

lemma Attachment_int32_behaves [intro]:
  "attachment_ok at \<Longrightarrow> behaves (attachment_inv at) (attachment_exact at) is_pst_error (Attachment_int32 at i)"
  unfolding Attachment_int32_def attachment_ok_def
  by (auto intro: on_attachment_properties_behaves [OF int32_property_behaves])

lemma AttachMethod_from_wire_closed [simp, intro]: "fails_closed (AttachMethod_from_wire v)"
  by (auto simp: AttachMethod_from_wire_def split: sum.split)

lemma Attachment_method_behaves [intro]:
  "attachment_ok at \<Longrightarrow> behaves (attachment_inv at) (attachment_exact at) is_pst_error (Attachment_method at)"
  unfolding Attachment_method_def Attachment_method_value_def
  by (intro behaves_sbind Attachment_int32_behaves behaves_closed_slift) auto

lemma Attachment_data_record_behaves [intro]:
  "attachment_ok at \<Longrightarrow> behaves (attachment_inv at) (attachment_exact at) is_pst_error (Attachment_data_record at)"
  unfolding Attachment_data_record_def Attachment_record_def attachment_ok_def
  by (intro behaves_sbind on_attachment_properties_behaves [OF live_record_behaves])
    (auto split: option.split intro!: behaves_sret behaves_closed_slift)

lemma Attachment_read_behaves:
  "attachment_ok at \<Longrightarrow> behaves (attachment_inv at) (attachment_exact at) is_pst_error
     (on_attachment_properties (PropertyContext_read (at_properties at) r))"
  unfolding attachment_ok_def by (intro on_attachment_properties_behaves [OF pc_read_behaves]) auto

lemma Attachment_object_ref_behaves [intro]:
  "attachment_ok at \<Longrightarrow> behaves (attachment_inv at) (attachment_exact at) is_pst_error (Attachment_object_ref at r)"
  unfolding Attachment_object_ref_def
  by (intro behaves_sbind Attachment_read_behaves)
    (auto split: prop_value.split intro!: behaves_sret behaves_closed_slift)

lemma Attachment_data_behaves [intro]:
  assumes "attachment_ok at"
  shows "behaves (attachment_inv at) (attachment_exact at) is_pst_error (Attachment_data at)"
proof -
  have rd: "reader_ok (so_reader (ms_store (at_message at)))" using assms by (simp add: attachment_ok_def message_ok_store)
  show ?thesis
    unfolding Attachment_data_def using assms rd
    by (intro behaves_sbind behaves_if Attachment_method_behaves Attachment_data_record_behaves Attachment_read_behaves
        Attachment_object_ref_behaves Attachment_sub_node_entry_behaves)
      (auto split: prop_value.split intro!: behaves_sret behaves_closed_slift)
qed

lemma Attachment_embedded_message_behaves [intro]:
  assumes "attachment_ok at"
  shows "behaves (attachment_inv at) (attachment_exact at) is_pst_error (Attachment_embedded_message at)"
proof -
  have so: "store_ok (ms_store (at_message at))" using assms by (simp add: attachment_ok_def message_ok_store)
  show ?thesis
    unfolding Attachment_embedded_message_def Message_check_embedded_depth_def using assms so
    by (intro behaves_sbind behaves_if Attachment_method_behaves Attachment_data_record_behaves
        Attachment_object_ref_behaves Attachment_sub_node_entry_behaves)
      (auto intro!: behaves_sret behaves_closed_slift)
qed

section \<open>Messages embedded in messages\<close>

text \<open>A chain: each message is what an attachment of the one before carries, asked in any good state.\<close>

inductive embedded_in :: "message \<Rightarrow> nat \<Rightarrow> message \<Rightarrow> bool" for root where
  itself: "embedded_in root 0 root"
| carried: "embedded_in root n me \<Longrightarrow> Attachment me node = Inr (at, s0) \<Longrightarrow> attachment_inv at s \<Longrightarrow>
    fst (Attachment_embedded_message at s) = Inr (Some (me', s')) \<Longrightarrow> embedded_in root (Suc n) me'"

inductive_cases embedded_in_SucE: "embedded_in root (Suc n) me"
inductive_simps embedded_in_0: "embedded_in root 0 me"

lemma embedded_message_Inr:
  assumes "fst (Attachment_embedded_message at s) = Inr (Some (me', s'))" "attachment_ok at"
  shows "message_ok me' \<and> message_inv me' s' \<and> ms_store me' = ms_store (at_message at) \<and>
    ms_depth me' = ms_depth (at_message at) + 1 \<and>
    ms_depth me' \<le> max_embedded_message_depth (so_limits (ms_store (at_message at)))"
proof -
  obtain s1 where run: "Attachment_embedded_message at s = (Inr (Some (me', s')), s1)"
    using assms(1) by (metis prod.collapse)
  then obtain ref entry where depth: "Message_check_embedded_depth (at_message at) = Inr ()"
    and me: "Message (ms_store (at_message at)) ref entry (ms_parent (at_message at)) (ms_depth (at_message at) + 1) = Inr (me', s')"
    by (auto simp: Attachment_embedded_message_def sbind_eq_Inr split: if_splits)
  have so: "store_ok (ms_store (at_message at))" using assms(2) by (simp add: attachment_ok_def message_ok_store)
  from Message_Inr [OF me so] depth show ?thesis by (auto simp: Message_check_embedded_depth_def check_Inr_iff)
qed

lemma embedded_in_facts:
  assumes "embedded_in root n me" "message_ok root"
  shows "message_ok me \<and> ms_store me = ms_store root \<and> ms_depth me = ms_depth root + int n \<and>
    (n = 0 \<or> ms_depth me \<le> max_embedded_message_depth (so_limits (ms_store root)))"
  using assms
proof (induction rule: embedded_in.induct)
  case (carried n me node at s0 s me' s')
  note at = Attachment_Inr [OF carried.hyps(2)]
  show ?case using carried.IH carried.prems embedded_message_Inr [OF carried.hyps(4)] at by auto
qed simp

section \<open>Properties\<close>

text \<open>Opening an attachment ends in an attachment or a PstError, and whatever has been asked of it before, its
  method, its texts, its bytes and its embedded message are the same, up to the limit on heap items, with no
  exception but a PstError; an embedded message is in good order when the attachment is.\<close>

theorem Attachment_total:
  assumes "message_ok me"
  shows "fails_closed (Attachment me node) \<and>
    (\<forall>at s. Attachment me node = Inr (at, s) \<longrightarrow> attachment_inv at s \<and>
       map_of (ms_sub_nodes me) node = Some (at_entry at) \<and> NodeId_id_type node = Inr NT_ATTACHMENT \<and>
       remembers (attachment_inv at) (attachment_exact at) is_pst_error (Attachment_method at) \<and>
       remembers (attachment_inv at) (attachment_exact at) is_pst_error (Attachment_long_filename at) \<and>
       remembers (attachment_inv at) (attachment_exact at) is_pst_error (Attachment_size at) \<and>
       remembers (attachment_inv at) (attachment_exact at) is_pst_error (Attachment_data at) \<and>
       remembers (attachment_inv at) (attachment_exact at) is_pst_error (Attachment_embedded_message at) \<and>
       (\<forall>s1 me' s'. attachment_inv at s1 \<and> fst (Attachment_embedded_message at s1) = Inr (Some (me', s')) \<longrightarrow>
          message_ok me' \<and> message_inv me' s'))"
  using Attachment_closed [OF assms] Attachment_Inr [OF _ assms]
  by (auto intro!: behaves_remembers simp: Attachment_long_filename_def Attachment_size_def dest: embedded_message_Inr)

end
