(* ===== verification/Pst_File.thy ===== *)
theory Pst_File
  imports Pst_Attachment
begin

text \<open>
  A whole file, written and read back through every layer. The writer puts a header, one page for each
  B-tree and the blocks one after the other; the theorems say that the reader of the source gets back, from the
  bytes of that file alone, the nodes, their data and sub-node trees, and the property contexts of the store,
  of its folders, of its messages and of their attachments.
\<close>

section \<open>The writer\<close>

datatype block_content = DataContent bytes | SubNodeContent "sub_node_leaf_entry list"

record written_file =
  wf_header :: header
  wf_ignored :: header_ignored
  wf_nodes :: "node_btree_entry list"
  wf_blocks :: "(block_id \<times> block_content) list"

fun content_size :: "block_content \<Rightarrow> int" where
  "content_size (DataContent d) = len d"
| "content_size (SubNodeContent es) = len (slblock_body es)"

definition block_image :: "crypt_method \<Rightarrow> block_id \<times> block_content \<Rightarrow> bytes" where
  "block_image m = (\<lambda>(bid, c).
     case c of DataContent d \<Rightarrow> data_block_bytes d m bid 0 | SubNodeContent es \<Rightarrow> tree_block_bytes (slblock_body es) bid 0)"

definition writable_block :: "block_id \<times> block_content \<Rightarrow> bool" where
  "writable_block = (\<lambda>(bid, c).
     case c of
       DataContent d \<Rightarrow> writable_data d bid 0
     | SubNodeContent es \<Rightarrow> writable_tree bid 0 \<and> (\<forall>e \<in> set es. sub_node_leaf_entry_ok e) \<and> length es \<le> 340)"

definition NBT_AT :: nat where "NBT_AT = 1024"
definition BBT_AT :: nat where "BBT_AT = 1536"
definition BLOCKS_AT :: nat where "BLOCKS_AT = 2048"

definition block_at :: "written_file \<Rightarrow> nat \<Rightarrow> nat" where
  "block_at w k = BLOCKS_AT + length (concat (map (block_image (hdr_crypt_method (wf_header w))) (take k (wf_blocks w))))"

definition block_entry :: "written_file \<Rightarrow> nat \<Rightarrow> block_btree_entry" where
  "block_entry w k =
     \<lparr>bbe_block = \<lparr>br_block = fst (wf_blocks w ! k), br_index = ByteIndex (int (block_at w k))\<rparr>,
      bbe_size = content_size (snd (wf_blocks w ! k)), bbe_ref_count = 2\<rparr>"

definition written_leaf :: "page_type \<Rightarrow> int \<Rightarrow> int \<Rightarrow> page_entries \<Rightarrow> btree_page" where
  "written_leaf kind most sz es = seal_page
     \<lparr>bp_level = 0, bp_max_entries = most, bp_entry_size = sz, bp_entries = es,
      bp_trailer = \<lparr>pt_page_type = kind, pt_signature = 0, pt_crc = 0, pt_block_id = PageId 0\<rparr>\<rparr> kind"

definition nbt_page :: "written_file \<Rightarrow> btree_page" where
  "nbt_page w = written_leaf PT_NBT 15 32 (NodeEntries (wf_nodes w))"

definition bbt_page :: "written_file \<Rightarrow> btree_page" where
  "bbt_page w = written_leaf PT_BBT 20 24 (BlockEntries (map (block_entry w) [0..<length (wf_blocks w)]))"

definition file_bytes :: "written_file \<Rightarrow> bytes" where
  "file_bytes w =
     header_bytes (wf_header w) (wf_ignored w) @ replicate 460 0 @
     btree_page_bytes (nbt_page w) PT_NBT @ btree_page_bytes (bbt_page w) PT_BBT @
     concat (map (block_image (hdr_crypt_method (wf_header w))) (wf_blocks w))"

text \<open>What it can write: as many entries as a page of each tree holds, of distinct ids, and a header that says where the
  two pages are.\<close>

definition writable_file :: "written_file \<Rightarrow> bool" where
  "writable_file w \<longleftrightarrow>
     header_ok (wf_header w) \<and> header_ignored_ok (wf_ignored w) \<and>
     pr_index (node_btree (hdr_root (wf_header w))) = ByteIndex (int NBT_AT) \<and>
     pr_index (block_btree (hdr_root (wf_header w))) = ByteIndex (int BBT_AT) \<and>
     length (wf_nodes w) \<le> 15 \<and> (\<forall>e \<in> set (wf_nodes w). node_btree_entry_ok e) \<and> distinct (map nbe_key (wf_nodes w)) \<and>
     length (wf_blocks w) \<le> 20 \<and> (\<forall>b \<in> set (wf_blocks w). writable_block b) \<and>
     distinct (map (\<lambda>b. BlockId_search_key (fst b)) (wf_blocks w))"

section \<open>Its layout\<close>

lemma block_image_length:
  assumes "writable_block b"
  shows "length (block_image m b) \<le> 8192" "1 \<le> content_size (snd b)" "content_size (snd b) < 2 ^ 16"
proof -
  obtain bid c where b: "b = (bid, c)" by fastforce
  have "length (block_image m b) \<le> 8192 \<and> 1 \<le> content_size (snd b) \<and> content_size (snd b) < 2 ^ 16"
  proof (cases c)
    case (DataContent d)
    then have w: "writable_data d bid 0" using assms by (simp add: b writable_block_def)
    obtain n where n: "block_size (len d) = Inr n"
      using w block_size_ok [of "len d"] by (auto simp: writable_data_def block_consts)
    with data_block_bytes_length [OF w n, of m] block_size_facts [OF n] w show ?thesis
      by (simp add: b DataContent block_image_def writable_data_def block_consts)
  next
    case (SubNodeContent es)
    then have w: "writable_tree bid 0" "\<forall>e \<in> set es. sub_node_leaf_entry_ok e" "length es \<le> 340"
      using assms by (simp_all add: b writable_block_def)
    have "len (concat (map SubNodeLeafEntry_pack es)) = len es * 24"
      using SubNodeLeafEntry_codec.length_concat_encode [of es "[]"] w(2) by simp
    then have body: "len (slblock_body es) = 8 + len es * 24"
      by (simp add: slblock_body_def tree_header_def length_struct_pack block_formats)
    obtain n where n: "block_size (len (slblock_body es)) = Inr n"
      using body w(3) block_size_ok [of "len (slblock_body es)"] by auto
    have "int (length (tree_block_bytes (slblock_body es) bid 0)) = n"
      using n block_size_facts [OF n]
      by (simp add: tree_block_bytes_def BlockTrailer_pack_def length_struct_pack block_formats)
    with body w(3) block_size_facts [OF n] show ?thesis by (simp add: b SubNodeContent block_image_def)
  qed
  then show "length (block_image m b) \<le> 8192" "1 \<le> content_size (snd b)" "content_size (snd b) < 2 ^ 16" by blast+
qed

lemma length_concat_le: "\<forall>x \<in> set xs. length (f x) \<le> n \<Longrightarrow> length (concat (map f xs)) \<le> length xs * n"
  by (induction xs) auto

lemma block_at_bound:
  assumes "writable_file w"
  shows "block_at w k \<le> 2048 + 20 * 8192"
proof -
  note w = assms [unfolded writable_file_def]
  have "\<forall>b \<in> set (take k (wf_blocks w)). length (block_image (hdr_crypt_method (wf_header w)) b) \<le> 8192"
    using w block_image_length(1) set_take_subset [of k "wf_blocks w"] by blast
  then have "length (concat (map (block_image (hdr_crypt_method (wf_header w))) (take k (wf_blocks w)))) \<le>
      length (take k (wf_blocks w)) * 8192" by (rule length_concat_le)
  also have "\<dots> \<le> 20 * 8192" using w by (simp add: min_le_iff_disj)
  finally show ?thesis by (simp add: block_at_def BLOCKS_AT_def)
qed

lemma length_pages:
  assumes "btree_page_ok p kind"
  shows "length (btree_page_bytes p kind) = 512"
  by (rule BTreePage_parse_facts(2) [OF BTreePage_parse_bytes [OF assms]])

lemma written_pages_ok:
  assumes "writable_file w"
  shows "btree_page_ok (nbt_page w) PT_NBT" "btree_page_ok (bbt_page w) PT_BBT"
proof -
  note w = assms [unfolded writable_file_def]
  show "btree_page_ok (nbt_page w) PT_NBT"
    unfolding nbt_page_def written_leaf_def using w
    by (intro seal_page_ok) (auto simp: is_btree_type_def entry_type_size_def bp_page_type_def page_id_ok_def U64_def)
  have at: "block_at w k \<le> 2048 + 20 * 8192" for k by (rule block_at_bound [OF assms])
  have "block_btree_entry_ok (block_entry w k)" if k: "k < length (wf_blocks w)" for k
  proof -
    have b: "writable_block (wf_blocks w ! k)" using w k nth_mem by blast
    obtain bid c where bc: "wf_blocks w ! k = (bid, c)" by fastforce
    have "block_id_ok bid" using b by (cases c) (auto simp: bc writable_block_def writable_data_def writable_tree_def)
    with at [of k] block_image_length(2,3) [OF b] show ?thesis
      by (simp add: block_btree_entry_ok_def block_entry_def bc block_ref_ok_def byte_index_ok_def U64_def)
  qed
  then show "btree_page_ok (bbt_page w) PT_BBT"
    unfolding bbt_page_def written_leaf_def using w
    by (intro seal_page_ok) (auto simp: is_btree_type_def entry_type_size_def bp_page_type_def page_id_ok_def U64_def)
qed

section \<open>The node database reads it\<close>

definition file_nbt :: "written_file \<Rightarrow> btree" where
  "file_nbt w = NodeBTree (file_bytes w) (node_btree (hdr_root (wf_header w))) DEFAULT_LIMITS"

definition file_bbt :: "written_file \<Rightarrow> btree" where
  "file_bbt w = BlockBTree (file_bytes w) (block_btree (hdr_root (wf_header w))) DEFAULT_LIMITS"

definition file_reader :: "written_file \<Rightarrow> block_reader" where
  "file_reader w = BlockReader (file_bytes w) (wf_header w) (file_bbt w) DEFAULT_LIMITS"

lemma file_read_header:
  assumes "writable_file w"
  shows "read_header (file_bytes w) = Inr (wf_header w)"
proof -
  have len: "length (header_bytes (wf_header w) (wf_ignored w)) = 564"
    using assms length_header_bytes by (simp add: writable_file_def)
  have "file_read (file_bytes w) 0 HEADER_SIZE = header_bytes (wf_header w) (wf_ignored w) @ []"
    by (simp add: file_read_def file_bytes_def len header_offsets)
  then show ?thesis using assms header_parse_bytes [of "wf_header w" "wf_ignored w" "[]"]
    by (simp add: read_header_def writable_file_def)
qed

lemma file_layout:
  assumes "writable_file w"
  obtains pre where "length pre = BLOCKS_AT" "file_bytes w = pre @ concat (map (block_image (hdr_crypt_method (wf_header w))) (wf_blocks w))"
    and "\<exists>a b. file_bytes w = a @ btree_page_bytes (nbt_page w) PT_NBT @ b \<and> length a = NBT_AT"
    and "\<exists>a b. file_bytes w = a @ btree_page_bytes (bbt_page w) PT_BBT @ b \<and> length a = BBT_AT"
proof -
  have len: "length (header_bytes (wf_header w) (wf_ignored w)) = 564"
    using assms length_header_bytes by (simp add: writable_file_def)
  note pages = length_pages [OF written_pages_ok(1) [OF assms]] length_pages [OF written_pages_ok(2) [OF assms]]
  show thesis
  proof (rule that)
    let ?h = "header_bytes (wf_header w) (wf_ignored w) @ replicate 460 0" and ?n = "btree_page_bytes (nbt_page w) PT_NBT"
      and ?b = "btree_page_bytes (bbt_page w) PT_BBT" and ?im = "block_image (hdr_crypt_method (wf_header w))"
    show "length (?h @ ?n @ ?b) = BLOCKS_AT" using len pages by (simp add: BLOCKS_AT_def)
    show "file_bytes w = (?h @ ?n @ ?b) @ concat (map (block_image (hdr_crypt_method (wf_header w))) (wf_blocks w))"
      by (simp add: file_bytes_def)
    show "\<exists>a b. file_bytes w = a @ ?n @ b \<and> length a = NBT_AT"
      using len by (intro exI [of _ ?h] exI [of _ "?b @ concat (map ?im (wf_blocks w))"]) (simp add: file_bytes_def NBT_AT_def)
    show "\<exists>a b. file_bytes w = a @ ?b @ b \<and> length a = BBT_AT"
      using len pages by (intro exI [of _ "?h @ ?n"] exI [of _ "concat (map ?im (wf_blocks w))"]) (simp add: file_bytes_def BBT_AT_def)
  qed
qed

lemma file_fits:
  assumes "writable_file w"
  shows "len (file_bytes w) \<le> max_file_size DEFAULT_LIMITS"
proof -
  obtain pre where "length pre = BLOCKS_AT"
    "file_bytes w = pre @ concat (map (block_image (hdr_crypt_method (wf_header w))) (wf_blocks w))"
    using file_layout [OF assms] by metis
  then have "length (file_bytes w) = block_at w (length (wf_blocks w))" by (simp add: block_at_def)
  with block_at_bound [OF assms, of "length (wf_blocks w)"] show ?thesis by (simp add: default_limits_simps)
qed

text \<open>A tree of one leaf is searched by scanning it.\<close>

lemma single_leaf_find:
  assumes "BTree_read t (bt_root t) = Inr page" "bp_is_leaf page" "leaf_entries (bp_entries page) = Inr es"
    and "0 \<le> max_btree_depth (bt_limits t)" "1 \<le> max_items (bt_limits t)"
  shows "BTree_find t key Map.empty =
    (case find (\<lambda>e. leaf_key e = key) es of None \<Rightarrow> Inl PstNotFoundError | Some e \<Rightarrow> Inr e, Map.empty)"
proof -
  obtain v where "BTree_child t (bt_root t) 0 (new_visited (max_items (bt_limits t))) Map.empty = (Inr (v, page), Map.empty)"
    using assms by (simp add: BTree_child_def sbind_def check_ok vs_add_def new_visited_def)
  then show ?thesis using assms(2,3) by (simp add: BTree_find_def BTree_find_loop.simps [of t _ "bt_root t"])
qed

lemma find_of_map: "find P (map f xs) = map_option f (find (P \<circ> f) xs)"
  by (induction xs) auto

lemma file_reads_pages:
  assumes "writable_file w"
  shows "BTree_read (file_nbt w) (bt_root (file_nbt w)) = Inr (nbt_page w)"
    "BTree_read (file_bbt w) (bt_root (file_bbt w)) = Inr (bbt_page w)"
proof -
  obtain a b c d where at: "file_bytes w = a @ btree_page_bytes (nbt_page w) PT_NBT @ b" "length a = NBT_AT"
    "file_bytes w = c @ btree_page_bytes (bbt_page w) PT_BBT @ d" "length c = BBT_AT"
    using file_layout [OF assms] by metis
  have idx: "pr_index (node_btree (hdr_root (wf_header w))) = ByteIndex (int NBT_AT)"
    "pr_index (block_btree (hdr_root (wf_header w))) = ByteIndex (int BBT_AT)"
    using assms by (simp_all add: writable_file_def)
  show "BTree_read (file_nbt w) (bt_root (file_nbt w)) = Inr (nbt_page w)"
    by (rule BTree_read_written [where pre = a and post = b])
      (use at idx file_fits [OF assms] written_pages_ok(1) [OF assms] in
        \<open>simp_all add: file_nbt_def NodeBTree_def, simp add: nbt_page_def written_leaf_def\<close>)
  show "BTree_read (file_bbt w) (bt_root (file_bbt w)) = Inr (bbt_page w)"
    by (rule BTree_read_written [where pre = c and post = d])
      (use at idx file_fits [OF assms] written_pages_ok(2) [OF assms] in
        \<open>simp_all add: file_bbt_def BlockBTree_def, simp add: bbt_page_def written_leaf_def\<close>)
qed

lemma file_node_lookup:
  assumes "writable_file w"
  shows "node_lookup (file_nbt w) key =
    (case find (\<lambda>e. nbe_key e = key) (wf_nodes w) of None \<Rightarrow> Inl PstNotFoundError | Some e \<Rightarrow> Inr e)"
proof -
  have page: "bp_is_leaf (nbt_page w)" "leaf_entries (bp_entries (nbt_page w)) = Inr (map NodeLeaf (wf_nodes w))"
    by (simp_all add: nbt_page_def written_leaf_def bp_is_leaf_def)
  have "BTree_find (file_nbt w) key Map.empty =
      (case find (\<lambda>e. leaf_key e = key) (map NodeLeaf (wf_nodes w)) of None \<Rightarrow> Inl PstNotFoundError | Some e \<Rightarrow> Inr e, Map.empty)"
    by (rule single_leaf_find [OF file_reads_pages(1) [OF assms] page]) (simp_all add: file_nbt_def NodeBTree_def default_limits_simps)
  then show ?thesis
    by (simp add: node_lookup_def NodeBTree_find_def sbind_def find_of_map comp_def sret_def split: option.split)
qed

lemma file_block_find:
  assumes w: "writable_file w" and k: "k < length (wf_blocks w)"
  shows "reader_find (file_reader w) (fst (wf_blocks w ! k)) = Inr (block_entry w k)"
proof -
  let ?n = "length (wf_blocks w)" and ?key = "\<lambda>j. BlockId_search_key (fst (wf_blocks w ! j))"
  let ?P = "\<lambda>e. leaf_key e = ?key k"
  have page: "bp_is_leaf (bbt_page w)"
    "leaf_entries (bp_entries (bbt_page w)) = Inr (map BlockLeaf (map (block_entry w) [0..<?n]))"
    by (simp_all add: bbt_page_def written_leaf_def bp_is_leaf_def)
  have key: "bbe_key (block_entry w j) = ?key j" for j by (simp add: bbe_key_def block_entry_def)
  have d: "distinct (map (\<lambda>b. BlockId_search_key (fst b)) (wf_blocks w))" using w by (simp add: writable_file_def)
  have "?key j \<noteq> ?key k" if "j < k" for j
    using that k nth_eq_iff_index_eq [OF d, of j k] by simp
  then have "find (\<lambda>j. ?key j = ?key k) [0..<?n] = Some k"
    using k by (auto simp: find_Some_iff intro!: exI [of _ k])
  then have "find ?P (map BlockLeaf (map (block_entry w) [0..<?n])) = Some (BlockLeaf (block_entry w k))"
    by (simp add: find_of_map comp_def key)
  moreover have "BTree_find (file_bbt w) (?key k) Map.empty =
      (case find ?P (map BlockLeaf (map (block_entry w) [0..<?n])) of None \<Rightarrow> Inl PstNotFoundError | Some e \<Rightarrow> Inr e, Map.empty)"
    by (rule single_leaf_find [OF file_reads_pages(2) [OF w] page]) (simp_all add: file_bbt_def BlockBTree_def default_limits_simps)
  ultimately show ?thesis
    by (simp add: reader_find_def file_reader_def BlockReader_def block_lookup_def BlockBTree_find_def sbind_def sret_def)
qed

lemma file_block_at:
  assumes w: "writable_file w" and k: "k < length (wf_blocks w)"
  obtains pre post where "file_bytes w = pre @ block_image (hdr_crypt_method (wf_header w)) (wf_blocks w ! k) @ post"
    "length pre = block_at w k"
proof -
  let ?im = "block_image (hdr_crypt_method (wf_header w))"
  obtain pre where pre: "length pre = BLOCKS_AT" "file_bytes w = pre @ concat (map ?im (wf_blocks w))"
    using file_layout [OF w] by metis
  have "concat (map ?im (wf_blocks w)) =
      concat (map ?im (take k (wf_blocks w))) @ ?im (wf_blocks w ! k) @ concat (map ?im (drop (Suc k) (wf_blocks w)))"
    using arg_cong [OF id_take_nth_drop [OF k], of "\<lambda>bs. concat (map ?im bs)"] by simp
  then show thesis using pre by (intro that [of "pre @ concat (map ?im (take k (wf_blocks w)))"]) (simp_all add: block_at_def)
qed

lemma file_reader_simps: "rd_f (file_reader w) = file_bytes w" "rd_crypt (file_reader w) = hdr_crypt_method (wf_header w)"
  "rd_limits (file_reader w) = DEFAULT_LIMITS" "reader_ok (file_reader w)" "rd_bbt (file_reader w) = file_bbt w"
  by (simp_all add: file_reader_def BlockReader_def reader_ok_def file_bbt_def BlockBTree_def)

lemma block_entry_simps: "br_block (bbe_block (block_entry w k)) = fst (wf_blocks w ! k)"
  "ib_value (br_index (bbe_block (block_entry w k))) = int (block_at w k)"
  "bbe_size (block_entry w k) = content_size (snd (wf_blocks w ! k))"
  by (simp_all add: block_entry_def)

text \<open>A data block of the file is read back as its data.\<close>

lemma file_data_block:
  assumes w: "writable_file w" and b: "(bid, DataContent d) \<in> set (wf_blocks w)"
  shows "read_data_blocks (file_reader w) bid = Inr [d]"
proof -
  obtain k where k: "k < length (wf_blocks w)" "wf_blocks w ! k = (bid, DataContent d)" using b by (auto simp: in_set_conv_nth)
  obtain pre post where at: "file_bytes w = pre @ block_image (hdr_crypt_method (wf_header w)) (wf_blocks w ! k) @ post"
    "length pre = block_at w k" using file_block_at [OF w k(1)] by metis
  have wd: "writable_data d bid 0" using w b by (fastforce simp: writable_file_def writable_block_def)
  have "\<exists>t. read_data_tree (file_reader w) bid = Inr (DataNode \<lparr>db_data = d, db_trailer = t\<rparr>)"
  proof (rule read_data_tree_data [OF wd])
    show "reader_find (file_reader w) bid = Inr (block_entry w k)" using file_block_find [OF w k(1)] k(2) by simp
    show "rd_f (file_reader w) = pre @ data_block_bytes d (rd_crypt (file_reader w)) bid 0 @ post"
      using at k(2) by (simp add: file_reader_simps block_image_def)
  qed (use wd k at file_fits [OF w] in \<open>simp_all add: block_entry_simps file_reader_simps writable_data_def\<close>)
  then show ?thesis by (auto simp: read_data_blocks_def)
qed

text \<open>And a sub-node block as the map of its entries, the first of a node first.\<close>

lemma file_subnode_block:
  assumes w: "writable_file w" and b: "(bid, SubNodeContent es) \<in> set (wf_blocks w)"
  shows "read_subnode_tree (file_reader w) bid = Inr (add_entries es [])"
proof -
  obtain k where k: "k < length (wf_blocks w)" "wf_blocks w ! k = (bid, SubNodeContent es)" using b by (auto simp: in_set_conv_nth)
  obtain pre post where at: "file_bytes w = pre @ block_image (hdr_crypt_method (wf_header w)) (wf_blocks w ! k) @ post"
    "length pre = block_at w k" using file_block_at [OF w k(1)] by metis
  have "writable_block (bid, SubNodeContent es)" using w b unfolding writable_file_def by blast
  then have ws: "writable_tree bid 0" "\<forall>e \<in> set es. sub_node_leaf_entry_ok e" "length es \<le> 340"
    by (simp_all add: writable_block_def)
  have "\<exists>t. read_subnode_block (file_reader w) bid = Inr (SLBlock \<lparr>slb_level = 0, slb_entries = es, slb_trailer = t\<rparr>)"
  proof (rule read_subnode_block_sl [OF ws])
    show "reader_find (file_reader w) bid = Inr (block_entry w k)" using file_block_find [OF w k(1)] k(2) by simp
    show "rd_f (file_reader w) = pre @ tree_block_bytes (slblock_body es) bid 0 @ post"
      using at k(2) by (simp add: file_reader_simps block_image_def)
  qed (use k at file_fits [OF w] in \<open>simp_all add: block_entry_simps file_reader_simps\<close>)
  then obtain t where node: "read_subnode_block (file_reader w) bid = Inr (SLBlock \<lparr>slb_level = 0, slb_entries = es, slb_trailer = t\<rparr>)"
    by blast
  have "subnodes_at (file_reader w) bid 1 ([BlockId_search_key bid], es)"
    using node by (simp add: subnodes_at_eq file_reader_simps default_limits_simps)
  then show ?thesis using ws(3)
    by (subst read_subnode_tree_iff) (auto simp: file_reader_simps default_limits_simps intro!: exI)
qed

section \<open>Property contexts in the file\<close>

definition pc_block :: "property list \<Rightarrow> block_content" where
  "pc_block ps = DataContent (heap_block_bytes 0 HN_PROPERTIES (HeapId 0x20) 0 (pc_items ps))"

text \<open>The node with this data block and this sub-node block holds these properties, and these sub-nodes.\<close>

definition holds_pc :: "written_file \<Rightarrow> block_id \<Rightarrow> block_id option \<Rightarrow> property list \<Rightarrow> sub_node_leaf_entry list \<Rightarrow> bool" where
  "holds_pc w data sub_node ps es \<longleftrightarrow> writable_pc ps \<and> (data, pc_block ps) \<in> set (wf_blocks w) \<and>
     (case sub_node of None \<Rightarrow> es = [] | Some s \<Rightarrow> (s, SubNodeContent es) \<in> set (wf_blocks w))"

abbreviation file_pc :: "written_file \<Rightarrow> property list \<Rightarrow> sub_node_leaf_entry list \<Rightarrow> codepage \<Rightarrow> property_context" where
  "file_pc w ps es cp \<equiv> written_pc_at (add_entries es []) (Some (file_reader w)) ps cp"

lemma file_pc_opens:
  assumes w: "writable_file w" and h: "holds_pc w data sub_node ps es"
  shows "\<exists>s. PropertyContext_from_node (file_reader w) data sub_node (Some DEFAULT_LIMITS) cp = Inr (file_pc w ps es cp, pc_fresh s)"
proof -
  let ?d = "add_entries es []" and ?rd = "Some (file_reader w)"
  let ?b = "heap_block_bytes 0 HN_PROPERTIES (HeapId 0x20) 0 (pc_items ps)"
  have ps: "writable_pc ps" "(data, DataContent ?b) \<in> set (wf_blocks w)" using h by (simp_all add: holds_pc_def pc_block_def)
  have "(case sub_node of None \<Rightarrow> Inr [] | Some b \<Rightarrow> read_subnode_tree (file_reader w) b) = Inr ?d"
    using h file_subnode_block [OF w] by (auto simp: holds_pc_def add_entries_def split: option.splits)
  moreover have "HeapNode [?b] ?d ?rd DEFAULT_LIMITS = Inr (pc_heap_at ?d ?rd ps)"
    using ps(1) HeapNodeHeader_written [of "HeapId 0x20" 0 "pc_items ps" HN_PROPERTIES]
    by (simp add: HeapNode_def pc_heap_at_def small_heap_def writable_pc_def)
  ultimately have heap: "HeapNode_from_node (file_reader w) data sub_node (Some DEFAULT_LIMITS) = Inr (pc_heap_at ?d ?rd ps)"
    using file_data_block [OF w ps(2)] by (simp add: HeapNode_from_node_def)
  obtain s where "PropertyContext (pc_heap_at ?d ?rd ps) None cp heap_fresh = (Inr (file_pc w ps es cp), s)"
    using written_pc_made [OF ps(1)] by blast
  then have "PropertyContext (pc_heap_at ?d ?rd ps) (Some DEFAULT_LIMITS) cp heap_fresh = (Inr (file_pc w ps es cp), s)"
    by (simp add: PropertyContext_def pc_heap_facts)
  then show ?thesis by (auto simp: PropertyContext_from_node_def heap srun_def)
qed

text \<open>Every property in it is read, from every state of the context; the others are None.\<close>

lemma file_pc_get:
  assumes ps: "writable_pc ps" and s: "pc_inv (file_pc w ps es cp) s"
  shows "(i, t, v) \<in> set ps \<Longrightarrow> fst (PropertyContext_get (file_pc w ps es cp) i s) = Inr v"
    and "i \<notin> fst ` set ps \<Longrightarrow> fst (PropertyContext_get (file_pc w ps es cp) i s) = Inr VNull"
proof -
  let ?pc = "file_pc w ps es cp"
  have good: "pc_good ?pc" "pc_exact ?pc"
    using written_pc_good [OF ps, of "Some (file_reader w)" "add_entries es []" cp] file_reader_simps(4) by simp_all
  have "fst (PropertyContext_get ?pc i s) = pc_get ?pc i"
    using PropertyContext_get_implements [of ?pc i] good s by (simp add: implements_def pc_good_def)
  then show "(i, t, v) \<in> set ps \<Longrightarrow> fst (PropertyContext_get ?pc i s) = Inr v"
    "i \<notin> fst ` set ps \<Longrightarrow> fst (PropertyContext_get ?pc i s) = Inr VNull"
    using written_pc_get [OF ps] by simp_all
qed

section \<open>The objects of the file\<close>

text \<open>A node of the file that holds these properties and these sub-nodes.\<close>

definition node_holds :: "written_file \<Rightarrow> node_id \<Rightarrow> property list \<Rightarrow> sub_node_leaf_entry list \<Rightarrow> bool" where
  "node_holds w node ps es \<longleftrightarrow>
     (\<exists>e \<in> set (wf_nodes w). nbe_node e = node \<and> holds_pc w (nbe_data e) (nbe_sub_node e) ps es)"

text \<open>A reader of properties that gives these, and None for every other id, in every state it can be in.\<close>

definition gives :: "('s \<Rightarrow> bool) \<Rightarrow> (int \<Rightarrow> ('s, prop_value) st) \<Rightarrow> property list \<Rightarrow> bool" where
  "gives I get ps \<longleftrightarrow> (\<forall>s. I s \<longrightarrow> (\<forall>(i, t, v) \<in> set ps. fst (get i s) = Inr v) \<and>
     (\<forall>i. i \<notin> fst ` set ps \<longrightarrow> fst (get i s) = Inr VNull))"

lemma gives_file_pc: "writable_pc ps \<Longrightarrow> gives (pc_inv (file_pc w ps es cp)) (PropertyContext_get (file_pc w ps es cp)) ps"
  using file_pc_get unfolding gives_def by fastforce

lemma gives_zoom:
  assumes "gives I get ps" "\<And>s. J s \<Longrightarrow> I (g s)"
  shows "gives J (\<lambda>i. szoom g p (get i)) ps"
  using assms unfolding gives_def szoom_def by (simp add: case_prod_beta)

lemma file_node_found:
  assumes w: "writable_file w" and e: "e \<in> set (wf_nodes w)"
  shows "node_lookup (file_nbt w) (nid_raw (nbe_node e)) = Inr e"
proof -
  have d: "distinct (map nbe_key (wf_nodes w))" using w by (simp add: writable_file_def)
  obtain k where k: "k < length (wf_nodes w)" "wf_nodes w ! k = e" using e by (auto simp: in_set_conv_nth)
  have "nbe_key (wf_nodes w ! j) \<noteq> nbe_key e" if "j < k" for j
    using that k nth_eq_iff_index_eq [OF d, of j k] by auto
  then have "find (\<lambda>n. nbe_key n = nid_raw (nbe_node e)) (wf_nodes w) = Some e"
    using k by (auto simp: find_Some_iff nbe_key_def intro!: exI [of _ k])
  then show ?thesis by (simp add: file_node_lookup [OF w])
qed

lemma file_node_absent:
  assumes w: "writable_file w" and e: "node \<notin> nbe_node ` set (wf_nodes w)"
  shows "node_lookup (file_nbt w) (nid_raw node) = Inl PstNotFoundError"
proof -
  have "nbe_key n \<noteq> nid_raw node" if "n \<in> set (wf_nodes w)" for n
    using that e by (cases node; cases "nbe_node n") (force simp: nbe_key_def)
  then have "find (\<lambda>n. nbe_key n = nid_raw node) (wf_nodes w) = None" by (simp add: find_None_iff)
  then show ?thesis by (simp add: file_node_lookup [OF w])
qed

lemma node_holds_opens:
  assumes w: "writable_file w" and h: "node_holds w node ps es"
  obtains e s where "node_lookup (file_nbt w) (nid_raw node) = Inr e" "holds_pc w (nbe_data e) (nbe_sub_node e) ps es"
    "PropertyContext_from_node (file_reader w) (nbe_data e) (nbe_sub_node e) (Some DEFAULT_LIMITS) cp =
       Inr (file_pc w ps es cp, pc_fresh s)" "writable_pc ps"
proof -
  from h obtain e :: node_btree_entry where e: "e \<in> set (wf_nodes w)" "nbe_node e = node"
    "holds_pc w (nbe_data e) (nbe_sub_node e) ps es" by (auto simp: node_holds_def)
  obtain s where "PropertyContext_from_node (file_reader w) (nbe_data e) (nbe_sub_node e) (Some DEFAULT_LIMITS) cp =
      Inr (file_pc w ps es cp, pc_fresh s)" using file_pc_opens [OF w e(3)] by blast
  moreover have "writable_pc ps" using e(3) by (simp add: holds_pc_def)
  ultimately show thesis using file_node_found [OF w e(1)] e(2,3) that by simp
qed

text \<open>What the store opened on the file is made of.\<close>

definition file_store :: "written_file \<Rightarrow> codepage \<Rightarrow> property list \<Rightarrow> sub_node_leaf_entry list \<Rightarrow> store" where
  "file_store w cp ps es = \<lparr>so_limits = DEFAULT_LIMITS, so_codepage = cp, so_header = wf_header w, so_bbt = file_bbt w,
     so_nbt = file_nbt w, so_reader = file_reader w, so_properties = file_pc w ps es cp\<rparr>"

lemma file_store_opens:
  assumes w: "writable_file w" and h: "node_holds w NID_MESSAGE_STORE ps es"
  shows "\<exists>s. Store (file_bytes w) DEFAULT_LIMITS cp = Inr (file_store w cp ps es, s)"
proof -
  obtain e s where e: "node_lookup (file_nbt w) (nid_raw NID_MESSAGE_STORE) = Inr e"
    "PropertyContext_from_node (file_reader w) (nbe_data e) (nbe_sub_node e) (Some DEFAULT_LIMITS) cp =
       Inr (file_pc w ps es cp, pc_fresh s)" "writable_pc ps" using node_holds_opens [OF w h] by metis
  note inv = PropertyContext_from_node_Inr(2) [OF e(2)]
  obtain r s' where run: "PropertyContext_records (file_pc w ps es cp) (pc_fresh s) = (r, s')" by fastforce
  have good: "pc_ok (file_pc w ps es cp)" "pc_exact (file_pc w ps es cp)"
    using written_pc_good [OF e(3), of "Some (file_reader w)" "add_entries es []" cp] file_reader_simps(4)
    by (simp_all add: pc_good_def)
  have "r = pc_records (file_pc w ps es cp)"
    using implementsD [OF PropertyContext_records_implements [OF good(1)] inv run] good(2) by simp
  with written_pc_records(1) [OF e(3), of "add_entries es []" "Some (file_reader w)" cp] obtain rs where "r = Inr rs" by simp
  then show ?thesis
    using e(1,2) run file_read_header [OF w]
    by (simp add: Store_def Let_def file_store_def srun_def flip: file_nbt_def file_bbt_def file_reader_def)
qed

lemma file_store_simps: "so_limits (file_store w cp ps es) = DEFAULT_LIMITS" "so_nbt (file_store w cp ps es) = file_nbt w"
  "so_codepage (file_store w cp ps es) = cp" "so_reader (file_store w cp ps es) = file_reader w"
  "so_properties (file_store w cp ps es) = file_pc w ps es cp"
  by (simp_all add: file_store_def)

lemma file_folder_opens:
  assumes w: "writable_file w" and h: "node_holds w node qs fs" and t: "NodeId_id_type node = Inr t" "t \<in> set FOLDER_NODE_TYPES"
  shows "\<exists>s. Folder (file_store w cp ps es) node =
      Inr (\<lparr>fo_store = file_store w cp ps es, fo_node = node, fo_properties = file_pc w qs fs cp\<rparr>, s)"
proof -
  obtain e s where "node_lookup (file_nbt w) (nid_raw node) = Inr e"
    "PropertyContext_from_node (file_reader w) (nbe_data e) (nbe_sub_node e) (Some DEFAULT_LIMITS) cp =
       Inr (file_pc w qs fs cp, pc_fresh s)" using node_holds_opens [OF w h] by metis
  with t show ?thesis by (simp add: Folder_def file_store_simps raise_if_def)
qed

lemma file_message_opens:
  assumes w: "writable_file w" and h: "node_holds w node qs fs" and sub: "fs \<noteq> []"
    and t: "NodeId_id_type node = Inr t" "t \<in> set MESSAGE_NODE_TYPES"
  shows "\<exists>entry s. Message (file_store w cp ps es) node None parent 0 =
      Inr (\<lparr>ms_store = file_store w cp ps es, ms_node = node, ms_parent = parent, ms_depth = 0, ms_entry = entry,
             ms_properties = file_pc w qs fs cp, ms_sub_nodes = add_entries fs []\<rparr>, s)"
proof -
  obtain e s where e: "node_lookup (file_nbt w) (nid_raw node) = Inr e" "holds_pc w (nbe_data e) (nbe_sub_node e) qs fs"
    "PropertyContext_from_node (file_reader w) (nbe_data e) (nbe_sub_node e) (Some DEFAULT_LIMITS) cp =
       Inr (file_pc w qs fs cp, pc_fresh s)" using node_holds_opens [OF w h] by metis
  obtain b where b: "nbe_sub_node e = Some b" "(b, SubNodeContent fs) \<in> set (wf_blocks w)"
    using e(2) sub by (auto simp: holds_pc_def split: option.splits)
  show ?thesis using e(1,3) t b(1) file_subnode_block [OF w b(2)]
    by (simp add: Message_def message_entry_def file_store_simps raise_if_def)
qed

lemma file_attachment_opens:
  assumes w: "writable_file w" and e: "e \<in> set fs" "distinct (map sl_node fs)"
    and h: "holds_pc w (sl_data e) (sl_sub_node e) qs gs" and t: "NodeId_id_type (sl_node e) = Inr NT_ATTACHMENT"
    and me: "ms_store me = file_store w cp ps es" "ms_sub_nodes me = add_entries fs []"
  shows "\<exists>s. Attachment me (sl_node e) =
      Inr (\<lparr>at_message = me, at_node = sl_node e, at_entry = e, at_properties = file_pc w qs gs cp\<rparr>, s)"
proof -
  obtain k where k: "k < length fs" "fs ! k = e" using e(1) by (auto simp: in_set_conv_nth)
  have "sl_node (fs ! j) \<noteq> sl_node e" if "j < k" for j
    using that k nth_eq_iff_index_eq [OF e(2), of j k] by auto
  then have "find (\<lambda>n. sl_node n = sl_node e) fs = Some e" using k by (auto simp: find_Some_iff intro!: exI [of _ k])
  then have "Message_sub_node_entry me (sl_node e) = Inr e"
    by (simp add: Message_sub_node_entry_def me(2) add_entries_facts(2))
  with t me(1) file_pc_opens [OF w h, of cp] show ?thesis
    by (auto simp: Attachment_def Let_def file_store_simps raise_if_def)
qed

section \<open>A file to try the statements on\<close>

lemma heap_block_length:
  "len (heap_block_bytes i client root fill items) = heap_header_size i + len (concat items) + 2 * len items + 6"
  by (simp add: heap_block_bytes_def Let_def heap_header_bytes_length length_struct_pack heap_formats sum_list_replicate)

text \<open>A store, its root folder and a message with one attachment.\<close>

definition sample_file :: written_file where
  "sample_file =
     \<lparr>wf_header = sample_header\<lparr>hdr_root := sample_root\<lparr>
        node_btree := \<lparr>pr_page = PageId 0x1C, pr_index = ByteIndex 1024\<rparr>,
        block_btree := \<lparr>pr_page = PageId 0x1B, pr_index = ByteIndex 1536\<rparr>\<rparr>\<rparr>,
      wf_ignored = sample_ignored,
      wf_nodes =
        [\<lparr>nbe_node = NodeId 0x21, nbe_data = BlockId 4, nbe_sub_node = None, nbe_parent = None\<rparr>,
         \<lparr>nbe_node = NodeId 0x122, nbe_data = BlockId 8, nbe_sub_node = None, nbe_parent = Some (NodeId 0x122)\<rparr>,
         \<lparr>nbe_node = NodeId 0x200024, nbe_data = BlockId 12, nbe_sub_node = Some (BlockId 18), nbe_parent = Some (NodeId 0x122)\<rparr>],
      wf_blocks =
        [(BlockId 4, pc_block sample_store_properties), (BlockId 8, pc_block sample_properties),
         (BlockId 12, pc_block sample_properties),
         (BlockId 18, SubNodeContent [\<lparr>sl_node = NodeId 0x8025, sl_data = BlockId 20, sl_sub_node = None\<rparr>]),
         (BlockId 20, pc_block sample_properties)]\<rparr>"

lemma sample_block_writable:
  assumes "block_id_ok bid" "\<not> BlockId_is_internal bid"
  shows "writable_block (bid, pc_block sample_properties)" "writable_block (bid, pc_block sample_store_properties)"
  using assms sample_properties_size sample_store_properties_size
    heap_block_length [of 0 HN_PROPERTIES "HeapId 0x20" 0 "pc_items sample_properties"]
    heap_block_length [of 0 HN_PROPERTIES "HeapId 0x20" 0 "pc_items sample_store_properties"]
  by (simp_all add: writable_block_def pc_block_def writable_data_def heap_header_size_def heap_formats block_consts)

lemma sample_file_writable: "writable_file sample_file"
proof -
  have internal: "BlockId_is_internal (BlockId 18)" "\<not> BlockId_is_internal (BlockId 4)" "\<not> BlockId_is_internal (BlockId 8)"
    "\<not> BlockId_is_internal (BlockId 12)" "\<not> BlockId_is_internal (BlockId 20)"
    by (simp_all add: BlockId_is_internal_iff)
  have keys: "BlockId_search_key (BlockId 4) = 4" "BlockId_search_key (BlockId 8) = 8" "BlockId_search_key (BlockId 12) = 12"
    "BlockId_search_key (BlockId 18) = 18" "BlockId_search_key (BlockId 20) = 20" by code_simp+
  have ok: "block_id_ok (BlockId 4)" "block_id_ok (BlockId 8)" "block_id_ok (BlockId 12)" "block_id_ok (BlockId 18)"
    "block_id_ok (BlockId 20)" by (simp_all add: block_id_ok_def U64_def)
  have "header_ok (wf_header sample_file) \<and> header_ignored_ok (wf_ignored sample_file)"
    using sample_header_ok
    by (simp add: sample_file_def header_ok_def root_ok_def sample_header_def sample_root_def page_ref_ok_def byte_index_ok_def
        U64_def)
  moreover have "\<forall>e \<in> set (wf_nodes sample_file). node_btree_entry_ok e"
    using ok keys by (simp add: sample_file_def node_btree_entry_ok_def node_id_ok_def U32_def)
  moreover have "\<forall>b \<in> set (wf_blocks sample_file). writable_block b"
    using ok internal keys sample_block_writable
    by (simp add: sample_file_def) (simp add: writable_block_def writable_tree_def sub_node_leaf_entry_ok_def node_id_ok_def U32_def)
  ultimately show ?thesis
    by (simp add: writable_file_def) (simp add: sample_file_def NBT_AT_def BBT_AT_def nbe_key_def keys)
qed

lemma sample_file_holds:
  "node_holds sample_file NID_MESSAGE_STORE sample_store_properties []"
  "node_holds sample_file (NodeId 0x122) sample_properties []"
  "node_holds sample_file (NodeId 0x200024) sample_properties [\<lparr>sl_node = NodeId 0x8025, sl_data = BlockId 20, sl_sub_node = None\<rparr>]"
  "holds_pc sample_file (BlockId 20) None sample_properties []"
  using sample_properties_writable sample_store_properties_writable
  by (simp_all add: node_holds_def holds_pc_def sample_file_def NID_MESSAGE_STORE_def)

section \<open>Properties\<close>

text \<open>C1: a written file opens, and its store and its folders read back. For every file the writer can lay out (a header,
  one page of each B-tree, at most 20 blocks), in which the message store's node holds a property context:
  reading those bytes gives a store whose \<open>get\<close> returns each written property, and None for any other
  id, from every state of its caches; every folder node that holds a property context opens and its \<open>get\<close> does the
  same; and a folder node the file does not have is a PstNotFoundError.\<close>

theorem File_roundtrip:
  assumes "writable_file w" "node_holds w NID_MESSAGE_STORE ps es"
  shows "\<exists>so s. Store (file_bytes w) DEFAULT_LIMITS cp = Inr (so, s) \<and> store_inv so s \<and> gives (store_inv so) (Store_get so) ps \<and>
    (\<forall>node t qs fs. NodeId_id_type node = Inr t \<and> t \<in> set FOLDER_NODE_TYPES \<longrightarrow>
       (node_holds w node qs fs \<longrightarrow>
          (\<exists>fo f. Folder so node = Inr (fo, f) \<and> folder_inv fo f \<and> gives (folder_inv fo) (Folder_get fo) qs)) \<and>
       (node \<notin> nbe_node ` set (wf_nodes w) \<longrightarrow> Folder so node = Inl PstNotFoundError))"
proof -
  let ?so = "file_store w cp ps es"
  obtain s where so: "Store (file_bytes w) DEFAULT_LIMITS cp = Inr (?so, s)" using file_store_opens [OF assms] by blast
  note ok = Store_Inr [OF so]
  have ps: "writable_pc ps" using assms(2) by (auto simp: node_holds_def holds_pc_def)
  have "Store_get ?so = PropertyContext_get (file_pc w ps es cp)" by (intro ext) (simp add: Store_get_def file_store_simps)
  then have get: "gives (store_inv ?so) (Store_get ?so) ps" using gives_file_pc [OF ps] by (simp add: file_store_simps)
  have folder: "\<exists>fo f. Folder ?so node = Inr (fo, f) \<and> folder_inv fo f \<and> gives (folder_inv fo) (Folder_get fo) qs"
    if t: "NodeId_id_type node = Inr t" "t \<in> set FOLDER_NODE_TYPES" and h: "node_holds w node qs fs" for node t qs fs
  proof -
    obtain f where f: "Folder ?so node = Inr (\<lparr>fo_store = ?so, fo_node = node, fo_properties = file_pc w qs fs cp\<rparr>, f)"
      using file_folder_opens [OF assms(1) h t] by blast
    have qs: "writable_pc qs" using h by (auto simp: node_holds_def holds_pc_def)
    show ?thesis using f Folder_Inr(2) [OF f ok(1)]
      by (auto simp: Folder_get_def [abs_def] on_folder_properties_def folder_inv_def intro!: gives_zoom [OF gives_file_pc [OF qs]])
  qed
  have "Folder ?so node = Inl PstNotFoundError"
    if "NodeId_id_type node = Inr t" "t \<in> set FOLDER_NODE_TYPES" "node \<notin> nbe_node ` set (wf_nodes w)" for node t
    using that file_node_absent [OF assms(1) that(3)] by (simp add: Folder_def file_store_simps raise_if_def)
  with so ok(2) get folder show ?thesis by blast
qed

theorem File_roundtrip_witness:
  "\<exists>so s fo f. Store (file_bytes sample_file) DEFAULT_LIMITS None = Inr (so, s) \<and>
     fst (Store_get so 0x3001 s) = Inr (VStr [0x41]) \<and>
     Folder so (NodeId 0x122) = Inr (fo, f) \<and> fst (Folder_get fo 0x0E07 f) = Inr (VInt (- 5)) \<and>
     Folder so (NodeId 0x142) = Inl PstNotFoundError"
proof -
  have t: "NodeId_id_type (NodeId 0x122) = Inr NT_NORMAL_FOLDER" "NodeId_id_type (NodeId 0x142) = Inr NT_NORMAL_FOLDER"
    "NT_NORMAL_FOLDER \<in> set FOLDER_NODE_TYPES" by (simp_all add: NodeId_id_type_iff FOLDER_NODE_TYPES_def)
  have absent: "NodeId 0x142 \<notin> nbe_node ` set (wf_nodes sample_file)" by (simp add: sample_file_def)
  have mem: "(0x3001, T_UNICODE, VStr [0x41]) \<in> set sample_store_properties" "(0x0E07, T_LONG, VInt (- 5)) \<in> set sample_properties"
    by (simp_all add: sample_store_properties_def sample_properties_def)
  from File_roundtrip [OF sample_file_writable sample_file_holds(1), of None] t sample_file_holds(2) absent
  obtain so s fo f where "Store (file_bytes sample_file) DEFAULT_LIMITS None = Inr (so, s)" "store_inv so s"
    "gives (store_inv so) (Store_get so) sample_store_properties" "Folder so (NodeId 0x122) = Inr (fo, f)" "folder_inv fo f"
    "gives (folder_inv fo) (Folder_get fo) sample_properties" "Folder so (NodeId 0x142) = Inl PstNotFoundError"
    by blast
  with mem show ?thesis unfolding gives_def by fastforce
qed

text \<open>C2: the messages and their attachments read back from the bytes. In a written file whose store opens, a message node
  that holds a property context and sub-nodes of distinct ids opens, and its \<open>get\<close> returns each written
  property and None otherwise, from every state; and each of its sub-nodes that is an attachment and
  holds a property context opens through the message, with the same promise.\<close>

theorem File_message_roundtrip:
  assumes "writable_file w" "node_holds w NID_MESSAGE_STORE ps es" "Store (file_bytes w) DEFAULT_LIMITS cp = Inr (so, s)"
    and "node_holds w node qs fs" "fs \<noteq> []" "distinct (map sl_node fs)"
    and "NodeId_id_type node = Inr t" "t \<in> set MESSAGE_NODE_TYPES"
  shows "\<exists>me m. Message so node None parent 0 = Inr (me, m) \<and> message_inv me m \<and> gives (message_inv me) (Message_get me) qs \<and>
    (\<forall>e rs gs. e \<in> set fs \<and> NodeId_id_type (sl_node e) = Inr NT_ATTACHMENT \<and> holds_pc w (sl_data e) (sl_sub_node e) rs gs \<longrightarrow>
       (\<exists>at a. Attachment me (sl_node e) = Inr (at, a) \<and> attachment_inv at a \<and> gives (attachment_inv at) (Attachment_get at) rs))"
proof -
  let ?so = "file_store w cp ps es"
  have so: "Store (file_bytes w) DEFAULT_LIMITS cp = Inr (?so, s)" "so = ?so"
    using file_store_opens [OF assms(1,2), of cp] assms(3) by auto
  note ok = Store_Inr [OF so(1)]
  obtain entry m where m: "Message ?so node None parent 0 =
      Inr (\<lparr>ms_store = ?so, ms_node = node, ms_parent = parent, ms_depth = 0, ms_entry = entry,
             ms_properties = file_pc w qs fs cp, ms_sub_nodes = add_entries fs []\<rparr>, m)" (is "_ = Inr (?me, m)")
    using file_message_opens [OF assms(1,4,5,7,8)] by blast
  note message = Message_Inr [OF m ok(1)]
  have qs: "writable_pc qs" using assms(4) by (auto simp: node_holds_def holds_pc_def)
  have get: "gives (message_inv ?me) (Message_get ?me) qs"
    by (auto simp: Message_get_def [abs_def] on_message_properties_def message_inv_def intro!: gives_zoom [OF gives_file_pc [OF qs]])
  have "\<exists>at a. Attachment ?me (sl_node e) = Inr (at, a) \<and> attachment_inv at a \<and> gives (attachment_inv at) (Attachment_get at) rs"
    if e: "e \<in> set fs" "NodeId_id_type (sl_node e) = Inr NT_ATTACHMENT" "holds_pc w (sl_data e) (sl_sub_node e) rs gs" for e rs gs
  proof -
    obtain a where a: "Attachment ?me (sl_node e) =
        Inr (\<lparr>at_message = ?me, at_node = sl_node e, at_entry = e, at_properties = file_pc w rs gs cp\<rparr>, a)"
      using file_attachment_opens [OF assms(1) e(1) assms(6) e(3,2), of ?me cp ps es] by auto
    have rs: "writable_pc rs" using e(3) by (simp add: holds_pc_def)
    show ?thesis using a Attachment_Inr(2) [OF a message(1)]
      by (auto simp: Attachment_get_def [abs_def] on_attachment_properties_def attachment_inv_def
          intro!: gives_zoom [OF gives_file_pc [OF rs]])
  qed
  with m message(2) get show ?thesis unfolding so(2) by blast
qed

theorem File_message_roundtrip_witness:
  "\<exists>so s me m at a. Store (file_bytes sample_file) DEFAULT_LIMITS None = Inr (so, s) \<and>
     Message so (NodeId 0x200024) None None 0 = Inr (me, m) \<and> fst (Message_get me 0x3001 m) = Inr (VStr [0x41]) \<and>
     Attachment me (NodeId 0x8025) = Inr (at, a) \<and> fst (Attachment_get at 0x0E07 a) = Inr (VInt (- 5)) \<and>
     fst (Attachment_get at 0x3701 a) = Inr VNull"
proof -
  let ?fs = "[\<lparr>sl_node = NodeId 0x8025, sl_data = BlockId 20, sl_sub_node = None\<rparr>]"
  have t: "NodeId_id_type (NodeId 0x200024) = Inr NT_NORMAL_MESSAGE" "NodeId_id_type (NodeId 0x8025) = Inr NT_ATTACHMENT"
    "NT_NORMAL_MESSAGE \<in> set MESSAGE_NODE_TYPES" by (simp_all add: NodeId_id_type_iff MESSAGE_NODE_TYPES_def)
  have mem: "(0x3001, T_UNICODE, VStr [0x41]) \<in> set sample_properties" "(0x0E07, T_LONG, VInt (- 5)) \<in> set sample_properties"
    "0x3701 \<notin> fst ` set sample_properties" by (simp_all add: sample_properties_def)
  obtain so s where so: "Store (file_bytes sample_file) DEFAULT_LIMITS None = Inr (so, s)"
    using file_store_opens [OF sample_file_writable sample_file_holds(1)] by blast
  from File_message_roundtrip [OF sample_file_writable sample_file_holds(1) so sample_file_holds(3) _ _ t(1,3), of None]
  obtain me m where me: "Message so (NodeId 0x200024) None None 0 = Inr (me, m)" "message_inv me m"
    "gives (message_inv me) (Message_get me) sample_properties" and
    at: "\<forall>e rs gs. e \<in> set ?fs \<and> NodeId_id_type (sl_node e) = Inr NT_ATTACHMENT \<and> holds_pc sample_file (sl_data e) (sl_sub_node e) rs gs \<longrightarrow>
       (\<exists>at a. Attachment me (sl_node e) = Inr (at, a) \<and> attachment_inv at a \<and> gives (attachment_inv at) (Attachment_get at) rs)"
    by auto
  from at sample_file_holds(4) t(2)
  obtain at a where "Attachment me (NodeId 0x8025) = Inr (at, a)" "attachment_inv at a"
    "gives (attachment_inv at) (Attachment_get at) sample_properties" by fastforce
  with so me mem show ?thesis unfolding gives_def by fastforce
qed

end
