(* ===== verification/Pst_Embedded.thy ===== *)
theory Pst_Embedded
  imports Pst_File
begin

text \<open>
  The chain of messages embedded in one another, bounded, and a file in which it is as long as the bound allows: a message
  whose attachment carries a message with the sub-nodes of the first. The operations on a property context that a writer
  laid out are certain: from every state they give what was written.
\<close>

section \<open>Operations whose answer is certain\<close>

definition settles :: "('s \<Rightarrow> bool) \<Rightarrow> ('s, 'a) st \<Rightarrow> 'a \<Rightarrow> bool" where
  "settles I m x \<longleftrightarrow> implements I True m (Inr x)"

lemma settlesD: "settles I m x \<Longrightarrow> I s \<Longrightarrow> fst (m s) = Inr x"
  unfolding settles_def by (rule implements_exact)

lemma settles_sret [intro]: "settles I (sret x) x"
  unfolding settles_def by (rule implements_sret [OF refl])

lemma settles_slift [intro]: "m = Inr x \<Longrightarrow> settles I (slift m) x"
  unfolding settles_def by (rule implements_slift) simp

lemma settles_sbind:
  assumes "settles I m x" "settles I (f x) y"
  shows "settles I (sbind m f) y"
proof -
  have "implements I True (sbind m f) (ebind (Inr x) (\<lambda>_. Inr y))"
    using assms unfolding settles_def by (intro implements_sbind) auto
  then show ?thesis by (simp add: settles_def)
qed

lemma settles_szoom:
  "settles I m x \<Longrightarrow> (\<And>t. J t \<Longrightarrow> I (get t)) \<Longrightarrow> (\<And>s t. J t \<Longrightarrow> I s \<Longrightarrow> J (put s t)) \<Longrightarrow> settles J (szoom get put m) x"
  unfolding settles_def by (rule implements_szoom)

section \<open>The properties of a written context\<close>

text \<open>A context over a block a writer laid out.\<close>

definition pc_written :: "property_context \<Rightarrow> property list \<Rightarrow> bool" where
  "pc_written pc ps \<longleftrightarrow> writable_pc ps \<and> (\<exists>d rd cp. pc = written_pc_at d rd ps cp)"

lemma written_ok:
  assumes "pc_written pc ps"
  shows "pc_ok pc" "heap_within_budget (pc_heap pc)"
proof -
  obtain d rd cp where pc: "writable_pc ps" "pc = written_pc_at d rd ps cp" using assms by (auto simp: pc_written_def)
  show "heap_within_budget (pc_heap pc)" using pc_heap_budget [OF pc(1)] by (simp add: pc(2) written_pc_at_def)
  obtain s where "PropertyContext (pc_heap_at d rd ps) None cp heap_fresh = (Inr pc, s)"
    using written_pc_made [OF pc(1)] pc(2) by blast
  from PropertyContext_Inr(1) [OF heap_inv_fresh this] show "pc_ok pc" .
qed

lemma written_budget: "pc_written pc ps \<Longrightarrow> heap_within_budget (pc_heap pc) = True"
  using written_ok(2) by simp

lemma settles_records:
  "pc_written pc ps \<Longrightarrow> pc_records pc = Inr rs \<Longrightarrow> settles (pc_inv pc) (PropertyContext_records pc) rs"
  using PropertyContext_records_implements [OF written_ok(1)] written_budget unfolding settles_def by metis

lemma settles_read:
  "pc_written pc ps \<Longrightarrow> pc_read pc r = Inr v \<Longrightarrow> settles (pc_inv pc) (PropertyContext_read pc r) v"
  using PropertyContext_read_implements [of pc r] written_budget unfolding settles_def by metis

lemma settles_get:
  assumes "pc_written pc ps"
  shows "map_of ps i = Some (t, v) \<Longrightarrow> settles (pc_inv pc) (PropertyContext_get pc i) v"
    and "map_of ps i = None \<Longrightarrow> settles (pc_inv pc) (PropertyContext_get pc i) VNull"
proof -
  obtain d rd cp where pc: "writable_pc ps" "pc = written_pc_at d rd ps cp" using assms by (auto simp: pc_written_def)
  have "implements (pc_inv pc) True (PropertyContext_get pc i) (pc_get pc i)"
    using PropertyContext_get_implements [OF written_ok(1) [OF assms], of i] written_budget [OF assms] by simp
  then have get: "settles (pc_inv pc) (PropertyContext_get pc i) x" if "pc_get pc i = Inr x" for x
    using that by (simp add: settles_def)
  show "map_of ps i = Some (t, v) \<Longrightarrow> settles (pc_inv pc) (PropertyContext_get pc i) v"
    using written_pc_get(1) [OF pc(1), of i t v d rd cp] pc(2) get map_of_SomeD by fastforce
  show "map_of ps i = None \<Longrightarrow> settles (pc_inv pc) (PropertyContext_get pc i) VNull"
    using written_pc_get(2) [OF pc(1), of i d rd cp] pc(2) get by (simp add: map_of_eq_None_iff)
qed

text \<open>The record of a property: none, or one that is live, of the type written, and read as the value.\<close>

lemma written_record_of:
  assumes "pc_written pc ps"
  obtains rs where "pc_records pc = Inr rs"
    "\<And>i. map_of ps i = None \<Longrightarrow> map_of rs i = None"
    "\<And>i t v. map_of ps i = Some (t, v) \<Longrightarrow> \<exists>j. j < length ps \<and> ps ! j = (i, t, v) \<and> map_of rs i = Some (written_record j (i, t, v))"
proof -
  obtain d rd cp where pc: "writable_pc ps" "pc = written_pc_at d rd ps cp" using assms by (auto simp: pc_written_def)
  let ?rs = "map (\<lambda>r. (pr_id r, r)) (sort_key pr_id (written_records ps))"
  have rs: "pc_records pc = Inr ?rs" unfolding pc(2) by (rule written_pc_records(1) [OF pc(1)])
  have d: "distinct (map fst ?rs)" using pc_records_ascending(2) [OF rs] .
  have none: "map_of ?rs i = None" if "map_of ps i = None" for i
    using that by (force simp: map_of_eq_None_iff image_iff written_records_def written_record_def split_beta)
  have some: "\<exists>j. j < length ps \<and> ps ! j = (i, t, v) \<and> map_of ?rs i = Some (written_record j (i, t, v))"
    if p: "map_of ps i = Some (t, v)" for i t v
  proof -
    obtain j where j: "j < length ps" "ps ! j = (i, t, v)" using map_of_SomeD [OF p] by (auto simp: in_set_conv_nth)
    have "written_record j (i, t, v) \<in> set (written_records ps)" using j by (auto simp: written_records_def image_iff intro!: bexI [of _ j])
    then have "(i, written_record j (i, t, v)) \<in> set ?rs" by (force simp: written_record_def)
    with j show ?thesis using map_of_is_SomeI [OF d] by blast
  qed
  show thesis by (rule that [OF rs none some])
qed

lemma written_record_live: "\<not> PropertyRecord_is_null (written_record j (i, t, v))"
  by (auto simp: PropertyRecord_is_null_def PropertyRecord_is_inline_def written_record_def record_raw_def value_hid_def)

lemma settles_live_record:
  assumes "pc_written pc ps"
  shows "map_of ps i = None \<Longrightarrow> settles (pc_inv pc) (live_record pc i) None"
    and "map_of ps i = Some (t, v) \<Longrightarrow>
      \<exists>j. j < length ps \<and> ps ! j = (i, t, v) \<and> settles (pc_inv pc) (live_record pc i) (Some (written_record j (i, t, v)))"
proof -
  from written_record_of [OF assms] obtain rs where rs: "pc_records pc = Inr rs"
    "\<And>i. map_of ps i = None \<Longrightarrow> map_of rs i = None"
    "\<And>i t v. map_of ps i = Some (t, v) \<Longrightarrow> \<exists>j. j < length ps \<and> ps ! j = (i, t, v) \<and> map_of rs i = Some (written_record j (i, t, v))"
    by metis
  have entry: "settles (pc_inv pc) (pc_record pc i) (map_of rs i)" for i
    unfolding pc_record_def by (rule settles_sbind [OF settles_records [OF assms rs(1)]]) (rule settles_sret)
  have live: "settles (pc_inv pc) (live_record pc i)
      (case map_of rs i of None \<Rightarrow> None | Some r \<Rightarrow> if PropertyRecord_is_null r then None else Some r)"
    unfolding live_record_def by (rule settles_sbind [OF entry]) (rule settles_sret)
  show "map_of ps i = None \<Longrightarrow> settles (pc_inv pc) (live_record pc i) None" using live rs(2) by fastforce
  show "map_of ps i = Some (t, v) \<Longrightarrow>
      \<exists>j. j < length ps \<and> ps ! j = (i, t, v) \<and> settles (pc_inv pc) (live_record pc i) (Some (written_record j (i, t, v)))"
    using live rs(3) [of i t v] written_record_live by fastforce
qed

lemma written_read:
  assumes "pc_written pc ps" "j < length ps" "ps ! j = (i, t, v)"
  shows "settles (pc_inv pc) (PropertyContext_read pc (written_record j (i, t, v))) v"
proof -
  obtain d rd cp where pc: "writable_pc ps" "pc = written_pc_at d rd ps cp" using assms(1) by (auto simp: pc_written_def)
  show ?thesis using settles_read [OF assms(1)] written_pc_read [OF pc(1) assms(2,3), of d rd cp] pc(2) assms(3) by simp
qed


section \<open>An attachment that carries a message\<close>

definition carries :: "attachment \<Rightarrow> object_ref \<Rightarrow> bool" where
  "carries at ref \<longleftrightarrow> (\<exists>ps. pc_written (at_properties at) ps \<and> map_of ps PID_TAG_ATTACH_METHOD = Some (T_LONG, VInt 5) \<and>
     map_of ps PID_TAG_ATTACH_DATA_BINARY = Some (T_OBJECT, VObject ref))"

lemma settles_on_attachment:
  "settles (pc_inv (at_properties at)) m x \<Longrightarrow> settles (attachment_inv at) (on_attachment_properties m) x"
  unfolding on_attachment_properties_def by (erule settles_szoom) (auto simp: attachment_inv_def)

lemma settles_method:
  assumes "carries at ref"
  shows "settles (attachment_inv at) (Attachment_method at) AM_EMBEDDED_MESSAGE"
proof -
  obtain ps where ps: "pc_written (at_properties at) ps" "map_of ps PID_TAG_ATTACH_METHOD = Some (T_LONG, VInt 5)"
    using assms by (auto simp: carries_def)
  from settles_live_record(2) [OF ps] obtain j where j: "j < length ps" "ps ! j = (PID_TAG_ATTACH_METHOD, T_LONG, VInt 5)"
    "settles (pc_inv (at_properties at)) (live_record (at_properties at) PID_TAG_ATTACH_METHOD)
       (Some (written_record j (PID_TAG_ATTACH_METHOD, T_LONG, VInt 5)))" by blast
  have "settles (pc_inv (at_properties at)) (int32_property (at_properties at) PID_TAG_ATTACH_METHOD) 5"
    unfolding int32_property_def
    by (rule settles_sbind [OF j(3)]) (auto intro!: settles_sbind [OF written_read [OF ps(1) j(1,2)]])
  moreover have "AttachMethod_from_wire 5 = Inr AM_EMBEDDED_MESSAGE" by code_simp
  ultimately show ?thesis
    unfolding Attachment_method_def Attachment_method_value_def Attachment_int32_def
    by (intro settles_sbind [OF settles_on_attachment] settles_slift)
qed

lemma settles_object_ref:
  assumes "carries at ref"
  shows "\<exists>r. settles (attachment_inv at) (Attachment_data_record at) r \<and> settles (attachment_inv at) (Attachment_object_ref at r) ref"
proof -
  obtain ps where ps: "pc_written (at_properties at) ps" "map_of ps PID_TAG_ATTACH_DATA_BINARY = Some (T_OBJECT, VObject ref)"
    using assms by (auto simp: carries_def)
  from settles_live_record(2) [OF ps] obtain j where j: "j < length ps" "ps ! j = (PID_TAG_ATTACH_DATA_BINARY, T_OBJECT, VObject ref)"
    "settles (pc_inv (at_properties at)) (live_record (at_properties at) PID_TAG_ATTACH_DATA_BINARY)
       (Some (written_record j (PID_TAG_ATTACH_DATA_BINARY, T_OBJECT, VObject ref)))" by blast
  let ?r = "written_record j (PID_TAG_ATTACH_DATA_BINARY, T_OBJECT, VObject ref)"
  have "settles (attachment_inv at) (Attachment_data_record at) ?r"
    unfolding Attachment_data_record_def Attachment_record_def
    by (rule settles_sbind [OF settles_on_attachment [OF j(3)]]) auto
  moreover have "settles (attachment_inv at) (Attachment_object_ref at ?r) ref"
    unfolding Attachment_object_ref_def
    by (rule settles_sbind [OF settles_on_attachment [OF written_read [OF ps(1) j(1,2)]]]) auto
  ultimately show ?thesis by blast
qed

text \<open>It gives that message, where the depth and its own sub-nodes let it.\<close>

lemma settles_embedded:
  assumes c: "carries at ref" and tree: "attachment_tree at = Inr sub_nodes" "map_of sub_nodes (obj_node ref) = Some entry"
    and depth: "ms_depth (at_message at) + 1 \<le> max_embedded_message_depth (so_limits (ms_store (at_message at)))"
    and me: "Message (ms_store (at_message at)) (obj_node ref) (Some entry) (ms_parent (at_message at))
      (ms_depth (at_message at) + 1) = Inr (me', s')"
  shows "settles (attachment_inv at) (Attachment_embedded_message at) (Some (me', s'))"
proof -
  obtain ps where ps: "pc_written (at_properties at) ps" using c by (auto simp: carries_def)
  have nodes: "settles (attachment_inv at) (Attachment_sub_nodes at) sub_nodes"
    using Attachment_sub_nodes_implements [of at] written_budget [OF ps] tree(1) by (simp add: settles_def)
  have entry: "settles (attachment_inv at) (Attachment_sub_node_entry at (obj_node ref)) entry"
    unfolding Attachment_sub_node_entry_def by (rule settles_sbind [OF nodes]) (simp add: tree(2) settles_sret)
  have check: "Message_check_embedded_depth (at_message at) = Inr ()"
    using depth by (simp add: Message_check_embedded_depth_def check_Inr_iff)
  obtain r where r: "settles (attachment_inv at) (Attachment_data_record at) r" "settles (attachment_inv at) (Attachment_object_ref at r) ref"
    using settles_object_ref [OF c] by blast
  show ?thesis
    unfolding Attachment_embedded_message_def
    by (rule settles_sbind [OF settles_method [OF c]], simp, rule settles_sbind [OF r(1)], rule settles_sbind [OF r(2)],
        rule settles_sbind [OF settles_slift [OF check]], rule settles_sbind [OF entry], rule settles_sbind [OF settles_slift [OF me]])
      (rule settles_sret)
qed

section \<open>A file whose message embeds itself\<close>

text \<open>The attachment \<open>e\<close> among the sub-nodes \<open>fs\<close> carries a message \<open>f\<close> of its own sub-nodes \<open>gs\<close>, and that has the
  sub-nodes \<open>fs\<close> again.\<close>

definition embeds_itself :: "written_file \<Rightarrow> sub_node_leaf_entry list \<Rightarrow> sub_node_leaf_entry \<Rightarrow> bool" where
  "embeds_itself w fs e \<longleftrightarrow> e \<in> set fs \<and> distinct (map sl_node fs) \<and> NodeId_id_type (sl_node e) = Inr NT_ATTACHMENT \<and>
     (\<exists>qs gs f rs ref. holds_pc w (sl_data e) (sl_sub_node e) qs gs \<and> sl_sub_node e \<noteq> None \<and>
        map_of qs PID_TAG_ATTACH_METHOD = Some (T_LONG, VInt 5) \<and>
        map_of qs PID_TAG_ATTACH_DATA_BINARY = Some (T_OBJECT, VObject ref) \<and>
        f \<in> set gs \<and> distinct (map sl_node gs) \<and> sl_node f = obj_node ref \<and>
        NodeId_id_type (obj_node ref) = Inr NT_NORMAL_MESSAGE \<and>
        holds_pc w (sl_data f) (sl_sub_node f) rs fs \<and> sl_sub_node f \<noteq> None)"

lemma entry_found:
  assumes "e \<in> set es" "distinct (map sl_node es)"
  shows "map_of (add_entries es []) (sl_node e) = Some e"
proof -
  obtain k where k: "k < length es" "es ! k = e" using assms(1) by (auto simp: in_set_conv_nth)
  have "sl_node (es ! j) \<noteq> sl_node e" if "j < k" for j
    using that k nth_eq_iff_index_eq [OF assms(2), of j k] by auto
  then have "find (\<lambda>n. sl_node n = sl_node e) es = Some e" using k by (auto simp: find_Some_iff intro!: exI [of _ k])
  then show ?thesis by (simp add: add_entries_facts(2))
qed

lemma embeds_itself_step:
  assumes w: "writable_file w" and self: "embeds_itself w fs e"
    and me: "message_ok me" "ms_store me = file_store w cp ps es" "ms_sub_nodes me = add_entries fs []"
    and depth: "ms_depth me + 1 \<le> max_embedded_message_depth DEFAULT_LIMITS"
  shows "\<exists>at s me' s'. Attachment me (sl_node e) = Inr (at, s) \<and> fst (Attachment_embedded_message at s) = Inr (Some (me', s')) \<and>
    ms_store me' = file_store w cp ps es \<and> ms_sub_nodes me' = add_entries fs []"
proof -
  from self obtain qs gs f rs ref where e: "e \<in> set fs" "distinct (map sl_node fs)" "NodeId_id_type (sl_node e) = Inr NT_ATTACHMENT"
    and pc: "holds_pc w (sl_data e) (sl_sub_node e) qs gs" "sl_sub_node e \<noteq> None"
    and qs: "map_of qs PID_TAG_ATTACH_METHOD = Some (T_LONG, VInt 5)"
      "map_of qs PID_TAG_ATTACH_DATA_BINARY = Some (T_OBJECT, VObject ref)"
    and f: "f \<in> set gs" "distinct (map sl_node gs)" "sl_node f = obj_node ref" "NodeId_id_type (obj_node ref) = Inr NT_NORMAL_MESSAGE"
      "holds_pc w (sl_data f) (sl_sub_node f) rs fs" "sl_sub_node f \<noteq> None"
    unfolding embeds_itself_def by blast
  let ?at = "\<lparr>at_message = me, at_node = sl_node e, at_entry = e, at_properties = file_pc w qs gs cp\<rparr>"
  obtain s where at: "Attachment me (sl_node e) = Inr (?at, s)"
    using file_attachment_opens [OF w e(1,2) pc(1) e(3) me(2,3)] by blast
  have "carries ?at ref"
    unfolding carries_def attachment.simps pc_written_def using pc(1) qs by (auto simp: holds_pc_def)
  moreover have "attachment_tree ?at = Inr (add_entries gs [])"
  proof -
    obtain b where b: "sl_sub_node e = Some b" "(b, SubNodeContent gs) \<in> set (wf_blocks w)"
      using pc by (auto simp: holds_pc_def split: option.splits)
    then show ?thesis using file_subnode_block [OF w b(2)] by (simp add: attachment_tree_def me(2) file_store_simps)
  qed
  moreover have "map_of (add_entries gs []) (obj_node ref) = Some f" using entry_found [OF f(1,2)] f(3) by simp
  moreover obtain me' s' where message: "Message (file_store w cp ps es) (obj_node ref) (Some f) (ms_parent me) (ms_depth me + 1) = Inr (me', s')"
    "ms_store me' = file_store w cp ps es" "ms_sub_nodes me' = add_entries fs []"
  proof -
    obtain t where t: "PropertyContext_from_node (file_reader w) (sl_data f) (sl_sub_node f) (Some DEFAULT_LIMITS) cp =
        Inr (file_pc w rs fs cp, pc_fresh t)" using file_pc_opens [OF w f(5)] by blast
    obtain b where b: "sl_sub_node f = Some b" "(b, SubNodeContent fs) \<in> set (wf_blocks w)"
      using f(5,6) by (auto simp: holds_pc_def split: option.splits)
    show thesis
      by (rule that [of "\<lparr>ms_store = file_store w cp ps es, ms_node = obj_node ref, ms_parent = ms_parent me, ms_depth = ms_depth me + 1,
          ms_entry = (sl_data f, sl_sub_node f), ms_properties = file_pc w rs fs cp, ms_sub_nodes = add_entries fs []\<rparr>"
          "\<lparr>mss_properties = pc_fresh t, mss_tables = []\<rparr>"])
        (use t b(1) f(4) file_subnode_block [OF w b(2)] in
          \<open>simp_all add: Message_def message_entry_def file_store_simps raise_if_def MESSAGE_NODE_TYPES_def\<close>)
  qed
  ultimately have "settles (attachment_inv ?at) (Attachment_embedded_message ?at) (Some (me', s'))"
    using depth by (intro settles_embedded) (simp_all add: me(2) file_store_simps)
  from settlesD [OF this Attachment_Inr(2) [OF at me(1)]] at message(2,3) show ?thesis by blast
qed

text \<open>Such a chain goes on until the limit stops it.\<close>

lemma embeds_itself_chain:
  assumes w: "writable_file w" and self: "embeds_itself w fs e"
    and me: "message_ok me" "ms_store me = file_store w cp ps es" "ms_sub_nodes me = add_entries fs []" "ms_depth me = 0"
    and n: "int n \<le> max_embedded_message_depth DEFAULT_LIMITS"
  shows "\<exists>last. embedded_in me n last \<and> ms_sub_nodes last = add_entries fs []"
  using n
proof (induction n)
  case 0
  show ?case using me(3) embedded_in.itself [of me] by blast
next
  case (Suc n)
  then obtain last where last: "embedded_in me n last" "ms_sub_nodes last = add_entries fs []" by auto
  have facts: "message_ok last" "ms_store last = file_store w cp ps es" "ms_depth last = int n"
    using embedded_in_facts [OF last(1) me(1)] me(2,4) by simp_all
  have "ms_depth last + 1 \<le> max_embedded_message_depth DEFAULT_LIMITS" using Suc.prems facts(3) by simp
  from embeds_itself_step [OF w self facts(1,2) last(2) this] obtain at s me' s' where
    step: "Attachment last (sl_node e) = Inr (at, s)" "fst (Attachment_embedded_message at s) = Inr (Some (me', s'))"
    "ms_sub_nodes me' = add_entries fs []" by blast
  from embedded_in.carried [OF last(1) step(1) Attachment_Inr(2) [OF step(1) facts(1)] step(2)] step(3) show ?case by blast
qed

text \<open>A store, and a message whose attachment carries a message with the same attachment.\<close>

definition embedding_properties :: "property list" where
  "embedding_properties = [(PID_TAG_ATTACH_METHOD, T_LONG, VInt 5),
     (PID_TAG_ATTACH_DATA_BINARY, T_OBJECT, VObject \<lparr>obj_node = NodeId 0x200044, obj_size = 0\<rparr>)]"

definition nested_attachment :: sub_node_leaf_entry where
  "nested_attachment = \<lparr>sl_node = NodeId 0x8025, sl_data = BlockId 20, sl_sub_node = Some (BlockId 26)\<rparr>"

definition nested_message :: sub_node_leaf_entry where
  "nested_message = \<lparr>sl_node = NodeId 0x200044, sl_data = BlockId 12, sl_sub_node = Some (BlockId 18)\<rparr>"

definition nested_file :: written_file where
  "nested_file = sample_file
     \<lparr>wf_blocks :=
        [(BlockId 4, pc_block sample_store_properties), (BlockId 8, pc_block sample_properties),
         (BlockId 12, pc_block sample_properties), (BlockId 18, SubNodeContent [nested_attachment]),
         (BlockId 20, pc_block embedding_properties), (BlockId 26, SubNodeContent [nested_message])]\<rparr>"

lemma embedding_properties_encoded:
  "encode_value T_LONG (VInt 5) = [5, 0, 0, 0]"
  "encode_value T_OBJECT (VObject \<lparr>obj_node = NodeId 0x200044, obj_size = 0\<rparr>) = [0x44, 0, 0x20, 0, 0, 0, 0, 0]"
  by (code_simp, code_simp)

lemma embedding_properties_size: "len (concat (pc_items embedding_properties)) = 32" "len (pc_items embedding_properties) = 4"
  using embedding_properties_encoded leaf_bytes_length [of "written_records embedding_properties"]
  by (simp_all add: pc_items_def written_records_simps embedding_properties_def value_item_def
      bth_header_bytes_def BTH_HEADER_FORMAT_def)

lemma embedding_properties_writable: "writable_pc embedding_properties"
proof -
  have "value_typed T_LONG (VInt 5)" by (rule typed_long) simp_all
  moreover have "value_typed T_OBJECT (VObject \<lparr>obj_node = NodeId 0x200044, obj_size = 0\<rparr>)"
    by (rule typed_object) (simp_all add: node_id_ok_def U32_def)
  ultimately have "\<forall>p \<in> set embedding_properties. writable_property p"
    using embedding_properties_encoded
    by (simp add: embedding_properties_def writable_property_def PID_TAG_ATTACH_METHOD_def PID_TAG_ATTACH_DATA_BINARY_def)
  moreover note embedding_properties_size
  ultimately show ?thesis
    by (simp add: writable_pc_def writable_heap_block_def heap_id_ok_def U32_def heap_header_size_def heap_formats
        embedding_properties_def PID_TAG_ATTACH_METHOD_def PID_TAG_ATTACH_DATA_BINARY_def)
qed

lemma nested_file_writable: "writable_file nested_file"
proof -
  have internal: "BlockId_is_internal (BlockId 18)" "BlockId_is_internal (BlockId 26)" "\<not> BlockId_is_internal (BlockId 4)"
    "\<not> BlockId_is_internal (BlockId 8)" "\<not> BlockId_is_internal (BlockId 12)" "\<not> BlockId_is_internal (BlockId 20)"
    by (simp_all add: BlockId_is_internal_iff)
  have keys: "BlockId_search_key (BlockId 4) = 4" "BlockId_search_key (BlockId 8) = 8" "BlockId_search_key (BlockId 12) = 12"
    "BlockId_search_key (BlockId 18) = 18" "BlockId_search_key (BlockId 20) = 20" "BlockId_search_key (BlockId 26) = 26"
    by code_simp+
  have ok: "block_id_ok (BlockId 4)" "block_id_ok (BlockId 8)" "block_id_ok (BlockId 12)" "block_id_ok (BlockId 18)"
    "block_id_ok (BlockId 20)" "block_id_ok (BlockId 26)" by (simp_all add: block_id_ok_def U64_def)
  have pc: "writable_block (BlockId 20, pc_block embedding_properties)"
    using ok internal embedding_properties_size heap_block_length [of 0 HN_PROPERTIES "HeapId 0x20" 0 "pc_items embedding_properties"]
    by (simp add: writable_block_def pc_block_def writable_data_def heap_header_size_def heap_formats block_consts)
  have blocks: "\<forall>b \<in> set (wf_blocks nested_file). writable_block b"
    using ok internal keys sample_block_writable pc
    by (simp add: nested_file_def)
      (simp add: writable_block_def writable_tree_def sub_node_leaf_entry_ok_def node_id_ok_def U32_def nested_attachment_def nested_message_def)
  have same: "wf_header nested_file = wf_header sample_file" "wf_ignored nested_file = wf_ignored sample_file"
    "wf_nodes nested_file = wf_nodes sample_file" by (simp_all add: nested_file_def)
  have "distinct (map (\<lambda>b. BlockId_search_key (fst b)) (wf_blocks nested_file))" "length (wf_blocks nested_file) \<le> 20"
    by (simp_all add: nested_file_def keys)
  with sample_file_writable blocks show ?thesis unfolding writable_file_def same by blast
qed

lemma nested_file_holds:
  "node_holds nested_file NID_MESSAGE_STORE sample_store_properties []"
  "node_holds nested_file (NodeId 0x200024) sample_properties [nested_attachment]"
  "embeds_itself nested_file [nested_attachment] nested_attachment"
proof -
  show "node_holds nested_file NID_MESSAGE_STORE sample_store_properties []"
    "node_holds nested_file (NodeId 0x200024) sample_properties [nested_attachment]"
    using sample_properties_writable sample_store_properties_writable
    by (simp_all add: node_holds_def holds_pc_def nested_file_def sample_file_def NID_MESSAGE_STORE_def)
  let ?ref = "\<lparr>obj_node = NodeId 0x200044, obj_size = 0\<rparr>"
  have at: "holds_pc nested_file (BlockId 20) (Some (BlockId 26)) embedding_properties [nested_message]"
    using embedding_properties_writable by (simp add: holds_pc_def nested_file_def)
  have me: "holds_pc nested_file (BlockId 12) (Some (BlockId 18)) sample_properties [nested_attachment]"
    using sample_properties_writable by (simp add: holds_pc_def nested_file_def)
  have props: "map_of embedding_properties PID_TAG_ATTACH_METHOD = Some (T_LONG, VInt 5)"
    "map_of embedding_properties PID_TAG_ATTACH_DATA_BINARY = Some (T_OBJECT, VObject ?ref)"
    by (simp_all add: embedding_properties_def PID_TAG_ATTACH_METHOD_def PID_TAG_ATTACH_DATA_BINARY_def)
  show "embeds_itself nested_file [nested_attachment] nested_attachment"
    unfolding embeds_itself_def
    by (intro conjI exI [of _ embedding_properties] exI [of _ "[nested_message]"] exI [of _ nested_message]
        exI [of _ sample_properties] exI [of _ ?ref])
      (use at me props in \<open>simp_all add: nested_attachment_def nested_message_def NodeId_id_type_iff\<close>)
qed

section \<open>Properties\<close>

text \<open>C38: messages embedded in one another end. However the attachments of a store refer to one another, a message
  that embeds itself included, a chain of embedded messages from a message the store holds is no longer than
  \<open>max_embedded_message_depth\<close>, and each message of it is a message of that store whose depth is its place.\<close>

theorem embedded_messages_end:
  assumes "embedded_in root n me" "message_ok root" "ms_depth root = 0"
  shows "int n \<le> max 0 (max_embedded_message_depth (so_limits (ms_store root))) \<and>
    ms_depth me = int n \<and> ms_store me = ms_store root \<and> message_ok me"
  using embedded_in_facts [OF assms(1,2)] assms(3) by auto

text \<open>In the file whose message embeds itself the chain is as long as the limit, and not one message longer.\<close>

theorem embedded_messages_end_witness:
  "\<exists>so s root r last. Store (file_bytes nested_file) DEFAULT_LIMITS None = Inr (so, s) \<and>
     Message so (NodeId 0x200024) None None 0 = Inr (root, r) \<and>
     0 < max_embedded_message_depth DEFAULT_LIMITS \<and>
     embedded_in root (nat (max_embedded_message_depth DEFAULT_LIMITS)) last \<and>
     ms_depth last = max_embedded_message_depth DEFAULT_LIMITS \<and>
     (\<nexists>me. embedded_in root (Suc (nat (max_embedded_message_depth DEFAULT_LIMITS))) me)"
proof -
  let ?n = "nat (max_embedded_message_depth DEFAULT_LIMITS)"
  let ?so = "file_store nested_file None sample_store_properties []"
  have pos: "0 < max_embedded_message_depth DEFAULT_LIMITS" by (simp add: default_limits_simps)
  have t: "NodeId_id_type (NodeId 0x200024) = Inr NT_NORMAL_MESSAGE" "NT_NORMAL_MESSAGE \<in> set MESSAGE_NODE_TYPES"
    by (simp_all add: NodeId_id_type_iff MESSAGE_NODE_TYPES_def)
  obtain s where so: "Store (file_bytes nested_file) DEFAULT_LIMITS None = Inr (?so, s)"
    using file_store_opens [OF nested_file_writable nested_file_holds(1)] by blast
  obtain root r where root: "Message ?so (NodeId 0x200024) None None 0 = Inr (root, r)" "ms_store root = ?so"
    "ms_sub_nodes root = add_entries [nested_attachment] []" "ms_depth root = 0"
    using file_message_opens [OF nested_file_writable nested_file_holds(2) _ t, of None sample_store_properties "[]" None] by auto
  have ok: "message_ok root" using Message_Inr [OF root(1) Store_Inr(1) [OF so]] by simp
  obtain last where last: "embedded_in root ?n last"
    using embeds_itself_chain [OF nested_file_writable nested_file_holds(3) ok root(2-4), of ?n] pos by auto
  have "ms_depth last = max_embedded_message_depth DEFAULT_LIMITS"
    using embedded_messages_end [OF last ok root(4)] pos by simp
  moreover have "\<nexists>me. embedded_in root (Suc ?n) me"
    using embedded_messages_end [OF _ ok root(4), of "Suc ?n"] pos root(2) by (auto simp: file_store_simps)
  ultimately show ?thesis using so root(1) last pos by blast
qed

end
