(* ===== verification/Pst_Text.thy ===== *)
theory Pst_Text
  imports Pst_Prop_Type "HOL-Library.Sublist" "HOL-Library.Char_ord"
begin

text \<open>
  What the mail writer uses of Python's \<open>str\<close>, on lists of code points: literals, \<open>strip\<close>, \<open>split\<close>,
  \<open>replace\<close>, \<open>join\<close>, \<open>lower\<close> of ASCII text, the formats \<open>%08x\<close> and \<open>%d\<close>, and the two spellings of a
  date, \<open>email.utils.format_datetime\<close> and \<open>time.asctime\<close>.
\<close>

section \<open>Literals and characters\<close>

definition ascii :: "string \<Rightarrow> ustring" where
  "ascii s = map of_char s"

lemma ascii_simps [simp]: "ascii [] = []" "ascii (c # cs) = of_char c # ascii cs"
  by (simp_all add: ascii_def)

text \<open>What \<open>str.isspace\<close> holds of: the characters \<open>strip\<close> trims and \<open>split\<close> splits at.\<close>

definition is_space :: "int \<Rightarrow> bool" where
  "is_space c \<longleftrightarrow> 9 \<le> c \<and> c \<le> 13 \<or> 28 \<le> c \<and> c \<le> 32 \<or> c = 0x85 \<or> c = 0xA0 \<or> c = 0x1680 \<or>
     0x2000 \<le> c \<and> c \<le> 0x200A \<or> c = 0x2028 \<or> c = 0x2029 \<or> c = 0x202F \<or> c = 0x205F \<or> c = 0x3000"

text \<open>Where \<open>str.splitlines\<close> ends a line. Not all of them are control characters.\<close>

definition is_line_break :: "int \<Rightarrow> bool" where
  "is_line_break c \<longleftrightarrow> c \<in> {10, 11, 12, 13, 28, 29, 30, 0x85, 0x2028, 0x2029}"

lemma line_break_is_space: "is_line_break c \<Longrightarrow> is_space c"
  by (auto simp: is_line_break_def is_space_def)

section \<open>Operations\<close>

definition lstrip_by :: "(int \<Rightarrow> bool) \<Rightarrow> ustring \<Rightarrow> ustring" where
  "lstrip_by p s = dropWhile p s"

definition rstrip_by :: "(int \<Rightarrow> bool) \<Rightarrow> ustring \<Rightarrow> ustring" where
  "rstrip_by p s = rev (dropWhile p (rev s))"

definition py_strip :: "ustring \<Rightarrow> ustring" where
  "py_strip s = rstrip_by is_space (lstrip_by is_space s)"

text \<open>\<open>s.split(c, 1)[0]\<close>\<close>

definition before_char :: "int \<Rightarrow> ustring \<Rightarrow> ustring" where
  "before_char c s = takeWhile (\<lambda>x. x \<noteq> c) s"

text \<open>\<open>s.replace(a, b)\<close> of single characters.\<close>

definition replace_char :: "int \<Rightarrow> int \<Rightarrow> ustring \<Rightarrow> ustring" where
  "replace_char a b s = map (\<lambda>x. if x = a then b else x) s"

fun py_join :: "ustring \<Rightarrow> ustring list \<Rightarrow> ustring" where
  "py_join sep [] = []"
| "py_join sep [x] = x"
| "py_join sep (x # xs) = x @ sep @ py_join sep xs"

text \<open>\<open>str.lower\<close>, of text that is ASCII.\<close>

definition ascii_lower :: "ustring \<Rightarrow> ustring" where
  "ascii_lower s = map (\<lambda>c. if 65 \<le> c \<and> c \<le> 90 then c + 32 else c) s"

lemma set_rstrip_by: "set (rstrip_by p s) \<subseteq> set s"
  unfolding rstrip_by_def by (metis set_dropWhileD set_rev subsetI)

lemma set_py_strip: "set (py_strip s) \<subseteq> set s"
  unfolding py_strip_def lstrip_by_def using set_rstrip_by by (metis set_dropWhileD subset_iff)

lemma py_strip_ends:
  assumes "py_strip s \<noteq> []"
  shows "\<not> is_space (hd (py_strip s))" "\<not> is_space (last (py_strip s))"
proof -
  let ?l = "dropWhile is_space s"
  have eq: "py_strip s = rev (dropWhile is_space (rev ?l))" by (simp add: py_strip_def lstrip_by_def rstrip_by_def)
  have ne: "dropWhile is_space (rev ?l) \<noteq> []" using assms eq by auto
  show "\<not> is_space (last (py_strip s))" unfolding eq using hd_dropWhile [OF ne] ne by (simp add: last_rev)
  have l: "?l \<noteq> []"
  proof
    assume "?l = []"
    with ne have "dropWhile is_space (rev []) \<noteq> []" by metis
    then show False by simp
  qed
  have "rev ?l = takeWhile is_space (rev ?l) @ dropWhile is_space (rev ?l)" by simp
  then have "?l = rev (dropWhile is_space (rev ?l)) @ rev (takeWhile is_space (rev ?l))" by (metis rev_append rev_rev_ident)
  then have "hd ?l = hd (rev (dropWhile is_space (rev ?l)))" using ne by (metis hd_append2 rev_is_Nil_conv)
  then show "\<not> is_space (hd (py_strip s))" unfolding eq using hd_dropWhile [OF l] by simp
qed

lemma set_py_join: "set (py_join sep xs) \<subseteq> set sep \<union> \<Union> (set ` set xs)"
  by (induction sep xs rule: py_join.induct) auto

section \<open>Numbers\<close>

definition digit_char :: "nat \<Rightarrow> int" where
  "digit_char d = (if d < 10 then 48 + int d else 87 + int d)"

function digits_of :: "nat \<Rightarrow> nat \<Rightarrow> ustring" where
  "digits_of base n =
     (if base < 2 \<or> n < base then [digit_char n] else digits_of base (n div base) @ [digit_char (n mod base)])"
  by auto

termination
  by (relation "measure snd") (auto simp: div_less_dividend)

declare digits_of.simps [simp del]

text \<open>\<open>f"{n:d}"\<close> and \<open>f"{n:08x}"\<close> of a number that is not negative; \<open>zfill\<close> pads on the left.\<close>

definition zfill :: "nat \<Rightarrow> int \<Rightarrow> ustring \<Rightarrow> ustring" where
  "zfill w c s = replicate (w - length s) c @ s"

definition decimal :: "int \<Rightarrow> ustring" where
  "decimal n = digits_of 10 (nat n)"

definition hex8 :: "int \<Rightarrow> ustring" where
  "hex8 n = zfill 8 48 (digits_of 16 (nat n))"

text \<open>\<open>bytes.hex()\<close>\<close>

definition bytes_hex :: "bytes \<Rightarrow> ustring" where
  "bytes_hex bs = concat (map (\<lambda>b. zfill 2 48 (digits_of 16 (unat b))) bs)"

definition char_digit :: "int \<Rightarrow> nat" where
  "char_digit c = nat (if c < 58 then c - 48 else c - 87)"

definition digits_value :: "nat \<Rightarrow> ustring \<Rightarrow> nat" where
  "digits_value base s = foldl (\<lambda>a c. a * base + char_digit c) 0 s"

lemma char_digit_char [simp]: "char_digit (digit_char d) = d"
  by (simp add: char_digit_def digit_char_def)

lemma digits_value_of: "2 \<le> base \<Longrightarrow> digits_value base (digits_of base n) = n"
proof (induction base n rule: digits_of.induct)
  case (1 base n)
  show ?case
  proof (cases "n < base")
    case True
    then show ?thesis by (simp add: digits_of.simps [of base n] digits_value_def)
  next
    case False
    then have "digits_value base (digits_of base (n div base)) = n div base" using 1 by simp
    then show ?thesis using False "1.prems" by (simp add: digits_of.simps [of base n] digits_value_def)
  qed
qed

lemma digits_value_zfill: "digits_value base (zfill w 48 s) = digits_value base s"
proof -
  have "foldl (\<lambda>a c. a * base + char_digit c) 0 (replicate n 48) = 0" for n
    by (induction n) (simp_all add: char_digit_def)
  then show ?thesis by (simp add: digits_value_def zfill_def)
qed

lemma digits_value_hex8: "digits_value 16 (hex8 n) = nat n"
  by (simp add: hex8_def digits_value_zfill digits_value_of)

lemma hex8_inj: "0 \<le> m \<Longrightarrow> 0 \<le> n \<Longrightarrow> hex8 m = hex8 n \<longleftrightarrow> m = n"
  using digits_value_hex8 [of m] digits_value_hex8 [of n] by (metis nat_0_le)

text \<open>Hexadecimal digits.\<close>

definition is_hex :: "int \<Rightarrow> bool" where
  "is_hex c \<longleftrightarrow> 48 \<le> c \<and> c \<le> 57 \<or> 97 \<le> c \<and> c \<le> 102"

lemma digit_char_hex: "d < 16 \<Longrightarrow> is_hex (digit_char d)"
  by (simp add: is_hex_def digit_char_def)

lemma digits_of_hex: "2 \<le> base \<Longrightarrow> base \<le> 16 \<Longrightarrow> c \<in> set (digits_of base n) \<Longrightarrow> is_hex c"
proof (induction base n rule: digits_of.induct)
  case (1 base n)
  have "is_hex (digit_char (n mod base))" using "1.prems"(1,2) mod_less_divisor [of base n] by (intro digit_char_hex) linarith
  with 1 show ?case
    by (subst (asm) (2) digits_of.simps) (auto split: if_splits intro: digit_char_hex)
qed

lemma digits_of_length: "2 \<le> base \<Longrightarrow> n < base ^ Suc k \<Longrightarrow> length (digits_of base n) \<le> Suc k"
proof (induction k arbitrary: n)
  case 0
  then show ?case by (simp add: digits_of.simps [of base n])
next
  case (Suc k)
  show ?case
  proof (cases "n < base")
    case False
    have "n div base < base ^ Suc k" using Suc.prems by (simp add: less_mult_imp_div_less mult.commute)
    with Suc.IH Suc.prems(1) False show ?thesis by (simp add: digits_of.simps [of base n])
  qed (simp add: digits_of.simps [of base n])
qed

lemma hex8_hex: "c \<in> set (hex8 n) \<Longrightarrow> is_hex c"
  using digits_of_hex [of 16 c "nat n"] by (auto simp: hex8_def zfill_def is_hex_def split: if_splits)

lemma hex8_length: "0 \<le> n \<Longrightarrow> n \<le> U32 \<Longrightarrow> length (hex8 n) = 8"
  using digits_of_length [of 16 "nat n" 7] by (simp add: hex8_def zfill_def U32_def nat_less_iff)

section \<open>Dates\<close>

text \<open>
  The calendar date of a number of days since 1 January 1601, a Monday, as \<open>datetime\<close> counts: cycles of
  400, 100, 4 and 1 years, the last day of a long cycle apart, then the month.
\<close>

definition is_leap :: "int \<Rightarrow> bool" where
  "is_leap y \<longleftrightarrow> y mod 4 = 0 \<and> (y mod 100 \<noteq> 0 \<or> y mod 400 = 0)"

definition month_lengths :: "int \<Rightarrow> int list" where
  "month_lengths y = [31, if is_leap y then 29 else 28, 31, 30, 31, 30, 31, 31, 30, 31, 30, 31]"

fun month_day :: "int list \<Rightarrow> int \<Rightarrow> int \<Rightarrow> int \<times> int" where
  "month_day [] m n = (m, n)"
| "month_day (l # ls) m n = (if n < l \<or> ls = [] then (m, n + 1) else month_day ls (m + 1) (n - l))"

definition year_day :: "int \<Rightarrow> int \<times> int" where
  "year_day days =
     (let n400 = days div 146097; r400 = days mod 146097;
          n100 = min 3 (r400 div 36524); r100 = r400 - n100 * 36524;
          n4 = r100 div 1461; r4 = r100 mod 1461;
          n1 = min 3 (r4 div 365)
      in (1601 + n400 * 400 + n100 * 100 + n4 * 4 + n1, r4 - n1 * 365))"

definition civil_date :: "int \<Rightarrow> int \<times> int \<times> int" where
  "civil_date days = (let (y, n) = year_day days; (m, d) = month_day (month_lengths y) 1 n in (y, m, d))"

definition weekday_name :: "int \<Rightarrow> ustring" where
  "weekday_name days =
     map ascii [''Mon'', ''Tue'', ''Wed'', ''Thu'', ''Fri'', ''Sat'', ''Sun''] ! nat (days mod 7)"

definition month_name :: "int \<Rightarrow> ustring" where
  "month_name m =
     map ascii [''Jan'', ''Feb'', ''Mar'', ''Apr'', ''May'', ''Jun'', ''Jul'', ''Aug'', ''Sep'', ''Oct'', ''Nov'', ''Dec'']
       ! nat (m - 1)"

definition clock :: "int \<Rightarrow> ustring" where
  "clock seconds =
     py_join (ascii '':'') (map (\<lambda>n. zfill 2 48 (decimal n)) [seconds div 3600, seconds div 60 mod 60, seconds mod 60])"

definition seconds_of_day :: "py_datetime \<Rightarrow> int" where
  "seconds_of_day dt = dt_micros dt mod MICROS_PER_DAY div 1000000"

text \<open>\<open>email.utils.format_datetime\<close> of an aware time in UTC.\<close>

definition format_datetime :: "py_datetime \<Rightarrow> ustring" where
  "format_datetime dt =
     (let days = dt_micros dt div MICROS_PER_DAY; (y, m, d) = civil_date days
      in py_join (ascii '' '')
           [weekday_name days @ ascii '','', zfill 2 48 (decimal d), month_name m, zfill 4 48 (decimal y),
            clock (seconds_of_day dt), ascii ''+0000''])"

text \<open>\<open>time.asctime\<close> of the same.\<close>

definition asctime :: "py_datetime \<Rightarrow> ustring" where
  "asctime dt =
     (let days = dt_micros dt div MICROS_PER_DAY; (y, m, d) = civil_date days
      in py_join (ascii '' '')
           [weekday_name days, month_name m, zfill 2 32 (decimal d), clock (seconds_of_day dt), decimal y])"

text \<open>The two formats, tried on the epoch and on a leap day.\<close>

lemma dates_tried:
  "civil_date 134774 = (1970, 1, 1)"
  "asctime \<lparr>dt_aware = True, dt_micros = 134774 * 86400000000\<rparr> = ascii ''Thu Jan  1 00:00:00 1970''"
  "format_datetime \<lparr>dt_aware = True, dt_micros = 145790 * 86400000000 + 3723000000\<rparr> = ascii ''Tue, 29 Feb 2000 01:02:03 +0000''"
  by code_simp+

end
