(* ===== verification/Pst_Mail.thy ===== *)
theory Pst_Mail
  imports Pst_Text Pst_Attachment
begin

text \<open>
  \<open>eml.py\<close>, up to the \<open>email\<close> package: what one message is turned into. The result is the tree the module
  hands over, message by message: the headers it sets, the bodies, and the parts. The package itself, the codec
  registry and the Unicode case table are a parameter (\<open>mailer\<close>): what parsing a block of headers gives, what it
  refuses, and how bytes decode.
\<close>

section \<open>Constants\<close>

definition PID_TAG_INTERNET_MESSAGE_ID :: int where "PID_TAG_INTERNET_MESSAGE_ID = 0x1035"
definition PID_TAG_INTERNET_CODEPAGE :: int where "PID_TAG_INTERNET_CODEPAGE = 0x3FDE"

definition SYNTHESIZED_HEADER :: ustring where "SYNTHESIZED_HEADER = ascii ''X-Pypstreader-Synthesized''"
definition BODY_HEADER :: ustring where "BODY_HEADER = ascii ''X-Pypstreader-Body''"
definition SKIPPED_HEADER :: ustring where "SKIPPED_HEADER = ascii ''X-Pypstreader-Attachment-Skipped''"
definition SYNTHETIC_ID_DOMAIN :: ustring where "SYNTHETIC_ID_DOMAIN = ascii ''pypstreader.invalid''"

definition BODY_HEADERS :: "ustring list" where
  "BODY_HEADERS = map ascii [''content-type'', ''content-transfer-encoding'', ''content-disposition'', ''content-id'',
     ''content-length'', ''mime-version'']"

definition H_FROM :: ustring where "H_FROM = ascii ''From''"
definition H_TO :: ustring where "H_TO = ascii ''To''"
definition H_CC :: ustring where "H_CC = ascii ''Cc''"
definition H_BCC :: ustring where "H_BCC = ascii ''Bcc''"
definition H_SUBJECT :: ustring where "H_SUBJECT = ascii ''Subject''"
definition H_DATE :: ustring where "H_DATE = ascii ''Date''"
definition H_MESSAGE_ID :: ustring where "H_MESSAGE_ID = ascii ''Message-ID''"

definition SYNTHESIS_ORDER :: "ustring list" where
  "SYNTHESIS_ORDER = [H_FROM, H_TO, H_CC, H_BCC, H_SUBJECT, H_DATE, H_MESSAGE_ID]"

definition BOUNDARY_ATTEMPTS :: int where "BOUNDARY_ATTEMPTS = 8"

definition CODEPAGE_NAMES :: "(int \<times> ustring) list" where
  "CODEPAGE_NAMES = map (map_prod (\<lambda>n. n) ascii)
     [(708, ''iso8859-6''), (20127, ''us-ascii''), (20866, ''koi8-r''), (21866, ''koi8-u''), (28591, ''iso8859-1''),
      (28592, ''iso8859-2''), (28593, ''iso8859-3''), (28594, ''iso8859-4''), (28595, ''iso8859-5''),
      (28596, ''iso8859-6''), (28597, ''iso8859-7''), (28598, ''iso8859-8''), (28599, ''iso8859-9''),
      (28603, ''iso8859-13''), (28605, ''iso8859-15''), (50220, ''iso2022-jp''), (50225, ''iso2022-kr''),
      (51932, ''euc-jp''), (51949, ''euc-kr''), (52936, ''hz''), (54936, ''gb18030''), (65000, ''utf-7''),
      (65001, ''utf-8'')]"

text \<open>\<open>_MIME_TOKEN\<close>, and the type of everything that is not two of them.\<close>

definition is_token_char :: "int \<Rightarrow> bool" where
  "is_token_char c \<longleftrightarrow> 65 \<le> c \<and> c \<le> 90 \<or> 97 \<le> c \<and> c \<le> 122 \<or> 48 \<le> c \<and> c \<le> 57 \<or> c \<in> set (ascii ''!#$&^_.+-'')"

definition is_mime_token :: "ustring \<Rightarrow> bool" where
  "is_mime_token s \<longleftrightarrow> s \<noteq> [] \<and> (\<forall>c \<in> set s. is_token_char c)"

definition FALLBACK_TYPE :: "ustring \<times> ustring" where
  "FALLBACK_TYPE = (ascii ''application'', ascii ''octet-stream'')"

definition is_control :: "int \<Rightarrow> bool" where
  "is_control c \<longleftrightarrow> c < 0x20 \<or> c = 0x7F"

section \<open>Values made safe for a header\<close>

definition mail_clean :: "ustring option \<Rightarrow> ustring option" where
  "mail_clean v = map_option (\<lambda>s. py_strip (filter (\<lambda>c. \<not> is_control c) s)) v"

text \<open>\<open>a or b\<close> of optional strings, an empty one being false.\<close>

definition py_or :: "ustring option \<Rightarrow> ustring option \<Rightarrow> ustring option" where
  "py_or a b = (if a = None \<or> a = Some [] then b else a)"

definition truthy :: "ustring option \<Rightarrow> bool" where
  "truthy a \<longleftrightarrow> a \<noteq> None \<and> a \<noteq> Some []"

text \<open>\<open>email.utils.quote\<close>\<close>

definition quote_string :: "ustring \<Rightarrow> ustring" where
  "quote_string s = concat (map (\<lambda>c. if c = 92 then [92, 92] else if c = 34 then [92, 34] else [c]) s)"

definition mail_address :: "ustring option \<Rightarrow> ustring option \<Rightarrow> ustring option \<Rightarrow> ustring option" where
  "mail_address name smtp fallback =
     (let display = mail_clean name; addr = py_or (mail_clean smtp) (mail_clean fallback)
      in if \<not> truthy addr then None
         else if \<not> truthy display \<or> display = addr then Some (ascii ''<'' @ the addr @ ascii ''>'')
         else Some ([34] @ quote_string (the display) @ [34] @ ascii '' <'' @ the addr @ ascii ''>''))"

text \<open>What \<open>_guard\<close> turns into a PstFormatError: \<open>LookupError\<close> and \<open>ValueError\<close> and their subclasses.\<close>

definition mail_guard :: "'a result \<Rightarrow> 'a result" where
  "mail_guard m =
     (case m of
        Inl e \<Rightarrow> if is_pst_error e then Inl e
          else if e \<in> {ValueError, UnicodeError, IndexError} then Inl PstFormatError else Inl e
      | Inr x \<Rightarrow> Inr x)"

definition pass_headers :: "(ustring \<times> ustring) list \<Rightarrow> (ustring \<times> ustring) list" where
  "pass_headers parsed =
     filter (\<lambda>(name, v). v \<noteq> [])
       (map (\<lambda>(name, v). (name, the (mail_clean (Some v))))
         (filter (\<lambda>(name, v). ascii_lower name \<notin> set BODY_HEADERS) parsed))"

definition message_id_local_part :: "ustring \<Rightarrow> ustring" where
  "message_id_local_part v =
     (let inner = rstrip_by (\<lambda>c. c = 62) (lstrip_by (\<lambda>c. c = 60) (py_strip v)); local = before_char 64 inner
      in if local = [] then ascii ''pypstreader'' else local)"

definition stored_id_form :: "ustring \<Rightarrow> ustring" where
  "stored_id_form text =
     (if take 1 text = ascii ''<'' \<and> last text = 62 then text else ascii ''<'' @ text @ ascii ''>'')"

definition synthetic_id_form :: "ustring \<Rightarrow> node_id \<Rightarrow> ustring option \<Rightarrow> ustring" where
  "synthetic_id_form key node carrier =
     (let local = (case carrier of
          None \<Rightarrow> ascii ''pypstreader-'' @ key @ ascii ''-'' @ hex8 (nid_raw node)
        | Some p \<Rightarrow> p @ ascii ''.'' @ hex8 (nid_raw node))
      in ascii ''<'' @ local @ ascii ''@'' @ SYNTHETIC_ID_DOMAIN @ ascii ''>'')"

definition mime_type :: "ustring option \<Rightarrow> ustring \<times> ustring" where
  "mime_type tag =
     (let text = mail_clean tag
      in if \<not> truthy text then FALLBACK_TYPE
         else
           let media = py_strip (before_char 59 (the text))
           in if length (filter (\<lambda>c. c = 47) media) \<noteq> 1 then FALLBACK_TYPE
              else
                let maintype = before_char 47 media; subtype = drop (length maintype + 1) media
                in if \<not> is_mime_token maintype \<or> \<not> is_mime_token subtype then FALLBACK_TYPE
                   else (ascii_lower maintype, ascii_lower subtype))"

definition content_id_form :: "ustring option \<Rightarrow> ustring option" where
  "content_id_form content_id =
     (let text = mail_clean content_id
      in if \<not> truthy text then None
         else
           let inner = py_strip (rstrip_by (\<lambda>c. c = 62) (lstrip_by (\<lambda>c. c = 60) (the text)))
           in if inner = [] then None else Some (ascii ''<'' @ inner @ ascii ''>''))"

definition mail_references :: "(ustring \<Rightarrow> ustring) \<Rightarrow> ustring \<Rightarrow> ustring \<Rightarrow> bool" where
  "mail_references lower html cid =
     sublist (ascii ''cid:'' @ lower (rstrip_by (\<lambda>c. c = 62) (lstrip_by (\<lambda>c. c = 60) cid))) (lower html)"

text \<open>The loop of \<open>_set_boundaries\<close>: \<open>bump\<close> counts the attempts.\<close>

function mail_boundary :: "ustring \<Rightarrow> ustring \<Rightarrow> ustring \<Rightarrow> ustring \<Rightarrow> int \<Rightarrow> ustring" where
  "mail_boundary payload digest base boundary bump =
     (if \<not> sublist boundary payload then boundary
      else if bump + 1 > BOUNDARY_ATTEMPTS then base @ ascii ''.'' @ take 32 digest
      else mail_boundary payload digest base (base @ ascii ''.'' @ decimal (bump + 1)) (bump + 1))"
  by auto

termination
  by (relation "measure (\<lambda>(p, d, base, b, bump). nat (BOUNDARY_ATTEMPTS - bump))") auto

declare mail_boundary.simps [simp del]

definition boundary_base :: "node_id \<Rightarrow> int \<Rightarrow> nat \<Rightarrow> ustring" where
  "boundary_base node depth index =
     ascii ''----=_pypstreader.'' @ hex8 (nid_raw node) @ ascii ''.'' @ decimal depth @ ascii ''.'' @ decimal (int index)"

definition eml_name :: "message \<Rightarrow> ustring" where
  "eml_name me = hex8 (nid_raw (ms_node me)) @ ascii ''.eml''"

section \<open>The package underneath\<close>

datatype mail_body = PlainBody ustring | RtfBody bytes | HtmlBody ustring

record data_part =
  dp_data :: bytes
  dp_type :: "ustring \<times> ustring"
  dp_filename :: "ustring option"
  dp_cid :: "ustring option"
  dp_inline :: bool

datatype mail =
  Mail (mail_headers: "(ustring \<times> ustring) list") (mail_bodies: "mail_body list") (mail_parts: "mail_part list")
    (mail_boundaries: "ustring list")
and mail_part = DataPart data_part | EmbeddedPart mail "ustring option"

text \<open>
  \<open>ml_parse\<close>: the names and values \<open>email.parser\<close> finds in a block of headers; \<open>ml_header\<close>, \<open>ml_body\<close> and
  \<open>ml_part\<close>: what setting a header raises after those already set, a body after those already there, a part after
  the bodies and the parts already attached (an HTML body takes an inline part only while no ordinary one has turned
  it into a mixed message); \<open>ml_lookup\<close>: the canonical
  name \<open>codecs.lookup\<close> finds; \<open>ml_decode\<close>: \<open>bytes.decode(name, errors="replace")\<close>; \<open>ml_lower\<close>: \<open>str.lower\<close>;
  \<open>ml_codepage\<close>: the name of the code page the store was opened with; \<open>ml_text\<close>: what \<open>str\<close> of a Message-ID header
  that has been set reads (the package decodes encoded words in it). \<open>ml_multiparts\<close>: how many multipart containers
  a message is made of; \<open>ml_payload\<close>: the bytes inside the one at a place, once the boundaries after it are set;
  \<open>ml_boundary\<close>: what setting its boundary raises; \<open>ml_digest\<close>: the SHA-256 of bytes, in hex.
\<close>

record mailer =
  ml_parse :: "ustring \<Rightarrow> (ustring \<times> ustring) list result"
  ml_header :: "(ustring \<times> ustring) list \<Rightarrow> ustring \<times> ustring \<Rightarrow> unit result"
  ml_body :: "mail_body list \<Rightarrow> mail_body \<Rightarrow> unit result"
  ml_part :: "mail_body list \<Rightarrow> mail_part list \<Rightarrow> mail_part \<Rightarrow> unit result"
  ml_lookup :: "ustring \<Rightarrow> ustring option"
  ml_decode :: "ustring \<Rightarrow> bytes \<Rightarrow> ustring"
  ml_lower :: "ustring \<Rightarrow> ustring"
  ml_codepage :: ustring
  ml_text :: "ustring \<Rightarrow> ustring"
  ml_multiparts :: "mail \<Rightarrow> nat"
  ml_payload :: "mail \<Rightarrow> nat \<Rightarrow> ustring result"
  ml_boundary :: "mail \<Rightarrow> nat \<Rightarrow> ustring \<Rightarrow> unit result"
  ml_digest :: "ustring \<Rightarrow> ustring"

section \<open>State\<close>

text \<open>What an export reads is a message and the store it is in: two caches.\<close>

type_synonym mail_state = "message_state \<times> pc_state"

definition on_message :: "(message_state, 'a) st \<Rightarrow> (mail_state, 'a) st" where
  "on_message = szoom fst (\<lambda>s p. (s, snd p))"

definition on_store :: "(pc_state, 'a) st \<Rightarrow> (mail_state, 'a) st" where
  "on_store = szoom snd (\<lambda>s p. (fst p, s))"

text \<open>\<open>try: m except PstError: h\<close>, and with any test of the exception.\<close>

definition scatch :: "(error \<Rightarrow> bool) \<Rightarrow> ('s, 'a) st \<Rightarrow> ('s, 'a) st \<Rightarrow> ('s, 'a) st" where
  "scatch catches m h s = (case m s of (Inl e, s') \<Rightarrow> if catches e then h s' else (Inl e, s') | (Inr x, s') \<Rightarrow> (Inr x, s'))"

section \<open>Headers\<close>

definition mail_transport :: "mailer \<Rightarrow> message \<Rightarrow> (mail_state, (ustring \<times> ustring) list) st" where
  "mail_transport ml me =
     sbind (on_message (Message_transport_headers me)) (\<lambda>raw.
     if \<not> truthy raw then sret []
     else slift (mail_guard (ebind (ml_parse ml (the raw)) (\<lambda>parsed. Inr (pass_headers parsed)))))"

definition mail_sender :: "message \<Rightarrow> (mail_state, ustring option) st" where
  "mail_sender me =
     sbind (on_message (Message_sender_name me)) (\<lambda>name.
     sbind (on_message (Message_sender_smtp me)) (\<lambda>smtp.
     sbind (on_message (Message_sender_email me)) (\<lambda>email.
     sret (mail_address name smtp email))))"

definition recipient_bucket :: "recipient list \<Rightarrow> recipient_type \<Rightarrow> ustring list" where
  "recipient_bucket rs t =
     map the (filter (\<lambda>a. a \<noteq> None)
       (map (\<lambda>r. mail_address (rc_name r) (rc_smtp r) (rc_email r)) (filter (\<lambda>r. rc_type r = Named t) rs)))"

definition recipient_headers :: "message \<Rightarrow> (mail_state, (ustring \<times> ustring) list) st" where
  "recipient_headers me =
     sbind (on_message (Message_recipients me collect [])) (\<lambda>rs.
     sret (map (\<lambda>(header, t). (header, py_join (ascii '', '') (recipient_bucket rs t)))
       (filter (\<lambda>(header, t). recipient_bucket rs t \<noteq> []) [(H_TO, RT_TO), (H_CC, RT_CC), (H_BCC, RT_BCC)])))"

definition mail_date :: "message \<Rightarrow> (mail_state, ustring option) st" where
  "mail_date me =
     sbind (on_message (Message_client_submit_time me)) (\<lambda>submit.
     sbind (case submit of None \<Rightarrow> on_message (Message_delivery_time me) | Some t \<Rightarrow> sret (Some t)) (\<lambda>when.
     sret (map_option format_datetime when)))"

definition mail_record_key :: "message \<Rightarrow> (mail_state, ustring) st" where
  "mail_record_key me =
     scatch is_pst_error (sbind (on_store (Store_record_key (ms_store me))) (\<lambda>k. sret (bytes_hex k)))
       (sret (ascii ''nokey''))"

definition synthetic_message_id :: "message \<Rightarrow> ustring option \<Rightarrow> (mail_state, ustring) st" where
  "synthetic_message_id me carrier =
     (case carrier of
        None \<Rightarrow> sbind (mail_record_key me) (\<lambda>key. sret (synthetic_id_form key (ms_node me) None))
      | Some p \<Rightarrow> sret (synthetic_id_form [] (ms_node me) (Some p)))"

definition stored_message_id :: "message \<Rightarrow> (mail_state, ustring option) st" where
  "stored_message_id me =
     sbind (on_message (Message_get me PID_TAG_INTERNET_MESSAGE_ID)) (\<lambda>v.
     case v of
       VNull \<Rightarrow> sret None
     | VStr s \<Rightarrow>
         (let text = mail_clean (Some s) in sret (if \<not> truthy text then None else Some (stored_id_form (the text))))
     | _ \<Rightarrow> slift (Inl PstFormatError))"

text \<open>\<open>_synthesised\<close>: \<open>have\<close> is the lower-case names of the headers passed through.\<close>

definition synthesised :: "message \<Rightarrow> ustring set \<Rightarrow> ustring option \<Rightarrow> (mail_state, (ustring \<times> ustring) list) st" where
  "synthesised me have carrier =
     sbind (mail_sender me) (\<lambda>sender.
     sbind (recipient_headers me) (\<lambda>recipients.
     sbind (if ascii ''subject'' \<in> have then sret None
            else sbind (on_message (Message_subject me)) (\<lambda>subject. sret (mail_clean subject))) (\<lambda>subject.
     sbind (if ascii ''date'' \<in> have then sret None else mail_date me) (\<lambda>date.
     sbind (if ascii ''message-id'' \<in> have then sret None
            else
              sbind (stored_message_id me) (\<lambda>stored.
              if truthy stored then sret stored
              else sbind (synthetic_message_id me carrier) (\<lambda>i. sret (Some i)))) (\<lambda>message_id.
     let made =
       (if ascii ''from'' \<notin> have then (case sender of None \<Rightarrow> [] | Some v \<Rightarrow> [(H_FROM, v)]) else []) @
       filter (\<lambda>(header, v). ascii_lower header \<notin> have) recipients @
       (if truthy subject then [(H_SUBJECT, the subject)] else []) @
       (case date of None \<Rightarrow> [] | Some v \<Rightarrow> [(H_DATE, v)]) @
       (case message_id of None \<Rightarrow> [] | Some v \<Rightarrow> [(H_MESSAGE_ID, v)])
     in sret (concat (map (\<lambda>name. case map_of made name of None \<Rightarrow> [] | Some v \<Rightarrow> [(name, v)]) SYNTHESIS_ORDER)))))))"

text \<open>Setting headers one after the other, under \<open>_guard\<close>.\<close>

fun set_headers :: "mailer \<Rightarrow> (ustring \<times> ustring) list \<Rightarrow> (ustring \<times> ustring) list \<Rightarrow> (ustring \<times> ustring) list result" where
  "set_headers ml before [] = Inr before"
| "set_headers ml before (h # hs) =
     ebind (mail_guard (ml_header ml before h)) (\<lambda>_. set_headers ml (before @ [h]) hs)"

section \<open>Bodies\<close>

definition charset_candidates :: "mailer \<Rightarrow> prop_value \<Rightarrow> ustring list" where
  "charset_candidates ml v =
     (case v of
        VInt n \<Rightarrow>
          if n > 0 then [case map_of CODEPAGE_NAMES n of None \<Rightarrow> ascii ''cp'' @ decimal n | Some name \<Rightarrow> name] else []
      | _ \<Rightarrow> []) @ [ml_codepage ml]"

fun first_codec :: "mailer \<Rightarrow> ustring list \<Rightarrow> ustring" where
  "first_codec ml [] = ascii ''utf-8''"
| "first_codec ml (name # names) = (case ml_lookup ml name of Some n \<Rightarrow> n | None \<Rightarrow> first_codec ml names)"

definition mail_charset :: "mailer \<Rightarrow> message \<Rightarrow> (mail_state, ustring) st" where
  "mail_charset ml me =
     sbind (on_message (Message_get me PID_TAG_INTERNET_CODEPAGE)) (\<lambda>v. sret (first_codec ml (charset_candidates ml v)))"

definition message_bodies :: "mailer \<Rightarrow> message \<Rightarrow> (mail_state, mail_body list) st" where
  "message_bodies ml me =
     sbind (on_message (Message_body_text me)) (\<lambda>text.
     sbind (on_message (Message_body_rtf_decompressed me)) (\<lambda>rtf.
     sbind (on_message (Message_body_html me)) (\<lambda>html.
     sbind (case html of
              None \<Rightarrow> sret []
            | Some [] \<Rightarrow> sret []
            | Some b \<Rightarrow> sbind (mail_charset ml me) (\<lambda>name. sret [HtmlBody (ml_decode ml name b)])) (\<lambda>html_bodies.
     sret ((if truthy text then [PlainBody (the text)] else []) @
           (case rtf of None \<Rightarrow> [] | Some [] \<Rightarrow> [] | Some b \<Rightarrow> [RtfBody b]) @ html_bodies)))))"

text \<open>\<open>_set_body\<close> for the first, \<open>_add_body\<close> for those after it.\<close>

definition add_body :: "mailer \<Rightarrow> mail_body list \<Rightarrow> mail_body \<Rightarrow> mail_body list result" where
  "add_body ml before b = ebind (mail_guard (ml_body ml before b)) (\<lambda>_. Inr (before @ [b]))"

definition set_bodies :: "mailer \<Rightarrow> mail_body list \<Rightarrow> mail_body list result" where
  "set_bodies ml bodies = efold (add_body ml) [] (if bodies = [] then [PlainBody []] else bodies)"

fun is_rtf :: "mail_body \<Rightarrow> bool" where
  "is_rtf (RtfBody _) = True"
| "is_rtf _ = False"

definition body_note :: "mail_body list \<Rightarrow> (ustring \<times> ustring) list" where
  "body_note bodies =
     (case bodies of
        [] \<Rightarrow> [(BODY_HEADER, ascii ''none'')]
      | [b] \<Rightarrow> if is_rtf b then [(BODY_HEADER, ascii ''rtf-only'')] else []
      | _ \<Rightarrow> [])"

fun html_text :: "mail_body list \<Rightarrow> ustring option" where
  "html_text [] = None"
| "html_text (HtmlBody t # bodies) = Some t"
| "html_text (_ # bodies) = html_text bodies"

text \<open>A header of the module's own is set without the guard.\<close>

definition add_header :: "mailer \<Rightarrow> (ustring \<times> ustring) list \<Rightarrow> ustring \<times> ustring \<Rightarrow> (ustring \<times> ustring) list result" where
  "add_header ml before h = ebind (ml_header ml before h) (\<lambda>_. Inr (before @ [h]))"

section \<open>Attachments\<close>

fun attach_method_name :: "attach_method \<Rightarrow> ustring" where
  "attach_method_name AM_NONE = ascii ''NONE''"
| "attach_method_name AM_BY_VALUE = ascii ''BY_VALUE''"
| "attach_method_name AM_BY_REFERENCE = ascii ''BY_REFERENCE''"
| "attach_method_name AM_BY_REF_RESOLVE = ascii ''BY_REF_RESOLVE''"
| "attach_method_name AM_BY_REF_ONLY = ascii ''BY_REF_ONLY''"
| "attach_method_name AM_EMBEDDED_MESSAGE = ascii ''EMBEDDED_MESSAGE''"
| "attach_method_name AM_OLE = ascii ''OLE''"
| "attach_method_name AM_BY_WEB_REFERENCE = ascii ''BY_WEB_REFERENCE''"

definition mail_filename :: "attachment \<Rightarrow> (attachment_state, ustring option) st" where
  "mail_filename at =
     sbind (Attachment_long_filename at) (\<lambda>long.
     if truthy (mail_clean long) then sret (mail_clean long)
     else sbind (Attachment_filename at) (\<lambda>short. sret (mail_clean short)))"

definition skipped_value :: "attach_method \<Rightarrow> ustring option \<Rightarrow> ustring" where
  "skipped_value method name =
     the (py_or (mail_clean (Some (attach_method_name method @ ascii '' '' @
        (if truthy name then the name else ascii ''(unnamed)''))))
       (Some (attach_method_name method)))"

text \<open>What one attachment is to become, read off it: a part, a header in its place, or a message to assemble.\<close>

datatype attached =
    Skipped attach_method "ustring option"
  | Bytes data_part
  | Embedded "(message \<times> message_state) option" "ustring option"

definition read_attached ::
  "mailer \<Rightarrow> limits \<Rightarrow> int \<Rightarrow> ustring option \<Rightarrow> attachment \<Rightarrow> (attachment_state, attached) st" where
  "read_attached ml lims depth html at =
     sbind (Attachment_method at) (\<lambda>method.
     sbind (mail_filename at) (\<lambda>name.
     if method = AM_EMBEDDED_MESSAGE then
       sbind (slift (check_depth (depth + 1) (max_embedded_message_depth lims))) (\<lambda>_.
       sbind (Attachment_embedded_message at) (\<lambda>embedded. sret (Embedded embedded name)))
     else
       sbind (Attachment_data at) (\<lambda>data.
       case data of
         None \<Rightarrow> sret (Skipped method name)
       | Some d \<Rightarrow>
           sbind (slift (check_allocation (len d) (max_allocation lims))) (\<lambda>_.
           sbind (Attachment_mime_tag at) (\<lambda>tag.
           sbind (Attachment_content_id at) (\<lambda>content_id.
           let cid = content_id_form content_id in
           sret (Bytes \<lparr>dp_data = d, dp_type = mime_type tag, dp_filename = name, dp_cid = cid,
             dp_inline = (case (cid, html) of
               (Some c, Some text) \<Rightarrow> mail_references (ml_lower ml) text c | _ \<Rightarrow> False)\<rparr>)))))))"

text \<open>\<open>str(msg["Message-ID"])\<close>: the first header of that name, in any case, read back.\<close>

definition own_message_id :: "mailer \<Rightarrow> (ustring \<times> ustring) list \<Rightarrow> ustring option" where
  "own_message_id ml hs =
     map_option (\<lambda>h. ml_text ml (snd h)) (find (\<lambda>(name, v). ascii_lower name = ascii ''message-id'') hs)"

text \<open>A message with caches of its own, in the same store.\<close>

definition inside :: "message_state \<Rightarrow> (mail_state, 'a) st \<Rightarrow> (mail_state, 'a) st" where
  "inside ms m = (\<lambda>(s, t). case m (ms, t) of (r, (_, t')) \<Rightarrow> (r, (s, t')))"

type_synonym assembler = "int \<Rightarrow> ustring option \<Rightarrow> message \<Rightarrow> (mail_state, mail) st"

text \<open>What an embedded message builds a Message-ID on: that of its carrier, when it has one.\<close>

definition carried_by :: "mailer \<Rightarrow> (ustring \<times> ustring) list \<Rightarrow> ustring option \<Rightarrow> ustring option" where
  "carried_by ml headers carrier =
     (case own_message_id ml headers of Some v \<Rightarrow> Some (message_id_local_part v) | None \<Rightarrow> carrier)"

definition add_part ::
  "mailer \<Rightarrow> mail_body list \<Rightarrow> (ustring \<times> ustring) list \<Rightarrow> mail_part list \<Rightarrow> mail_part \<Rightarrow>
   ((ustring \<times> ustring) list \<times> mail_part list) result" where
  "add_part ml bodies headers parts p = ebind (mail_guard (ml_part ml bodies parts p)) (\<lambda>_. Inr (headers, parts @ [p]))"

definition attach ::
  "mailer \<Rightarrow> assembler \<Rightarrow> int \<Rightarrow> ustring option \<Rightarrow> mail_body list \<Rightarrow> (ustring \<times> ustring) list \<times> mail_part list \<Rightarrow>
   attached \<Rightarrow> (mail_state, (ustring \<times> ustring) list \<times> mail_part list) st" where
  "attach ml assemble depth carrier bodies = (\<lambda>(headers, parts) what.
     case what of
       Skipped method name \<Rightarrow>
         sbind (slift (add_header ml headers (SKIPPED_HEADER, skipped_value method name))) (\<lambda>headers'. sret (headers', parts))
     | Bytes p \<Rightarrow> slift (add_part ml bodies headers parts (DataPart p))
     | Embedded None name \<Rightarrow> sret (headers, parts)
     | Embedded (Some (inner, ms)) name \<Rightarrow>
         sbind (inside ms (assemble (depth + 1) (carried_by ml headers carrier) inner)) (\<lambda>m.
         slift (add_part ml bodies headers parts (EmbeddedPart m name))))"

definition add_attachment ::
  "mailer \<Rightarrow> limits \<Rightarrow> assembler \<Rightarrow> int \<Rightarrow> ustring option \<Rightarrow> mail_body list \<Rightarrow>
   (ustring \<times> ustring) list \<times> mail_part list \<Rightarrow> attachment \<times> attachment_state \<Rightarrow>
   (mail_state, (ustring \<times> ustring) list \<times> mail_part list) st" where
  "add_attachment ml lims assemble depth carrier bodies acc = (\<lambda>(at, s).
     sbind (slift (srun (read_attached ml lims depth (html_text bodies) at) s)) (\<lambda>(what, _).
     attach ml assemble depth carrier bodies acc what))"

text \<open>\<open>Message.attachments\<close> driving it.\<close>

definition add_attachments ::
  "mailer \<Rightarrow> limits \<Rightarrow> assembler \<Rightarrow> int \<Rightarrow> ustring option \<Rightarrow> message \<Rightarrow> mail_body list \<Rightarrow> (ustring \<times> ustring) list \<Rightarrow>
   (mail_state, (ustring \<times> ustring) list \<times> mail_part list) st" where
  "add_attachments ml lims assemble depth carrier me bodies headers =
     sbind (on_message (Message_attachment_ids me)) (\<lambda>ids.
     sfold (\<lambda>acc node.
       sbind (slift (Attachment me node)) (add_attachment ml lims assemble depth carrier bodies acc))
       (headers, []) ids)"

section \<open>The assembler\<close>

text \<open>The loop of \<open>_set_boundaries\<close>, from the last container to the first, so children before their parent.\<close>

fun set_boundaries :: "mailer \<Rightarrow> node_id \<Rightarrow> int \<Rightarrow> nat \<Rightarrow> mail \<Rightarrow> mail result" where
  "set_boundaries ml node depth 0 m = Inr m"
| "set_boundaries ml node depth (Suc index) m =
     ebind (ml_payload ml m index) (\<lambda>payload.
     let base = boundary_base node depth index; boundary = mail_boundary payload (ml_digest ml payload) base base 0
     in ebind (mail_guard (ml_boundary ml m index boundary)) (\<lambda>_.
        set_boundaries ml node depth index
          (Mail (mail_headers m) (mail_bodies m) (mail_parts m) (boundary # mail_boundaries m))))"

text \<open>\<open>_assemble\<close>, with the assembly of embedded messages left open.\<close>

definition assemble_with :: "mailer \<Rightarrow> limits \<Rightarrow> assembler \<Rightarrow> bool \<Rightarrow> assembler" where
  "assemble_with ml lims assemble synthesize depth carrier me =
     sbind (mail_transport ml me) (\<lambda>passed.
     sbind (slift (set_headers ml [] passed)) (\<lambda>headers0.
     sbind (if synthesize then synthesised me (set (map (\<lambda>h. ascii_lower (fst h)) passed)) carrier else sret []) (\<lambda>made.
     sbind (slift (set_headers ml headers0 made)) (\<lambda>headers1.
     sbind (if made \<noteq> [] then slift (add_header ml headers1 (SYNTHESIZED_HEADER, py_join (ascii '', '') (map fst made)))
            else sret headers1) (\<lambda>headers2.
     sbind (message_bodies ml me) (\<lambda>bodies.
     sbind (slift (set_bodies ml bodies)) (\<lambda>all_bodies.
     sbind (slift (efold (add_header ml) headers2 (body_note bodies))) (\<lambda>headers3.
     sbind (add_attachments ml lims assemble depth carrier me all_bodies headers3) (\<lambda>(headers4, parts).
     let m = Mail headers4 all_bodies parts [] in
     slift (set_boundaries ml (ms_node me) depth (ml_multiparts ml m) m))))))))))"

text \<open>
  The recursion, on a stack of so many calls, past which Python would raise a \<open>RecursionError\<close>. What stops it is
  \<open>check_depth\<close> in \<open>read_attached\<close>: a stack for the levels the limit allows below \<open>depth\<close> is as good as any
  larger one (\<open>assemble_levels_enough\<close>), and its end is never met (\<open>mail_assemble_unfold\<close>).
\<close>

primrec assemble_levels :: "nat \<Rightarrow> mailer \<Rightarrow> limits \<Rightarrow> bool \<Rightarrow> assembler" where
  "assemble_levels 0 ml lims synthesize =
     assemble_with ml lims (\<lambda>depth carrier me. slift (Inl RecursionError)) synthesize"
| "assemble_levels (Suc n) ml lims synthesize = assemble_with ml lims (assemble_levels n ml lims True) synthesize"

definition mail_assemble :: "mailer \<Rightarrow> limits \<Rightarrow> bool \<Rightarrow> assembler" where
  "mail_assemble ml lims synthesize depth =
     assemble_levels (nat (max_embedded_message_depth lims - depth)) ml lims synthesize depth"

definition limits_of :: "message \<Rightarrow> limits option \<Rightarrow> limits" where
  "limits_of me l = (case l of None \<Rightarrow> so_limits (ms_store me) | Some x \<Rightarrow> x)"

definition to_eml :: "mailer \<Rightarrow> bool \<Rightarrow> limits option \<Rightarrow> message \<Rightarrow> (mail_state, mail) st" where
  "to_eml ml synthesize_missing l me = mail_assemble ml (limits_of me l) synthesize_missing (ms_depth me) None me"

lemma read_attached_depth:
  assumes "srun (read_attached ml lims depth html at) s = Inr (Embedded e name, s')"
  shows "depth + 1 \<le> max_embedded_message_depth lims"
  using assms
  by (auto simp: read_attached_def srun_Inr_iff sbind_eq_Inr check_Inr_iff Let_def split: if_splits option.splits)

lemma attach_simps:
  "attach ml f depth carrier bodies (hs, ps) (Skipped method name) =
     sbind (slift (add_header ml hs (SKIPPED_HEADER, skipped_value method name))) (\<lambda>hs'. sret (hs', ps))"
  "attach ml f depth carrier bodies (hs, ps) (Bytes p) = slift (add_part ml bodies hs ps (DataPart p))"
  "attach ml f depth carrier bodies (hs, ps) (Embedded None name) = sret (hs, ps)"
  "attach ml f depth carrier bodies (hs, ps) (Embedded (Some (inner, ms)) name) =
     sbind (inside ms (f (depth + 1) (carried_by ml hs carrier) inner)) (\<lambda>m.
     slift (add_part ml bodies hs ps (EmbeddedPart m name)))"
  by (simp_all add: attach_def)

lemma attached_cases:
  obtains (skipped) how name where "a = Skipped how name" | (bytes) p where "a = Bytes p"
    | (none) name where "a = Embedded None name" | (message) inner ms name where "a = Embedded (Some (inner, ms)) name"
  by (metis attached.exhaust option.exhaust prod.exhaust)

lemma add_attachment_cong:
  assumes "\<And>c me. depth + 1 \<le> max_embedded_message_depth lims \<Longrightarrow> f (depth + 1) c me = g (depth + 1) c me"
  shows "add_attachment ml lims f depth carrier bodies acc x = add_attachment ml lims g depth carrier bodies acc x"
proof -
  obtain hs ps at s where x: "acc = (hs, ps)" "x = (at, s)" by (cases acc; cases x)
  have "attach ml f depth carrier bodies acc a = attach ml g depth carrier bodies acc a"
    if "srun (read_attached ml lims depth (html_text bodies) at) s = Inr (a, s')" for a s'
    unfolding x(1) using that assms read_attached_depth [of ml lims depth "html_text bodies" at s]
    by (cases a rule: attached_cases) (auto simp: attach_simps)
  then show ?thesis
    by (cases "srun (read_attached ml lims depth (html_text bodies) at) s") (auto simp: add_attachment_def x sbind_def)
qed

lemma assemble_with_cong:
  assumes "\<And>c me. depth + 1 \<le> max_embedded_message_depth lims \<Longrightarrow> f (depth + 1) c me = g (depth + 1) c me"
  shows "assemble_with ml lims f synthesize depth carrier me = assemble_with ml lims g synthesize depth carrier me"
proof -
  have "add_attachment ml lims f depth c bodies acc = add_attachment ml lims g depth c bodies acc" for c bodies acc
    by (rule ext, rule add_attachment_cong) (rule assms)
  then show ?thesis by (simp add: assemble_with_def add_attachments_def)
qed

text \<open>More stack changes nothing.\<close>

lemma assemble_levels_enough:
  assumes "nat (max_embedded_message_depth lims - depth) \<le> n"
  shows "assemble_levels n ml lims synthesize depth carrier me = mail_assemble ml lims synthesize depth carrier me"
  unfolding mail_assemble_def using assms
proof (induction "nat (max_embedded_message_depth lims - depth)" arbitrary: n synthesize depth carrier me)
  case 0
  then have "\<not> depth + 1 \<le> max_embedded_message_depth lims" by simp
  then show ?case
    by (cases n) (auto simp flip: 0(1) intro: assemble_with_cong)
next
  case (Suc k)
  then obtain i where n: "n = Suc i" by (cases n) auto
  have k: "k = nat (max_embedded_message_depth lims - (depth + 1))" using Suc.hyps(2) by simp
  have "assemble_levels i ml lims True (depth + 1) c inner = assemble_levels k ml lims True (depth + 1) c inner" for c inner
    using Suc.hyps(1) [OF k, of i] Suc.prems Suc.hyps(2) n by (simp flip: k)
  then show ?case
    unfolding n Suc.hyps(2) [symmetric] assemble_levels.simps by (intro assemble_with_cong)
qed

text \<open>The recursion of the source, with no count of levels.\<close>

lemma mail_assemble_unfold:
  "mail_assemble ml lims synthesize depth =
     assemble_with ml lims (mail_assemble ml lims True) synthesize depth"
proof (rule ext, rule ext)
  fix carrier me
  let ?n = "nat (max_embedded_message_depth lims - depth)"
  have "mail_assemble ml lims synthesize depth carrier me = assemble_levels (Suc ?n) ml lims synthesize depth carrier me"
    by (rule assemble_levels_enough [symmetric]) simp
  also have "\<dots> = assemble_with ml lims (mail_assemble ml lims True) synthesize depth carrier me"
    unfolding assemble_levels.simps by (rule assemble_with_cong, rule assemble_levels_enough) simp
  finally show "mail_assemble ml lims synthesize depth carrier me =
      assemble_with ml lims (mail_assemble ml lims True) synthesize depth carrier me" .
qed

end
