(* ===== verification/Pst_Mail_Facts.thy ===== *)
theory Pst_Mail_Facts
  imports Pst_Mail
begin

text \<open>
  What holds of every message \<open>eml.py\<close> assembles: no header, file name, content id or MIME type carries a control
  character, but what the package reads back from a carrier's Message-ID; embedded messages nest no deeper than the
  check of the depth allows; and boundaries delimit.
\<close>

section \<open>A triple for stateful operations\<close>

definition safe :: "('s \<Rightarrow> bool) \<Rightarrow> (error \<Rightarrow> bool) \<Rightarrow> ('a \<Rightarrow> bool) \<Rightarrow> ('s, 'a) st \<Rightarrow> bool" where
  "safe I E Q m \<longleftrightarrow> (\<forall>s. I s \<longrightarrow> I (snd (m s)) \<and> (case fst (m s) of Inl e \<Rightarrow> E e | Inr x \<Rightarrow> Q x))"

lemma safeD: "safe I E Q m \<Longrightarrow> I s \<Longrightarrow> m s = (Inr x, s') \<Longrightarrow> Q x \<and> I s'"
  unfolding safe_def by force

lemma safeE: "safe I E Q m \<Longrightarrow> I s \<Longrightarrow> m s = (Inl e, s') \<Longrightarrow> E e \<and> I s'"
  unfolding safe_def by force

lemma safeI:
  assumes "\<And>s x s'. I s \<Longrightarrow> m s = (Inr x, s') \<Longrightarrow> Q x \<and> I s'" "\<And>s e s'. I s \<Longrightarrow> m s = (Inl e, s') \<Longrightarrow> E e \<and> I s'"
  shows "safe I E Q m"
proof -
  have "I (snd (m s)) \<and> (case fst (m s) of Inl e \<Rightarrow> E e | Inr x \<Rightarrow> Q x)" if s: "I s" for s
  proof -
    obtain r s' where run: "m s = (r, s')" by fastforce
    show ?thesis
    proof (cases r)
      case (Inl e)
      with run assms(2) [OF s, of e s'] show ?thesis by simp
    next
      case (Inr x)
      with run assms(1) [OF s, of x s'] show ?thesis by simp
    qed
  qed
  then show ?thesis unfolding safe_def by blast
qed

lemma safe_sret [intro]: "Q x \<Longrightarrow> safe I E Q (sret x)"
  by (simp add: safe_def)

lemma safe_slift: "(\<And>x. m = Inr x \<Longrightarrow> Q x) \<Longrightarrow> (\<And>e. m = Inl e \<Longrightarrow> E e) \<Longrightarrow> safe I E Q (slift m)"
  by (cases m) (simp_all add: safe_def)

lemma safe_sbind: "safe I E Q m \<Longrightarrow> (\<And>x. Q x \<Longrightarrow> safe I E R (f x)) \<Longrightarrow> safe I E R (sbind m f)"
  by (rule safeI) (auto simp: sbind_eq_Inr sbind_eq_Inl dest: safeD safeE)

lemma safe_weaken: "safe I E Q m \<Longrightarrow> (\<And>x. Q x \<Longrightarrow> Q' x) \<Longrightarrow> (\<And>e. E e \<Longrightarrow> E' e) \<Longrightarrow> safe I E' Q' m"
  by (rule safeI) (auto dest: safeD safeE)

lemma safe_if: "(c \<Longrightarrow> safe I E Q a) \<Longrightarrow> (\<not> c \<Longrightarrow> safe I E Q b) \<Longrightarrow> safe I E Q (if c then a else b)"
  by simp

lemma safe_behaves: "behaves I ex E m \<Longrightarrow> E PstLimitError \<Longrightarrow> safe I E (\<lambda>_. True) m"
proof (rule safeI)
  fix s x s' assume "behaves I ex E m" "I s" "m s = (Inr x, s')"
  with behaves_keeps [of I ex E m s] show "True \<and> I s'" by simp
next
  fix s e s' assume "behaves I ex E m" "E PstLimitError" "I s" "m s = (Inl e, s')"
  with behaves_keeps [of I ex E m s] behaves_Inl [of I ex E m s e] show "E e \<and> I s'" by simp
qed

text \<open>Nothing is asked of the state and nothing said of the exceptions.\<close>

abbreviation yields :: "('a \<Rightarrow> bool) \<Rightarrow> ('s, 'a) st \<Rightarrow> bool" where
  "yields \<equiv> safe (\<lambda>_. True) (\<lambda>_. True)"

lemma yields_any [simp, intro]: "yields (\<lambda>_. True) m"
  by (rule safeI) simp_all

lemma yields_anything: "(\<And>x. Q x) \<Longrightarrow> yields Q m"
  by (rule safeI) simp_all

lemma safe_scatch:
  assumes "safe I F Q m" "safe I E Q h" "\<And>e. F e \<Longrightarrow> \<not> catches e \<Longrightarrow> E e"
  shows "safe I E Q (scatch catches m h)"
proof -
  have one: "(r = Inr x \<longrightarrow> Q x) \<and> (r = Inl e \<longrightarrow> E e) \<and> I s'" if I: "I s" and run: "scatch catches m h s = (r, s')" for s r s' x e
  proof (cases "m s")
    case m: (Pair q s1)
    show ?thesis
    proof (cases q)
      case (Inr y)
      with m run safeD [OF assms(1) I, of y s1] show ?thesis by (auto simp: scatch_def)
    next
      case (Inl f)
      have f: "F f" "I s1" using safeE [OF assms(1) I, of f s1] m Inl by simp_all
      show ?thesis
      proof (cases "catches f")
        case True
        then have "h s1 = (r, s')" using m Inl run by (simp add: scatch_def)
        then show ?thesis using safeD [OF assms(2) f(2)] safeE [OF assms(2) f(2)] by (cases r) auto
      next
        case False
        with m Inl run f assms(3) [OF f(1)] show ?thesis by (auto simp: scatch_def)
      qed
    qed
  qed
  show ?thesis by (rule safeI) (use one in blast)+
qed

lemma safe_sfold:
  assumes "P acc" "\<And>acc x. P acc \<Longrightarrow> x \<in> set xs \<Longrightarrow> safe I E P (f acc x)"
  shows "safe I E P (sfold f acc xs)"
  using assms
proof (induction xs arbitrary: acc)
  case (Cons x xs)
  then show ?case by (auto intro!: safe_sbind [where Q = P])
qed auto

lemma safe_zoom:
  assumes "safe I E Q m" "\<And>t. J t \<Longrightarrow> I (g t)" "\<And>s t. J t \<Longrightarrow> I s \<Longrightarrow> J (p s t)"
  shows "safe J E Q (szoom g p m)"
  using assms unfolding safe_def szoom_def by (simp add: case_prod_beta)

lemma safe_inside:
  assumes "safe I E Q m" "\<And>s t. J (s, t) \<Longrightarrow> I (ms, t)" "\<And>s t s' t'. J (s, t) \<Longrightarrow> I (s', t') \<Longrightarrow> J (s, t')"
  shows "safe J E Q (inside ms m)"
proof (rule safeI)
  fix s x s' assume J: "J s" and run: "inside ms m s = (Inr x, s')"
  obtain a t where s: "s = (a, t)" by fastforce
  obtain b t' where m: "m (ms, t) = (Inr x, (b, t'))" "s' = (a, t')"
    using run by (auto simp: s inside_def split: prod.splits)
  show "Q x \<and> J s'" using safeD [OF assms(1) _ m(1)] assms(2,3) J s m(2) by blast
next
  fix s e s' assume J: "J s" and run: "inside ms m s = (Inl e, s')"
  obtain a t where s: "s = (a, t)" by fastforce
  obtain b t' where m: "m (ms, t) = (Inl e, (b, t'))" "s' = (a, t')"
    using run by (auto simp: s inside_def split: prod.splits)
  show "E e \<and> J s'" using safeE [OF assms(1) _ m(1)] assms(2,3) J s m(2) by blast
qed

lemma safe_run:
  assumes "safe I E Q m" "I s"
  shows "safe J E (\<lambda>(x, s'). Q x \<and> I s') (slift (srun m s))"
  using assms by (intro safe_slift) (auto simp: srun_def ebind_Inr_iff ebind_Inl_iff split: prod.splits dest: safeD safeE)

section \<open>Clean text\<close>

definition clean_text :: "ustring \<Rightarrow> bool" where
  "clean_text s \<longleftrightarrow> (\<forall>c \<in> set s. \<not> is_control c)"

definition clean_option :: "ustring option \<Rightarrow> bool" where
  "clean_option v \<longleftrightarrow> (\<forall>s. v = Some s \<longrightarrow> clean_text s)"

named_theorems clean "texts without control characters"

lemma clean_append [clean]: "clean_text (a @ b) \<longleftrightarrow> clean_text a \<and> clean_text b"
  by (auto simp: clean_text_def)

lemma clean_nil [clean]: "clean_text []"
  by (simp add: clean_text_def)

lemma clean_cons [clean]: "clean_text (c # s) \<longleftrightarrow> \<not> is_control c \<and> clean_text s"
  by (auto simp: clean_text_def)

lemma clean_ascii [clean]: "clean_text (ascii s) \<longleftrightarrow> (\<forall>c \<in> set s. \<not> is_control (of_char c))"
  by (auto simp: clean_text_def ascii_def)

lemma clean_subset: "clean_text s \<Longrightarrow> set t \<subseteq> set s \<Longrightarrow> clean_text t"
  by (auto simp: clean_text_def)

lemma clean_option_simps [clean]: "clean_option None" "clean_option (Some s) \<longleftrightarrow> clean_text s"
  by (simp_all add: clean_option_def)

lemma mail_clean_clean [intro, simp]: "clean_option (mail_clean v)"
proof -
  have "clean_text (py_strip (filter (\<lambda>c. \<not> is_control c) s))" for s
    by (rule clean_subset [OF _ set_py_strip]) (simp add: clean_text_def)
  then show ?thesis by (auto simp: mail_clean_def clean_option_def)
qed

lemma clean_the: "clean_option v \<Longrightarrow> truthy v \<Longrightarrow> clean_text (the v)"
  by (auto simp: clean_option_def truthy_def)

lemma clean_or: "clean_option a \<Longrightarrow> clean_option b \<Longrightarrow> clean_option (py_or a b)"
  by (simp add: py_or_def)

lemma clean_strip_by: "clean_text s \<Longrightarrow> clean_text (rstrip_by p s)" "clean_text s \<Longrightarrow> clean_text (lstrip_by p s)"
  "clean_text s \<Longrightarrow> clean_text (py_strip s)" "clean_text s \<Longrightarrow> clean_text (before_char c s)"
  by (rule clean_subset, assumption, rule set_rstrip_by, rule clean_subset, assumption,
      force simp: lstrip_by_def dest: set_dropWhileD, rule clean_subset, assumption, rule set_py_strip,
      rule clean_subset, assumption, force simp: before_char_def dest: set_takeWhileD)

lemma clean_hex: "(\<And>c. c \<in> set s \<Longrightarrow> is_hex c) \<Longrightarrow> clean_text s"
  unfolding clean_text_def is_control_def is_hex_def by fastforce

lemma clean_numbers [clean]: "clean_text (hex8 n)" "clean_text (decimal n)" "clean_text (bytes_hex bs)"
proof -
  have zfill: "is_hex c" if "c \<in> set (zfill w 48 (digits_of 16 n))" for c w n
    using that digits_of_hex [of 16 c n] by (auto simp: zfill_def is_hex_def split: if_splits)
  show "clean_text (hex8 n)" by (rule clean_hex) (rule hex8_hex)
  show "clean_text (decimal n)" by (rule clean_hex) (auto simp: decimal_def intro: digits_of_hex [of 10])
  show "clean_text (bytes_hex bs)" by (rule clean_hex) (auto simp: bytes_hex_def intro: zfill)
qed

lemma clean_zfill [clean]: "clean_text s \<Longrightarrow> \<not> is_control c \<Longrightarrow> clean_text (zfill w c s)"
  by (auto simp: zfill_def clean_text_def)

lemma clean_join: "clean_text sep \<Longrightarrow> (\<And>x. x \<in> set xs \<Longrightarrow> clean_text x) \<Longrightarrow> clean_text (py_join sep xs)"
  by (rule clean_subset [of "sep @ concat xs"]) (use set_py_join in \<open>auto simp: clean_text_def\<close>)

lemma clean_quote [clean]: "clean_text (quote_string s) \<longleftrightarrow> clean_text s"
  by (induction s) (auto simp: quote_string_def clean is_control_def)

lemma clean_address: "clean_option (mail_address name smtp fallback)"
  using clean_the [OF clean_or [OF mail_clean_clean [of smtp] mail_clean_clean [of fallback]]]
    clean_the [OF mail_clean_clean [of name]]
  by (auto simp: mail_address_def Let_def clean is_control_def)

lemma month_day_range: "ls \<noteq> [] \<Longrightarrow> month_day ls m n = (m', d) \<Longrightarrow> m \<le> m' \<and> m' < m + len ls"
  by (induction ls m n rule: month_day.induct) (auto split: if_splits)

lemma clean_nth: "(\<forall>x \<in> set xs. clean_text x) \<Longrightarrow> i < length xs \<Longrightarrow> clean_text (xs ! i)"
  by simp

lemma clean_weekday [clean]: "clean_text (weekday_name days)"
  unfolding weekday_name_def by (rule clean_nth) (auto simp: clean is_control_def nat_less_iff)

lemma clean_month:
  assumes "civil_date days = (y, m, d)"
  shows "clean_text (month_name m)"
proof -
  obtain n where "month_day (month_lengths y) 1 n = (m, d)"
    using assms by (auto simp: civil_date_def Let_def split: prod.splits)
  from month_day_range [OF _ this] have m: "1 \<le> m" "m \<le> 12" by (simp_all add: month_lengths_def)
  show ?thesis unfolding month_name_def
    by (rule clean_nth) (use m in \<open>auto simp: clean is_control_def nat_less_iff\<close>)
qed

lemma clean_clock [clean]: "clean_text (clock n)"
  unfolding clock_def by (rule clean_join) (auto simp: clean is_control_def)

lemma clean_dates [clean]: "clean_text (format_datetime dt)" "clean_text (asctime dt)"
proof -
  obtain y m d where date: "civil_date (dt_micros dt div MICROS_PER_DAY) = (y, m, d)" by (metis prod_cases3)
  show "clean_text (format_datetime dt)" "clean_text (asctime dt)"
    unfolding format_datetime_def asctime_def Let_def date prod.case
    by (rule clean_join; use clean_month [OF date] in \<open>auto simp: clean is_control_def\<close>)+
qed

section \<open>Every header value is clean\<close>

abbreviation clean_headers :: "(ustring \<times> ustring) list \<Rightarrow> bool" where
  "clean_headers hs \<equiv> \<forall>h \<in> set hs. clean_text (snd h)"

text \<open>
  The one value not cleaned is the Message-ID made up for an embedded message: it starts with what the package reads
  back from the Message-ID of its carrier (\<open>ml_text\<close>), which may decode to anything. The exemption is for that value
  alone.
\<close>

definition made_id :: "ustring option \<Rightarrow> ustring \<times> ustring \<Rightarrow> bool" where
  "made_id carrier h \<longleftrightarrow>
     (\<exists>p node. carrier = Some p \<and> h = (H_MESSAGE_ID, synthetic_id_form [] node (Some p)))"

definition mostly_clean :: "ustring option \<Rightarrow> (ustring \<times> ustring) list \<Rightarrow> bool" where
  "mostly_clean carrier hs \<longleftrightarrow> (\<forall>h \<in> set hs. clean_text (snd h) \<or> made_id carrier h)"

lemma mostly_clean_simps [simp]:
  "mostly_clean carrier []" "mostly_clean None hs \<longleftrightarrow> clean_headers hs"
  "mostly_clean carrier (h # hs) \<longleftrightarrow> (clean_text (snd h) \<or> made_id carrier h) \<and> mostly_clean carrier hs"
  "mostly_clean carrier (hs @ hs') \<longleftrightarrow> mostly_clean carrier hs \<and> mostly_clean carrier hs'"
  by (auto simp: mostly_clean_def made_id_def)

lemma mostly_clean_clean: "clean_headers hs \<Longrightarrow> mostly_clean carrier hs"
  by (simp add: mostly_clean_def)

lemma pass_headers_clean: "clean_headers (pass_headers parsed)"
proof -
  have "clean_text (the (mail_clean (Some v)))" for v
    using mail_clean_clean [of "Some v"] by (simp add: mail_clean_def clean)
  then show ?thesis by (auto simp: pass_headers_def)
qed

lemma mail_guard_Inr [simp]: "mail_guard m = Inr x \<longleftrightarrow> m = Inr x"
  by (cases m) (simp_all add: mail_guard_def)

lemma mail_transport_clean: "yields clean_headers (mail_transport ml me)"
  unfolding mail_transport_def
  by (rule safe_sbind [where Q = "\<lambda>_. True"], simp) (use pass_headers_clean in \<open>force intro!: safe_if safe_slift safe_sret simp: ebind_Inr_iff\<close>)

lemma mail_sender_clean: "yields clean_option (mail_sender me)"
  unfolding mail_sender_def
  by (rule safe_sbind [where Q = "\<lambda>_. True"], simp)+ (auto intro: clean_address)

lemma recipient_headers_clean: "yields clean_headers (recipient_headers me)"
proof -
  have "clean_text (py_join (ascii '', '') (recipient_bucket rs t))" for rs t
  proof (rule clean_join)
    show "clean_text x" if "x \<in> set (recipient_bucket rs t)" for x
      using that clean_address by (fastforce simp: recipient_bucket_def clean_option_def)
  qed (simp add: clean is_control_def)
  then show ?thesis
    unfolding recipient_headers_def by (intro safe_sbind [where Q = "\<lambda>_. True"] safe_sret) auto
qed

lemma mail_date_clean: "yields clean_option (mail_date me)"
  unfolding mail_date_def
  by (rule safe_sbind [where Q = "\<lambda>_. True"], simp)+ (intro safe_sret, auto simp: clean_option_def clean)

lemma stored_message_id_clean: "yields clean_option (stored_message_id me)"
proof -
  have "clean_text (stored_id_form t)" if "clean_text t" for t
    using that by (simp add: stored_id_form_def clean is_control_def)
  then show ?thesis unfolding stored_message_id_def
    by (intro safe_sbind [where Q = "\<lambda>_. True"])
      (auto simp: Let_def clean clean_the split: prop_value.split intro!: safe_sret safe_slift)
qed

lemma mail_record_key_clean: "yields clean_text (mail_record_key me)"
  unfolding mail_record_key_def
  by (intro safe_scatch [where F = "\<lambda>_. True"] safe_sbind [where Q = "\<lambda>_. True"] safe_sret)
    (auto simp: clean is_control_def)

lemma synthetic_message_id_clean: "yields (\<lambda>i. clean_text i \<or> made_id carrier (H_MESSAGE_ID, i)) (synthetic_message_id me carrier)"
proof -
  have form: "clean_text (synthetic_id_form key node None)" if "clean_text key" for key node
    using that by (simp add: synthetic_id_form_def SYNTHETIC_ID_DOMAIN_def clean is_control_def)
  show ?thesis
    unfolding synthetic_message_id_def
    by (cases carrier) (auto simp: made_id_def form intro!: safe_sbind [OF mail_record_key_clean] safe_sret)
qed

text \<open>The headers made up are a selection of the seven, in their order.\<close>

definition made_ok :: "ustring option \<Rightarrow> (ustring \<times> ustring) list \<Rightarrow> bool" where
  "made_ok carrier made \<longleftrightarrow> mostly_clean carrier made \<and> subseq (map fst made) SYNTHESIS_ORDER"

lemma in_order:
  "subseq (map fst (concat (map (\<lambda>n. case map_of made n of None \<Rightarrow> [] | Some v \<Rightarrow> [(n, v)]) names))) names"
  "h \<in> set (concat (map (\<lambda>n. case map_of made n of None \<Rightarrow> [] | Some v \<Rightarrow> [(n, v)]) names)) \<Longrightarrow> h \<in> set made"
  by (induction names) (auto split: option.splits dest: map_of_SomeD map_of_SomeD [OF sym])

lemma option_header: "h \<in> set (case x of None \<Rightarrow> [] | Some v \<Rightarrow> [(n, v)]) \<longleftrightarrow> (\<exists>v. x = Some v \<and> h = (n, v))"
  by (cases x) auto

abbreviation made_parts ::
  "ustring set \<Rightarrow> ustring option \<Rightarrow> (ustring \<times> ustring) list \<Rightarrow> ustring option \<Rightarrow> ustring option \<Rightarrow> ustring option \<Rightarrow>
   (ustring \<times> ustring) list" where
  "made_parts have sender recipients subject date message_id \<equiv>
     (if ascii ''from'' \<notin> have then (case sender of None \<Rightarrow> [] | Some v \<Rightarrow> [(H_FROM, v)]) else []) @
     filter (\<lambda>(header, v). ascii_lower header \<notin> have) recipients @
     (if truthy subject then [(H_SUBJECT, the subject)] else []) @
     (case date of None \<Rightarrow> [] | Some v \<Rightarrow> [(H_DATE, v)]) @
     (case message_id of None \<Rightarrow> [] | Some v \<Rightarrow> [(H_MESSAGE_ID, v)])"

lemma made_parts_mem:
  "h \<in> set (made_parts have sender recipients subject date message_id) \<longleftrightarrow>
     (ascii ''from'' \<notin> have \<and> (\<exists>v. sender = Some v \<and> h = (H_FROM, v))) \<or>
     (h \<in> set recipients \<and> ascii_lower (fst h) \<notin> have) \<or> (truthy subject \<and> h = (H_SUBJECT, the subject)) \<or>
     (\<exists>v. date = Some v \<and> h = (H_DATE, v)) \<or> (\<exists>v. message_id = Some v \<and> h = (H_MESSAGE_ID, v))"
proof -
  have pick: "h \<in> set (if c then xs else []) \<longleftrightarrow> c \<and> h \<in> set xs" for c and xs :: "(ustring \<times> ustring) list"
    by simp
  have kept: "h \<in> set (filter (\<lambda>(header, v). P header) recipients) \<longleftrightarrow> h \<in> set recipients \<and> P (fst h)" for P
    by (cases h) simp
  show ?thesis unfolding set_append Un_iff pick kept option_header by simp
qed

lemma made_parts_ok:
  assumes "clean_option sender" "clean_headers recipients" "clean_option subject" "clean_option date"
    "\<forall>v. message_id = Some v \<longrightarrow> clean_text v \<or> made_id carrier (H_MESSAGE_ID, v)"
  shows "mostly_clean carrier (made_parts have sender recipients subject date message_id)"
  using assms unfolding mostly_clean_def Ball_def made_parts_mem by (auto simp: clean_option_def clean_the)

lemma synthesised_ok: "yields (made_ok carrier) (synthesised me have carrier)"
proof -
  let ?id = "ascii ''message-id''" and ?ok = "\<lambda>v. \<forall>i. v = Some i \<longrightarrow> clean_text i \<or> made_id carrier (H_MESSAGE_ID, i)"
  have made: "made_ok carrier (concat (map (\<lambda>name. case map_of made name of None \<Rightarrow> [] | Some v \<Rightarrow> [(name, v)]) SYNTHESIS_ORDER))"
    if "mostly_clean carrier made" for made
    using that in_order [where made = made and names = SYNTHESIS_ORDER] unfolding made_ok_def mostly_clean_def by blast
  have id: "yields ?ok
      (if ?id \<in> have then sret None
       else sbind (stored_message_id me) (\<lambda>stored.
         if truthy stored then sret stored else sbind (synthetic_message_id me carrier) (\<lambda>i. sret (Some i))))"
    by (auto intro!: safe_if safe_sret safe_sbind [OF stored_message_id_clean] safe_sbind [OF synthetic_message_id_clean]
        simp: clean_option_def)
  have date: "yields clean_option (if ascii ''date'' \<in> have then sret None else mail_date me)"
    by (auto intro!: safe_if safe_sret mail_date_clean simp: clean)
  have subject: "yields clean_option
      (if ascii ''subject'' \<in> have then sret None else sbind (on_message (Message_subject me)) (\<lambda>subject. sret (mail_clean subject)))"
    by (intro safe_if safe_sbind [where Q = "\<lambda>_. True"] safe_sret) (auto simp: clean)
  show ?thesis
    unfolding synthesised_def Let_def
    by (rule safe_sbind [OF mail_sender_clean], rule safe_sbind [OF recipient_headers_clean], rule safe_sbind [OF subject],
        rule safe_sbind [OF date], rule safe_sbind [OF id], rule safe_sret, rule made, rule made_parts_ok)
qed

section \<open>The parts\<close>

definition clean_data_part :: "data_part \<Rightarrow> bool" where
  "clean_data_part p \<longleftrightarrow> clean_option (dp_filename p) \<and> clean_option (dp_cid p) \<and>
     is_mime_token (fst (dp_type p)) \<and> is_mime_token (snd (dp_type p))"

text \<open>
  The whole tree, the messages embedded in it included, each judged against the Message-ID of the mail that
  carries it.
\<close>

fun clean_mail :: "mailer \<Rightarrow> ustring option \<Rightarrow> mail \<Rightarrow> bool" and clean_part :: "mailer \<Rightarrow> ustring option \<Rightarrow> mail_part \<Rightarrow> bool" where
  "clean_mail ml carrier (Mail hs bodies parts bs) \<longleftrightarrow>
     mostly_clean carrier hs \<and> (\<forall>p \<in> set parts. clean_part ml (carried_by ml hs carrier) p)"
| "clean_part ml carrier (DataPart p) \<longleftrightarrow> clean_data_part p"
| "clean_part ml carrier (EmbeddedPart m name) \<longleftrightarrow> clean_mail ml carrier m \<and> clean_option name"

lemma token_lower: "is_mime_token s \<Longrightarrow> is_mime_token (ascii_lower s)"
proof -
  have "is_token_char (c + 32)" if "65 \<le> c" "c \<le> 90" for c
    using that by (simp add: is_token_char_def del: ascii_simps)
  then show "is_mime_token s \<Longrightarrow> is_mime_token (ascii_lower s)" by (auto simp: is_mime_token_def ascii_lower_def)
qed

lemma mime_type_tokens: "is_mime_token (fst (mime_type tag))" "is_mime_token (snd (mime_type tag))"
proof -
  have "is_mime_token (fst FALLBACK_TYPE)" "is_mime_token (snd FALLBACK_TYPE)"
    by (simp_all add: FALLBACK_TYPE_def is_mime_token_def is_token_char_def)
  then show "is_mime_token (fst (mime_type tag))" "is_mime_token (snd (mime_type tag))"
    by (simp_all add: mime_type_def Let_def token_lower)
qed

lemma content_id_clean: "clean_option (content_id_form v)"
proof -
  have "clean_text (py_strip (rstrip_by p (lstrip_by q (the (mail_clean v)))))" if "truthy (mail_clean v)" for p q
    by (intro clean_strip_by clean_the that mail_clean_clean)
  then show ?thesis by (simp add: content_id_form_def Let_def clean is_control_def)
qed

lemma mail_filename_clean: "yields clean_option (mail_filename at)"
  unfolding mail_filename_def by (intro safe_sbind [where Q = "\<lambda>_. True"] safe_if safe_sret) simp_all

lemma skipped_value_clean: "clean_text (skipped_value m name)"
proof -
  have "clean_option (py_or (mail_clean v) (Some (attach_method_name m)))" for v
    by (rule clean_or) (cases m; simp add: clean is_control_def)+
  moreover have "truthy (py_or (mail_clean v) (Some (attach_method_name m)))" for v
    by (cases m) (simp_all add: py_or_def truthy_def)
  ultimately show ?thesis unfolding skipped_value_def by (intro clean_the)
qed

definition clean_attached :: "attached \<Rightarrow> bool" where
  "clean_attached a \<longleftrightarrow>
     (case a of Skipped m name \<Rightarrow> True | Bytes p \<Rightarrow> clean_data_part p | Embedded e name \<Rightarrow> clean_option name)"

lemma read_attached_clean: "yields clean_attached (read_attached ml lims depth html at)"
  unfolding read_attached_def Let_def
  by (intro safe_sbind [where Q = "\<lambda>_. True", OF yields_any] safe_sbind [OF mail_filename_clean] safe_if)
    (auto simp: clean_attached_def clean_data_part_def mime_type_tokens content_id_clean split: option.split
      intro!: safe_sbind [where Q = "\<lambda>_. True", OF yields_any] safe_sret)

abbreviation clean_draft :: "mailer \<Rightarrow> ustring option \<Rightarrow> (ustring \<times> ustring) list \<times> mail_part list \<Rightarrow> bool" where
  "clean_draft ml carrier \<equiv> \<lambda>(headers, parts).
     mostly_clean carrier headers \<and> (\<forall>p \<in> set parts. clean_part ml (carried_by ml headers carrier) p)"

definition assembles_clean :: "mailer \<Rightarrow> assembler \<Rightarrow> bool" where
  "assembles_clean ml assemble \<longleftrightarrow> (\<forall>depth carrier me. yields (clean_mail ml carrier) (assemble depth carrier me))"

lemma add_header_Inr: "add_header ml before h = Inr hs \<Longrightarrow> hs = before @ [h]"
  by (auto simp: add_header_def ebind_Inr_iff)

text \<open>A note on a skipped attachment does not change what embedded messages are carried by.\<close>

lemma carried_by_skipped: "carried_by ml (hs @ [(SKIPPED_HEADER, v)]) carrier = carried_by ml hs carrier"
proof -
  have "ascii_lower SKIPPED_HEADER \<noteq> ascii ''message-id''" by (simp add: SKIPPED_HEADER_def ascii_lower_def)
  then have "find (\<lambda>(name, v). ascii_lower name = ascii ''message-id'') (hs @ [(SKIPPED_HEADER, v)]) =
      find (\<lambda>(name, v). ascii_lower name = ascii ''message-id'') hs"
    by (induction hs) (auto simp del: ascii_simps)
  then show ?thesis by (simp add: carried_by_def own_message_id_def del: ascii_simps)
qed

text \<open>One rule for every property of the step on an attachment.\<close>

lemma safe_add_part:
  "Q (hs, ps @ [p]) \<Longrightarrow> (\<And>e. mail_guard (ml_part ml bodies ps p) = Inl e \<Longrightarrow> E e) \<Longrightarrow>
   safe I E Q (slift (add_part ml bodies hs ps p))"
  by (rule safe_slift) (auto simp: add_part_def ebind_Inr_iff ebind_Inl_iff)

lemma safe_add_attachment:
  assumes read: "safe J E (\<lambda>(a, s'). A a) (slift (srun (read_attached ml lims depth (html_text bodies) at) s))"
    and skipped: "\<And>m n. A (Skipped m n) \<Longrightarrow> Q (hs @ [(SKIPPED_HEADER, skipped_value m n)], ps)"
    and refused: "\<And>m n e. A (Skipped m n) \<Longrightarrow> ml_header ml hs (SKIPPED_HEADER, skipped_value m n) = Inl e \<Longrightarrow> E e"
    and bytes: "\<And>p. A (Bytes p) \<Longrightarrow> Q (hs, ps @ [DataPart p])"
    and part: "\<And>p e. mail_guard (ml_part ml bodies ps p) = Inl e \<Longrightarrow> E e"
    and absent: "\<And>n. A (Embedded None n) \<Longrightarrow> Q (hs, ps)"
    and embedded: "\<And>n inner ms. A (Embedded (Some (inner, ms)) n) \<Longrightarrow>
      safe J E (\<lambda>m. Q (hs, ps @ [EmbeddedPart m n])) (inside ms (f (depth + 1) (carried_by ml hs carrier) inner))"
  shows "safe J E Q (add_attachment ml lims f depth carrier bodies (hs, ps) (at, s))"
  unfolding add_attachment_def prod.case
proof (rule safe_sbind [OF read], clarify)
  fix a :: attached and s' :: attachment_state
  assume a: "A a"
  show "safe J E Q (attach ml f depth carrier bodies (hs, ps) a)"
  proof (cases a rule: attached_cases)
    case (skipped m name)
    have "safe J E (\<lambda>hs'. Q (hs', ps)) (slift (add_header ml hs (SKIPPED_HEADER, skipped_value m name)))"
      using assms(2) refused a skipped
      by (intro safe_slift) (auto simp: add_header_def ebind_Inr_iff ebind_Inl_iff)
    then show ?thesis unfolding skipped attach_simps by (rule safe_sbind) (rule safe_sret)
  next
    case (bytes p)
    show ?thesis unfolding bytes attach_simps by (rule safe_add_part, rule assms(4), use a bytes in simp, rule part)
  next
    case (none name)
    show ?thesis unfolding none attach_simps by (rule safe_sret, rule absent [of name]) (use a none in simp)
  next
    case (message inner ms name)
    show ?thesis unfolding message attach_simps
      by (rule safe_sbind [OF embedded], use a message in simp, rule safe_add_part) (use part in auto)
  qed
qed

lemma add_attachment_clean:
  assumes "assembles_clean ml f" "clean_draft ml carrier acc"
  shows "yields (clean_draft ml carrier) (add_attachment ml lims f depth carrier bodies acc x)"
proof -
  obtain hs ps at s where x: "acc = (hs, ps)" "x = (at, s)" by (cases acc; cases x)
  have run: "yields (\<lambda>(a, s'). clean_attached a) (slift (srun (read_attached ml lims depth (html_text bodies) at) s))"
    by (rule safe_weaken [OF safe_run [OF read_attached_clean]]) auto
  have hs: "mostly_clean carrier hs" "\<forall>p \<in> set ps. clean_part ml (carried_by ml hs carrier) p" using assms(2) by (simp_all add: x)
  have below: "yields (\<lambda>m. clean_draft ml carrier (hs, ps @ [EmbeddedPart m n]))
      (inside ms (f (depth + 1) (carried_by ml hs carrier) me))" if "clean_attached (Embedded e n)" for n e me ms
  proof (rule safe_inside)
    have "clean_option n" using that by (simp add: clean_attached_def)
    moreover have "yields (clean_mail ml (carried_by ml hs carrier)) (f (depth + 1) (carried_by ml hs carrier) me)"
      using assms(1) unfolding assembles_clean_def by blast
    ultimately show "yields (\<lambda>m. clean_draft ml carrier (hs, ps @ [EmbeddedPart m n])) (f (depth + 1) (carried_by ml hs carrier) me)"
      using hs by (elim safe_weaken) auto
  qed simp_all
  show ?thesis unfolding x
  proof (rule safe_add_attachment [OF run])
    show "clean_draft ml carrier (hs @ [(SKIPPED_HEADER, skipped_value m n)], ps)" for m n
      using hs by (simp add: skipped_value_clean carried_by_skipped)
    show "clean_draft ml carrier (hs, ps @ [DataPart p])" if "clean_attached (Bytes p)" for p
      using hs that by (auto simp: clean_attached_def)
    show "clean_draft ml carrier (hs, ps)" using hs by simp
  qed (rule below TrueI | assumption)+
qed

text \<open>How deep messages are embedded in a mail.\<close>

fun mail_levels :: "mail \<Rightarrow> nat" and part_levels :: "mail_part \<Rightarrow> nat" where
  "mail_levels (Mail hs bodies parts bs) = foldr max (map part_levels parts) 0"
| "part_levels (DataPart p) = 0"
| "part_levels (EmbeddedPart m name) = Suc (mail_levels m)"

definition own_headers :: "(ustring \<times> ustring) list \<Rightarrow> (ustring \<times> ustring) list" where
  "own_headers made = (if made = [] then [] else [(SYNTHESIZED_HEADER, py_join (ascii '', '') (map fst made))])"

lemma mail_transport_ok: "yields clean_headers (mail_transport ml me)"
  by (rule mail_transport_clean)

lemma set_headers_Inr: "set_headers ml before hs = Inr hs' \<Longrightarrow> hs' = before @ hs"
proof (induction hs arbitrary: before)
  case (Cons h hs)
  then have "set_headers ml (before @ [h]) hs = Inr hs'" by (auto simp: ebind_Inr_iff)
  from Cons.IH [OF this] show ?case by simp
qed simp

lemma add_headers_Inr: "efold (add_header ml) before hs = Inr hs' \<Longrightarrow> hs' = before @ hs"
proof (induction hs arbitrary: before)
  case (Cons h hs)
  then obtain hs1 where "add_header ml before h = Inr hs1" "efold (add_header ml) hs1 hs = Inr hs'"
    by (auto simp: ebind_Inr_iff)
  from Cons.IH [OF this(2)] add_header_Inr [OF this(1)] show ?case by simp
qed simp

lemma body_note_ok: "clean_headers (body_note bodies)" "h \<in> set (body_note bodies) \<Longrightarrow> fst h = BODY_HEADER"
  by (auto simp: body_note_def clean is_control_def split: list.splits if_splits)

lemma clean_names: "subseq ns SYNTHESIS_ORDER \<Longrightarrow> clean_text (py_join (ascii '', '') ns)"
proof (rule clean_join)
  fix n assume "subseq ns SYNTHESIS_ORDER" "n \<in> set ns"
  then have "n \<in> set SYNTHESIS_ORDER" using list_emb_set [of "(=)" ns SYNTHESIS_ORDER n] by blast
  then show "clean_text n"
    by (auto simp: SYNTHESIS_ORDER_def H_FROM_def H_TO_def H_CC_def H_BCC_def H_SUBJECT_def H_DATE_def H_MESSAGE_ID_def
        clean is_control_def)
qed (simp add: clean is_control_def)

lemma add_attachments_clean:
  assumes "assembles_clean ml f" "mostly_clean carrier hs"
  shows "yields (clean_draft ml carrier) (add_attachments ml lims f depth carrier me bodies hs)"
  unfolding add_attachments_def
  by (rule safe_sbind [OF yields_any], rule safe_sfold, use assms(2) in simp, rule safe_sbind [OF yields_any],
      rule add_attachment_clean [OF assms(1)]) simp

lemma yields_both: "yields P m \<Longrightarrow> yields Q m \<Longrightarrow> yields (\<lambda>x. P x \<and> Q x) m"
  by (rule safeI) (auto dest: safeD)

lemma yields_known: "(\<And>x. m = Inr x \<Longrightarrow> x = v) \<Longrightarrow> yields R (f v) \<Longrightarrow> yields R (sbind (slift m) f)"
  by (rule safe_sbind [where Q = "\<lambda>x. x = v"], rule safe_slift) auto

text \<open>The boundaries change nothing else.\<close>

lemma set_boundaries_Inr:
  "set_boundaries ml node depth n m = Inr m' \<Longrightarrow>
   \<exists>bs. m' = Mail (mail_headers m) (mail_bodies m) (mail_parts m) (bs @ mail_boundaries m) \<and> length bs = n"
proof (induction n arbitrary: m)
  case 0
  then show ?case by (cases m) simp
next
  case (Suc n)
  then obtain b where "set_boundaries ml node depth n
      (Mail (mail_headers m) (mail_bodies m) (mail_parts m) (b # mail_boundaries m)) = Inr m'"
    by (auto simp: ebind_Inr_iff Let_def)
  from Suc.IH [OF this] obtain bs where "m' = Mail (mail_headers m) (mail_bodies m) (mail_parts m) (bs @ b # mail_boundaries m)"
    "length bs = n" by auto
  then show ?case by (intro exI [of _ "bs @ [b]"]) simp
qed

lemma safe_set_boundaries:
  assumes "\<And>bs. Q (Mail hs bodies parts bs)" "\<And>e. set_boundaries ml node depth n (Mail hs bodies parts []) = Inl e \<Longrightarrow> E e"
  shows "safe I E Q (slift (set_boundaries ml node depth n (Mail hs bodies parts [])))"
  by (rule safe_slift) (use assms set_boundaries_Inr [of ml node depth n "Mail hs bodies parts []"] in auto)

text \<open>One assembly, from what holds of the steps.\<close>

lemma own_headers_set:
  "yields (\<lambda>hs'. hs' = hs @ own_headers made) (if made \<noteq> []
     then slift (add_header ml hs (SYNTHESIZED_HEADER, py_join (ascii '', '') (map fst made))) else sret hs)"
  by (auto simp: own_headers_def intro!: safe_if safe_slift safe_sret dest: add_header_Inr)

lemma own_headers_clean: "subseq (map fst made) SYNTHESIS_ORDER \<Longrightarrow> clean_headers (own_headers made)"
  using clean_names [of "map fst made"] by (auto simp: own_headers_def)

lemma assemble_with_clean:
  assumes "assembles_clean ml f"
  shows "yields (clean_mail ml carrier) (assemble_with ml lims f synthesize depth carrier me)"
proof -
  have made: "yields (made_ok carrier) (if synthesize then synthesised me names carrier else sret [])" for names
    using synthesised_ok by (auto simp: made_ok_def intro!: safe_sret)
  have rest: "yields (clean_mail ml carrier)
      (sbind (add_attachments ml lims f depth carrier me bodies (((passed @ made) @ own_headers made) @ body_note noted))
        (\<lambda>(headers4, parts). let m = Mail headers4 all parts [] in
          slift (set_boundaries ml (ms_node me) depth (ml_multiparts ml m) m)))"
    if p: "clean_headers passed" and m: "made_ok carrier made" for passed made bodies noted all
  proof (rule safe_sbind [OF add_attachments_clean [OF assms]])
    show "mostly_clean carrier (((passed @ made) @ own_headers made) @ body_note noted)"
      using p m body_note_ok(1) [of noted] mostly_clean_clean [OF own_headers_clean, of made carrier]
      by (simp add: made_ok_def mostly_clean_clean)
    show "yields (clean_mail ml carrier) (case x of (headers4, parts) \<Rightarrow> let m = Mail headers4 all parts [] in
          slift (set_boundaries ml (ms_node me) depth (ml_multiparts ml m) m))" if "clean_draft ml carrier x" for x
      using that by (cases x) (auto simp: Let_def intro!: safe_set_boundaries)
  qed
  show ?thesis
    unfolding assemble_with_def
    by (rule safe_sbind [OF mail_transport_clean], rule yields_known, erule set_headers_Inr, simp only: append_Nil,
        rule safe_sbind [OF made], rule yields_known, erule set_headers_Inr, rule safe_sbind [OF own_headers_set],
        rule safe_sbind [OF yields_any], rule safe_sbind [OF yields_any], rule yields_known, erule add_headers_Inr,
        simp only:, rule rest)
qed

lemma mail_assemble_clean: "yields (clean_mail ml carrier) (mail_assemble ml lims synthesize depth carrier me)"
proof -
  have "assembles_clean ml (assemble_levels n ml lims s)" for n s
  proof (induction n arbitrary: s)
    case 0
    have "assembles_clean ml (\<lambda>depth carrier me. slift (Inl RecursionError))"
      by (auto simp: assembles_clean_def intro!: safe_slift)
    from assemble_with_clean [OF this] show ?case by (simp add: assembles_clean_def)
  next
    case (Suc n)
    from assemble_with_clean [OF Suc.IH [of True]] show ?case by (simp add: assembles_clean_def)
  qed
  then show ?thesis by (simp add: assembles_clean_def mail_assemble_def)
qed

section \<open>Nesting\<close>

abbreviation parts_levels :: "nat \<Rightarrow> mail_part list \<Rightarrow> bool" where
  "parts_levels n ps \<equiv> \<forall>p \<in> set ps. part_levels p \<le> n"

lemma foldr_max_le: "foldr max xs 0 \<le> n \<longleftrightarrow> (\<forall>x \<in> set xs. x \<le> (n :: nat))"
  by (induction xs) auto

text \<open>A message is embedded only where the check of the depth lets it be.\<close>

lemma add_attachment_levels:
  assumes "\<And>carrier me. depth + 1 \<le> max_embedded_message_depth lims \<Longrightarrow> yields (\<lambda>m. Suc (mail_levels m) \<le> n) (f (depth + 1) carrier me)"
    and "parts_levels n (snd acc)"
  shows "yields (\<lambda>(hs, ps). parts_levels n ps) (add_attachment ml lims f depth carrier bodies acc x)"
proof -
  let ?deep = "\<lambda>a. case a of Embedded e name \<Rightarrow> depth + 1 \<le> max_embedded_message_depth lims | _ \<Rightarrow> True"
  obtain hs ps at s where x: "acc = (hs, ps)" "x = (at, s)" by (cases acc; cases x)
  have run: "yields (\<lambda>(a, s'). ?deep a) (slift (srun (read_attached ml lims depth (html_text bodies) at) s))"
    by (rule safe_slift) (auto split: attached.split dest: read_attached_depth)
  have below: "yields (\<lambda>m. case (hs, ps @ [EmbeddedPart m name]) of (hs, ps) \<Rightarrow> parts_levels n ps)
      (inside ms (f (depth + 1) c me))" if "?deep (Embedded e name)" for name e ms c me
    by (rule safe_inside [OF safe_weaken [OF assms(1)]]) (use that assms(2) in \<open>auto simp: x\<close>)
  show ?thesis unfolding x
    by (rule safe_add_attachment [OF run]) (use below assms(2) in \<open>auto simp: x simp del: mail_levels.simps\<close>)
qed

lemma assemble_with_levels:
  assumes "\<And>carrier me. depth + 1 \<le> max_embedded_message_depth lims \<Longrightarrow> yields (\<lambda>m. Suc (mail_levels m) \<le> n) (f (depth + 1) carrier me)"
  shows "yields (\<lambda>m. mail_levels m \<le> n) (assemble_with ml lims f synthesize depth carrier me)"
proof -
  have parts: "yields (\<lambda>(hs, ps). parts_levels n ps) (add_attachments ml lims f depth carrier me bodies hs)" for bodies hs
    unfolding add_attachments_def
    by (rule safe_sbind [OF yields_any], rule safe_sfold, simp, rule safe_sbind [OF yields_any], rule add_attachment_levels)
      (use assms in auto)
  have last: "yields (\<lambda>m. mail_levels m \<le> n) (sbind (add_attachments ml lims f depth carrier me bodies hs)
      (\<lambda>(headers4, parts). let m = Mail headers4 all parts [] in
        slift (set_boundaries ml (ms_node me) depth (ml_multiparts ml m) m)))" for bodies hs all
  proof (rule safe_sbind [OF parts], clarify)
    fix hs' ps assume "parts_levels n ps"
    then show "yields (\<lambda>m. mail_levels m \<le> n) (let m = Mail hs' all ps [] in
        slift (set_boundaries ml (ms_node me) depth (ml_multiparts ml m) m))"
      unfolding Let_def by (intro safe_set_boundaries) (auto simp: foldr_max_le)
  qed
  show ?thesis unfolding assemble_with_def by (rule last | rule safe_sbind [OF yields_any])+
qed

text \<open>The bound is the check's: it holds on a stack of any length.\<close>

lemma assemble_levels_bound:
  "yields (\<lambda>m. mail_levels m \<le> nat (max_embedded_message_depth lims - depth)) (assemble_levels n ml lims synthesize depth carrier me)"
proof (induction n arbitrary: synthesize depth carrier me)
  case 0
  show ?case unfolding assemble_levels.simps by (rule assemble_with_levels) (auto intro: safe_slift)
next
  case (Suc n)
  show ?case unfolding assemble_levels.simps
    by (rule assemble_with_levels, rule safe_weaken [OF Suc.IH [of "depth + 1" True]]) auto
qed

section \<open>Boundaries\<close>

lemma mail_boundary_out:
  assumes "boundary = base \<or> (\<exists>k. boundary = base @ ascii ''.'' @ decimal k)"
  shows "mail_boundary payload digest base boundary bump = base @ ascii ''.'' @ take 32 digest \<or>
    \<not> sublist (mail_boundary payload digest base boundary bump) payload"
  using assms
proof (induction payload digest base boundary bump rule: mail_boundary.induct)
  case (1 payload digest base boundary bump)
  then show ?case by (subst (1 2) mail_boundary.simps) auto
qed

text \<open>The bytes inside a container when its boundary is chosen: the containers after it have theirs.\<close>

definition payload_of :: "mailer \<Rightarrow> mail \<Rightarrow> nat \<Rightarrow> ustring result" where
  "payload_of ml m i =
     ml_payload ml (Mail (mail_headers m) (mail_bodies m) (mail_parts m) (drop (Suc i) (mail_boundaries m))) i"

definition delimits :: "mailer \<Rightarrow> node_id \<Rightarrow> int \<Rightarrow> mail \<Rightarrow> nat \<Rightarrow> bool" where
  "delimits ml node depth m i \<longleftrightarrow>
     (case payload_of ml m i of
        Inl e \<Rightarrow> False
      | Inr payload \<Rightarrow>
          \<not> sublist (mail_boundaries m ! i) payload \<or>
          mail_boundaries m ! i = boundary_base node depth i @ ascii ''.'' @ take 32 (ml_digest ml payload))"

lemma set_boundaries_delimit:
  assumes "set_boundaries ml node depth n m = Inr m'" "i < n"
  shows "delimits ml node depth m' i"
  using assms
proof (induction n arbitrary: m)
  case (Suc n)
  let ?next = "\<lambda>b. Mail (mail_headers m) (mail_bodies m) (mail_parts m) (b # mail_boundaries m)"
  obtain payload b where p: "ml_payload ml m n = Inr payload"
    and b: "b = mail_boundary payload (ml_digest ml payload) (boundary_base node depth n) (boundary_base node depth n) 0"
    and rest: "set_boundaries ml node depth n (?next b) = Inr m'"
    using Suc.prems(1) by (auto simp: ebind_Inr_iff Let_def)
  show ?case
  proof (cases "i < n")
    case True
    with Suc.IH [OF rest] show ?thesis .
  next
    case False
    with Suc.prems have i: "i = n" by simp
    from set_boundaries_Inr [OF rest] obtain bs where m': "length bs = n"
      "m' = Mail (mail_headers m) (mail_bodies m) (mail_parts m) (bs @ b # mail_boundaries m)" by auto
    have "payload_of ml m' n = ml_payload ml m n"
      unfolding payload_of_def m'(2) using m'(1) by (cases m) simp
    moreover have "mail_boundaries m' ! n = b" using m' by (simp add: nth_append)
    ultimately show ?thesis
      using mail_boundary_out [of "boundary_base node depth n" "boundary_base node depth n" payload "ml_digest ml payload" 0]
      unfolding delimits_def i p b by auto
  qed
qed simp

definition delimited :: "mailer \<Rightarrow> node_id \<Rightarrow> int \<Rightarrow> mail \<Rightarrow> bool" where
  "delimited ml node depth m \<longleftrightarrow>
     length (mail_boundaries m) = ml_multiparts ml (Mail (mail_headers m) (mail_bodies m) (mail_parts m) []) \<and>
     (\<forall>i < length (mail_boundaries m). delimits ml node depth m i)"

lemma assemble_with_delimited: "yields (delimited ml (ms_node me) depth) (assemble_with ml lims f synthesize depth carrier me)"
proof -
  have last: "yields (delimited ml (ms_node me) depth) (case x of (headers4, parts) \<Rightarrow>
      let m = Mail headers4 all parts [] in slift (set_boundaries ml (ms_node me) depth (ml_multiparts ml m) m))" for x all
  proof (cases x)
    case (Pair hs ps)
    have "delimited ml (ms_node me) depth m"
      if "set_boundaries ml (ms_node me) depth (ml_multiparts ml (Mail hs all ps [])) (Mail hs all ps []) = Inr m" for m
      using set_boundaries_Inr [OF that] set_boundaries_delimit [OF that] by (auto simp: delimited_def)
    then show ?thesis unfolding Pair prod.case Let_def by (intro safe_slift) auto
  qed
  show ?thesis unfolding assemble_with_def by (rule last | rule safe_sbind [OF yields_any])+
qed

section \<open>What to_eml gives\<close>

lemma yields_result: "yields Q m \<Longrightarrow> case fst (m s) of Inl e \<Rightarrow> True | Inr x \<Rightarrow> Q x"
  by (auto simp: safe_def split: sum.split)

text \<open>C7: Nothing the file says puts a control character, CR and LF included, into the mail \<open>to_eml\<close> hands to the
  \<open>email\<close> package: every header value, every file name and every content id is free of them and every MIME type is two
  RFC 2045 tokens, in the message and in those embedded in it. The one exception is the value made up for the
  Message-ID of an embedded message, the local part of what the package itself reads back from the Message-ID of its
  carrier, then the node id and the synthetic domain: no other value, and no other Message-ID, is exempt.\<close>

theorem to_eml_clean:
  "case fst (to_eml ml synthesize l me s) of Inl e \<Rightarrow> True | Inr m \<Rightarrow> clean_mail ml None m"
  unfolding to_eml_def by (rule yields_result) (rule mail_assemble_clean)

text \<open>C23: Embedded messages nest in a mail no deeper than the limit leaves below the message, whatever the file says
  and however long a stack of calls the assembly has: it is the check of the depth that stops it, and the stack
  \<open>to_eml\<close> is modelled with gives what any longer one gives.\<close>

theorem to_eml_nesting:
  "let lims = limits_of me l; room = nat (max_embedded_message_depth lims - ms_depth me)
   in (case fst (assemble_levels n ml lims synthesize (ms_depth me) None me s) of
         Inl e \<Rightarrow> True | Inr m \<Rightarrow> mail_levels m \<le> room) \<and>
      assemble_levels (room + n) ml lims synthesize (ms_depth me) None me = to_eml ml synthesize l me"
  unfolding Let_def to_eml_def
  by (intro conjI yields_result [OF assemble_levels_bound] ext) (simp add: assemble_levels_enough)

text \<open>C22: Every multipart container of a mail gets a boundary, and a boundary does not occur in the bytes it delimits,
  whatever a hostile body holds, unless it is the one made of the digest of those bytes.\<close>

theorem to_eml_boundaries:
  "case fst (to_eml ml synthesize l me s) of Inl e \<Rightarrow> True | Inr m \<Rightarrow> delimited ml (ms_node me) (ms_depth me) m"
  unfolding to_eml_def by (subst mail_assemble_unfold) (rule yields_result [OF assemble_with_delimited])

end
