(* ===== verification/Pst_Mail_Total.thy ===== *)
theory Pst_Mail_Total
  imports Pst_Mail_Facts
begin

text \<open>
  The assembly of \<open>eml.py\<close> as an operation of an object that remembers: from every good state of the caches it gives
  the same mail, and only the package's own exceptions, those of the tables and those of the two calls of the
  \<open>email\<close> package that are not guarded.
\<close>

section \<open>Rules\<close>

lemma behaves_weaken:
  "behaves I ex E m \<Longrightarrow> (\<And>e. E e \<Longrightarrow> E' e) \<Longrightarrow> behaves I False E' m"
  unfolding behaves_def implements_def by blast

lemma behaves_known:
  "(\<And>e. m = Inl e \<Longrightarrow> E e) \<Longrightarrow> (\<And>x. m = Inr x \<Longrightarrow> behaves I ex E (f x)) \<Longrightarrow> behaves I ex E (sbind (slift m) f)"
  by (rule behaves_sbind_implements [where p = m]) auto

lemma behaves_sfold:
  "(\<And>acc x. x \<in> set xs \<Longrightarrow> behaves I ex E (f acc x)) \<Longrightarrow> behaves I ex E (sfold f acc xs)"
  by (induction xs arbitrary: acc) auto

text \<open>A handler sees the same exception from every good state only where no budget can run out.\<close>

lemma behaves_scatch:
  assumes "behaves I True F m" "behaves I ex E h" "\<And>e. F e \<Longrightarrow> \<not> catches e \<Longrightarrow> E e"
  shows "behaves I ex E (scatch catches m h)"
proof -
  obtain p where p: "\<And>s. I s \<Longrightarrow> I (snd (m s)) \<and> fst (m s) = p" "\<And>e. p = Inl e \<Longrightarrow> F e"
    using assms(1) unfolding behaves_def implements_def by blast
  have m: "\<exists>s'. m s = (p, s') \<and> I s'" if "I s" for s using p(1) [OF that] by (metis prod.collapse)
  obtain q where q: "\<And>s. I s \<Longrightarrow> I (snd (h s)) \<and> (fst (h s) = q \<or> \<not> ex \<and> fst (h s) = Inl PstLimitError)"
      "\<And>e. q = Inl e \<Longrightarrow> E e"
    using assms(2) unfolding behaves_def implements_def by blast
  show ?thesis
  proof (cases p)
    case (Inr x)
    then show ?thesis unfolding behaves_def implements_def
      by (intro exI [of _ p]) (use m in \<open>auto simp: scatch_def\<close>, (use m in fastforce)+)
  next
    case (Inl e)
    show ?thesis
    proof (cases "catches e")
      case True
      have "scatch catches m h s = h (snd (m s)) \<and> I (snd (m s))" if "I s" for s
        using m [OF that] Inl True by (auto simp: scatch_def)
      then show ?thesis using q unfolding behaves_def implements_def by (intro exI [of _ q]) auto
    next
      case False
      have "scatch catches m h s = (p, snd (m s)) \<and> I (snd (m s))" if "I s" for s
        using m [OF that] Inl False by (auto simp: scatch_def)
      then show ?thesis using assms(3) [of e] p(2) Inl False unfolding behaves_def implements_def by (intro exI [of _ p]) auto
    qed
  qed
qed

lemma behaves_inside:
  assumes "behaves I ex E m" "\<And>s t. J (s, t) \<Longrightarrow> I (ms, t)" "\<And>s t s' t'. J (s, t) \<Longrightarrow> I (s', t') \<Longrightarrow> J (s, t')"
  shows "behaves J ex E (inside ms m)"
proof -
  obtain p where p: "\<And>s. I s \<Longrightarrow> I (snd (m s)) \<and> (fst (m s) = p \<or> \<not> ex \<and> fst (m s) = Inl PstLimitError)"
      "\<And>e. p = Inl e \<Longrightarrow> E e"
    using assms(1) unfolding behaves_def implements_def by blast
  have "J (snd (inside ms m s)) \<and> (fst (inside ms m s) = p \<or> \<not> ex \<and> fst (inside ms m s) = Inl PstLimitError)"
    if J: "J s" for s
  proof -
    obtain a t where s: "s = (a, t)" by fastforce
    obtain r b t' where run: "m (ms, t) = (r, (b, t'))" by (metis prod_cases3)
    have "I (b, t') \<and> (r = p \<or> \<not> ex \<and> r = Inl PstLimitError)" using p(1) [of "(ms, t)"] assms(2) J run s by fastforce
    with assms(3) J show ?thesis by (auto simp: inside_def s run)
  qed
  with p(2) show ?thesis unfolding behaves_def implements_def by blast
qed

section \<open>A message and its store\<close>

definition mail_ok :: "message \<Rightarrow> bool" where
  "mail_ok me \<longleftrightarrow> message_ok me \<and> scalar_codepage (pc_codepage (ms_properties me)) \<and>
     scalar_codepage (so_codepage (ms_store me)) \<and> store_exact (ms_store me)"

definition mail_inv :: "message \<Rightarrow> mail_state \<Rightarrow> bool" where
  "mail_inv me p \<longleftrightarrow> message_inv me (fst p) \<and> store_inv (ms_store me) (snd p)"

text \<open>The calls of the package under \<open>_guard\<close> refuse as its documentation says; those outside it may raise anything.\<close>

definition refusal :: "error \<Rightarrow> bool" where
  "refusal e \<longleftrightarrow> is_pst_error e \<or> e \<in> {ValueError, UnicodeError, IndexError}"

abbreviation refuses :: "'a result \<Rightarrow> bool" where
  "refuses m \<equiv> \<forall>e. m = Inl e \<longrightarrow> refusal e"

definition guarded_ok :: "mailer \<Rightarrow> bool" where
  "guarded_ok ml \<longleftrightarrow> (\<forall>s. refuses (ml_parse ml s)) \<and> (\<forall>hs h. refuses (ml_header ml hs h)) \<and>
     (\<forall>bs b. refuses (ml_body ml bs b)) \<and> (\<forall>bs ps p. refuses (ml_part ml bs ps p)) \<and> (\<forall>m i b. refuses (ml_boundary ml m i b))"

definition unguarded :: "mailer \<Rightarrow> error \<Rightarrow> bool" where
  "unguarded ml e \<longleftrightarrow>
     (\<exists>hs h. fst h \<in> {SYNTHESIZED_HEADER, BODY_HEADER, SKIPPED_HEADER} \<and> ml_header ml hs h = Inl e) \<or>
     (\<exists>m i. ml_payload ml m i = Inl e)"

definition mail_error :: "mailer \<Rightarrow> error \<Rightarrow> bool" where
  "mail_error ml e \<longleftrightarrow> table_error e \<or> unguarded ml e"

lemma mail_error_table [simp, intro]: "table_error e \<Longrightarrow> mail_error ml e"
  by (simp add: mail_error_def)

lemma on_message_behaves:
  "behaves (message_inv me) ex F m \<Longrightarrow> (\<And>e. F e \<Longrightarrow> table_error e) \<Longrightarrow> behaves (mail_inv me) False (mail_error ml) (on_message m)"
  unfolding on_message_def
  by (rule behaves_weaken, erule behaves_szoom [where E' = table_error]) (auto simp: mail_inv_def)

lemma on_message_reads:
  assumes "message_ok me"
  shows "behaves (mail_inv me) False (mail_error ml) (on_message (Message_text me i))"
    "behaves (mail_inv me) False (mail_error ml) (on_message (Message_time me i))"
    "behaves (mail_inv me) False (mail_error ml) (on_message (Message_subject me))"
    "behaves (mail_inv me) False (mail_error ml) (on_message (Message_body_rtf_decompressed me))"
    "behaves (mail_inv me) False (mail_error ml) (on_message (Message_get me i))"
    "behaves (mail_inv me) False (mail_error ml) (on_message (Message_attachment_ids me))"
    "behaves (mail_inv me) False (mail_error ml) (on_message (Message_recipients me collect []))"
proof -
  have "behaves (message_inv me) (message_exact me) is_pst_error (Message_get me i)"
    using assms unfolding Message_get_def message_ok_def by (auto intro: on_message_properties_behaves [OF pc_get_behaves])
  note b = on_message_behaves [where ml = ml, OF this]
  show "behaves (mail_inv me) False (mail_error ml) (on_message (Message_text me i))"
    "behaves (mail_inv me) False (mail_error ml) (on_message (Message_time me i))"
    "behaves (mail_inv me) False (mail_error ml) (on_message (Message_subject me))"
    "behaves (mail_inv me) False (mail_error ml) (on_message (Message_body_rtf_decompressed me))"
    "behaves (mail_inv me) False (mail_error ml) (on_message (Message_get me i))"
    using assms by (auto intro!: on_message_behaves b Message_text_behaves Message_time_behaves Message_subject_behaves
        Message_binary_behaves)
  show "behaves (mail_inv me) False (mail_error ml) (on_message (Message_attachment_ids me))"
    by (rule on_message_behaves [OF Message_attachment_ids_behaves [OF assms]])
  show "behaves (mail_inv me) False (mail_error ml) (on_message (Message_recipients me collect []))"
    by (rule on_message_behaves [OF Message_recipients_behaves [OF assms]]) (auto simp: collect_def)
qed

lemma mail_guard_closed: "refuses m \<Longrightarrow> mail_guard m = Inl e \<Longrightarrow> is_pst_error e"
  by (cases m) (auto simp: mail_guard_def refusal_def split: if_splits)

lemma guarded_closed:
  assumes "guarded_ok ml"
  shows "mail_guard (ebind (ml_parse ml s) (\<lambda>x. Inr (f x))) = Inl e \<Longrightarrow> is_pst_error e"
    "mail_guard (ml_header ml hs h) = Inl e \<Longrightarrow> is_pst_error e" "mail_guard (ml_body ml bs b) = Inl e \<Longrightarrow> is_pst_error e"
    "mail_guard (ml_part ml bs ps p) = Inl e \<Longrightarrow> is_pst_error e" "mail_guard (ml_boundary ml m i c) = Inl e \<Longrightarrow> is_pst_error e"
proof -
  have "refuses (ebind (ml_parse ml s) (\<lambda>x. Inr (f x)))" using assms by (simp add: guarded_ok_def ebind_Inl_iff)
  then show "mail_guard (ebind (ml_parse ml s) (\<lambda>x. Inr (f x))) = Inl e \<Longrightarrow> is_pst_error e" by (rule mail_guard_closed)
qed (erule mail_guard_closed [rotated], use assms in \<open>simp add: guarded_ok_def del: split_paired_All\<close>)+

section \<open>The steps\<close>

lemma mail_transport_behaves: "guarded_ok ml \<Longrightarrow> message_ok me \<Longrightarrow> behaves (mail_inv me) False (mail_error ml) (mail_transport ml me)"
  unfolding mail_transport_def Message_transport_headers_def
  by (intro behaves_sbind on_message_reads behaves_if behaves_sret behaves_slift) (auto dest: guarded_closed)

lemma mail_sender_behaves: "message_ok me \<Longrightarrow> behaves (mail_inv me) False (mail_error ml) (mail_sender me)"
  unfolding mail_sender_def Message_sender_name_def Message_sender_smtp_def Message_sender_email_def
  by (intro behaves_sbind on_message_reads behaves_sret)

lemma recipient_headers_behaves: "message_ok me \<Longrightarrow> behaves (mail_inv me) False (mail_error ml) (recipient_headers me)"
  unfolding recipient_headers_def by (intro behaves_sbind on_message_reads behaves_sret)

lemma mail_date_behaves: "message_ok me \<Longrightarrow> behaves (mail_inv me) False (mail_error ml) (mail_date me)"
  unfolding mail_date_def Message_client_submit_time_def Message_delivery_time_def
  by (intro behaves_sbind on_message_reads behaves_sret) (auto split: option.split intro!: on_message_reads)

lemma mail_record_key_behaves: "mail_ok me \<Longrightarrow> behaves (mail_inv me) False (mail_error ml) (mail_record_key me)"
proof -
  assume ok: "mail_ok me"
  have "behaves (mail_inv me) True is_pst_error (on_store (Store_record_key (ms_store me)))"
    unfolding on_store_def
    by (rule behaves_szoom [OF Store_record_key_behaves]) (use ok in \<open>auto simp: mail_ok_def message_ok_def mail_inv_def\<close>)
  then show ?thesis unfolding mail_record_key_def by (intro behaves_scatch [where F = is_pst_error] behaves_sbind) auto
qed

lemma synthesised_behaves: "mail_ok me \<Longrightarrow> behaves (mail_inv me) False (mail_error ml) (synthesised me have carrier)"
proof -
  assume ok: "mail_ok me"
  then have m: "message_ok me" by (simp add: mail_ok_def)
  have stored: "behaves (mail_inv me) False (mail_error ml) (stored_message_id me)"
    unfolding stored_message_id_def
    by (intro behaves_sbind on_message_reads m) (auto simp: Let_def split: prop_value.split intro!: behaves_slift)
  have made: "behaves (mail_inv me) False (mail_error ml) (synthetic_message_id me c)" for c
    unfolding synthetic_message_id_def using mail_record_key_behaves [OF ok] by (auto split: option.split)
  show ?thesis unfolding synthesised_def Let_def
    by (intro behaves_sbind behaves_if behaves_sret mail_sender_behaves recipient_headers_behaves mail_date_behaves
        on_message_reads stored made m)
qed

lemma set_headers_closed: "guarded_ok ml \<Longrightarrow> set_headers ml before hs = Inl e \<Longrightarrow> is_pst_error e"
  by (induction hs arbitrary: before) (auto simp: ebind_Inl_iff dest: guarded_closed)

lemma add_header_error:
  "fst h \<in> {SYNTHESIZED_HEADER, BODY_HEADER, SKIPPED_HEADER} \<Longrightarrow> add_header ml hs h = Inl e \<Longrightarrow> mail_error ml e"
  unfolding add_header_def mail_error_def unguarded_def ebind_Inl_iff by blast

lemma add_synthesized_error: "add_header ml hs (SYNTHESIZED_HEADER, v) = Inl e \<Longrightarrow> mail_error ml e"
  by (rule add_header_error [of "(SYNTHESIZED_HEADER, v)"]) simp_all

lemma message_bodies_behaves: "mail_ok me \<Longrightarrow> behaves (mail_inv me) False (mail_error ml) (message_bodies ml me)"
proof -
  assume ok: "mail_ok me"
  then have m: "message_ok me" "scalar_codepage (pc_codepage (ms_properties me))" by (simp_all add: mail_ok_def)
  have html: "behaves (mail_inv me) False (mail_error ml) (on_message (Message_body_html me))"
    by (rule on_message_behaves [OF Message_body_html_behaves [OF m]]) simp
  have charset: "behaves (mail_inv me) False (mail_error ml) (mail_charset ml me)"
    unfolding mail_charset_def by (intro behaves_sbind on_message_reads behaves_sret m)
  show ?thesis unfolding message_bodies_def Message_body_text_def
    by (intro behaves_sbind on_message_reads html behaves_sret m)
      (use charset in \<open>auto split: option.split list.split intro!: behaves_sret behaves_sbind\<close>)
qed

lemma set_bodies_closed: "guarded_ok ml \<Longrightarrow> set_bodies ml bodies = Inl e \<Longrightarrow> is_pst_error e"
proof -
  assume ok: "guarded_ok ml"
  have "is_pst_error e" if "efold (add_body ml) before bs = Inl e" for before bs
    using that by (induction bs arbitrary: before) (auto simp: add_body_def ebind_Inl_iff dest: guarded_closed [OF ok])
  then show "set_bodies ml bodies = Inl e \<Longrightarrow> is_pst_error e" by (simp add: set_bodies_def)
qed

lemma set_boundaries_error: "guarded_ok ml \<Longrightarrow> set_boundaries ml node depth n m = Inl e \<Longrightarrow> mail_error ml e"
proof (induction n arbitrary: m)
  case (Suc n)
  then show ?case
    by (auto simp: ebind_Inl_iff Let_def mail_error_def unguarded_def table_error_def dest: guarded_closed)
qed simp

lemma body_note_error: "efold (add_header ml) hs (body_note bodies) = Inl e \<Longrightarrow> mail_error ml e"
proof -
  have "\<forall>h \<in> set ns. fst h = BODY_HEADER \<Longrightarrow> efold (add_header ml) hs ns = Inl e \<Longrightarrow> mail_error ml e" for ns
  proof (induction ns arbitrary: hs)
    case (Cons n ns)
    from Cons.prems(2) consider "add_header ml hs n = Inl e" | hs' where "efold (add_header ml) hs' ns = Inl e"
      by (auto simp: ebind_Inl_iff)
    then show ?case using Cons.IH Cons.prems(1) add_header_error [of n] by cases auto
  qed simp
  then show "efold (add_header ml) hs (body_note bodies) = Inl e \<Longrightarrow> mail_error ml e" using body_note_ok(2) by blast
qed

section \<open>Attachments\<close>

lemma Message_codepage:
  assumes "Message so node entry parent depth = Inr (me, s)"
  shows "pc_codepage (ms_properties me) = so_codepage so"
proof -
  from assms obtain pc p e sub_nodes where
    pc: "PropertyContext_from_node (so_reader so) (fst e) (snd e) (Some (so_limits so)) (so_codepage so) = Inr (pc, p)"
    and me: "me = \<lparr>ms_store = so, ms_node = node, ms_parent = parent, ms_depth = depth, ms_entry = e,
               ms_properties = pc, ms_sub_nodes = sub_nodes\<rparr>"
    by (auto simp: Message_def ebind_Inr_iff raise_if_Inr_iff split: option.splits)
  from PropertyContext_from_node_Inr(3) [OF pc] show ?thesis by (simp add: me)
qed

lemma embedded_ok:
  assumes "Attachment_embedded_message at s = (Inr (Some (inner, ms)), s')" "attachment_ok at" "mail_ok (at_message at)"
  shows "mail_ok inner \<and> message_inv inner ms \<and> ms_store inner = ms_store (at_message at)"
proof -
  have inner: "message_ok inner" "message_inv inner ms" "ms_store inner = ms_store (at_message at)"
    using embedded_message_Inr [of at s inner ms] assms(1,2) by simp_all
  from assms(1) obtain node entry parent depth where "Message (ms_store (at_message at)) node entry parent depth = Inr (inner, ms)"
    by (auto simp: Attachment_embedded_message_def sbind_eq_Inr split: if_splits)
  from Message_codepage [OF this] inner assms(3) show ?thesis by (simp add: mail_ok_def)
qed

lemma read_attached_behaves:
  assumes "attachment_ok at"
  shows "behaves (attachment_inv at) False is_pst_error (read_attached ml lims depth html at)"
proof -
  note weak = behaves_weaken [where E' = is_pst_error, OF _ iffD1 [OF refl]]
  have texts: "behaves (attachment_inv at) False is_pst_error (Attachment_text at i)" for i
    by (rule weak [OF Attachment_text_behaves [OF assms]])
  have name: "behaves (attachment_inv at) False is_pst_error (mail_filename at)"
    unfolding mail_filename_def Attachment_long_filename_def Attachment_filename_def
    by (intro behaves_sbind behaves_if behaves_sret texts)
  show ?thesis unfolding read_attached_def Attachment_mime_tag_def Attachment_content_id_def Let_def
    by (intro behaves_sbind behaves_if behaves_sret name texts weak [OF Attachment_method_behaves [OF assms]]
        weak [OF Attachment_embedded_message_behaves [OF assms]] weak [OF Attachment_data_behaves [OF assms]])
      (auto split: option.split intro!: behaves_sbind behaves_sret behaves_closed_slift texts)
qed

lemma read_attached_embedded:
  assumes "srun (read_attached ml lims depth html at) s = Inr (Embedded (Some (inner, ms)) name, s')"
  shows "\<exists>s1 s2. Attachment_embedded_message at s1 = (Inr (Some (inner, ms)), s2)"
  using assms
  by (auto simp: read_attached_def srun_Inr_iff sbind_eq_Inr Let_def split: if_splits option.splits)

text \<open>What is asked of the assembly of embedded messages: the same, for messages of the same store.\<close>

definition assembles_ok :: "mailer \<Rightarrow> store \<Rightarrow> assembler \<Rightarrow> bool" where
  "assembles_ok ml so f \<longleftrightarrow> (\<forall>depth carrier me. mail_ok me \<longrightarrow> ms_store me = so \<longrightarrow>
     behaves (mail_inv me) False (mail_error ml) (f depth carrier me))"

lemma add_attachment_behaves:
  assumes "guarded_ok ml" "assembles_ok ml (ms_store me) f" "mail_ok me" "Attachment me node = Inr x"
  shows "behaves (mail_inv me) False (mail_error ml) (add_attachment ml lims f depth carrier bodies acc x)"
proof -
  obtain hs ps at s where x: "acc = (hs, ps)" "x = (at, s)" by (cases acc; cases x)
  have m: "message_ok me" using assms(3) by (simp add: mail_ok_def)
  note at = Attachment_Inr [OF assms(4) [unfolded x] m]
  have part: "behaves (mail_inv me) False (mail_error ml) (slift (add_part ml bodies hs ps p))" for p
    by (rule behaves_slift) (auto simp: add_part_def ebind_Inl_iff dest: guarded_closed [OF assms(1)])
  show ?thesis unfolding add_attachment_def x prod.case
  proof (rule behaves_known)
    fix e assume "srun (read_attached ml lims depth (html_text bodies) at) s = Inl e"
    then have "fst (read_attached ml lims depth (html_text bodies) at s) = Inl e" by (auto simp: srun_def ebind_Inl_iff split: prod.splits)
    from behaves_Inl [OF read_attached_behaves [OF at(1)] at(2) this] show "mail_error ml e" by simp
  next
    fix r assume r: "srun (read_attached ml lims depth (html_text bodies) at) s = Inr r"
    obtain a s' where a: "r = (a, s')" by fastforce
    show "behaves (mail_inv me) False (mail_error ml) (case r of (what, _) \<Rightarrow> attach ml f depth carrier bodies (hs, ps) what)"
      unfolding a prod.case
    proof (cases a rule: attached_cases)
      case (skipped m name)
      show "behaves (mail_inv me) False (mail_error ml) (attach ml f depth carrier bodies (hs, ps) a)"
        unfolding skipped attach_simps by (intro behaves_sbind behaves_sret behaves_slift) (rule add_header_error, auto)
    next
      case (message inner ms name)
      obtain s1 s2 where "Attachment_embedded_message at s1 = (Inr (Some (inner, ms)), s2)"
        using read_attached_embedded r a message by blast
      with embedded_ok [of at s1 inner ms s2] at(1,3) assms(3)
      have inner: "mail_ok inner" "message_inv inner ms" "ms_store inner = ms_store me" by simp_all
      show "behaves (mail_inv me) False (mail_error ml) (attach ml f depth carrier bodies (hs, ps) a)"
        unfolding message attach_simps
        by (rule behaves_sbind, rule behaves_inside [where I = "mail_inv inner"])
          (use inner assms(2) part in \<open>auto simp: assembles_ok_def mail_inv_def\<close>)
    qed (auto simp: attach_simps intro: part)
  qed
qed

section \<open>The assembly\<close>

lemma assemble_with_behaves:
  assumes "guarded_ok ml" "assembles_ok ml (ms_store me) f" "mail_ok me"
  shows "behaves (mail_inv me) False (mail_error ml) (assemble_with ml lims f synthesize depth carrier me)"
proof -
  have m: "message_ok me" using assms(3) by (simp add: mail_ok_def)
  have attachments: "behaves (mail_inv me) False (mail_error ml) (add_attachments ml lims f depth carrier me bodies hs)" for bodies hs
    unfolding add_attachments_def
  proof (rule behaves_sbind [OF on_message_reads(6) [OF m]], rule behaves_sfold, rule behaves_known)
    show "mail_error ml e" if "Attachment me node = Inl e" for node e
      using fails_closedD [OF Attachment_closed [OF m] that] by simp
  qed (rule add_attachment_behaves [OF assms])
  show ?thesis unfolding assemble_with_def Let_def
    by (intro behaves_sbind mail_transport_behaves behaves_if synthesised_behaves behaves_sret message_bodies_behaves assms m
        attachments behaves_slift)
      (auto dest: set_headers_closed [OF assms(1)] set_bodies_closed [OF assms(1)] body_note_error add_synthesized_error
          set_boundaries_error [OF assms(1)] intro!: behaves_slift)
qed

text \<open>The end of the stack is not met: what the assembly is given in its place does not matter.\<close>

lemma mail_assemble_behaves:
  assumes "guarded_ok ml" "mail_ok me"
  shows "behaves (mail_inv me) False (mail_error ml) (mail_assemble ml lims synthesize depth carrier me)"
  using assms(2)
proof (induction "nat (max_embedded_message_depth lims - depth)" arbitrary: synthesize depth carrier me)
  case 0
  let ?stop = "\<lambda>depth carrier me. slift (Inl PstLimitError) :: (mail_state, mail) st"
  have "mail_assemble ml lims synthesize depth carrier me = assemble_with ml lims ?stop synthesize depth carrier me"
    unfolding mail_assemble_unfold [of ml lims synthesize depth] by (rule assemble_with_cong) (use 0 in simp)
  moreover have "assembles_ok ml so ?stop" for so by (auto simp: assembles_ok_def)
  ultimately show ?case using assemble_with_behaves [OF assms(1)] 0 by simp
next
  case (Suc k)
  let ?next = "\<lambda>d. if d = depth + 1 then mail_assemble ml lims True d else (\<lambda>carrier me. slift (Inl PstLimitError))"
  have "mail_assemble ml lims synthesize depth carrier me = assemble_with ml lims ?next synthesize depth carrier me"
    unfolding mail_assemble_unfold [of ml lims synthesize depth] by (rule assemble_with_cong) simp
  moreover have "assembles_ok ml so ?next" for so using Suc.hyps by (auto simp: assembles_ok_def)
  ultimately show ?case using assemble_with_behaves [OF assms(1)] Suc.prems by simp
qed

section \<open>The contract of \<open>to_eml\<close>\<close>

definition sample_mailer :: mailer where
  "sample_mailer = \<lparr>ml_parse = (\<lambda>s. if s = [] then Inl ValueError else Inr []),
     ml_header = (\<lambda>hs h. if 10 \<in> set (snd h) then Inl ValueError else Inr ()), ml_body = (\<lambda>bs b. Inr ()),
     ml_part = (\<lambda>bs ps p. Inr ()), ml_lookup = (\<lambda>n. None), ml_decode = (\<lambda>n b. map uint b), ml_lower = ascii_lower,
     ml_codepage = ascii ''cp1252'', ml_text = (\<lambda>v. v), ml_multiparts = (\<lambda>m. 0), ml_payload = (\<lambda>m i. Inr []),
     ml_boundary = (\<lambda>m i b. Inr ()), ml_digest = (\<lambda>b. [])\<rparr>"

text \<open>C6: Assembling a message gives, from every good state of the caches it reads through, the same mail or the same
  exception, but where a resource limit stops it, and leaves the caches good. The exceptions are the package's own, the
  division the tables may end in, and what the \<open>email\<close> package raises where it is called outside the guard: setting the
  three headers of the module's own, and writing out a container to choose its boundary.\<close>

theorem to_eml_total:
  assumes "mail_ok me" "guarded_ok ml"
  shows "remembers (mail_inv me) False (mail_error ml) (to_eml ml synthesize l me)"
  unfolding to_eml_def by (rule behaves_remembers [OF mail_assemble_behaves [OF assms(2,1)]]) simp

lemma sample_mail_ok: "mail_ok sample_message" "guarded_ok sample_mailer" "mail_inv sample_message (sample_message_state, pc_fresh heap_fresh)"
proof -
  have sample: "ms_store sample_message = sample_open_store" "so_codepage sample_open_store = None"
    "pc_codepage (ms_properties sample_message) = None"
    by (simp_all add: sample_message_def sample_open_store_def written_pc_at_def)
  show "mail_ok sample_message" "mail_inv sample_message (sample_message_state, pc_fresh heap_fresh)"
    unfolding mail_ok_def mail_inv_def using sample_message_ok sample_open_store_ok by (simp_all add: sample scalar_codepage_def)
qed (simp add: guarded_ok_def sample_mailer_def refusal_def)

theorem to_eml_total_witness:
  "remembers (mail_inv sample_message) False (mail_error sample_mailer) (to_eml sample_mailer True None sample_message)"
  by (rule to_eml_total [OF sample_mail_ok(1,2)])

end
