(* ===== verification/Pst_Mail_Headers.thy ===== *)
theory Pst_Mail_Headers
  imports Pst_Mail_Total
begin

text \<open>
  The headers of an assembled message, accounted for from what the store holds: the delivered block, the properties a
  header is made up from, and the attachments. What a store holds is what reading it answers from every good state
  of the caches.
\<close>

section \<open>What a message holds\<close>

text \<open>From every good state of the caches the operation answers \<open>x\<close>, unless a budget runs out.\<close>

definition reads :: "message \<Rightarrow> (mail_state, 'a) st \<Rightarrow> 'a \<Rightarrow> bool" where
  "reads me m x \<longleftrightarrow> implements (mail_inv me) False m (Inr x)"

abbreviation knows :: "message \<Rightarrow> ('a \<Rightarrow> bool) \<Rightarrow> (mail_state, 'a) st \<Rightarrow> bool" where
  "knows me \<equiv> safe (mail_inv me) (\<lambda>_. True)"

lemma safe_implements:
  assumes "behaves I ex E m"
  shows "safe I (\<lambda>_. True) (\<lambda>x. implements I False m (Inr x)) m"
proof -
  obtain p where p: "implements I ex m p" using assms by (auto simp: behaves_def)
  then have weak: "implements I False m p" unfolding implements_def by blast
  have "implements I False m (Inr x)" if "I s" "m s = (Inr x, s')" for s x s'
  proof -
    have "p = Inr x" using p that unfolding implements_def by force
    with weak show ?thesis by simp
  qed
  moreover have "I s'" if "I s" "m s = (r, s')" for s r s' using p that unfolding implements_def by force
  ultimately show ?thesis by (intro safeI) blast+
qed

lemma knows_reads: "behaves (mail_inv me) ex E m \<Longrightarrow> knows me (reads me m) m"
  unfolding reads_def by (rule safe_implements)

lemma knows_slift: "(\<And>x. m = Inr x \<Longrightarrow> Q x) \<Longrightarrow> knows me Q (slift m)"
  by (rule safe_slift) simp_all

section \<open>The delivered block\<close>

text \<open>
  Every header the parser finds, in its order, but those that describe the original body and those with nothing
  left once control characters and the space around them are gone.
\<close>

definition delivered_from :: "mailer \<Rightarrow> ustring option \<Rightarrow> (ustring \<times> ustring) list \<Rightarrow> bool" where
  "delivered_from ml raw hs \<longleftrightarrow>
     (if raw = None \<or> raw = Some [] then hs = []
      else \<exists>parsed. ml_parse ml (the raw) = Inr parsed \<and>
        hs = concat (map (\<lambda>(name, v).
               let text = py_strip (filter (\<lambda>c. \<not> is_control c) v)
               in if ascii_lower name \<in> set BODY_HEADERS \<or> text = [] then [] else [(name, text)]) parsed))"

lemma pass_headers_concat:
  "pass_headers parsed =
     concat (map (\<lambda>(name, v). let text = py_strip (filter (\<lambda>c. \<not> is_control c) v)
       in if ascii_lower name \<in> set BODY_HEADERS \<or> text = [] then [] else [(name, text)]) parsed)"
  by (induction parsed) (auto simp: pass_headers_def mail_clean_def Let_def simp del: ascii_simps)

definition transport :: "message \<Rightarrow> (mail_state, ustring option) st" where
  "transport me = on_message (Message_transport_headers me)"

lemma mail_transport_knows:
  assumes "mail_ok me"
  shows "knows me (\<lambda>hs. \<exists>raw. reads me (transport me) raw \<and> delivered_from ml raw hs) (mail_transport ml me)"
proof -
  have raw: "knows me (reads me (transport me)) (transport me)"
    unfolding transport_def Message_transport_headers_def
    by (rule knows_reads [OF on_message_reads(1)]) (use assms in \<open>simp add: mail_ok_def\<close>)
  show ?thesis
    unfolding mail_transport_def transport_def [symmetric]
  proof (rule safe_sbind [OF raw], rule safe_if)
    fix raw assume raw: "reads me (transport me) raw"
    let ?ok = "\<lambda>hs. \<exists>raw. reads me (transport me) raw \<and> delivered_from ml raw hs"
    show "knows me ?ok (sret [])" if "\<not> truthy raw"
      using raw that by (intro safe_sret exI [of _ raw]) (auto simp: delivered_from_def truthy_def)
    show "knows me ?ok (slift (mail_guard (ebind (ml_parse ml (the raw)) (\<lambda>parsed. Inr (pass_headers parsed)))))" if "\<not> \<not> truthy raw"
    proof (rule knows_slift)
      fix hs assume "mail_guard (ebind (ml_parse ml (the raw)) (\<lambda>parsed. Inr (pass_headers parsed))) = Inr hs"
      then obtain parsed where "ml_parse ml (the raw) = Inr parsed" "hs = pass_headers parsed"
        by (auto simp: ebind_Inr_iff)
      with that have "delivered_from ml raw hs"
        unfolding delivered_from_def pass_headers_concat truthy_def by (cases raw) simp_all
      with raw show "?ok hs" by blast
    qed
  qed
qed

section \<open>What a header is made up from\<close>

definition addressees :: "recipient list \<Rightarrow> recipient_type \<Rightarrow> ustring option" where
  "addressees rs t =
     (let these = concat (map (\<lambda>r. if rc_type r = Named t
            then (case mail_address (rc_name r) (rc_smtp r) (rc_email r) of None \<Rightarrow> [] | Some a \<Rightarrow> [a]) else []) rs)
      in if these = [] then None else Some (py_join (ascii '', '') these))"

text \<open>The store's half of a made-up Message-ID: its record key, where there is no carrier's id to build on.\<close>

definition id_key :: "message \<Rightarrow> ustring option \<Rightarrow> ustring \<Rightarrow> bool" where
  "id_key me carrier key \<longleftrightarrow>
     (case carrier of
        Some p \<Rightarrow> key = []
      | None \<Rightarrow> \<exists>r. implements (mail_inv me) True (on_store (Store_record_key (ms_store me))) r \<and>
          key = (case r of Inr k \<Rightarrow> bytes_hex k | Inl e \<Rightarrow> ascii ''nokey''))"

text \<open>The value, if any, that the store has for each of the seven headers.\<close>

inductive offers :: "message \<Rightarrow> ustring option \<Rightarrow> ustring \<Rightarrow> ustring option \<Rightarrow> bool" for me carrier where
  sender: "offers me carrier H_FROM (mail_address name smtp email)"
    if "reads me (on_message (Message_sender_name me)) name" "reads me (on_message (Message_sender_smtp me)) smtp"
      "reads me (on_message (Message_sender_email me)) email"
| recipients: "offers me carrier h (addressees rs t)"
    if "reads me (on_message (Message_recipients me collect [])) rs" "(h, t) \<in> {(H_TO, RT_TO), (H_CC, RT_CC), (H_BCC, RT_BCC)}"
| subject: "offers me carrier H_SUBJECT (if mail_clean v = Some [] then None else mail_clean v)"
    if "reads me (on_message (Message_subject me)) v"
| submitted: "offers me carrier H_DATE (Some (format_datetime t))"
    if "reads me (on_message (Message_client_submit_time me)) (Some t)"
| delivered: "offers me carrier H_DATE (map_option format_datetime v)"
    if "reads me (on_message (Message_client_submit_time me)) None" "reads me (on_message (Message_delivery_time me)) v"
| stored_id: "offers me carrier H_MESSAGE_ID (Some (stored_id_form text))"
    if "reads me (on_message (Message_get me PID_TAG_INTERNET_MESSAGE_ID)) (VStr s)" "mail_clean (Some s) = Some text" "text \<noteq> []"
| synthetic_id: "offers me carrier H_MESSAGE_ID (Some (synthetic_id_form key (ms_node me) carrier))"
    if "reads me (on_message (Message_get me PID_TAG_INTERNET_MESSAGE_ID)) v"
      "v = VNull \<or> (\<exists>s. v = VStr s \<and> mail_clean (Some s) = Some [])" "id_key me carrier key"

text \<open>
  The headers made up next to the delivered ones, in their order: each of the seven that was not delivered and that
  the store has a value for.
\<close>

definition made_from :: "message \<Rightarrow> ustring option \<Rightarrow> ustring set \<Rightarrow> (ustring \<times> ustring) list \<Rightarrow> bool" where
  "made_from me carrier names made \<longleftrightarrow>
     (\<exists>v. (\<forall>n \<in> set SYNTHESIS_ORDER. ascii_lower n \<notin> names \<longrightarrow> offers me carrier n (v n)) \<and>
        made = concat (map (\<lambda>n. if ascii_lower n \<in> names then [] else case v n of None \<Rightarrow> [] | Some s \<Rightarrow> [(n, s)]) SYNTHESIS_ORDER))"

section \<open>The headers made up\<close>

lemma knows_if: "(c \<Longrightarrow> knows me Q a) \<Longrightarrow> (\<not> c \<Longrightarrow> knows me Q b) \<Longrightarrow> knows me Q (if c then a else b)"
  by simp

lemma mail_sender_knows:
  assumes "message_ok me"
  shows "knows me (offers me carrier H_FROM) (mail_sender me)"
proof -
  have "knows me (reads me (on_message (Message_text me i))) (on_message (Message_text me i))" for i
    by (rule knows_reads [OF on_message_reads(1) [OF assms]])
  note this [of PID_TAG_SENDER_NAME, folded Message_sender_name_def]
    this [of PID_TAG_SENDER_SMTP_ADDRESS, folded Message_sender_smtp_def]
    this [of PID_TAG_SENDER_EMAIL_ADDRESS, folded Message_sender_email_def]
  then show ?thesis unfolding mail_sender_def
    by (intro safe_sbind [where Q = "reads me _"] safe_sret offers.sender)
qed

lemma recipient_bucket_addressees:
  "addressees rs t = (if recipient_bucket rs t = [] then None else Some (py_join (ascii '', '') (recipient_bucket rs t)))"
proof -
  have "concat (map (\<lambda>r. if rc_type r = Named t
      then (case mail_address (rc_name r) (rc_smtp r) (rc_email r) of None \<Rightarrow> [] | Some a \<Rightarrow> [a]) else []) rs) = recipient_bucket rs t"
    by (induction rs) (auto simp: recipient_bucket_def split: option.split)
  then show ?thesis by (simp add: addressees_def)
qed

definition recipient_fields :: "recipient list \<Rightarrow> (ustring \<times> ustring) list" where
  "recipient_fields rs = concat (map (\<lambda>(h, t). case addressees rs t of None \<Rightarrow> [] | Some v \<Rightarrow> [(h, v)])
     [(H_TO, RT_TO), (H_CC, RT_CC), (H_BCC, RT_BCC)])"

lemma recipient_headers_knows:
  assumes "message_ok me"
  shows "knows me (\<lambda>hs. \<exists>rs. reads me (on_message (Message_recipients me collect [])) rs \<and> hs = recipient_fields rs) (recipient_headers me)"
proof -
  have "map (\<lambda>(header, t). (header, py_join (ascii '', '') (recipient_bucket rs t)))
      (filter (\<lambda>(header, t). recipient_bucket rs t \<noteq> []) [(H_TO, RT_TO), (H_CC, RT_CC), (H_BCC, RT_BCC)]) = recipient_fields rs" for rs
    by (simp add: recipient_fields_def recipient_bucket_addressees)
  then show ?thesis unfolding recipient_headers_def
    by (intro safe_sbind [OF knows_reads [OF on_message_reads(7) [OF assms]]] safe_sret) auto
qed

lemma mail_date_knows:
  assumes "message_ok me"
  shows "knows me (offers me carrier H_DATE) (mail_date me)"
proof -
  have "knows me (reads me (on_message (Message_time me i))) (on_message (Message_time me i))" for i
    by (rule knows_reads [OF on_message_reads(2) [OF assms]])
  note this [of PID_TAG_CLIENT_SUBMIT_TIME, folded Message_client_submit_time_def]
    this [of PID_TAG_MESSAGE_DELIVERY_TIME, folded Message_delivery_time_def]
  note submit = this(1) and delivery = this(2)
  show ?thesis unfolding mail_date_def
  proof (rule safe_sbind [OF submit])
    fix t assume t: "reads me (on_message (Message_client_submit_time me)) t"
    show "knows me (offers me carrier H_DATE) (sbind (case t of None \<Rightarrow> on_message (Message_delivery_time me) | Some t \<Rightarrow> sret (Some t))
        (\<lambda>when. sret (map_option format_datetime when)))"
    proof (cases t)
      case None
      with t show ?thesis by (auto intro!: safe_sbind [OF delivery] safe_sret offers.delivered)
    next
      case (Some d)
      with t have "offers me carrier H_DATE (map_option format_datetime (Some d))" by (auto intro: offers.submitted)
      with Some show ?thesis by (auto intro!: safe_sbind [where Q = "\<lambda>x. x = Some d"] safe_sret)
    qed
  qed
qed

lemma synthetic_message_id_knows:
  assumes "mail_ok me" "reads me (on_message (Message_get me PID_TAG_INTERNET_MESSAGE_ID)) v"
    "v = VNull \<or> (\<exists>s. v = VStr s \<and> mail_clean (Some s) = Some [])"
  shows "knows me (\<lambda>i. offers me carrier H_MESSAGE_ID (Some i)) (synthetic_message_id me carrier)"
proof (cases carrier)
  case (Some p)
  have "offers me carrier H_MESSAGE_ID (Some (synthetic_id_form [] (ms_node me) carrier))"
    by (rule offers.synthetic_id [OF assms(2,3)]) (simp add: id_key_def Some)
  then show ?thesis by (auto simp: synthetic_message_id_def Some)
next
  case None
  have "behaves (mail_inv me) True is_pst_error (on_store (Store_record_key (ms_store me)))"
    unfolding on_store_def
    by (rule behaves_szoom [OF Store_record_key_behaves])
      (use assms(1) in \<open>auto simp: mail_ok_def message_ok_def mail_inv_def\<close>)
  then obtain r where r: "implements (mail_inv me) True (on_store (Store_record_key (ms_store me))) r"
      "\<And>e. r = Inl e \<Longrightarrow> is_pst_error e" by (auto simp: behaves_def)
  let ?key = "case r of Inr k \<Rightarrow> bytes_hex k | Inl e \<Rightarrow> ascii ''nokey''"
  have "offers me carrier H_MESSAGE_ID (Some (synthetic_id_form ?key (ms_node me) carrier))"
    by (rule offers.synthetic_id [OF assms(2,3)]) (use r(1) in \<open>auto simp: id_key_def None\<close>)
  moreover have "knows me (\<lambda>key. key = ?key) (mail_record_key me)"
  proof (rule safeI)
    fix s x s' assume s: "mail_inv me s" and run: "mail_record_key me s = (Inr x, s')"
    have "fst (on_store (Store_record_key (ms_store me)) s) = r \<and> mail_inv me (snd (on_store (Store_record_key (ms_store me)) s))"
      using r(1) s by (simp add: implements_def del: split_paired_All)
    with run r(2) show "x = ?key \<and> mail_inv me s'"
      by (cases r) (auto simp: mail_record_key_def scatch_def sbind_def sret_def split: prod.splits sum.splits)
  next
    fix s e s' assume s: "mail_inv me s" and run: "mail_record_key me s = (Inl e, s')"
    have "fst (on_store (Store_record_key (ms_store me)) s) = r \<and> mail_inv me (snd (on_store (Store_record_key (ms_store me)) s))"
      using r(1) s by (simp add: implements_def del: split_paired_All)
    with run r(2) show "True \<and> mail_inv me s'"
      by (cases r) (auto simp: mail_record_key_def scatch_def sbind_def sret_def split: prod.splits sum.splits)
  qed
  ultimately show ?thesis unfolding synthetic_message_id_def None option.case
    by (elim safe_sbind) (auto simp: None)
qed

text \<open>Looked up by name, the seven are told apart.\<close>

lemma seven_names:
  "H_FROM \<noteq> H_TO" "H_FROM \<noteq> H_CC" "H_FROM \<noteq> H_BCC" "H_FROM \<noteq> H_SUBJECT" "H_FROM \<noteq> H_DATE" "H_FROM \<noteq> H_MESSAGE_ID"
  "H_TO \<noteq> H_CC" "H_TO \<noteq> H_BCC" "H_TO \<noteq> H_SUBJECT" "H_TO \<noteq> H_DATE" "H_TO \<noteq> H_MESSAGE_ID"
  "H_CC \<noteq> H_BCC" "H_CC \<noteq> H_SUBJECT" "H_CC \<noteq> H_DATE" "H_CC \<noteq> H_MESSAGE_ID"
  "H_BCC \<noteq> H_SUBJECT" "H_BCC \<noteq> H_DATE" "H_BCC \<noteq> H_MESSAGE_ID"
  "H_SUBJECT \<noteq> H_DATE" "H_SUBJECT \<noteq> H_MESSAGE_ID"
  "H_DATE \<noteq> H_MESSAGE_ID"
  by (simp_all add: H_FROM_def H_SUBJECT_def H_DATE_def H_MESSAGE_ID_def H_TO_def H_CC_def H_BCC_def)

lemmas seven_apart = seven_names seven_names [symmetric]

lemma map_of_option: "map_of (case x of None \<Rightarrow> [] | Some v \<Rightarrow> [(n, v)]) m = (if m = n then x else None)"
  by (cases x) simp_all

lemma map_of_recipients:
  "map_of (filter (\<lambda>(h, v). P h) (recipient_fields rs)) n =
     (if P n then if n = H_TO then addressees rs RT_TO else if n = H_CC then addressees rs RT_CC
        else if n = H_BCC then addressees rs RT_BCC else None
      else None)"
proof -
  have one: "filter (\<lambda>(h, v). P h) (case x of None \<Rightarrow> [] | Some v \<Rightarrow> [(m, v)]) =
      (case (if P m then x else None) of None \<Rightarrow> [] | Some v \<Rightarrow> [(m, v)])" for x m
    by (cases x) simp_all
  have "filter (\<lambda>(h, v). P h) (recipient_fields rs) =
      (case (if P H_TO then addressees rs RT_TO else None) of None \<Rightarrow> [] | Some v \<Rightarrow> [(H_TO, v)]) @
      (case (if P H_CC then addressees rs RT_CC else None) of None \<Rightarrow> [] | Some v \<Rightarrow> [(H_CC, v)]) @
      (case (if P H_BCC then addressees rs RT_BCC else None) of None \<Rightarrow> [] | Some v \<Rightarrow> [(H_BCC, v)])"
    unfolding recipient_fields_def by (simp add: one)
  then show ?thesis
    by (auto simp: map_add_def map_of_option seven_apart split: option.split)
qed

lemma map_of_made_parts:
  fixes names sender subject date message_id rs
  defines "f \<equiv> map_of (made_parts names sender (recipient_fields rs) subject date message_id)"
  shows "f H_FROM = (if ascii ''from'' \<in> names then None else sender)"
    "f H_TO = (if ascii_lower H_TO \<in> names then None else addressees rs RT_TO)"
    "f H_CC = (if ascii_lower H_CC \<in> names then None else addressees rs RT_CC)"
    "f H_BCC = (if ascii_lower H_BCC \<in> names then None else addressees rs RT_BCC)"
    "f H_SUBJECT = (if truthy subject then subject else None)" "f H_DATE = date" "f H_MESSAGE_ID = message_id"
proof -
  have pick: "map_of (if truthy subject then [(H_SUBJECT, the subject)] else []) m = (if m = H_SUBJECT \<and> truthy subject then subject else None)"
    "map_of (if c then xs else []) m = (if c then map_of xs m else None)" for m c and xs :: "(ustring \<times> ustring) list"
    by (auto simp: truthy_def)
  have some: "truthy subject \<Longrightarrow> Some (the subject) = subject" by (auto simp: truthy_def)
  have kept: "(case x of None \<Rightarrow> None | Some v \<Rightarrow> Some v) = x" for x :: "ustring option"
    by (cases x) simp_all
  show "f H_FROM = (if ascii ''from'' \<in> names then None else sender)"
    "f H_TO = (if ascii_lower H_TO \<in> names then None else addressees rs RT_TO)"
    "f H_CC = (if ascii_lower H_CC \<in> names then None else addressees rs RT_CC)"
    "f H_BCC = (if ascii_lower H_BCC \<in> names then None else addressees rs RT_BCC)"
    "f H_SUBJECT = (if truthy subject then subject else None)" "f H_DATE = date" "f H_MESSAGE_ID = message_id"
    unfolding f_def map_of_append map_add_def pick map_of_option
      map_of_recipients [of "\<lambda>h. ascii_lower h \<notin> names"]
    by (simp_all add: seven_apart kept some del: ascii_simps cong: option.case_cong)
qed

lemma header_names:
  "ascii_lower H_FROM = ascii ''from''" "ascii_lower H_SUBJECT = ascii ''subject''" "ascii_lower H_DATE = ascii ''date''"
  "ascii_lower H_MESSAGE_ID = ascii ''message-id''"
  by (simp_all add: H_FROM_def H_SUBJECT_def H_DATE_def H_MESSAGE_ID_def ascii_lower_def)

lemma made_parts_from:
  assumes "offers me carrier H_FROM sender" "reads me (on_message (Message_recipients me collect [])) rs"
    and "if ascii ''subject'' \<in> names then subject = None else offers me carrier H_SUBJECT (if truthy subject then subject else None)"
    and "if ascii ''date'' \<in> names then date = None else offers me carrier H_DATE date"
    and "if ascii ''message-id'' \<in> names then message_id = None else offers me carrier H_MESSAGE_ID message_id"
  shows "made_from me carrier names (concat (map (\<lambda>n.
    case map_of (made_parts names sender (recipient_fields rs) subject date message_id) n of None \<Rightarrow> [] | Some v \<Rightarrow> [(n, v)]) SYNTHESIS_ORDER))"
proof -
  define v where "v n =
    (if n = H_FROM then sender else if n = H_TO then addressees rs RT_TO else if n = H_CC then addressees rs RT_CC
     else if n = H_BCC then addressees rs RT_BCC else if n = H_SUBJECT then (if truthy subject then subject else None)
     else if n = H_DATE then date else message_id)" for n
  have v: "v H_FROM = sender" "v H_TO = addressees rs RT_TO" "v H_CC = addressees rs RT_CC" "v H_BCC = addressees rs RT_BCC"
    "v H_SUBJECT = (if truthy subject then subject else None)" "v H_DATE = date" "v H_MESSAGE_ID = message_id"
    by (simp_all add: v_def seven_apart)
  have to: "offers me carrier H_TO (addressees rs RT_TO)" "offers me carrier H_CC (addressees rs RT_CC)"
    "offers me carrier H_BCC (addressees rs RT_BCC)"
    by (rule offers.recipients [OF assms(2)], simp)+
  have gone: "ascii ''subject'' \<in> names \<Longrightarrow> \<not> truthy subject" "ascii ''date'' \<in> names \<Longrightarrow> date = None"
    "ascii ''message-id'' \<in> names \<Longrightarrow> message_id = None"
    using assms(3-5) by (auto simp: truthy_def simp del: ascii_simps)
  have "concat (map (\<lambda>n. case map_of (made_parts names sender (recipient_fields rs) subject date message_id) n of None \<Rightarrow> [] | Some v \<Rightarrow> [(n, v)]) SYNTHESIS_ORDER) =
      concat (map (\<lambda>n. if ascii_lower n \<in> names then [] else case v n of None \<Rightarrow> [] | Some s \<Rightarrow> [(n, s)]) SYNTHESIS_ORDER)"
    unfolding SYNTHESIS_ORDER_def list.map concat.simps map_of_made_parts v header_names
    using gone by (simp del: ascii_simps)
  moreover have "\<forall>n \<in> set SYNTHESIS_ORDER. ascii_lower n \<notin> names \<longrightarrow> offers me carrier n (v n)"
    unfolding SYNTHESIS_ORDER_def list.set ball_simps v header_names using assms to by (auto simp del: ascii_simps)
  ultimately show ?thesis unfolding made_from_def by blast
qed

lemma stored_message_id_knows:
  assumes "message_ok me"
  shows "knows me (\<lambda>x. if truthy x then offers me carrier H_MESSAGE_ID x
      else \<exists>v. reads me (on_message (Message_get me PID_TAG_INTERNET_MESSAGE_ID)) v \<and>
        (v = VNull \<or> (\<exists>s. v = VStr s \<and> mail_clean (Some s) = Some []))) (stored_message_id me)"
    (is "knows me ?Q _")
  unfolding stored_message_id_def
proof (rule safe_sbind [OF knows_reads [OF on_message_reads(5) [OF assms]]])
  fix v assume v: "reads me (on_message (Message_get me PID_TAG_INTERNET_MESSAGE_ID)) v"
  show "knows me ?Q (case v of VNull \<Rightarrow> sret None
     | VStr s \<Rightarrow>
         (let text = mail_clean (Some s) in sret (if \<not> truthy text then None else Some (stored_id_form (the text))))
     | _ \<Rightarrow> slift (Inl PstFormatError))"
  proof (cases v)
    case VNull
    with v have "?Q None" by (auto simp: truthy_def)
    with VNull show ?thesis by (auto intro: safe_sret)
  next
    case (VStr s)
    obtain w where w: "mail_clean (Some s) = Some w" by (simp add: mail_clean_def)
    have "?Q (if \<not> truthy (Some w) then None else Some (stored_id_form w))"
    proof (cases "w = []")
      case True
      with v w VStr show ?thesis by (auto simp: truthy_def)
    next
      case False
      moreover have "stored_id_form w \<noteq> []" using False by (simp add: stored_id_form_def)
      ultimately show ?thesis using offers.stored_id [of me s w carrier] v w VStr by (auto simp: truthy_def)
    qed
    with w VStr show ?thesis by (auto simp: Let_def intro: safe_sret)
  qed (auto intro!: safe_slift)
qed

lemma synthesised_knows:
  assumes "mail_ok me"
  shows "knows me (made_from me carrier names) (synthesised me names carrier)"
proof -
  have m: "message_ok me" using assms by (simp add: mail_ok_def)
  let ?id = "ascii ''message-id''"
  have id: "knows me (\<lambda>v. if ?id \<in> names then v = None else offers me carrier H_MESSAGE_ID v)
      (if ?id \<in> names then sret None
       else sbind (stored_message_id me) (\<lambda>stored.
         if truthy stored then sret stored else sbind (synthetic_message_id me carrier) (\<lambda>i. sret (Some i))))"
  proof (rule knows_if)
    assume n: "?id \<notin> names"
    show "knows me (\<lambda>v. if ?id \<in> names then v = None else offers me carrier H_MESSAGE_ID v)
       (sbind (stored_message_id me) (\<lambda>stored.
         if truthy stored then sret stored else sbind (synthetic_message_id me carrier) (\<lambda>i. sret (Some i))))"
      by (rule safe_sbind [OF stored_message_id_knows [OF m, of carrier]])
        (use n in \<open>auto intro!: safe_sret safe_sbind [OF synthetic_message_id_knows [OF assms]] simp del: ascii_simps split: if_splits\<close>)
  qed (auto intro!: safe_sret simp del: ascii_simps)
  have date: "knows me (\<lambda>v. if ascii ''date'' \<in> names then v = None else offers me carrier H_DATE v)
      (if ascii ''date'' \<in> names then sret None else mail_date me)"
    by (rule knows_if) (auto intro!: safe_sret safe_weaken [OF mail_date_knows [OF m]] simp del: ascii_simps)
  have subject: "knows me (\<lambda>v. if ascii ''subject'' \<in> names then v = None
        else offers me carrier H_SUBJECT (if truthy v then v else None))
      (if ascii ''subject'' \<in> names then sret None else sbind (on_message (Message_subject me)) (\<lambda>subject. sret (mail_clean subject)))"
  proof (rule knows_if)
    assume n: "ascii ''subject'' \<notin> names"
    have "offers me carrier H_SUBJECT (if truthy (mail_clean v) then mail_clean v else None)"
      if "reads me (on_message (Message_subject me)) v" for v
      using offers.subject [OF that, of carrier] by (auto simp: truthy_def split: if_splits)
    then show "knows me (\<lambda>v. if ascii ''subject'' \<in> names then v = None
        else offers me carrier H_SUBJECT (if truthy v then v else None))
      (sbind (on_message (Message_subject me)) (\<lambda>subject. sret (mail_clean subject)))"
      using n by (intro safe_sbind [OF knows_reads [OF on_message_reads(3) [OF m]]] safe_sret) (simp del: ascii_simps)
  qed (auto intro!: safe_sret simp del: ascii_simps)
  show ?thesis
    unfolding synthesised_def Let_def
    by (rule safe_sbind [OF mail_sender_knows [OF m, of carrier]], rule safe_sbind [OF recipient_headers_knows [OF m]],
        rule safe_sbind [OF subject], rule safe_sbind [OF date], rule safe_sbind [OF id], erule exE, elim conjE, hypsubst,
        rule safe_sret, rule made_parts_from)
qed

lemma offers_message_id: "offers me carrier H_MESSAGE_ID x \<Longrightarrow> \<exists>w. x = Some w"
  by (cases rule: offers.cases) (auto simp: seven_apart)

lemma made_from_message_id:
  assumes "made_from me carrier names made" "ascii_lower H_MESSAGE_ID \<notin> names"
  shows "H_MESSAGE_ID \<in> fst ` set made"
proof -
  obtain v where v: "offers me carrier H_MESSAGE_ID (v H_MESSAGE_ID)"
    "made = concat (map (\<lambda>n. if ascii_lower n \<in> names then [] else case v n of None \<Rightarrow> [] | Some s \<Rightarrow> [(n, s)]) SYNTHESIS_ORDER)"
    using assms by (auto simp: made_from_def SYNTHESIS_ORDER_def)
  from offers_message_id [OF v(1)] obtain w where "v H_MESSAGE_ID = Some w" by blast
  then have "(H_MESSAGE_ID, w) \<in> set made"
    using assms(2) unfolding v(2) SYNTHESIS_ORDER_def by simp
  then show ?thesis by force
qed

section \<open>The attachments\<close>

text \<open>What an attachment holds, as \<open>reads\<close> for a message.\<close>

definition holds :: "attachment \<Rightarrow> (attachment_state, 'a) st \<Rightarrow> 'a \<Rightarrow> bool" where
  "holds at m x \<longleftrightarrow> implements (attachment_inv at) False m (Inr x)"

text \<open>One attachment becomes one note (\<open>Inl\<close>) or one part (\<open>Inr\<close>).\<close>

inductive becomes :: "message \<Rightarrow> node_id \<Rightarrow> ustring + mail_part \<Rightarrow> bool" for me node where
  noted: "becomes me node (Inl (skipped_value method name))"
    if "Attachment me node = Inr (at, s)" "holds at (Attachment_method at) method" "method \<noteq> AM_EMBEDDED_MESSAGE"
      "holds at (mail_filename at) name" "holds at (Attachment_data at) None"
| attached: "becomes me node (Inr (DataPart p))"
    if "Attachment me node = Inr (at, s)" "holds at (Attachment_method at) method" "method \<noteq> AM_EMBEDDED_MESSAGE"
      "holds at (mail_filename at) (dp_filename p)" "holds at (Attachment_data at) (Some (dp_data p))"
| embedded: "becomes me node (Inr (EmbeddedPart m name))"
    if "Attachment me node = Inr (at, s)" "holds at (Attachment_method at) AM_EMBEDDED_MESSAGE"
      "holds at (mail_filename at) name"

abbreviation learns :: "attachment \<Rightarrow> ('a \<Rightarrow> bool) \<Rightarrow> (attachment_state, 'a) st \<Rightarrow> bool" where
  "learns at \<equiv> safe (attachment_inv at) (\<lambda>_. True)"

definition attached_from :: "attachment \<Rightarrow> attached \<Rightarrow> bool" where
  "attached_from at a \<longleftrightarrow>
     (case a of
        Skipped method name \<Rightarrow> holds at (Attachment_method at) method \<and> method \<noteq> AM_EMBEDDED_MESSAGE \<and>
          holds at (mail_filename at) name \<and> holds at (Attachment_data at) None
      | Bytes p \<Rightarrow> (\<exists>method. holds at (Attachment_method at) method \<and> method \<noteq> AM_EMBEDDED_MESSAGE) \<and>
          holds at (mail_filename at) (dp_filename p) \<and> holds at (Attachment_data at) (Some (dp_data p))
      | Embedded e name \<Rightarrow> e \<noteq> None \<and> holds at (Attachment_method at) AM_EMBEDDED_MESSAGE \<and> holds at (mail_filename at) name)"

lemma mail_filename_behaves: "attachment_ok at \<Longrightarrow> behaves (attachment_inv at) False is_pst_error (mail_filename at)"
  unfolding mail_filename_def Attachment_long_filename_def Attachment_filename_def
  by (intro behaves_sbind behaves_if behaves_sret behaves_weaken [where E' = is_pst_error, OF Attachment_text_behaves]) simp_all

text \<open>The method is read twice, and a store answers the same twice.\<close>

lemma embedded_message_there:
  assumes "attachment_ok at" "holds at (Attachment_method at) AM_EMBEDDED_MESSAGE"
  shows "learns at (\<lambda>e. e \<noteq> None) (Attachment_embedded_message at)"
proof -
  have again: "learns at (\<lambda>m. m = AM_EMBEDDED_MESSAGE) (Attachment_method at)"
    using assms(2) unfolding holds_def implements_def by (intro safeI) (force simp del: split_paired_All)+
  note keeps = safe_behaves [where E = is_pst_error, THEN safe_weaken [where Q' = "\<lambda>_. True"]]
  have record_of: "learns at (\<lambda>_. True) (Attachment_data_record at)"
    by (rule keeps [OF Attachment_data_record_behaves [OF assms(1)]]) simp_all
  have object_ref: "learns at (\<lambda>_. True) (Attachment_object_ref at r)" for r
    by (rule keeps [OF Attachment_object_ref_behaves [OF assms(1)]]) simp_all
  have entry: "learns at (\<lambda>_. True) (Attachment_sub_node_entry at n)" for n
    by (rule keeps [OF Attachment_sub_node_entry_behaves [OF assms(1)]]) simp_all
  show ?thesis unfolding Attachment_embedded_message_def
  proof (rule safe_sbind [OF again])
    fix how assume m: "how = AM_EMBEDDED_MESSAGE"
    show "learns at (\<lambda>e. e \<noteq> None) (if how \<noteq> AM_EMBEDDED_MESSAGE then sret None else
       sbind (Attachment_data_record at) (\<lambda>r.
       sbind (Attachment_object_ref at r) (\<lambda>ref.
       sbind (slift (Message_check_embedded_depth (at_message at))) (\<lambda>_.
       sbind (Attachment_sub_node_entry at (obj_node ref)) (\<lambda>entry.
       sbind (slift (Message (ms_store (at_message at)) (obj_node ref) (Some entry) (ms_parent (at_message at))
         (ms_depth (at_message at) + 1))) (\<lambda>me. sret (Some me)))))))"
      unfolding m
      by (simp, rule safe_sbind [OF record_of], rule safe_sbind [OF object_ref], rule safe_sbind [where Q = "\<lambda>_. True"],
          rule safe_slift, simp, simp, rule safe_sbind [OF entry], rule safe_sbind [where Q = "\<lambda>_. True"],
          rule safe_slift, simp, simp, rule safe_sret) simp
  qed
qed

lemma read_attached_from:
  assumes "attachment_ok at"
  shows "learns at (attached_from at) (read_attached ml lims depth html at)"
proof -
  have behaves: "learns at (holds at m) m" if "behaves (attachment_inv at) ex E m" for ex E and m :: "(attachment_state, 'b) st"
    unfolding holds_def by (rule safe_implements [OF that])
  have any: "learns at (\<lambda>_. True) m" if "behaves (attachment_inv at) ex E m" for ex E and m :: "(attachment_state, 'b) st"
    by (rule safe_weaken [OF safe_implements [OF that]]) simp_all
  have texts: "behaves (attachment_inv at) (attachment_exact at) is_pst_error (Attachment_text at i)" for i
    using assms by (rule Attachment_text_behaves)
  have final: "learns at (attached_from at) (sbind (slift (check_allocation (len d) (max_allocation lims))) (\<lambda>_.
           sbind (Attachment_mime_tag at) (\<lambda>tag.
           sbind (Attachment_content_id at) (\<lambda>content_id.
           let cid = content_id_form content_id in
           sret (Bytes \<lparr>dp_data = d, dp_type = mime_type tag, dp_filename = called, dp_cid = cid,
             dp_inline = (case (cid, html) of
               (Some c, Some text) \<Rightarrow> mail_references (ml_lower ml) text c | _ \<Rightarrow> False)\<rparr>)))))"
    if "holds at (Attachment_method at) how" "how \<noteq> AM_EMBEDDED_MESSAGE" "holds at (mail_filename at) called"
      "holds at (Attachment_data at) (Some d)" for how called d
    unfolding Attachment_mime_tag_def Attachment_content_id_def Let_def
    by (rule safe_sbind [where Q = "\<lambda>_. True"], rule safe_slift, simp, simp, rule safe_sbind [OF any [OF texts]],
        rule safe_sbind [OF any [OF texts]], rule safe_sret) (use that in \<open>auto simp: attached_from_def\<close>)
  show ?thesis unfolding read_attached_def
  proof (rule safe_sbind [OF behaves [OF Attachment_method_behaves [OF assms]]],
      rule safe_sbind [OF behaves [OF mail_filename_behaves [OF assms]]], rule safe_if)
    fix how called
    assume m: "holds at (Attachment_method at) how" "holds at (mail_filename at) called"
    show "learns at (attached_from at) (sbind (slift (check_depth (depth + 1) (max_embedded_message_depth lims))) (\<lambda>_.
       sbind (Attachment_embedded_message at) (\<lambda>embedded. sret (Embedded embedded called))))" if "how = AM_EMBEDDED_MESSAGE"
      by (rule safe_sbind [where Q = "\<lambda>_. True"], rule safe_slift, simp, simp,
          rule safe_sbind [OF embedded_message_there [OF assms]]) (use m that in \<open>auto simp: attached_from_def intro: safe_sret\<close>)
    show "learns at (attached_from at) (sbind (Attachment_data at) (\<lambda>data. case data of
         None \<Rightarrow> sret (Skipped how called)
       | Some d \<Rightarrow> sbind (slift (check_allocation (len d) (max_allocation lims))) (\<lambda>_.
           sbind (Attachment_mime_tag at) (\<lambda>tag.
           sbind (Attachment_content_id at) (\<lambda>content_id.
           let cid = content_id_form content_id in
           sret (Bytes \<lparr>dp_data = d, dp_type = mime_type tag, dp_filename = called, dp_cid = cid,
             dp_inline = (case (cid, html) of
               (Some c, Some text) \<Rightarrow> mail_references (ml_lower ml) text c | _ \<Rightarrow> False)\<rparr>))))))" if "how \<noteq> AM_EMBEDDED_MESSAGE"
    proof (rule safe_sbind [OF behaves [OF Attachment_data_behaves [OF assms]]])
      fix data assume "holds at (Attachment_data at) data"
      with m that final show "learns at (attached_from at) (case data of
         None \<Rightarrow> sret (Skipped how called)
       | Some d \<Rightarrow> sbind (slift (check_allocation (len d) (max_allocation lims))) (\<lambda>_.
           sbind (Attachment_mime_tag at) (\<lambda>tag.
           sbind (Attachment_content_id at) (\<lambda>content_id.
           let cid = content_id_form content_id in
           sret (Bytes \<lparr>dp_data = d, dp_type = mime_type tag, dp_filename = called, dp_cid = cid,
             dp_inline = (case (cid, html) of
               (Some c, Some text) \<Rightarrow> mail_references (ml_lower ml) text c | _ \<Rightarrow> False)\<rparr>)))))"
        by (cases data) (auto simp: attached_from_def intro!: safe_sret)
    qed
  qed
qed

text \<open>One attachment after the other.\<close>

definition outcome_notes :: "(ustring + mail_part) list \<Rightarrow> (ustring \<times> ustring) list" where
  "outcome_notes outs = concat (map (\<lambda>x. case x of Inl v \<Rightarrow> [(SKIPPED_HEADER, v)] | Inr p \<Rightarrow> []) outs)"

definition outcome_parts :: "(ustring + mail_part) list \<Rightarrow> mail_part list" where
  "outcome_parts outs = concat (map (\<lambda>x. case x of Inl v \<Rightarrow> [] | Inr p \<Rightarrow> [p]) outs)"

abbreviation attached_so :: "message \<Rightarrow> (ustring \<times> ustring) list \<Rightarrow> node_id list \<Rightarrow> (ustring \<times> ustring) list \<times> mail_part list \<Rightarrow> bool" where
  "attached_so me hs nodes \<equiv> \<lambda>(hs', ps).
     \<exists>outs. list_all2 (becomes me) nodes outs \<and> hs' = hs @ outcome_notes outs \<and> ps = outcome_parts outs"

lemma attached_so_step:
  assumes "attached_so me hs nodes (hs', ps)" "becomes me node x"
  shows "attached_so me hs (nodes @ [node]) (hs' @ outcome_notes [x], ps @ outcome_parts [x])"
proof -
  obtain outs where "list_all2 (becomes me) nodes outs" "hs' = hs @ outcome_notes outs" "ps = outcome_parts outs"
    using assms(1) by auto
  with assms(2) show ?thesis
    by (auto simp: outcome_notes_def outcome_parts_def intro!: exI [of _ "outs @ [x]"] list_all2_appendI)
qed

lemma add_attachment_from:
  assumes "message_ok me" "Attachment me node = Inr x" "attached_so me hs nodes acc"
  shows "yields (attached_so me hs (nodes @ [node])) (add_attachment ml lims f depth carrier bodies acc x)"
proof -
  obtain hs' ps at s where x: "acc = (hs', ps)" "x = (at, s)" by (cases acc; cases x)
  note at = assms(2) [unfolded x(2)]
  note so = attached_so_step [OF assms(3) [unfolded x(1)]]
  have run: "yields (\<lambda>(a, s'). attached_from at a) (slift (srun (read_attached ml lims depth (html_text bodies) at) s))"
    by (rule safe_weaken [OF safe_run [OF read_attached_from]]) (use Attachment_Inr(1,2) [OF at assms(1)] in auto)
  show ?thesis unfolding x
  proof (rule safe_add_attachment [OF run])
    fix m n assume "attached_from at (Skipped m n)"
    then have "becomes me node (Inl (skipped_value m n))" using becomes.noted [OF at] by (simp add: attached_from_def)
    from so [OF this] show "attached_so me hs (nodes @ [node]) (hs' @ [(SKIPPED_HEADER, skipped_value m n)], ps)"
      by (simp add: outcome_notes_def outcome_parts_def)
  next
    fix p assume "attached_from at (Bytes p)"
    then have "becomes me node (Inr (DataPart p))" using becomes.attached [OF at] by (auto simp: attached_from_def)
    from so [OF this] show "attached_so me hs (nodes @ [node]) (hs', ps @ [DataPart p])"
      by (simp add: outcome_notes_def outcome_parts_def)
  next
    show "attached_so me hs (nodes @ [node]) (hs', ps)" if "attached_from at (Embedded None n)" for n
      using that by (simp add: attached_from_def)
  next
    fix n inner ms assume "attached_from at (Embedded (Some (inner, ms)) n)"
    then have "becomes me node (Inr (EmbeddedPart m n))" for m using becomes.embedded [OF at] by (simp add: attached_from_def)
    from so [OF this] have "attached_so me hs (nodes @ [node]) (hs', ps @ [EmbeddedPart m n])" for m
      by (simp add: outcome_notes_def outcome_parts_def)
    then show "yields (\<lambda>m. attached_so me hs (nodes @ [node]) (hs', ps @ [EmbeddedPart m n]))
        (inside ms (f (depth + 1) (carried_by ml hs' carrier) inner))" by (rule yields_anything)
  qed (rule TrueI)+
qed

lemma sfold_attachments_from:
  assumes "message_ok me" "attached_so me hs before acc"
  shows "yields (attached_so me hs (before @ nodes)) (sfold (\<lambda>acc node.
       sbind (slift (Attachment me node)) (add_attachment ml lims f depth carrier bodies acc)) acc nodes)"
  using assms(2)
proof (induction nodes arbitrary: before acc)
  case (Cons node nodes)
  have "yields (attached_so me hs (before @ [node])) (sbind (slift (Attachment me node)) (add_attachment ml lims f depth carrier bodies acc))"
    by (rule safe_sbind [where Q = "\<lambda>x. Attachment me node = Inr x"], rule safe_slift)
      (auto intro: add_attachment_from [OF assms(1) _ Cons.prems])
  moreover have "yields (attached_so me hs (before @ node # nodes)) (sfold (\<lambda>acc node.
       sbind (slift (Attachment me node)) (add_attachment ml lims f depth carrier bodies acc)) acc' nodes)"
    if "attached_so me hs (before @ [node]) acc'" for acc'
    using Cons.IH [OF that] unfolding append_assoc append.simps .
  ultimately show ?case unfolding sfold.simps by (rule safe_sbind)
qed (auto intro: safe_sret)

section \<open>The account\<close>

text \<open>What is asked of the result only, from a good state on.\<close>

definition answers :: "('s \<Rightarrow> bool) \<Rightarrow> ('a \<Rightarrow> bool) \<Rightarrow> ('s, 'a) st \<Rightarrow> bool" where
  "answers I Q m \<longleftrightarrow> (\<forall>s x s'. I s \<longrightarrow> m s = (Inr x, s') \<longrightarrow> Q x)"

lemma answers_sbind: "safe I E Q m \<Longrightarrow> (\<And>x. Q x \<Longrightarrow> answers I R (f x)) \<Longrightarrow> answers I R (sbind m f)"
  unfolding answers_def sbind_eq_Inr by (blast dest: safeD)

lemma answers_yields: "yields Q m \<Longrightarrow> answers I Q m"
  unfolding answers_def by (auto dest: safeD)

text \<open>The note on the bodies, read off the bodies that were set: no genuine plain text is empty.\<close>

definition bodies_note :: "mail_body list \<Rightarrow> (ustring \<times> ustring) list" where
  "bodies_note bodies =
     (if bodies = [PlainBody []] then [(BODY_HEADER, ascii ''none'')]
      else case bodies of [RtfBody b] \<Rightarrow> [(BODY_HEADER, ascii ''rtf-only'')] | _ \<Rightarrow> [])"

lemma message_bodies_plain: "yields (\<lambda>bodies. PlainBody [] \<notin> set bodies) (message_bodies ml me)"
proof -
  have html: "yields (\<lambda>bodies. \<forall>b \<in> set bodies. \<exists>t. b = HtmlBody t) (case h of None \<Rightarrow> sret [] | Some [] \<Rightarrow> sret []
            | Some b \<Rightarrow> sbind (mail_charset ml me) (\<lambda>name. sret [HtmlBody (ml_decode ml name b)]))" for h
    by (cases h) (auto split: list.split intro!: safe_sbind [OF yields_any] safe_sret)
  have plain: "PlainBody [] \<notin> set (if truthy t then [PlainBody (the t)] else [])" for t
    by (cases t) (auto simp: truthy_def)
  have rtf: "PlainBody [] \<notin> set (case r of None \<Rightarrow> [] | Some [] \<Rightarrow> [] | Some b \<Rightarrow> [RtfBody b])" for r :: "bytes option"
    by (auto split: option.split list.split)
  show ?thesis unfolding message_bodies_def
    by (rule safe_sbind [OF yields_any], rule safe_sbind [OF yields_any], rule safe_sbind [OF yields_any],
        rule safe_sbind [OF html], rule safe_sret) (use plain rtf in fastforce)
qed

lemma set_bodies_Inr: "set_bodies ml bodies = Inr all \<Longrightarrow> all = (if bodies = [] then [PlainBody []] else bodies)"
proof -
  have "all = before @ bs" if "efold (add_body ml) before bs = Inr all" for before bs
    using that
  proof (induction bs arbitrary: before)
    case (Cons b bs)
    then obtain acc where acc: "add_body ml before b = Inr acc" "efold (add_body ml) acc bs = Inr all"
      by (auto simp: ebind_Inr_iff)
    from acc(1) have "acc = before @ [b]" by (auto simp: add_body_def ebind_Inr_iff)
    with Cons.IH [OF acc(2)] show ?case by simp
  qed simp
  from this [of "[]"] show "set_bodies ml bodies = Inr all \<Longrightarrow> all = (if bodies = [] then [PlainBody []] else bodies)"
    by (simp add: set_bodies_def split: if_splits)
qed

lemma bodies_note: "PlainBody [] \<notin> set bodies \<Longrightarrow> set_bodies ml bodies = Inr all \<Longrightarrow> body_note bodies = bodies_note all"
  using set_bodies_Inr [of ml bodies all]
  by (auto simp: body_note_def bodies_note_def split: list.split mail_body.split)

text \<open>
  The account of a mail: the delivered headers; those made up, when asked for; the header naming them; the note on the
  bodies; and the attachments, one note or one part for each, in the order of the table.
\<close>

definition lower_names :: "(ustring \<times> ustring) list \<Rightarrow> ustring set" where
  "lower_names hs = set (map (\<lambda>h. ascii_lower (fst h)) hs)"

definition mail_accounted :: "mailer \<Rightarrow> message \<Rightarrow> bool \<Rightarrow> ustring option \<Rightarrow> mail \<Rightarrow> bool" where
  "mail_accounted ml me synthesize carrier m \<longleftrightarrow>
     (\<exists>raw passed made nodes outs.
        reads me (transport me) raw \<and> delivered_from ml raw passed \<and>
        (if synthesize
         then made_from me carrier (lower_names passed) made \<and> ascii ''message-id'' \<in> lower_names passed \<union> lower_names made
         else made = []) \<and>
        reads me (on_message (Message_attachment_ids me)) nodes \<and> list_all2 (becomes me) nodes outs \<and>
        mail_headers m = passed @ made @ own_headers made @ bodies_note (mail_bodies m) @ outcome_notes outs \<and>
        mail_parts m = outcome_parts outs)"

lemma safe_both: "safe I E P m \<Longrightarrow> yields Q m \<Longrightarrow> safe I E (\<lambda>x. P x \<and> Q x) m"
  by (rule safeI) (auto dest: safeD safeE)

lemma sbind_assoc: "sbind (sbind m f) g = sbind m (\<lambda>x. sbind (f x) g)"
  by (auto simp: sbind_def fun_eq_iff split: prod.split sum.split)

lemma answers_known: "(\<And>x. m = Inr x \<Longrightarrow> x = v) \<Longrightarrow> answers I R (f v) \<Longrightarrow> answers I R (sbind (slift m) f)"
  by (cases m) (auto simp: answers_def sbind_def)

lemma made_knows:
  assumes "mail_ok me"
  shows "knows me (\<lambda>made. if synthesize
      then made_from me carrier (lower_names passed) made \<and> ascii ''message-id'' \<in> lower_names passed \<union> lower_names made
      else made = []) (if synthesize then synthesised me (set (map (\<lambda>h. ascii_lower (fst h)) passed)) carrier else sret [])"
proof -
  have "ascii ''message-id'' \<in> lower_names passed \<union> lower_names made"
    if "made_from me carrier (lower_names passed) made" for made
    using made_from_message_id [OF that] by (force simp: lower_names_def header_names simp del: ascii_simps)
  then show ?thesis unfolding lower_names_def [symmetric]
    by (cases synthesize)
      (auto simp del: ascii_simps intro!: safe_sret safe_weaken [OF synthesised_knows [OF assms]])
qed

lemma attachments_answer:
  assumes "mail_ok me" "reads me (transport me) raw" "delivered_from ml raw passed"
    and made: "if synthesize
      then made_from me carrier (lower_names passed) made \<and> ascii ''message-id'' \<in> lower_names passed \<union> lower_names made
      else made = []"
    and note_eq: "body_note noted = bodies_note all"
  shows "answers (mail_inv me) (mail_accounted ml me synthesize carrier)
    (sbind (add_attachments ml lims f depth carrier me bodies (((passed @ made) @ own_headers made) @ body_note noted))
      (\<lambda>(headers4, parts). let m = Mail headers4 all parts [] in
        slift (set_boundaries ml (ms_node me) depth (ml_multiparts ml m) m)))"
proof -
  let ?hs = "((passed @ made) @ own_headers made) @ body_note noted"
  have m: "message_ok me" using assms(1) by (simp add: mail_ok_def)
  have final: "yields (mail_accounted ml me synthesize carrier) (let m = Mail hs' all ps [] in
        slift (set_boundaries ml (ms_node me) depth (ml_multiparts ml m) m))"
    if ids: "reads me (on_message (Message_attachment_ids me)) nodes" and so: "attached_so me ?hs nodes (hs', ps)" for nodes hs' ps
  proof -
    obtain outs where outs: "list_all2 (becomes me) nodes outs" "hs' = ?hs @ outcome_notes outs" "ps = outcome_parts outs"
      using so by auto
    have "mail_accounted ml me synthesize carrier (Mail hs' all ps bs)" for bs
      unfolding mail_accounted_def mail.sel
      by (rule exI [of _ raw], rule exI [of _ passed], rule exI [of _ made], rule exI [of _ nodes], rule exI [of _ outs])
        (use assms(2,3) made ids outs in \<open>simp add: note_eq del: ascii_simps\<close>)
    then show ?thesis unfolding Let_def by (intro safe_set_boundaries) simp_all
  qed
  have "answers (mail_inv me) (mail_accounted ml me synthesize carrier)
    (sbind (on_message (Message_attachment_ids me)) (\<lambda>ids. sbind (sfold (\<lambda>acc node.
       sbind (slift (Attachment me node)) (add_attachment ml lims f depth carrier bodies acc)) (?hs, []) ids)
      (\<lambda>(headers4, parts). let m = Mail headers4 all parts [] in
        slift (set_boundaries ml (ms_node me) depth (ml_multiparts ml m) m))))"
  proof (rule answers_sbind [OF knows_reads [OF on_message_reads(6) [OF m]]], rule answers_yields, rule safe_sbind)
    fix nodes
    have "attached_so me ?hs [] (?hs, [])" by (simp add: outcome_notes_def outcome_parts_def)
    from sfold_attachments_from [OF m this]
    show "yields (attached_so me ?hs nodes) (sfold (\<lambda>acc node.
       sbind (slift (Attachment me node)) (add_attachment ml lims f depth carrier bodies acc)) (?hs, []) nodes)"
      by (simp only: append_Nil)
  qed (use final in fastforce)
  then show ?thesis by (simp add: add_attachments_def sbind_assoc)
qed

lemma assemble_with_answers:
  assumes "mail_ok me"
  shows "answers (mail_inv me) (mail_accounted ml me synthesize carrier) (assemble_with ml lims f synthesize depth carrier me)"
  unfolding assemble_with_def
proof (rule answers_sbind [OF mail_transport_knows [OF assms, of ml]], rule answers_known, erule set_headers_Inr,
    rule answers_sbind [OF made_knows [OF assms]], rule answers_known, erule set_headers_Inr)
  fix passed made
  assume p: "\<exists>raw. reads me (transport me) raw \<and> delivered_from ml raw passed"
    and made: "if synthesize
      then made_from me carrier (lower_names passed) made \<and> ascii ''message-id'' \<in> lower_names passed \<union> lower_names made
      else made = []"
  have own: "safe (mail_inv me) (\<lambda>_. True) (\<lambda>hs'. hs' = hs @ own_headers made) (if made \<noteq> []
     then slift (add_header ml hs (SYNTHESIZED_HEADER, py_join (ascii '', '') (map fst made))) else sret hs)" for hs
    by (auto simp: own_headers_def intro!: safe_if safe_slift safe_sret dest: add_header_Inr)
  have bodies: "safe (mail_inv me) (\<lambda>_. True) (\<lambda>bodies. True \<and> PlainBody [] \<notin> set bodies) (message_bodies ml me)"
    by (rule safe_both [OF safe_weaken [OF safe_implements [OF message_bodies_behaves [OF assms]]] message_bodies_plain]) simp_all
  have all: "safe (mail_inv me) (\<lambda>_. True) (\<lambda>all. set_bodies ml bodies = Inr all) (slift (set_bodies ml bodies))" for bodies
    by (rule safe_slift) simp_all
  show "answers (mail_inv me) (mail_accounted ml me synthesize carrier)
     (sbind (if made \<noteq> [] then slift (add_header ml (([] @ passed) @ made) (SYNTHESIZED_HEADER, py_join (ascii '', '') (map fst made)))
            else sret (([] @ passed) @ made)) (\<lambda>headers2.
     sbind (message_bodies ml me) (\<lambda>bodies.
     sbind (slift (set_bodies ml bodies)) (\<lambda>all_bodies.
     sbind (slift (efold (add_header ml) headers2 (body_note bodies))) (\<lambda>headers3.
     sbind (add_attachments ml lims f depth carrier me all_bodies headers3) (\<lambda>(headers4, parts).
     let m = Mail headers4 all_bodies parts [] in
     slift (set_boundaries ml (ms_node me) depth (ml_multiparts ml m) m)))))))"
    using p made bodies_note
    by (intro answers_sbind [OF own] answers_sbind [OF bodies] answers_sbind [OF all])
      (auto simp only: append_Nil intro!: answers_known [OF add_headers_Inr] attachments_answer [OF assms])
qed

lemma answers_result: "answers I Q m \<Longrightarrow> I s \<Longrightarrow> case fst (m s) of Inl e \<Rightarrow> True | Inr x \<Rightarrow> Q x"
  unfolding answers_def by (cases "m s"; cases "fst (m s)") (auto simp del: split_paired_All)

section \<open>What to_eml sets\<close>

text \<open>C8: A mail accounts for what the store holds. Its headers are, in this order: every delivered header but those on
  the original body, cleaned; those made up, only when asked for: each of From, To, Cc, Bcc, Subject, Date and
  Message-ID, in that order, that was not delivered and that the store has a value for, with that value, so that a
  Message-ID is always there; the header naming the ones made up; the note on the bodies; and one note for each
  attachment without data, in the order of the table. Every other attachment is one part, in that order, with its
  bytes and its name, or with the message it carries.\<close>

theorem to_eml_headers:
  assumes "mail_ok me" "mail_inv me s"
  shows "case fst (to_eml ml synthesize l me s) of Inl e \<Rightarrow> True | Inr m \<Rightarrow> mail_accounted ml me synthesize None m"
proof -
  have "answers (mail_inv me) (mail_accounted ml me synthesize None) (to_eml ml synthesize l me)"
    unfolding to_eml_def by (subst mail_assemble_unfold) (rule assemble_with_answers [OF assms(1)])
  then show ?thesis using assms(2) by (rule answers_result)
qed

theorem to_eml_headers_witness:
  "case fst (to_eml sample_mailer True None sample_message (sample_message_state, pc_fresh heap_fresh)) of
     Inl e \<Rightarrow> True | Inr m \<Rightarrow> mail_accounted sample_mailer sample_message True None m"
  by (rule to_eml_headers [OF sample_mail_ok(1,3)])

end
