(* ===== verification/Pst_Export.thy ===== *)
theory Pst_Export
  imports Pst_Mail_Total
begin

text \<open>
  The exports of \<open>eml.py\<close> (\<open>folder_paths\<close>, \<open>readable_messages\<close>, \<open>export_folder\<close>) and of \<open>mbox.py\<close>: the folders an
  export covers, each with the path a human reads it by, the messages that open, and what is written for them. Writing
  a message out is the \<open>email\<close> and \<open>mailbox\<close> packages' (\<open>mail_writer\<close>); the file system is the list of what is written.
\<close>

section \<open>Display paths\<close>

definition SLASH :: int where "SLASH = 47"
definition BACKSLASH :: int where "BACKSLASH = 92"

definition node_tag :: "node_id \<Rightarrow> ustring" where
  "node_tag node = ascii ''<'' @ hex8 (nid_raw node) @ ascii ''>''"

definition display_text :: "node_id \<Rightarrow> ustring \<Rightarrow> ustring" where
  "display_text node name =
     (let cleaned = replace_char BACKSLASH 0x2216 (replace_char SLASH 0x2215 (the (mail_clean (Some name))))
      in if cleaned = [] then node_tag node else cleaned)"

definition display_path :: "folder \<Rightarrow> (folder_state, ustring) st" where
  "display_path fo =
     scatch is_pst_error (sbind (Folder_display_name fo) (\<lambda>name. sret (display_text (fo_node fo) name)))
       (sret (node_tag (fo_node fo)))"

text \<open>A folder of the walk, with its path. Its children are listed when the walk goes on from it.\<close>

type_synonym path_node = "(folder \<times> folder_state) \<times> ustring"

abbreviation path_key :: "path_node \<Rightarrow> node_id" where
  "path_key x \<equiv> walked_node (fst x)"

definition path_child :: "ustring \<Rightarrow> folder \<times> folder_state \<Rightarrow> path_node result" where
  "path_child path = (\<lambda>(c, s).
     ebind (srun (display_path c) s) (\<lambda>(name, s'). Inr ((c, s'), path @ [SLASH] @ name)))"

definition path_kids :: "bool \<Rightarrow> bool \<Rightarrow> path_node \<Rightarrow> path_node list result" where
  "path_kids recurse strict = (\<lambda>(x, path).
     if \<not> recurse then Inr []
     else
       case Folder_children x of
         Inl e \<Rightarrow> if is_pst_error e \<and> \<not> strict then Inr [] else Inl e
       | Inr children \<Rightarrow> emap (path_child path) children)"

text \<open>What is yielded, and the exception it ends in, if any.\<close>

definition folder_paths :: "bool \<Rightarrow> bool \<Rightarrow> folder \<times> folder_state \<Rightarrow> path_node list \<times> error option" where
  "folder_paths recurse strict = (\<lambda>(fo, s).
     let lims = so_limits (fo_store fo)
     in case srun (display_path fo) s of
          Inl e \<Rightarrow> ([], Some e)
        | Inr (path, s') \<Rightarrow>
            guarded_walk (path_kids recurse strict) path_key (max_folder_depth lims) [(((fo, s'), path), 0)]
              (new_visited (max_folders lims)))"

section \<open>Messages\<close>

text \<open>A loop that skips what refuses with a \<open>PstError\<close>, unless it is strict: what it gives, and the exception it ends in.\<close>

fun skipping ::
  "bool \<Rightarrow> ('x \<Rightarrow> ('s, 'b) st) \<Rightarrow> 'x list \<Rightarrow> 's \<Rightarrow> ('b list \<times> error option) \<times> 's" where
  "skipping strict f [] t = (([], None), t)"
| "skipping strict f (x # xs) t =
     (case f x t of
        (Inl e, t') \<Rightarrow> if is_pst_error e \<and> \<not> strict then skipping strict f xs t' else (([], Some e), t')
      | (Inr b, t') \<Rightarrow> (case skipping strict f xs t' of ((bs, err), t'') \<Rightarrow> ((b # bs, err), t'')))"

text \<open>The same loop with its counter, one up for each that is done.\<close>

fun tallying ::
  "bool \<Rightarrow> ('x \<Rightarrow> ('s, 'b) st) \<Rightarrow> int \<Rightarrow> 'x list \<Rightarrow> 's \<Rightarrow> ('b list \<times> int \<times> error option) \<times> 's" where
  "tallying strict f n [] t = (([], n, None), t)"
| "tallying strict f n (x # xs) t =
     (case f x t of
        (Inl e, t') \<Rightarrow> if is_pst_error e \<and> \<not> strict then tallying strict f n xs t' else (([], n, Some e), t')
      | (Inr b, t') \<Rightarrow> (case tallying strict f (n + 1) xs t' of ((bs, m, err), t'') \<Rightarrow> ((b # bs, m, err), t'')))"

definition open_one :: "folder \<Rightarrow> node_id \<Rightarrow> (pc_state, message \<times> message_state) st" where
  "open_one fo node = Store_open_message (fo_store fo) (ANodeId node) (Some fo)"

text \<open>\<open>ids\<close> is what \<open>message_ids\<close> gave; a folder that refuses it names no message.\<close>

definition readable_messages ::
  "bool \<Rightarrow> folder \<Rightarrow> node_id list \<Rightarrow> pc_state \<Rightarrow> ((message \<times> message_state) list \<times> error option) \<times> pc_state" where
  "readable_messages strict fo = skipping strict (open_one fo)"

text \<open>What is done with each message.\<close>

type_synonym 'b per_message = "message \<times> message_state \<Rightarrow> (pc_state, 'b) st"

text \<open>\<open>mw_bytes\<close> and \<open>mw_record\<close>: what \<open>as_bytes\<close> gives for an \<open>.eml\<close> and for a record of an mbox.\<close>

record mail_writer =
  mw_mailer :: mailer
  mw_bytes :: "mail \<Rightarrow> bytes result"
  mw_record :: "mail \<Rightarrow> bytes result"

definition with_state :: "message_state \<Rightarrow> (mail_state, 'a) st \<Rightarrow> (pc_state, 'a) st" where
  "with_state ms m t = (case m (ms, t) of (r, (_, t')) \<Rightarrow> (r, t'))"

definition eml_bytes :: "mail_writer \<Rightarrow> bool \<Rightarrow> limits option \<Rightarrow> message \<Rightarrow> (mail_state, bytes) st" where
  "eml_bytes mw synthesize_missing l me =
     sbind (to_eml (mw_mailer mw) synthesize_missing l me) (\<lambda>m. slift (mail_guard (mw_bytes mw m)))"

definition write_eml :: "mail_writer \<Rightarrow> limits option \<Rightarrow> (ustring \<times> bytes) per_message" where
  "write_eml mw l = (\<lambda>(me, ms). with_state ms (sbind (eml_bytes mw True l me) (\<lambda>b. sret (eml_name me, b))))"

text \<open>
  The loops of \<open>export_folder\<close>: over the folders, and over the messages of one, each written before the next is opened.
  \<open>written\<close> runs through both. What is given are the files, by name, the counter, and the exception it ends in.
\<close>

fun export_folders ::
  "mail_writer \<Rightarrow> bool \<Rightarrow> limits option \<Rightarrow> int \<Rightarrow> path_node list \<Rightarrow> pc_state \<Rightarrow>
   ((ustring \<times> bytes) list \<times> int \<times> error option) \<times> pc_state" where
  "export_folders mw strict l written [] t = (([], written, None), t)"
| "export_folders mw strict l written (((fo, s), path) # ys) t =
     (case fst (Folder_message_ids fo s) of
        Inl e \<Rightarrow>
          if is_pst_error e \<and> \<not> strict then export_folders mw strict l written ys t else (([], written, Some e), t)
      | Inr ids \<Rightarrow>
          (case tallying strict (\<lambda>node. sbind (open_one fo node) (write_eml mw l)) written ids t of
             ((fs, n, Some e), t') \<Rightarrow> ((fs, n, Some e), t')
           | ((fs, n, None), t') \<Rightarrow>
               (case export_folders mw strict l n ys t' of ((gs, m, err), t'') \<Rightarrow> ((fs @ gs, m, err), t''))))"

text \<open>The files written and the number returned, or what the export raises.\<close>

definition export_folder ::
  "mail_writer \<Rightarrow> bool \<Rightarrow> bool \<Rightarrow> limits option \<Rightarrow> folder \<times> folder_state \<Rightarrow> pc_state \<Rightarrow>
   ((ustring \<times> bytes) list \<times> int result) \<times> pc_state" where
  "export_folder mw recurse strict l x t =
     (case folder_paths recurse strict x of
        (covered, err) \<Rightarrow>
          (case export_folders mw strict l 0 covered t of
             ((files, n, Some e), t') \<Rightarrow> ((files, Inl e), t')
           | ((files, n, None), t') \<Rightarrow> ((files, case err of None \<Rightarrow> Inr n | Some e \<Rightarrow> Inl e), t')))"

section \<open>Mailboxes\<close>

definition INDEX_NAME :: ustring where "INDEX_NAME = ascii ''folders.txt''"
definition MAILER_DAEMON :: ustring where "MAILER_DAEMON = ascii ''MAILER-DAEMON''"

definition EPOCH :: py_datetime where
  "EPOCH = \<lparr>dt_aware = True, dt_micros = 134774 * MICROS_PER_DAY\<rparr>"

definition mbox_name :: "folder \<Rightarrow> ustring" where
  "mbox_name fo = hex8 (nid_raw (fo_node fo)) @ ascii ''.mbox''"

definition mbox_display_name :: "folder \<Rightarrow> (folder_state, ustring) st" where
  "mbox_display_name fo =
     scatch is_pst_error
       (sbind (Folder_display_name fo) (\<lambda>name.
        let cleaned = py_strip (replace_char SLASH 0x2215 (map (\<lambda>c. if is_control c then 32 else c) name))
        in sret (if cleaned = [] then node_tag (fo_node fo) else cleaned)))
       (sret (node_tag (fo_node fo)))"

text \<open>The address of a From\_ line: of the two, the first that reads and has an at sign once its spaces are gone.\<close>

definition from_candidate :: "ustring option \<Rightarrow> ustring" where
  "from_candidate v = (case v of None \<Rightarrow> [] | Some s \<Rightarrow> filter (\<lambda>c. \<not> is_space c) s)"

fun from_address :: "(mail_state, ustring option) st list \<Rightarrow> (mail_state, ustring) st" where
  "from_address [] = sret MAILER_DAEMON"
| "from_address (m # ms) =
     sbind (scatch is_pst_error m (sret None)) (\<lambda>v.
     if 64 \<in> set (from_candidate v) then sret (from_candidate v) else from_address ms)"

definition from_time :: "message \<Rightarrow> (mail_state, py_datetime option) st" where
  "from_time me =
     scatch is_pst_error
       (sbind (on_message (Message_client_submit_time me)) (\<lambda>submit.
        case submit of None \<Rightarrow> on_message (Message_delivery_time me) | Some t \<Rightarrow> sret (Some t)))
       (sret None)"

definition from_line :: "message \<Rightarrow> (mail_state, ustring) st" where
  "from_line me =
     sbind (from_address [on_message (Message_sender_smtp me), on_message (Message_sender_email me)]) (\<lambda>address.
     sbind (from_time me) (\<lambda>when.
     sret (address @ ascii '' '' @ asctime (case when of None \<Rightarrow> EPOCH | Some t \<Rightarrow> t))))"

text \<open>The headers given to a record are set without the guard.\<close>

definition record_header :: "mailer \<Rightarrow> mail \<Rightarrow> ustring \<times> ustring \<Rightarrow> mail result" where
  "record_header ml m = (\<lambda>(name, v).
     ebind (add_header ml (mail_headers m) (name, filter (\<lambda>c. \<not> is_control c) v)) (\<lambda>hs.
     Inr (Mail hs (mail_bodies m) (mail_parts m) (mail_boundaries m))))"

definition mbox_record ::
  "mailer \<Rightarrow> limits option \<Rightarrow> (ustring \<times> ustring) list \<Rightarrow> message \<Rightarrow> (mail_state, ustring \<times> mail) st" where
  "mbox_record ml l headers me =
     sbind (to_eml ml True l me) (\<lambda>eml.
     sbind (slift (efold (record_header ml) eml headers)) (\<lambda>m.
     sbind (from_line me) (\<lambda>line. sret (line, m))))"

text \<open>\<open>mailbox.mbox.add\<close>: the From\_ line is encoded as ASCII before the record is written.\<close>

definition box_add :: "mail_writer \<Rightarrow> ustring \<times> mail \<Rightarrow> (ustring \<times> bytes) result" where
  "box_add mw = (\<lambda>(line, m).
     if \<exists>c \<in> set line. c \<ge> 128 then Inl UnicodeError else ebind (mw_record mw m) (\<lambda>b. Inr (line, b)))"

definition add_to_box ::
  "mail_writer \<Rightarrow> limits option \<Rightarrow> (ustring \<times> ustring) list \<Rightarrow> (ustring \<times> bytes) per_message" where
  "add_to_box mw l headers = (\<lambda>(me, ms).
     with_state ms (sbind (mbox_record (mw_mailer mw) l headers me) (\<lambda>r. slift (box_add mw r))))"

fun error_name :: "error \<Rightarrow> ustring" where
  "error_name PstFormatError = ascii ''PstFormatError''"
| "error_name PstUnsupportedError = ascii ''PstUnsupportedError''"
| "error_name PstLimitError = ascii ''PstLimitError''"
| "error_name PstNotFoundError = ascii ''PstNotFoundError''"
| "error_name _ = []"

text \<open>
  \<open>_write_one\<close>: the mailbox it leaves behind, if it makes one, and the count or what it raises. The first message is
  opened before the file is created, and all the others before the first record is added.
\<close>

definition write_one_box ::
  "mail_writer \<Rightarrow> bool \<Rightarrow> limits option \<Rightarrow> folder \<times> folder_state \<Rightarrow> pc_state \<Rightarrow>
   ((ustring \<times> bytes) list option \<times> int result) \<times> pc_state" where
  "write_one_box mw strict l = (\<lambda>(fo, s) t.
     case fst (Folder_message_ids fo s) of
       Inl e \<Rightarrow> ((None, Inl e), t)
     | Inr ids \<Rightarrow>
         (case readable_messages strict fo ids t of
            (([], Some e), t1) \<Rightarrow> ((None, Inl e), t1)
          | ((_ # _, Some e), t1) \<Rightarrow> ((Some [], Inl e), t1)
          | ((messages, None), t1) \<Rightarrow>
              (case tallying strict (add_to_box mw l []) 0 messages t1 of
                 ((bs, n, err), t2) \<Rightarrow> ((Some bs, case err of None \<Rightarrow> Inr n | Some e \<Rightarrow> Inl e), t2))))"

text \<open>A line of the index: tabs between the file name, the path, and the count or the refusal.\<close>

definition index_line :: "path_node \<Rightarrow> int result \<Rightarrow> ustring" where
  "index_line = (\<lambda>((fo, s), path) r.
     mbox_name fo @ [9] @ path @ [9] @
       (case r of Inl e \<Rightarrow> ascii ''# skipped: '' @ error_name e | Inr many \<Rightarrow> decimal many))"

text \<open>The loop of \<open>export_mbox\<close>: the mailboxes, by name, the index, \<open>written\<close>, and the exception it ends in.\<close>

fun export_boxes ::
  "mail_writer \<Rightarrow> bool \<Rightarrow> limits option \<Rightarrow> int \<Rightarrow> path_node list \<Rightarrow> pc_state \<Rightarrow>
   ((ustring \<times> (ustring \<times> bytes) list) list \<times> ustring list \<times> int \<times> error option) \<times> pc_state" where
  "export_boxes mw strict l written [] t = (([], [], written, None), t)"
| "export_boxes mw strict l written (y # ys) t =
     (case write_one_box mw strict l (fst y) t of
        ((box, r), t') \<Rightarrow>
          let own = (case box of None \<Rightarrow> [] | Some bs \<Rightarrow> [(mbox_name (fst (fst y)), bs)])
          in case r of
               Inl e \<Rightarrow>
                 if is_pst_error e \<and> \<not> strict then
                   (case export_boxes mw strict l written ys t' of
                      ((boxes, index, n, err), t'') \<Rightarrow> ((own @ boxes, index_line y r # index, n, err), t''))
                 else ((own, [], written, Some e), t')
             | Inr many \<Rightarrow>
                 (case export_boxes mw strict l (written + many) ys t' of
                    ((boxes, index, n, err), t'') \<Rightarrow> ((own @ boxes, index_line y r # index, n, err), t'')))"

text \<open>The mailboxes written, by name, the lines of the index, and the number returned or what the export raises.\<close>

definition export_mbox ::
  "mail_writer \<Rightarrow> bool \<Rightarrow> bool \<Rightarrow> limits option \<Rightarrow> folder \<times> folder_state \<Rightarrow> pc_state \<Rightarrow>
   ((ustring \<times> (ustring \<times> bytes) list) list \<times> (ustring list \<times> int) result) \<times> pc_state" where
  "export_mbox mw recurse strict l x t =
     (case folder_paths recurse strict x of
        (covered, err) \<Rightarrow>
          (case export_boxes mw strict l 0 covered t of
             ((boxes, index, n, Some e), t') \<Rightarrow> ((boxes, Inl e), t')
           | ((boxes, index, n, None), t') \<Rightarrow>
               ((boxes, case err of None \<Rightarrow> Inr (index, n) | Some e \<Rightarrow> Inl e), t')))"

end
