(* ===== verification/Pst_Export_Facts.thy ===== *)
theory Pst_Export_Facts
  imports Pst_Export
begin

text \<open>
  What holds of every export: display paths split into safe components, the walk that carries them is bounded and
  skips what refuses, a folder's files are named by node ids and by nothing the file says, each message named is
  written at most once and in order, and a From\_ line is one line.
\<close>

section \<open>Splitting and joining\<close>

text \<open>\<open>str.split\<close> at a character.\<close>

fun split_on :: "int \<Rightarrow> ustring \<Rightarrow> ustring list" where
  "split_on c [] = [[]]"
| "split_on c (x # xs) = (if x = c then [] # split_on c xs else (x # hd (split_on c xs)) # tl (split_on c xs))"

lemma split_on_not_Nil [simp]: "split_on c s \<noteq> []"
  by (induction s) auto

lemma split_on_free: "c \<notin> set s \<Longrightarrow> split_on c s = [s]"
  by (induction s) auto

lemma split_on_append: "split_on c (a @ [c] @ b) = split_on c a @ split_on c b"
  by (induction a) (auto simp: hd_append tl_append split: list.split)

lemma split_on_join: "py_join [c] (split_on c s) = s"
proof (induction s)
  case (Cons x s)
  obtain p ps where "split_on c s = p # ps" by (metis split_on_not_Nil list.exhaust)
  with Cons show ?case by (cases ps) auto
qed simp

lemma split_on_inj: "split_on c a = split_on c b \<longleftrightarrow> a = b"
  by (metis split_on_join)

lemma py_join_append: "as \<noteq> [] \<Longrightarrow> bs \<noteq> [] \<Longrightarrow> py_join sep (as @ bs) = py_join sep as @ sep @ py_join sep bs"
proof (induction sep as rule: py_join.induct)
  case (2 sep x)
  then show ?case by (cases bs) auto
qed auto

lemma split_on_prefix: "Sublist.prefix (split_on c w) (split_on c path) \<longleftrightarrow> path = w \<or> Sublist.prefix (w @ [c]) path"
proof
  assume "Sublist.prefix (split_on c w) (split_on c path)"
  then obtain zs where zs: "split_on c path = split_on c w @ zs" unfolding Sublist.prefix_def by blast
  show "path = w \<or> Sublist.prefix (w @ [c]) path"
  proof (cases "zs = []")
    case True
    with zs show ?thesis using split_on_inj by auto
  next
    case False
    have "path = py_join [c] (split_on c w @ zs)" using split_on_join [of c path] zs by simp
    also have "\<dots> = w @ [c] @ py_join [c] zs" using py_join_append [OF split_on_not_Nil False] split_on_join by simp
    finally show ?thesis by (simp add: Sublist.prefix_def)
  qed
next
  assume "path = w \<or> Sublist.prefix (w @ [c]) path"
  then show "Sublist.prefix (split_on c w) (split_on c path)"
    using split_on_append [of c w] by (auto simp: Sublist.prefix_def)
qed

section \<open>Display paths\<close>

definition safe_component :: "ustring \<Rightarrow> bool" where
  "safe_component s \<longleftrightarrow> s \<noteq> [] \<and> clean_text s \<and> SLASH \<notin> set s \<and> BACKSLASH \<notin> set s"

lemma hex8_free: "SLASH \<notin> set (hex8 n)" "BACKSLASH \<notin> set (hex8 n)" "hex8 n \<noteq> []"
proof -
  show "SLASH \<notin> set (hex8 n)" "BACKSLASH \<notin> set (hex8 n)"
    using hex8_hex [of SLASH n] hex8_hex [of BACKSLASH n] by (auto simp: SLASH_def BACKSLASH_def is_hex_def)
  have "digits_of 16 (nat n) \<noteq> []" by (subst digits_of.simps) simp
  then show "hex8 n \<noteq> []" by (simp add: hex8_def zfill_def)
qed

lemma node_tag_safe: "safe_component (node_tag node)"
  using hex8_free [of "nid_raw node"] by (auto simp: safe_component_def node_tag_def clean is_control_def SLASH_def BACKSLASH_def)

lemma set_replace_char: "set (replace_char a b s) \<subseteq> insert b (set s - {a})"
  by (auto simp: replace_char_def)

lemma display_text_safe: "safe_component (display_text node name)"
proof -
  let ?c = "the (mail_clean (Some name))" let ?r = "replace_char BACKSLASH 0x2216 (replace_char SLASH 0x2215 ?c)"
  have c: "clean_text ?c" using mail_clean_clean [of "Some name"] by (simp add: mail_clean_def clean)
  have r: "set ?r \<subseteq> insert 0x2216 (insert 0x2215 (set ?c - {SLASH}) - {BACKSLASH})"
    using set_replace_char [of BACKSLASH "0x2216" "replace_char SLASH 0x2215 ?c"] set_replace_char [of SLASH "0x2215" ?c] by blast
  moreover have "SLASH \<notin> insert 0x2216 (insert 0x2215 (set ?c - {SLASH}) - {BACKSLASH})"
    "BACKSLASH \<notin> insert 0x2216 (insert 0x2215 (set ?c - {SLASH}) - {BACKSLASH})"
    by (simp_all add: SLASH_def BACKSLASH_def)
  moreover have "clean_text ?r"
    by (rule clean_subset [of "0x2216 # 0x2215 # ?c"]) (use c r in \<open>auto simp: clean is_control_def\<close>)
  ultimately have "?r \<noteq> [] \<Longrightarrow> safe_component ?r" unfolding safe_component_def by blast
  then show ?thesis using node_tag_safe by (simp add: display_text_def Let_def)
qed

lemma display_path_safe: "yields safe_component (display_path fo)"
  unfolding display_path_def
  by (intro safe_scatch [where F = "\<lambda>_. True"] safe_sbind [where Q = "\<lambda>_. True"] safe_sret)
    (auto simp: display_text_safe node_tag_safe)

lemma path_child_Inr:
  assumes "path_child path c = Inr y"
  shows "\<exists>name s'. y = ((fst c, s'), path @ [SLASH] @ name) \<and> safe_component name \<and> display_path (fst c) (snd c) = (Inr name, s')"
proof -
  obtain fo s where c: "c = (fo, s)" by fastforce
  from assms obtain name s' where y: "display_path fo s = (Inr name, s')" "y = ((fo, s'), path @ [SLASH] @ name)"
    by (auto simp: path_child_def c ebind_Inr_iff srun_Inr_iff)
  with safeD [OF display_path_safe _ y(1)] show ?thesis by (simp add: c)
qed

lemma path_kids_Inr:
  assumes "path_kids recurse strict (x, path) = Inr ys" "y \<in> set ys"
  shows "\<exists>children c. Folder_children x = Inr children \<and> c \<in> set children \<and> path_child path c = Inr y"
proof -
  from assms obtain children where c: "Folder_children x = Inr children" "emap (path_child path) children = Inr ys"
    by (auto simp: path_kids_def split: if_splits sum.splits)
  then have all: "list_all2 (\<lambda>c y. path_child path c = Inr y) children ys" by (simp add: emap_Inr_iff)
  obtain i where i: "i < length ys" "y = ys ! i" using assms(2) unfolding in_set_conv_nth by blast
  have "children ! i \<in> set children" "path_child path (children ! i) = Inr y"
    using i list_all2_nthD2 [OF all i(1)] list_all2_lengthD [OF all] by simp_all
  with c(1) show ?thesis by blast
qed

text \<open>
  The way down to a folder: the display names of the folders on it, from the root of the export to the folder, each
  listed among the sub-folders of the one before.
\<close>

inductive path_way :: "folder \<times> folder_state \<Rightarrow> ustring list \<Rightarrow> folder \<times> folder_state \<Rightarrow> bool" for root where
  top: "path_way root [name] (fst root, s)" if "display_path (fst root) (snd root) = (Inr name, s)"
| down: "path_way root (names @ [name]) (c, s')"
    if "path_way root names parent" "Folder_children parent = Inr cs" "(c, s) \<in> set cs" "display_path c s = (Inr name, s')"

text \<open>A path has one safe component for each folder on the way, its display name.\<close>

definition path_ok :: "folder \<times> folder_state \<Rightarrow> nat \<Rightarrow> path_node \<Rightarrow> bool" where
  "path_ok root n y \<longleftrightarrow> path_way root (split_on SLASH (snd y)) (fst y) \<and> length (split_on SLASH (snd y)) = n \<and>
     (\<forall>c \<in> set (split_on SLASH (snd y)). safe_component c)"

lemma path_kids_ok: "path_ok root n x \<Longrightarrow> path_kids recurse strict x = Inr ys \<Longrightarrow> y \<in> set ys \<Longrightarrow> path_ok root (Suc n) y"
proof -
  assume x: "path_ok root n x" "path_kids recurse strict x = Inr ys" "y \<in> set ys"
  obtain p path where xp: "x = (p, path)" by fastforce
  from path_kids_Inr x(2,3) obtain cs c where c: "Folder_children p = Inr cs" "c \<in> set cs" "path_child path c = Inr y"
    unfolding xp by blast
  from path_child_Inr [OF c(3)] obtain name s' where y: "y = ((fst c, s'), path @ [SLASH] @ name)" "safe_component name"
    "display_path (fst c) (snd c) = (Inr name, s')" by auto
  then have split: "split_on SLASH (snd y) = split_on SLASH path @ [name]"
    unfolding y(1) snd_conv split_on_append by (simp add: split_on_free safe_component_def)
  have "path_way root (split_on SLASH path) p" using x(1) by (simp add: path_ok_def xp)
  from path_way.down [OF this c(1) _ y(3)] c(2) have "path_way root (split_on SLASH path @ [name]) (fst c, s')" by simp
  with x(1) y(1,2) split show ?thesis by (simp add: path_ok_def xp)
qed

lemma child_path_ok: "child_path (path_kids recurse strict) x d y \<Longrightarrow> path_ok root 1 x \<Longrightarrow> path_ok root (nat (d + 1)) y"
proof (induction rule: child_path.induct)
  case (down x d y children z)
  from path_kids_ok [OF down.IH [OF down.prems] down.hyps(2,3)] child_path_nonneg [OF down.hyps(1)]
  show ?case by (simp add: nat_add_distrib)
qed simp

lemma folder_paths_cases:
  obtains (refused) e where "folder_paths recurse strict (fo, s) = ([], Some e)" "srun (display_path fo) s = Inl e"
  | (walk) path s' where "display_path fo s = (Inr path, s')" "path_ok (fo, s) 1 ((fo, s'), path)"
      "folder_paths recurse strict (fo, s) = guarded_walk (path_kids recurse strict) path_key
         (max_folder_depth (so_limits (fo_store fo))) [(((fo, s'), path), 0)] (new_visited (max_folders (so_limits (fo_store fo))))"
proof (cases "srun (display_path fo) s")
  case (Inl e)
  then show ?thesis by (intro refused) (simp_all add: folder_paths_def)
next
  case (Inr r)
  obtain path s' where r: "r = (path, s')" by fastforce
  have run: "display_path fo s = (Inr path, s')" using Inr by (simp add: r srun_Inr_iff)
  from safeD [OF display_path_safe _ run] have "safe_component path" by simp
  moreover have "path_way (fo, s) [path] (fo, s')" using path_way.top [of "(fo, s)" path s'] run by simp
  ultimately have "path_ok (fo, s) 1 ((fo, s'), path)" by (auto simp: path_ok_def split_on_free safe_component_def)
  with run Inr show ?thesis by (intro walk) (auto simp: folder_paths_def r Let_def)
qed

lemma folder_paths_ok:
  assumes "y \<in> set (fst (folder_paths recurse strict (fo, s)))"
  shows "\<exists>n. path_ok (fo, s) n y \<and> int n \<le> max_folder_depth (so_limits (fo_store fo)) + 1"
proof (cases rule: folder_paths_cases [of recurse strict fo s])
  case (refused e)
  with assms show ?thesis by simp
next
  case (walk path s')
  obtain ys err where run: "guarded_walk (path_kids recurse strict) path_key
      (max_folder_depth (so_limits (fo_store fo))) [(((fo, s'), path), 0)] (new_visited (max_folders (so_limits (fo_store fo)))) = (ys, err)"
    by fastforce
  then have y: "y \<in> set ys" using assms walk(3) by simp
  from guarded_walk_reachable [OF run y, of "((fo, s'), path)"] obtain d where
    d: "d \<le> max_folder_depth (so_limits (fo_store fo))" "child_path (path_kids recurse strict) ((fo, s'), path) d y"
    by (auto intro: child_path.here)
  from child_path_ok [OF d(2) walk(2)] child_path_nonneg [OF d(2)] d(1) show ?thesis
    by (intro exI [of _ "nat (d + 1)"]) simp
qed

section \<open>The walk with paths is a walk\<close>

text \<open>What may end it: a limit, and, where it is strict or for what is not a \<open>PstError\<close>, what the tables raise.\<close>

definition walk_escapes :: "bool \<Rightarrow> error \<Rightarrow> bool" where
  "walk_escapes strict e \<longleftrightarrow> table_error e \<and> (strict \<or> e = PstLimitError \<or> e = ZeroDivisionError)"

lemma display_path_behaves: "folder_ok fo \<Longrightarrow> safe (folder_inv fo) (\<lambda>_. False) safe_component (display_path fo)"
proof -
  assume ok: "folder_ok fo"
  have "behaves (folder_inv fo) (folder_exact fo) is_pst_error (Folder_display_name fo)" using ok by auto
  then have "safe (folder_inv fo) is_pst_error (\<lambda>_. True) (Folder_display_name fo)" by (rule safe_behaves) simp
  then show ?thesis unfolding display_path_def
    by (intro safe_scatch [where F = is_pst_error] safe_sbind [where Q = "\<lambda>_. True"] safe_sret)
      (auto simp: display_text_safe node_tag_safe)
qed

lemma path_child_good:
  assumes "walked_good c"
  shows "\<exists>y. path_child path c = Inr y \<and> walked_good (fst y)"
proof -
  obtain fo s where c: "c = (fo, s)" "folder_ok fo" "folder_inv fo s" using assms by auto
  obtain r s' where run: "display_path fo s = (r, s')" by fastforce
  have "case r of Inl e \<Rightarrow> False | Inr name \<Rightarrow> True" "folder_inv fo s'"
    using display_path_behaves [OF c(2)] c(3) run unfolding safe_def by (fastforce split: sum.splits)+
  with run c show ?thesis by (cases r) (auto simp: path_child_def srun_def)
qed

interpretation path_family: family "path_kids recurse strict" "\<lambda>x :: path_node. walked_good (fst x)" "walk_escapes strict"
  for recurse strict
proof
  fix x y :: path_node and children e
  assume good: "walked_good (fst x)"
  obtain p path where x: "x = (p, path)" by fastforce
  show "walked_good (fst y)" if "path_kids recurse strict x = Inr children" "y \<in> set children"
  proof -
    from path_kids_Inr that obtain cs c where c: "Folder_children p = Inr cs" "c \<in> set cs" "path_child path c = Inr y"
      unfolding x by blast
    have "walked_good c" using folder_family.kids_good [OF _ c(1,2)] good by (simp add: x)
    from path_child_good [OF this, of path] c(3) show ?thesis by auto
  qed
  show "walk_escapes strict e" if e: "path_kids recurse strict x = Inl e"
  proof (cases "Folder_children p")
    case (Inl f)
    with e have "e = f" "strict \<or> \<not> is_pst_error e" by (auto simp: path_kids_def x split: if_splits)
    moreover have "table_error f" using folder_family.kids_escapes [OF _ Inl] good by (simp add: x)
    ultimately show ?thesis by (auto simp: walk_escapes_def table_error_def)
  next
    case (Inr cs)
    have "path_child path c \<noteq> Inl f" if "c \<in> set cs" for c f
      using path_child_good [of c path] folder_family.kids_good [OF _ Inr that] good by (auto simp: x)
    then have "emap (path_child path) cs \<noteq> Inl e" by (induction cs) (auto simp: ebind_Inl_iff)
    with e Inr show ?thesis by (auto simp: path_kids_def x split: if_splits)
  qed
qed (simp add: walk_escapes_def)

text \<open>
  The tree an export covers, read without a stack or a guard: the folder alone where sub-folders are not asked for; a leaf
  where listing them refuses and that is let pass; otherwise the folder over the trees of its sub-folders, all of them,
  in the order of the hierarchy table, each path the parent's and the display name.
\<close>

inductive path_tree :: "bool \<Rightarrow> bool \<Rightarrow> int \<Rightarrow> int \<Rightarrow> path_node \<Rightarrow> path_node rtree \<Rightarrow> bool" for recurse strict ceiling where
  alone: "path_tree recurse strict ceiling depth x (RNode x [])" if "\<not> recurse" "depth \<le> ceiling"
| leaf: "path_tree recurse strict ceiling depth x (RNode x [])"
    if "recurse" "depth \<le> ceiling" "Folder_children (fst x) = Inl e" "is_pst_error e" "\<not> strict"
| node: "path_tree recurse strict ceiling depth x (RNode x ts)"
    if "recurse" "depth \<le> ceiling" "Folder_children (fst x) = Inr cs"
      "list_all2 (\<lambda>c t. \<exists>name s. display_path (fst c) (snd c) = (Inr name, s) \<and>
         path_tree recurse strict ceiling (depth + 1) ((fst c, s), snd x @ [SLASH] @ name) t) cs ts"

lemma path_child_iff:
  "path_child path c = Inr y \<longleftrightarrow> (\<exists>name s. display_path (fst c) (snd c) = (Inr name, s) \<and> y = ((fst c, s), path @ [SLASH] @ name))"
  by (cases c) (auto simp: path_child_def ebind_Inr_iff srun_Inr_iff)

lemma path_kids_Inr_iff:
  "path_kids recurse strict x = Inr ys \<longleftrightarrow>
     (if \<not> recurse then ys = []
      else case Folder_children (fst x) of
          Inl e \<Rightarrow> is_pst_error e \<and> \<not> strict \<and> ys = []
        | Inr cs \<Rightarrow> list_all2 (\<lambda>c y. path_child (snd x) c = Inr y) cs ys)"
  by (cases x) (auto simp: path_kids_def emap_Inr_iff split: sum.split)

text \<open>The trees of the walk are these.\<close>

lemma path_tree_iff: "path_tree recurse strict ceiling depth x t \<longleftrightarrow> rtree_at (path_kids recurse strict) ceiling (x, depth) t"
proof
  assume "path_tree recurse strict ceiling depth x t"
  then show "rtree_at (path_kids recurse strict) ceiling (x, depth) t"
  proof (induction rule: path_tree.induct)
    case (alone depth x)
    then show ?case by (simp add: rtree_at_iff path_kids_Inr_iff)
  next
    case (leaf depth x e)
    then show ?case by (simp add: rtree_at_iff path_kids_Inr_iff)
  next
    case (node depth x cs ts)
    have "\<exists>ys. list_all2 (\<lambda>c y. path_child (snd x) c = Inr y) cs ys \<and>
        list_all2 (\<lambda>y t. rtree_at (path_kids recurse strict) ceiling (y, depth + 1) t) ys ts"
      using node(4)
    proof (induction rule: list_all2_induct)
      case (Cons c cs t ts)
      then obtain name s ys where one: "display_path (fst c) (snd c) = (Inr name, s)"
        "rtree_at (path_kids recurse strict) ceiling (((fst c, s), snd x @ [SLASH] @ name), depth + 1) t"
        "list_all2 (\<lambda>c y. path_child (snd x) c = Inr y) cs ys"
        "list_all2 (\<lambda>y t. rtree_at (path_kids recurse strict) ceiling (y, depth + 1) t) ys ts" by blast
      then show ?case
        by (intro exI [of _ "((fst c, s), snd x @ [SLASH] @ name) # ys"]) (simp add: path_child_iff)
    qed simp
    with node(1-3) show ?case by (auto simp: rtree_at_iff path_kids_Inr_iff)
  qed
next
  assume "rtree_at (path_kids recurse strict) ceiling (x, depth) t"
  then show "path_tree recurse strict ceiling depth x t"
  proof (induction t arbitrary: x depth)
    case (RNode y ts)
    have d: "depth \<le> ceiling" using RNode.prems by (simp add: rtree_at_def)
    from RNode.prems obtain ys where ys: "path_kids recurse strict x = Inr ys" "y = x"
      "list_all2 (\<lambda>c t. rtree_at (path_kids recurse strict) ceiling (c, depth + 1) t) ys ts"
      unfolding rtree_at_iff [OF d] by auto
    show ?case
    proof (cases recurse)
      case False
      with ys d show ?thesis by (auto simp: path_kids_Inr_iff intro: path_tree.alone)
    next
      case True
      show ?thesis
      proof (cases "Folder_children (fst x)")
        case (Inl e)
        with ys d True show ?thesis by (auto simp: path_kids_Inr_iff intro: path_tree.leaf)
      next
        case (Inr cs)
        with ys(1) True have cs: "list_all2 (\<lambda>c y. path_child (snd x) c = Inr y) cs ys" by (simp add: path_kids_Inr_iff)
        have "list_all2 (\<lambda>c t. \<exists>name s. display_path (fst c) (snd c) = (Inr name, s) \<and>
           path_tree recurse strict ceiling (depth + 1) ((fst c, s), snd x @ [SLASH] @ name) t) cs ts"
        proof (rule list_all2_all_nthI)
          show "length cs = length ts" using list_all2_lengthD [OF cs] list_all2_lengthD [OF ys(3)] by simp
          fix i assume i: "i < length cs"
          then have "path_child (snd x) (cs ! i) = Inr (ys ! i)" "rtree_at (path_kids recurse strict) ceiling (ys ! i, depth + 1) (ts ! i)"
            "ts ! i \<in> set ts"
            using list_all2_nthD [OF cs] list_all2_nthD2 [OF ys(3)] list_all2_lengthD [OF cs] list_all2_lengthD [OF ys(3)] by auto
          with RNode.IH show "\<exists>name s. display_path (fst (cs ! i)) (snd (cs ! i)) = (Inr name, s) \<and>
            path_tree recurse strict ceiling (depth + 1) ((fst (cs ! i), s), snd x @ [SLASH] @ name) (ts ! i)"
            unfolding path_child_iff by metis
        qed
        from path_tree.node [OF True d Inr this] ys(2) show ?thesis by simp
      qed
    qed
  qed
qed

text \<open>A walk that ends without an exception has covered the whole tree, and every tree within the limits is covered.\<close>

lemma folder_paths_None_iff:
  "folder_paths recurse strict (fo, s) = (ys, None) \<longleftrightarrow>
     (\<exists>name s' t. display_path fo s = (Inr name, s') \<and>
        path_tree recurse strict (max_folder_depth (so_limits (fo_store fo))) 0 ((fo, s'), name) t \<and>
        distinct (map path_key (preorder t)) \<and> len (preorder t) \<le> max_folders (so_limits (fo_store fo)) \<and> ys = preorder t)"
proof (cases rule: folder_paths_cases [of recurse strict fo s])
  case (refused e)
  then have "display_path fo s \<noteq> (Inr name, s')" for name s' by (auto simp: srun_def ebind_Inl_iff split: prod.splits)
  with refused(1) show ?thesis by simp
next
  case (walk name s')
  have nonempty: "preorder t \<noteq> []" for t :: "path_node rtree" by (cases t) simp
  show ?thesis
    unfolding walk(3) guarded_walk_iff path_tree_iff
    using walk(1) nonempty by (auto simp: list_all2_Cons1 visit_new_iff)
qed

text \<open>C16: The display path of every folder an export covers splits at the slashes into the display names of the folders on
  the way down to it, one for each of them, from the folder exported to itself, whatever those names are: none of them is
  empty or has a slash, a backslash or a control character; and no path is longer than the folder depth allows. So a display
  name never adds a level to a path nor a line to an index.\<close>

theorem folder_paths_safe:
  "list_all (\<lambda>y. path_way (fo, s) (split_on SLASH (snd y)) (fst y) \<and>
     list_all safe_component (split_on SLASH (snd y)) \<and>
     len (split_on SLASH (snd y)) \<le> max_folder_depth (so_limits (fo_store fo)) + 1) (fst (folder_paths recurse strict (fo, s)))"
  using folder_paths_ok unfolding path_ok_def list_all_iff by blast

text \<open>C17: The walk of an export from a folder of a store ends, on every hierarchy: it yields distinct good folders of the
  store, no more than \<open>max_folders\<close>, and ends in nothing but a limit, or what the tables raise when it is strict. It ends
  without an exception exactly when the tree of the export is within the limits and repeats no folder, and has then yielded
  the whole of it in pre-order, a folder whose sub-folders cannot be listed being a leaf of that tree when the walk is not
  strict, and the folder alone when sub-folders are not asked for.\<close>

theorem folder_paths_ends:
  assumes "folder_ok fo" "folder_inv fo s" "folder_paths recurse strict (fo, s) = (ys, err)"
  shows "distinct (map path_key ys) \<and> (ys = [] \<or> len ys \<le> max_folders (so_limits (fo_store fo))) \<and>
    list_all (\<lambda>y. walked_good (fst y)) ys \<and> (case err of None \<Rightarrow> ys \<noteq> [] | Some e \<Rightarrow> walk_escapes strict e) \<and>
    (err = None) = (\<exists>name s' t. display_path fo s = (Inr name, s') \<and>
       path_tree recurse strict (max_folder_depth (so_limits (fo_store fo))) 0 ((fo, s'), name) t \<and>
       distinct (map path_key (preorder t)) \<and> len (preorder t) \<le> max_folders (so_limits (fo_store fo)) \<and> ys = preorder t)"
proof (cases rule: folder_paths_cases [of recurse strict fo s])
  case (refused e)
  have "False" using refused(2) display_path_behaves [OF assms(1)] assms(2)
    unfolding safe_def by (auto simp: srun_def ebind_Inl_iff split: prod.splits)
  then show ?thesis ..
next
  case (walk path s')
  note run = walk(3) [unfolded assms(3), symmetric]
  have good: "walked_good (fst ((fo, s'), path))"
    using safeD [OF display_path_behaves [OF assms(1)] assms(2) walk(1)] assms(1) by simp
  have "ys \<noteq> []" if "err = None"
    using run that by (cases rule: guarded_walk_cases [of "path_kids recurse strict" path_key
        "max_folder_depth (so_limits (fo_store fo))" "((fo, s'), path)" 0 "[]"
        "new_visited (max_folders (so_limits (fo_store fo)))"]) auto
  then have ends: "distinct (map path_key ys) \<and> (ys = [] \<or> len ys \<le> max_folders (so_limits (fo_store fo))) \<and>
      list_all (\<lambda>y. walked_good (fst y)) ys \<and> (case err of None \<Rightarrow> ys \<noteq> [] | Some e \<Rightarrow> walk_escapes strict e)"
    using guarded_walk_bounded [OF run] path_family.walk_good [OF run good]
    by (auto simp: list_all_iff split: option.split)
  show ?thesis using ends folder_paths_None_iff [of recurse strict fo s ys] unfolding assms(3) by simp
qed

theorem folder_paths_ends_witness:
  "case folder_paths True False (sample_folder, sample_folder_state) of (ys, err) \<Rightarrow>
     distinct (map path_key ys) \<and>
     (err = None) = (\<exists>name s' t. display_path sample_folder sample_folder_state = (Inr name, s') \<and>
       path_tree True False (max_folder_depth (so_limits (fo_store sample_folder))) 0 ((sample_folder, s'), name) t \<and>
       distinct (map path_key (preorder t)) \<and> len (preorder t) \<le> max_folders (so_limits (fo_store sample_folder)) \<and>
       ys = preorder t)"
proof -
  obtain ys err where run: "folder_paths True False (sample_folder, sample_folder_state) = (ys, err)" by fastforce
  from folder_paths_ends [OF sample_folder_ok run] show ?thesis unfolding run prod.case by blast
qed

section \<open>What is exported\<close>

text \<open>An export that does not stop at what refuses: it ends in a limit of the walk or in no \<open>PstError\<close>.\<close>

definition stops :: "error \<Rightarrow> bool" where
  "stops e \<longleftrightarrow> e = PstLimitError \<or> \<not> is_pst_error e"

definition named :: "(node_id \<Rightarrow> 'k) \<Rightarrow> path_node list \<Rightarrow> 'k list" where
  "named K ys = concat (map (\<lambda>((fo, s), path). case fst (Folder_message_ids fo s) of Inl e \<Rightarrow> [] | Inr ids \<Rightarrow> map K ids) ys)"

lemma named_simps [simp]:
  "named K [] = []"
  "named K (((fo, s), path) # ys) = (case fst (Folder_message_ids fo s) of Inl e \<Rightarrow> [] | Inr ids \<Rightarrow> map K ids) @ named K ys"
  by (simp_all add: named_def)

text \<open>Where \<open>xs\<close> are the keys of what is to be exported, \<open>ks\<close> those of what is, and \<open>err\<close> what it ended in.\<close>

definition covers :: "bool \<Rightarrow> 'k list \<Rightarrow> 'k list \<Rightarrow> error option \<Rightarrow> bool" where
  "covers strict xs ks err \<longleftrightarrow> subseq ks xs \<and> (err = None \<longrightarrow> strict \<longrightarrow> ks = xs)"

lemma covers_append:
  "covers strict xs ks None \<Longrightarrow> covers strict xs' ks' err \<Longrightarrow> covers strict (xs @ xs') (ks @ ks') err"
  by (auto simp: covers_def intro: list_emb_append_mono)

lemma covers_some: "covers strict xs ks err \<Longrightarrow> covers strict (xs @ xs') ks (Some e)"
  by (auto simp: covers_def intro: subseq_order.trans [OF _ list_emb_append2 [of "(=)" xs xs xs', simplified]])

lemma skipping_covers:
  assumes "\<And>x t b t'. f x t = (Inr b, t') \<Longrightarrow> g b = h x" "skipping strict f xs t = ((bs, err), t')"
  shows "covers strict (map h xs) (map g bs) err \<and> (\<forall>e. err = Some e \<longrightarrow> strict \<or> \<not> is_pst_error e)"
  using assms(2)
proof (induction xs arbitrary: t bs)
  case (Cons x xs)
  obtain r t1 where run: "f x t = (r, t1)" by fastforce
  show ?case
  proof (cases r)
    case (Inl e)
    show ?thesis
    proof (cases "is_pst_error e \<and> \<not> strict")
      case True
      with Cons.prems run Inl have "skipping strict f xs t1 = ((bs, err), t')" by simp
      from Cons.IH [OF this] True show ?thesis by (auto simp: covers_def)
    next
      case False
      with Cons.prems run Inl show ?thesis by (auto simp: covers_def)
    qed
  next
    case (Inr b)
    with Cons.prems run obtain cs where cs: "skipping strict f xs t1 = ((cs, err), t')" "bs = b # cs"
      by (auto split: prod.splits)
    from Cons.IH [OF cs(1)] assms(1) [of x t b t1] run Inr cs(2) show ?thesis by (auto simp: covers_def)
  qed
qed (auto simp: covers_def)

lemma tallying_skipping:
  "tallying strict f n xs t = ((bs, m, err), t') \<Longrightarrow> skipping strict f xs t = ((bs, err), t') \<and> m = n + len bs"
proof (induction xs arbitrary: n t bs)
  case (Cons x xs)
  obtain r t1 where run: "f x t = (r, t1)" by fastforce
  show ?case
  proof (cases r)
    case (Inl e)
    with Cons.prems Cons.IH [of n t1 bs] run show ?thesis by (auto split: if_splits)
  next
    case (Inr b)
    with Cons.prems run obtain cs where "tallying strict f (n + 1) xs t1 = ((cs, m, err), t')" "bs = b # cs"
      by (auto split: prod.splits)
    with Cons.IH [of "n + 1" t1 cs] run Inr show ?thesis by simp
  qed
qed simp

lemma tallying_covers:
  assumes "\<And>x t b t'. f x t = (Inr b, t') \<Longrightarrow> g b = h x" "tallying strict f n xs t = ((bs, m, err), t')"
  shows "covers strict (map h xs) (map g bs) err \<and> (\<forall>e. err = Some e \<longrightarrow> strict \<or> \<not> is_pst_error e) \<and> m = n + len bs"
proof -
  note run = tallying_skipping [OF assms(2)]
  have "covers strict (map h xs) (map g bs) err \<and> (\<forall>e. err = Some e \<longrightarrow> strict \<or> \<not> is_pst_error e)"
    by (rule skipping_covers [where f = f and t = t and t' = t']) (use assms(1) run in auto)
  with run show ?thesis by blast
qed

lemma Message_node: "Message so node entry parent depth = Inr (me, s) \<Longrightarrow> ms_node me = node"
  unfolding Message_def ebind_Inr_iff by (clarsimp simp: ebind_Inr_iff split: option.splits)

lemma open_one_node: "open_one fo node t = (Inr (me, ms), t') \<Longrightarrow> ms_node me = node"
  by (auto simp: open_one_def Store_open_message_def Message_open_def own_node_def sbind_eq_Inr dest: Message_node)

definition node_file :: "node_id \<Rightarrow> ustring" where
  "node_file node = hex8 (nid_raw node) @ ascii ''.eml''"

lemma write_eml_name:
  assumes "sbind (open_one fo node) (write_eml mw l) t = (Inr b, t')"
  shows "fst b = node_file node"
proof -
  obtain me ms t1 where opened: "open_one fo node t = (Inr (me, ms), t1)" and written: "write_eml mw l (me, ms) t1 = (Inr b, t')"
    using assms by (auto simp: sbind_eq_Inr)
  from written have "fst b = eml_name me"
    by (auto simp: write_eml_def with_state_def sbind_eq_Inr split: prod.splits)
  then show ?thesis by (simp add: eml_name_def node_file_def open_one_node [OF opened])
qed

lemma export_folders_cover:
  "export_folders mw strict l n ys t = ((fs, m, err), t') \<Longrightarrow>
   covers strict (named node_file ys) (map fst fs) err \<and> (\<forall>e. err = Some e \<longrightarrow> strict \<or> stops e) \<and> m = n + len fs"
proof (induction mw strict l n ys t arbitrary: fs rule: export_folders.induct)
  case (2 mw strict l n fo s path ys t)
  show ?case
  proof (cases "fst (Folder_message_ids fo s)")
    case (Inl e)
    with "2.prems" "2.IH"(1) [OF Inl] show ?thesis
      by (auto simp: covers_def stops_def split: if_splits)
  next
    case (Inr ids)
    obtain gs k err1 t1 where run: "tallying strict (\<lambda>node. sbind (open_one fo node) (write_eml mw l)) n ids t = ((gs, k, err1), t1)"
      by (metis prod.exhaust)
    have c: "covers strict (map node_file ids) (map fst gs) err1 \<and> (\<forall>e. err1 = Some e \<longrightarrow> strict \<or> \<not> is_pst_error e) \<and> k = n + len gs"
      by (rule tallying_covers [OF write_eml_name run])
    show ?thesis
    proof (cases err1)
      case None
      obtain hs j err2 t2 where more: "export_folders mw strict l k ys t1 = ((hs, j, err2), t2)" by (metis prod.exhaust)
      with "2.prems" Inr run None have fs: "fs = gs @ hs" "m = j" "err = err2" "t2 = t'" by simp_all
      have "covers strict (named node_file ys) (map fst hs) err \<and> (\<forall>e. err = Some e \<longrightarrow> strict \<or> stops e) \<and> m = k + len hs"
        by (rule "2.IH"(2) [OF Inr run [symmetric]]) (use more fs None in auto)
      with c None covers_append [of strict "map node_file ids" "map fst gs" "named node_file ys" "map fst hs" err]
      show ?thesis by (simp add: fs Inr)
    next
      case (Some e)
      with "2.prems" Inr run have fs: "fs = gs" "m = k" "err = Some e" by simp_all
      have "covers strict (map node_file ids @ named node_file ys) (map fst fs) (Some e)"
        unfolding fs by (rule covers_some [OF conjunct1 [OF c]])
      with c Some fs show ?thesis by (auto simp: Inr stops_def)
    qed
  qed
qed (auto simp: covers_def)

text \<open>The walk that is not strict stops at nothing else either.\<close>

lemma path_kids_stops: "path_kids recurse False x = Inl e \<Longrightarrow> stops e"
proof -
  assume e: "path_kids recurse False x = Inl e"
  obtain p path where x: "x = (p, path)" by fastforce
  have named: "\<not> is_pst_error f" if "path_child path c = Inl f" for c f
  proof -
    obtain fo s where c: "c = (fo, s)" by fastforce
    from that obtain s' where "display_path fo s = (Inl f, s')" by (auto simp: path_child_def c ebind_Inl_iff srun_def split: prod.splits)
    then show ?thesis by (auto simp: display_path_def scatch_def split: prod.splits sum.splits if_splits)
  qed
  have "\<not> is_pst_error f" if "emap (path_child path) cs = Inl f" for cs f
    using that named by (induction cs) (auto simp: ebind_Inl_iff)
  with e show "stops e" by (auto simp: path_kids_def x stops_def split: if_splits sum.splits)
qed

lemma folder_paths_stops: "folder_paths recurse strict x = (ys, Some e) \<Longrightarrow> strict \<or> stops e"
proof -
  assume run: "folder_paths recurse strict x = (ys, Some e)"
  obtain fo s where x: "x = (fo, s)" by fastforce
  show ?thesis
  proof (cases strict)
    case False
    show ?thesis
    proof (cases rule: folder_paths_cases [of recurse strict fo s])
      case (refused f)
      then have "\<not> is_pst_error f"
        by (auto simp: srun_def ebind_Inl_iff display_path_def scatch_def split: prod.splits sum.splits if_splits)
      with refused run show ?thesis by (simp add: x stops_def)
    next
      case (walk path s')
      note w = walk(3) [unfolded run [unfolded x], symmetric]
      have "e = PstLimitError \<or> (\<exists>x. path_kids recurse strict x = Inl e)"
        using guarded_walk_keeps [OF w, of "\<lambda>_. True"] by simp
      with path_kids_stops [of recurse _ e] False show ?thesis by (auto simp: stops_def)
    qed
  qed simp
qed

text \<open>C18: The files an export writes are named by node ids in hex and nothing else: their names are, in order, those of the
  messages the folders of the walk name, each written at most once, and each exactly once when a strict export succeeds. The
  number returned is theirs. An export that is not strict ends in no \<open>PstError\<close> but a limit of the walk.\<close>

theorem export_folder_files:
  "case export_folder mw recurse strict l x t of ((files, r), t') \<Rightarrow>
     covers strict (named node_file (fst (folder_paths recurse strict x))) (map fst files)
       (case r of Inl e \<Rightarrow> Some e | Inr n \<Rightarrow> None) \<and>
     (case r of Inl e \<Rightarrow> strict \<or> stops e | Inr n \<Rightarrow> n = len files)"
proof -
  obtain ys err1 where walk: "folder_paths recurse strict x = (ys, err1)" by fastforce
  obtain fs n err2 t' where run: "export_folders mw strict l 0 ys t = ((fs, n, err2), t')" by (metis prod.exhaust)
  from export_folders_cover [OF run] folder_paths_stops [of recurse strict x ys] walk
  show ?thesis by (cases err2; cases err1) (auto simp: export_folder_def walk run covers_def)
qed

section \<open>Mailboxes\<close>








text \<open>A From\_ line: an address without a space, a space and a time.\<close>

definition from_line_ok :: "ustring \<Rightarrow> bool" where
  "from_line_ok line \<longleftrightarrow> (\<exists>address stamp. line = address @ ascii '' '' @ asctime stamp \<and> address \<noteq> [] \<and>
     (address = MAILER_DAEMON \<or> 64 \<in> set address) \<and> (\<forall>c \<in> set address. \<not> is_space c)) \<and> 10 \<notin> set line \<and> 13 \<notin> set line"

lemma from_address_ok:
  "yields (\<lambda>a. a \<noteq> [] \<and> (a = MAILER_DAEMON \<or> 64 \<in> set a) \<and> (\<forall>c \<in> set a. \<not> is_space c)) (from_address ms)"
proof (induction ms)
  case Nil
  show ?case unfolding from_address.simps
    by (rule safe_sret) (simp add: MAILER_DAEMON_def is_space_def)
next
  case (Cons m ms)
  have one: "from_candidate v \<noteq> [] \<and> (from_candidate v = MAILER_DAEMON \<or> 64 \<in> set (from_candidate v)) \<and>
      (\<forall>c \<in> set (from_candidate v). \<not> is_space c)" if "64 \<in> set (from_candidate v)" for v
  proof (intro conjI)
    show "from_candidate v \<noteq> []" using that by (metis empty_iff list.set(1))
    show "\<forall>c \<in> set (from_candidate v). \<not> is_space c" by (auto simp: from_candidate_def split: option.splits)
  qed (use that in simp)
  show ?case unfolding from_address.simps
    by (rule safe_sbind [OF yields_any], rule safe_if [OF safe_sret Cons.IH]) (rule one)
qed

text \<open>C20: The From\_ line of every record is one line: an address that is not empty and has no white space, which is the
  stand-in or has an at sign, then a space and the time as \<open>asctime\<close> spells it. No property of the message can put a second
  line or a second field in front of the record.\<close>

theorem from_line_is_one_line: "case fst (from_line me s) of Inl e \<Rightarrow> True | Inr line \<Rightarrow> from_line_ok line"
proof (rule yields_result)
  have ok: "from_line_ok (a @ ascii '' '' @ asctime stamp)"
    if "a \<noteq> [] \<and> (a = MAILER_DAEMON \<or> 64 \<in> set a) \<and> (\<forall>c \<in> set a. \<not> is_space c)" for a stamp
  proof -
    have "is_control 10" "is_control 13" "is_space 10" "is_space 13" by (simp_all add: is_control_def is_space_def)
    then have "10 \<notin> set (asctime stamp)" "13 \<notin> set (asctime stamp)" "10 \<notin> set a" "13 \<notin> set a"
      using clean_dates(2) [of stamp] that unfolding clean_text_def by blast+
    then have "10 \<notin> set (a @ ascii '' '' @ asctime stamp)" "13 \<notin> set (a @ ascii '' '' @ asctime stamp)" by simp_all
    with that show ?thesis unfolding from_line_ok_def by blast
  qed
  show "yields from_line_ok (from_line me)"
    unfolding from_line_def
    by (rule safe_sbind [OF from_address_ok], rule safe_sbind [OF yields_any], rule safe_sret, rule ok)
qed

section \<open>Where an export stops that should skip\<close>

text \<open>A sender's address that is not ASCII: \<open>mailbox\<close> raises a UnicodeError, which nothing catches.\<close>

lemma non_ascii_sender_ends_export:
  assumes "mbox_record (mw_mailer mw) l headers me (ms, t) = (Inr (line, m), (ms', t'))" "c \<in> set line" "c \<ge> 128"
  shows "skipping strict (add_to_box mw l headers) ((me, ms) # rest) t = (([], Some UnicodeError), t')"
proof -
  have "box_add mw (line, m) = Inl UnicodeError" using assms(2,3) by (auto simp: box_add_def)
  with assms(1) have "add_to_box mw l headers (me, ms) t = (Inl UnicodeError, t')"
    by (simp add: add_to_box_def with_state_def sbind_def slift_def)
  then show ?thesis by simp
qed

text \<open>A folder path with a line separator that is not a control character: the package refuses the header unguarded.\<close>

lemma line_separator_ends_export:
  assumes "to_eml (mw_mailer mw) True l me (ms, t) = (Inr eml, (ms', t'))"
    and "\<And>hs n v c. c \<in> set v \<Longrightarrow> is_line_break c \<Longrightarrow> ml_header (mw_mailer mw) hs (n, v) = Inl ValueError"
    and "0x2028 \<in> set path"
  shows "skipping strict (add_to_box mw l [(name, path)]) ((me, ms) # rest) t = (([], Some ValueError), t')"
proof -
  have "record_header (mw_mailer mw) eml (name, path) = Inl ValueError"
    using assms(2) [of "0x2028"] assms(3) by (auto simp: record_header_def add_header_def is_line_break_def is_control_def ebind_def)
  with assms(1) have "add_to_box mw l [(name, path)] (me, ms) t = (Inl ValueError, t')"
    by (simp add: add_to_box_def with_state_def mbox_record_def sbind_def slift_def ebind_def)
  then show ?thesis by simp
qed

end
