(* ===== verification/Pst_Cli.thy ===== *)
theory Pst_Cli
  imports Pst_Export_Facts
begin

text \<open>
  \<open>pypstreader.py\<close>, the command, from the parsed arguments on: the folders a run covers, its three outputs, the
  listing and the summary. Parsing the command line is \<open>argparse\<close>'s, and the lines \<open>--verbose\<close> prints are left out.
\<close>

section \<open>The walk\<close>

definition FOLDER_HEADER :: ustring where "FOLDER_HEADER = ascii ''X-Pypstreader-Folder''"
definition PROG :: ustring where "PROG = ascii ''pypstreader''"
definition MBOX_SUFFIX :: ustring where "MBOX_SUFFIX = ascii ''.mbox''"

record selected =
  sel_folder :: "folder \<times> folder_state"
  sel_path :: ustring
  sel_message_ids :: "node_id list option"

definition path_matches :: "ustring \<Rightarrow> ustring list \<Rightarrow> bool" where
  "path_matches path wanted \<longleftrightarrow> wanted = [] \<or> (\<exists>w \<in> set wanted. path = w \<or> take (length (w @ [SLASH])) path = w @ [SLASH])"

text \<open>The loop of \<open>_select\<close>. A folder keeps what reading its contents table leaves in its cache.\<close>

fun select_loop :: "ustring list \<Rightarrow> bool \<Rightarrow> path_node list \<Rightarrow> selected list result" where
  "select_loop wanted strict [] = Inr []"
| "select_loop wanted strict (((fo, s), path) # ys) =
     (if \<not> path_matches path wanted then select_loop wanted strict ys
      else
        case Folder_message_ids fo s of
          (Inl e, s') \<Rightarrow>
            if is_pst_error e \<and> \<not> strict then
              ebind (select_loop wanted strict ys) (\<lambda>rest.
              Inr (\<lparr>sel_folder = (fo, s'), sel_path = path, sel_message_ids = None\<rparr> # rest))
            else Inl e
        | (Inr ids, s') \<Rightarrow>
            ebind (select_loop wanted strict ys) (\<lambda>rest.
            Inr (\<lparr>sel_folder = (fo, s'), sel_path = path, sel_message_ids = Some ids\<rparr> # rest)))"

definition select_folders :: "ustring list \<Rightarrow> bool \<Rightarrow> folder \<times> folder_state \<Rightarrow> selected list result" where
  "select_folders wanted strict root =
     (case folder_paths True strict root of
        (ys, err) \<Rightarrow>
          ebind (select_loop wanted strict ys) (\<lambda>selected.
          case err of
            Some e \<Rightarrow> Inl e
          | None \<Rightarrow> ebind (raise_if (wanted \<noteq> [] \<and> selected = []) PstNotFoundError) (\<lambda>_. Inr selected)))"

section \<open>The summary\<close>

record tally =
  ta_folders :: int
  ta_written :: int
  ta_skipped :: int
  ta_folders_skipped :: int

definition named_count :: "selected list \<Rightarrow> int" where
  "named_count selected = sum_list (map (\<lambda>s. case sel_message_ids s of None \<Rightarrow> 0 | Some ids \<Rightarrow> len ids) selected)"

definition mk_tally :: "selected list \<Rightarrow> int \<Rightarrow> tally" where
  "mk_tally selected written =
     \<lparr>ta_folders = len selected, ta_written = written, ta_skipped = named_count selected - written,
      ta_folders_skipped = len (filter (\<lambda>s. sel_message_ids s = None) selected)\<rparr>"

definition py_int :: "int \<Rightarrow> ustring" where
  "py_int n = (if n < 0 then [45] @ decimal (- n) else decimal n)"

definition plural :: "int \<Rightarrow> string \<Rightarrow> ustring" where
  "plural n what = py_int n @ ascii '' '' @ ascii what @ (if n = 1 then [] else ascii ''s'')"

definition tally_line :: "tally \<Rightarrow> ustring \<Rightarrow> ustring" where
  "tally_line t destination =
     PROG @ ascii '': '' @
     py_join (ascii '', '')
       ([plural (ta_folders t) ''folder'', plural (ta_written t) ''message'' @ ascii '' written'',
         py_int (ta_skipped t) @ ascii '' skipped''] @
        (if ta_folders_skipped t \<noteq> 0 then [py_int (ta_folders_skipped t) @ ascii '' folder(s) unreadable''] else [])) @
     ascii '' -> '' @ destination"

section \<open>The outputs\<close>

text \<open>
  One mailbox for the whole run, each record with the path of its folder: the records, and the number returned or what
  the run ends in. \<open>count\<close> starts at zero for each folder and is added to \<open>written\<close> when the folder is done.
\<close>

definition cli_message ::
  "mail_writer \<Rightarrow> limits option \<Rightarrow> selected \<Rightarrow> node_id \<Rightarrow> (pc_state, ustring \<times> bytes) st" where
  "cli_message mw l entry node =
     sbind (open_one (fst (sel_folder entry)) node) (\<lambda>m. add_to_box mw l [(FOLDER_HEADER, sel_path entry)] m)"

fun one_mbox_loop ::
  "mail_writer \<Rightarrow> bool \<Rightarrow> limits option \<Rightarrow> int \<Rightarrow> selected list \<Rightarrow> pc_state \<Rightarrow>
   ((ustring \<times> bytes) list \<times> int \<times> error option) \<times> pc_state" where
  "one_mbox_loop mw strict l written [] t = (([], written, None), t)"
| "one_mbox_loop mw strict l written (entry # entries) t =
     (case sel_message_ids entry of
        None \<Rightarrow> one_mbox_loop mw strict l written entries t
      | Some ids \<Rightarrow>
          (case tallying strict (cli_message mw l entry) 0 ids t of
             ((bs, many, Some e), t') \<Rightarrow> ((bs, written, Some e), t')
           | ((bs, many, None), t') \<Rightarrow>
               (case one_mbox_loop mw strict l (written + many) entries t' of
                  ((cs, n, err), t'') \<Rightarrow> ((bs @ cs, n, err), t''))))"

definition write_one_mbox ::
  "mail_writer \<Rightarrow> bool \<Rightarrow> limits option \<Rightarrow> selected list \<Rightarrow> pc_state \<Rightarrow>
   ((ustring \<times> bytes) list \<times> int result) \<times> pc_state" where
  "write_one_mbox mw strict l entries t =
     (case one_mbox_loop mw strict l 0 entries t of
        ((bs, written, err), t') \<Rightarrow> ((bs, case err of None \<Rightarrow> Inr written | Some e \<Rightarrow> Inl e), t'))"

text \<open>A mailbox per folder, each by an export of its own, and one index over the whole selection.\<close>

fun per_folder_loop ::
  "mail_writer \<Rightarrow> bool \<Rightarrow> limits option \<Rightarrow> selected list \<Rightarrow> pc_state \<Rightarrow>
   ((ustring \<times> (ustring \<times> bytes) list) list \<times> (ustring list \<times> int) result) \<times> pc_state" where
  "per_folder_loop mw strict l [] t = (([], Inr ([], 0)), t)"
| "per_folder_loop mw strict l (entry # entries) t =
     (let name = mbox_name (fst (sel_folder entry)) in
      case sel_message_ids entry of
        None \<Rightarrow>
          (case per_folder_loop mw strict l entries t of
             ((boxes, r), t') \<Rightarrow>
               ((boxes, ebind r (\<lambda>(index, n).
                  Inr ((name @ [9] @ sel_path entry @ [9] @ ascii ''# skipped: contents table refused'') # index, n))), t'))
      | Some ids \<Rightarrow>
          (case export_mbox mw False strict l (sel_folder entry) t of
             ((own, Inl e), t') \<Rightarrow> ((own, Inl e), t')
           | ((own, Inr (_, many)), t') \<Rightarrow>
               (case per_folder_loop mw strict l entries t' of
                  ((boxes, r), t'') \<Rightarrow>
                    ((own @ boxes, ebind r (\<lambda>(index, n).
                       Inr ((name @ [9] @ sel_path entry @ [9] @ decimal many) # index, many + n))), t''))))"

definition write_per_folder ::
  "mail_writer \<Rightarrow> bool \<Rightarrow> limits option \<Rightarrow> selected list \<Rightarrow> pc_state \<Rightarrow>
   ((ustring \<times> (ustring \<times> bytes) list) list \<times> (ustring list \<times> int) result) \<times> pc_state" where
  "write_per_folder mw strict l entries t = per_folder_loop mw strict l entries t"

fun cli_write_eml ::
  "mail_writer \<Rightarrow> bool \<Rightarrow> limits option \<Rightarrow> selected list \<Rightarrow> pc_state \<Rightarrow>
   ((ustring \<times> bytes) list \<times> int result) \<times> pc_state" where
  "cli_write_eml mw strict l [] t = (([], Inr 0), t)"
| "cli_write_eml mw strict l (entry # entries) t =
     (case sel_message_ids entry of
        None \<Rightarrow> cli_write_eml mw strict l entries t
      | Some ids \<Rightarrow>
          (case export_folder mw False strict l (sel_folder entry) t of
             ((files, Inl e), t') \<Rightarrow> ((files, Inl e), t')
           | ((files, Inr many), t') \<Rightarrow>
               (case cli_write_eml mw strict l entries t' of
                  ((rest, r), t'') \<Rightarrow> ((files @ rest, ebind r (\<lambda>n. Inr (many + n))), t''))))"

text \<open>The listing: the count in seven columns, then the path.\<close>

definition list_line :: "selected \<Rightarrow> ustring" where
  "list_line entry =
     zfill 7 32 (case sel_message_ids entry of None \<Rightarrow> ascii ''?'' | Some ids \<Rightarrow> decimal (len ids)) @ ascii ''  '' @ sel_path entry"

definition list_folders :: "selected list \<Rightarrow> ustring list" where
  "list_folders entries = map list_line entries"

section \<open>The arguments\<close>

record arguments =
  ar_file :: ustring
  ar_output :: "ustring option"
  ar_per_folder :: bool
  ar_eml :: bool
  ar_folders :: "ustring list"
  ar_list :: bool
  ar_strict :: bool
  ar_max_depth :: "int option"
  ar_max_attachment_bytes :: "int option"
  ar_max_embedded_depth :: "int option"

text \<open>\<open>_limits\<close>: a flag that is not positive is an error of the command line.\<close>

definition cli_limits :: "arguments \<Rightarrow> (unit + limits option)" where
  "cli_limits args =
     (let given = [ar_max_depth args, ar_max_attachment_bytes args, ar_max_embedded_depth args];
          or_default = (\<lambda>v d. case v of None \<Rightarrow> d | Some n \<Rightarrow> n)
      in if \<exists>v \<in> set given. \<exists>n \<in> set_option v. n \<le> 0 then Inl ()
         else if given = [None, None, None] then Inr None
         else Inr (Some (DEFAULT_LIMITS
           \<lparr>max_folder_depth := or_default (ar_max_depth args) (max_folder_depth DEFAULT_LIMITS),
            max_allocation := or_default (ar_max_attachment_bytes args) (max_allocation DEFAULT_LIMITS),
            max_embedded_message_depth :=
              or_default (ar_max_embedded_depth args) (max_embedded_message_depth DEFAULT_LIMITS)\<rparr>)))"

text \<open>\<open>_destination\<close>: a path below the current directory, unless one is given. \<open>ar_file\<close> is the name of the file.\<close>

definition remove_suffix :: "ustring \<Rightarrow> ustring \<Rightarrow> ustring" where
  "remove_suffix ending s =
     (if ending \<noteq> [] \<and> length ending \<le> length s \<and> drop (length s - length ending) s = ending
      then take (length s - length ending) s else s)"

definition cli_destination :: "arguments \<Rightarrow> ustring" where
  "cli_destination args =
     (case ar_output args of
        Some path \<Rightarrow> path
      | None \<Rightarrow>
          remove_suffix (ascii ''.pst'') (ar_file args) @ (if ar_per_folder args \<or> ar_eml args then [] else MBOX_SUFFIX))"

section \<open>The run\<close>

datatype cli_output =
    Listing "ustring list"
  | OneMbox "(ustring \<times> bytes) list"
  | Mailboxes "(ustring \<times> (ustring \<times> bytes) list) list" "ustring list"
  | Emls "(ustring \<times> bytes) list"

text \<open>
  What is done inside the \<open>with\<close> block, on the root folder of the store: what is written or listed, and the tally. An
  exception that is not caught is a value here as everywhere; \<open>main\<close> catches the \<open>PstError\<close>s.
\<close>

definition cli_run ::
  "mail_writer \<Rightarrow> arguments \<Rightarrow> limits option \<Rightarrow> folder \<times> folder_state \<Rightarrow> pc_state \<Rightarrow> (cli_output \<times> tally option) result" where
  "cli_run mw args l root t =
     ebind (select_folders (ar_folders args) (ar_strict args) root) (\<lambda>selected.
     if ar_list args then Inr (Listing (list_folders selected), None)
     else if ar_per_folder args then
       (case fst (write_per_folder mw (ar_strict args) l selected t) of
          (boxes, r) \<Rightarrow> ebind r (\<lambda>(index, n). Inr (Mailboxes boxes index, Some (mk_tally selected n))))
     else if ar_eml args then
       (case fst (cli_write_eml mw (ar_strict args) l selected t) of
          (files, r) \<Rightarrow> ebind r (\<lambda>n. Inr (Emls files, Some (mk_tally selected n))))
     else
       (case fst (write_one_mbox mw (ar_strict args) l selected t) of
          (bs, r) \<Rightarrow> ebind r (\<lambda>n. Inr (OneMbox bs, Some (mk_tally selected n)))))"

definition exit_code :: "(cli_output \<times> tally option) result \<Rightarrow> int option" where
  "exit_code r = (case r of Inr _ \<Rightarrow> Some 0 | Inl e \<Rightarrow> if is_pst_error e then Some 1 else None)"

section \<open>What a run covers and counts\<close>

text \<open>C39: A folder is covered by \<open>--folder\<close> exactly when the components of the path asked for are the first components of its
  own: the folder itself and what is filed under it, never a sibling whose name merely starts the same way.\<close>

theorem path_matches_subtree:
  "path_matches path wanted = (wanted = [] \<or> list_ex (\<lambda>w. Sublist.prefix (split_on SLASH w) (split_on SLASH path)) wanted)"
proof -
  have "take (length (w @ [SLASH])) path = w @ [SLASH] \<longleftrightarrow> Sublist.prefix (w @ [SLASH]) path" for w
    by (metis append_eq_conv_conj prefix_def)
  then show ?thesis unfolding path_matches_def list_ex_iff split_on_prefix by blast
qed

text \<open>What is selected from a list of folders: those that match, with what each names.\<close>

definition selects :: "bool \<Rightarrow> path_node \<Rightarrow> selected \<Rightarrow> bool" where
  "selects strict y entry \<longleftrightarrow> fst (sel_folder entry) = fst (fst y) \<and> sel_path entry = snd y \<and>
     sel_message_ids entry = (case fst (Folder_message_ids (fst (fst y)) (snd (fst y))) of Inl e \<Rightarrow> None | Inr ids \<Rightarrow> Some ids) \<and>
     (strict \<longrightarrow> sel_message_ids entry \<noteq> None)"

lemma select_loop_Inr:
  "select_loop wanted strict ys = Inr entries \<Longrightarrow> list_all2 (selects strict) (filter (\<lambda>y. path_matches (snd y) wanted) ys) entries"
proof (induction wanted strict ys arbitrary: entries rule: select_loop.induct)
  case (2 wanted strict fo s path ys)
  show ?case
  proof (cases "path_matches path wanted")
    case False
    with 2 show ?thesis by simp
  next
    case True
    obtain r s' where run: "Folder_message_ids fo s = (r, s')" by fastforce
    show ?thesis
    proof (cases r)
      case (Inl e)
      with "2.prems" True run obtain rest where "is_pst_error e \<and> \<not> strict" "select_loop wanted strict ys = Inr rest"
        "entries = \<lparr>sel_folder = (fo, s'), sel_path = path, sel_message_ids = None\<rparr> # rest"
        by (auto simp: ebind_Inr_iff split: if_splits)
      with "2.IH"(2) True run Inl show ?thesis by (auto simp: selects_def)
    next
      case (Inr ids)
      with "2.prems" True run obtain rest where "select_loop wanted strict ys = Inr rest"
        "entries = \<lparr>sel_folder = (fo, s'), sel_path = path, sel_message_ids = Some ids\<rparr> # rest"
        by (auto simp: ebind_Inr_iff)
      with "2.IH"(3) True run Inr show ?thesis by (auto simp: selects_def)
    qed
  qed
qed simp

text \<open>C21: A run covers, in the order of the walk, exactly the folders whose path matches what was asked for, each with its path
  and the messages it names; a folder whose contents table refuses is covered without them, and only when the run is not
  strict. A run that asked for folders and covers none is a PstNotFoundError, so a selection is never silently empty.\<close>

theorem select_folders_exact:
  "case select_folders wanted strict root of
     Inl e \<Rightarrow> True
   | Inr entries \<Rightarrow>
       list_all2 (selects strict) (filter (\<lambda>y. path_matches (snd y) wanted) (fst (folder_paths True strict root))) entries \<and>
       snd (folder_paths True strict root) = None \<and> (if entries = [] then wanted = [] else True)"
proof -
  obtain ys err where walk: "folder_paths True strict root = (ys, err)" by fastforce
  show ?thesis
    by (auto simp: select_folders_def walk ebind_Inr_iff raise_if_Inr_iff dest: select_loop_Inr split: sum.split option.splits)
qed

lemma tallying_length:
  assumes "tallying strict f n xs t = ((bs, m, err), t')"
  shows "m = n + len bs" "len bs \<le> len xs" "err = None \<Longrightarrow> strict \<Longrightarrow> len bs = len xs"
proof -
  have c: "covers strict (map (\<lambda>x. ()) xs) (map (\<lambda>b. ()) bs) err"
    using tallying_covers [where g = "\<lambda>b. ()" and h = "\<lambda>x. ()", OF refl assms] by blast
  then have "length (map (\<lambda>b. ()) bs) \<le> length (map (\<lambda>x. ()) xs)" unfolding covers_def using list_emb_length by blast
  then show "len bs \<le> len xs" by simp
  show "m = n + len bs" using tallying_skipping [OF assms] by simp
  show "len bs = len xs" if "err = None" strict
    using c that unfolding covers_def by (metis length_map)
qed

lemma named_count_simps [simp]:
  "named_count [] = 0"
  "named_count (entry # entries) = (case sel_message_ids entry of None \<Rightarrow> 0 | Some ids \<Rightarrow> len ids) + named_count entries"
  by (simp_all add: named_count_def)

lemma named_count_nonneg: "0 \<le> named_count entries"
  unfolding named_count_def by (rule sum_list_nonneg) (auto split: option.split)

lemma one_mbox_counts:
  "one_mbox_loop mw strict l written entries t = ((bs, n, err), t') \<Longrightarrow>
   (err = None \<longrightarrow> n = written + len bs) \<and> len bs \<le> named_count entries \<and>
   (err = None \<longrightarrow> strict \<longrightarrow> len bs = named_count entries)"
proof (induction entries arbitrary: t bs written)
  case (Cons entry entries)
  show ?case
  proof (cases "sel_message_ids entry")
    case None
    with Cons.prems Cons.IH [of written t bs] show ?thesis by simp
  next
    case (Some ids)
    obtain cs many e1 t1 where run: "tallying strict (cli_message mw l entry) 0 ids t = ((cs, many, e1), t1)" by (metis prod.exhaust)
    note len = tallying_length [OF run]
    obtain ds n2 e2 t2 where more: "one_mbox_loop mw strict l (written + many) entries t1 = ((ds, n2, e2), t2)" by (metis prod.exhaust)
    show ?thesis
    proof (cases e1)
      case None
      with Cons.prems Some run more have "bs = cs @ ds" "n = n2" "err = e2" "t2 = t'" by simp_all
      with len Cons.IH [of "written + many" t1 ds] more None Some show ?thesis by simp
    next
      case (Some e)
      with Cons.prems \<open>sel_message_ids entry = Some ids\<close> run have "bs = cs" "err = Some e" by simp_all
      with len(2) named_count_nonneg [of entries] \<open>sel_message_ids entry = Some ids\<close> show ?thesis by simp
    qed
  qed
qed simp

text \<open>C40: The summary of a run that writes one mailbox adds up: written is the number of records in it, written and skipped
  together are the messages the covered folders name, skipped is never negative, and a strict run that ends has skipped
  nothing and no folder.\<close>

theorem one_mbox_tally_adds_up:
  "case select_folders wanted strict root of
     Inl e \<Rightarrow> True
   | Inr entries \<Rightarrow>
       (case write_one_mbox mw strict l entries t of ((bs, r), t') \<Rightarrow>
          (case r of
             Inl e \<Rightarrow> True
           | Inr n \<Rightarrow>
               ta_written (mk_tally entries n) = len bs \<and>
               ta_written (mk_tally entries n) + ta_skipped (mk_tally entries n) = named_count entries \<and>
               0 \<le> ta_skipped (mk_tally entries n) \<and>
               (if strict then ta_skipped (mk_tally entries n) = 0 \<and> ta_folders_skipped (mk_tally entries n) = 0 else True)))"
proof -
  have all: "filter (\<lambda>s. sel_message_ids s = None) entries = []" if "select_folders wanted True root = Inr entries" for entries
  proof -
    have "list_all2 (selects True) (filter (\<lambda>y. path_matches (snd y) wanted) (fst (folder_paths True True root))) entries"
      using that by (auto simp: select_folders_def ebind_Inr_iff dest: select_loop_Inr split: prod.splits option.splits)
    then show ?thesis by (auto simp: filter_empty_conv selects_def list_all2_conv_all_nth in_set_conv_nth)
  qed
  show ?thesis
  proof (cases "select_folders wanted strict root")
    case (Inr entries)
    obtain bs n err t' where run: "one_mbox_loop mw strict l 0 entries t = ((bs, n, err), t')" by (metis prod.exhaust)
    show ?thesis unfolding Inr sum.case write_one_mbox_def run prod.case
      using one_mbox_counts [OF run] all [of entries] Inr by (cases strict; cases err) (simp_all add: mk_tally_def)
  qed simp
qed

end
