(* ===== verification/Spec2Isabelle.thy ===== *)
theory Spec2Isabelle
  imports Pst_Embedded Pst_Mail_Headers Pst_Cli
begin

text \<open>
  A verification library for \<open>pypstreader\<close>, the reader of Outlook PST files under
  \<open>src/src/pypstreader/\<close>. It models the reader as functions from the bytes of a file to the values
  the reader returns or the exception it raises, and proves what makes it a correct and a safe reader.

  The program has the three layers the file format has, and on top of them the exports that turn a store into mail.

  \<^item> The node database (NDB) turns the file into nodes: numbered byte strings, each with a tree of
    sub-nodes. A header gives the roots of two B-trees of 512-byte pages, one from node id to the block
    ids of the node, one from block id to the place of the block in the file. A node's bytes are the
    leaves of a tree of blocks (XBLOCK, XXBLOCK); its sub-nodes are the leaves of another (SLBLOCK,
    SIBLOCK). Data blocks are obfuscated, and every page and block carries a CRC and a signature.
  \<^item> The lists, tables and properties layer (LTP) reads inside one node: a heap of small items, B-trees
    whose pages are heap items, property contexts and table contexts built on both.
  \<^item> The messaging layer gives the nodes their meaning as a store, folders, messages and attachments.
  \<^item> The exports assemble one mail from each message, walk the folders with the paths a human reads them by, and
    write the mails as files, as mailboxes or as one mailbox; the command chooses among them.

  Theories and the source they model (all paths below \<open>src/src/pypstreader/\<close>):

  \<^item> \<open>Pst_Prelude\<close>: \<open>errors.py\<close>, the result type, bytes, slices and \<open>struct\<close>
  \<^item> \<open>Pst_Limits\<close>: \<open>limits.py\<close>, the resource ceilings and the cycle guard \<open>VisitedSet\<close>
  \<^item> \<open>Pst_Crc\<close>: \<open>crc.py\<close>, \<open>block_sig.py\<close>
  \<^item> \<open>Pst_Encode\<close>: \<open>encode.py\<close>, \<open>_tables.py\<close>
  \<^item> \<open>Pst_Ids\<close>: \<open>ndb/ids.py\<close>
  \<^item> \<open>Pst_Header\<close>: \<open>ndb/header.py\<close>, \<open>ndb/root.py\<close>
  \<^item> \<open>Pst_Page\<close>: \<open>ndb/page.py\<close>
  \<^item> \<open>Pst_Search_Tree\<close>: search trees in general, the contract both kinds of B-tree meet
  \<^item> \<open>Pst_Btree\<close>: \<open>ndb/btree.py\<close>
  \<^item> \<open>Pst_Block\<close>: \<open>ndb/block.py\<close>
  \<^item> \<open>Pst_Heap\<close>: \<open>ltp/heap.py\<close>
  \<^item> \<open>Pst_Tree\<close>: \<open>ltp/tree.py\<close>
  \<^item> \<open>Pst_Prop_Type\<close>: \<open>ltp/prop_type.py\<close>
  \<^item> \<open>Pst_Prop_Context\<close>: \<open>ltp/prop_context.py\<close>
  \<^item> \<open>Pst_Table_Context\<close>: \<open>ltp/table_context.py\<close>
  \<^item> \<open>Pst_Named_Prop\<close>: \<open>messaging/named_prop.py\<close>
  \<^item> \<open>Pst_Rtf\<close>: \<open>rtf.py\<close>, \<open>_rtf_dictionary.py\<close>
  \<^item> \<open>Pst_Store\<close>: \<open>messaging/store.py\<close>
  \<^item> \<open>Pst_Walk\<close>: the walk of \<open>messaging/folder.py\<close>, in general
  \<^item> \<open>Pst_Tables\<close>: the tables folders and messages keep, and the interface that opens them
  \<^item> \<open>Pst_Folder\<close>: \<open>messaging/folder.py\<close>
  \<^item> \<open>Pst_Message\<close>: \<open>messaging/message.py\<close>
  \<^item> \<open>Pst_Attachment\<close>: \<open>messaging/attachment.py\<close>
  \<^item> \<open>Pst_File\<close>: no source of its own: a writer of whole files, which all the layers read back
  \<^item> \<open>Pst_Embedded\<close>: no source of its own: chains of messages carried in messages, and a written file whose chain is
    as long as the ceiling allows
  \<^item> \<open>Pst_Text\<close>: what the exports use of Python's strings, numbers and dates
  \<^item> \<open>Pst_Mail\<close>: \<open>eml.py\<close>, the assembly of one mail; \<open>Pst_Mail_Facts\<close>: what is in it; \<open>Pst_Mail_Total\<close>: that it
    depends on the message only, and what it raises; \<open>Pst_Mail_Headers\<close>: which headers and attachments it has, told
    from what the store holds of the message
  \<^item> \<open>Pst_Export\<close>: the exports of \<open>eml.py\<close>, and \<open>mbox.py\<close>, with the counters they keep and the order in which files
    come to be; \<open>Pst_Export_Facts\<close>: what they write
  \<^item> \<open>Pst_Cli\<close>: \<open>pypstreader.py\<close>, from the parsed arguments on

  How the model corresponds to the code. Python's unbounded integers are \<open>int\<close>; a byte string is a
  list of 8-bit words; a dataclass is a record whose fields carry a prefix, and \<open>mk_X\<close> is its
  constructor with the checks of \<open>__post_init__\<close>; an enumeration is a datatype with the map to its
  value. An operation that can raise returns \<open>error + 'a\<close>, with one branch per raise, composed by
  \<open>ebind\<close> in the order of the source; messages are not modelled, the exception class is. The file is
  its bytes, and \<open>file_read\<close> is a seek and a read of a file that does not fail (an \<open>OSError\<close> is not
  modelled). A generator is the list of what it yields with the exception it may end in. A cache is an
  explicit state threaded through the calls that read and fill it. A work-list loop is a function on
  its stack, its visited set and its cache, whose termination is proved from the room left in the
  visited set (\<open>vs_room\<close>): there is no fuel.

  Objects that remember (a heap, a property context, a folder, a message) are a record of what is fixed and a record of
  what is cached; an operation takes and returns the second. An export runs over two of them, a message and the store it
  is in (\<open>mail_state\<close>); each message has caches of its own and all share those of the store.

  What the lemmas show, group by group: parsers are total, raise only the package's own exceptions
  and read back what the writers of the model (\<open>_pack\<close>, \<open>_bytes\<close>, which serve to state the property)
  wrote; accepted pages, blocks and headers are refused after any burst of at most four altered
  bytes (of a header, within the 528 bytes its magic and its two checksums cover); walks over
  untrusted trees end, and succeed exactly when the tree loads within the limits; the lookup by descent agrees with the listing of the tree; caches are invisible. For the messaging layer \<open>behaves\<close>
  and \<open>remembers\<close> say that an operation gives one result from every good state of the caches and raises only what
  is named; the tables of folders and messages meet one interface (\<open>table_source\<close>), and the two walks, of folders and of
  folders with their paths, another (\<open>family\<close>). \<open>Pst_File\<close> ties the layers together: the bytes of a written file are
  read back, property by property, through all of them. For the exports \<open>safe\<close> is a triple (a state kept, exceptions
  allowed, a result described) and \<open>yields\<close> its case where only the result matters; from them follow what a mail can
  hold, where its headers come from, how deep it nests, and which boundaries it uses. \<open>covers\<close> relates what an export
  writes to what the folders name.

  Bounds. The loops over trees are measured by the room left in the visited set. The recursion over embedded messages runs
  on a stack of calls (\<open>assemble_levels\<close>), whose end is the \<open>RecursionError\<close> of Python; what stops it is
  \<open>check_depth\<close>, as in the source, and \<open>assemble_levels_enough\<close> shows that a stack as high as the limit never ends, so
  that \<open>mail_assemble_unfold\<close> is the recursion of the source. The loop that looks for a boundary counts its attempts.

  Parameters, for what is not under \<open>src/\<close>: a code page is what \<open>codecs\<close> decodes with it; the \<open>email\<close> package and the
  registry of codecs are the record \<open>mailer\<close> (what parsing headers gives, what setting a header or a boundary refuses,
  what adding a body or a part to those already there refuses, what a part is written as), and what \<open>as_bytes\<close> gives is
  \<open>mail_writer\<close>. Where a theorem relies on them it says so: \<open>guarded_ok\<close>, that the package refuses with the exceptions its documentation names.

  Not modelled: \<open>__str__\<close> and \<open>__repr__\<close> and the texts of exceptions, which no decision reads; the \<open>TypeError\<close>s of argument
  checks, which the types of the model rule out; opening and closing files, and \<open>OSError\<close>; how the \<open>email\<close> and \<open>mailbox\<close>
  packages serialise, \<open>argparse\<close> and what the command prints while it runs; \<open>debug.py\<close>, the dumper, which formats for a
  developer the values the modelled layers return; \<open>scripts/\<close>, the tooling of the repository. The walk of an export
  lists the sub-folders of a folder from the caches it had when it was yielded: what the loop over it reads meanwhile
  changes them, but not what they answer.
\<close>

end
